(* ===== verification/Prelude.thy ===== *)
theory Prelude
  imports Complex_Main
begin

text \<open>
  Shared vocabulary of the development: the fragment of Python's built-in types that the
  modelled code uses (strings and their methods, insertion-ordered dictionaries), generic
  list lemmas, the collections of simplification rules of the components, and the interface
  \<open>event_machine\<close> that every component with a state and a stream of events implements.

  A Python \<^verbatim>\<open>str\<close> is a \<^typ>\<open>string\<close> whose characters are the code points 0 to 255
  (Latin-1). On that range \<^verbatim>\<open>str.isspace\<close>, \<^verbatim>\<open>str.strip\<close>, \<^verbatim>\<open>str.lower\<close> and the class
  \<^verbatim>\<open>\s\<close> of \<^verbatim>\<open>re\<close> are written out below exactly as the interpreter defines them.
\<close>

named_theorems fsm_simps \<open>unfolding the conversation state machine\<close>
named_theorems scan_simps \<open>unfolding the string scanners\<close>
named_theorems od_simps \<open>laws of insertion-ordered dictionaries\<close>

section \<open>Strings\<close>

text \<open>\<^verbatim>\<open>str.isspace\<close> and the regular expression class \<^verbatim>\<open>\s\<close> on Latin-1.\<close>

definition py_space :: "char \<Rightarrow> bool" where
  "py_space c \<longleftrightarrow>
     (let n = (of_char c :: nat) in
        (9 \<le> n \<and> n \<le> 13) \<or> (28 \<le> n \<and> n \<le> 32) \<or> n = 133 \<or> n = 160)"

definition py_lstrip :: "string \<Rightarrow> string" where
  "py_lstrip s = dropWhile py_space s"

definition py_rstrip :: "string \<Rightarrow> string" where
  "py_rstrip s = rev (dropWhile py_space (rev s))"

definition py_strip :: "string \<Rightarrow> string" where
  "py_strip s = py_rstrip (py_lstrip s)"

text \<open>
  \<^verbatim>\<open>str.lower\<close> on Latin-1: A to Z, and the accented capitals 192 to 222 except the
  multiplication sign 215.
\<close>

definition py_lower_char :: "char \<Rightarrow> char" where
  "py_lower_char c =
     (let n = (of_char c :: nat) in
        if (65 \<le> n \<and> n \<le> 90) \<or> (192 \<le> n \<and> n \<le> 222 \<and> n \<noteq> 215)
        then char_of (n + 32) else c)"

definition py_lower :: "string \<Rightarrow> string" where
  "py_lower s = map py_lower_char s"

definition ascii_upper :: "char \<Rightarrow> bool" where
  "ascii_upper c \<longleftrightarrow> (let n = (of_char c :: nat) in 65 \<le> n \<and> n \<le> 90)"

definition ascii_lower :: "char \<Rightarrow> bool" where
  "ascii_lower c \<longleftrightarrow> (let n = (of_char c :: nat) in 97 \<le> n \<and> n \<le> 122)"

definition ascii_digit :: "char \<Rightarrow> bool" where
  "ascii_digit c \<longleftrightarrow> (let n = (of_char c :: nat) in 48 \<le> n \<and> n \<le> 57)"

text \<open>\<^verbatim>\<open>sub in s\<close>, \<^verbatim>\<open>s.startswith(p)\<close>, \<^verbatim>\<open>s.rfind(sub)\<close>.\<close>

fun starts_with :: "'a list \<Rightarrow> 'a list \<Rightarrow> bool" where
  "starts_with [] s = True"
| "starts_with (p # ps) [] = False"
| "starts_with (p # ps) (c # s) = (p = c \<and> starts_with ps s)"

fun py_in :: "'a list \<Rightarrow> 'a list \<Rightarrow> bool" where
  "py_in sub [] = (sub = [])"
| "py_in sub (c # s) = (starts_with sub (c # s) \<or> py_in sub s)"

fun py_rfind :: "'a list \<Rightarrow> 'a list \<Rightarrow> nat option" where
  "py_rfind sub [] = (if sub = [] then Some 0 else None)"
| "py_rfind sub (c # s) =
     (case py_rfind sub s of
        Some n \<Rightarrow> Some (Suc n)
      | None \<Rightarrow> if starts_with sub (c # s) then Some 0 else None)"

text \<open>\<^verbatim>\<open>sep.join(parts)\<close>.\<close>

fun py_join :: "string \<Rightarrow> string list \<Rightarrow> string" where
  "py_join sep [] = []"
| "py_join sep [x] = x"
| "py_join sep (x # y # xs) = x @ sep @ py_join sep (y # xs)"

text \<open>\<^verbatim>\<open>str(n)\<close> for an integer.\<close>

fun nat_digits :: "nat \<Rightarrow> string" where
  "nat_digits n = (if n < 10 then [char_of (48 + n)] else nat_digits (n div 10) @ [char_of (48 + n mod 10)])"

declare nat_digits.simps [simp del]

definition py_str_int :: "int \<Rightarrow> string" where
  "py_str_int n = (if n < 0 then CHR ''-'' # nat_digits (nat (- n)) else nat_digits (nat n))"

lemma starts_with_iff: "starts_with p s \<longleftrightarrow> (\<exists>r. s = p @ r)"
  by (induction p s rule: starts_with.induct) auto

lemma py_in_iff: "py_in sub s \<longleftrightarrow> (\<exists>a b. s = a @ sub @ b)"
proof (induction s)
  case Nil
  then show ?case by auto
next
  case (Cons c s)
  show ?case
  proof
    assume "py_in sub (c # s)"
    then consider "starts_with sub (c # s)" | "py_in sub s" by auto
    then show "\<exists>a b. c # s = a @ sub @ b"
    proof cases
      case 1
      then show ?thesis by (auto simp: starts_with_iff intro: exI [of _ "[]"])
    next
      case 2
      then obtain a b where "s = a @ sub @ b" using Cons.IH by auto
      then have "c # s = (c # a) @ sub @ b" by simp
      then show ?thesis by blast
    qed
  next
    assume "\<exists>a b. c # s = a @ sub @ b"
    then obtain a b where eq: "c # s = a @ sub @ b" by blast
    show "py_in sub (c # s)"
    proof (cases a)
      case Nil
      with eq have "starts_with sub (c # s)" unfolding starts_with_iff by auto
      then show ?thesis by simp
    next
      case (Cons d a')
      then have "s = a' @ sub @ b" using eq by simp
      then show ?thesis using Cons.IH by auto
    qed
  qed
qed

lemma py_in_append: "py_in sub s \<Longrightarrow> py_in sub (a @ s @ b)"
  unfolding py_in_iff by (metis append.assoc)

lemma set_py_strip: "set (py_strip s) \<subseteq> set s"
  unfolding py_strip_def py_rstrip_def py_lstrip_def
  by (metis set_dropWhileD set_rev subsetI)

lemma dropWhile_hd: "dropWhile P xs = y # ys \<Longrightarrow> \<not> P y"
  by (metis hd_dropWhile list.distinct(1) list.sel(1))

lemma last_rev_dropWhile: "rev (dropWhile P (rev xs)) \<noteq> [] \<Longrightarrow> \<not> P (last (rev (dropWhile P (rev xs))))"
  by (metis hd_dropWhile last_rev rev.simps(1) rev_rev_ident)

lemma length_one_conv: "length xs = 1 \<Longrightarrow> \<exists>x. xs = [x]"
  by (cases xs) auto

lemma length_drop_dropWhile_le: "length (drop n (dropWhile P xs)) \<le> length xs"
  by (metis diff_le_self le_trans length_drop length_dropWhile_le)

lemma length_dropWhile2_le: "length (dropWhile P (dropWhile Q xs)) \<le> length xs"
  by (meson le_trans length_dropWhile_le)

lemma starts_with_append: "starts_with p s \<Longrightarrow> starts_with p (s @ t)"
  by (auto simp: starts_with_iff)

lemma starts_with_append_long:
  "length p \<le> length s \<Longrightarrow> starts_with p (s @ t) = starts_with p s"
  by (induction p s rule: starts_with.induct) auto

lemma py_in_drop_iff: "py_in sub s \<longleftrightarrow> (\<exists>m. starts_with sub (drop m s) \<and> m \<le> length s)"
  unfolding py_in_iff starts_with_iff
  by (metis append_take_drop_id append_eq_conv_conj length_append le_add1)

lemma py_rfind_Some:
  assumes "py_rfind sub s = Some n" and "sub \<noteq> []"
  shows "n \<le> length s \<and> starts_with sub (drop n s) \<and> (\<forall>m. n < m \<longrightarrow> \<not> starts_with sub (drop m s))"
  using assms
proof (induction s arbitrary: n)
  case Nil
  then show ?case by simp
next
  case (Cons c s)
  show ?case
  proof (cases "py_rfind sub s")
    case None
    have no: "\<not> starts_with sub (drop m s)" for m
      using None Cons.prems(2)
    proof (induction s arbitrary: m)
      case Nil
      then show ?case by (cases sub) auto
    next
      case (Cons d s)
      then show ?case by (cases m) (auto split: option.splits if_splits)
    qed
    have "\<not> starts_with sub (drop m (c # s))" if "0 < m" for m
      using that no [of "m - 1"] by (cases m) auto
    with None Cons.prems show ?thesis by (auto split: if_splits)
  next
    case (Some k)
    with Cons.prems have n: "n = Suc k" by simp
    have k: "k \<le> length s \<and> starts_with sub (drop k s) \<and> (\<forall>m. k < m \<longrightarrow> \<not> starts_with sub (drop m s))"
      using Cons.IH [OF Some Cons.prems(2)] .
    have "\<not> starts_with sub (drop m (c # s))" if "Suc k < m" for m
      using that k by (cases m) auto
    with k n show ?thesis by simp
  qed
qed

lemma py_rfind_None: "py_rfind sub s = None \<Longrightarrow> sub \<noteq> [] \<Longrightarrow> \<not> starts_with sub (drop m s)"
proof (induction s arbitrary: m)
  case Nil
  then show ?case by (cases sub) auto
next
  case (Cons c s)
  then show ?case by (cases m) (auto split: option.splits if_splits)
qed

lemma py_rstrip_append: "\<exists>t. s = py_rstrip s @ t"
proof -
  have "rev s = takeWhile py_space (rev s) @ dropWhile py_space (rev s)" by simp
  then have "s = rev (dropWhile py_space (rev s)) @ rev (takeWhile py_space (rev s))"
    by (metis rev_append rev_rev_ident)
  then show ?thesis unfolding py_rstrip_def by blast
qed

lemma py_strip_first: "py_strip s \<noteq> [] \<Longrightarrow> \<not> py_space (hd (py_strip s))"
proof -
  assume ne: "py_strip s \<noteq> []"
  obtain t where t: "py_lstrip s = py_strip s @ t"
    unfolding py_strip_def using py_rstrip_append by blast
  have "dropWhile py_space s = hd (py_strip s) # (tl (py_strip s) @ t)"
    using t ne unfolding py_lstrip_def by (cases "py_strip s") auto
  then show ?thesis by (rule dropWhile_hd)
qed

lemma py_strip_last: "py_strip s \<noteq> [] \<Longrightarrow> \<not> py_space (last (py_strip s))"
  unfolding py_strip_def py_rstrip_def by (rule last_rev_dropWhile)

lemma py_lstrip_id: "s = [] \<or> \<not> py_space (hd s) \<Longrightarrow> py_lstrip s = s"
  by (cases s) (auto simp: py_lstrip_def)

lemma py_rstrip_id: "s = [] \<or> \<not> py_space (last s) \<Longrightarrow> py_rstrip s = s"
  by (cases s rule: rev_cases) (auto simp: py_rstrip_def)

lemma py_strip_idem [simp]: "py_strip (py_strip s) = py_strip s"
proof -
  have "py_lstrip (py_strip s) = py_strip s" by (rule py_lstrip_id) (metis py_strip_first)
  moreover have "py_rstrip (py_strip s) = py_strip s" by (rule py_rstrip_id) (metis py_strip_last)
  ultimately show ?thesis by (simp add: py_strip_def)
qed

section \<open>Insertion-ordered dictionaries\<close>

text \<open>
  A Python \<^verbatim>\<open>dict\<close> or \<^verbatim>\<open>OrderedDict\<close> iterates in insertion order: it is the list of its
  items. Assigning to a present key keeps its place, a new key goes to the end.
\<close>

type_synonym ('k, 'v) odict = "('k \<times> 'v) list"

fun od_set :: "'k \<Rightarrow> 'v \<Rightarrow> ('k, 'v) odict \<Rightarrow> ('k, 'v) odict" where
  "od_set k v [] = [(k, v)]"
| "od_set k v ((a, b) # d) = (if a = k then (a, v) # d else (a, b) # od_set k v d)"

definition od_get :: "('k, 'v) odict \<Rightarrow> 'k \<Rightarrow> 'v option" where
  "od_get d k = map_of d k"

definition od_del :: "'k \<Rightarrow> ('k, 'v) odict \<Rightarrow> ('k, 'v) odict" where
  "od_del k d = filter (\<lambda>p. fst p \<noteq> k) d"

text \<open>\<^verbatim>\<open>OrderedDict.move_to_end(k)\<close> for a present key.\<close>

definition od_move_to_end :: "'k \<Rightarrow> ('k, 'v) odict \<Rightarrow> ('k, 'v) odict" where
  "od_move_to_end k d = od_del k d @ filter (\<lambda>p. fst p = k) d"

text \<open>\<^verbatim>\<open>OrderedDict.popitem(last=False)\<close>: the oldest entry goes.\<close>

definition od_popitem_first :: "('k, 'v) odict \<Rightarrow> ('k, 'v) odict" where
  "od_popitem_first d = tl d"

abbreviation od_keys :: "('k, 'v) odict \<Rightarrow> 'k list" where
  "od_keys d \<equiv> map fst d"

abbreviation od_ok :: "('k, 'v) odict \<Rightarrow> bool" where
  "od_ok d \<equiv> distinct (map fst d)"

text \<open>
  The interface of a dictionary: what its clients may rely on. Every operation keeps the keys
  distinct, a lookup after a write or a delete is the expected one, and the operations that only
  reorder do not change any lookup.
\<close>

locale dict_spec =
  fixes get :: "'d \<Rightarrow> 'k \<Rightarrow> 'v option"
    and put :: "'k \<Rightarrow> 'v \<Rightarrow> 'd \<Rightarrow> 'd"
    and del :: "'k \<Rightarrow> 'd \<Rightarrow> 'd"
    and touch :: "'k \<Rightarrow> 'd \<Rightarrow> 'd"
    and count :: "'d \<Rightarrow> nat"
    and invar :: "'d \<Rightarrow> bool"
  assumes invar_put: "invar d \<Longrightarrow> invar (put k v d)"
    and invar_del: "invar d \<Longrightarrow> invar (del k d)"
    and invar_touch: "invar d \<Longrightarrow> invar (touch k d)"
    and get_put: "get (put k v d) j = (if j = k then Some v else get d j)"
    and get_del: "get (del k d) j = (if j = k then None else get d j)"
    and get_touch: "invar d \<Longrightarrow> get (touch k d) j = get d j"
    and count_put: "count (put k v d) = (if get d k = None then Suc (count d) else count d)"
    and count_del: "count (del k d) \<le> count d"
    and count_touch: "count (touch k d) = count d"
begin

lemma put_put_same: "get (put k w (put k v d)) j = get (put k w d) j"
  by (simp add: get_put)

lemma count_put_le: "count (put k v d) \<le> Suc (count d)"
  by (simp add: count_put)

lemma del_put_get: "j \<noteq> k \<Longrightarrow> get (del k (put k v d)) j = get d j"
  by (simp add: get_put get_del)

lemma touch_put_get: "invar d \<Longrightarrow> get (touch k (put k v d)) k = Some v"
  by (simp add: get_touch get_put invar_put)

end

lemma od_get_set [od_simps, simp]: "od_get (od_set k v d) j = (if j = k then Some v else od_get d j)"
  by (induction k v d rule: od_set.induct) (auto simp: od_get_def)

lemma od_get_del [od_simps, simp]: "od_get (od_del k d) j = (if j = k then None else od_get d j)"
  by (induction d) (auto simp: od_get_def od_del_def)

lemma od_get_None_iff: "od_get d k = None \<longleftrightarrow> k \<notin> set (od_keys d)"
  by (simp add: od_get_def map_of_eq_None_iff image_iff)

lemma od_keys_set: "od_keys (od_set k v d) = (if k \<in> set (od_keys d) then od_keys d else od_keys d @ [k])"
  by (induction k v d rule: od_set.induct) auto

lemma set_od_keys_set [simp]: "set (od_keys (od_set k v d)) = insert k (set (od_keys d))"
  unfolding od_keys_set by auto

lemma length_od_set [od_simps]: "length (od_set k v d) = (if od_get d k = None then Suc (length d) else length d)"
  by (induction k v d rule: od_set.induct) (auto simp: od_get_def)

lemma od_ok_set [od_simps, simp]: "od_ok d \<Longrightarrow> od_ok (od_set k v d)"
  unfolding od_keys_set by auto

lemma od_keys_del: "od_keys (od_del k d) = filter (\<lambda>j. j \<noteq> k) (od_keys d)"
  by (induction d) (auto simp: od_del_def)

lemma od_ok_del [od_simps, simp]: "od_ok d \<Longrightarrow> od_ok (od_del k d)"
  unfolding od_keys_del by simp

lemma length_od_del [od_simps]: "length (od_del k d) \<le> length d"
  by (simp add: od_del_def)

lemma od_ok_move_to_end [od_simps, simp]: "od_ok d \<Longrightarrow> od_ok (od_move_to_end k d)"
  by (auto simp: od_move_to_end_def od_del_def distinct_map_filter)

lemma length_od_move_to_end [od_simps, simp]: "length (od_move_to_end k d) = length d"
proof -
  have "length (filter (\<lambda>p. fst p \<noteq> k) d) + length (filter (\<lambda>p. fst p = k) d) = length d"
    by (induction d) auto
  then show ?thesis by (simp add: od_move_to_end_def od_del_def)
qed

lemma map_of_filter_neq: "map_of (filter (\<lambda>p. fst p \<noteq> k) d) j = (if j = k then None else map_of d j)"
  by (induction d) auto

lemma map_of_filter_eq: "map_of (filter (\<lambda>p. fst p = k) d) j = (if j = k then map_of d j else None)"
  by (induction d) auto

lemma od_get_move_to_end [od_simps, simp]: "od_get (od_move_to_end k d) j = od_get d j"
  by (simp add: od_get_def od_move_to_end_def od_del_def map_add_def
      map_of_filter_neq map_of_filter_eq split: option.splits)

interpretation od: dict_spec od_get od_set od_del od_move_to_end length od_ok
  by unfold_locales (simp_all add: od_simps)

lemma od_get_SomeD: "od_get d k = Some v \<Longrightarrow> (k, v) \<in> set d"
  by (auto simp: od_get_def dest: map_of_SomeD)

lemma od_get_in_set: "od_ok d \<Longrightarrow> (k, v) \<in> set d \<Longrightarrow> od_get d k = Some v"
  by (simp add: od_get_def)

lemma od_set_new: "od_get d k = None \<Longrightarrow> od_set k v d = d @ [(k, v)]"
  by (induction k v d rule: od_set.induct) (auto simp: od_get_def split: if_splits)

lemma set_od_set_subset: "set (od_set k v d) \<subseteq> insert (k, v) (set d)"
  by (induction k v d rule: od_set.induct) auto

lemma set_move_to_end [simp]: "set (od_move_to_end k d) = set d"
  by (auto simp: od_move_to_end_def od_del_def)

lemma set_od_del: "set (od_del k d) \<subseteq> set d"
  by (auto simp: od_del_def)

lemma od_popitem_ok: "od_ok d \<Longrightarrow> od_ok (od_popitem_first d)"
  by (cases d) (auto simp: od_popitem_first_def)

section \<open>Machines driven by events\<close>

text \<open>
  Several components are a state and a function that takes one event: what holds at the start and
  is kept by every event holds after every sequence of events.
\<close>

locale event_machine =
  fixes init :: 's
    and step :: "'e \<Rightarrow> 's \<Rightarrow> 's"
    and inv :: "'s \<Rightarrow> bool"
  assumes inv_init: "inv init"
    and inv_step: "inv s \<Longrightarrow> inv (step e s)"
begin

lemma inv_fold: "inv s \<Longrightarrow> inv (fold step es s)"
  by (induction es arbitrary: s) (auto intro: inv_step)

lemma inv_run: "inv (fold step es init)"
  by (rule inv_fold) (rule inv_init)

lemma inv_prefix: "inv (fold step (take n es) init)"
  by (rule inv_run)

end

end
