(* ===== verification/Py_Values.thy ===== *)
theory Py_Values
  imports Prelude
begin

text \<open>
  The values that \<^verbatim>\<open>json.loads\<close> produces, and the built-in operations the code applies to
  them: truth value, \<^verbatim>\<open>str()\<close>, \<^verbatim>\<open>int()\<close>, \<^verbatim>\<open>dict.get\<close>, \<^verbatim>\<open>x or y\<close>. A finite
  float carries its exact value and the text its \<^verbatim>\<open>repr\<close> prints, so that no floating-point
  printing has to be modelled: what is proved holds for every such text.
\<close>

datatype pyval =
    PNone
  | PBool bool
  | PInt int
  | PFloat rat string
  | PInf bool
  | PNaN
  | PStr string
  | PList "pyval list"
  | PDict "(string \<times> pyval) list"

datatype py_exn = TypeError | ValueError | OverflowError | KeyError

fun truthy :: "pyval \<Rightarrow> bool" where
  "truthy PNone = False"
| "truthy (PBool b) = b"
| "truthy (PInt n) = (n \<noteq> 0)"
| "truthy (PFloat q _) = (q \<noteq> 0)"
| "truthy (PInf _) = True"
| "truthy PNaN = True"
| "truthy (PStr s) = (s \<noteq> [])"
| "truthy (PList xs) = (xs \<noteq> [])"
| "truthy (PDict d) = (d \<noteq> [])"

text \<open>\<^verbatim>\<open>x or y\<close>.\<close>

definition py_or :: "pyval \<Rightarrow> pyval \<Rightarrow> pyval" where
  "py_or x y = (if truthy x then x else y)"

text \<open>\<^verbatim>\<open>d.get(k)\<close> on a dictionary.\<close>

definition py_get :: "(string \<times> pyval) list \<Rightarrow> string \<Rightarrow> pyval" where
  "py_get d k = (case od_get d k of Some v \<Rightarrow> v | None \<Rightarrow> PNone)"

text \<open>\<^verbatim>\<open>repr\<close> of a string: its quotes and escapes, on Latin-1.\<close>

definition hex_digit :: "nat \<Rightarrow> char" where
  "hex_digit n = (if n < 10 then char_of (48 + n) else char_of (87 + n))"

definition repr_char :: "char \<Rightarrow> char \<Rightarrow> string" where
  "repr_char q c =
     (let n = (of_char c :: nat) in
      if c = q \<or> n = 92 then [char_of (92::nat), c]
      else if n = 9 then [char_of (92::nat), CHR ''t'']
      else if n = 10 then [char_of (92::nat), CHR ''n'']
      else if n = 13 then [char_of (92::nat), CHR ''r'']
      else if n < 32 \<or> (127 \<le> n \<and> n \<le> 160) \<or> n = 173
        then [char_of (92::nat), CHR ''x'', hex_digit (n div 16), hex_digit (n mod 16)]
      else [c])"

definition repr_str :: "string \<Rightarrow> string" where
  "repr_str s =
     (let q = (if CHR 0x27 \<in> set s \<and> CHR 0x22 \<notin> set s then CHR 0x22 else CHR 0x27)
      in [q] @ concat (map (repr_char q) s) @ [q])"

fun py_repr :: "pyval \<Rightarrow> string" where
  "py_repr PNone = ''None''"
| "py_repr (PBool b) = (if b then ''True'' else ''False'')"
| "py_repr (PInt n) = py_str_int n"
| "py_repr (PFloat _ r) = r"
| "py_repr (PInf neg) = (if neg then ''-inf'' else ''inf'')"
| "py_repr PNaN = ''nan''"
| "py_repr (PStr s) = repr_str s"
| "py_repr (PList xs) = ''['' @ py_join '', '' (map py_repr xs) @ '']''"
| "py_repr (PDict d) = ''{'' @ py_join '', '' (map (\<lambda>(k, v). repr_str k @ '': '' @ py_repr v) d) @ ''}''"

fun py_str :: "pyval \<Rightarrow> string" where
  "py_str (PStr s) = s"
| "py_str v = py_repr v"

text \<open>
  \<^verbatim>\<open>int()\<close> of a string: surrounding whitespace, a sign, decimal digits with single
  underscores between them, and the interpreter's limit of 4300 digits.
\<close>

fun digits_ok :: "string \<Rightarrow> bool" where
  "digits_ok [] = False"
| "digits_ok [c] = ascii_digit c"
| "digits_ok (c # d # s) =
     (ascii_digit c \<and> (if d = CHR ''_'' then digits_ok s else digits_ok (d # s)))"

definition digits_value :: "string \<Rightarrow> int" where
  "digits_value s = foldl (\<lambda>n c. 10 * n + int (of_char c) - 48) 0 (filter ascii_digit s)"

definition py_int_of_string :: "string \<Rightarrow> int option" where
  "py_int_of_string s0 =
     (let s = py_strip s0;
          neg = (s \<noteq> [] \<and> hd s = CHR ''-'');
          body = (if s \<noteq> [] \<and> (hd s = CHR ''-'' \<or> hd s = CHR ''+'') then tl s else s)
      in if digits_ok body \<and> length (filter ascii_digit body) \<le> 4300
         then Some (if neg then - digits_value body else digits_value body) else None)"

text \<open>Truncation towards zero, as \<^verbatim>\<open>int()\<close> does on floats.\<close>

definition trunc_rat :: "rat \<Rightarrow> int" where
  "trunc_rat q = (if q < 0 then - \<lfloor>- q\<rfloor> else \<lfloor>q\<rfloor>)"

fun py_int :: "pyval \<Rightarrow> py_exn + int" where
  "py_int (PInt n) = Inr n"
| "py_int (PBool b) = Inr (if b then 1 else 0)"
| "py_int (PFloat q _) = Inr (trunc_rat q)"
| "py_int (PInf _) = Inl OverflowError"
| "py_int PNaN = Inl ValueError"
| "py_int (PStr s) = (case py_int_of_string s of Some n \<Rightarrow> Inr n | None \<Rightarrow> Inl ValueError)"
| "py_int v = Inl TypeError"

lemma truthy_PStr_or [simp]: "py_str (py_or (PStr s) (PStr [])) = s"
  by (simp add: py_or_def)

lemma py_str_or_None [simp]: "py_str (py_or PNone (PStr [])) = []"
  by (simp add: py_or_def)

lemma py_get_Cons: "py_get ((a, v) # d) k = (if k = a then v else py_get d k)"
  by (simp add: py_get_def od_get_def)

lemma py_get_Nil [simp]: "py_get [] k = PNone"
  by (simp add: py_get_def od_get_def)

end
