(* ===== verification/Config_Models.thy ===== *)
theory Config_Models
  imports Py_Values
begin

text \<open>
  The configuration objects every other part reads (\<^verbatim>\<open>libs/config_sdk/models.py\<close>): one record per
  dataclass with the source's fields, and the bounds check of the transfer timeout. A point in time
  is its number of microseconds, and missing where a row has none; a float is its exact value.
\<close>

type_synonym instant = int

record tenant =
  tn_id :: string
  tn_slug :: string
  tn_name :: string
  tn_region :: string
  tn_vad_engine :: "string option"
  tn_vad_onset_ms :: "int option"
  tn_vad_hold_ms :: "int option"
  tn_vad_speech_threshold :: "rat option"
  tn_no_speech_timeout_ms :: "int option"
  tn_stt_timeout_ms :: "int option"
  tn_llm_timeout_ms :: "int option"
  tn_transfer_timeout_ms :: "int option"
  tn_default_stt_config_id :: "string option"
  tn_default_llm_config_id :: "string option"
  tn_default_tts_config_id :: "string option"
  tn_config_version :: int
  tn_updated_at :: "instant option"

record agent =
  ag_id :: string
  ag_slug :: string
  ag_tenant_id :: string
  ag_name :: string
  ag_greeting :: string
  ag_system_prompt :: string
  ag_goodbye_grace_ms :: int
  ag_stt_config_id :: "string option"
  ag_llm_config_id :: "string option"
  ag_tts_config_id :: "string option"
  ag_status :: string
  ag_config_version :: int
  ag_updated_at :: "instant option"
  ag_language :: "string option"
  ag_end_call_prompt :: "string option"
  ag_transfer_prompt :: "string option"
  ag_farewell_message :: "string option"
  ag_transfer_announcement :: "string option"
  ag_transfer_type :: string
  ag_transfer_destination :: "string option"
  ag_queue_id :: "string option"
  ag_escalation_threshold :: "int option"
  ag_caller_id_policy :: string
  ag_platform_did :: "string option"
  ag_custom_caller_id :: "string option"
  ag_transfer_waiting_experience :: string
  ag_max_call_duration_s :: "int option"
  ag_workflow :: "pyval option"
  ag_workflow_draft :: "pyval option"

record provider_config =
  pc_id :: string
  pc_role :: string
  pc_engine :: string
  pc_model :: "string option"
  pc_voice :: "string option"
  pc_language :: "string option"
  pc_api_key_ref :: "string option"
  pc_extra :: "(string \<times> pyval) list"
  pc_updated_at :: "instant option"

record tool_spec =
  ts_name :: string
  ts_config :: "(string \<times> pyval) list"

record provider_configs =
  pcs_stt :: provider_config
  pcs_llm :: provider_config
  pcs_tts :: provider_config

record conversation_info =
  ci_greeting :: string
  ci_system_prompt :: string
  ci_goodbye_prompt :: "string option"
  ci_fallback_prompt :: "string option"
  ci_end_call_prompt :: "string option"
  ci_transfer_prompt :: "string option"
  ci_farewell_message :: "string option"
  ci_transfer_announcement :: "string option"
  ci_workflow :: pyval
  ci_workflow_draft :: pyval

record media_info =
  mi_voice :: "string option"
  mi_language :: "string option"
  mi_sample_rate :: int

record policies =
  po_vad_engine :: "string option"
  po_vad_onset_ms :: "int option"
  po_vad_hold_ms :: "int option"
  po_vad_speech_threshold :: "rat option"
  po_silence_timeout_ms :: "int option"
  po_stt_timeout_ms :: "int option"
  po_llm_timeout_ms :: "int option"
  po_goodbye_grace_ms :: int
  po_barge_in_enabled :: "bool option"
  po_max_call_duration_s :: "int option"
  po_transfer_type :: string
  po_transfer_destination :: "string option"
  po_queue_id :: "string option"
  po_escalation_threshold :: "int option"
  po_caller_id_policy :: string
  po_platform_did :: "string option"
  po_custom_caller_id :: "string option"
  po_transfer_waiting_experience :: string
  po_transfer_timeout_ms :: int

record runtime_config =
  rc_tenant :: tenant
  rc_agent :: agent
  rc_providers :: provider_configs
  rc_conversation :: conversation_info
  rc_media :: media_info
  rc_policies :: policies
  rc_tools :: "tool_spec list"
  rc_version :: int
  rc_resolved_at :: instant

section \<open>The transfer timeout\<close>

definition TRANSFER_TIMEOUT_MIN_MS :: int where
  "TRANSFER_TIMEOUT_MIN_MS = 10000"

definition TRANSFER_TIMEOUT_DEFAULT_MS :: int where
  "TRANSFER_TIMEOUT_DEFAULT_MS = 45000"

definition TRANSFER_TIMEOUT_MAX_MS :: int where
  "TRANSFER_TIMEOUT_MAX_MS = 120000"

text \<open>Only \<^verbatim>\<open>TypeError\<close> and \<^verbatim>\<open>ValueError\<close> are caught.\<close>

definition validate_transfer_timeout_ms :: "pyval \<Rightarrow> py_exn + int" where
  "validate_transfer_timeout_ms value =
     (case (case py_int value of
              Inl TypeError \<Rightarrow> Inr (-1)
            | Inl ValueError \<Rightarrow> Inr (-1)
            | r \<Rightarrow> r) of
        Inl e \<Rightarrow> Inl e
      | Inr ms \<Rightarrow>
          Inr (if TRANSFER_TIMEOUT_MIN_MS \<le> ms \<and> ms \<le> TRANSFER_TIMEOUT_MAX_MS then ms
               else TRANSFER_TIMEOUT_DEFAULT_MS))"

lemma py_int_exn: "py_int v = Inl e \<Longrightarrow> e = TypeError \<or> e = ValueError \<or> (e = OverflowError \<and> (\<exists>b. v = PInf b))"
  by (cases v) (auto split: option.splits)

text \<open>
  The transfer timeout that is used is the configured one when it lies between 10 and 120
  seconds and 45 seconds otherwise, whatever type the configured value has. The function is
  documented to never raise; the one value for which it does is an infinite float.
\<close>

theorem transfer_timeout_bounded:
  "(case validate_transfer_timeout_ms value of
      Inr ms \<Rightarrow>
        TRANSFER_TIMEOUT_MIN_MS \<le> ms \<and> ms \<le> TRANSFER_TIMEOUT_MAX_MS \<and>
        (ms = TRANSFER_TIMEOUT_DEFAULT_MS \<or> py_int value = Inr ms)
    | Inl e \<Rightarrow> e = OverflowError \<and> (\<exists>neg. value = PInf neg))"
proof (cases "py_int value")
  case (Inl e)
  then show ?thesis
    using py_int_exn [OF Inl]
    by (auto simp: validate_transfer_timeout_ms_def TRANSFER_TIMEOUT_MIN_MS_def
        TRANSFER_TIMEOUT_DEFAULT_MS_def TRANSFER_TIMEOUT_MAX_MS_def)
qed (auto simp: validate_transfer_timeout_ms_def TRANSFER_TIMEOUT_MIN_MS_def
      TRANSFER_TIMEOUT_DEFAULT_MS_def TRANSFER_TIMEOUT_MAX_MS_def)

section \<open>A configuration for the concrete examples\<close>

definition sample_provider :: provider_config where
  "sample_provider =
     \<lparr>pc_id = ''p'', pc_role = ''llm'', pc_engine = ''ollama'', pc_model = None, pc_voice = None,
      pc_language = None, pc_api_key_ref = None, pc_extra = [], pc_updated_at = None\<rparr>"

definition sample_tenant :: tenant where
  "sample_tenant =
     \<lparr>tn_id = ''t1'', tn_slug = ''acme'', tn_name = ''Acme'', tn_region = ''in'', tn_vad_engine = None,
      tn_vad_onset_ms = None, tn_vad_hold_ms = None, tn_vad_speech_threshold = None,
      tn_no_speech_timeout_ms = None, tn_stt_timeout_ms = None, tn_llm_timeout_ms = None,
      tn_transfer_timeout_ms = None, tn_default_stt_config_id = None, tn_default_llm_config_id = None,
      tn_default_tts_config_id = None, tn_config_version = 1, tn_updated_at = Some 0\<rparr>"

definition sample_agent :: agent where
  "sample_agent =
     \<lparr>ag_id = ''a1'', ag_slug = ''front-desk'', ag_tenant_id = ''t1'', ag_name = ''Front desk'',
      ag_greeting = ''Hello'', ag_system_prompt = ''Be kind.'', ag_goodbye_grace_ms = 500,
      ag_stt_config_id = None, ag_llm_config_id = None, ag_tts_config_id = None,
      ag_status = ''active'', ag_config_version = 3, ag_updated_at = Some 0, ag_language = None,
      ag_end_call_prompt = None, ag_transfer_prompt = None, ag_farewell_message = None,
      ag_transfer_announcement = None, ag_transfer_type = ''warm'', ag_transfer_destination = Some ''+100'',
      ag_queue_id = None, ag_escalation_threshold = None, ag_caller_id_policy = ''original'',
      ag_platform_did = None, ag_custom_caller_id = None,
      ag_transfer_waiting_experience = ''announcement_moh'', ag_max_call_duration_s = None,
      ag_workflow = None, ag_workflow_draft = None\<rparr>"

definition sample_policies :: policies where
  "sample_policies =
     \<lparr>po_vad_engine = None, po_vad_onset_ms = None, po_vad_hold_ms = None,
      po_vad_speech_threshold = None, po_silence_timeout_ms = None, po_stt_timeout_ms = None,
      po_llm_timeout_ms = None, po_goodbye_grace_ms = 500, po_barge_in_enabled = None,
      po_max_call_duration_s = None, po_transfer_type = ''warm'', po_transfer_destination = Some ''+100'',
      po_queue_id = None, po_escalation_threshold = None, po_caller_id_policy = ''original'',
      po_platform_did = None, po_custom_caller_id = None,
      po_transfer_waiting_experience = ''announcement_moh'',
      po_transfer_timeout_ms = TRANSFER_TIMEOUT_DEFAULT_MS\<rparr>"

definition sample_config :: "pyval \<Rightarrow> pyval \<Rightarrow> runtime_config" where
  "sample_config published draft =
     \<lparr>rc_tenant = sample_tenant, rc_agent = sample_agent,
      rc_providers = \<lparr>pcs_stt = sample_provider, pcs_llm = sample_provider, pcs_tts = sample_provider\<rparr>,
      rc_conversation =
        \<lparr>ci_greeting = ''Hello'', ci_system_prompt = ''Be kind.'', ci_goodbye_prompt = None,
         ci_fallback_prompt = None, ci_end_call_prompt = None, ci_transfer_prompt = None,
         ci_farewell_message = None, ci_transfer_announcement = None,
         ci_workflow = published, ci_workflow_draft = draft\<rparr>,
      rc_media = \<lparr>mi_voice = None, mi_language = None, mi_sample_rate = 16000\<rparr>,
      rc_policies = sample_policies, rc_tools = [], rc_version = 3, rc_resolved_at = 0\<rparr>"

end
