(* ===== verification/Secrets.thy ===== *)
theory Secrets
  imports Prelude
begin

text \<open>
  References to credentials: what the service stores for a key that was typed in
  (\<^verbatim>\<open>libs/config_sdk/secrets.py\<close> and \<^verbatim>\<open>resolve_api_key_input\<close> of \<^verbatim>\<open>services/config/provider_configs.py\<close>) and
  how a reference is turned back into the key (\<^verbatim>\<open>libs/config_sdk/secret_resolver.py\<close>). The cipher, the
  environment and the mounted files are arguments; without a usable key in the environment there is
  no cipher.
\<close>

datatype secret_error =
    EncryptionUnavailable
  | EmptySecret
  | NotEncrypted
  | UnknownScheme
  | MissingSecret
  | UnreadableSecret
  | BothGiven
  | RawKey

record fernet =
  fn_encrypt :: "string \<Rightarrow> string"
  fn_decrypt :: "string \<Rightarrow> string option"

section \<open>Keys encrypted at rest\<close>

definition ENCRYPTED_PREFIX :: string where
  "ENCRYPTED_PREFIX = ''enc:''"

definition is_encrypted :: "string option \<Rightarrow> bool" where
  "is_encrypted ref = (case ref of None \<Rightarrow> False | Some r \<Rightarrow> starts_with ENCRYPTED_PREFIX r)"

definition encrypt_secret :: "fernet option \<Rightarrow> string \<Rightarrow> secret_error + string" where
  "encrypt_secret f plaintext =
     (if plaintext = [] then Inl EmptySecret
      else case f of
        None \<Rightarrow> Inl EncryptionUnavailable
      | Some k \<Rightarrow> Inr (ENCRYPTED_PREFIX @ fn_encrypt k plaintext))"

definition decrypt_secret :: "fernet option \<Rightarrow> string \<Rightarrow> secret_error + string" where
  "decrypt_secret f ref =
     (if \<not> is_encrypted (Some ref) then Inl NotEncrypted
      else case f of
        None \<Rightarrow> Inl EncryptionUnavailable
      | Some k \<Rightarrow>
          (case fn_decrypt k (drop (length ENCRYPTED_PREFIX) ref) of
             None \<Rightarrow> Inl EncryptionUnavailable
           | Some s \<Rightarrow> Inr s))"

section \<open>Resolving a reference\<close>

definition remove_prefix :: "string \<Rightarrow> string \<Rightarrow> string" where
  "remove_prefix p s = (if starts_with p s then drop (length p) s else s)"

definition resolve_env :: "(string \<Rightarrow> string option) \<Rightarrow> string \<Rightarrow> secret_error + string" where
  "resolve_env env ref =
     (case env (remove_prefix ''env:'' ref) of None \<Rightarrow> Inl MissingSecret | Some v \<Rightarrow> Inr v)"

text \<open>\<^verbatim>\<open>Path(root) / part\<close>: an absolute part replaces the root. A file is absent (\<open>Inl True\<close>), not readable, or a text.\<close>

definition path_join :: "string \<Rightarrow> string \<Rightarrow> string" where
  "path_join mount part = (if starts_with ''/'' part then part else mount @ ''/'' @ part)"

definition resolve_k8s :: "(string \<Rightarrow> bool + string) \<Rightarrow> string \<Rightarrow> string \<Rightarrow> secret_error + string" where
  "resolve_k8s file mount_root ref =
     (case file (path_join mount_root (remove_prefix ''k8s:'' ref)) of
        Inl absent \<Rightarrow> Inl (if absent then MissingSecret else UnreadableSecret)
      | Inr t \<Rightarrow> Inr (py_strip t))"

definition resolve_secret ::
  "(string \<Rightarrow> string option) \<Rightarrow> (string \<Rightarrow> bool + string) \<Rightarrow> string \<Rightarrow> fernet option \<Rightarrow> string \<Rightarrow> secret_error + string" where
  "resolve_secret env file mount_root f ref =
     (if starts_with ''env:'' ref then resolve_env env ref
      else if starts_with ''k8s:'' ref then resolve_k8s file mount_root ref
      else if starts_with ''enc:'' ref then decrypt_secret f ref
      else Inl UnknownScheme)"

section \<open>What a form may store\<close>

definition SECRET_SCHEMES :: "string list" where
  "SECRET_SCHEMES = [''env:'', ''k8s:'', ENCRYPTED_PREFIX]"

definition resolve_api_key_input :: "fernet option \<Rightarrow> string option \<Rightarrow> string option \<Rightarrow> secret_error + string option" where
  "resolve_api_key_input f api_key api_key_ref =
     (let ref = py_strip (case api_key_ref of None \<Rightarrow> [] | Some r \<Rightarrow> r);
          key = (case api_key of None \<Rightarrow> [] | Some k \<Rightarrow> k)
      in if key \<noteq> [] \<and> ref \<noteq> [] then Inl BothGiven
         else if key \<noteq> [] then map_sum id Some (encrypt_secret f (py_strip key))
         else if ref = [] then Inr None
         else if list_ex (\<lambda>p. starts_with p ref) SECRET_SCHEMES then Inr (Some ref)
         else Inl RawKey)"

definition is_reference :: "string option \<Rightarrow> bool" where
  "is_reference ref = (case ref of None \<Rightarrow> True | Some r \<Rightarrow> list_ex (\<lambda>p. starts_with p r) SECRET_SCHEMES)"

lemma stored_is_reference:
  assumes "resolve_api_key_input f api_key api_key_ref = Inr ref"
  shows "is_reference ref"
  using assms
  by (auto simp: resolve_api_key_input_def is_reference_def encrypt_secret_def SECRET_SCHEMES_def starts_with_iff Let_def
      split: if_splits option.splits)

text \<open>The resolver knows the scheme of everything the form stores.\<close>

lemma reference_dispatched:
  assumes "is_reference (Some ref)"
  shows "resolve_secret env file mount_root f ref \<noteq> Inl UnknownScheme"
  using assms
  by (auto simp: is_reference_def SECRET_SCHEMES_def resolve_secret_def resolve_env_def resolve_k8s_def decrypt_secret_def
      ENCRYPTED_PREFIX_def is_encrypted_def split: option.splits sum.splits if_splits)

text \<open>Absolute paths leave the directory of the mounted secrets.\<close>

lemma absolute_reference_escapes:
  "resolve_secret env file mount_root f (''k8s:/'' @ path) =
     (case file (''/'' @ path) of
        Inl absent \<Rightarrow> Inl (if absent then MissingSecret else UnreadableSecret)
      | Inr t \<Rightarrow> Inr (py_strip t))"
  by (simp add: resolve_secret_def resolve_k8s_def remove_prefix_def path_join_def)

text \<open>
  C31. A key that is typed in comes back unchanged, except for the spaces around it: whatever the form
  sends in the other field, if the service accepts the key, the reference it stores is not the key but an
  encrypted one, and the resolver of a process with the same cipher turns it into the key. The cipher
  is only assumed to undo itself.
\<close>

theorem typed_key_roundtrip:
  assumes "resolve_api_key_input (Some k) (Some key) api_key_ref = Inr (Some ref)"
    and "key \<noteq> []" and "\<And>s. fn_decrypt k (fn_encrypt k s) = Some s"
  shows "is_encrypted (Some ref) \<and> resolve_secret env file mount_root (Some k) ref = Inr (py_strip key)"
proof -
  have ref: "ref = ENCRYPTED_PREFIX @ fn_encrypt k (py_strip key)"
    using assms(1,2) by (auto simp: resolve_api_key_input_def encrypt_secret_def Let_def split: if_splits)
  then have enc: "is_encrypted (Some ref)" by (simp add: is_encrypted_def starts_with_iff)
  have "\<not> starts_with ''env:'' ref" "\<not> starts_with ''k8s:'' ref" "starts_with ''enc:'' ref"
    unfolding ref by (simp_all add: ENCRYPTED_PREFIX_def)
  with enc show ?thesis
    by (simp add: resolve_secret_def decrypt_secret_def) (simp add: ref assms(3))
qed

definition sample_fernet :: fernet where
  "sample_fernet = \<lparr>fn_encrypt = rev, fn_decrypt = (\<lambda>s. Some (rev s))\<rparr>"

theorem typed_key_roundtrip_witness:
  "resolve_api_key_input (Some sample_fernet) (Some ''sk-1 '') (Some []) = Inr (Some ''enc:1-ks'') \<and>
   is_encrypted (Some ''enc:1-ks'') \<and>
   resolve_secret (\<lambda>_. None) (\<lambda>_. Inl True) ''/var/run/secrets'' (Some sample_fernet) ''enc:1-ks'' = Inr (py_strip ''sk-1 '')"
proof -
  have accepted: "resolve_api_key_input (Some sample_fernet) (Some ''sk-1 '') (Some []) = Inr (Some ''enc:1-ks'')"
    by code_simp
  have undo: "fn_decrypt sample_fernet (fn_encrypt sample_fernet s) = Some s" for s by (simp add: sample_fernet_def)
  show ?thesis using accepted typed_key_roundtrip [OF accepted _ undo] by simp
qed

end
