(* ===== verification/Provider_Clients.thy ===== *)
theory Provider_Clients
  imports Config_Models Secrets
begin

text \<open>
  The factories of provider clients (\<^verbatim>\<open>services/conversation/ai_provider_manager.py\<close>): which class is
  built for a row of \<^verbatim>\<open>provider_configs\<close>, and with which arguments. A client is its class with the
  arguments its constructor gets; loading a model is a step of the theory \<open>Provider_Cache\<close>. A float is
  its exact value, and the parser of \<^verbatim>\<open>float()\<close> on strings is an argument.
\<close>

record ai_config =
  ac_id :: string
  ac_role :: string
  ac_engine :: string
  ac_model :: "string option"
  ac_voice :: "string option"
  ac_language :: "string option"
  ac_api_key_ref :: "string option"
  ac_extra :: "(string \<times> pyval) list"

definition to_ai_provider_config :: "provider_config \<Rightarrow> ai_config" where
  "to_ai_provider_config c =
     \<lparr>ac_id = pc_id c, ac_role = pc_role c, ac_engine = pc_engine c, ac_model = pc_model c,
      ac_voice = pc_voice c, ac_language = pc_language c, ac_api_key_ref = pc_api_key_ref c, ac_extra = pc_extra c\<rparr>"

section \<open>Options of a row\<close>

text \<open>\<^verbatim>\<open>x or default\<close> on a text that may be missing, \<^verbatim>\<open>d.get(k, v)\<close>.\<close>

definition text_or :: "string option \<Rightarrow> string \<Rightarrow> string" where
  "text_or x v = (case x of None \<Rightarrow> v | Some t \<Rightarrow> if t = [] then v else t)"

definition extra_or :: "ai_config \<Rightarrow> string \<Rightarrow> pyval \<Rightarrow> pyval" where
  "extra_or c k v = (case od_get (ac_extra c) k of None \<Rightarrow> v | Some x \<Rightarrow> x)"

text \<open>The floats 0.7 and 1.2.\<close>

definition VOICE_SPEED_MIN :: rat where
  "VOICE_SPEED_MIN = 3152519739159347 / 4503599627370496"

definition VOICE_SPEED_DEFAULT :: rat where
  "VOICE_SPEED_DEFAULT = 1"

definition VOICE_SPEED_MAX :: rat where
  "VOICE_SPEED_MAX = 5404319552844595 / 4503599627370496"

text \<open>
  \<^verbatim>\<open>float(v)\<close>: \<open>None\<close> stands for the values that are not finite. An integer beyond the largest float
  overflows.
\<close>

definition FLOAT_OVERFLOW :: int where
  "FLOAT_OVERFLOW = 2 ^ 1024 - 2 ^ 970"

fun float_of :: "(string \<Rightarrow> rat option option) \<Rightarrow> pyval \<Rightarrow> py_exn + rat option" where
  "float_of text (PInt n) = (if FLOAT_OVERFLOW \<le> \<bar>n\<bar> then Inl OverflowError else Inr (Some (of_int n)))"
| "float_of text (PBool b) = Inr (Some (if b then 1 else 0))"
| "float_of text (PFloat q _) = Inr (Some q)"
| "float_of text (PInf _) = Inr None"
| "float_of text PNaN = Inr None"
| "float_of text (PStr s) = (case text s of None \<Rightarrow> Inl ValueError | Some x \<Rightarrow> Inr x)"
| "float_of text v = Inl TypeError"

definition voice_speed :: "(string \<Rightarrow> rat option option) \<Rightarrow> ai_config \<Rightarrow> py_exn + rat" where
  "voice_speed text c =
     (case float_of text (extra_or c ''speed'' (PFloat VOICE_SPEED_DEFAULT ''1.0'')) of
        Inl OverflowError \<Rightarrow> Inl OverflowError
      | Inr (Some v) \<Rightarrow> Inr (if VOICE_SPEED_MIN \<le> v \<and> v \<le> VOICE_SPEED_MAX then v else VOICE_SPEED_DEFAULT)
      | _ \<Rightarrow> Inr VOICE_SPEED_DEFAULT)"

definition THINKING_CAPABLE_MODEL_PREFIXES :: "string list" where
  "THINKING_CAPABLE_MODEL_PREFIXES = [''gemma4'']"

definition is_thinking_capable :: "string option \<Rightarrow> bool" where
  "is_thinking_capable model =
     (case model of None \<Rightarrow> False | Some m \<Rightarrow> list_ex (\<lambda>p. starts_with p m) THINKING_CAPABLE_MODEL_PREFIXES)"

definition think_flag :: "ai_config \<Rightarrow> bool option" where
  "think_flag c =
     (let safe_default = (if is_thinking_capable (ac_model c) then Some False else None) in
      case od_get (ac_extra c) ''think'' of
        None \<Rightarrow> safe_default
      | Some (PBool b) \<Rightarrow> Some b
      | Some (PStr s) \<Rightarrow>
          (let t = py_lower (py_strip s) in
           if t = ''true'' \<or> t = ''false'' then Some (t = ''true'') else safe_default)
      | Some _ \<Rightarrow> safe_default)"

text \<open>\<^verbatim>\<open>round()\<close>: to the nearest integer, and from the middle to the even one.\<close>

definition round_even :: "rat \<Rightarrow> int" where
  "round_even q =
     (let n = \<lfloor>q\<rfloor>; r = q - of_int n in
      if r < 1 / 2 then n else if 1 / 2 < r then n + 1 else if even n then n else n + 1)"

definition VOICE_SYSTEM_PROMPT :: string where
  "VOICE_SYSTEM_PROMPT = ''You are a helpful voice assistant. Keep responses concise and natural for speech.''"

section \<open>Factories\<close>

datatype client =
    FasterWhisperSTT string pyval pyval "string option"
  | DeepgramSTT string string "string option"
  | OllamaLLM string pyval pyval pyval pyval "bool option"
  | OpenAILLM string string "string option" pyval pyval
  | GeminiLLM string string pyval pyval
  | AnthropicLLM string string pyval pyval pyval
  | MacOSTTS string int
  | KokoroTTS string rat pyval
  | ElevenLabsTTS string string pyval rat "string option"
  | DeepgramTTS string string

datatype get_error = NoFactory | MissingApiKey | BadExtra py_exn | BadSecret secret_error | MissingOption | ExtraNotADict | LoadFailed

type_synonym factory = "ai_config \<Rightarrow> string option \<Rightarrow> get_error + client"

definition require_api_key :: "string option \<Rightarrow> get_error + string" where
  "require_api_key key = (case key of None \<Rightarrow> Inl MissingApiKey | Some k \<Rightarrow> if k = [] then Inl MissingApiKey else Inr k)"

definition with_key :: "string option \<Rightarrow> (string \<Rightarrow> get_error + client) \<Rightarrow> get_error + client" where
  "with_key key f = (case require_api_key key of Inl e \<Rightarrow> Inl e | Inr k \<Rightarrow> f k)"

definition with_speed ::
  "(string \<Rightarrow> rat option option) \<Rightarrow> ai_config \<Rightarrow> (rat \<Rightarrow> get_error + client) \<Rightarrow> get_error + client" where
  "with_speed text c f = (case voice_speed text c of Inl e \<Rightarrow> Inl (BadExtra e) | Inr v \<Rightarrow> f v)"

definition system_of :: "ai_config \<Rightarrow> pyval" where
  "system_of c = extra_or c ''system'' (PStr VOICE_SYSTEM_PROMPT)"

definition temperature_of :: "ai_config \<Rightarrow> pyval" where
  "temperature_of c = extra_or c ''temperature'' (PFloat (3152519739159347 / 4503599627370496) ''0.7'')"

definition model_or_default :: "ai_config \<Rightarrow> string \<Rightarrow> string" where
  "model_or_default c v = text_or (ac_model c) v"

definition make_faster_whisper :: factory where
  "make_faster_whisper c key =
     Inr (FasterWhisperSTT (text_or (ac_model c) ''small'') (extra_or c ''device'' (PStr ''cpu''))
            (extra_or c ''compute_type'' (PStr ''int8'')) (ac_language c))"

definition make_ollama :: factory where
  "make_ollama c key =
     Inr (OllamaLLM (model_or_default c ''llama3.2'') (system_of c) (temperature_of c)
            (extra_or c ''base_url'' (PStr ''http://localhost:11434'')) (extra_or c ''timeout_s'' (PFloat 30 ''30.0''))
            (think_flag c))"

text \<open>An absolute rate in words per minute wins over the multiplier, which is then not read.\<close>

definition make_macos_tts :: "(string \<Rightarrow> rat option option) \<Rightarrow> factory" where
  "make_macos_tts text c key =
     (let build = (\<lambda>wpm. case py_int wpm of Inl e \<Rightarrow> Inl (BadExtra e) | Inr n \<Rightarrow> Inr (MacOSTTS (text_or (ac_voice c) ''Samantha'') n));
          wpm = py_get (ac_extra c) ''wpm''
      in if truthy wpm then build wpm else with_speed text c (\<lambda>v. build (PInt (round_even (180 * v)))))"

definition make_kokoro_tts :: "(string \<Rightarrow> rat option option) \<Rightarrow> factory" where
  "make_kokoro_tts text c key =
     with_speed text c (\<lambda>v. Inr (KokoroTTS (text_or (ac_voice c) ''af_sarah'') v (extra_or c ''lang_code'' (PStr ''a''))))"

definition make_deepgram :: factory where
  "make_deepgram c key = with_key key (\<lambda>k. Inr (DeepgramSTT k (text_or (ac_model c) ''nova-3'') (ac_language c)))"

definition make_openai_llm :: factory where
  "make_openai_llm c key =
     with_key key (\<lambda>k. Inr (OpenAILLM k (model_or_default c ''gpt-4o-mini'') None (system_of c) (temperature_of c)))"

definition make_groq_llm :: factory where
  "make_groq_llm c key =
     with_key key (\<lambda>k. Inr (OpenAILLM k (model_or_default c ''llama-3.3-70b-versatile'') (Some ''https://api.groq.com/openai'')
       (system_of c) (temperature_of c)))"

definition make_gemini_llm :: factory where
  "make_gemini_llm c key =
     with_key key (\<lambda>k. Inr (GeminiLLM k (model_or_default c ''gemini-flash-latest'') (system_of c) (temperature_of c)))"

definition make_anthropic_llm :: factory where
  "make_anthropic_llm c key =
     with_key key (\<lambda>k. Inr (AnthropicLLM k (model_or_default c ''claude-haiku-4-5'') (system_of c) (temperature_of c)
       (extra_or c ''max_tokens'' (PInt 4096))))"

definition make_nvidia_llm :: factory where
  "make_nvidia_llm c key =
     with_key key (\<lambda>k. Inr (OpenAILLM k (model_or_default c ''meta/llama-3.1-8b-instruct'')
       (Some ''https://integrate.api.nvidia.com'') (system_of c) (temperature_of c)))"

definition make_cohere_llm :: factory where
  "make_cohere_llm c key =
     with_key key (\<lambda>k. Inr (OpenAILLM k (model_or_default c ''command-r7b-12-2024'')
       (Some ''https://api.cohere.ai/compatibility'') (system_of c) (temperature_of c)))"

definition make_elevenlabs_tts :: "(string \<Rightarrow> rat option option) \<Rightarrow> factory" where
  "make_elevenlabs_tts text c key =
     with_key key (\<lambda>k. with_speed text c (\<lambda>v.
       Inr (ElevenLabsTTS k (text_or (ac_voice c) []) (extra_or c ''model_id'' (PStr ''eleven_turbo_v2_5'')) v (ac_language c))))"

definition make_deepgram_tts :: factory where
  "make_deepgram_tts c key = with_key key (\<lambda>k. Inr (DeepgramTTS k (text_or (ac_voice c) ''aura-asteria-en'')))"

definition DEFAULT_REGISTRY :: "(string \<Rightarrow> rat option option) \<Rightarrow> (string \<times> string, factory) odict" where
  "DEFAULT_REGISTRY text =
     [((''stt'', ''faster_whisper''), make_faster_whisper),
      ((''stt'', ''deepgram''), make_deepgram),
      ((''llm'', ''ollama''), make_ollama),
      ((''llm'', ''openai''), make_openai_llm),
      ((''llm'', ''gemini''), make_gemini_llm),
      ((''llm'', ''groq''), make_groq_llm),
      ((''llm'', ''anthropic''), make_anthropic_llm),
      ((''llm'', ''nvidia''), make_nvidia_llm),
      ((''llm'', ''cohere''), make_cohere_llm),
      ((''tts'', ''macos''), make_macos_tts text),
      ((''tts'', ''kokoro''), make_kokoro_tts text),
      ((''tts'', ''elevenlabs''), make_elevenlabs_tts text),
      ((''tts'', ''deepgram''), make_deepgram_tts)]"

end
