(* ===== verification/Tool_Types.thy ===== *)
theory Tool_Types
  imports Py_Values
begin

text \<open>
  The shapes the tool framework passes around (\<^verbatim>\<open>services/conversation/tools/types.py\<close>): the status
  of a call, its result, what the language model may know of a tool, and the request an executor
  receives. Times are exact numbers of seconds.
\<close>

datatype tool_status =
  SUCCESS | FAILED | TIMEOUT | CANCELLED | UNAVAILABLE | INVALID_ARGUMENT | RATE_LIMITED

fun tool_status_value :: "tool_status \<Rightarrow> string" where
  "tool_status_value SUCCESS = ''success''"
| "tool_status_value FAILED = ''failed''"
| "tool_status_value TIMEOUT = ''timeout''"
| "tool_status_value CANCELLED = ''cancelled''"
| "tool_status_value UNAVAILABLE = ''unavailable''"
| "tool_status_value INVALID_ARGUMENT = ''invalid_argument''"
| "tool_status_value RATE_LIMITED = ''rate_limited''"

record tool_result =
  tr_status :: tool_status
  tr_payload :: "(string \<times> pyval) list"
  tr_error :: "string option"
  tr_deterministic_response :: "string option"
  tr_confirmed_datetime :: "string option"

definition tool_ok :: "(string \<times> pyval) list \<Rightarrow> tool_result" where
  "tool_ok p = \<lparr>tr_status = SUCCESS, tr_payload = p, tr_error = None,
                tr_deterministic_response = None, tr_confirmed_datetime = None\<rparr>"

definition tool_fail :: "tool_status \<Rightarrow> string option \<Rightarrow> tool_result" where
  "tool_fail s e = \<lparr>tr_status = s, tr_payload = [], tr_error = e,
                    tr_deterministic_response = None, tr_confirmed_datetime = None\<rparr>"

definition tool_reject :: "(string \<times> pyval) list \<Rightarrow> tool_result" where
  "tool_reject p = \<lparr>tr_status = INVALID_ARGUMENT, tr_payload = p, tr_error = None,
                    tr_deterministic_response = None, tr_confirmed_datetime = None\<rparr>"

lemmas tool_result_defs = tool_ok_def tool_fail_def tool_reject_def

record tool_definition =
  td_name :: string
  td_description :: string
  td_parameters_schema :: "(string \<times> pyval) list"
  td_category :: string
  td_llm_visible :: bool
  td_companion_tool_name :: "string option"

definition to_generic_schema :: "tool_definition \<Rightarrow> (string \<times> pyval) list" where
  "to_generic_schema d =
     [(''name'', PStr (td_name d)), (''description'', PStr (td_description d)),
      (''parameters'', PDict (td_parameters_schema d))]"

record tool_context =
  tc_tenant_id :: string
  tc_agent_id :: string
  tc_call_id :: string
  tc_session_id :: string
  tc_turn_id :: string
  tc_tool_iteration :: nat
  tc_deadline :: rat
  tc_request_id :: string
  tc_caller_number :: string
  tc_phone_number_confirmed :: bool

record tool_request =
  rq_tool_call_id :: string
  rq_tool_name :: string
  rq_arguments :: "(string \<times> pyval) list"
  rq_context :: tool_context
  rq_idempotency_key :: string

text \<open>\<^verbatim>\<open>ToolExecutionRequest.__post_init__\<close>.\<close>

definition make_request ::
  "string \<Rightarrow> string \<Rightarrow> (string \<times> pyval) list \<Rightarrow> tool_context \<Rightarrow> string \<Rightarrow> tool_request"
where
  "make_request call_id nm args ctx key =
     \<lparr>rq_tool_call_id = call_id, rq_tool_name = nm, rq_arguments = args, rq_context = ctx,
      rq_idempotency_key = (if key = [] then call_id else key)\<rparr>"

end
