(* ===== verification/Tool_Policy.thy ===== *)
theory Tool_Policy
  imports Tool_Types
begin

text \<open>
  Which tools an agent may use (\<^verbatim>\<open>services/conversation/tools/policy_resolver.py\<close>): the rows of the
  database, the tools derived from booking, the cache with its time to live, and the narrowing to the
  tools of a workflow step. The database is a parameter that returns the enabled rows of an agent;
  \<^verbatim>\<open>json.loads\<close> is one too.
\<close>

section \<open>Data\<close>

record resolved_policy =
  rp_definition :: tool_definition
  rp_config_id :: string
  rp_engine :: string
  rp_api_key_ref :: "string option"
  rp_extra :: pyval
  rp_timeout_ms :: "int option"
  rp_max_calls_per_turn :: "int option"

record policy_row =
  row_tool_name :: string
  row_config_id :: string
  row_engine :: string
  row_api_key_ref :: "string option"
  row_extra :: pyval
  row_timeout_ms :: "int option"
  row_max_calls_per_turn :: "int option"

type_synonym tool_registry = "(string, tool_definition) odict"

definition registry_resolve :: "tool_registry \<Rightarrow> string \<Rightarrow> tool_definition option" where
  "registry_resolve reg nm = od_get reg nm"

definition registry_register :: "tool_definition \<Rightarrow> tool_registry \<Rightarrow> tool_registry" where
  "registry_register d reg = od_set (td_name d) d reg"

definition AUTO_DERIVED_COMPANIONS :: "(string \<times> string list) list" where
  "AUTO_DERIVED_COMPANIONS = [(''book_appointment'', [''cancel_appointment'', ''reschedule_appointment''])]"

definition rp_name :: "resolved_policy \<Rightarrow> string" where
  "rp_name p = td_name (rp_definition p)"

section \<open>Resolution\<close>

text \<open>
  One row: \<open>None\<close> when its tool is unknown and the row is skipped. A text that is not JSON raises.
\<close>

definition row_extra_value :: "(string \<Rightarrow> pyval option) \<Rightarrow> pyval \<Rightarrow> py_exn + pyval" where
  "row_extra_value loads raw =
     (case raw of
        PStr s \<Rightarrow> (case loads s of Some v \<Rightarrow> Inr v | None \<Rightarrow> Inl ValueError)
      | v \<Rightarrow> Inr (py_or v (PDict [])))"

fun resolve_rows ::
  "(string \<Rightarrow> pyval option) \<Rightarrow> tool_registry \<Rightarrow> policy_row list \<Rightarrow> resolved_policy list
     \<Rightarrow> py_exn + resolved_policy list"
where
  "resolve_rows loads reg [] acc = Inr acc"
| "resolve_rows loads reg (row # rows) acc =
     (case registry_resolve reg (row_tool_name row) of
        None \<Rightarrow> resolve_rows loads reg rows acc
      | Some d \<Rightarrow>
          (case row_extra_value loads (row_extra row) of
             Inl e \<Rightarrow> Inl e
           | Inr extra \<Rightarrow>
               resolve_rows loads reg rows
                 (acc @ [\<lparr>rp_definition = d, rp_config_id = row_config_id row,
                          rp_engine = row_engine row, rp_api_key_ref = row_api_key_ref row,
                          rp_extra = extra, rp_timeout_ms = row_timeout_ms row,
                          rp_max_calls_per_turn = row_max_calls_per_turn row\<rparr>])))"

definition derive_from :: "resolved_policy \<Rightarrow> tool_definition \<Rightarrow> resolved_policy" where
  "derive_from source d = source\<lparr>rp_definition := d\<rparr>"

text \<open>
  The inner loop over the derived names: the list and the set \<^verbatim>\<open>present\<close>, which is computed once
  and then extended.
\<close>

fun add_derived ::
  "tool_registry \<Rightarrow> resolved_policy \<Rightarrow> string list \<Rightarrow> resolved_policy list \<times> string set
     \<Rightarrow> resolved_policy list \<times> string set"
where
  "add_derived reg source [] st = st"
| "add_derived reg source (nm # nms) (ps, present) =
     (if nm \<in> present then add_derived reg source nms (ps, present)
      else case registry_resolve reg nm of
        None \<Rightarrow> add_derived reg source nms (ps, present)
      | Some d \<Rightarrow> add_derived reg source nms (ps @ [derive_from source d], insert nm present))"

fun add_companions ::
  "tool_registry \<Rightarrow> (string \<times> string list) list \<Rightarrow> resolved_policy list \<times> string set
     \<Rightarrow> resolved_policy list \<times> string set"
where
  "add_companions reg [] st = st"
| "add_companions reg ((source_name, derived) # rest) (ps, present) =
     (if source_name \<notin> present then add_companions reg rest (ps, present)
      else case find (\<lambda>p. rp_name p = source_name) ps of
        None \<Rightarrow> add_companions reg rest (ps, present)
      | Some source \<Rightarrow> add_companions reg rest (add_derived reg source derived (ps, present)))"

definition add_auto_derived_companions ::
  "tool_registry \<Rightarrow> resolved_policy list \<Rightarrow> resolved_policy list"
where
  "add_auto_derived_companions reg ps =
     fst (add_companions reg AUTO_DERIVED_COMPANIONS (ps, set (map rp_name ps)))"

definition allowed_names :: "string list \<Rightarrow> string set" where
  "allowed_names only =
     fold (\<lambda>(source_name, derived) acc. if source_name \<in> acc then acc \<union> set derived else acc)
       AUTO_DERIVED_COMPANIONS (set only)"

definition narrow :: "resolved_policy list \<Rightarrow> string list option \<Rightarrow> resolved_policy list" where
  "narrow ps only =
     (case only of None \<Rightarrow> ps | Some names \<Rightarrow> filter (\<lambda>p. rp_name p \<in> allowed_names names) ps)"

type_synonym policy_cache = "(string, rat \<times> resolved_policy list) odict"

text \<open>
  \<^verbatim>\<open>enabled_tools\<close>: \<open>fetch\<close> is \<open>None\<close> without a database pool; \<open>now\<close> is the clock at the cache
  check and \<open>later\<close> the clock when the rows have arrived.
\<close>

definition enabled_tools ::
  "(string \<Rightarrow> pyval option) \<Rightarrow> tool_registry \<Rightarrow> rat \<Rightarrow> (string \<Rightarrow> policy_row list) option \<Rightarrow> rat \<Rightarrow> rat
     \<Rightarrow> string \<Rightarrow> string list option \<Rightarrow> policy_cache \<Rightarrow> (py_exn + resolved_policy list) \<times> policy_cache"
where
  "enabled_tools loads reg ttl fetch now later agent_id only cache =
     (case fetch of
        None \<Rightarrow> (Inr [], cache)
      | Some rows_of \<Rightarrow>
          if agent_id = [] then (Inr [], cache)
          else
            let fresh = (case od_get cache agent_id of
                           Some (at_s, ps) \<Rightarrow> if now - at_s < ttl then Some ps else None
                         | None \<Rightarrow> None)
            in case fresh of
                 Some ps \<Rightarrow> (Inr (narrow ps only), cache)
               | None \<Rightarrow>
                   (case resolve_rows loads reg (rows_of agent_id) [] of
                      Inl e \<Rightarrow> (Inl e, cache)
                    | Inr ps \<Rightarrow>
                        let all = add_auto_derived_companions reg ps
                        in (Inr (narrow all only), od_set agent_id (later, all) cache)))"

section \<open>Nothing is granted that is not configured\<close>

text \<open>
  What may be offered for an agent: a tool of one of its rows, or a tool derived from a row for
  booking, with that row's provider.
\<close>

definition granted :: "tool_registry \<Rightarrow> policy_row list \<Rightarrow> resolved_policy \<Rightarrow> bool" where
  "granted reg rows p \<longleftrightarrow>
     (\<exists>row \<in> set rows. registry_resolve reg (row_tool_name row) \<noteq> None \<and>
        rp_config_id p = row_config_id row \<and> rp_engine p = row_engine row \<and>
        rp_api_key_ref p = row_api_key_ref row \<and>
        (registry_resolve reg (row_tool_name row) = Some (rp_definition p) \<or>
         (td_name (the (registry_resolve reg (row_tool_name row))) = ''book_appointment'' \<and>
          (\<exists>nm \<in> {''cancel_appointment'', ''reschedule_appointment''}.
             registry_resolve reg nm = Some (rp_definition p)))))"

text \<open>The first kind only.\<close>

definition from_row :: "tool_registry \<Rightarrow> policy_row list \<Rightarrow> resolved_policy \<Rightarrow> bool" where
  "from_row reg rows p \<longleftrightarrow>
     (\<exists>row \<in> set rows. registry_resolve reg (row_tool_name row) = Some (rp_definition p) \<and>
        rp_config_id p = row_config_id row \<and> rp_engine p = row_engine row \<and>
        rp_api_key_ref p = row_api_key_ref row)"

lemma resolve_rows_from:
  assumes "resolve_rows loads reg rows acc = Inr ps" and "\<forall>p \<in> set acc. from_row reg R p" and "set rows \<subseteq> set R"
  shows "\<forall>p \<in> set ps. from_row reg R p"
  using assms
proof (induction loads reg rows acc rule: resolve_rows.induct)
  case (2 loads reg row rows acc)
  show ?case
  proof (cases "registry_resolve reg (row_tool_name row)")
    case None
    then show ?thesis using 2 by simp
  next
    case (Some d)
    then obtain x where x: "row_extra_value loads (row_extra row) = Inr x"
      using "2.prems"(1) by (auto split: sum.splits)
    let ?p = "\<lparr>rp_definition = d, rp_config_id = row_config_id row, rp_engine = row_engine row,
      rp_api_key_ref = row_api_key_ref row, rp_extra = x, rp_timeout_ms = row_timeout_ms row,
      rp_max_calls_per_turn = row_max_calls_per_turn row\<rparr>"
    have "from_row reg R ?p" using Some "2.prems"(3) by (auto simp: from_row_def)
    then have "\<forall>p \<in> set (acc @ [?p]). from_row reg R p" using "2.prems"(2) by simp
    from "2.IH"(2) [OF Some x _ this] "2.prems"(1,3) Some x show ?thesis by simp
  qed
qed simp

lemma add_derived_granted:
  assumes "add_derived reg source nms (ps, present) = (qs, present')"
    and "from_row reg rows source" and "rp_name source = ''book_appointment''"
    and "set nms \<subseteq> {''cancel_appointment'', ''reschedule_appointment''}"
    and "\<forall>p \<in> set ps. granted reg rows p"
  shows "\<forall>p \<in> set qs. granted reg rows p"
  using assms(1,4,5)
proof (induction nms arbitrary: ps present)
  case (Cons nm nms)
  consider "nm \<in> present" | "nm \<notin> present" "registry_resolve reg nm = None"
    | d where "nm \<notin> present" "registry_resolve reg nm = Some d" by blast
  then show ?case
  proof cases
    case 3
    have "granted reg rows (derive_from source d)"
      using assms(2,3) 3(2) Cons.prems(2)
      by (fastforce simp: granted_def from_row_def derive_from_def rp_name_def)
    then have "\<forall>p \<in> set (ps @ [derive_from source d]). granted reg rows p" using Cons.prems(3) by simp
    from Cons.IH [OF _ _ this] Cons.prems(1,2) 3 show ?thesis by simp
  qed (use Cons in auto)
qed simp

lemma from_row_granted: "from_row reg rows p \<Longrightarrow> granted reg rows p"
  by (auto simp: from_row_def granted_def)

lemma companions_granted:
  assumes "\<forall>p \<in> set ps. from_row reg rows p"
  shows "\<forall>p \<in> set (add_auto_derived_companions reg ps). granted reg rows p"
proof (cases "find (\<lambda>p. rp_name p = ''book_appointment'') ps")
  case None
  then show ?thesis
    using assms from_row_granted by (auto simp: add_auto_derived_companions_def AUTO_DERIVED_COMPANIONS_def)
next
  case (Some source)
  then have s: "from_row reg rows source" "rp_name source = ''book_appointment''"
    using assms by (auto simp: find_Some_iff)
  obtain qs pr where a: "add_derived reg source [''cancel_appointment'', ''reschedule_appointment'']
      (ps, set (map rp_name ps)) = (qs, pr)"
    by (metis prod.exhaust)
  have "\<forall>p \<in> set qs. granted reg rows p"
    by (rule add_derived_granted [OF a s]) (use assms from_row_granted in auto)
  then show ?thesis
    using Some assms from_row_granted a
    by (auto simp: add_auto_derived_companions_def AUTO_DERIVED_COMPANIONS_def)
qed

text \<open>The cache holds what the database granted.\<close>

definition cache_granted :: "tool_registry \<Rightarrow> (string \<Rightarrow> policy_row list) \<Rightarrow> policy_cache \<Rightarrow> bool" where
  "cache_granted reg rows_of cache \<longleftrightarrow>
     (\<forall>a at_s ps. od_get cache a = Some (at_s, ps) \<longrightarrow> (\<forall>p \<in> set ps. granted reg (rows_of a) p))"

lemma narrow_subset: "set (narrow ps only) \<subseteq> set ps"
  by (auto simp: narrow_def split: option.splits)

lemma narrow_names:
  "p \<in> set (narrow ps (Some only)) \<Longrightarrow>
     rp_name p \<in> set only \<or> (''book_appointment'' \<in> set only \<and>
       rp_name p \<in> {''cancel_appointment'', ''reschedule_appointment''})"
  by (auto simp: narrow_def allowed_names_def AUTO_DERIVED_COMPANIONS_def split: if_splits)

text \<open>The three ways to an answer: no agent, a fresh cache entry, the rows of the database.\<close>

lemma enabled_tools_cases:
  assumes "enabled_tools loads reg ttl (Some rows_of) now later agent_id only cache = (Inr ps, cache')"
  obtains "ps = []" "cache' = cache"
  | at_s qs where "od_get cache agent_id = Some (at_s, qs)" "ps = narrow qs only" "cache' = cache"
  | qs where "resolve_rows loads reg (rows_of agent_id) [] = Inr qs"
      "ps = narrow (add_auto_derived_companions reg qs) only"
      "cache' = od_set agent_id (later, add_auto_derived_companions reg qs) cache"
proof (cases "agent_id = []")
  case True
  then show ?thesis using assms that(1) by (simp add: enabled_tools_def)
next
  case False
  define fresh where "fresh = (case od_get cache agent_id of
      Some (at_s, qs) \<Rightarrow> if now - at_s < ttl then Some qs else None | None \<Rightarrow> None)"
  have e: "(case fresh of
        Some qs \<Rightarrow> (Inr (narrow qs only), cache)
      | None \<Rightarrow>
          (case resolve_rows loads reg (rows_of agent_id) [] of
             Inl e \<Rightarrow> (Inl e, cache)
           | Inr qs \<Rightarrow> (Inr (narrow (add_auto_derived_companions reg qs) only),
                        od_set agent_id (later, add_auto_derived_companions reg qs) cache))) = (Inr ps, cache')"
    using assms False unfolding enabled_tools_def Let_def fresh_def by simp
  show ?thesis
  proof (cases fresh)
    case (Some qs)
    then obtain at_s where "od_get cache agent_id = Some (at_s, qs)"
      by (cases "od_get cache agent_id") (auto simp: fresh_def split: if_splits)
    then show ?thesis by (rule that(2)) (use e Some in simp_all)
  next
    case None
    then obtain qs where r: "resolve_rows loads reg (rows_of agent_id) [] = Inr qs"
      using e by (cases "resolve_rows loads reg (rows_of agent_id) []") auto
    then show ?thesis by (rule that(3)) (use e None r in simp_all)
  qed
qed

text \<open>
  No tool is offered that the tenant has not configured: every tool \<open>enabled_tools\<close> returns, from
  the cache or fresh, belongs to an enabled row of that agent with that row's provider and key, or is a
  cancellation or rescheduling derived from an enabled booking row; a workflow step that lists its
  tools only narrows the set, to the tools it names and those derived from booking when it names
  booking. The cache keeps holding granted tools only.
\<close>

theorem enabled_tools_granted:
  assumes "cache_granted reg rows_of cache"
    and "enabled_tools loads reg ttl (Some rows_of) now later agent_id only cache = (Inr ps, cache')"
  shows "(\<forall>p \<in> set ps. granted reg (rows_of agent_id) p \<and>
      (\<forall>names. only = Some names \<longrightarrow> rp_name p \<in> set names \<or>
         (''book_appointment'' \<in> set names \<and> rp_name p \<in> {''cancel_appointment'', ''reschedule_appointment''}))) \<and>
    cache_granted reg rows_of cache'"
proof -
  have names: "rp_name p \<in> set names \<or> (''book_appointment'' \<in> set names \<and>
      rp_name p \<in> {''cancel_appointment'', ''reschedule_appointment''})"
    if "p \<in> set (narrow qs only)" "only = Some names" for p qs names
    using that narrow_names by blast
  from assms(2) show ?thesis
  proof (cases rule: enabled_tools_cases)
    case 1
    then show ?thesis using assms(1) by simp
  next
    case (2 at_s qs)
    have "\<forall>p \<in> set qs. granted reg (rows_of agent_id) p"
      using assms(1) 2(1) unfolding cache_granted_def by blast
    then have "\<forall>p \<in> set ps. granted reg (rows_of agent_id) p" using narrow_subset [of qs only] 2(2) by blast
    then show ?thesis using names assms(1) 2(2,3) by blast
  next
    case (3 qs)
    have "\<forall>p \<in> set qs. from_row reg (rows_of agent_id) p"
      using resolve_rows_from [OF 3(1), of "rows_of agent_id"] by simp
    from companions_granted [OF this] narrow_subset [of "add_auto_derived_companions reg qs" only]
    have "\<forall>p \<in> set ps. granted reg (rows_of agent_id) p"
      and "\<forall>p \<in> set (add_auto_derived_companions reg qs). granted reg (rows_of agent_id) p"
      using 3(2) by auto
    moreover from this(2) have "cache_granted reg rows_of cache'"
      using assms(1) 3(3) by (auto simp: cache_granted_def)
    ultimately show ?thesis using 3(2) names by blast
  qed
qed

definition sample_tool :: "string \<Rightarrow> tool_definition" where
  "sample_tool nm = \<lparr>td_name = nm, td_description = [], td_parameters_schema = [], td_category = [],
                     td_llm_visible = True, td_companion_tool_name = None\<rparr>"

definition sample_row :: "string \<Rightarrow> policy_row" where
  "sample_row nm = \<lparr>row_tool_name = nm, row_config_id = ''cal'', row_engine = ''cal_com'',
                    row_api_key_ref = Some ''k'', row_extra = PNone, row_timeout_ms = None,
                    row_max_calls_per_turn = None\<rparr>"

definition sample_registry :: tool_registry where
  "sample_registry = map (\<lambda>nm. (nm, sample_tool nm)) [''book_appointment'', ''cancel_appointment'', ''send_sms'']"

theorem enabled_tools_granted_witness:
  "\<exists>ps cache'. enabled_tools (\<lambda>_. None) sample_registry 30 (Some (\<lambda>_. [sample_row ''book_appointment'', sample_row ''send_sms'']))
       0 0 ''a1'' (Some [''book_appointment'']) [] = (Inr ps, cache') \<and>
     map rp_name ps = [''book_appointment'', ''cancel_appointment''] \<and>
     (\<forall>p \<in> set ps. granted sample_registry [sample_row ''book_appointment'', sample_row ''send_sms''] p)"
proof -
  let ?rows = "[sample_row ''book_appointment'', sample_row ''send_sms'']"
  obtain ps cache' where e: "enabled_tools (\<lambda>_. None) sample_registry 30 (Some (\<lambda>_. ?rows))
       0 0 ''a1'' (Some [''book_appointment'']) [] = (Inr ps, cache')"
    "map rp_name ps = [''book_appointment'', ''cancel_appointment'']"
    by (simp add: enabled_tools_def od_get_def sample_registry_def sample_row_def sample_tool_def
        registry_resolve_def row_extra_value_def py_or_def add_auto_derived_companions_def
        AUTO_DERIVED_COMPANIONS_def rp_name_def derive_from_def narrow_def allowed_names_def)
  have "cache_granted sample_registry (\<lambda>_. ?rows) []" by (simp add: cache_granted_def od_get_def)
  from enabled_tools_granted [OF this e(1)] have "\<forall>p \<in> set ps. granted sample_registry ?rows p" by simp
  then show ?thesis using e by (intro exI conjI)
qed

end
