(* ===== verification/Provider_Cache.thy ===== *)
theory Provider_Cache
  imports Provider_Clients Tool_Policy
begin

text \<open>
  The managers that construct and cache the clients of external services: \<^verbatim>\<open>AIProviderManager\<close> of
  \<^verbatim>\<open>services/conversation/ai_provider_manager.py\<close>, and with the same \<^verbatim>\<open>get\<close> the managers of tools
  (\<^verbatim>\<open>tools/provider_manager.py\<close>), of embeddings (\<^verbatim>\<open>services/knowledge/embedding_manager.py\<close>) and of number
  markets (\<^verbatim>\<open>services/did/provider_manager.py\<close>). The code differs in the type of a configuration, in its
  registry and in who evicts, so the manager is modelled once over a record of these.

  A call of \<^verbatim>\<open>get\<close> is a task. It is suspended in three places, while it waits for the lock of its
  configuration, while the secret is resolved and while the factory loads the client; each resumption
  is an event. The lists of built clients and of evictions only record what happened.
\<close>

section \<open>State\<close>

record ('c, 'x) kind =
  kd_id :: "'c \<Rightarrow> string"
  kd_ref :: "'c \<Rightarrow> string option"
  kd_factory :: "'c \<Rightarrow> (string option \<Rightarrow> get_error + 'x) option"

record ('c, 'x) made =
  md_number :: nat
  md_config :: 'c
  md_client :: 'x

datatype ('c, 'x) task =
    Queued 'c
  | Resolving 'c
  | Loading 'c 'x
  | Got 'c "('c, 'x) made"
  | Raised get_error
  | Abandoned

record ('c, 'x) manager =
  mg_instances :: "(string, ('c, 'x) made) odict"
  mg_holder :: "(string, nat) odict"
  mg_waiters :: "(string, nat list) odict"
  mg_tasks :: "(nat, ('c, 'x) task) odict"
  mg_built :: "('c, 'x) made list"
  mg_evicted :: "string list"

definition no_clients :: "('c, 'x) manager" where
  "no_clients = \<lparr>mg_instances = [], mg_holder = [], mg_waiters = [], mg_tasks = [], mg_built = [], mg_evicted = []\<rparr>"

definition waiting :: "string \<Rightarrow> ('c, 'x) manager \<Rightarrow> nat list" where
  "waiting i m = (case od_get (mg_waiters m) i of None \<Rightarrow> [] | Some ts \<Rightarrow> ts)"

abbreviation task_of :: "nat \<Rightarrow> ('c, 'x) manager \<Rightarrow> ('c, 'x) task option" where
  "task_of t m \<equiv> od_get (mg_tasks m) t"

abbreviation cached :: "string \<Rightarrow> ('c, 'x) manager \<Rightarrow> ('c, 'x) made option" where
  "cached i m \<equiv> od_get (mg_instances m) i"

section \<open>The steps of \<^verbatim>\<open>get\<close>\<close>

definition set_task :: "nat \<Rightarrow> ('c, 'x) task \<Rightarrow> ('c, 'x) manager \<Rightarrow> ('c, 'x) manager" where
  "set_task t v m = m\<lparr>mg_tasks := od_set t v (mg_tasks m)\<rparr>"

text \<open>The end of \<^verbatim>\<open>async with\<close>: the lock is given back.\<close>

definition leave_lock :: "nat \<Rightarrow> ('c, 'x) task \<Rightarrow> string \<Rightarrow> ('c, 'x) manager \<Rightarrow> ('c, 'x) manager" where
  "leave_lock t v i m = set_task t v (m\<lparr>mg_holder := od_del i (mg_holder m)\<rparr>)"

definition call_factory ::
  "('c, 'x) kind \<Rightarrow> nat \<Rightarrow> 'c \<Rightarrow> string option \<Rightarrow> ('c, 'x) manager \<Rightarrow> ('c, 'x) manager" where
  "call_factory kd t c key m =
     (case kd_factory kd c of
        None \<Rightarrow> leave_lock t (Raised NoFactory) (kd_id kd c) m
      | Some f \<Rightarrow>
          (case f key of
             Inl e \<Rightarrow> leave_lock t (Raised e) (kd_id kd c) m
           | Inr x \<Rightarrow> set_task t (Loading c x) m))"

text \<open>The body under the lock, up to its first suspension.\<close>

definition enter_lock :: "('c, 'x) kind \<Rightarrow> nat \<Rightarrow> 'c \<Rightarrow> ('c, 'x) manager \<Rightarrow> ('c, 'x) manager" where
  "enter_lock kd t c m0 =
     (let m = m0\<lparr>mg_holder := od_set (kd_id kd c) t (mg_holder m0)\<rparr> in
      case cached (kd_id kd c) m of
        Some x \<Rightarrow> leave_lock t (Got c x) (kd_id kd c) m
      | None \<Rightarrow>
          if kd_factory kd c = None then leave_lock t (Raised NoFactory) (kd_id kd c) m
          else if text_or (kd_ref kd c) [] \<noteq> [] then set_task t (Resolving c) m
          else call_factory kd t c None m)"

definition request :: "('c, 'x) kind \<Rightarrow> nat \<Rightarrow> 'c \<Rightarrow> ('c, 'x) manager \<Rightarrow> ('c, 'x) manager" where
  "request kd t c m =
     (if task_of t m \<noteq> None then m
      else case cached (kd_id kd c) m of
        Some x \<Rightarrow> set_task t (Got c x) m
      | None \<Rightarrow>
          if od_get (mg_holder m) (kd_id kd c) = None \<and> waiting (kd_id kd c) m = [] then enter_lock kd t c m
          else set_task t (Queued c)
            (m\<lparr>mg_waiters := od_set (kd_id kd c) (waiting (kd_id kd c) m @ [t]) (mg_waiters m)\<rparr>))"

text \<open>The lock is fair: when it is free, the task that waited longest gets it.\<close>

definition woken :: "('c, 'x) kind \<Rightarrow> string \<Rightarrow> ('c, 'x) manager \<Rightarrow> ('c, 'x) manager" where
  "woken kd i m =
     (case (od_get (mg_holder m) i, waiting i m) of
        (None, t # ts) \<Rightarrow>
          (case task_of t m of
             Some (Queued c) \<Rightarrow> enter_lock kd t c (m\<lparr>mg_waiters := od_set i ts (mg_waiters m)\<rparr>)
           | _ \<Rightarrow> m)
      | _ \<Rightarrow> m)"

definition resolved ::
  "('c, 'x) kind \<Rightarrow> nat \<Rightarrow> secret_error + string \<Rightarrow> ('c, 'x) manager \<Rightarrow> ('c, 'x) manager" where
  "resolved kd t r m =
     (case task_of t m of
        Some (Resolving c) \<Rightarrow>
          (case r of
             Inl e \<Rightarrow> leave_lock t (Raised (BadSecret e)) (kd_id kd c) m
           | Inr key \<Rightarrow> call_factory kd t c (Some key) m)
      | _ \<Rightarrow> m)"

definition loaded :: "('c, 'x) kind \<Rightarrow> nat \<Rightarrow> bool \<Rightarrow> ('c, 'x) manager \<Rightarrow> ('c, 'x) manager" where
  "loaded kd t ok m =
     (case task_of t m of
        Some (Loading c x) \<Rightarrow>
          if ok then
            let d = \<lparr>md_number = length (mg_built m), md_config = c, md_client = x\<rparr>
            in leave_lock t (Got c d) (kd_id kd c)
                 (m\<lparr>mg_instances := od_set (kd_id kd c) d (mg_instances m), mg_built := mg_built m @ [d]\<rparr>)
          else leave_lock t (Raised LoadFailed) (kd_id kd c) m
      | _ \<Rightarrow> m)"

definition invalidate :: "string \<Rightarrow> ('c, 'x) manager \<Rightarrow> bool \<times> ('c, 'x) manager" where
  "invalidate i m =
     (if cached i m = None then (False, m)
      else (True, m\<lparr>mg_instances := od_del i (mg_instances m), mg_evicted := mg_evicted m @ [i]\<rparr>))"

text \<open>The coroutine that called \<^verbatim>\<open>get\<close> is cancelled.\<close>

definition abandon :: "('c, 'x) kind \<Rightarrow> nat \<Rightarrow> ('c, 'x) manager \<Rightarrow> ('c, 'x) manager" where
  "abandon kd t m =
     (case task_of t m of
        Some (Queued c) \<Rightarrow>
          set_task t Abandoned
            (m\<lparr>mg_waiters := od_set (kd_id kd c) (removeAll t (waiting (kd_id kd c) m)) (mg_waiters m)\<rparr>)
      | Some (Resolving c) \<Rightarrow> leave_lock t Abandoned (kd_id kd c) m
      | Some (Loading c x) \<Rightarrow> leave_lock t Abandoned (kd_id kd c) m
      | _ \<Rightarrow> m)"

datatype 'c cache_event =
    Request nat 'c
  | Woken string
  | Resolved nat "secret_error + string"
  | Loaded nat bool
  | Evict string
  | Abandon nat

fun cache_step :: "('c, 'x) kind \<Rightarrow> 'c cache_event \<Rightarrow> ('c, 'x) manager \<Rightarrow> ('c, 'x) manager" where
  "cache_step kd (Request t c) m = request kd t c m"
| "cache_step kd (Woken i) m = woken kd i m"
| "cache_step kd (Resolved t r) m = resolved kd t r m"
| "cache_step kd (Loaded t ok) m = loaded kd t ok m"
| "cache_step kd (Evict i) m = snd (invalidate i m)"
| "cache_step kd (Abandon t) m = abandon kd t m"

text \<open>\<^verbatim>\<open>prewarm\<close> is one request after the other; \<^verbatim>\<open>cached_ids\<close> are the keys.\<close>

definition cached_ids :: "('c, 'x) manager \<Rightarrow> string list" where
  "cached_ids m = od_keys (mg_instances m)"

section \<open>The lock of a configuration\<close>

text \<open>For which configuration a task holds the lock, or waits for it.\<close>

fun flight :: "('c, 'x) kind \<Rightarrow> ('c, 'x) task option \<Rightarrow> string option" where
  "flight kd (Some (Resolving c)) = Some (kd_id kd c)"
| "flight kd (Some (Loading c x)) = Some (kd_id kd c)"
| "flight kd _ = None"

fun queued :: "('c, 'x) kind \<Rightarrow> ('c, 'x) task option \<Rightarrow> string option" where
  "queued kd (Some (Queued c)) = Some (kd_id kd c)"
| "queued kd _ = None"

definition lock_ok :: "('c, 'x) kind \<Rightarrow> ('c, 'x) manager \<Rightarrow> bool" where
  "lock_ok kd m \<longleftrightarrow>
     (\<forall>i t. od_get (mg_holder m) i = Some t \<longleftrightarrow> flight kd (task_of t m) = Some i) \<and>
     (\<forall>i t. t \<in> set (waiting i m) \<longleftrightarrow> queued kd (task_of t m) = Some i) \<and>
     (\<forall>i. distinct (waiting i m)) \<and>
     (\<forall>i. od_get (mg_holder m) i \<noteq> None \<longrightarrow> cached i m = None)"

lemma lock_okD:
  assumes "lock_ok kd m"
  shows "od_get (mg_holder m) i = Some t \<longleftrightarrow> flight kd (task_of t m) = Some i"
    "t \<in> set (waiting i m) \<longleftrightarrow> queued kd (task_of t m) = Some i"
    "distinct (waiting i m)"
    "od_get (mg_holder m) i \<noteq> None \<Longrightarrow> cached i m = None"
  using assms by (auto simp: lock_ok_def)

text \<open>What a step does to the lock is what it does to one task.\<close>

lemma lock_ok_move:
  assumes ok: "lock_ok kd m"
    and tasks: "mg_tasks m' = od_set t v (mg_tasks m)"
    and holder: "\<And>i. od_get (mg_holder m') i =
      (if flight kd (Some v) = Some i then Some t else if od_get (mg_holder m) i = Some t then None else od_get (mg_holder m) i)"
    and free: "\<And>i. flight kd (Some v) = Some i \<Longrightarrow> od_get (mg_holder m) i = None \<or> od_get (mg_holder m) i = Some t"
    and queue: "\<And>i. waiting i m' =
      (if queued kd (Some v) = Some i then removeAll t (waiting i m) @ [t] else removeAll t (waiting i m))"
    and empty: "\<And>i. od_get (mg_holder m') i \<noteq> None \<Longrightarrow> cached i m' = None"
  shows "lock_ok kd m'"
  unfolding lock_ok_def
proof (intro conjI allI impI)
  fix i u
  show "od_get (mg_holder m') i = Some u \<longleftrightarrow> flight kd (task_of u m') = Some i"
    using lock_okD(1) [OF ok, of i u] lock_okD(1) [OF ok, of i t] free [of i] by (auto simp: holder tasks)
  show "u \<in> set (waiting i m') \<longleftrightarrow> queued kd (task_of u m') = Some i"
    using lock_okD(2) [OF ok] by (auto simp: queue tasks)
  show "distinct (waiting i m')"
    using lock_okD(3) [OF ok] by (simp add: queue distinct_removeAll)
  show "cached i m' = None" if "od_get (mg_holder m') i \<noteq> None" using empty that .
qed

lemma waiting_simps [simp]:
  "waiting i (m\<lparr>mg_waiters := od_set j ts (mg_waiters m)\<rparr>) = (if i = j then ts else waiting i m)"
  "waiting i (m\<lparr>mg_holder := h\<rparr>) = waiting i m"
  "waiting i (m\<lparr>mg_tasks := tk\<rparr>) = waiting i m"
  "waiting i (m\<lparr>mg_instances := ins, mg_built := b\<rparr>) = waiting i m"
  "waiting i (m\<lparr>mg_instances := ins, mg_evicted := e\<rparr>) = waiting i m"
  by (simp_all add: waiting_def)

lemma waiting_steps [simp]:
  "waiting i (set_task t v m) = waiting i m"
  "waiting i (leave_lock t v j m) = waiting i m"
  by (simp_all add: set_task_def leave_lock_def)

lemma set_task_sel [simp]:
  "mg_tasks (set_task t v m) = od_set t v (mg_tasks m)"
  "mg_holder (set_task t v m) = mg_holder m"
  "mg_instances (set_task t v m) = mg_instances m"
  "mg_built (set_task t v m) = mg_built m"
  "mg_evicted (set_task t v m) = mg_evicted m"
  by (simp_all add: set_task_def)

lemma leave_lock_sel [simp]:
  "mg_tasks (leave_lock t v i m) = od_set t v (mg_tasks m)"
  "mg_holder (leave_lock t v i m) = od_del i (mg_holder m)"
  "mg_instances (leave_lock t v i m) = mg_instances m"
  "mg_built (leave_lock t v i m) = mg_built m"
  "mg_evicted (leave_lock t v i m) = mg_evicted m"
  by (simp_all add: leave_lock_def)

text \<open>A task that holds the lock either gives it back, or goes on under it while nothing is cached.\<close>

lemma call_factory_cases:
  obtains (left) v where "flight kd (Some v) = None" "queued kd (Some v) = None" "\<And>d e. v \<noteq> Got d e"
      "call_factory kd t c key m = leave_lock t v (kd_id kd c) m"
  | (stays) x where "call_factory kd t c key m = set_task t (Loading c x) m"
proof (cases "kd_factory kd c")
  case None
  then show ?thesis using left [of "Raised NoFactory"] by (simp add: call_factory_def)
next
  case (Some f)
  then show ?thesis using left [of "Raised e" for e] stays
    by (cases "f key") (simp_all add: call_factory_def)
qed

lemma enter_lock_cases:
  obtains (left) v where "flight kd (Some v) = None" "queued kd (Some v) = None"
      "\<And>d e. v = Got d e \<Longrightarrow> d = c \<and> cached (kd_id kd c) m = Some e"
      "enter_lock kd t c m = leave_lock t v (kd_id kd c) (m\<lparr>mg_holder := od_set (kd_id kd c) t (mg_holder m)\<rparr>)"
  | (stays) v where "flight kd (Some v) = Some (kd_id kd c)" "v = Resolving c \<or> (\<exists>x. v = Loading c x)"
      "cached (kd_id kd c) m = None"
      "enter_lock kd t c m = set_task t v (m\<lparr>mg_holder := od_set (kd_id kd c) t (mg_holder m)\<rparr>)"
proof -
  let ?m = "m\<lparr>mg_holder := od_set (kd_id kd c) t (mg_holder m)\<rparr>"
  consider (hit) x where "cached (kd_id kd c) m = Some x"
    | (none) "cached (kd_id kd c) m = None" "kd_factory kd c = None"
    | (secret) f where "cached (kd_id kd c) m = None" "kd_factory kd c = Some f" "text_or (kd_ref kd c) [] \<noteq> []"
    | (plain) f where "cached (kd_id kd c) m = None" "kd_factory kd c = Some f" "text_or (kd_ref kd c) [] = []"
    by (cases "cached (kd_id kd c) m") auto
  then show ?thesis
  proof cases
    case (hit x)
    then show ?thesis using left [of "Got c x"] by (simp add: enter_lock_def Let_def)
  next
    case none
    then show ?thesis using left [of "Raised NoFactory"] by (simp add: enter_lock_def Let_def)
  next
    case secret
    then show ?thesis using stays [of "Resolving c"] by (simp add: enter_lock_def Let_def)
  next
    case plain
    then have "enter_lock kd t c m = call_factory kd t c None ?m" by (simp add: enter_lock_def Let_def)
    note eq = this and out = left and on = stays
    show ?thesis
    proof (cases rule: call_factory_cases [of kd t c None ?m])
      case (left v)
      then show ?thesis using out [of v] eq by simp
    next
      case (stays x)
      then show ?thesis using on [of "Loading c x"] eq plain(1) by simp
    qed
  qed
qed

lemma lock_ok_leave:
  assumes ok: "lock_ok kd m" and held: "od_get (mg_holder m) i = Some t" and v: "flight kd (Some v) = None" "queued kd (Some v) = None"
    and inst: "\<And>j. j \<noteq> i \<Longrightarrow> cached j m' = cached j m"
    and same: "mg_tasks m' = mg_tasks m" "mg_holder m' = mg_holder m" "mg_waiters m' = mg_waiters m"
  shows "lock_ok kd (leave_lock t v i m')"
proof (rule lock_ok_move [OF ok, where t = t and v = v])
  have flight: "flight kd (task_of t m) = Some i" using lock_okD(1) [OF ok] held by blast
  then have "queued kd (task_of t m) = None" by (cases "(kd, task_of t m)" rule: flight.cases) auto
  then have out: "t \<notin> set (waiting j m)" for j using lock_okD(2) [OF ok, of t j] by simp
  have "od_get (mg_holder m) j = Some t \<longleftrightarrow> j = i" for j using lock_okD(1) [OF ok, of j t] flight by auto
  then show "od_get (mg_holder (leave_lock t v i m')) j =
      (if flight kd (Some v) = Some j then Some t else if od_get (mg_holder m) j = Some t then None else od_get (mg_holder m) j)" for j
    using v same by auto
  show "waiting j (leave_lock t v i m') =
      (if queued kd (Some v) = Some j then removeAll t (waiting j m) @ [t] else removeAll t (waiting j m))" for j
    using v out [of j] same(3) by (simp add: waiting_def [of _ m'] waiting_def [of _ m, symmetric] removeAll_id)
  show "cached j (leave_lock t v i m') = None" if "od_get (mg_holder (leave_lock t v i m')) j \<noteq> None" for j
    using that lock_okD(4) [OF ok, of j] inst [of j] same by (auto split: if_splits)
qed (use v same in auto)

lemma lock_ok_stay:
  assumes ok: "lock_ok kd m" and held: "od_get (mg_holder m) i = Some t" and v: "flight kd (Some v) = Some i" "queued kd (Some v) = None"
  shows "lock_ok kd (set_task t v m)"
proof (rule lock_ok_move [OF ok, where t = t and v = v])
  have flight: "flight kd (task_of t m) = Some i" using lock_okD(1) [OF ok] held by blast
  then have "queued kd (task_of t m) = None" by (cases "(kd, task_of t m)" rule: flight.cases) auto
  then have "t \<notin> set (waiting j m)" for j using lock_okD(2) [OF ok, of t j] by simp
  then show "waiting j (set_task t v m) =
      (if queued kd (Some v) = Some j then removeAll t (waiting j m) @ [t] else removeAll t (waiting j m))" for j
    using v by (simp add: removeAll_id)
  have "od_get (mg_holder m) j = Some t \<longleftrightarrow> j = i" for j using lock_okD(1) [OF ok, of j t] flight by auto
  then show "od_get (mg_holder (set_task t v m)) j =
      (if flight kd (Some v) = Some j then Some t else if od_get (mg_holder m) j = Some t then None else od_get (mg_holder m) j)" for j
    using v by auto
  show "cached j (set_task t v m) = None" if "od_get (mg_holder (set_task t v m)) j \<noteq> None" for j
    using that lock_okD(4) [OF ok, of j] by simp
qed (use v held in auto)

text \<open>A free lock is taken, by a new task or by the first in the queue.\<close>

lemma lock_ok_enter:
  assumes ok: "lock_ok kd m" and unheld: "od_get (mg_holder m) (kd_id kd c) = None" and idle: "flight kd (task_of t m) = None"
    and same: "mg_tasks m' = mg_tasks m" "mg_holder m' = mg_holder m" "mg_instances m' = mg_instances m"
    and queue: "\<And>i. waiting i m' = removeAll t (waiting i m)"
  shows "lock_ok kd (enter_lock kd t c m')"
proof (cases rule: enter_lock_cases [of kd c m' t])
  case (left v)
  have no: "od_get (mg_holder m) i \<noteq> Some t" for i using lock_okD(1) [OF ok, of i t] idle by simp
  show ?thesis
    unfolding left(4)
    by (rule lock_ok_move [OF ok, where t = t and v = v])
      (use left(1,2) same queue no unheld lock_okD(4) [OF ok] in \<open>auto split: if_splits\<close>)
next
  case (stays v)
  have no: "od_get (mg_holder m) i \<noteq> Some t" for i using lock_okD(1) [OF ok, of i t] idle by simp
  have "queued kd (Some v) = None" using stays(2) by auto
  then show ?thesis
    unfolding stays(4)
    by (intro lock_ok_move [OF ok, where t = t and v = v])
      (use stays(1,3) same queue no unheld lock_okD(4) [OF ok] in \<open>auto split: if_splits\<close>)
qed

lemma lock_ok_call_factory:
  assumes "lock_ok kd m" "od_get (mg_holder m) (kd_id kd c) = Some t"
  shows "lock_ok kd (call_factory kd t c key m)"
proof (cases rule: call_factory_cases [of kd t c key m])
  case (left v)
  then show ?thesis using lock_ok_leave [OF assms, of v m] by simp
next
  case (stays x)
  then show ?thesis using lock_ok_stay [OF assms, of "Loading c x"] by simp
qed

lemma lock_ok_step:
  assumes ok: "lock_ok kd m"
  shows "lock_ok kd (cache_step kd e m)"
proof (cases e)
  case (Request t c)
  consider "task_of t m \<noteq> None" | (hit) x where "task_of t m = None" "cached (kd_id kd c) m = Some x"
    | (enter) "task_of t m = None" "cached (kd_id kd c) m = None" "od_get (mg_holder m) (kd_id kd c) = None" "waiting (kd_id kd c) m = []"
    | (queue) "task_of t m = None" "cached (kd_id kd c) m = None" "od_get (mg_holder m) (kd_id kd c) \<noteq> None \<or> waiting (kd_id kd c) m \<noteq> []"
    by (cases "cached (kd_id kd c) m") auto
  then show ?thesis
  proof cases
    case 1
    then show ?thesis using ok Request by (simp add: request_def)
  next
    case hit
    have out: "od_get (mg_holder m) i \<noteq> Some t" "t \<notin> set (waiting i m)" for i
      using lock_okD(1,2) [OF ok] hit(1) by (auto simp: )
    have "lock_ok kd (set_task t (Got c x) m)"
      by (rule lock_ok_move [OF ok, where t = t and v = "Got c x"])
        (use out lock_okD(4) [OF ok] in \<open>auto simp: removeAll_id\<close>)
    then show ?thesis using hit Request by (simp add: request_def)
  next
    case enter
    have "t \<notin> set (waiting i m)" for i using lock_okD(2) [OF ok, of t i] enter(1) by simp
    then have "lock_ok kd (enter_lock kd t c m)"
      by (intro lock_ok_enter [OF ok]) (use enter in \<open>simp_all add: removeAll_id\<close>)
    then show ?thesis using enter Request by (simp add: request_def)
  next
    case queue
    have out: "od_get (mg_holder m) i \<noteq> Some t" "t \<notin> set (waiting i m)" for i
      using lock_okD(1,2) [OF ok] queue(1) by (auto simp: )
    have "lock_ok kd (set_task t (Queued c) (m\<lparr>mg_waiters := od_set (kd_id kd c) (waiting (kd_id kd c) m @ [t]) (mg_waiters m)\<rparr>))"
      by (rule lock_ok_move [OF ok, where t = t and v = "Queued c"])
        (use out lock_okD(4) [OF ok] in \<open>auto simp: removeAll_id\<close>)
    moreover have "cache_step kd e m =
        set_task t (Queued c) (m\<lparr>mg_waiters := od_set (kd_id kd c) (waiting (kd_id kd c) m @ [t]) (mg_waiters m)\<rparr>)"
      using queue Request by (auto simp: request_def)
    ultimately show ?thesis by simp
  qed
next
  case (Woken i)
  show ?thesis
  proof (cases "\<exists>t ts c. od_get (mg_holder m) i = None \<and> waiting i m = t # ts \<and> task_of t m = Some (Queued c)")
    case True
    then obtain t ts c where w: "od_get (mg_holder m) i = None" "waiting i m = t # ts" "task_of t m = Some (Queued c)" by blast
    have i: "i = kd_id kd c" using lock_okD(2) [OF ok, of t i] w by simp
    have rest: "removeAll t (waiting j m) = (if j = i then ts else waiting j m)" for j
    proof (cases "j = i")
      case True
      then show ?thesis using lock_okD(3) [OF ok, of i] w(2) by (simp add: removeAll_id)
    next
      case False
      then have "t \<notin> set (waiting j m)" using lock_okD(2) [OF ok, of t j] w(3) i by simp
      then show ?thesis using False by (simp add: removeAll_id)
    qed
    have "lock_ok kd (enter_lock kd t c (m\<lparr>mg_waiters := od_set i ts (mg_waiters m)\<rparr>))"
      by (rule lock_ok_enter [OF ok]) (use w i rest in simp_all)
    then show ?thesis using w Woken by (simp add: woken_def)
  next
    case False
    then have "woken kd i m = m" by (auto simp: woken_def split: option.splits list.splits task.splits)
    then show ?thesis using ok Woken by simp
  qed
next
  case (Resolved t r)
  show ?thesis
  proof (cases "\<exists>c. task_of t m = Some (Resolving c)")
    case True
    then obtain c where c: "task_of t m = Some (Resolving c)" by blast
    then have held: "od_get (mg_holder m) (kd_id kd c) = Some t" using lock_okD(1) [OF ok] by simp
    show ?thesis
      using lock_ok_leave [OF ok held, of "Raised (BadSecret err)" m for err] lock_ok_call_factory [OF ok held] c Resolved
      by (cases r) (simp_all add: resolved_def)
  next
    case False
    then have "resolved kd t r m = m" by (auto simp: resolved_def split: option.splits task.splits)
    then show ?thesis using ok Resolved by simp
  qed
next
  case (Loaded t good)
  show ?thesis
  proof (cases "\<exists>c x. task_of t m = Some (Loading c x)")
    case True
    then obtain c x where c: "task_of t m = Some (Loading c x)" by blast
    then have held: "od_get (mg_holder m) (kd_id kd c) = Some t" using lock_okD(1) [OF ok] by simp
    show ?thesis
      using lock_ok_leave [OF ok held] c Loaded by (simp add: loaded_def Let_def)
  next
    case False
    then have "loaded kd t good m = m" by (auto simp: loaded_def split: option.splits task.splits)
    then show ?thesis using ok Loaded by simp
  qed
next
  case (Evict i)
  then show ?thesis using ok by (auto simp: invalidate_def lock_ok_def)
next
  case (Abandon t)
  consider (queue) c where "task_of t m = Some (Queued c)" | (fly) c where "flight kd (task_of t m) = Some (kd_id kd c)"
      "abandon kd t m = leave_lock t Abandoned (kd_id kd c) m" | (same) "abandon kd t m = m"
  proof (cases "task_of t m")
    case (Some a)
    then show ?thesis using that by (cases a) (simp_all add: abandon_def)
  qed (use that in \<open>simp add: abandon_def\<close>)
  then show ?thesis
  proof cases
    case queue
    have out: "od_get (mg_holder m) i \<noteq> Some t" for i using lock_okD(1) [OF ok, of i t] queue by simp
    have out': "i \<noteq> kd_id kd c \<Longrightarrow> t \<notin> set (waiting i m)" for i using lock_okD(2) [OF ok, of t i] queue by simp
    have "lock_ok kd (set_task t Abandoned
        (m\<lparr>mg_waiters := od_set (kd_id kd c) (removeAll t (waiting (kd_id kd c) m)) (mg_waiters m)\<rparr>))"
      by (rule lock_ok_move [OF ok, where t = t and v = Abandoned])
        (use out out' lock_okD(4) [OF ok] in \<open>auto simp: removeAll_id\<close>)
    then show ?thesis using queue Abandon by (simp add: abandon_def)
  next
    case fly
    then have held: "od_get (mg_holder m) (kd_id kd c) = Some t" using lock_okD(1) [OF ok] by simp
    show ?thesis using lock_ok_leave [OF ok held, of Abandoned m] fly Abandon by simp
  next
    case same
    then show ?thesis using ok Abandon by simp
  qed
qed

section \<open>What was built\<close>

definition built_for :: "('c, 'x) kind \<Rightarrow> string \<Rightarrow> ('c, 'x) manager \<Rightarrow> ('c, 'x) made list" where
  "built_for kd i m = filter (\<lambda>x. kd_id kd (md_config x) = i) (mg_built m)"

definition history_ok :: "('c, 'x) kind \<Rightarrow> ('c, 'x) manager \<Rightarrow> bool" where
  "history_ok kd m \<longleftrightarrow>
     (\<forall>i x. cached i m = Some x \<longrightarrow> x \<in> set (built_for kd i m)) \<and>
     (\<forall>t c x. task_of t m = Some (Got c x) \<longrightarrow> x \<in> set (built_for kd (kd_id kd c) m)) \<and>
     (\<forall>i. length (built_for kd i m) = count_list (mg_evicted m) i + (if cached i m = None then 0 else 1))"

lemma history_okD:
  assumes "history_ok kd m"
  shows "cached i m = Some x \<Longrightarrow> x \<in> set (built_for kd i m)"
    "task_of t m = Some (Got c x) \<Longrightarrow> x \<in> set (built_for kd (kd_id kd c) m)"
    "length (built_for kd i m) = count_list (mg_evicted m) i + (if cached i m = None then 0 else 1)"
  using assms by (auto simp: history_ok_def)

lemma history_ok_task:
  assumes "history_ok kd m" "mg_tasks m' = od_set t v (mg_tasks m)"
    and "mg_instances m' = mg_instances m" "mg_built m' = mg_built m" "mg_evicted m' = mg_evicted m"
    and "\<And>c x. v = Got c x \<Longrightarrow> cached (kd_id kd c) m = Some x"
  shows "history_ok kd m'"
  using assms by (auto simp: history_ok_def built_for_def)

lemma call_factory_hist: "history_ok kd m \<Longrightarrow> history_ok kd (call_factory kd t c key m)"
  by (cases rule: call_factory_cases [of kd t c key m]) (auto intro!: history_ok_task [of kd m _ t])

lemma enter_lock_hist:
  assumes "history_ok kd m" "mg_tasks m' = mg_tasks m" "mg_instances m' = mg_instances m" "mg_built m' = mg_built m"
    "mg_evicted m' = mg_evicted m"
  shows "history_ok kd (enter_lock kd t c m')"
proof (cases rule: enter_lock_cases [of kd c m' t])
  case (left v)
  show ?thesis unfolding left(4) by (rule history_ok_task [OF assms(1), of _ t v]) (use assms left(3) in auto)
next
  case (stays v)
  show ?thesis unfolding stays(4) by (rule history_ok_task [OF assms(1), of _ t v]) (use assms stays(2) in auto)
qed

lemma history_ok_step:
  assumes lock: "lock_ok kd m" and ok: "history_ok kd m"
  shows "history_ok kd (cache_step kd e m)"
proof (cases e)
  case (Request t c)
  have "history_ok kd (enter_lock kd t c m)" by (rule enter_lock_hist [OF ok]) simp_all
  then show ?thesis
    using Request ok by (auto simp: request_def split: option.splits intro!: history_ok_task [OF ok, of _ t])
next
  case (Woken i)
  have "history_ok kd (enter_lock kd t c (m\<lparr>mg_waiters := w\<rparr>))" for t c w by (rule enter_lock_hist [OF ok]) simp_all
  then show ?thesis using Woken ok by (auto simp: woken_def split: option.splits list.splits task.splits)
next
  case (Resolved t r)
  then show ?thesis
    using ok call_factory_hist [OF ok]
    by (auto simp: resolved_def split: option.splits task.splits sum.splits intro!: history_ok_task [OF ok, of _ t])
next
  case (Loaded t good)
  show ?thesis
  proof (cases "\<exists>c x. task_of t m = Some (Loading c x)")
    case True
    then obtain c x where c: "task_of t m = Some (Loading c x)" by blast
    then have "od_get (mg_holder m) (kd_id kd c) = Some t" using lock_okD(1) [OF lock] by simp
    then have none: "cached (kd_id kd c) m = None" using lock_okD(4) [OF lock] by simp
    have bad: "history_ok kd (leave_lock t (Raised LoadFailed) (kd_id kd c) m)"
      by (rule history_ok_task [OF ok, of _ t "Raised LoadFailed"]) simp_all
    let ?d = "\<lparr>md_number = length (mg_built m), md_config = c, md_client = x\<rparr>"
    have "history_ok kd (leave_lock t (Got c ?d) (kd_id kd c)
        (m\<lparr>mg_instances := od_set (kd_id kd c) ?d (mg_instances m), mg_built := mg_built m @ [?d]\<rparr>))"
      using ok none by (auto simp: history_ok_def built_for_def)
    then show ?thesis using bad c Loaded by (simp add: loaded_def Let_def)
  next
    case False
    then have "loaded kd t good m = m" by (auto simp: loaded_def split: option.splits task.splits)
    then show ?thesis using ok Loaded by simp
  qed
next
  case (Evict i)
  then show ?thesis using ok by (auto simp: invalidate_def history_ok_def built_for_def)
next
  case (Abandon t)
  then show ?thesis
    using ok by (auto simp: abandon_def split: option.splits task.splits intro!: history_ok_task [OF ok, of _ t])
qed

definition clients_ok :: "('c, 'x) kind \<Rightarrow> ('c, 'x) manager \<Rightarrow> bool" where
  "clients_ok kd m \<longleftrightarrow> lock_ok kd m \<and> history_ok kd m"

lemma clients_ok_init: "clients_ok kd no_clients"
  by (simp add: clients_ok_def lock_ok_def history_ok_def no_clients_def waiting_def built_for_def od_get_def)

definition after :: "('c, 'x) kind \<Rightarrow> 'c cache_event list \<Rightarrow> ('c, 'x) manager" where
  "after kd es = fold (cache_step kd) es no_clients"

interpretation clients: event_machine no_clients "cache_step kd" "clients_ok kd"
  by unfold_locales (auto simp: clients_ok_def lock_ok_step history_ok_step clients_ok_init [unfolded clients_ok_def])

text \<open>
  C15. However the calls of \<^verbatim>\<open>get\<close>, their suspensions, failures and cancellations and the evictions
  interleave: the clients ever built for a configuration are one more than its evictions while one is
  cached, and as many otherwise, so no second client is built beside a cached one; at most one task at a
  time resolves the secret of a configuration or loads its client; and what a call returns was built for
  a row of the id it asked for.
\<close>

theorem one_client_per_configuration:
  "let m = after kd es in
     length (built_for kd i m) = count_list (mg_evicted m) i + (if cached i m = None then 0 else 1) \<and>
     (flight kd (task_of t m) = Some i \<longrightarrow> flight kd (task_of u m) = Some i \<longrightarrow> t = u) \<and>
     (task_of t m = Some (Got c x) \<longrightarrow> kd_id kd (md_config x) = kd_id kd c \<and> x \<in> set (mg_built m))"
proof -
  let ?m = "after kd es"
  have ok: "lock_ok kd ?m" "history_ok kd ?m"
    using clients.inv_run [of kd es] by (simp_all add: clients_ok_def after_def)
  have "t = u" if "flight kd (task_of t ?m) = Some i" "flight kd (task_of u ?m) = Some i"
    using that lock_okD(1) [OF ok(1), of i t] lock_okD(1) [OF ok(1), of i u] by simp
  then show ?thesis using history_okD(2,3) [OF ok(2)] by (auto simp: built_for_def Let_def)
qed

section \<open>Every call of \<^verbatim>\<open>get\<close> ends\<close>

text \<open>
  The work that is left for a configuration: three steps for a task in the queue, two while the secret
  is resolved, one while the client loads.
\<close>

definition work :: "string \<Rightarrow> ('c, 'x) manager \<Rightarrow> nat" where
  "work i m =
     3 * length (waiting i m) +
     (case od_get (mg_holder m) i of
        None \<Rightarrow> 0
      | Some t \<Rightarrow> (case task_of t m of Some (Resolving c) \<Rightarrow> 2 | _ \<Rightarrow> 1))"

text \<open>The events that go on with a call of \<^verbatim>\<open>get\<close> for this configuration.\<close>

fun goes_on :: "('c, 'x) kind \<Rightarrow> string \<Rightarrow> ('c, 'x) manager \<Rightarrow> 'c cache_event \<Rightarrow> bool" where
  "goes_on kd i m (Woken j) \<longleftrightarrow> j = i \<and> od_get (mg_holder m) i = None \<and> waiting i m \<noteq> []"
| "goes_on kd i m (Resolved t r) \<longleftrightarrow> (\<exists>c. task_of t m = Some (Resolving c) \<and> kd_id kd c = i)"
| "goes_on kd i m (Loaded t ok) \<longleftrightarrow> (\<exists>c x. task_of t m = Some (Loading c x) \<and> kd_id kd c = i)"
| "goes_on kd i m (Abandon t) \<longleftrightarrow> flight kd (task_of t m) = Some i \<or> queued kd (task_of t m) = Some i"
| "goes_on kd i m _ \<longleftrightarrow> False"

lemma work_left: "od_get (mg_holder m) i = Some t \<Longrightarrow> flight kd (Some v) = None \<Longrightarrow> work i (leave_lock t v i m) < work i m"
  by (auto simp: work_def split: option.splits task.splits)

lemma work_call_factory:
  assumes "od_get (mg_holder m) (kd_id kd c) = Some t" "task_of t m = Some (Resolving c)"
  shows "work (kd_id kd c) (call_factory kd t c key m) < work (kd_id kd c) m"
proof (cases rule: call_factory_cases [of kd t c key m])
  case (left v)
  then show ?thesis using work_left [OF assms(1), of kd v] by simp
next
  case (stays x)
  then show ?thesis using assms by (simp add: work_def)
qed

lemma goes_on_works:
  assumes ok: "lock_ok kd m" and on: "goes_on kd i m e"
  shows "work i (cache_step kd e m) < work i m"
proof (cases e)
  case (Woken j)
  then have j: "j = i" "od_get (mg_holder m) i = None" using on by auto
  obtain t ts where w: "waiting i m = t # ts" using on Woken by (cases "waiting i m") auto
  then have "queued kd (task_of t m) = Some i" using lock_okD(2) [OF ok, of t i] by simp
  then obtain c where c: "task_of t m = Some (Queued c)" "kd_id kd c = i"
    by (cases "(kd, task_of t m)" rule: queued.cases) auto
  let ?m = "m\<lparr>mg_waiters := od_set i ts (mg_waiters m)\<rparr>"
  have "work i (enter_lock kd t c ?m) < work i m"
  proof (cases rule: enter_lock_cases [of kd c ?m t])
    case (left v)
    then show ?thesis using c w j by (simp add: work_def)
  next
    case (stays v)
    then show ?thesis using c w j by (auto simp: work_def)
  qed
  then show ?thesis using Woken j w c by (simp add: woken_def)
next
  case (Resolved t r)
  then obtain c where c: "task_of t m = Some (Resolving c)" "kd_id kd c = i" using on by auto
  then have held: "od_get (mg_holder m) i = Some t" using lock_okD(1) [OF ok, of i t] by simp
  show ?thesis
    using c Resolved work_left [OF held, of kd] work_call_factory [of m kd c t] held
    by (cases r) (simp_all add: resolved_def)
next
  case (Loaded t good)
  then obtain c x where c: "task_of t m = Some (Loading c x)" "kd_id kd c = i" using on by auto
  then have held: "od_get (mg_holder m) i = Some t" using lock_okD(1) [OF ok, of i t] by simp
  show ?thesis using c Loaded held by (simp add: loaded_def Let_def work_def)
next
  case (Abandon t)
  then consider (queue) c where "task_of t m = Some (Queued c)" "kd_id kd c = i"
    | (fly) c where "task_of t m = Some (Resolving c) \<or> (\<exists>x. task_of t m = Some (Loading c x))" "kd_id kd c = i"
    using on by (cases "(kd, task_of t m)" rule: flight.cases) auto
  then show ?thesis
  proof cases
    case queue
    then have "t \<in> set (waiting i m)" using lock_okD(2) [OF ok, of t i] by simp
    then have "length (removeAll t (waiting i m)) < length (waiting i m)" by (rule length_removeAll_less)
    moreover have "od_get (mg_holder m) i \<noteq> Some t" using lock_okD(1) [OF ok, of i t] queue by simp
    ultimately show ?thesis using queue Abandon by (auto simp: abandon_def work_def split: option.splits)
  next
    case fly
    then have held: "od_get (mg_holder m) i = Some t" using lock_okD(1) [OF ok, of i t] by auto
    show ?thesis using fly Abandon work_left [OF held, of kd Abandoned] by (auto simp: abandon_def)
  qed
qed (use on in auto)

text \<open>
  C29. No call of \<^verbatim>\<open>get\<close> waits for ever behind a lock: as long as a task of a configuration waits or holds
  the lock, one of them is resumed by an event other than its cancellation, and every event that goes on
  with one takes work away, whether the secret or the client comes or not. Evictions add none.
\<close>

theorem lock_always_moves_on:
  "let m = after kd es in
     (flight kd (task_of t m) = Some i \<or> queued kd (task_of t m) = Some i \<longrightarrow>
        (\<exists>e. goes_on kd i m e \<and> (\<forall>u. e \<noteq> Abandon u))) \<and>
     (goes_on kd i m e \<longrightarrow> work i (cache_step kd e m) < work i m) \<and>
     work i (cache_step kd (Evict j) m) = work i m"
proof -
  let ?m = "after kd es"
  have ok: "lock_ok kd ?m" using clients.inv_run [of kd es] by (simp add: clients_ok_def after_def)
  have fly: "\<exists>e. goes_on kd i ?m e \<and> (\<forall>u. e \<noteq> Abandon u)" if f: "flight kd (task_of u ?m) = Some i" for u
  proof -
    consider c where "task_of u ?m = Some (Resolving c)" "kd_id kd c = i" | c x where "task_of u ?m = Some (Loading c x)" "kd_id kd c = i"
      using f by (cases "(kd, task_of u ?m)" rule: flight.cases) auto
    then show ?thesis
    proof cases
      case 1
      then show ?thesis by (intro exI [of _ "Resolved u (Inl MissingSecret)"]) simp
    next
      case 2
      then show ?thesis by (intro exI [of _ "Loaded u True"]) simp
    qed
  qed
  have "\<exists>e. goes_on kd i ?m e \<and> (\<forall>u. e \<noteq> Abandon u)" if "queued kd (task_of t ?m) = Some i"
  proof (cases "od_get (mg_holder ?m) i")
    case None
    have "t \<in> set (waiting i ?m)" using lock_okD(2) [OF ok, of t i] that by simp
    then show ?thesis using None by (intro exI [of _ "Woken i"]) auto
  next
    case (Some u)
    then show ?thesis using fly [of u] lock_okD(1) [OF ok, of i u] by simp
  qed
  moreover have "work i (cache_step kd (Evict j) ?m) = work i ?m" by (cases "cached j ?m") (auto simp: work_def invalidate_def split: option.splits)
  ultimately show ?thesis using fly goes_on_works [OF ok] unfolding Let_def by blast
qed

section \<open>Evictions and new rows\<close>

text \<open>The row a call of \<^verbatim>\<open>get\<close> was made with, while it runs.\<close>

fun asks :: "('c, 'x) task option \<Rightarrow> 'c option" where
  "asks (Some (Queued c)) = Some c"
| "asks (Some (Resolving c)) = Some c"
| "asks (Some (Loading c x)) = Some c"
| "asks _ = None"

definition current :: "('c, 'x) kind \<Rightarrow> string \<Rightarrow> 'c \<Rightarrow> ('c, 'x) manager \<Rightarrow> bool" where
  "current kd i c m \<longleftrightarrow>
     (\<forall>x. cached i m = Some x \<longrightarrow> md_config x = c) \<and>
     (\<forall>t d. asks (task_of t m) = Some d \<longrightarrow> kd_id kd d = i \<longrightarrow> d = c)"

text \<open>Tasks that got their client earlier are left aside (\<open>T\<close>).\<close>

definition served :: "('c, 'x) kind \<Rightarrow> nat set \<Rightarrow> string \<Rightarrow> 'c \<Rightarrow> ('c, 'x) manager \<Rightarrow> bool" where
  "served kd T i c m \<longleftrightarrow> (\<forall>t d x. t \<notin> T \<longrightarrow> task_of t m = Some (Got d x) \<longrightarrow> kd_id kd d = i \<longrightarrow> md_config x = c)"

definition same_rows :: "('c, 'x) kind \<Rightarrow> string \<Rightarrow> 'c \<Rightarrow> 'c cache_event \<Rightarrow> bool" where
  "same_rows kd i c e \<longleftrightarrow> (\<forall>t d. e = Request t d \<longrightarrow> kd_id kd d = i \<longrightarrow> d = c)"

lemma currentD: "current kd i c m \<Longrightarrow> asks (task_of t m) = Some d \<Longrightarrow> kd_id kd d = i \<Longrightarrow> d = c"
proof -
  assume cur: "current kd i c m" and d: "asks (task_of t m) = Some d" "kd_id kd d = i"
  from cur have "\<forall>t d. asks (task_of t m) = Some d \<longrightarrow> kd_id kd d = i \<longrightarrow> d = c" unfolding current_def by (rule conjunct2)
  from this [rule_format, OF d] show "d = c" .
qed

lemma current_task:
  assumes "current kd i c m" "served kd T i c m"
    and "mg_tasks m' = od_set t v (mg_tasks m)" "mg_instances m' = mg_instances m"
    and "\<And>d. asks (Some v) = Some d \<Longrightarrow> kd_id kd d = i \<Longrightarrow> d = c"
    and "\<And>d x. v = Got d x \<Longrightarrow> cached (kd_id kd d) m = Some x"
  shows "current kd i c m' \<and> served kd T i c m'"
  using assms by (auto simp: current_def served_def)

lemma current_call_factory:
  assumes "current kd i c m" "served kd T i c m" "kd_id kd d = i \<Longrightarrow> d = c"
  shows "current kd i c (call_factory kd t d key m) \<and> served kd T i c (call_factory kd t d key m)"
proof (cases rule: call_factory_cases [of kd t d key m])
  case (left v)
  have "asks (Some v) = None" using left(1,2) by (cases v) auto
  then show ?thesis unfolding left(4) using left(3) by (intro current_task [OF assms(1,2), of _ t v]) auto
next
  case (stays x)
  show ?thesis unfolding stays using assms(3) by (intro current_task [OF assms(1,2), of _ t "Loading d x"]) auto
qed

lemma current_enter:
  assumes "current kd i c m" "served kd T i c m" "kd_id kd d = i \<Longrightarrow> d = c"
    and "mg_tasks m' = mg_tasks m" "mg_instances m' = mg_instances m"
  shows "current kd i c (enter_lock kd t d m') \<and> served kd T i c (enter_lock kd t d m')"
proof (cases rule: enter_lock_cases [of kd d m' t])
  case (left v)
  have "asks (Some v) = None" using left(1,2) by (cases v) auto
  then show ?thesis unfolding left(4) using left(3) assms(4,5) by (intro current_task [OF assms(1,2), of _ t v]) auto
next
  case (stays v)
  show ?thesis unfolding stays(4) using stays(2) assms(3-5) by (intro current_task [OF assms(1,2), of _ t v]) auto
qed

lemma current_step:
  assumes cur: "current kd i c m" "served kd T i c m" and rows: "same_rows kd i c e"
  shows "current kd i c (cache_step kd e m) \<and> served kd T i c (cache_step kd e m)"
proof (cases e)
  case (Request t d)
  then have d: "kd_id kd d = i \<Longrightarrow> d = c" using rows by (simp add: same_rows_def)
  have "current kd i c (enter_lock kd t d m) \<and> served kd T i c (enter_lock kd t d m)" by (rule current_enter [OF cur d]) simp_all
  moreover have "current kd i c m' \<and> served kd T i c m'"
    if "mg_tasks m' = od_set t (Queued d) (mg_tasks m)" "mg_instances m' = mg_instances m" for m'
    using that d by (intro current_task [OF cur, of _ t "Queued d"]) simp_all
  moreover have "current kd i c (set_task t (Got d x) m) \<and> served kd T i c (set_task t (Got d x) m)"
    if "cached (kd_id kd d) m = Some x" for x
    using that by (intro current_task [OF cur, of _ t "Got d x"]) simp_all
  ultimately show ?thesis using Request cur by (simp add: request_def split: option.splits)
next
  case (Woken j)
  show ?thesis
  proof (cases "\<exists>t ts d. od_get (mg_holder m) j = None \<and> waiting j m = t # ts \<and> task_of t m = Some (Queued d)")
    case True
    then obtain t ts d where w: "od_get (mg_holder m) j = None" "waiting j m = t # ts" "task_of t m = Some (Queued d)" by blast
    have d: "kd_id kd d = i \<Longrightarrow> d = c" using currentD [OF cur(1), of t d] w(3) by simp
    show ?thesis using current_enter [OF cur d, of "m\<lparr>mg_waiters := od_set j ts (mg_waiters m)\<rparr>" t] w Woken by (simp add: woken_def)
  next
    case False
    then have "woken kd j m = m" by (auto simp: woken_def split: option.splits list.splits task.splits)
    then show ?thesis using cur Woken by simp
  qed
next
  case (Resolved t r)
  show ?thesis
  proof (cases "\<exists>d. task_of t m = Some (Resolving d)")
    case True
    then obtain d where t: "task_of t m = Some (Resolving d)" by blast
    have d: "kd_id kd d = i \<Longrightarrow> d = c" using currentD [OF cur(1), of t d] t by simp
    show ?thesis
      using t Resolved current_call_factory [OF cur d] current_task [OF cur, of _ t "Raised (BadSecret err)" for err]
      by (cases r) (simp_all add: resolved_def)
  next
    case False
    then have "resolved kd t r m = m" by (auto simp: resolved_def split: option.splits task.splits)
    then show ?thesis using cur Resolved by simp
  qed
next
  case (Loaded t good)
  show ?thesis
  proof (cases "\<exists>d x. task_of t m = Some (Loading d x)")
    case True
    then obtain d x where t: "task_of t m = Some (Loading d x)" by blast
    have d: "kd_id kd d = i \<Longrightarrow> d = c" using currentD [OF cur(1), of t d] t by simp
    have bad: "current kd i c (leave_lock t (Raised LoadFailed) (kd_id kd d) m) \<and>
        served kd T i c (leave_lock t (Raised LoadFailed) (kd_id kd d) m)"
      by (rule current_task [OF cur, of _ t "Raised LoadFailed"]) simp_all
    let ?d = "\<lparr>md_number = length (mg_built m), md_config = d, md_client = x\<rparr>"
    let ?m = "leave_lock t (Got d ?d) (kd_id kd d)
      (m\<lparr>mg_instances := od_set (kd_id kd d) ?d (mg_instances m), mg_built := mg_built m @ [?d]\<rparr>)"
    have "md_config y = c" if "cached i ?m = Some y" for y using that d cur(1) by (auto simp: current_def split: if_splits)
    moreover have "e = c" if "asks (task_of u ?m) = Some e" "kd_id kd e = i" for u e
      using that currentD [OF cur(1), of u e] by (simp split: if_splits)
    moreover have "served kd T i c ?m" using d cur(2) by (auto simp: served_def split: if_splits)
    ultimately have "current kd i c ?m \<and> served kd T i c ?m" by (auto simp only: current_def)
    then show ?thesis using t Loaded bad by (simp add: loaded_def Let_def)
  next
    case False
    then have "loaded kd t good m = m" by (auto simp: loaded_def split: option.splits task.splits)
    then show ?thesis using cur Loaded by simp
  qed
next
  case (Evict j)
  then show ?thesis using cur by (auto simp: invalidate_def current_def served_def)
next
  case (Abandon t)
  have "current kd i c m' \<and> served kd T i c m'"
    if "mg_tasks m' = od_set t Abandoned (mg_tasks m)" "mg_instances m' = mg_instances m" for m'
    using that by (intro current_task [OF cur, of _ t Abandoned]) simp_all
  then show ?thesis using cur Abandon by (auto simp: abandon_def split: option.splits task.splits)
qed

lemma current_run:
  assumes "current kd i c m" "served kd T i c m" "\<forall>e\<in>set es. same_rows kd i c e"
  shows "current kd i c (fold (cache_step kd) es m) \<and> served kd T i c (fold (cache_step kd) es m)"
  using assms by (induction es arbitrary: m) (simp_all add: current_step)

text \<open>
  C32. After an eviction the new row is used, under two conditions: when the eviction comes no call of \<^verbatim>\<open>get\<close>
  with the old row is still under way, and none is made later. Then, whatever happens, the cached client
  and every client handed out for the configuration by a call that had not returned before were built
  from the new row.
\<close>

theorem eviction_brings_new_row:
  assumes quiet: "\<forall>t d. asks (task_of t m) = Some d \<longrightarrow> kd_id kd d = i \<longrightarrow> d = c"
    and rows: "\<forall>e\<in>set es. same_rows kd i c e"
  shows "let m' = fold (cache_step kd) es (snd (invalidate i m)) in
     (\<forall>x. cached i m' = Some x \<longrightarrow> md_config x = c) \<and>
     (\<forall>t d x. (\<nexists>d x. task_of t m = Some (Got d x)) \<longrightarrow> task_of t m' = Some (Got d x) \<longrightarrow> kd_id kd d = i \<longrightarrow> md_config x = c)"
proof -
  let ?m = "snd (invalidate i m)"
  have "mg_tasks ?m = mg_tasks m" "cached i ?m = None" by (simp_all add: invalidate_def)
  then have "current kd i c ?m" "served kd {t. \<exists>d x. task_of t m = Some (Got d x)} i c ?m"
    using quiet by (auto simp: current_def served_def)
  from current_run [OF this rows] show ?thesis by (auto simp: current_def served_def Let_def)
qed

text \<open>
  Without the first condition the eviction is lost: a call that was loading a client of the old row caches
  it after the eviction, and later calls with the new row get it.
\<close>

lemma eviction_lost_to_loading:
  assumes ok: "clients_ok kd m" and old: "task_of t m = Some (Loading old x)" and new: "kd_id kd new = kd_id kd old"
    and fresh: "task_of u m = None"
  defines "m1 \<equiv> fold (cache_step kd) [Evict (kd_id kd old), Loaded t True, Request u new] m"
  shows "\<exists>d. cached (kd_id kd new) m1 = Some d \<and> md_config d = old \<and> task_of u m1 = Some (Got new d)"
proof -
  have "od_get (mg_holder m) (kd_id kd old) = Some t" using ok old lock_okD(1) by (fastforce simp: clients_ok_def)
  then have "cached (kd_id kd old) m = None" using ok lock_okD(4) by (fastforce simp: clients_ok_def)
  moreover have "u \<noteq> t" using old fresh by auto
  ultimately show ?thesis
    using old new fresh by (simp add: m1_def invalidate_def loaded_def Let_def request_def)
qed

text \<open>Managers without \<^verbatim>\<open>invalidate\<close> keep a client as long as the process runs.\<close>

lemma cached_for_ever:
  assumes "clients_ok kd m" "cached i m = Some x" "Evict i \<notin> set es"
  shows "cached i (fold (cache_step kd) es m) = Some x"
  using assms
proof (induction es arbitrary: m)
  case (Cons e es)
  have lock: "lock_ok kd m" using Cons.prems(1) by (simp add: clients_ok_def)
  have inst: "mg_instances (call_factory kd t c key n) = mg_instances n" for t c key n
    by (cases rule: call_factory_cases [of kd t c key n]) simp_all
  have enter: "mg_instances (enter_lock kd t c n) = mg_instances n" for t c n
    by (cases rule: enter_lock_cases [of kd c n t]) simp_all
  have "cached i (cache_step kd e m) = Some x"
  proof (cases e)
    case (Request t c)
    then show ?thesis using Cons.prems(2) by (auto simp: request_def enter split: option.splits)
  next
    case (Woken j)
    then show ?thesis using Cons.prems(2) by (auto simp: woken_def enter split: option.splits list.splits task.splits)
  next
    case (Resolved t r)
    then show ?thesis using Cons.prems(2) by (auto simp: resolved_def inst split: option.splits task.splits sum.splits)
  next
    case (Loaded t good)
    have "kd_id kd c \<noteq> i" if "task_of t m = Some (Loading c y)" for c y
      using that lock_okD(1) [OF lock, of "kd_id kd c" t] lock_okD(4) [OF lock, of i] Cons.prems(2) by auto
    then show ?thesis using Loaded Cons.prems(2) by (auto simp: loaded_def Let_def split: option.splits task.splits)
  next
    case (Evict j)
    then show ?thesis using Cons.prems(2,3) by (auto simp: invalidate_def)
  next
    case (Abandon t)
    then show ?thesis using Cons.prems(2) by (auto simp: abandon_def split: option.splits task.splits)
  qed
  then show ?case using Cons.IH [OF clients.inv_step [OF Cons.prems(1)]] Cons.prems(3) by simp
qed simp

section \<open>The managers of the program\<close>

definition voice_kind :: "(string \<Rightarrow> rat option option) \<Rightarrow> (ai_config, client) kind" where
  "voice_kind text =
     \<lparr>kd_id = ac_id, kd_ref = ac_api_key_ref, kd_factory = (\<lambda>c. map_option (\<lambda>f. f c) (od_get (DEFAULT_REGISTRY text) (ac_role c, ac_engine c)))\<rparr>"

datatype tool_client =
    CalComCalendar string int pyval pyval pyval
  | TwilioSms pyval string pyval

text \<open>Options of a tool; an \<^verbatim>\<open>extra\<close> that is not a dictionary has no \<^verbatim>\<open>get\<close>.\<close>

definition with_options ::
  "resolved_policy \<Rightarrow> ((string \<times> pyval) list \<Rightarrow> get_error + tool_client) \<Rightarrow> get_error + tool_client" where
  "with_options p f = (case rp_extra p of PDict d \<Rightarrow> f d | _ \<Rightarrow> Inl ExtraNotADict)"

definition make_cal_com :: "resolved_policy \<Rightarrow> string option \<Rightarrow> get_error + tool_client" where
  "make_cal_com p key =
     (case require_api_key key of
        Inl e \<Rightarrow> Inl e
      | Inr k \<Rightarrow>
          with_options p (\<lambda>d.
            if \<not> truthy (py_get d ''event_type_id'') then Inl MissingOption
            else case py_int (py_get d ''event_type_id'') of
              Inl e \<Rightarrow> Inl (BadExtra e)
            | Inr n \<Rightarrow>
                Inr (CalComCalendar k n (py_get d ''default_attendee_phone'') (py_get d ''default_attendee_email'')
                  (py_or (py_get d ''timezone'') (PStr ''UTC'')))))"

definition make_twilio_sms :: "resolved_policy \<Rightarrow> string option \<Rightarrow> get_error + tool_client" where
  "make_twilio_sms p key =
     (case require_api_key key of
        Inl e \<Rightarrow> Inl e
      | Inr k \<Rightarrow>
          with_options p (\<lambda>d.
            if truthy (py_get d ''account_sid'') \<and> truthy (py_get d ''from_number'')
            then Inr (TwilioSms (py_get d ''account_sid'') k (py_get d ''from_number''))
            else Inl MissingOption))"

definition tool_kind :: "(resolved_policy, tool_client) kind" where
  "tool_kind =
     \<lparr>kd_id = rp_config_id, kd_ref = rp_api_key_ref,
      kd_factory = (\<lambda>p. od_get [(''cal_com'', make_cal_com p), (''twilio'', make_twilio_sms p)] (rp_engine p))\<rparr>"

record embedding_config =
  eb_id :: string
  eb_engine :: string
  eb_model :: "string option"
  eb_api_key_ref :: "string option"
  eb_extra :: "(string \<times> pyval) list"

datatype embedding_client =
    OllamaEmbedding string pyval
  | OpenAIEmbedding string string

definition make_ollama_embedding :: "embedding_config \<Rightarrow> string option \<Rightarrow> get_error + embedding_client" where
  "make_ollama_embedding c key =
     Inr (OllamaEmbedding (text_or (eb_model c) ''nomic-embed-text'')
       (case od_get (eb_extra c) ''base_url'' of None \<Rightarrow> PStr ''http://localhost:11434'' | Some v \<Rightarrow> v))"

definition make_openai_embedding :: "embedding_config \<Rightarrow> string option \<Rightarrow> get_error + embedding_client" where
  "make_openai_embedding c key =
     (case require_api_key key of
        Inl e \<Rightarrow> Inl e
      | Inr k \<Rightarrow> Inr (OpenAIEmbedding k (text_or (eb_model c) ''text-embedding-3-small'')))"

definition embedding_kind :: "(embedding_config, embedding_client) kind" where
  "embedding_kind =
     \<lparr>kd_id = eb_id, kd_ref = eb_api_key_ref,
      kd_factory = (\<lambda>c. od_get [(''ollama'', make_ollama_embedding c), (''openai'', make_openai_embedding c)] (eb_engine c))\<rparr>"

record carrier =
  ca_id :: string
  ca_provider :: string
  ca_auth_id :: "string option"
  ca_auth_token_ref :: "string option"

datatype number_market = PlivoProvider string string | TwilioProvider string string

definition make_market :: "(string \<Rightarrow> string \<Rightarrow> number_market) \<Rightarrow> carrier \<Rightarrow> string option \<Rightarrow> get_error + number_market" where
  "make_market build c auth_token =
     (let auth_id = text_or (ca_auth_id c) [] in
      if auth_id = [] then Inl MissingOption
      else case require_api_key auth_token of Inl e \<Rightarrow> Inl e | Inr k \<Rightarrow> Inr (build auth_id k))"

definition market_kind :: "(carrier, number_market) kind" where
  "market_kind =
     \<lparr>kd_id = ca_id, kd_ref = ca_auth_token_ref,
      kd_factory = (\<lambda>c. od_get [(''plivo'', make_market PlivoProvider c), (''twilio'', make_market TwilioProvider c)] (ca_provider c))\<rparr>"

text \<open>
  Only the voice manager has \<^verbatim>\<open>invalidate\<close>, so a tool keeps the key it was first built with: after the
  row was edited, every later call still gets the client of the old row.
\<close>

definition no_evict :: "'c cache_event \<Rightarrow> bool" where
  "no_evict e \<longleftrightarrow> (\<forall>i. e \<noteq> Evict i)"

lemma edited_tool_unused:
  assumes "\<forall>e\<in>set es. no_evict e" and "cached (rp_config_id p) (after tool_kind es) = Some x"
    and "\<forall>e\<in>set fs. no_evict e" and "task_of t (fold (cache_step tool_kind) fs (after tool_kind es)) = None"
  shows "task_of t (cache_step tool_kind (Request t p) (fold (cache_step tool_kind) fs (after tool_kind es))) = Some (Got p x)"
proof -
  have "clients_ok tool_kind (after tool_kind es)" unfolding after_def by (rule clients.inv_run)
  moreover have "Evict (rp_config_id p) \<notin> set fs" using assms(3) by (auto simp: no_evict_def)
  ultimately have "cached (rp_config_id p) (fold (cache_step tool_kind) fs (after tool_kind es)) = Some x"
    using assms(2) by (intro cached_for_ever)
  then show ?thesis using assms(4) by (simp add: request_def tool_kind_def)
qed

section \<open>The subscriber\<close>

text \<open>
  \<^verbatim>\<open>ProviderConfigSubscriber\<close> evicts what the configuration service reports as changed. Redis keeps no
  message for a subscriber that is not connected.
\<close>

record subscriber =
  sb_listening :: bool
  sb_stopped :: bool

datatype feed_event = Subscribed | Published string | OtherMessage | ConnectionLost | StopSubscriber

fun subscriber_step :: "feed_event \<Rightarrow> subscriber \<times> ('c, 'x) manager \<Rightarrow> subscriber \<times> ('c, 'x) manager" where
  "subscriber_step Subscribed (s, m) = (if sb_stopped s then s else s\<lparr>sb_listening := True\<rparr>, m)"
| "subscriber_step (Published i) (s, m) =
     (if \<not> sb_listening s then (s, m)
      else if sb_stopped s then (s\<lparr>sb_listening := False\<rparr>, m)
      else (s, snd (invalidate i m)))"
| "subscriber_step OtherMessage (s, m) = (if sb_stopped s then s\<lparr>sb_listening := False\<rparr> else s, m)"
| "subscriber_step ConnectionLost (s, m) = (s\<lparr>sb_listening := False\<rparr>, m)"
| "subscriber_step StopSubscriber (s, m) = (s\<lparr>sb_stopped := True, sb_listening := False\<rparr>, m)"

text \<open>A change reported while the subscriber reconnects is never caught up.\<close>

lemma change_missed_while_reconnecting:
  "snd (fold subscriber_step [ConnectionLost, Published i, Subscribed] (s, m)) = m"
  by simp

section \<open>Concrete runs\<close>

definition sample_voice :: "string option \<Rightarrow> ai_config" where
  "sample_voice model =
     \<lparr>ac_id = ''p1'', ac_role = ''llm'', ac_engine = ''ollama'', ac_model = model, ac_voice = None, ac_language = None,
      ac_api_key_ref = None, ac_extra = []\<rparr>"

abbreviation sample_voices :: "(ai_config, client) kind" where
  "sample_voices \<equiv> voice_kind (\<lambda>_. None)"

definition sample_calls :: "ai_config cache_event list" where
  "sample_calls = [Request 0 (sample_voice None), Request 1 (sample_voice None), Loaded 0 True, Woken ''p1'']"

lemma sample_calls_result:
  "cached ''p1'' (after sample_voices sample_calls) \<noteq> None"
  "task_of 1 (after sample_voices (take 2 sample_calls)) = Some (Queued (sample_voice None))"
  "case task_of 1 (after sample_voices sample_calls) of Some (Got c x) \<Rightarrow> c = sample_voice None | _ \<Rightarrow> False"
  "case task_of 0 (after sample_voices (take 2 sample_calls)) of Some (Loading c x) \<Rightarrow> ac_id c = ''p1'' | _ \<Rightarrow> False"
  by code_simp+

theorem one_client_per_configuration_witness:
  "let m = after sample_voices sample_calls in
   \<exists>x. task_of 1 m = Some (Got (sample_voice None) x) \<and> kd_id sample_voices (md_config x) = ''p1'' \<and> x \<in> set (mg_built m) \<and>
     length (built_for sample_voices ''p1'' m) = count_list (mg_evicted m) ''p1'' + 1"
proof -
  let ?m = "after sample_voices sample_calls"
  obtain x where x: "task_of 1 ?m = Some (Got (sample_voice None) x)" 
    using sample_calls_result(3) by (auto split: option.splits task.splits)
  have id: "kd_id sample_voices (sample_voice None) = ''p1''" by (simp add: voice_kind_def sample_voice_def)
  show ?thesis
    using one_client_per_configuration [of sample_voices sample_calls "''p1''" 1 1 "sample_voice None" x] x id sample_calls_result(1)
    by (auto simp: Let_def)
qed

theorem lock_always_moves_on_witness:
  "let m = after sample_voices (take 2 sample_calls) in
   queued sample_voices (task_of 1 m) = Some ''p1'' \<and> (\<exists>e. goes_on sample_voices ''p1'' m e \<and> (\<forall>u. e \<noteq> Abandon u)) \<and>
   goes_on sample_voices ''p1'' m (Loaded 0 True) \<and>
   work ''p1'' (cache_step sample_voices (Loaded 0 True) m) < work ''p1'' m"
proof -
  let ?m = "after sample_voices (take 2 sample_calls)"
  have q: "queued sample_voices (task_of 1 ?m) = Some ''p1''" using sample_calls_result(2) by (simp add: voice_kind_def sample_voice_def)
  have g: "goes_on sample_voices ''p1'' ?m (Loaded 0 True)"
    using sample_calls_result(4) by (auto simp: voice_kind_def split: option.splits task.splits)
  show ?thesis
    using lock_always_moves_on [of sample_voices "take 2 sample_calls" 1 "''p1''" "Loaded 0 True" "[]"] q g
    by (simp only: Let_def) blast
qed

theorem eviction_brings_new_row_witness:
  "let m = after sample_voices sample_calls;
       m' = fold (cache_step sample_voices) [Request 2 (sample_voice (Some ''qwen'')), Loaded 2 True] (snd (invalidate ''p1'' m))
   in \<exists>x. cached ''p1'' m' = Some x \<and> md_config x = sample_voice (Some ''qwen'')"
proof -
  let ?m = "after sample_voices sample_calls" and ?new = "sample_voice (Some ''qwen'')"
  have tasks: "map fst (mg_tasks ?m) = [0, 1]" "asks (task_of 0 ?m) = None" "asks (task_of 1 ?m) = None" by code_simp+
  have quiet: "\<forall>t d. asks (task_of t ?m) = Some d \<longrightarrow> kd_id sample_voices d = ''p1'' \<longrightarrow> d = ?new"
  proof (intro allI impI)
    fix t d
    assume a: "asks (task_of t ?m) = Some d"
    then have "t \<noteq> 0" "t \<noteq> 1" using tasks(2,3) by (metis option.distinct(1))+
    then have "t \<notin> set (od_keys (mg_tasks ?m))" unfolding tasks(1) by simp
    then have "task_of t ?m = None" unfolding od_get_None_iff .
    then show "d = ?new" using a by simp
  qed
  have rows: "\<forall>e\<in>set [Request 2 ?new, Loaded 2 True]. same_rows sample_voices ''p1'' ?new e" by (simp add: same_rows_def)
  have "cached ''p1'' (fold (cache_step sample_voices) [Request 2 ?new, Loaded 2 True] (snd (invalidate ''p1'' ?m))) \<noteq> None"
    by code_simp
  then show ?thesis
    using eviction_brings_new_row [OF quiet rows] unfolding Let_def by blast
qed

end
