(* ===== verification/Service_Client.thy ===== *)
theory Service_Client
  imports Main
begin

text \<open>
  The HTTP client that both client libraries use (\<^verbatim>\<open>HttpConfigRepository\<close> of \<^verbatim>\<open>libs/config_sdk\<close> and
  \<^verbatim>\<open>HttpKnowledgeRepository\<close> of \<^verbatim>\<open>libs/knowledge_sdk\<close>): a lazy login, one more after a 401, and the
  reading of the status. What the services answer is an argument.
\<close>

datatype 'a reply = Unreachable | Answer nat 'a

text \<open>\<^verbatim>\<open>TransportFailure\<close> is an error of the HTTP library that nothing has turned into the library's own.\<close>

datatype client_error = RepositoryUnavailable | TransportFailure

definition client_login :: "string reply \<Rightarrow> client_error + string" where
  "client_login r =
     (case r of
        Unreachable \<Rightarrow> Inl TransportFailure
      | Answer status token \<Rightarrow> if status = 200 then Inr token else Inl RepositoryUnavailable)"

definition read_status :: "nat \<Rightarrow> 'a \<Rightarrow> client_error + 'a option" where
  "read_status status body =
     (if status = 404 then Inr None else if status \<ge> 400 then Inl RepositoryUnavailable else Inr (Some body))"

text \<open>A request with what the login and the service would answer, now and again; the token is kept.\<close>

definition client_request ::
  "string reply \<Rightarrow> string reply \<Rightarrow> 'a reply \<Rightarrow> 'a reply \<Rightarrow> string option \<Rightarrow> (client_error + 'a option) \<times> string option" where
  "client_request login1 login2 first again token =
     (case (case token of Some t \<Rightarrow> Inr t | None \<Rightarrow> client_login login1) of
        Inl e \<Rightarrow> (Inl e, None)
      | Inr t \<Rightarrow>
          (case first of
             Unreachable \<Rightarrow> (Inl RepositoryUnavailable, Some t)
           | Answer status body \<Rightarrow>
               if status = 401 then
                 (case client_login login2 of
                    Inl e \<Rightarrow> (Inl e, Some t)
                  | Inr t' \<Rightarrow>
                      (case again of
                         Unreachable \<Rightarrow> (Inl TransportFailure, Some t')
                       | Answer status' body' \<Rightarrow> (read_status status' body', Some t')))
               else (read_status status body, Some t)))"

text \<open>A service that is down before the first login raises what the callers do not catch.\<close>

lemma login_failure_escapes: "fst (client_request Unreachable l first again None) = Inl TransportFailure"
  by (simp add: client_request_def client_login_def)

text \<open>With a token, an unreachable service is reported as unavailable.\<close>

lemma outage_reported: "client_request l1 l2 Unreachable again (Some t) = (Inl RepositoryUnavailable, Some t)"
  by (simp add: client_request_def)

lemma request_answered:
  "status \<noteq> 401 \<Longrightarrow> client_request l1 l2 (Answer status body) again (Some t) = (read_status status body, Some t)"
  by (simp add: client_request_def)

end
