(* ===== verification/Templates.thy ===== *)
theory Templates
  imports Py_Values
begin

text \<open>
  Placeholders in prompts and speech (\<^verbatim>\<open>libs/config_sdk/workflow.py\<close>, the templating part):
  the expression for a valid \<^verbatim>\<open>{{ name }}\<close> or \<^verbatim>\<open>{{ name | fallback }}\<close>, the expression that
  catches every other pair of braces, the variables a text uses, the malformed placeholders it has,
  and \<^verbatim>\<open>render\<close>.

  As in the directive parser, every greedy run in the two expressions stops at a character the run
  cannot contain and what follows cannot match earlier, so each has at most one match at a position
  and a scanner reads it off.
\<close>

section \<open>The two expressions\<close>

definition name_start :: "char \<Rightarrow> bool" where
  "name_start c \<longleftrightarrow> ascii_upper c \<or> ascii_lower c \<or> c = CHR ''_''"

definition name_char :: "char \<Rightarrow> bool" where
  "name_char c \<longleftrightarrow> name_start c \<or> ascii_digit c"

definition not_close :: "char \<Rightarrow> bool" where
  "not_close c \<longleftrightarrow> c \<noteq> CHR ''}''"

text \<open>
  \<^verbatim>\<open>\{\{\s*([A-Za-z_][A-Za-z0-9_]*)\s*(?:\|([^}]*))?\}\}\<close> at the start of the text: group 1,
  group 2 and what follows the match.
\<close>

definition match_template :: "string \<Rightarrow> (string \<times> string option \<times> string) option" where
  "match_template s =
     (if starts_with ''{{'' s then
        let body = dropWhile py_space (drop 2 s);
            name = takeWhile name_char body;
            after = dropWhile py_space (dropWhile name_char body);
            piped = (after \<noteq> [] \<and> hd after = CHR ''|'');
            fallback = (if piped then Some (takeWhile not_close (tl after)) else None);
            close = (if piped then dropWhile not_close (tl after) else after)
        in if name \<noteq> [] \<and> name_start (hd name) \<and> starts_with ''}}'' close
           then Some (name, fallback, drop 2 close) else None
      else None)"

text \<open>\<^verbatim>\<open>\{\{[^}]*\}{0,2}\<close> at the start of the text: what follows the match.\<close>

definition match_any_braces :: "string \<Rightarrow> string option" where
  "match_any_braces s =
     (if starts_with ''{{'' s then
        let rest = dropWhile not_close (drop 2 s)
        in Some (if starts_with ''}}'' rest then drop 2 rest
                 else if starts_with ''}'' rest then drop 1 rest
                 else rest)
      else None)"

lemma match_template_shorter: "match_template s = Some (n, f, r) \<Longrightarrow> length r < length s"
proof -
  assume m: "match_template s = Some (n, f, r)"
  let ?after = "dropWhile py_space (dropWhile name_char (dropWhile py_space (drop 2 s)))"
  have "starts_with ''{{'' s" using m by (auto simp: match_template_def split: if_splits)
  then have "2 \<le> length s" by (auto simp: starts_with_iff)
  moreover have "length ?after \<le> length (drop 2 s)"
    by (meson le_trans length_dropWhile_le)
  moreover have "length (dropWhile not_close (tl ?after)) \<le> length ?after"
    by (metis length_dropWhile_le length_tl diff_le_self le_trans)
  moreover have "length r \<le> length ?after \<or> length r \<le> length (dropWhile not_close (tl ?after))"
    using m by (auto simp: match_template_def Let_def split: if_splits)
  ultimately show ?thesis by (simp, linarith)
qed

lemma match_any_shorter: "match_any_braces s = Some r \<Longrightarrow> length r < length s"
proof -
  assume m: "match_any_braces s = Some r"
  have "starts_with ''{{'' s" using m by (auto simp: match_any_braces_def split: if_splits)
  then have "2 \<le> length s" by (auto simp: starts_with_iff)
  moreover have "length (dropWhile not_close (drop 2 s)) \<le> length (drop 2 s)"
    by (rule length_dropWhile_le)
  moreover have "length r \<le> length (dropWhile not_close (drop 2 s))"
    using m by (auto simp: match_any_braces_def Let_def split: if_splits)
  ultimately show ?thesis by simp
qed

section \<open>Variables, malformed placeholders, rendering\<close>

text \<open>\<^verbatim>\<open>_TEMPLATE_RE.finditer\<close>: the groups of all matches, left to right.\<close>

function template_matches :: "string \<Rightarrow> (string \<times> string option) list" where
  "template_matches [] = []"
| "template_matches (c # s) =
     (case match_template (c # s) of
        Some (name, fallback, rest) \<Rightarrow> (name, fallback) # template_matches rest
      | None \<Rightarrow> template_matches s)"
  by pat_completeness auto
termination
  by (relation "measure length") (auto dest: match_template_shorter)

definition template_variables :: "string \<Rightarrow> string set" where
  "template_variables s = set (map fst (template_matches s))"

text \<open>\<^verbatim>\<open>_ANY_BRACES_RE.finditer\<close>: the matched chunks.\<close>

function any_braces :: "string \<Rightarrow> string list" where
  "any_braces [] = []"
| "any_braces (c # s) =
     (case match_any_braces (c # s) of
        Some rest \<Rightarrow> take (length (c # s) - length rest) (c # s) # any_braces rest
      | None \<Rightarrow> any_braces s)"
  by pat_completeness auto
termination
  by (relation "measure length") (auto dest: match_any_shorter)

text \<open>\<^verbatim>\<open>_TEMPLATE_RE.fullmatch(chunk)\<close>.\<close>

definition full_template :: "string \<Rightarrow> bool" where
  "full_template chunk =
     (case match_template chunk of Some (_, _, rest) \<Rightarrow> rest = [] | None \<Rightarrow> False)"

definition malformed_templates :: "string \<Rightarrow> string list" where
  "malformed_templates s = filter (\<lambda>chunk. \<not> full_template chunk) (any_braces s)"

type_synonym variables = "string \<Rightarrow> pyval option"

text \<open>The replacement \<^verbatim>\<open>_sub\<close> of one match.\<close>

definition subst_match :: "variables \<Rightarrow> string \<Rightarrow> string option \<Rightarrow> string" where
  "subst_match vars name fallback =
     (let value = (case vars name of Some v \<Rightarrow> v | None \<Rightarrow> PNone) in
      if value = PNone \<or> value = PStr []
      then py_strip (case fallback of Some f \<Rightarrow> f | None \<Rightarrow> [])
      else py_str value)"

text \<open>\<^verbatim>\<open>_TEMPLATE_RE.sub(_sub, text)\<close> and \<^verbatim>\<open>_ANY_BRACES_RE.sub("", text)\<close>.\<close>

function sub_templates :: "variables \<Rightarrow> string \<Rightarrow> string" where
  "sub_templates vars [] = []"
| "sub_templates vars (c # s) =
     (case match_template (c # s) of
        Some (name, fallback, rest) \<Rightarrow> subst_match vars name fallback @ sub_templates vars rest
      | None \<Rightarrow> c # sub_templates vars s)"
  by pat_completeness auto
termination
  by (relation "measure (\<lambda>(vars, s). length s)") (auto dest: match_template_shorter)

function strip_braces :: "string \<Rightarrow> string" where
  "strip_braces [] = []"
| "strip_braces (c # s) =
     (case match_any_braces (c # s) of
        Some rest \<Rightarrow> strip_braces rest
      | None \<Rightarrow> c # strip_braces s)"
  by pat_completeness auto
termination
  by (relation "measure length") (auto dest: match_any_shorter)

definition render :: "string \<Rightarrow> variables \<Rightarrow> string" where
  "render s vars = (if s = [] then [] else strip_braces (sub_templates vars s))"

section \<open>Lemmas\<close>

lemma match_any_None_iff: "match_any_braces s = None \<longleftrightarrow> \<not> starts_with ''{{'' s"
  by (simp add: match_any_braces_def Let_def)

lemma match_template_open: "match_template s \<noteq> None \<Longrightarrow> starts_with ''{{'' s"
  unfolding match_template_def by (metis (no_types))

text \<open>
  The key step: the character kept in front of a removed chunk is never an opening brace that
  could pair up with a kept one behind it, because the chunk starts at the first pair of braces.
\<close>

lemma strip_braces_first:
  "strip_braces s = d # t \<Longrightarrow> \<not> starts_with ''{'' s \<Longrightarrow> s \<noteq> [] \<Longrightarrow> d = hd s"
  by (cases s) (auto simp: match_any_braces_def)

lemma strip_braces_no_open: "\<not> py_in ''{{'' (strip_braces s)"
proof (induction s rule: strip_braces.induct)
  case 1
  then show ?case by simp
next
  case (2 c s)
  show ?case
  proof (cases "match_any_braces (c # s)")
    case (Some rest)
    then show ?thesis using "2.IH"(2) [OF Some] by simp
  next
    case None
    have IH: "\<not> py_in ''{{'' (strip_braces s)" using "2.IH"(1) [OF None] .
    have st: "\<not> starts_with ''{{'' (c # s)" using None by (simp add: match_any_None_iff)
    have "\<not> starts_with ''{{'' (c # strip_braces s)"
    proof
      assume a: "starts_with ''{{'' (c # strip_braces s)"
      then have c: "c = CHR ''{''" and d: "starts_with ''{'' (strip_braces s)" by auto
      then obtain t where t: "strip_braces s = CHR ''{'' # t" by (auto simp: starts_with_iff)
      have ns: "\<not> starts_with ''{'' s" using st c by (cases s) auto
      have "s \<noteq> []" using t by auto
      then have "hd s = CHR ''{''" using strip_braces_first [OF t ns] by simp
      then show False using ns \<open>s \<noteq> []\<close> by (cases s) auto
    qed
    then show ?thesis using IH None by (simp)
  qed
qed

lemma no_open_tail: "\<not> py_in ''{{'' (c # s) \<Longrightarrow> \<not> py_in ''{{'' s \<and> \<not> starts_with ''{{'' (c # s)"
  by auto

lemma sub_templates_id: "\<not> py_in ''{{'' s \<Longrightarrow> sub_templates vars s = s"
proof (induction s)
  case Nil
  then show ?case by simp
next
  case (Cons c s)
  then have "match_template (c # s) = None" using match_template_open no_open_tail by blast
  then show ?case using Cons no_open_tail [OF Cons.prems] by simp
qed

lemma strip_braces_id: "\<not> py_in ''{{'' s \<Longrightarrow> strip_braces s = s"
proof (induction s)
  case Nil
  then show ?case by simp
next
  case (Cons c s)
  then have "match_any_braces (c # s) = None" using match_any_None_iff no_open_tail by blast
  then show ?case using Cons no_open_tail [OF Cons.prems] by simp
qed

lemma sub_templates_skip:
  assumes "CHR ''{'' \<notin> set a"
  shows "sub_templates vars (a @ s) = a @ sub_templates vars s"
  using assms
proof (induction a)
  case Nil
  then show ?case by simp
next
  case (Cons c a)
  have "match_template (c # a @ s) = None"
    using Cons.prems by (simp add: match_template_def)
  then show ?case using Cons by simp
qed

lemma strip_braces_skip:
  assumes "CHR ''{'' \<notin> set a"
  shows "strip_braces (a @ s) = a @ strip_braces s"
  using assms
proof (induction a)
  case Nil
  then show ?case by simp
next
  case (Cons c a)
  have "match_any_braces (c # a @ s) = None"
    using Cons.prems by (simp add: match_any_braces_def)
  then show ?case using Cons by simp
qed

text \<open>A placeholder as the editor writes it.\<close>

definition print_placeholder :: "string \<Rightarrow> string option \<Rightarrow> string" where
  "print_placeholder name fallback =
     ''{{'' @ name @ (case fallback of Some f \<Rightarrow> ''|'' @ f | None \<Rightarrow> []) @ ''}}''"

definition valid_name :: "string \<Rightarrow> bool" where
  "valid_name name \<longleftrightarrow> name \<noteq> [] \<and> name_start (hd name) \<and> list_all name_char name"

lemma not_name_chars [simp]: "\<not> name_char (CHR ''}'')" "\<not> name_char (CHR ''|'')"
  by (simp_all add: name_char_def name_start_def ascii_upper_def ascii_lower_def ascii_digit_def)

lemma not_space_chars [simp]: "\<not> py_space (CHR ''}'')" "\<not> py_space (CHR ''|'')"
  by (simp_all add: py_space_def)

lemma name_char_not_space: "name_char c \<Longrightarrow> \<not> py_space c"
  by (auto simp: name_char_def name_start_def ascii_upper_def ascii_lower_def ascii_digit_def
      py_space_def Let_def)

lemma match_placeholder:
  assumes "valid_name name" and "\<forall>f. fallback = Some f \<longrightarrow> CHR ''}'' \<notin> set f"
  shows "match_template (print_placeholder name fallback @ b) = Some (name, fallback, b)"
proof -
  obtain d y where d: "(case fallback of Some f \<Rightarrow> ''|'' @ f | None \<Rightarrow> []) @ ''}}'' @ b = d # y"
    "\<not> name_char d" "\<not> py_space d"
    by (cases fallback) auto
  have sp: "dropWhile py_space (name @ d # y) = name @ d # y"
    using assms(1) name_char_not_space by (cases name) (auto simp: valid_name_def)
  have nm: "takeWhile name_char (name @ d # y) = name" "dropWhile name_char (name @ d # y) = d # y"
    using assms(1) d(2) by (auto simp: valid_name_def list_all_iff takeWhile_append dropWhile_append)
  have cl: "takeWhile not_close (f @ CHR ''}'' # z) = f \<and> dropWhile not_close (f @ CHR ''}'' # z) = CHR ''}'' # z"
    if "CHR ''}'' \<notin> set f" for f z
    using that by (induction f) (auto simp: not_close_def)
  have eq: "print_placeholder name fallback @ b = ''{{'' @ name @ d # y"
    using d(1) by (simp add: print_placeholder_def)
  have dd: "dropWhile py_space (d # y) = d # y" using d(3) by simp
  have v: "name \<noteq> []" "name_start (hd name)" using assms(1) by (simp_all add: valid_name_def)
  have d2: "drop 2 (''{{'' @ name @ d # y) = name @ d # y" by simp
  show ?thesis
    unfolding eq match_template_def Let_def d2 sp nm dd
    using d(1) v cl assms(2) by (cases fallback) auto
qed

section \<open>Properties\<close>

text \<open>
  Whatever the text and whatever the values of the variables, even values that contain braces
  themselves, a rendered text contains no pair of opening braces: no placeholder is ever spoken.
\<close>

theorem render_never_leaks_braces: "\<not> py_in ''{{'' (render s vars)"
  by (simp add: render_def strip_braces_no_open)

text \<open>
  Text without placeholders is rendered as it is, for all values of the variables.
\<close>

lemma render_plain_text:
  assumes "\<not> py_in ''{{'' s"
  shows "render s vars = s"
  using assms by (simp add: render_def sub_templates_id strip_braces_id)

text \<open>
  A placeholder between plain text is replaced by the value of its variable, or by the
  stripped fallback when the variable is missing, \<open>None\<close> or empty, and the rest of the text is
  rendered on its own.
\<close>

theorem render_placeholder:
  assumes "valid_name name" and "\<forall>f. fallback = Some f \<longrightarrow> CHR ''}'' \<notin> set f"
    and "CHR ''{'' \<notin> set a" and "CHR ''{'' \<notin> set (subst_match vars name fallback)"
  shows "render (a @ print_placeholder name fallback @ b) vars =
           a @ subst_match vars name fallback @ render b vars"
proof -
  have ne: "a @ print_placeholder name fallback @ b \<noteq> []" by (simp add: print_placeholder_def)
  obtain c s where cs: "print_placeholder name fallback @ b = c # s"
    by (cases "print_placeholder name fallback @ b") (auto simp: print_placeholder_def)
  have "sub_templates vars (print_placeholder name fallback @ b) =
          subst_match vars name fallback @ sub_templates vars b"
    using match_placeholder [OF assms(1,2), of b] unfolding cs by simp
  then have "sub_templates vars (a @ print_placeholder name fallback @ b) =
          a @ subst_match vars name fallback @ sub_templates vars b"
    using sub_templates_skip [OF assms(3)] by simp
  moreover have "strip_braces (sub_templates vars b) = render b vars"
    by (simp add: render_def)
  moreover have "render (a @ print_placeholder name fallback @ b) vars =
      strip_braces (sub_templates vars (a @ print_placeholder name fallback @ b))"
    using ne unfolding render_def by (rule if_not_P)
  ultimately show ?thesis
    using strip_braces_skip [OF assms(3)] strip_braces_skip [OF assms(4)] by simp
qed

theorem render_placeholder_witness:
  "render (''Hi '' @ print_placeholder ''first_name'' (Some '' friend '') @ ''!'') (\<lambda>_. None) =
     ''Hi '' @ ''friend'' @ ''!''"
proof -
  have s: "subst_match (\<lambda>_. None) ''first_name'' (Some '' friend '') = ''friend''"
    by (simp add: subst_match_def py_strip_def py_lstrip_def py_rstrip_def py_space_def)
  have r: "render ''!'' (\<lambda>_. None) = ''!''" by (rule render_plain_text) simp
  have "valid_name ''first_name''"
    by (simp add: valid_name_def name_char_def name_start_def ascii_lower_def)
  then show ?thesis
    using render_placeholder [of "''first_name''" "Some '' friend ''" "''Hi ''" "\<lambda>_. None" "''!''"]
    unfolding s r by simp
qed

end
