(* ===== verification/Workflow_Graph.thy ===== *)
theory Workflow_Graph
  imports Templates "HOL-Library.While_Combinator"
begin

text \<open>
  The workflow graph that the configuration service validates on publish and the conversation
  service walks at run time (\<^verbatim>\<open>libs/config_sdk/workflow.py\<close>): nodes, edges, the coercions from
  the editor's JSON, the structural validation \<^verbatim>\<open>_validate_and_build\<close>, \<^verbatim>\<open>parse_graph\<close>, the graph
  queries and the default graph.

  The texts of the editor's error messages are left out: \<open>wf_msg\<close> has one constructor per message
  with the values the message quotes. A Python exception other than \<^verbatim>\<open>WorkflowInvalid\<close> (only
  \<^verbatim>\<open>OverflowError\<close> can occur, from an infinite \<^verbatim>\<open>delayed_start_ms\<close>) is the left summand of
  the result.
\<close>

section \<open>Data\<close>

datatype wf_msg =
    NotAnObject | NoNodes | EdgesNotAList | StepNotAnObject | StepMissingId
  | DuplicateId string | UnknownType string | NeedsName | DuplicateName string
  | StartCount nat | NoEndStep | ManyGlobals nat | ConnectionNotAnObject
  | UnknownSource string | UnknownTarget string | NotSetUp | NeedsLabel
  | LabelHasNoLetters string | NeedsCondition | GlobalIsWired string | IntoStart
  | TransferNeedsDestination string | TerminalHasExit string | NoWayOut string
  | SameMove string string
  | MalformedPlaceholder string | AlwaysOnVariable string
  | UsedBeforeCapture string "string option" | NothingProvides string | NoPathTo string

record wf_error =
  err_kind :: string
  err_id :: "string option"
  err_field :: "string option"
  err_msg :: wf_msg

record extraction_variable =
  ev_name :: string
  ev_type :: string
  ev_prompt :: string

record extraction =
  ex_enabled :: bool
  ex_prompt :: string
  ex_variables :: "extraction_variable list"

record edge =
  e_id :: string
  e_source :: string
  e_target :: string
  e_label :: string
  e_condition :: string
  e_speech :: "string option"

record node =
  n_id :: string
  n_type :: string
  n_name :: string
  n_prompt :: string
  n_greeting :: "string option"
  n_delayed_start_ms :: int
  n_tools :: "string list"
  n_knowledge_base_ids :: "string list"
  n_extraction :: "extraction option"
  n_transfer_destination :: "string option"
  n_disposition :: "string option"
  n_out_edges :: "edge list"

record graph =
  g_nodes :: "(string, node) odict"
  g_start_id :: string

definition NODE_TYPES :: "string list" where
  "NODE_TYPES = [''start'', ''agent'', ''transfer'', ''end'', ''global'']"

definition TERMINAL_NODE_TYPES :: "string list" where
  "TERMINAL_NODE_TYPES = [''end'', ''transfer'']"

definition UNWIRED_NODE_TYPES :: "string list" where
  "UNWIRED_NODE_TYPES = [''global'']"

definition ENDED_EARLY :: string where
  "ENDED_EARLY = ''ended_early''"

definition CALL_CONTEXT_VARIABLES :: "string list" where
  "CALL_CONTEXT_VARIABLES =
     [''caller_number'', ''called_number'', ''direction'', ''agent_name'', ''current_date'',
      ''current_time'', ''business_name'']"

definition n_is_terminal :: "node \<Rightarrow> bool" where
  "n_is_terminal n \<longleftrightarrow> n_type n \<in> set TERMINAL_NODE_TYPES"

definition n_is_unwired :: "node \<Rightarrow> bool" where
  "n_is_unwired n \<longleftrightarrow> n_type n \<in> set UNWIRED_NODE_TYPES"

text \<open>\<^verbatim>\<open>Edge.tool_name\<close>: runs of other characters become one underscore, the ends are trimmed.\<close>

definition slug_char :: "char \<Rightarrow> bool" where
  "slug_char c \<longleftrightarrow> ascii_lower c \<or> ascii_digit c"

function collapse :: "string \<Rightarrow> string" where
  "collapse [] = []"
| "collapse (c # s) =
     (if slug_char c then c # collapse s
      else CHR ''_'' # collapse (dropWhile (\<lambda>d. \<not> slug_char d) s))"
  by pat_completeness auto
termination
  by (relation "measure length") (auto simp: less_Suc_eq_le length_dropWhile_le)

definition strip_underscores :: "string \<Rightarrow> string" where
  "strip_underscores s =
     rev (dropWhile (\<lambda>c. c = CHR ''_'') (rev (dropWhile (\<lambda>c. c = CHR ''_'') s)))"

definition tool_name :: "edge \<Rightarrow> string" where
  "tool_name e = strip_underscores (collapse (py_lower (e_label e)))"

section \<open>Coercions from the editor's JSON\<close>

definition data_object :: "(string \<times> pyval) list \<Rightarrow> (string \<times> pyval) list" where
  "data_object raw = (case py_get raw ''data'' of PDict d \<Rightarrow> d | _ \<Rightarrow> [])"

definition optional_str :: "pyval \<Rightarrow> string option" where
  "optional_str v =
     (if v = PNone then None
      else let t = py_strip (py_str v) in if t = [] then None else Some t)"

abbreviation str_or_empty :: "pyval \<Rightarrow> string" where
  "str_or_empty v \<equiv> py_str (py_or v (PStr []))"

fun parse_variable :: "pyval \<Rightarrow> extraction_variable list" where
  "parse_variable (PDict v) =
     (if py_strip (str_or_empty (py_get v ''name'')) \<noteq> []
      then [\<lparr>ev_name = py_strip (str_or_empty (py_get v ''name'')),
             ev_type = py_str (py_or (py_get v ''type'') (PStr ''string'')),
             ev_prompt = str_or_empty (py_get v ''prompt'')\<rparr>]
      else [])"
| "parse_variable _ = []"

fun parse_extraction :: "pyval \<Rightarrow> extraction option" where
  "parse_extraction (PDict raw) =
     (let raw_vars = (case py_or (py_get raw ''variables'') (PList []) of PList xs \<Rightarrow> xs | _ \<Rightarrow> [])
      in Some \<lparr>ex_enabled = truthy (case od_get raw ''enabled'' of Some v \<Rightarrow> v | None \<Rightarrow> PBool False),
               ex_prompt = str_or_empty (py_get raw ''prompt''),
               ex_variables = concat (map parse_variable raw_vars)\<rparr>)"
| "parse_extraction _ = None"

fun str_list :: "pyval \<Rightarrow> string list" where
  "str_list (PList xs) = map py_str xs"
| "str_list _ = []"

definition MAX_DELAYED_START_MS :: int where
  "MAX_DELAYED_START_MS = 2000"

text \<open>Only \<^verbatim>\<open>TypeError\<close> and \<^verbatim>\<open>ValueError\<close> are caught.\<close>

definition delayed_start_ms :: "pyval \<Rightarrow> py_exn + int" where
  "delayed_start_ms raw =
     (case py_int (py_or raw (PInt 0)) of
        Inl TypeError \<Rightarrow> Inr 0
      | Inl ValueError \<Rightarrow> Inr 0
      | Inl e \<Rightarrow> Inl e
      | Inr value \<Rightarrow>
          Inr (if value < 0 then 0
               else if value > MAX_DELAYED_START_MS then MAX_DELAYED_START_MS else value))"

definition node_from_raw :: "(string \<times> pyval) list \<Rightarrow> py_exn + node" where
  "node_from_raw raw =
     (let data = data_object raw; greeting = py_get data ''greeting'' in
      case delayed_start_ms (py_get data ''delayed_start_ms'') of
        Inl e \<Rightarrow> Inl e
      | Inr delay \<Rightarrow> Inr
          \<lparr>n_id = str_or_empty (py_get raw ''id''),
           n_type = str_or_empty (py_get raw ''type''),
           n_name = py_strip (str_or_empty (py_get data ''name'')),
           n_prompt = str_or_empty (py_get data ''prompt''),
           n_greeting = (if greeting = PNone then None else Some (py_str greeting)),
           n_delayed_start_ms = delay,
           n_tools = str_list (py_get data ''tools''),
           n_knowledge_base_ids = str_list (py_get data ''knowledge_base_ids''),
           n_extraction = parse_extraction (py_get data ''extraction''),
           n_transfer_destination = optional_str (py_get data ''transfer_destination''),
           n_disposition = optional_str (py_get data ''disposition''),
           n_out_edges = []\<rparr>)"

definition edge_from_raw :: "(string \<times> pyval) list \<Rightarrow> edge" where
  "edge_from_raw raw =
     (let data = data_object raw;
          speech = py_strip (str_or_empty (py_get data ''transition_speech''))
      in \<lparr>e_id = str_or_empty (py_get raw ''id''),
          e_source = str_or_empty (py_get raw ''source''),
          e_target = str_or_empty (py_get raw ''target''),
          e_label = py_strip (str_or_empty (py_get data ''label'')),
          e_condition = py_strip (str_or_empty (py_get data ''condition'')),
          e_speech = (if speech = [] then None else Some speech)\<rparr>)"

section \<open>Structural validation\<close>

definition err :: "string \<Rightarrow> string option \<Rightarrow> string option \<Rightarrow> wf_msg \<Rightarrow> wf_error" where
  "err kind i f m = \<lparr>err_kind = kind, err_id = i, err_field = f, err_msg = m\<rparr>"

text \<open>The loop over the raw nodes: the errors so far and the nodes so far.\<close>

fun collect_nodes ::
  "pyval list \<Rightarrow> wf_error list \<Rightarrow> (string, node) odict \<Rightarrow> py_exn + (wf_error list \<times> (string, node) odict)"
where
  "collect_nodes [] errs nodes = Inr (errs, nodes)"
| "collect_nodes (PDict raw_node # raws) errs nodes =
     (case node_from_raw raw_node of
        Inl e \<Rightarrow> Inl e
      | Inr node \<Rightarrow>
          if n_id node = [] then
            collect_nodes raws (errs @ [err ''node'' None (Some ''id'') StepMissingId]) nodes
          else if od_get nodes (n_id node) \<noteq> None then
            collect_nodes raws
              (errs @ [err ''node'' (Some (n_id node)) (Some ''id'') (DuplicateId (n_id node))]) nodes
          else
            collect_nodes raws
              (errs
               @ (if n_type node \<notin> set NODE_TYPES
                  then [err ''node'' (Some (n_id node)) (Some ''type'') (UnknownType (n_type node))]
                  else [])
               @ (if n_name node = []
                  then [err ''node'' (Some (n_id node)) (Some ''name'') NeedsName] else []))
              (od_set (n_id node) node nodes))"
| "collect_nodes (_ # raws) errs nodes =
     collect_nodes raws (errs @ [err ''workflow'' None (Some ''nodes'') StepNotAnObject]) nodes"

text \<open>The loop that looks for step names that differ in case only.\<close>

fun name_errors :: "node list \<Rightarrow> string list \<Rightarrow> wf_error list" where
  "name_errors [] seen = []"
| "name_errors (n # ns) seen =
     (if py_lower (n_name n) \<in> set seen
      then [err ''node'' (Some (n_id n)) (Some ''name'') (DuplicateName (n_name n))] else [])
     @ name_errors ns (py_lower (n_name n) # seen)"

definition count_errors :: "node list \<Rightarrow> wf_error list" where
  "count_errors ns =
     (let starts = filter (\<lambda>n. n_type n = ''start'') ns;
          globals = filter n_is_unwired ns
      in (if length starts \<noteq> 1
          then [err ''workflow'' None None (StartCount (length starts))] else [])
         @ (if \<not> list_ex (\<lambda>n. n_type n = ''end'') ns
            then [err ''workflow'' None None NoEndStep] else [])
         @ (if length globals > 1
            then [err ''workflow'' None None (ManyGlobals (length globals))] else []))"

text \<open>The errors of one edge whose ends exist.\<close>

definition edge_errors :: "edge \<Rightarrow> wf_error list" where
  "edge_errors e =
     (if e_label e = [] \<and> e_condition e = []
      then [err ''edge'' (Some (e_id e)) (Some ''condition'') NotSetUp]
      else (if e_label e = [] then [err ''edge'' (Some (e_id e)) (Some ''label'') NeedsLabel]
            else if tool_name e = []
            then [err ''edge'' (Some (e_id e)) (Some ''label'') (LabelHasNoLetters (e_label e))]
            else [])
         @ (if e_condition e = []
            then [err ''edge'' (Some (e_id e)) (Some ''condition'') NeedsCondition] else []))"

fun collect_edges ::
  "(string, node) odict \<Rightarrow> pyval list \<Rightarrow> wf_error list \<Rightarrow> edge list \<Rightarrow> wf_error list \<times> edge list"
where
  "collect_edges nodes [] errs edges = (errs, edges)"
| "collect_edges nodes (PDict raw_edge # raws) errs edges =
     (let e = edge_from_raw raw_edge in
      if od_get nodes (e_source e) = None then
        collect_edges nodes raws
          (errs @ [err ''edge'' (Some (e_id e)) (Some ''source'') (UnknownSource (e_source e))]) edges
      else if od_get nodes (e_target e) = None then
        collect_edges nodes raws
          (errs @ [err ''edge'' (Some (e_id e)) (Some ''target'') (UnknownTarget (e_target e))]) edges
      else collect_edges nodes raws (errs @ edge_errors e) (edges @ [e]))"
| "collect_edges nodes (_ # raws) errs edges =
     collect_edges nodes raws
       (errs @ [err ''workflow'' None (Some ''edges'') ConnectionNotAnObject]) edges"

text \<open>The dictionaries \<^verbatim>\<open>out_edges\<close> and \<^verbatim>\<open>in_count\<close> of the source, as functions of a node id.\<close>

definition out_edges_of :: "edge list \<Rightarrow> string \<Rightarrow> edge list" where
  "out_edges_of edges i = filter (\<lambda>e. e_source e = i) edges"

definition in_count_of :: "edge list \<Rightarrow> string \<Rightarrow> nat" where
  "in_count_of edges i = length (filter (\<lambda>e. e_target e = i) edges)"

text \<open>Two exits of a step that collapse to the same tool name.\<close>

fun clash_errors :: "edge list \<Rightarrow> (string, edge) odict \<Rightarrow> wf_error list" where
  "clash_errors [] seen = []"
| "clash_errors (e # es) seen =
     (if tool_name e = [] then clash_errors es seen
      else
        (case od_get seen (tool_name e) of
           Some c \<Rightarrow> [err ''edge'' (Some (e_id e)) (Some ''label'') (SameMove (e_label e) (e_label c))]
         | None \<Rightarrow> [])
        @ clash_errors es (od_set (tool_name e) e seen))"

definition wiring_errors :: "edge list \<Rightarrow> node \<Rightarrow> wf_error list" where
  "wiring_errors edges n =
     (if n_is_unwired n then
        (if in_count_of edges (n_id n) > 0 \<or> out_edges_of edges (n_id n) \<noteq> []
         then [err ''node'' (Some (n_id n)) None (GlobalIsWired (n_name n))] else [])
      else
        (if n_type n = ''start'' \<and> in_count_of edges (n_id n) > 0
         then [err ''node'' (Some (n_id n)) None IntoStart] else [])
        @ (if n_type n = ''transfer'' \<and>
              py_strip (case n_transfer_destination n of Some d \<Rightarrow> d | None \<Rightarrow> []) = []
           then [err ''node'' (Some (n_id n)) (Some ''transfer_destination'')
                   (TransferNeedsDestination (n_name n))] else [])
        @ (if n_is_terminal n \<and> out_edges_of edges (n_id n) \<noteq> []
           then [err ''node'' (Some (n_id n)) None (TerminalHasExit (n_name n))] else [])
        @ (if \<not> n_is_terminal n \<and> out_edges_of edges (n_id n) = []
           then [err ''node'' (Some (n_id n)) None (NoWayOut (n_name n))] else [])
        @ clash_errors (out_edges_of edges (n_id n)) [])"

definition attach_edges :: "edge list \<Rightarrow> (string, node) odict \<Rightarrow> (string, node) odict" where
  "attach_edges edges nodes =
     map (\<lambda>(i, n). (i, n\<lparr>n_out_edges := out_edges_of edges (n_id n)\<rparr>)) nodes"

text \<open>\<^verbatim>\<open>_validate_and_build\<close>: the errors, or the graph when there are none.\<close>

definition validate_and_build :: "pyval \<Rightarrow> py_exn + (wf_error list \<times> graph option)" where
  "validate_and_build raw0 =
     (case raw0 of
        PDict raw \<Rightarrow>
          (case py_get raw ''nodes'' of
             PList raw_nodes \<Rightarrow>
               if raw_nodes = [] then Inr ([err ''workflow'' None (Some ''nodes'') NoNodes], None)
               else
                 (case py_or (py_get raw ''edges'') (PList []) of
                    PList raw_edges \<Rightarrow>
                      (case collect_nodes raw_nodes [] [] of
                         Inl e \<Rightarrow> Inl e
                       | Inr (errs1, nodes) \<Rightarrow>
                           if errs1 \<noteq> [] then Inr (errs1, None)
                           else
                             let ns = map snd nodes;
                                 errs2 = name_errors ns [] @ count_errors ns;
                                 (errs3, edges) = collect_edges nodes raw_edges errs2 [];
                                 errs4 = errs3 @ concat (map (wiring_errors edges) ns)
                             in if errs4 \<noteq> [] then Inr (errs4, None)
                                else
                                  (case filter (\<lambda>n. n_type n = ''start'') ns of
                                     s # _ \<Rightarrow>
                                       Inr ([], Some \<lparr>g_nodes = attach_edges edges nodes,
                                                      g_start_id = n_id s\<rparr>)
                                   | [] \<Rightarrow> Inl KeyError))
                  | _ \<Rightarrow> Inr ([err ''workflow'' None (Some ''edges'') EdgesNotAList], None))
           | _ \<Rightarrow> Inr ([err ''workflow'' None (Some ''nodes'') NoNodes], None))
      | _ \<Rightarrow> Inr ([err ''workflow'' None None NotAnObject], None))"

text \<open>
  \<^verbatim>\<open>parse_graph\<close>: the exceptions it can raise, or the graph.
\<close>

datatype parse_exn = WorkflowInvalid "wf_error list" | Raised py_exn

definition parse_graph :: "pyval \<Rightarrow> parse_exn + graph" where
  "parse_graph raw =
     (case validate_and_build raw of
        Inl e \<Rightarrow> Inl (Raised e)
      | Inr (errs, g) \<Rightarrow>
          if errs \<noteq> [] then Inl (WorkflowInvalid errs)
          else (case g of Some g' \<Rightarrow> Inr g' | None \<Rightarrow> Inl (WorkflowInvalid [])))"

section \<open>Graph queries\<close>

definition g_node_list :: "graph \<Rightarrow> node list" where
  "g_node_list g = map snd (g_nodes g)"

definition is_single_stage :: "graph \<Rightarrow> bool" where
  "is_single_stage g \<longleftrightarrow>
     list_all (\<lambda>n. n_type n \<in> {''start'', ''end''} \<or> n_is_unwired n) (g_node_list g)"

fun first_unwired_prompt :: "node list \<Rightarrow> string" where
  "first_unwired_prompt [] = []"
| "first_unwired_prompt (n # ns) = (if n_is_unwired n then n_prompt n else first_unwired_prompt ns)"

definition global_prompt :: "graph \<Rightarrow> string" where
  "global_prompt g = first_unwired_prompt (g_node_list g)"

definition graph_template_variables :: "graph \<Rightarrow> string set" where
  "graph_template_variables g =
     (\<Union>n \<in> set (g_node_list g).
        template_variables (n_prompt n) \<union>
        template_variables (case n_greeting n of Some t \<Rightarrow> t | None \<Rightarrow> []) \<union>
        (\<Union>e \<in> set (n_out_edges n). template_variables (case e_speech e of Some t \<Rightarrow> t | None \<Rightarrow> [])))"

text \<open>The variables the extraction of one step may produce.\<close>

definition node_declares :: "node \<Rightarrow> string set" where
  "node_declares n =
     (case n_extraction n of
        Some x \<Rightarrow> if ex_enabled x then set (map ev_name (ex_variables x)) else {}
      | None \<Rightarrow> {})"

definition declared_variables :: "graph \<Rightarrow> string set" where
  "declared_variables g = (\<Union>n \<in> set (g_node_list g). node_declares n)"

text \<open>\<^verbatim>\<open>_declared_by\<close>, as a function of the node id.\<close>

definition declared_by :: "graph \<Rightarrow> string \<Rightarrow> string set" where
  "declared_by g i = (case od_get (g_nodes g) i of Some n \<Rightarrow> node_declares n | None \<Rightarrow> {})"

text \<open>\<^verbatim>\<open>_incoming\<close>: the sources of the edges into a node.\<close>

definition incoming :: "graph \<Rightarrow> string \<Rightarrow> string list" where
  "incoming g i =
     map e_source (filter (\<lambda>e. e_target e = i) (concat (map n_out_edges (g_node_list g))))"

text \<open>
  \<^verbatim>\<open>reachable\<close>: the depth-first search. The stack is kept with its top first; the nodes seen are
  listed in the order of their first visit, newest first. A missing node raises
  \<^verbatim>\<open>KeyError\<close>.
\<close>

function reach_loop :: "(string, node) odict \<Rightarrow> string list \<Rightarrow> string list \<Rightarrow> py_exn + string list" where
  "reach_loop nodes seen [] = Inr seen"
| "reach_loop nodes seen (i # stack) =
     (if i \<in> set seen then reach_loop nodes seen stack
      else
        case od_get nodes i of
          None \<Rightarrow> Inl KeyError
        | Some n \<Rightarrow> reach_loop nodes (i # seen) (rev (map e_target (n_out_edges n)) @ stack))"
  by pat_completeness auto
termination
proof (relation "measures [\<lambda>(nodes, seen, stack). card (set (od_keys nodes) - set seen),
                           \<lambda>(nodes, seen, stack). length stack]", goal_cases)
  case (3 nodes seen i stack n)
  have "i \<in> set (od_keys nodes)" using 3(2) od_get_None_iff [of nodes i] by auto
  then have "set (od_keys nodes) - set (i # seen) \<subset> set (od_keys nodes) - set seen"
    using 3(1) by auto
  then have "card (set (od_keys nodes) - set (i # seen)) < card (set (od_keys nodes) - set seen)"
    by (intro psubset_card_mono) auto
  then show ?case by simp
qed auto

definition reachable :: "graph \<Rightarrow> py_exn + string list" where
  "reachable g = reach_loop (g_nodes g) [] [g_start_id g]"


section \<open>The default graph\<close>

definition starter_graph :: "string \<Rightarrow> string \<Rightarrow> string list \<Rightarrow> string list \<Rightarrow> pyval" where
  "starter_graph greeting system_prompt tools knowledge_base_ids =
     PDict
      [(''version'', PInt 1),
       (''nodes'', PList
         [PDict [(''id'', PStr ''global''), (''type'', PStr ''global''),
                 (''position'', PDict [(''x'', PInt 330), (''y'', PInt 0)]),
                 (''data'', PDict [(''name'', PStr ''always applies''),
                                   (''prompt'', PStr system_prompt)])],
          PDict [(''id'', PStr ''start''), (''type'', PStr ''start''),
                 (''position'', PDict [(''x'', PInt 0), (''y'', PInt 0)]),
                 (''data'', PDict
                   [(''name'', PStr ''greeting''),
                    (''prompt'', PStr ''Greet the caller and find out what they need.''),
                    (''greeting'', PStr greeting),
                    (''tools'', PList (map PStr tools)),
                    (''knowledge_base_ids'', PList (map PStr knowledge_base_ids))])],
          PDict [(''id'', PStr ''end''), (''type'', PStr ''end''),
                 (''position'', PDict [(''x'', PInt 0), (''y'', PInt 230)]),
                 (''data'', PDict
                   [(''name'', PStr ''goodbye''),
                    (''prompt'', PStr ''Confirm anything outstanding and close warmly.''),
                    (''disposition'', PStr ''completed'')])]]),
       (''edges'', PList
         [PDict [(''id'', PStr ''e-start-end''), (''source'', PStr ''start''),
                 (''target'', PStr ''end''),
                 (''data'', PDict
                   [(''label'', PStr ''conversation finished''),
                    (''condition'', PStr ''The caller has no further questions.'')])]])]"

section \<open>What a parsed graph promises\<close>

definition wf_nodes :: "graph \<Rightarrow> bool" where
  "wf_nodes g \<longleftrightarrow>
     od_ok (g_nodes g) \<and>
     list_all (\<lambda>(i, n). n_id n = i \<and> i \<noteq> [] \<and> n_type n \<in> set NODE_TYPES \<and> n_name n \<noteq> [])
       (g_nodes g) \<and>
     distinct (map (\<lambda>n. py_lower (n_name n)) (g_node_list g)) \<and>
     length (filter n_is_unwired (g_node_list g)) \<le> 1 \<and>
     list_ex (\<lambda>n. n_type n = ''end'') (g_node_list g)"

definition wf_start :: "graph \<Rightarrow> bool" where
  "wf_start g \<longleftrightarrow>
     (case od_get (g_nodes g) (g_start_id g) of
        Some s \<Rightarrow> filter (\<lambda>n. n_type n = ''start'') (g_node_list g) = [s]
      | None \<Rightarrow> False)"

definition wf_exits :: "graph \<Rightarrow> node \<Rightarrow> bool" where
  "wf_exits g n \<longleftrightarrow>
     list_all (\<lambda>e. e_source e = n_id n \<and> od_get (g_nodes g) (e_target e) \<noteq> None \<and>
       e_target e \<noteq> g_start_id g \<and>
       e_label e \<noteq> [] \<and> e_condition e \<noteq> [] \<and> tool_name e \<noteq> []) (n_out_edges n) \<and>
     distinct (map tool_name (n_out_edges n)) \<and>
     (n_is_terminal n \<or> n_is_unwired n \<longleftrightarrow> n_out_edges n = []) \<and>
     (n_type n = ''transfer'' \<longrightarrow>
        (case n_transfer_destination n of Some d \<Rightarrow> py_strip d \<noteq> [] | None \<Rightarrow> False))"

definition wf_graph :: "graph \<Rightarrow> bool" where
  "wf_graph g \<longleftrightarrow>
     wf_nodes g \<and> wf_start g \<and> list_all (wf_exits g) (g_node_list g) \<and>
     list_all (\<lambda>n. n_is_unwired n \<longrightarrow> incoming g (n_id n) = []) (g_node_list g)"

subsection \<open>The loops of the validation\<close>

definition nodes_ok :: "(string, node) odict \<Rightarrow> bool" where
  "nodes_ok nodes \<longleftrightarrow> od_ok nodes \<and>
     (\<forall>(i, n) \<in> set nodes. n_id n = i \<and> i \<noteq> [] \<and> n_type n \<in> set NODE_TYPES \<and> n_name n \<noteq> [])"

lemma nodes_ok_set:
  assumes "nodes_ok nodes" and "od_get nodes (n_id n) = None" and "n_id n \<noteq> []"
    and "n_type n \<in> set NODE_TYPES" and "n_name n \<noteq> []"
  shows "nodes_ok (od_set (n_id n) n nodes)"
  using assms unfolding nodes_ok_def
  by (auto simp: od_set_new od_get_None_iff)

lemma collect_nodes_errs: "collect_nodes raws errs nodes = Inr ([], nodes') \<Longrightarrow> errs = []"
  by (induction raws errs nodes rule: collect_nodes.induct) (auto split: sum.splits if_splits)

lemma collect_nodes_ok:
  assumes "collect_nodes raws errs nodes = Inr ([], nodes')" and "nodes_ok nodes"
  shows "nodes_ok nodes'"
  using assms
proof (induction raws errs nodes rule: collect_nodes.induct)
  case (2 raw raws errs nodes)
  obtain n where n: "node_from_raw raw = Inr n"
    using "2.prems"(1) by (auto split: sum.splits)
  have id: "n_id n \<noteq> []" and new: "od_get nodes (n_id n) = None"
    using "2.prems"(1) n by (auto split: if_splits dest: collect_nodes_errs)
  let ?add = "(if n_type n \<notin> set NODE_TYPES
        then [err ''node'' (Some (n_id n)) (Some ''type'') (UnknownType (n_type n))] else [])
      @ (if n_name n = [] then [err ''node'' (Some (n_id n)) (Some ''name'') NeedsName] else [])"
  have rec: "collect_nodes raws (errs @ ?add) (od_set (n_id n) n nodes) = Inr ([], nodes')"
    using "2.prems"(1) n id new by simp
  then have "?add = []" using collect_nodes_errs by blast
  then have ok: "n_type n \<in> set NODE_TYPES" "n_name n \<noteq> []" by (auto split: if_splits)
  have "nodes_ok (od_set (n_id n) n nodes)"
    using nodes_ok_set [OF "2.prems"(2) new id ok] .
  then show ?case using "2.IH"(3) [OF n id] new rec by simp
qed auto

lemma collect_edges_errs: "collect_edges nodes raws errs edges = ([], edges') \<Longrightarrow> errs = []"
  by (induction nodes raws errs edges rule: collect_edges.induct) (auto simp: Let_def split: if_splits)

definition edge_ok :: "(string, node) odict \<Rightarrow> edge \<Rightarrow> bool" where
  "edge_ok nodes e \<longleftrightarrow>
     od_get nodes (e_source e) \<noteq> None \<and> od_get nodes (e_target e) \<noteq> None \<and> edge_errors e = []"

lemma collect_edges_ok:
  assumes "collect_edges nodes raws errs edges = ([], edges')" and "\<forall>e \<in> set edges. edge_ok nodes e"
  shows "\<forall>e \<in> set edges'. edge_ok nodes e"
  using assms
proof (induction nodes raws errs edges rule: collect_edges.induct)
  case (2 nodes raw raws errs edges)
  let ?e = "edge_from_raw raw"
  have src: "od_get nodes (e_source ?e) \<noteq> None" and tgt: "od_get nodes (e_target ?e) \<noteq> None"
    using "2.prems"(1) by (auto simp: Let_def split: if_splits dest: collect_edges_errs)
  then have rec: "collect_edges nodes raws (errs @ edge_errors ?e) (edges @ [?e]) = ([], edges')"
    using "2.prems"(1) by (simp add: Let_def del: not_None_eq)
  then have "edge_errors ?e = []" using collect_edges_errs by blast
  then have "\<forall>e \<in> set (edges @ [?e]). edge_ok nodes e"
    using "2.prems"(2) src tgt by (simp add: edge_ok_def)
  then show ?case using "2.IH"(3) [OF refl src tgt rec] by blast
qed auto

lemma name_errors_distinct:
  "name_errors ns seen = [] \<Longrightarrow>
     distinct (map (\<lambda>n. py_lower (n_name n)) ns) \<and> (\<forall>n \<in> set ns. py_lower (n_name n) \<notin> set seen)"
proof (induction ns seen rule: name_errors.induct)
  case (2 n ns seen)
  then show ?case by (auto split: if_splits)
qed simp

lemma clash_errors_distinct:
  assumes "clash_errors es seen = []" and "\<forall>e \<in> set es. tool_name e \<noteq> []"
  shows "distinct (map tool_name es) \<and> (\<forall>e \<in> set es. od_get seen (tool_name e) = None)"
  using assms
proof (induction es seen rule: clash_errors.induct)
  case (2 e es seen)
  then have "od_get seen (tool_name e) = None" by (auto split: option.splits)
  moreover have "distinct (map tool_name es) \<and>
      (\<forall>x \<in> set es. od_get (od_set (tool_name e) e seen) (tool_name x) = None)"
    using 2 by auto
  ultimately show ?case by (auto split: if_splits)
qed simp

lemma edge_errors_empty:
  "edge_errors e = [] \<Longrightarrow> e_label e \<noteq> [] \<and> e_condition e \<noteq> [] \<and> tool_name e \<noteq> []"
  by (auto simp: edge_errors_def split: if_splits)

text \<open>Everything a successful validation has established about its local variables.\<close>

lemma validate_success:
  assumes "validate_and_build raw0 = Inr ([], Some g)"
  obtains nodes edges s where
    "nodes_ok nodes" "name_errors (map snd nodes) [] = []" "count_errors (map snd nodes) = []"
    "\<forall>e \<in> set edges. edge_ok nodes e"
    "\<forall>n \<in> set (map snd nodes). wiring_errors edges n = []"
    "filter (\<lambda>n. n_type n = ''start'') (map snd nodes) = [s]"
    "g = \<lparr>g_nodes = attach_edges edges nodes, g_start_id = n_id s\<rparr>"
proof -
  obtain raw raw_nodes raw_edges nodes where
    c: "collect_nodes raw_nodes [] [] = Inr ([], nodes)"
    and body: "(let ns = map snd nodes;
                    errs2 = name_errors ns [] @ count_errors ns;
                    (errs3, edges) = collect_edges nodes raw_edges errs2 [];
                    errs4 = errs3 @ concat (map (wiring_errors edges) ns)
                in if errs4 \<noteq> [] then Inr (errs4, None)
                   else (case filter (\<lambda>n. n_type n = ''start'') ns of
                           s # _ \<Rightarrow> Inr ([], Some \<lparr>g_nodes = attach_edges edges nodes,
                                                  g_start_id = n_id s\<rparr>)
                         | [] \<Rightarrow> (Inl KeyError :: py_exn + (wf_error list \<times> graph option)))) = Inr ([], Some g)"
    using assms unfolding validate_and_build_def
    by (auto split: pyval.splits sum.splits prod.splits if_splits)
  obtain errs3 edges where e: "collect_edges nodes raw_edges
      (name_errors (map snd nodes) [] @ count_errors (map snd nodes)) [] = (errs3, edges)"
    by fastforce
  have e3: "errs3 = []" and w: "concat (map (wiring_errors edges) (map snd nodes)) = []"
    and st: "(case filter (\<lambda>n. n_type n = ''start'') (map snd nodes) of
               s # _ \<Rightarrow> Inr ([], Some \<lparr>g_nodes = attach_edges edges nodes, g_start_id = n_id s\<rparr>)
             | [] \<Rightarrow> (Inl KeyError :: py_exn + (wf_error list \<times> graph option))) = Inr ([], Some g)"
    using body e by (auto simp: Let_def split: if_splits)
  have ce: "name_errors (map snd nodes) [] @ count_errors (map snd nodes) = []"
    and ed: "\<forall>x \<in> set edges. edge_ok nodes x"
    using collect_edges_errs [OF e [unfolded e3]] collect_edges_ok [OF e [unfolded e3]] by simp_all
  have "length (filter (\<lambda>n. n_type n = ''start'') (map snd nodes)) = 1"
    using ce by (auto simp: count_errors_def Let_def split: if_splits)
  then obtain s where s: "filter (\<lambda>n. n_type n = ''start'') (map snd nodes) = [s]"
    using length_one_conv by blast
  have "nodes_ok nodes" using collect_nodes_ok [OF c] by (simp add: nodes_ok_def)
  moreover have "g = \<lparr>g_nodes = attach_edges edges nodes, g_start_id = n_id s\<rparr>"
    using st s by simp
  ultimately show thesis using that ce ed w s by simp
qed


lemma od_get_attach:
  "od_get (attach_edges edges nodes) i =
     map_option (\<lambda>n. n\<lparr>n_out_edges := out_edges_of edges (n_id n)\<rparr>) (od_get nodes i)"
  unfolding attach_edges_def od_get_def by (induction nodes) auto

lemma keys_attach [simp]: "map fst (attach_edges edges nodes) = map fst nodes"
  by (simp add: attach_edges_def comp_def case_prod_beta)

lemma node_list_attach:
  "map snd (attach_edges edges nodes) =
     map (\<lambda>n. n\<lparr>n_out_edges := out_edges_of edges (n_id n)\<rparr>) (map snd nodes)"
  by (simp add: attach_edges_def comp_def case_prod_beta)

text \<open>The edges of the attached graph are the validated edges.\<close>

lemma attached_edges:
  assumes "nodes_ok nodes" and "\<forall>e \<in> set edges. edge_ok nodes e"
  shows "set (concat (map n_out_edges (map snd (attach_edges edges nodes)))) = set edges"
proof -
  have "\<exists>n \<in> set (map snd nodes). n_id n = e_source e" if "e \<in> set edges" for e
  proof -
    obtain n where "od_get nodes (e_source e) = Some n"
      using assms(2) \<open>e \<in> set edges\<close> by (auto simp: edge_ok_def)
    then have "(e_source e, n) \<in> set nodes" by (rule od_get_SomeD)
    moreover from this have "n_id n = e_source e" using assms(1) unfolding nodes_ok_def by blast
    ultimately show ?thesis by (metis image_eqI list.set_map snd_conv)
  qed
  then have "set edges \<subseteq> (\<Union>n \<in> set (map snd nodes). set (out_edges_of edges (n_id n)))"
    by (fastforce simp: out_edges_of_def)
  moreover have "(\<Union>n \<in> set (map snd nodes). set (out_edges_of edges (n_id n))) \<subseteq> set edges"
    by (auto simp: out_edges_of_def)
  moreover have "set (concat (map n_out_edges (map snd (attach_edges edges nodes)))) =
      (\<Union>n \<in> set (map snd nodes). set (out_edges_of edges (n_id n)))"
    unfolding node_list_attach by (simp add: comp_def)
  ultimately show ?thesis by blast
qed

lemma filter_attached:
  "filter (\<lambda>n. n_type n = t) (map (\<lambda>n. n\<lparr>n_out_edges := f n\<rparr>) ns) =
     map (\<lambda>n. n\<lparr>n_out_edges := f n\<rparr>) (filter (\<lambda>n. n_type n = t) ns)"
  by (induction ns) auto

lemma wf_nodes_attach:
  assumes "nodes_ok nodes" and "name_errors (map snd nodes) [] = []"
    and "count_errors (map snd nodes) = []"
  shows "wf_nodes \<lparr>g_nodes = attach_edges edges nodes, g_start_id = i\<rparr>"
proof -
  let ?f = "\<lambda>n. n\<lparr>n_out_edges := out_edges_of edges (n_id n)\<rparr>"
  let ?g = "\<lparr>g_nodes = attach_edges edges nodes, g_start_id = i\<rparr>"
  have l: "g_node_list ?g = map ?f (map snd nodes)"
    by (simp add: g_node_list_def node_list_attach)
  have u: "n_is_unwired (?f n) = n_is_unwired n" for n by (simp add: n_is_unwired_def)
  have "distinct (map (\<lambda>n. py_lower (n_name n)) (g_node_list ?g))"
    using name_errors_distinct [OF assms(2)] unfolding l by (simp add: comp_def)
  moreover have "length (filter n_is_unwired (g_node_list ?g)) \<le> 1"
    using assms(3) unfolding l filter_map comp_def u
    by (auto simp: count_errors_def Let_def filter_map comp_def split: if_splits)
  moreover have "list_ex (\<lambda>n. n_type n = ''end'') (g_node_list ?g)"
    using assms(3) unfolding l
    by (auto simp: count_errors_def Let_def list_ex_iff split: if_splits)
  moreover have "list_all (\<lambda>(j, n). n_id n = j \<and> j \<noteq> [] \<and> n_type n \<in> set NODE_TYPES \<and> n_name n \<noteq> [])
      (g_nodes ?g)"
    using assms(1) by (auto simp: nodes_ok_def attach_edges_def list_all_iff)
  ultimately show ?thesis
    using assms(1) by (simp add: wf_nodes_def nodes_ok_def)
qed

lemma wf_start_attach:
  assumes "nodes_ok nodes" and "filter (\<lambda>n. n_type n = ''start'') (map snd nodes) = [s]"
  shows "wf_start \<lparr>g_nodes = attach_edges edges nodes, g_start_id = n_id s\<rparr>"
proof -
  have "s \<in> set (filter (\<lambda>n. n_type n = ''start'') (map snd nodes))" using assms(2) by simp
  then have "s \<in> set (map snd nodes)" by simp
  then obtain i where i: "(i, s) \<in> set nodes" by auto
  then have "i = n_id s" using assms(1) by (auto simp: nodes_ok_def)
  then have "od_get nodes (n_id s) = Some s"
    using i assms(1) by (auto simp: nodes_ok_def intro: od_get_in_set)
  moreover have "filter (\<lambda>n. n_type n = ''start'')
      (map (\<lambda>n. n\<lparr>n_out_edges := out_edges_of edges (n_id n)\<rparr>) (map snd nodes)) =
      [s\<lparr>n_out_edges := out_edges_of edges (n_id s)\<rparr>]"
    unfolding filter_attached assms(2) by simp
  ultimately show ?thesis
    by (simp add: wf_start_def od_get_attach g_node_list_def node_list_attach)
qed

lemma in_count_zero: "in_count_of edges i = 0 \<longleftrightarrow> (\<forall>e \<in> set edges. e_target e \<noteq> i)"
  by (auto simp: in_count_of_def filter_empty_conv)

lemma wiring_errors_exits:
  assumes w: "wiring_errors edges n = []" and ed: "\<forall>e \<in> set edges. edge_ok nodes e"
    and start: "\<forall>e \<in> set edges. e_target e \<noteq> st"
  shows "wf_exits \<lparr>g_nodes = attach_edges edges nodes, g_start_id = st\<rparr>
           (n\<lparr>n_out_edges := out_edges_of edges (n_id n)\<rparr>)"
proof -
  let ?out = "out_edges_of edges (n_id n)"
  have sub: "set ?out \<subseteq> set edges" by (auto simp: out_edges_of_def)
  have e: "\<forall>e \<in> set ?out. e_source e = n_id n \<and> od_get nodes (e_target e) \<noteq> None \<and>
      e_target e \<noteq> st \<and> e_label e \<noteq> [] \<and> e_condition e \<noteq> [] \<and> tool_name e \<noteq> []"
    using sub ed start edge_errors_empty by (fastforce simp: edge_ok_def out_edges_of_def)
  have d: "distinct (map tool_name ?out)"
  proof (cases "n_is_unwired n")
    case True
    then have "?out = []" using w by (simp add: wiring_errors_def split: if_splits)
    then show ?thesis by simp
  next
    case False
    then have "clash_errors ?out [] = []" using w by (simp add: wiring_errors_def)
    then show ?thesis using clash_errors_distinct e by blast
  qed
  have "n_is_terminal n \<or> n_is_unwired n \<longleftrightarrow> ?out = []"
    using w by (auto simp: wiring_errors_def split: if_splits)
  moreover have "n_type n = ''transfer'' \<longrightarrow>
      (case n_transfer_destination n of Some d \<Rightarrow> py_strip d \<noteq> [] | None \<Rightarrow> False)"
    using w
    by (auto simp: wiring_errors_def n_is_unwired_def UNWIRED_NODE_TYPES_def py_strip_def
        py_lstrip_def py_rstrip_def split: if_splits option.splits)
  ultimately show ?thesis
    using e d by (auto simp: wf_exits_def list_all_iff od_get_attach n_is_terminal_def n_is_unwired_def)
qed

section \<open>Properties of parsing\<close>

lemma parse_graph_wf:
  assumes "parse_graph raw = Inr g"
  shows "wf_graph g"
proof -
  have "validate_and_build raw = Inr ([], Some g)"
    using assms by (auto simp: parse_graph_def split: sum.splits prod.splits if_splits option.splits)
  then obtain nodes edges s where v:
    "nodes_ok nodes" "name_errors (map snd nodes) [] = []" "count_errors (map snd nodes) = []"
    "\<forall>e \<in> set edges. edge_ok nodes e" "\<forall>n \<in> set (map snd nodes). wiring_errors edges n = []"
    "filter (\<lambda>n. n_type n = ''start'') (map snd nodes) = [s]"
    "g = \<lparr>g_nodes = attach_edges edges nodes, g_start_id = n_id s\<rparr>"
    by (rule validate_success)
  have "s \<in> set (filter (\<lambda>n. n_type n = ''start'') (map snd nodes))" using v(6) by simp
  then have s: "s \<in> set (map snd nodes)" "n_type s = ''start''" by auto
  then have "\<not> in_count_of edges (n_id s) > 0"
    using v(5) by (auto simp: wiring_errors_def n_is_unwired_def UNWIRED_NODE_TYPES_def split: if_splits)
  then have start: "\<forall>e \<in> set edges. e_target e \<noteq> n_id s" by (simp add: in_count_zero)
  have exits: "list_all (wf_exits g) (g_node_list g)"
    using wiring_errors_exits [OF _ v(4) start] v(5)
    unfolding v(7) g_node_list_def by (simp add: node_list_attach list_all_iff)
  have "incoming g (n_id n) = []" if n: "n \<in> set (g_node_list g)" "n_is_unwired n" for n
  proof -
    obtain m where m: "m \<in> set (map snd nodes)" "n = m\<lparr>n_out_edges := out_edges_of edges (n_id m)\<rparr>"
      using n(1) unfolding v(7) g_node_list_def by (auto simp: node_list_attach)
    have "n_is_unwired m" using n(2) m(2) by (simp add: n_is_unwired_def)
    then have "in_count_of edges (n_id m) = 0"
      using v(5) m(1) by (auto simp: wiring_errors_def split: if_splits)
    then have "\<forall>e \<in> set edges. e_target e \<noteq> n_id n" using m(2) by (simp add: in_count_zero)
    then show ?thesis
      using attached_edges [OF v(1,4)] unfolding v(7) incoming_def g_node_list_def
      by (simp add: filter_empty_conv)
  qed
  then show ?thesis
    using exits wf_nodes_attach [OF v(1-3)] wf_start_attach [OF v(1,6)]
    unfolding wf_graph_def v(7) by (simp add: list_all_iff)
qed

text \<open>
  C24. A graph that \<open>parse_graph\<close> returns is well formed: step ids are unique and agree with their
  keys, names are unique up to case, there is exactly one start and it is the entry, at least one
  step ends the call, at most one always-on step exists and nothing is wired to it, every
  connection leaves its own step, leads to an existing step other than the start, and has a label, a
  condition and a tool name that no other exit of the step shares, terminal steps have no exit,
  every other step has one, and every transfer step has a destination.
\<close>

theorem parse_graph_well_formed:
  assumes "parse_graph raw = Inr g"
  shows "wf_graph g"
  using assms by (rule parse_graph_wf)

text \<open>Equations that evaluate the parser on a document with known keys.\<close>

lemmas parse_eval =
  parse_graph_def validate_and_build_def starter_graph_def py_get_Cons py_or_def node_from_raw_def
  data_object_def delayed_start_ms_def edge_from_raw_def optional_str_def count_errors_def
  wiring_errors_def edge_errors_def err_def NODE_TYPES_def n_is_unwired_def n_is_terminal_def
  TERMINAL_NODE_TYPES_def UNWIRED_NODE_TYPES_def out_edges_of_def in_count_of_def attach_edges_def
  od_get_def py_lower_def py_lower_char_def py_strip_def py_lstrip_def py_rstrip_def py_space_def
  tool_name_def slug_char_def ascii_lower_def ascii_digit_def strip_underscores_def
  MAX_DELAYED_START_MS_def

lemma str_list_strings [simp]: "str_list (PList (map PStr xs)) = xs"
  by (induction xs) auto

lemma str_list_strings' [simp]: "map (py_str \<circ> PStr) xs = xs"
  by (induction xs) auto

lemma parse_graph_starter:
  "\<exists>g s. parse_graph (starter_graph greeting system_prompt tools kbs) = Inr g \<and>
     od_get (g_nodes g) (g_start_id g) = Some s \<and> n_greeting s = Some greeting \<and>
     n_tools s = tools \<and> n_knowledge_base_ids s = kbs \<and>
     global_prompt g = system_prompt \<and> is_single_stage g"
  by (simp add: parse_eval global_prompt_def is_single_stage_def g_node_list_def)

text \<open>
  The default graph always parses, whatever greeting, prompt, tools and knowledge bases it is
  built from, and carries them all: the greeting, the tools and the knowledge bases on its start
  step, the system prompt as the always-on instruction. So the fallback that the runner builds from
  it cannot fail.
\<close>

theorem starter_graph_parses:
  "\<exists>g s. parse_graph (starter_graph greeting system_prompt tools kbs) = Inr g \<and>
     od_get (g_nodes g) (g_start_id g) = Some s \<and> n_greeting s = Some greeting \<and>
     n_tools s = tools \<and> n_knowledge_base_ids s = kbs \<and>
     global_prompt g = system_prompt \<and> is_single_stage g"
  by (rule parse_graph_starter)

theorem parse_graph_well_formed_witness:
  "\<exists>g. parse_graph (starter_graph ''Hello'' ''Be kind.'' [''book''] []) = Inr g \<and> wf_graph g"
proof -
  obtain g where g: "parse_graph (starter_graph ''Hello'' ''Be kind.'' [''book''] []) = Inr g"
    using parse_graph_starter by blast
  then show ?thesis using parse_graph_well_formed [OF g] by blast
qed

text \<open>
  Whatever the editor sent as the start delay, a node that is built has a delay between 0 and
  2000 milliseconds; the one input that is not turned into a number in that range is an infinite
  float, for which the conversion raises \<^verbatim>\<open>OverflowError\<close>, an exception the code does not catch.
\<close>

theorem delayed_start_bounded:
  "(case delayed_start_ms raw of
      Inr ms \<Rightarrow> 0 \<le> ms \<and> ms \<le> MAX_DELAYED_START_MS
    | Inl e \<Rightarrow> e = OverflowError \<and> (\<exists>neg. raw = PInf neg))"
proof (cases "py_int (py_or raw (PInt 0))")
  case (Inr v)
  then show ?thesis by (simp add: delayed_start_ms_def MAX_DELAYED_START_MS_def)
next
  case (Inl e)
  then consider "e = TypeError" | "e = ValueError" | neg where "raw = PInf neg" "e = OverflowError"
    by (cases raw) (auto simp: py_or_def split: if_splits option.splits)
  then show ?thesis
    by cases (use Inl in \<open>auto simp: delayed_start_ms_def MAX_DELAYED_START_MS_def\<close>)
qed

section \<open>Reachability\<close>

definition succ :: "graph \<Rightarrow> string \<Rightarrow> string \<Rightarrow> bool" where
  "succ g i j \<longleftrightarrow>
     (\<exists>n e. od_get (g_nodes g) i = Some n \<and> e \<in> set (n_out_edges n) \<and> e_target e = j)"

text \<open>All edge targets are nodes.\<close>

definition targets_ok :: "(string, node) odict \<Rightarrow> bool" where
  "targets_ok nodes \<longleftrightarrow>
     (\<forall>i n. od_get nodes i = Some n \<longrightarrow> (\<forall>e \<in> set (n_out_edges n). od_get nodes (e_target e) \<noteq> None))"

lemma reach_loop_returns:
  assumes "targets_ok nodes" and "\<forall>i \<in> set stack. od_get nodes i \<noteq> None"
  shows "\<exists>r. reach_loop nodes seen stack = Inr r"
  using assms
proof (induction nodes seen stack rule: reach_loop.induct)
  case (2 nodes seen i stack)
  show ?case
  proof (cases "i \<in> set seen")
    case True
    then show ?thesis using 2 by simp
  next
    case False
    obtain n where n: "od_get nodes i = Some n" using "2.prems"(2) by auto
    have "\<forall>j \<in> set (rev (map e_target (n_out_edges n)) @ stack). od_get nodes j \<noteq> None"
      using "2.prems" n by (auto simp: targets_ok_def)
    then show ?thesis using "2.IH"(2) [OF False n "2.prems"(1)] False n by simp
  qed
qed simp

lemma reach_loop_covers:
  "reach_loop nodes seen stack = Inr r \<Longrightarrow> set seen \<union> set stack \<subseteq> set r"
  by (induction nodes seen stack rule: reach_loop.induct) (auto split: if_splits option.splits)

lemma reach_loop_distinct:
  "reach_loop nodes seen stack = Inr r \<Longrightarrow> distinct seen \<Longrightarrow> distinct r"
  by (induction nodes seen stack rule: reach_loop.induct) (auto split: if_splits option.splits)

lemma reach_loop_closed:
  assumes "reach_loop nodes seen stack = Inr r"
    and "\<forall>i n e. i \<in> set seen \<longrightarrow> od_get nodes i = Some n \<longrightarrow> e \<in> set (n_out_edges n) \<longrightarrow>
           e_target e \<in> set seen \<union> set stack"
  shows "\<forall>i n e. i \<in> set r \<longrightarrow> od_get nodes i = Some n \<longrightarrow> e \<in> set (n_out_edges n) \<longrightarrow>
           e_target e \<in> set r"
  using assms
proof (induction nodes seen stack rule: reach_loop.induct)
  case (2 nodes seen i stack)
  show ?case
  proof (cases "i \<in> set seen")
    case True
    then have r: "reach_loop nodes seen stack = Inr r" using "2.prems"(1) by simp
    show ?thesis by (rule "2.IH"(1) [OF True r]) (use "2.prems"(2) True in fastforce)
  next
    case False
    obtain n where n: "od_get nodes i = Some n"
      using "2.prems"(1) False by (auto split: option.splits)
    then have r: "reach_loop nodes (i # seen) (rev (map e_target (n_out_edges n)) @ stack) = Inr r"
      using "2.prems"(1) False by simp
    show ?thesis by (rule "2.IH"(2) [OF False n r]) (use "2.prems"(2) n in fastforce)
  qed
qed auto

lemma reach_loop_sound:
  assumes "reach_loop (g_nodes g) seen stack = Inr r"
    and "\<forall>i \<in> set seen \<union> set stack. (succ g)\<^sup>*\<^sup>* st i"
  shows "\<forall>i \<in> set r. (succ g)\<^sup>*\<^sup>* st i"
  using assms
proof (induction "g_nodes g" seen stack rule: reach_loop.induct)
  case (2 seen i stack)
  show ?case
  proof (cases "i \<in> set seen")
    case True
    then show ?thesis using 2 by simp
  next
    case False
    obtain n where n: "od_get (g_nodes g) i = Some n"
      using "2.prems"(1) False by (auto split: option.splits)
    have r: "reach_loop (g_nodes g) (i # seen) (rev (map e_target (n_out_edges n)) @ stack) = Inr r"
      using "2.prems"(1) False n by simp
    have "(succ g)\<^sup>*\<^sup>* st (e_target e)" if "e \<in> set (n_out_edges n)" for e
    proof (rule rtranclp.rtrancl_into_rtrancl)
      show "(succ g)\<^sup>*\<^sup>* st i" using "2.prems"(2) by simp
      show "succ g i (e_target e)" using that n by (auto simp: succ_def)
    qed
    then have "\<forall>j \<in> set (i # seen) \<union> set (rev (map e_target (n_out_edges n)) @ stack).
        (succ g)\<^sup>*\<^sup>* st j"
      using "2.prems"(2) by auto
    then show ?thesis by (rule "2.hyps"(2) [OF False n r])
  qed
qed simp

lemma wf_targets: "wf_graph g \<Longrightarrow> targets_ok (g_nodes g)"
  unfolding targets_ok_def
proof (intro allI impI ballI)
  fix i n e
  assume wf: "wf_graph g" and n: "od_get (g_nodes g) i = Some n" and e: "e \<in> set (n_out_edges n)"
  have "n \<in> set (g_node_list g)" using od_get_SomeD [OF n] by (force simp: g_node_list_def)
  then have "wf_exits g n" using wf by (simp add: wf_graph_def list_all_iff)
  then show "od_get (g_nodes g) (e_target e) \<noteq> None" using e by (simp add: wf_exits_def list_all_iff)
qed

lemma wf_start_node: "wf_graph g \<Longrightarrow> od_get (g_nodes g) (g_start_id g) \<noteq> None"
  by (auto simp: wf_graph_def wf_start_def split: option.splits)

lemma reachable_spec:
  assumes "wf_graph g"
  shows "\<exists>r. reachable g = Inr r \<and> distinct r \<and>
           (\<forall>i. i \<in> set r \<longleftrightarrow> (succ g)\<^sup>*\<^sup>* (g_start_id g) i)"
proof -
  obtain r where r: "reach_loop (g_nodes g) [] [g_start_id g] = Inr r"
    using reach_loop_returns [OF wf_targets [OF assms], of "[g_start_id g]" "[]"]
      wf_start_node [OF assms] by (auto simp del: reach_loop.simps)
  have d: "distinct r" using reach_loop_distinct [OF r] by simp
  have st: "g_start_id g \<in> set r" using reach_loop_covers [OF r] by simp
  have cl: "j \<in> set r" if "i \<in> set r" "succ g i j" for i j
    using reach_loop_closed [OF r] that by (auto simp: succ_def)
  have "i \<in> set r" if "(succ g)\<^sup>*\<^sup>* (g_start_id g) i" for i
    using that by (induction rule: rtranclp_induct) (auto intro: st cl)
  moreover have "\<forall>i \<in> set r. (succ g)\<^sup>*\<^sup>* (g_start_id g) i"
    using reach_loop_sound [OF r] by simp
  ultimately show ?thesis using r d by (auto simp: reachable_def)
qed

text \<open>
  On a well-formed graph the depth-first search returns (it never raises \<^verbatim>\<open>KeyError\<close>), lists no
  step twice, and lists exactly the steps that some path of connections leads to from the start.
\<close>

theorem reachable_correct:
  assumes "wf_graph g"
  shows "\<exists>r. reachable g = Inr r \<and> distinct r \<and>
           (\<forall>i. i \<in> set r \<longleftrightarrow> (succ g)\<^sup>*\<^sup>* (g_start_id g) i)"
  using assms by (rule reachable_spec)

text \<open>A small well-formed graph for the concrete examples: start, a transfer step, an end.\<close>

definition sample_edge :: "string \<Rightarrow> string \<Rightarrow> string \<Rightarrow> string \<Rightarrow> edge" where
  "sample_edge i a b l =
     \<lparr>e_id = i, e_source = a, e_target = b, e_label = l, e_condition = ''when asked'', e_speech = None\<rparr>"

definition sample_node :: "string \<Rightarrow> string \<Rightarrow> string \<Rightarrow> edge list \<Rightarrow> node" where
  "sample_node i t nm es =
     \<lparr>n_id = i, n_type = t, n_name = nm, n_prompt = [], n_greeting = None, n_delayed_start_ms = 0,
      n_tools = [], n_knowledge_base_ids = [], n_extraction = None,
      n_transfer_destination = (if t = ''transfer'' then Some ''+100'' else None),
      n_disposition = None, n_out_edges = es\<rparr>"

definition sample_graph :: graph where
  "sample_graph =
     \<lparr>g_nodes = [(''s'', sample_node ''s'' ''start'' ''hello''
                    [sample_edge ''e1'' ''s'' ''t'' ''human'', sample_edge ''e2'' ''s'' ''x'' ''bye'']),
                 (''t'', sample_node ''t'' ''transfer'' ''hand over'' []),
                 (''x'', sample_node ''x'' ''end'' ''goodbye'' [])],
      g_start_id = ''s''\<rparr>"

lemma sample_graph_wf: "wf_graph sample_graph"
  by (simp add: wf_graph_def wf_nodes_def wf_start_def wf_exits_def sample_graph_def sample_node_def
      sample_edge_def g_node_list_def incoming_def NODE_TYPES_def n_is_unwired_def n_is_terminal_def
      TERMINAL_NODE_TYPES_def UNWIRED_NODE_TYPES_def od_get_def py_lower_def py_lower_char_def
      tool_name_def slug_char_def ascii_lower_def ascii_digit_def strip_underscores_def
      py_strip_def py_lstrip_def py_rstrip_def py_space_def)

theorem reachable_correct_witness:
  "\<exists>r. reachable sample_graph = Inr r \<and> distinct r \<and>
     (\<forall>i. i \<in> set r \<longleftrightarrow> (succ sample_graph)\<^sup>*\<^sup>* (g_start_id sample_graph) i)"
  by (rule reachable_correct) (rule sample_graph_wf)

end
