(* ===== verification/Runtime_Config.thy ===== *)
theory Runtime_Config
  imports Provider_Cache Service_Client Workflow_Graph
begin

text \<open>
  The configuration of a call: reading the rows through Redis and the configuration service
  (\<^verbatim>\<open>libs/config_sdk/providers/cache_aside.py\<close>, \<^verbatim>\<open>repositories/redis_repository.py\<close>, and \<^verbatim>\<open>http_repository.py\<close>
  over \<open>Service_Client\<close>), turning them into the objects of \<open>Config_Models\<close>, obtaining the clients
  (\<^verbatim>\<open>provider_bundle.py\<close>, \<^verbatim>\<open>agent_resolver.py\<close>, \<^verbatim>\<open>providers/llm/retry.py\<close>), and the fallback to a file
  (\<^verbatim>\<open>agent_config.py\<close>). What Redis and the service answer, \<^verbatim>\<open>json.loads\<close>, \<^verbatim>\<open>datetime.fromisoformat\<close> and the
  parser of YAML are arguments. A column has the type of the schema: where it is a text, any other
  value counts as missing.
\<close>

section \<open>Fetching a row\<close>

type_synonym dict_row = "(string \<times> pyval) list"

datatype config_key = TenantRow string | AgentRow string string | ProviderRow string

definition redis_key_of :: "config_key \<Rightarrow> string" where
  "redis_key_of k =
     (case k of
        TenantRow t \<Rightarrow> ''tenant:'' @ t
      | AgentRow t a \<Rightarrow> ''agent:'' @ t @ '':'' @ a
      | ProviderRow p \<Rightarrow> ''provider:'' @ p)"

definition http_path_of :: "config_key \<Rightarrow> string" where
  "http_path_of k =
     (case k of
        TenantRow t \<Rightarrow> ''/tenants/'' @ t
      | AgentRow t a \<Rightarrow> ''/tenants/'' @ t @ ''/agents/'' @ a
      | ProviderRow p \<Rightarrow> ''/providers/'' @ p)"

text \<open>\<open>be_http\<close> is the result of \<open>client_request\<close> for a path.\<close>

record backend =
  be_redis :: "string \<Rightarrow> string option reply"
  be_http :: "string \<Rightarrow> client_error + pyval option"
  be_loads :: "string \<Rightarrow> pyval option"
  be_instant :: "string \<Rightarrow> instant option"

datatype config_error = Escaped client_error | RowError py_exn

definition and_then :: "'e + 'a \<Rightarrow> ('a \<Rightarrow> 'e + 'b) \<Rightarrow> 'e + 'b" where
  "and_then r f = (case r of Inl e \<Rightarrow> Inl e | Inr x \<Rightarrow> f x)"

lemma and_then_simps [simp]: "and_then (Inl e) f = Inl e" "and_then (Inr x) f = f x"
  by (simp_all add: and_then_def)

lemma and_then_Inr: "and_then r f = Inr y \<longleftrightarrow> (\<exists>x. r = Inr x \<and> f x = Inr y)"
  by (cases r) simp_all

text \<open>\<^verbatim>\<open>_get_json\<close>: an outage is a miss, a text that is no JSON raises.\<close>

definition redis_json :: "backend \<Rightarrow> string \<Rightarrow> config_error + pyval" where
  "redis_json be key =
     (case be_redis be key of
        Answer status (Some text) \<Rightarrow>
          (case be_loads be text of None \<Rightarrow> Inl (RowError ValueError) | Some v \<Rightarrow> Inr v)
      | _ \<Rightarrow> Inr PNone)"

text \<open>\<^verbatim>\<open>_fetch\<close>: only the library's own error is caught.\<close>

definition fetch :: "backend \<Rightarrow> config_key \<Rightarrow> config_error + pyval" where
  "fetch be k =
     and_then (redis_json be (redis_key_of k)) (\<lambda>raw.
       if raw \<noteq> PNone then Inr raw
       else case be_http be (http_path_of k) of
         Inl RepositoryUnavailable \<Rightarrow> Inr PNone
       | Inl TransportFailure \<Rightarrow> Inl (Escaped TransportFailure)
       | Inr None \<Rightarrow> Inr PNone
       | Inr (Some v) \<Rightarrow> Inr v)"

section \<open>From rows to objects\<close>

definition column :: "dict_row \<Rightarrow> string \<Rightarrow> config_error + pyval" where
  "column d k = (case od_get d k of None \<Rightarrow> Inl (RowError KeyError) | Some v \<Rightarrow> Inr v)"

definition column_or :: "dict_row \<Rightarrow> string \<Rightarrow> pyval \<Rightarrow> pyval" where
  "column_or d k v = (case od_get d k of None \<Rightarrow> v | Some x \<Rightarrow> x)"

definition as_text :: "pyval \<Rightarrow> string option" where
  "as_text v = (case v of PStr s \<Rightarrow> Some s | _ \<Rightarrow> None)"

definition as_int :: "pyval \<Rightarrow> int option" where
  "as_int v = (case v of PInt n \<Rightarrow> Some n | _ \<Rightarrow> None)"

definition as_number :: "pyval \<Rightarrow> rat option" where
  "as_number v = (case v of PFloat q _ \<Rightarrow> Some q | PInt n \<Rightarrow> Some (of_int n) | _ \<Rightarrow> None)"

definition text_or_empty :: "pyval \<Rightarrow> string" where
  "text_or_empty v = (case as_text v of Some s \<Rightarrow> s | None \<Rightarrow> [])"

definition int_or_zero :: "pyval \<Rightarrow> int" where
  "int_or_zero v = (case as_int v of Some n \<Rightarrow> n | None \<Rightarrow> 0)"

definition parse_dt :: "backend \<Rightarrow> pyval \<Rightarrow> config_error + instant option" where
  "parse_dt be v =
     (case as_text v of
        None \<Rightarrow> Inr None
      | Some s \<Rightarrow> (case be_instant be s of None \<Rightarrow> Inl (RowError ValueError) | Some i \<Rightarrow> Inr (Some i)))"

definition parse_json :: "backend \<Rightarrow> pyval \<Rightarrow> config_error + pyval" where
  "parse_json be v =
     (case v of
        PStr s \<Rightarrow> (case be_loads be s of None \<Rightarrow> Inl (RowError ValueError) | Some x \<Rightarrow> Inr x)
      | _ \<Rightarrow> Inr v)"

definition parse_extra :: "backend \<Rightarrow> pyval \<Rightarrow> config_error + dict_row" where
  "parse_extra be v = and_then (parse_json be v) (\<lambda>x. Inr (case x of PDict d \<Rightarrow> d | _ \<Rightarrow> []))"

definition not_none :: "pyval \<Rightarrow> pyval option" where
  "not_none v = (if v = PNone then None else Some v)"

definition tenant_from_dict :: "backend \<Rightarrow> dict_row \<Rightarrow> config_error + tenant" where
  "tenant_from_dict be d =
     and_then (column d ''id'') (\<lambda>i. and_then (column d ''slug'') (\<lambda>slug. and_then (column d ''name'') (\<lambda>name.
     and_then (parse_dt be (py_get d ''updated_at'')) (\<lambda>dt.
       Inr \<lparr>tn_id = py_str i, tn_slug = text_or_empty slug, tn_name = text_or_empty name,
         tn_region = text_or_empty (column_or d ''region'' (PStr ''us'')),
         tn_vad_engine = as_text (py_get d ''vad_engine''), tn_vad_onset_ms = as_int (py_get d ''vad_onset_ms''),
         tn_vad_hold_ms = as_int (py_get d ''vad_hold_ms''),
         tn_vad_speech_threshold = as_number (py_get d ''vad_speech_threshold''),
         tn_no_speech_timeout_ms = as_int (py_get d ''no_speech_timeout_ms''),
         tn_stt_timeout_ms = as_int (py_get d ''stt_timeout_ms''), tn_llm_timeout_ms = as_int (py_get d ''llm_timeout_ms''),
         tn_transfer_timeout_ms = as_int (py_get d ''transfer_timeout_ms''),
         tn_default_stt_config_id = as_text (py_get d ''default_stt_config_id''),
         tn_default_llm_config_id = as_text (py_get d ''default_llm_config_id''),
         tn_default_tts_config_id = as_text (py_get d ''default_tts_config_id''),
         tn_config_version = int_or_zero (column_or d ''config_version'' (PInt 0)), tn_updated_at = dt\<rparr>))))"

definition agent_from_dict :: "backend \<Rightarrow> dict_row \<Rightarrow> config_error + agent" where
  "agent_from_dict be d =
     and_then (column d ''id'') (\<lambda>i. and_then (column d ''slug'') (\<lambda>slug. and_then (column d ''tenant_id'') (\<lambda>tid.
     and_then (column d ''name'') (\<lambda>name. and_then (parse_dt be (py_get d ''updated_at'')) (\<lambda>dt.
     and_then (parse_json be (py_get d ''workflow'')) (\<lambda>wf. and_then (parse_json be (py_get d ''workflow_draft'')) (\<lambda>draft.
       Inr \<lparr>ag_id = py_str i, ag_slug = text_or_empty slug, ag_tenant_id = py_str tid, ag_name = text_or_empty name,
         ag_greeting = text_or_empty (column_or d ''greeting'' (PStr [])),
         ag_system_prompt = text_or_empty (column_or d ''system_prompt'' (PStr [])),
         ag_goodbye_grace_ms = int_or_zero (column_or d ''goodbye_grace_ms'' (PInt 3000)),
         ag_stt_config_id = as_text (py_get d ''stt_config_id''), ag_llm_config_id = as_text (py_get d ''llm_config_id''),
         ag_tts_config_id = as_text (py_get d ''tts_config_id''),
         ag_status = text_or_empty (column_or d ''status'' (PStr ''active'')),
         ag_config_version = int_or_zero (column_or d ''config_version'' (PInt 0)), ag_updated_at = dt,
         ag_language = as_text (py_get d ''language''), ag_end_call_prompt = as_text (py_get d ''end_call_prompt''),
         ag_transfer_prompt = as_text (py_get d ''transfer_prompt''),
         ag_farewell_message = as_text (py_get d ''farewell_message''),
         ag_transfer_announcement = as_text (py_get d ''transfer_announcement''),
         ag_transfer_type = text_or_empty (column_or d ''transfer_type'' (PStr ''none'')),
         ag_transfer_destination = as_text (py_get d ''transfer_destination''), ag_queue_id = as_text (py_get d ''queue_id''),
         ag_escalation_threshold = as_int (py_get d ''escalation_threshold''),
         ag_caller_id_policy = text_or_empty (column_or d ''caller_id_policy'' (PStr ''original'')),
         ag_platform_did = as_text (py_get d ''platform_did''), ag_custom_caller_id = as_text (py_get d ''custom_caller_id''),
         ag_transfer_waiting_experience =
           text_or_empty (column_or d ''transfer_waiting_experience'' (PStr ''announcement_moh'')),
         ag_max_call_duration_s = as_int (py_get d ''max_call_duration_s''),
         ag_workflow = not_none wf, ag_workflow_draft = not_none draft\<rparr>)))))))"

definition provider_config_from_dict :: "backend \<Rightarrow> dict_row \<Rightarrow> config_error + provider_config" where
  "provider_config_from_dict be d =
     and_then (column d ''id'') (\<lambda>i. and_then (column d ''role'') (\<lambda>role. and_then (column d ''engine'') (\<lambda>engine.
     and_then (parse_extra be (py_get d ''extra'')) (\<lambda>extra. and_then (parse_dt be (py_get d ''updated_at'')) (\<lambda>dt.
       Inr \<lparr>pc_id = py_str i, pc_role = text_or_empty role, pc_engine = text_or_empty engine,
         pc_model = as_text (py_get d ''model''), pc_voice = as_text (py_get d ''voice''),
         pc_language = as_text (py_get d ''language''), pc_api_key_ref = as_text (py_get d ''api_key_ref''),
         pc_extra = extra, pc_updated_at = dt\<rparr>)))))"

text \<open>Indexing what is not a dictionary is a \<^verbatim>\<open>TypeError\<close>.\<close>

definition read_row :: "(dict_row \<Rightarrow> config_error + 'a) \<Rightarrow> config_error + pyval \<Rightarrow> config_error + 'a option" where
  "read_row f r =
     and_then r (\<lambda>raw. case raw of
        PNone \<Rightarrow> Inr None
      | PDict d \<Rightarrow> map_sum id Some (f d)
      | _ \<Rightarrow> Inl (RowError TypeError))"

definition get_tenant :: "backend \<Rightarrow> string \<Rightarrow> config_error + tenant option" where
  "get_tenant be t = read_row (tenant_from_dict be) (fetch be (TenantRow t))"

definition get_agent_config :: "backend \<Rightarrow> string \<Rightarrow> string \<Rightarrow> config_error + agent option" where
  "get_agent_config be t a = read_row (agent_from_dict be) (fetch be (AgentRow t a))"

definition get_provider_config :: "backend \<Rightarrow> string \<Rightarrow> config_error + provider_config option" where
  "get_provider_config be p = read_row (provider_config_from_dict be) (fetch be (ProviderRow p))"

section \<open>The configuration of a call\<close>

text \<open>\<^verbatim>\<open>x or y\<close> on texts that may be missing.\<close>

definition or_else :: "string option \<Rightarrow> string option \<Rightarrow> string option" where
  "or_else x y = (case x of Some t \<Rightarrow> if t = [] then y else x | None \<Rightarrow> y)"

text \<open>\<^verbatim>\<open>getattr(agent, f"{role}_config_id") or getattr(tenant, f"default_{role}_config_id")\<close>\<close>

definition stt_id :: "agent \<Rightarrow> tenant \<Rightarrow> string option" where
  "stt_id a t = or_else (ag_stt_config_id a) (tn_default_stt_config_id t)"

definition llm_id :: "agent \<Rightarrow> tenant \<Rightarrow> string option" where
  "llm_id a t = or_else (ag_llm_config_id a) (tn_default_llm_config_id t)"

definition tts_id :: "agent \<Rightarrow> tenant \<Rightarrow> string option" where
  "tts_id a t = or_else (ag_tts_config_id a) (tn_default_tts_config_id t)"

definition conversation_of :: "agent \<Rightarrow> conversation_info" where
  "conversation_of a =
     \<lparr>ci_greeting = ag_greeting a, ci_system_prompt = ag_system_prompt a, ci_goodbye_prompt = None, ci_fallback_prompt = None,
      ci_end_call_prompt = ag_end_call_prompt a, ci_transfer_prompt = ag_transfer_prompt a,
      ci_farewell_message = ag_farewell_message a, ci_transfer_announcement = ag_transfer_announcement a,
      ci_workflow = (case ag_workflow a of None \<Rightarrow> PNone | Some w \<Rightarrow> w),
      ci_workflow_draft = (case ag_workflow_draft a of None \<Rightarrow> PNone | Some w \<Rightarrow> w)\<rparr>"

definition media_of :: "agent \<Rightarrow> provider_configs \<Rightarrow> media_info" where
  "media_of a ps =
     \<lparr>mi_voice = pc_voice (pcs_tts ps),
      mi_language = or_else (ag_language a) (or_else (pc_language (pcs_stt ps)) (pc_language (pcs_tts ps))),
      mi_sample_rate = 16000\<rparr>"

definition policies_of :: "agent \<Rightarrow> tenant \<Rightarrow> int \<Rightarrow> policies" where
  "policies_of a t timeout =
     \<lparr>po_vad_engine = tn_vad_engine t, po_vad_onset_ms = tn_vad_onset_ms t, po_vad_hold_ms = tn_vad_hold_ms t,
      po_vad_speech_threshold = tn_vad_speech_threshold t, po_silence_timeout_ms = tn_no_speech_timeout_ms t,
      po_stt_timeout_ms = tn_stt_timeout_ms t, po_llm_timeout_ms = tn_llm_timeout_ms t,
      po_goodbye_grace_ms = ag_goodbye_grace_ms a, po_barge_in_enabled = None, po_max_call_duration_s = ag_max_call_duration_s a,
      po_transfer_type = ag_transfer_type a, po_transfer_destination = ag_transfer_destination a, po_queue_id = ag_queue_id a,
      po_escalation_threshold = ag_escalation_threshold a, po_caller_id_policy = ag_caller_id_policy a,
      po_platform_did = ag_platform_did a, po_custom_caller_id = ag_custom_caller_id a,
      po_transfer_waiting_experience = ag_transfer_waiting_experience a, po_transfer_timeout_ms = timeout\<rparr>"

definition timeout_of :: "tenant \<Rightarrow> config_error + int" where
  "timeout_of t =
     map_sum RowError id
       (validate_transfer_timeout_ms (PInt (case tn_transfer_timeout_ms t of None \<Rightarrow> TRANSFER_TIMEOUT_DEFAULT_MS | Some ms \<Rightarrow> ms)))"

definition assemble :: "instant \<Rightarrow> agent \<Rightarrow> tenant \<Rightarrow> provider_configs \<Rightarrow> int \<Rightarrow> runtime_config" where
  "assemble now a t ps timeout =
     \<lparr>rc_tenant = t, rc_agent = a, rc_providers = ps, rc_conversation = conversation_of a, rc_media = media_of a ps,
      rc_policies = policies_of a t timeout, rc_tools = [], rc_version = ag_config_version a, rc_resolved_at = now\<rparr>"

text \<open>\<^verbatim>\<open>if x is None: return None\<close>\<close>

definition if_some :: "config_error + 'a option \<Rightarrow> ('a \<Rightarrow> config_error + 'b option) \<Rightarrow> config_error + 'b option" where
  "if_some r f = and_then r (\<lambda>x. case x of None \<Rightarrow> Inr None | Some y \<Rightarrow> f y)"

definition configure_agent :: "backend \<Rightarrow> instant \<Rightarrow> string \<Rightarrow> agent \<Rightarrow> config_error + runtime_config option" where
  "configure_agent be now ts a =
     if_some (get_tenant be ts) (\<lambda>t.
       if_some (Inr (stt_id a t)) (\<lambda>si. if_some (Inr (llm_id a t)) (\<lambda>li. if_some (Inr (tts_id a t)) (\<lambda>ti.
       if_some (get_provider_config be si) (\<lambda>stt. if_some (get_provider_config be li) (\<lambda>llm.
       if_some (get_provider_config be ti) (\<lambda>tts.
         and_then (timeout_of t) (\<lambda>ms.
           Inr (Some (assemble now a t \<lparr>pcs_stt = stt, pcs_llm = llm, pcs_tts = tts\<rparr> ms))))))))))"

definition get_runtime_config :: "backend \<Rightarrow> instant \<Rightarrow> string \<Rightarrow> string \<Rightarrow> config_error + runtime_config option" where
  "get_runtime_config be now ts as =
     if_some (get_agent_config be ts as) (\<lambda>a.
       if ag_status a \<noteq> ''active'' then Inr None else configure_agent be now ts a)"

lemma if_some_Some: "if_some r f = Inr (Some y) \<longleftrightarrow> (\<exists>x. r = Inr (Some x) \<and> f x = Inr (Some y))"
  by (cases r) (auto simp: if_some_def split: option.splits)

lemma timeout_of_ok: "\<exists>ms. timeout_of t = Inr ms \<and> TRANSFER_TIMEOUT_MIN_MS \<le> ms \<and> ms \<le> TRANSFER_TIMEOUT_MAX_MS"
  by (auto simp: timeout_of_def validate_transfer_timeout_ms_def TRANSFER_TIMEOUT_MIN_MS_def TRANSFER_TIMEOUT_MAX_MS_def
      TRANSFER_TIMEOUT_DEFAULT_MS_def)


section \<open>Clients of a call\<close>

record client_bundle =
  bu_stt :: "(ai_config, client) made"
  bu_llm :: "(ai_config, client) made"
  bu_llm_name :: string
  bu_tts :: "(ai_config, client) made"

text \<open>
  \<^verbatim>\<open>ProviderRegistry.resolve\<close>, with what the manager answers for a row. The language model is wrapped
  in \<^verbatim>\<open>RetryOnceLLM\<close>, of which the name is kept.
\<close>

definition resolve_bundle ::
  "(ai_config \<Rightarrow> get_error + (ai_config, client) made) \<Rightarrow> provider_configs \<Rightarrow> get_error + client_bundle" where
  "resolve_bundle get ps =
     and_then (get (to_ai_provider_config (pcs_stt ps))) (\<lambda>stt.
     and_then (get (to_ai_provider_config (pcs_llm ps))) (\<lambda>llm.
     and_then (get (to_ai_provider_config (pcs_tts ps))) (\<lambda>tts.
       Inr \<lparr>bu_stt = stt, bu_llm = llm,
            bu_llm_name = pc_engine (pcs_llm ps) @ '':'' @ (case pc_model (pcs_llm ps) of None \<Rightarrow> ''None'' | Some m \<Rightarrow> m),
            bu_tts = tts\<rparr>)))"

text \<open>\<^verbatim>\<open>resolve_handler_deps\<close>: whatever goes wrong on the way, the answer is \<^verbatim>\<open>None\<close>.\<close>

definition resolve_handler_deps ::
  "config_error + runtime_config option \<Rightarrow> (ai_config \<Rightarrow> get_error + (ai_config, client) made) \<Rightarrow>
     (runtime_config \<times> client_bundle) option" where
  "resolve_handler_deps config get =
     (case config of
        Inl e \<Rightarrow> None
      | Inr None \<Rightarrow> None
      | Inr (Some rc) \<Rightarrow> (case resolve_bundle get (rc_providers rc) of Inl e \<Rightarrow> None | Inr b \<Rightarrow> Some (rc, b)))"

text \<open>
  \<^verbatim>\<open>RetryOnceLLM._with_retry\<close>: the items a stream yields, and whether it ends with an error. The second
  attempt is made only when the first failed without an item.
\<close>

definition with_retry :: "'a list \<times> bool \<Rightarrow> 'a list \<times> bool \<Rightarrow> 'a list \<times> bool" where
  "with_retry first again = (if snd first \<and> fst first = [] then again else first)"

lemma retry_never_mixes: "with_retry a b = a \<or> (with_retry a b = b \<and> fst a = [] \<and> snd a)"
  by (simp add: with_retry_def)

section \<open>The fallback\<close>

record legacy_agent =
  la_name :: string
  la_greeting :: string
  la_system_prompt :: string
  la_workflow :: pyval
  la_grace_ms :: int

definition default_legacy :: legacy_agent where
  "default_legacy =
     \<lparr>la_name = ''Default Assistant'', la_greeting = ''Hello! How can I help you today?'', la_system_prompt = [],
      la_workflow = PNone, la_grace_ms = 2500\<rparr>"

definition MAX_GRACE_PERIOD_MS :: int where
  "MAX_GRACE_PERIOD_MS = 60000"

text \<open>Only \<^verbatim>\<open>TypeError\<close> and \<^verbatim>\<open>ValueError\<close> are caught.\<close>

definition validate_grace_period :: "pyval \<Rightarrow> py_exn + int" where
  "validate_grace_period raw =
     (if raw = PNone then Inr (la_grace_ms default_legacy)
      else case py_int raw of
        Inr v \<Rightarrow> Inr (if v < 0 \<or> v > MAX_GRACE_PERIOD_MS then la_grace_ms default_legacy else v)
      | Inl OverflowError \<Rightarrow> Inl OverflowError
      | Inl e \<Rightarrow> Inr (la_grace_ms default_legacy))"

definition legacy_text :: "dict_row \<Rightarrow> string \<Rightarrow> string \<Rightarrow> string" where
  "legacy_text d k v = text_or_empty (column_or d k (PStr v))"

text \<open>
  A file is absent (\<open>None\<close>), not readable (\<open>Some None\<close>), or its value. A false value is an empty
  dictionary, a true one that is no dictionary has no \<^verbatim>\<open>get\<close>.
\<close>

definition agent_of_file :: "pyval option \<Rightarrow> legacy_agent option" where
  "agent_of_file data =
     (case data of
        None \<Rightarrow> None
      | Some v \<Rightarrow>
          (case (if truthy v then v else PDict []) of
             PDict d \<Rightarrow>
               (case validate_grace_period (py_get d ''goodbye_grace_period_ms'') of
                  Inl e \<Rightarrow> None
                | Inr ms \<Rightarrow>
                    Some \<lparr>la_name = legacy_text d ''name'' (la_name default_legacy),
                      la_greeting = legacy_text d ''greeting'' (la_greeting default_legacy),
                      la_system_prompt = legacy_text d ''system_prompt'' (la_system_prompt default_legacy),
                      la_workflow = py_get d ''workflow'', la_grace_ms = ms\<rparr>)
           | _ \<Rightarrow> None))"

fun first_agent :: "(string \<Rightarrow> pyval option option) \<Rightarrow> string list \<Rightarrow> legacy_agent" where
  "first_agent file [] = default_legacy"
| "first_agent file (p # ps) =
     (case file p of
        None \<Rightarrow> first_agent file ps
      | Some data \<Rightarrow> (case agent_of_file data of None \<Rightarrow> first_agent file ps | Some a \<Rightarrow> a))"

definition strip_slashes :: "string \<Rightarrow> string" where
  "strip_slashes s = rev (dropWhile (\<lambda>c. c = CHR ''/'') (rev (dropWhile (\<lambda>c. c = CHR ''/'') s)))"

definition load_agent :: "bool \<Rightarrow> (string \<Rightarrow> pyval option option) \<Rightarrow> string \<Rightarrow> legacy_agent" where
  "load_agent yaml_available file script_id =
     (if \<not> yaml_available then default_legacy
      else first_agent file [strip_slashes (if script_id = [] then ''default'' else script_id) @ ''.yaml'', ''default.yaml''])"

definition legacy_provider :: "string \<Rightarrow> string \<Rightarrow> provider_config" where
  "legacy_provider role engine =
     \<lparr>pc_id = ''legacy'', pc_role = role, pc_engine = engine, pc_model = None, pc_voice = None, pc_language = None,
      pc_api_key_ref = None, pc_extra = [], pc_updated_at = None\<rparr>"

text \<open>\<^verbatim>\<open>to_runtime_config\<close>; the engines are the names of the classes of the clients of the process.\<close>

definition to_runtime_config ::
  "instant \<Rightarrow> legacy_agent \<Rightarrow> string \<Rightarrow> string \<Rightarrow> string \<times> string \<times> string \<Rightarrow> runtime_config" where
  "to_runtime_config now la tenant_slug script_id engines =
     (let graph = py_or (la_workflow la) (starter_graph (la_greeting la) (la_system_prompt la) [] []);
          t = \<lparr>tn_id = [], tn_slug = tenant_slug, tn_name = tenant_slug, tn_region = ''us'', tn_vad_engine = None,
               tn_vad_onset_ms = None, tn_vad_hold_ms = None, tn_vad_speech_threshold = None, tn_no_speech_timeout_ms = None,
               tn_stt_timeout_ms = None, tn_llm_timeout_ms = None, tn_transfer_timeout_ms = None,
               tn_default_stt_config_id = None, tn_default_llm_config_id = None, tn_default_tts_config_id = None,
               tn_config_version = 0, tn_updated_at = Some now\<rparr>;
          a = \<lparr>ag_id = [], ag_slug = script_id, ag_tenant_id = [], ag_name = la_name la, ag_greeting = la_greeting la,
               ag_system_prompt = la_system_prompt la, ag_goodbye_grace_ms = la_grace_ms la, ag_stt_config_id = None,
               ag_llm_config_id = None, ag_tts_config_id = None, ag_status = ''active'', ag_config_version = 0,
               ag_updated_at = Some now, ag_language = None, ag_end_call_prompt = None, ag_transfer_prompt = None,
               ag_farewell_message = None, ag_transfer_announcement = None, ag_transfer_type = ''none'',
               ag_transfer_destination = None, ag_queue_id = None, ag_escalation_threshold = None,
               ag_caller_id_policy = ''original'', ag_platform_did = None, ag_custom_caller_id = None,
               ag_transfer_waiting_experience = ''announcement_moh'', ag_max_call_duration_s = None,
               ag_workflow = not_none graph, ag_workflow_draft = None\<rparr>
      in \<lparr>rc_tenant = t, rc_agent = a,
          rc_providers = \<lparr>pcs_stt = legacy_provider ''stt'' (fst engines), pcs_llm = legacy_provider ''llm'' (fst (snd engines)),
            pcs_tts = legacy_provider ''tts'' (snd (snd engines))\<rparr>,
          rc_conversation = (conversation_of a)\<lparr>ci_workflow := graph, ci_workflow_draft := graph\<rparr>,
          rc_media = \<lparr>mi_voice = None, mi_language = None, mi_sample_rate = 16000\<rparr>,
          rc_policies = policies_of a t TRANSFER_TIMEOUT_DEFAULT_MS, rc_tools = [], rc_version = 0, rc_resolved_at = now\<rparr>)"

text \<open>
  The start of \<^verbatim>\<open>handler_factory\<close> in \<^verbatim>\<open>__main__.py\<close>: the configuration of the database with clients of its
  rows, or the fallback with those of the process (\<open>None\<close>).
\<close>

definition configure_call ::
  "instant \<Rightarrow> config_error + runtime_config option \<Rightarrow> (ai_config \<Rightarrow> get_error + (ai_config, client) made) \<Rightarrow>
     legacy_agent \<Rightarrow> string \<Rightarrow> string \<Rightarrow> string \<times> string \<times> string \<Rightarrow> runtime_config \<times> client_bundle option" where
  "configure_call now config get la tenant_slug script_id engines =
     (case resolve_handler_deps config get of
        Some (rc, b) \<Rightarrow> (rc, Some b)
      | None \<Rightarrow> (to_runtime_config now la tenant_slug script_id engines, None))"

section \<open>Every call is configured\<close>

lemma validate_grace_bounded: "validate_grace_period raw = Inr ms \<Longrightarrow> 0 \<le> ms \<and> ms \<le> MAX_GRACE_PERIOD_MS"
  by (auto simp: validate_grace_period_def default_legacy_def MAX_GRACE_PERIOD_MS_def split: if_splits sum.splits py_exn.splits)

lemma agent_of_file_grace: "agent_of_file data = Some a \<Longrightarrow> 0 \<le> la_grace_ms a \<and> la_grace_ms a \<le> MAX_GRACE_PERIOD_MS"
  by (auto simp: agent_of_file_def dest: validate_grace_bounded split: option.splits pyval.splits sum.splits)

lemma load_agent_grace: "0 \<le> la_grace_ms (load_agent y file sid) \<and> la_grace_ms (load_agent y file sid) \<le> MAX_GRACE_PERIOD_MS"
proof -
  have "0 \<le> la_grace_ms (first_agent file ps) \<and> la_grace_ms (first_agent file ps) \<le> MAX_GRACE_PERIOD_MS" for ps
    by (induction ps) (auto simp: default_legacy_def MAX_GRACE_PERIOD_MS_def dest: agent_of_file_grace split: option.splits)
  moreover have "0 \<le> la_grace_ms default_legacy \<and> la_grace_ms default_legacy \<le> MAX_GRACE_PERIOD_MS"
    by (simp add: default_legacy_def MAX_GRACE_PERIOD_MS_def)
  ultimately show ?thesis unfolding load_agent_def by presburger
qed

lemma to_runtime_config_sel:
  "po_transfer_timeout_ms (rc_policies (to_runtime_config now la ts sid engines)) = TRANSFER_TIMEOUT_DEFAULT_MS"
  "po_goodbye_grace_ms (rc_policies (to_runtime_config now la ts sid engines)) = la_grace_ms la"
  "ag_id (rc_agent (to_runtime_config now la ts sid engines)) = []"
  "ci_workflow (rc_conversation (to_runtime_config now la ts sid engines)) =
     py_or (la_workflow la) (starter_graph (la_greeting la) (la_system_prompt la) [] [])"
  by (simp_all add: to_runtime_config_def policies_of_def Let_def)

lemma resolve_handler_depsD:
  assumes "resolve_handler_deps config get = Some (rc, b)"
  shows "config = Inr (Some rc)" "get (to_ai_provider_config (pcs_stt (rc_providers rc))) = Inr (bu_stt b)"
    "get (to_ai_provider_config (pcs_llm (rc_providers rc))) = Inr (bu_llm b)"
    "get (to_ai_provider_config (pcs_tts (rc_providers rc))) = Inr (bu_tts b)"
proof -
  show c: "config = Inr (Some rc)" using assms by (auto simp: resolve_handler_deps_def split: sum.splits option.splits)
  then have "resolve_bundle get (rc_providers rc) = Inr b"
    using assms by (simp add: resolve_handler_deps_def split: sum.splits)
  then show "get (to_ai_provider_config (pcs_stt (rc_providers rc))) = Inr (bu_stt b)"
    "get (to_ai_provider_config (pcs_llm (rc_providers rc))) = Inr (bu_llm b)"
    "get (to_ai_provider_config (pcs_tts (rc_providers rc))) = Inr (bu_tts b)"
    by (auto simp: resolve_bundle_def and_then_Inr)
qed

lemma runtime_timeout_bounded:
  assumes "get_runtime_config be now ts as = Inr (Some rc)"
  shows "TRANSFER_TIMEOUT_MIN_MS \<le> po_transfer_timeout_ms (rc_policies rc) \<and> po_transfer_timeout_ms (rc_policies rc) \<le> TRANSFER_TIMEOUT_MAX_MS"
proof -
  obtain a where "configure_agent be now ts a = Inr (Some rc)"
    using assms unfolding get_runtime_config_def if_some_Some by (auto split: if_splits)
  then obtain t ps ms where "timeout_of t = Inr ms" "rc = assemble now a t ps ms"
    unfolding configure_agent_def if_some_Some and_then_Inr by auto
  then show ?thesis using timeout_of_ok [of t] by (simp add: assemble_def policies_of_def)
qed

text \<open>
  C17. Every call gets a configuration, whatever Redis, the configuration service, the rows, the secrets and
  the factories do: either the one of the database with the clients the manager gave for its own three
  rows, or the fallback with the clients of the process, never a mix. The transfer timeout is within its
  bounds both ways; in the fallback the agent has no id, the grace period is within its bounds, and when
  the file brings no workflow the starter graph parses and greets with the agent's greeting.
\<close>

theorem every_call_configured:
  "let la = load_agent yaml file sid;
       (rc, b) = configure_call now (get_runtime_config be now ts as) get la ts as engines
   in TRANSFER_TIMEOUT_MIN_MS \<le> po_transfer_timeout_ms (rc_policies rc) \<and> po_transfer_timeout_ms (rc_policies rc) \<le> TRANSFER_TIMEOUT_MAX_MS \<and>
      (case b of
         Some cl \<Rightarrow>
           get_runtime_config be now ts as = Inr (Some rc) \<and>
           get (to_ai_provider_config (pcs_stt (rc_providers rc))) = Inr (bu_stt cl) \<and>
           get (to_ai_provider_config (pcs_llm (rc_providers rc))) = Inr (bu_llm cl) \<and>
           get (to_ai_provider_config (pcs_tts (rc_providers rc))) = Inr (bu_tts cl)
       | None \<Rightarrow>
           rc = to_runtime_config now la ts as engines \<and> ag_id (rc_agent rc) = [] \<and>
           0 \<le> po_goodbye_grace_ms (rc_policies rc) \<and> po_goodbye_grace_ms (rc_policies rc) \<le> MAX_GRACE_PERIOD_MS \<and>
           (truthy (la_workflow la) \<or>
             (\<exists>g s. parse_graph (ci_workflow (rc_conversation rc)) = Inr g \<and> od_get (g_nodes g) (g_start_id g) = Some s \<and>
                n_greeting s = Some (la_greeting la))))"
proof (cases "resolve_handler_deps (get_runtime_config be now ts as) get")
  case None
  let ?la = "load_agent yaml file sid"
  have "\<exists>g s. parse_graph (ci_workflow (rc_conversation (to_runtime_config now ?la ts as engines))) = Inr g \<and>
      od_get (g_nodes g) (g_start_id g) = Some s \<and> n_greeting s = Some (la_greeting ?la)" if "\<not> truthy (la_workflow ?la)"
    using parse_graph_starter [of "la_greeting ?la" "la_system_prompt ?la" "[]" "[]"] that
    by (auto simp: to_runtime_config_sel py_or_def)
  then show ?thesis
    using load_agent_grace [of yaml "file" sid]
    by (auto simp: None configure_call_def Let_def to_runtime_config_sel TRANSFER_TIMEOUT_MIN_MS_def TRANSFER_TIMEOUT_MAX_MS_def
        TRANSFER_TIMEOUT_DEFAULT_MS_def)
next
  case (Some p)
  obtain rc b where p: "p = (rc, b)" by fastforce
  note d = resolve_handler_depsD [OF Some [unfolded p]]
  have "configure_call now (get_runtime_config be now ts as) get la ts as engines = (rc, Some b)" for la
    by (simp add: configure_call_def Some p)
  from this [of "load_agent yaml file sid"] show ?thesis
    unfolding Let_def by (simp only: prod.case option.case) (use d runtime_timeout_bounded [OF d(1)] in blast)
qed

text \<open>When the manager answers with results of its calls, the clients are those of the rows the configuration names.\<close>

lemma bundle_of_rows:
  assumes "resolve_bundle get ps = Inr b"
    and "\<And>c x. get c = Inr x \<Longrightarrow> \<exists>es t. task_of t (after (voice_kind text) es) = Some (Got c x)"
  shows "ac_id (md_config (bu_stt b)) = pc_id (pcs_stt ps) \<and> ac_id (md_config (bu_llm b)) = pc_id (pcs_llm ps) \<and>
    ac_id (md_config (bu_tts b)) = pc_id (pcs_tts ps)"
proof -
  have id: "ac_id (md_config x) = ac_id c" if got: "get c = Inr x" for c x
  proof -
    obtain es t where "task_of t (after (voice_kind text) es) = Some (Got c x)" using assms(2) [OF got] by blast
    moreover have "history_ok (voice_kind text) (after (voice_kind text) es)"
      using clients.inv_run [of "voice_kind text" es] by (simp add: clients_ok_def after_def)
    ultimately have "x \<in> set (built_for (voice_kind text) (kd_id (voice_kind text) c) (after (voice_kind text) es))"
      by (rule history_okD(2) [rotated])
    then show ?thesis by (simp add: built_for_def voice_kind_def)
  qed
  have "get (to_ai_provider_config (pcs_stt ps)) = Inr (bu_stt b)" "get (to_ai_provider_config (pcs_llm ps)) = Inr (bu_llm b)"
    "get (to_ai_provider_config (pcs_tts ps)) = Inr (bu_tts b)"
    using assms(1) by (auto simp: resolve_bundle_def and_then_Inr)
  then show ?thesis using id by (auto simp: to_ai_provider_config_def)
qed

section \<open>What is not checked\<close>

text \<open>The grace period of an agent in the database is passed on as it is, negative or not.\<close>

lemma grace_not_bounded:
  assumes "agent_from_dict be d = Inr a" "od_get d ''goodbye_grace_ms'' = Some (PInt n)"
  shows "po_goodbye_grace_ms (policies_of a t ms) = n"
  using assms by (auto simp: agent_from_dict_def and_then_Inr policies_of_def column_or_def int_or_zero_def as_int_def)

text \<open>An infinite grace period in a file is not replaced by the default: the file is dropped, greeting and all.\<close>

lemma infinite_grace_discards_file:
  "agent_of_file (Some (PDict [(''greeting'', PStr g), (''goodbye_grace_period_ms'', PInf False)])) = None"
  by (simp add: agent_of_file_def validate_grace_period_def py_get_Cons)

text \<open>The role of a row is not looked at: a row serves in the place that names it.\<close>

lemma role_not_checked:
  assumes "get_provider_config be si = Inr (Some p)" "get_agent_config be ts as = Inr (Some a)" "ag_status a = ''active''"
    and "get_tenant be ts = Inr (Some t)" "stt_id a t = Some si" "llm_id a t = Some si" "tts_id a t = Some si"
  shows "\<exists>rc. get_runtime_config be now ts as = Inr (Some rc) \<and> rc_providers rc = \<lparr>pcs_stt = p, pcs_llm = p, pcs_tts = p\<rparr>"
proof -
  obtain ms where "timeout_of t = Inr ms" using timeout_of_ok by blast
  then show ?thesis
    using assms by (simp add: get_runtime_config_def configure_agent_def if_some_def assemble_def)
qed

section \<open>Concrete runs\<close>




end
