(* ===== verification/Workflow_Dataflow.thy ===== *)
theory Workflow_Dataflow
  imports Workflow_Graph "HOL-Library.List_Lexorder" "HOL-Library.Char_ord"
begin

text \<open>
  The editor's warnings (\<^verbatim>\<open>libs/config_sdk/workflow.py\<close>): the must-define dataflow analysis
  \<^verbatim>\<open>_variables_available_at\<close>, which finds the variables that every path has captured before a step
  is entered, and \<^verbatim>\<open>graph_warnings\<close>, which compares them with the placeholders a text uses.

  The analysis loops until a sweep over the reachable steps changes nothing; the loop is
  \<open>while_option\<close>, so that not terminating would be the value \<open>None\<close>. The source iterates over a
  Python set, whose order is not specified: the order is the parameter \<open>order\<close>, any function that
  lists the elements of a set given as a list.
\<close>

section \<open>The analysis\<close>

text \<open>The intersection over the predecessors, as the inner loop accumulates it.\<close>

fun meet_preds :: "(string \<Rightarrow> string set) \<Rightarrow> string list \<Rightarrow> string set" where
  "meet_preds out [] = {}"
| "meet_preds out (p # ps) = fold (\<lambda>q acc. acc \<inter> out q) ps (out p)"

definition new_in :: "graph \<Rightarrow> string list \<Rightarrow> (string \<Rightarrow> string set) \<Rightarrow> string \<Rightarrow> string set" where
  "new_in g reach avail i =
     meet_preds (\<lambda>p. avail p \<union> declared_by g p) (filter (\<lambda>p. p \<in> set reach) (incoming g i))"

text \<open>One pass of the \<^verbatim>\<open>for\<close> loop: the table so far and the flag \<^verbatim>\<open>changed\<close>.\<close>

fun sweep ::
  "graph \<Rightarrow> string list \<Rightarrow> string list \<Rightarrow> (string \<Rightarrow> string set) \<times> bool \<Rightarrow> (string \<Rightarrow> string set) \<times> bool"
where
  "sweep g reach [] st = st"
| "sweep g reach (i # is) (avail, changed) =
     (if i = g_start_id g then sweep g reach is (avail, changed)
      else
        let new = new_in g reach avail i in
        if new \<noteq> avail i then sweep g reach is (avail(i := new), True)
        else sweep g reach is (avail, changed))"

definition initial_in :: "graph \<Rightarrow> string list \<Rightarrow> string \<Rightarrow> string set" where
  "initial_in g reach i =
     (if i = g_start_id g then {} else if i \<in> set reach then declared_variables g else {})"

definition flow ::
  "(string list \<Rightarrow> string list) \<Rightarrow> graph \<Rightarrow> string list \<Rightarrow> (string \<Rightarrow> string set) option"
where
  "flow order g reach =
     map_option fst
       (while_option (\<lambda>(avail, changed). changed)
          (\<lambda>(avail, changed). sweep g reach (order reach) (avail, False))
          (initial_in g reach, True))"

text \<open>\<open>None\<close>: the loop does not end; \<open>Some (Inl e)\<close>: the search for reachable steps raised.\<close>

definition variables_available_at ::
  "(string list \<Rightarrow> string list) \<Rightarrow> graph \<Rightarrow> string \<Rightarrow> bool \<Rightarrow> (py_exn + string set) option"
where
  "variables_available_at order g i leaving =
     (case reachable g of
        Inl e \<Rightarrow> Some (Inl e)
      | Inr reach \<Rightarrow>
          if i \<notin> set reach then Some (Inr {})
          else map_option
                 (\<lambda>avail. Inr (avail i \<union> (if leaving then declared_by g i else {})))
                 (flow order g reach))"

section \<open>The specification\<close>

text \<open>
  A step can be entered without the variable: some path from the start leads to it and leaves no
  step that captures the variable.
\<close>

inductive uncaptured :: "graph \<Rightarrow> string \<Rightarrow> string \<Rightarrow> bool" for g v where
  at_start: "uncaptured g v (g_start_id g)"
| move: "uncaptured g v i \<Longrightarrow> succ g i j \<Longrightarrow> v \<notin> declared_by g i \<Longrightarrow> uncaptured g v j"

inductive_cases uncapturedE: "uncaptured g v i"

section \<open>Warnings\<close>

definition warn_templates ::
  "string \<Rightarrow> string \<Rightarrow> string \<Rightarrow> string \<Rightarrow> string set \<Rightarrow> string set \<Rightarrow> string option \<Rightarrow> bool \<Rightarrow> wf_error list"
where
  "warn_templates kind i field_name txt available declared_anywhere node_name always_on =
     map (\<lambda>chunk. err kind (Some i) (Some field_name) (MalformedPlaceholder chunk))
       (malformed_templates txt)
     @ map (\<lambda>name. err kind (Some i) (Some field_name)
              (if always_on then AlwaysOnVariable name
               else if name \<in> declared_anywhere then UsedBeforeCapture name node_name
               else NothingProvides name))
         (sorted_list_of_set (template_variables txt - available))"

text \<open>The warnings of one step that is not always-on and that some call can reach.\<close>

definition step_warnings ::
  "graph \<Rightarrow> string set \<Rightarrow> string set \<Rightarrow> string set \<Rightarrow> node \<Rightarrow> wf_error list"
where
  "step_warnings g on_entry on_leave declared_anywhere n =
     warn_templates ''node'' (n_id n) ''prompt'' (n_prompt n) on_entry declared_anywhere
       (Some (n_name n)) False
     @ warn_templates ''node'' (n_id n) ''greeting'' (case n_greeting n of Some t \<Rightarrow> t | None \<Rightarrow> [])
         on_entry declared_anywhere (Some (n_name n)) False
     @ concat (map (\<lambda>e. warn_templates ''edge'' (e_id e) ''transition_speech''
                           (case e_speech e of Some t \<Rightarrow> t | None \<Rightarrow> []) on_leave
                           declared_anywhere None False) (n_out_edges n))"

fun warn_nodes ::
  "(string list \<Rightarrow> string list) \<Rightarrow> graph \<Rightarrow> string list \<Rightarrow> string set \<Rightarrow> string set \<Rightarrow> node list
     \<Rightarrow> (py_exn + wf_error list) option"
where
  "warn_nodes order g reach always declared [] = Some (Inr [])"
| "warn_nodes order g reach always declared (n # ns) =
     (case
        (if n_is_unwired n then
           Some (Inr (warn_templates ''node'' (n_id n) ''prompt'' (n_prompt n) always declared
                        (Some (n_name n)) True))
         else if n_id n \<notin> set reach then
           Some (Inr [err ''node'' (Some (n_id n)) None (NoPathTo (n_name n))])
         else
           case variables_available_at order g (n_id n) False of
             None \<Rightarrow> None
           | Some (Inl e) \<Rightarrow> Some (Inl e)
           | Some (Inr entry) \<Rightarrow>
               (case variables_available_at order g (n_id n) True of
                  None \<Rightarrow> None
                | Some (Inl e) \<Rightarrow> Some (Inl e)
                | Some (Inr leave) \<Rightarrow>
                    Some (Inr (step_warnings g (always \<union> entry) (always \<union> leave) declared n))))
      of None \<Rightarrow> None
       | Some (Inl e) \<Rightarrow> Some (Inl e)
       | Some (Inr ws) \<Rightarrow>
           (case warn_nodes order g reach always declared ns of
              Some (Inr rest) \<Rightarrow> Some (Inr (ws @ rest))
            | r \<Rightarrow> r))"

definition graph_warnings ::
  "(string list \<Rightarrow> string list) \<Rightarrow> graph \<Rightarrow> string list \<Rightarrow> (py_exn + wf_error list) option"
where
  "graph_warnings order g known_variables =
     (case reachable g of
        Inl e \<Rightarrow> Some (Inl e)
      | Inr reach \<Rightarrow>
          warn_nodes order g reach (set CALL_CONTEXT_VARIABLES \<union> set known_variables)
            (declared_variables g) (g_node_list g))"

section \<open>Lemmas on one sweep\<close>

lemma fold_inter: "fold (\<lambda>q acc. acc \<inter> f q) ps a = a \<inter> (\<Inter>q \<in> set ps. f q)"
  by (induction ps arbitrary: a) auto

lemma meet_preds_eq: "ps \<noteq> [] \<Longrightarrow> meet_preds f ps = (\<Inter>p \<in> set ps. f p)"
  by (cases ps) (auto simp: fold_inter)

lemma meet_preds_mono: "(\<And>p. p \<in> set ps \<Longrightarrow> f p \<subseteq> h p) \<Longrightarrow> meet_preds f ps \<subseteq> meet_preds h ps"
  by (cases "ps = []") (auto simp: meet_preds_eq)

lemma new_in_mono:
  "(\<And>p. p \<in> set reach \<Longrightarrow> a p \<subseteq> b p) \<Longrightarrow> new_in g reach a i \<subseteq> new_in g reach b i"
  unfolding new_in_def by (intro meet_preds_mono) auto

text \<open>Every value lies above what one more step would give: the tables only ever shrink.\<close>

definition shrinking :: "graph \<Rightarrow> string list \<Rightarrow> (string \<Rightarrow> string set) \<Rightarrow> bool" where
  "shrinking g reach avail \<longleftrightarrow>
     (\<forall>i \<in> set reach. i \<noteq> g_start_id g \<longrightarrow> new_in g reach avail i \<subseteq> avail i)"

lemma shrinking_update:
  assumes "shrinking g reach avail" and "i \<in> set reach" and "i \<noteq> g_start_id g"
  shows "shrinking g reach (avail(i := new_in g reach avail i))"
proof -
  let ?a = "avail(i := new_in g reach avail i)"
  have le: "?a p \<subseteq> avail p" for p
    using assms by (auto simp: shrinking_def)
  have "new_in g reach ?a j \<subseteq> ?a j" if "j \<in> set reach" "j \<noteq> g_start_id g" for j
  proof -
    have "new_in g reach ?a j \<subseteq> new_in g reach avail j" using le by (intro new_in_mono) auto
    also have "\<dots> \<subseteq> ?a j" using assms(1) that by (auto simp: shrinking_def)
    finally show ?thesis .
  qed
  then show ?thesis by (auto simp: shrinking_def)
qed

definition table_size :: "string list \<Rightarrow> (string \<Rightarrow> string set) \<Rightarrow> nat" where
  "table_size reach avail = (\<Sum>i \<in> set reach. card (avail i))"

lemma table_size_update:
  assumes "i \<in> set reach" and "new \<subset> avail i" and "finite (avail i)"
  shows "table_size reach (avail(i := new)) < table_size reach avail"
proof -
  have "table_size reach f = card (f i) + (\<Sum>j \<in> set reach - {i}. card (f j))" for f
    unfolding table_size_def using assms(1) by (simp add: sum.remove)
  moreover have "(\<Sum>j \<in> set reach - {i}. card ((avail(i := new)) j)) = (\<Sum>j \<in> set reach - {i}. card (avail j))"
    by (intro sum.cong) auto
  moreover have "card new < card (avail i)" using assms(2,3) by (rule psubset_card_mono [rotated])
  ultimately show ?thesis by simp
qed

text \<open>
  The invariant of the analysis: everything captured on every path is still in the table, the start
  has nothing, the table is finite and shrinking.
\<close>

definition flow_inv :: "graph \<Rightarrow> string list \<Rightarrow> (string \<Rightarrow> string set) \<Rightarrow> bool" where
  "flow_inv g reach avail \<longleftrightarrow>
     shrinking g reach avail \<and> avail (g_start_id g) = {} \<and> (\<forall>i. finite (avail i)) \<and>
     (\<forall>i \<in> set reach. \<forall>v. \<not> uncaptured g v i \<longrightarrow> v \<in> avail i)"

text \<open>What the analysis relies on: the listed steps are those a path leads to, and nothing leads
  into the start.\<close>

definition flow_pre :: "graph \<Rightarrow> string list \<Rightarrow> bool" where
  "flow_pre g reach \<longleftrightarrow>
     (\<forall>i. i \<in> set reach \<longleftrightarrow> (succ g)\<^sup>*\<^sup>* (g_start_id g) i) \<and>
     (\<forall>i. \<not> succ g i (g_start_id g)) \<and>
     (\<forall>i j. i \<in> set (incoming g j) \<longleftrightarrow> succ g i j)"

lemma new_in_eq:
  assumes "flow_pre g reach" and "i \<in> set reach" and "i \<noteq> g_start_id g"
  shows "new_in g reach avail i = (\<Inter>p \<in> {p \<in> set reach. succ g p i}. avail p \<union> declared_by g p)"
    and "{p \<in> set reach. succ g p i} \<noteq> {}"
proof -
  have "(succ g)\<^sup>*\<^sup>* (g_start_id g) i" using assms(1,2) by (simp add: flow_pre_def)
  then obtain p where p: "(succ g)\<^sup>*\<^sup>* (g_start_id g) p" "succ g p i"
    using assms(3) by (metis rtranclp.cases)
  have s: "set (filter (\<lambda>p. p \<in> set reach) (incoming g i)) = {p \<in> set reach. succ g p i}"
    using assms(1) by (auto simp: flow_pre_def)
  show ne: "{p \<in> set reach. succ g p i} \<noteq> {}" using p assms(1) by (auto simp: flow_pre_def)
  then have "filter (\<lambda>p. p \<in> set reach) (incoming g i) \<noteq> []" using s by (metis set_empty)
  then show "new_in g reach avail i = (\<Inter>p \<in> {p \<in> set reach. succ g p i}. avail p \<union> declared_by g p)"
    unfolding new_in_def using meet_preds_eq s by metis
qed

lemma new_in_captured:
  assumes pre: "flow_pre g reach" and inv: "flow_inv g reach avail"
    and i: "i \<in> set reach" "i \<noteq> g_start_id g" and v: "\<not> uncaptured g v i"
  shows "v \<in> new_in g reach avail i"
proof -
  have "v \<in> avail p \<union> declared_by g p" if p: "p \<in> set reach" "succ g p i" for p
  proof (cases "uncaptured g v p")
    case True
    then show ?thesis using v uncaptured.move [OF True p(2)] by blast
  next
    case False
    then show ?thesis using inv p(1) unfolding flow_inv_def by blast
  qed
  then show ?thesis using new_in_eq(1) [OF pre i] by auto
qed

lemma flow_inv_update:
  assumes pre: "flow_pre g reach" and inv: "flow_inv g reach avail"
    and i: "i \<in> set reach" "i \<noteq> g_start_id g"
  shows "flow_inv g reach (avail(i := new_in g reach avail i))"
proof -
  let ?new = "new_in g reach avail i"
  have sub: "?new \<subseteq> avail i" using inv i unfolding flow_inv_def shrinking_def by blast
  then have "finite ?new" using inv unfolding flow_inv_def by (blast intro: finite_subset)
  moreover have "shrinking g reach (avail(i := ?new))"
    using inv i by (intro shrinking_update) (simp_all add: flow_inv_def)
  moreover have "\<forall>v. \<not> uncaptured g v i \<longrightarrow> v \<in> ?new"
    using new_in_captured [OF pre inv i] by blast
  ultimately show ?thesis using inv i unfolding flow_inv_def by simp
qed

section \<open>The loop\<close>

text \<open>What one pass does: it keeps the invariant, never grows the table, and reports truthfully.\<close>

lemma sweep_step:
  assumes "flow_pre g reach" and "flow_inv g reach avail" and "set is \<subseteq> set reach"
    and "sweep g reach is (avail, changed) = (avail', changed')"
  shows "flow_inv g reach avail' \<and> table_size reach avail' \<le> table_size reach avail \<and>
    (changed \<longrightarrow> changed') \<and>
    (if changed' then changed \<or> table_size reach avail' < table_size reach avail
     else avail' = avail \<and> (\<forall>i \<in> set is. i \<noteq> g_start_id g \<longrightarrow> new_in g reach avail i = avail i))"
  using assms(2-4)
proof (induction "is" arbitrary: avail changed)
  case Nil
  then show ?case by auto
next
  case (Cons i "is")
  let ?new = "new_in g reach avail i"
  consider "i = g_start_id g \<or> ?new = avail i" | "i \<noteq> g_start_id g" "?new \<noteq> avail i" by blast
  then show ?case
  proof cases
    case 1
    then have "sweep g reach is (avail, changed) = (avail', changed')"
      using Cons.prems(3) by (auto simp: Let_def split: if_splits)
    from Cons.IH [OF Cons.prems(1) _ this] Cons.prems(2) 1 show ?thesis
      by (auto split: if_splits)
  next
    case 2
    have i: "i \<in> set reach" using Cons.prems(2) by simp
    have fin: "finite (avail i)" using Cons.prems(1) by (simp add: flow_inv_def)
    have "?new \<subset> avail i"
      using Cons.prems(1) i 2 by (auto simp: flow_inv_def shrinking_def)
    from table_size_update [of i reach ?new avail, OF i this fin]
    have less: "table_size reach (avail(i := ?new)) < table_size reach avail" .
    have inv: "flow_inv g reach (avail(i := ?new))"
      using flow_inv_update [OF assms(1) Cons.prems(1) i 2(1)] .
    define b where "b = avail(i := ?new)"
    have "sweep g reach is (b, True) = (avail', changed')"
      using Cons.prems(3) 2 by (auto simp: Let_def b_def)
    from Cons.IH [OF inv [folded b_def] _ this] Cons.prems(2)
    have "flow_inv g reach avail' \<and> table_size reach avail' \<le> table_size reach b \<and> changed'"
      by simp
    then show ?thesis using less [folded b_def] by auto
  qed
qed

lemma flow_inv_initial:
  assumes "flow_pre g reach" and "finite (declared_variables g)" and "\<And>i. declared_by g i \<subseteq> declared_variables g"
  shows "flow_inv g reach (initial_in g reach)"
proof -
  have "v \<in> declared_variables g" if "(succ g)\<^sup>*\<^sup>* (g_start_id g) i" "\<not> uncaptured g v i" for v i
    using that
    by (induction rule: rtranclp_induct) (use assms(3) in \<open>auto intro: uncaptured.intros\<close>)
  moreover have "new_in g reach (initial_in g reach) i \<subseteq> initial_in g reach i"
    if "i \<in> set reach" "i \<noteq> g_start_id g" for i
    using new_in_eq [OF assms(1) that] assms(3) that
    by (fastforce simp: initial_in_def split: if_splits)
  ultimately show ?thesis
    using assms uncaptured.at_start [of g]
    by (auto simp: flow_inv_def shrinking_def initial_in_def flow_pre_def)
qed

lemma flow_returns:
  assumes pre: "flow_pre g reach" and init: "flow_inv g reach (initial_in g reach)"
    and order: "set (order reach) = set reach"
  shows "\<exists>avail. flow order g reach = Some avail \<and> flow_inv g reach avail \<and>
    (\<forall>i \<in> set reach. i \<noteq> g_start_id g \<longrightarrow> new_in g reach avail i = avail i)"
proof -
  let ?b = "\<lambda>(avail, changed). changed :: bool"
  let ?c = "\<lambda>(avail, changed :: bool). sweep g reach (order reach) (avail, False)"
  let ?P = "\<lambda>(avail, changed). flow_inv g reach avail \<and>
    (\<not> changed \<longrightarrow> (\<forall>i \<in> set reach. i \<noteq> g_start_id g \<longrightarrow> new_in g reach avail i = avail i))"
  let ?f = "\<lambda>(avail, changed). 2 * table_size reach avail + (if changed then 1 else 0)"
  have step: "?P (?c s) \<and> ?f (?c s) < ?f s" if s1: "?P s" and s2: "?b s" for s
  proof -
    obtain avail avail' changed' where s: "s = (avail, True)"
      and w: "sweep g reach (order reach) (avail, False) = (avail', changed')"
      using s2 by (cases s; cases "sweep g reach (order reach) (fst s, False)") auto
    from sweep_step [OF pre _ _ w] s1 s order show ?thesis by (auto simp: w split: if_splits)
  qed
  have P0: "?P (initial_in g reach, True)" using init by simp
  obtain t where t: "while_option ?b ?c (initial_in g reach, True) = Some t"
    using measure_while_option_Some [where P = ?P and b = ?b and c = ?c and f = ?f, OF step P0]
    by blast
  have "?P t" by (rule while_option_rule [where P = ?P, OF conjunct1 [OF step] t P0])
  moreover have "\<not> ?b t" using while_option_stop [OF t] .
  ultimately show ?thesis unfolding flow_def t by (cases t) auto
qed

text \<open>At a fixed point nothing is claimed that a path could miss.\<close>

lemma fixpoint_sound:
  assumes pre: "flow_pre g reach" and start: "avail (g_start_id g) = {}"
    and fp: "\<forall>i \<in> set reach. i \<noteq> g_start_id g \<longrightarrow> new_in g reach avail i = avail i"
    and "uncaptured g v i"
  shows "v \<notin> avail i"
  using assms(4)
proof (induction rule: uncaptured.induct)
  case at_start
  then show ?case using start by simp
next
  case (move i j)
  have "(succ g)\<^sup>*\<^sup>* (g_start_id g) i"
    using move.hyps(1) by (induction rule: uncaptured.induct) (auto intro: rtranclp.rtrancl_into_rtrancl)
  then have r: "i \<in> set reach" "j \<in> set reach"
    using pre move.hyps(2) by (auto simp: flow_pre_def intro: rtranclp.rtrancl_into_rtrancl)
  have ne: "j \<noteq> g_start_id g" using pre move.hyps(2) by (auto simp: flow_pre_def)
  then have "avail j \<subseteq> avail i \<union> declared_by g i"
    using fp r new_in_eq(1) [OF pre r(2) ne, of avail] move.hyps(2) by auto
  then show ?case using move.IH move.hyps(3) by blast
qed

section \<open>On well-formed graphs\<close>

lemma finite_node_declares: "finite (node_declares n)"
  by (auto simp: node_declares_def split: option.splits)

lemma finite_declared_variables: "finite (declared_variables g)"
  by (auto simp: declared_variables_def intro: finite_node_declares)

lemma declared_by_subset: "declared_by g i \<subseteq> declared_variables g"
  by (auto simp: declared_by_def declared_variables_def g_node_list_def split: option.splits
      dest!: od_get_SomeD intro!: bexI)

lemma wf_node_exits: "wf_graph g \<Longrightarrow> od_get (g_nodes g) i = Some n \<Longrightarrow> n_id n = i \<and> wf_exits g n"
  using od_get_SomeD [of "g_nodes g" i n]
  by (force simp: wf_graph_def wf_nodes_def list_all_iff g_node_list_def)

lemma wf_flow_pre:
  assumes wf: "wf_graph g" and r: "\<forall>i. i \<in> set reach \<longleftrightarrow> (succ g)\<^sup>*\<^sup>* (g_start_id g) i"
  shows "flow_pre g reach"
proof -
  have "\<not> succ g i (g_start_id g)" for i
    using wf_node_exits [OF wf] by (fastforce simp: succ_def wf_exits_def list_all_iff)
  moreover have "i \<in> set (incoming g j) \<longleftrightarrow> succ g i j" for i j
  proof
    assume "i \<in> set (incoming g j)"
    then obtain k n e where k: "(k, n) \<in> set (g_nodes g)" "e \<in> set (n_out_edges n)" "e_target e = j" "e_source e = i"
      by (auto simp: incoming_def g_node_list_def)
    have "od_get (g_nodes g) k = Some n"
      using wf k(1) by (auto simp: wf_graph_def wf_nodes_def intro: od_get_in_set)
    moreover from wf_node_exits [OF wf this] k have "k = i" by (auto simp: wf_exits_def list_all_iff)
    ultimately show "succ g i j" using k by (auto simp: succ_def)
  next
    assume "succ g i j"
    then obtain n e where n: "od_get (g_nodes g) i = Some n" "e \<in> set (n_out_edges n)" "e_target e = j"
      by (auto simp: succ_def)
    moreover from wf_node_exits [OF wf n(1)] n(2) have "e_source e = i"
      by (auto simp: wf_exits_def list_all_iff)
    ultimately show "i \<in> set (incoming g j)"
      using od_get_SomeD [OF n(1)] by (force simp: incoming_def g_node_list_def)
  qed
  ultimately show ?thesis using r by (simp add: flow_pre_def)
qed

lemma variables_available_spec:
  assumes wf: "wf_graph g" and order: "\<And>xs. set (order xs) = set xs"
  shows "\<exists>S. variables_available_at order g i leaving = Some (Inr S) \<and>
    ((succ g)\<^sup>*\<^sup>* (g_start_id g) i \<longrightarrow>
       S = {v. \<not> uncaptured g v i} \<union> (if leaving then declared_by g i else {})) \<and>
    (\<not> (succ g)\<^sup>*\<^sup>* (g_start_id g) i \<longrightarrow> S = {})"
proof -
  obtain reach where r: "reachable g = Inr reach" "\<forall>i. i \<in> set reach \<longleftrightarrow> (succ g)\<^sup>*\<^sup>* (g_start_id g) i"
    using reachable_spec [OF wf] by blast
  have pre: "flow_pre g reach" using wf_flow_pre [OF wf r(2)] .
  obtain avail where a: "flow order g reach = Some avail" "flow_inv g reach avail"
    "\<forall>i \<in> set reach. i \<noteq> g_start_id g \<longrightarrow> new_in g reach avail i = avail i"
    using flow_returns [where order = order, OF pre flow_inv_initial [OF pre finite_declared_variables declared_by_subset] order]
    by blast
  have "avail i = {v. \<not> uncaptured g v i}" if "i \<in> set reach"
    using a(2) that fixpoint_sound [OF pre _ a(3)] by (auto simp: flow_inv_def)
  then show ?thesis using r a(1) by (auto simp: variables_available_at_def)
qed

text \<open>
  C2. On every well-formed graph the fixed-point loop ends, in whatever order it visits the steps,
  and its answer is exact: the variables reported as available on entry to a reachable step are those
  that no path from the start can miss, on leaving it also those the step itself captures; for a step
  no path leads to the answer is empty.
\<close>

theorem variables_available_exact:
  assumes "wf_graph g" and "\<And>xs. set (order xs) = set xs"
  shows "\<exists>S. variables_available_at order g i leaving = Some (Inr S) \<and>
    ((succ g)\<^sup>*\<^sup>* (g_start_id g) i \<longrightarrow>
       S = {v. \<not> uncaptured g v i} \<union> (if leaving then declared_by g i else {})) \<and>
    (\<not> (succ g)\<^sup>*\<^sup>* (g_start_id g) i \<longrightarrow> S = {})"
  using assms by (rule variables_available_spec)

theorem variables_available_exact_witness:
  "\<exists>S. variables_available_at rev sample_graph ''t'' True = Some (Inr S) \<and>
    ((succ sample_graph)\<^sup>*\<^sup>* (g_start_id sample_graph) ''t'' \<longrightarrow>
       S = {v. \<not> uncaptured sample_graph v ''t''} \<union> (if True then declared_by sample_graph ''t'' else {})) \<and>
    (\<not> (succ sample_graph)\<^sup>*\<^sup>* (g_start_id sample_graph) ''t'' \<longrightarrow> S = {})"
  by (rule variables_available_exact) (simp_all add: sample_graph_wf)

section \<open>The warnings\<close>

text \<open>What a call has at hand when it enters a step: the call's own variables, those the caller of
  the analysis declares, and what every path has captured.\<close>

definition always_known :: "string list \<Rightarrow> string set" where
  "always_known known = set CALL_CONTEXT_VARIABLES \<union> set known"

text \<open>The texts of a step that are spoken or sent while the call is in it.\<close>

definition entry_texts :: "node \<Rightarrow> string list" where
  "entry_texts n = [n_prompt n, case n_greeting n of Some t \<Rightarrow> t | None \<Rightarrow> []]"

definition exit_texts :: "node \<Rightarrow> string list" where
  "exit_texts n = map (\<lambda>e. case e_speech e of Some t \<Rightarrow> t | None \<Rightarrow> []) (n_out_edges n)"

lemma finite_template_variables: "finite (template_variables txt)"
  by (simp add: template_variables_def)

lemma warn_templates_Nil:
  "warn_templates kind i f txt available declared nm always = [] \<longleftrightarrow>
     malformed_templates txt = [] \<and> template_variables txt \<subseteq> available"
  by (auto simp: warn_templates_def finite_template_variables)

lemma step_warnings_Nil:
  "step_warnings g on_entry on_leave declared n = [] \<longleftrightarrow>
     (\<forall>t \<in> set (entry_texts n). malformed_templates t = [] \<and> template_variables t \<subseteq> on_entry) \<and>
     (\<forall>t \<in> set (exit_texts n). malformed_templates t = [] \<and> template_variables t \<subseteq> on_leave)"
  by (auto simp: step_warnings_def warn_templates_Nil entry_texts_def exit_texts_def)

text \<open>A step of which nothing is reported.\<close>

definition step_clean :: "graph \<Rightarrow> string set \<Rightarrow> node \<Rightarrow> bool" where
  "step_clean g always n \<longleftrightarrow>
     (if n_is_unwired n
      then malformed_templates (n_prompt n) = [] \<and> template_variables (n_prompt n) \<subseteq> always
      else (succ g)\<^sup>*\<^sup>* (g_start_id g) (n_id n) \<and>
        (\<forall>t \<in> set (entry_texts n). malformed_templates t = [] \<and>
           (\<forall>v \<in> template_variables t - always. \<not> uncaptured g v (n_id n))) \<and>
        (\<forall>t \<in> set (exit_texts n). malformed_templates t = [] \<and>
           (\<forall>v \<in> template_variables t - always.
              \<not> uncaptured g v (n_id n) \<or> v \<in> declared_by g (n_id n))))"

lemma warn_nodes_spec:
  assumes wf: "wf_graph g" and order: "\<And>xs. set (order xs) = set xs"
    and reach: "\<forall>i. i \<in> set reach \<longleftrightarrow> (succ g)\<^sup>*\<^sup>* (g_start_id g) i"
  shows "\<exists>ws. warn_nodes order g reach always declared ns = Some (Inr ws) \<and>
           (ws = [] \<longleftrightarrow> (\<forall>n \<in> set ns. step_clean g always n))"
proof (induction ns)
  case Nil
  then show ?case by simp
next
  case (Cons n ns)
  then obtain rest where rest: "warn_nodes order g reach always declared ns = Some (Inr rest)"
    "rest = [] \<longleftrightarrow> (\<forall>n \<in> set ns. step_clean g always n)" by blast
  consider "n_is_unwired n" | "\<not> n_is_unwired n" "n_id n \<notin> set reach"
    | "\<not> n_is_unwired n" "n_id n \<in> set reach" by blast
  then show ?case
  proof cases
    case 1
    then show ?thesis using rest by (auto simp: step_clean_def warn_templates_Nil)
  next
    case 2
    then show ?thesis using rest reach by (auto simp: step_clean_def)
  next
    case 3
    let ?A = "{v. \<not> uncaptured g v (n_id n)}"
    have r: "(succ g)\<^sup>*\<^sup>* (g_start_id g) (n_id n)" using 3 reach by blast
    have a: "variables_available_at order g (n_id n) False = Some (Inr ?A)"
      "variables_available_at order g (n_id n) True = Some (Inr (?A \<union> declared_by g (n_id n)))"
      using variables_available_spec [OF wf order, of "n_id n" False]
        variables_available_spec [OF wf order, of "n_id n" True] r by auto
    have "step_warnings g (always \<union> ?A) (always \<union> (?A \<union> declared_by g (n_id n))) declared n = []
        \<longleftrightarrow> step_clean g always n"
      unfolding step_warnings_Nil step_clean_def using 3(1) r by auto
    then show ?thesis using 3 rest a by simp
  qed
qed

lemma graph_warnings_spec:
  assumes wf: "wf_graph g" and order: "\<And>xs. set (order xs) = set xs"
  shows "\<exists>ws. graph_warnings order g known = Some (Inr ws) \<and>
           (ws = [] \<longleftrightarrow> (\<forall>n \<in> set (g_node_list g). step_clean g (always_known known) n))"
proof -
  obtain reach where r: "reachable g = Inr reach" "\<forall>i. i \<in> set reach \<longleftrightarrow> (succ g)\<^sup>*\<^sup>* (g_start_id g) i"
    using reachable_spec [OF wf] by blast
  show ?thesis
    unfolding graph_warnings_def always_known_def r(1)
    using warn_nodes_spec [OF wf order r(2)] by simp
qed

text \<open>
  The editor's warnings are complete and sound: on a well-formed graph the check ends, and it
  reports nothing exactly when no text holds a malformed placeholder, the always-on step uses only
  variables every call has, every wired step can be reached, its prompt and greeting use only
  variables every path to it has captured, and the speech of its exits only those or the ones the
  step itself captures.
\<close>

theorem graph_warnings_exact:
  assumes "wf_graph g" and "\<And>xs. set (order xs) = set xs"
  shows "\<exists>ws. graph_warnings order g known = Some (Inr ws) \<and>
           (ws = [] \<longleftrightarrow> (\<forall>n \<in> set (g_node_list g). step_clean g (always_known known) n))"
  using assms by (rule graph_warnings_spec)

theorem graph_warnings_exact_witness:
  "\<exists>ws. graph_warnings rev sample_graph [''order_id''] = Some (Inr ws) \<and>
     (ws = [] \<longleftrightarrow>
        (\<forall>n \<in> set (g_node_list sample_graph). step_clean sample_graph (always_known [''order_id'']) n))"
  by (rule graph_warnings_exact) (simp_all add: sample_graph_wf)

end
