(* ===== verification/Accounts.thy ===== *)
theory Accounts
  imports Py_Values
begin

text \<open>
  Accounts and invitations of the configuration service (\<^verbatim>\<open>services/config/invites.py\<close>,
  \<^verbatim>\<open>users.py\<close>, \<^verbatim>\<open>auth.py\<close>, \<^verbatim>\<open>deps.py\<close> and their routers), over the tables of
  \<^verbatim>\<open>database/schema.sql\<close>.

  Identifiers (UUIDs) are numbers. SHA-256 and bcrypt are parameters: the hash of a token, the hash of
  a password and its verification. A function of the source that runs in one transaction is one
  function from the tables to an error or new tables: an exception rolls the transaction back. The
  clock of Python and \<^verbatim>\<open>now()\<close> of the database, the start of the transaction, are separate arguments
  where both matter. A signed token stands for the claims it carries; \<open>ac_issued\<close> are the claims that
  were signed, with their expiry.
\<close>

section \<open>Tables\<close>

datatype user_role = SUPERADMIN | ADMIN | SUPERVISOR | AGENT | VIEWER

datatype invite_status = INV_PENDING | INV_ACCEPTED | INV_REVOKED

record user_row =
  u_email :: string
  u_password_hash :: string
  u_role :: user_role
  u_tenant :: "nat option"
  u_team :: "string option"
  u_service_account :: bool
  u_deleted :: bool

record invite_row =
  i_tenant :: "nat option"
  i_email :: string
  i_role :: user_role
  i_team :: "string option"
  i_token_hash :: string
  i_status :: invite_status
  i_expires_at :: rat
  i_invited_by :: "nat option"
  i_accepted_at :: "rat option"
  i_accepted_user :: "nat option"
  i_last_sent_at :: "rat option"

record tenant_row =
  t_slug :: string
  t_name :: string
  t_deleted :: bool

record audit_row =
  au_entity_type :: string
  au_entity_id :: nat
  au_action :: string
  au_user_id :: "nat option"
  au_user_email :: "string option"

record claims =
  a_id :: nat
  a_email :: string
  a_role :: user_role
  a_tenant :: "nat option"
  a_service_account :: bool

record accounts =
  ac_users :: "(nat, user_row) odict"
  ac_invites :: "(nat, invite_row) odict"
  ac_tenants :: "(nat, tenant_row) odict"
  ac_audit :: "audit_row list"
  ac_issued :: "(claims \<times> rat) list"
  ac_next_id :: nat

datatype acc_error =
    PermissionDenied
  | EmailConflict "string option"
  | PendingInviteConflict
  | NotFound
  | InviteNotPending
  | ResendCooldown int
  | InviteRevoked
  | InviteUsed
  | InviteExpired
  | InviteContextGone
  | EmailTaken
  | ServiceAccountLocked
  | NothingToUpdate
  | Unauthorized
  | Forbidden
  | SetupCompleted
  | WrongPassword
  | DbError

definition INVITE_TTL :: rat where
  "INVITE_TTL = 7 * 24 * 3600"

definition RESEND_COOLDOWN_SECONDS :: rat where
  "RESEND_COOLDOWN_SECONDS = 60"

definition ACCESS_TOKEN_TTL :: rat where
  "ACCESS_TOKEN_TTL = 12 * 3600"

definition CONSOLE_ROLES :: "user_role list" where
  "CONSOLE_ROLES = [SUPERADMIN, ADMIN, VIEWER]"

section \<open>Identity\<close>

definition issue_token :: "rat \<Rightarrow> nat \<Rightarrow> user_row \<Rightarrow> accounts \<Rightarrow> accounts" where
  "issue_token now uid u db =
     db\<lparr>ac_issued := ac_issued db @
         [(\<lparr>a_id = uid, a_email = u_email u, a_role = u_role u, a_tenant = u_tenant u,
            a_service_account = u_service_account u\<rparr>, now + ACCESS_TOKEN_TTL)]\<rparr>"

text \<open>\<^verbatim>\<open>get_authenticated_user\<close>, \<^verbatim>\<open>get_current_user\<close>, \<^verbatim>\<open>require_role\<close>: the claims, not the table.\<close>

definition authenticated :: "rat \<Rightarrow> claims \<Rightarrow> accounts \<Rightarrow> bool" where
  "authenticated now a db \<longleftrightarrow> list_ex (\<lambda>(c, expiry). c = a \<and> now < expiry) (ac_issued db)"

definition require_role :: "user_role list \<Rightarrow> rat \<Rightarrow> claims \<Rightarrow> accounts \<Rightarrow> acc_error option" where
  "require_role allowed now a db =
     (if \<not> authenticated now a db then Some Unauthorized
      else if a_role a \<notin> set CONSOLE_ROLES then Some Forbidden
      else if a_role a \<notin> set allowed then Some Forbidden
      else None)"

definition is_platform_scoped :: "claims \<Rightarrow> bool" where
  "is_platform_scoped a \<longleftrightarrow> a_tenant a = None"

section \<open>Users\<close>

definition live_email :: "string \<Rightarrow> nat \<times> user_row \<Rightarrow> bool" where
  "live_email email p \<longleftrightarrow> py_lower (u_email (snd p)) = py_lower email \<and> \<not> u_deleted (snd p)"

definition get_user_by_email :: "string \<Rightarrow> accounts \<Rightarrow> (nat \<times> user_row) option" where
  "get_user_by_email email db = find (live_email email) (ac_users db)"

definition get_user_by_id :: "nat \<Rightarrow> accounts \<Rightarrow> user_row option" where
  "get_user_by_id uid db =
     (case od_get (ac_users db) uid of Some u \<Rightarrow> if u_deleted u then None else Some u | None \<Rightarrow> None)"

definition audit :: "string \<Rightarrow> nat \<Rightarrow> string \<Rightarrow> nat option \<Rightarrow> string option \<Rightarrow> accounts \<Rightarrow> accounts" where
  "audit entity eid action uid email db =
     db\<lparr>ac_audit := ac_audit db @ [\<lparr>au_entity_type = entity, au_entity_id = eid, au_action = action,
          au_user_id = uid, au_user_email = email\<rparr>]\<rparr>"

definition tenant_known :: "nat option \<Rightarrow> accounts \<Rightarrow> bool" where
  "tenant_known t db = (case t of None \<Rightarrow> True | Some k \<Rightarrow> od_get (ac_tenants db) k \<noteq> None)"

text \<open>\<^verbatim>\<open>_insert_user\<close>: \<open>None\<close> is a violated constraint, the email of a live account or a missing tenant.\<close>

definition insert_user ::
  "(string \<Rightarrow> string) \<Rightarrow> string \<Rightarrow> string \<Rightarrow> user_role \<Rightarrow> nat option \<Rightarrow> nat option \<Rightarrow> string option \<Rightarrow> string option
     \<Rightarrow> accounts \<Rightarrow> (nat \<times> accounts) option"
where
  "insert_user bc email password role tenant creator creator_email team db =
     (if list_ex (live_email email) (ac_users db) \<or> \<not> tenant_known tenant db then None
      else
        let uid = ac_next_id db;
            u = \<lparr>u_email = py_lower email, u_password_hash = bc password, u_role = role, u_tenant = tenant,
                 u_team = team, u_service_account = False, u_deleted = False\<rparr>
        in Some (uid, audit ''user'' uid ''created'' creator creator_email
                  (db\<lparr>ac_users := ac_users db @ [(uid, u)], ac_next_id := Suc uid\<rparr>)))"

definition superadmin_exists :: "accounts \<Rightarrow> bool" where
  "superadmin_exists db \<longleftrightarrow> list_ex (\<lambda>(i, u). u_role u = SUPERADMIN \<and> \<not> u_deleted u) (ac_users db)"

definition bootstrap :: "(string \<Rightarrow> string) \<Rightarrow> rat \<Rightarrow> string \<Rightarrow> string \<Rightarrow> accounts \<Rightarrow> acc_error + accounts" where
  "bootstrap bc now email password db =
     (if superadmin_exists db then Inl SetupCompleted
      else case insert_user bc email password SUPERADMIN None None (Some email) None db of
             None \<Rightarrow> Inl (EmailConflict None)
           | Some (uid, db1) \<Rightarrow>
               (case od_get (ac_users db1) uid of
                  Some u \<Rightarrow> Inr (issue_token now uid u db1)
                | None \<Rightarrow> Inr db1))"

definition login :: "(string \<Rightarrow> string \<Rightarrow> bool) \<Rightarrow> rat \<Rightarrow> string \<Rightarrow> string \<Rightarrow> accounts \<Rightarrow> acc_error + accounts" where
  "login vf now email password db =
     (case get_user_by_email email db of
        None \<Rightarrow> Inl Unauthorized
      | Some (uid, u) \<Rightarrow>
          if vf password (u_password_hash u) then Inr (issue_token now uid u db) else Inl Unauthorized)"

text \<open>\<^verbatim>\<open>PATCH /users/{id}\<close>: only the given fields change; the row may be a deleted one.\<close>

definition update_user ::
  "(string \<Rightarrow> string) \<Rightarrow> rat \<Rightarrow> nat \<Rightarrow> user_role option \<Rightarrow> nat option option \<Rightarrow> string option \<Rightarrow> claims
     \<Rightarrow> accounts \<Rightarrow> acc_error + accounts"
where
  "update_user bc now uid role tenant password actor db =
     (case require_role [SUPERADMIN] now actor db of
        Some e \<Rightarrow> Inl e
      | None \<Rightarrow>
          if role = None \<and> tenant = None \<and> password = None then Inl NothingToUpdate
          else case od_get (ac_users db) uid of
                 None \<Rightarrow> Inl NotFound
               | Some u \<Rightarrow>
                   if u_service_account u then Inl ServiceAccountLocked
                   else if (case tenant of Some t \<Rightarrow> \<not> tenant_known t db | None \<Rightarrow> False) then Inl DbError
                   else
                     let u1 = u\<lparr>u_role := (case role of Some r \<Rightarrow> r | None \<Rightarrow> u_role u),
                                u_tenant := (case tenant of Some t \<Rightarrow> t | None \<Rightarrow> u_tenant u),
                                u_password_hash := (case password of Some p \<Rightarrow> bc p | None \<Rightarrow> u_password_hash u)\<rparr>
                     in Inr (audit ''user'' uid ''updated'' (Some (a_id actor)) (Some (a_email actor))
                              (db\<lparr>ac_users := od_set uid u1 (ac_users db)\<rparr>)))"

definition change_password ::
  "(string \<Rightarrow> string) \<Rightarrow> (string \<Rightarrow> string \<Rightarrow> bool) \<Rightarrow> rat \<Rightarrow> string \<Rightarrow> string \<Rightarrow> claims \<Rightarrow> accounts \<Rightarrow> acc_error + accounts"
where
  "change_password bc vf now current password actor db =
     (if \<not> authenticated now actor db then Inl Unauthorized
      else case od_get (ac_users db) (a_id actor) of
             None \<Rightarrow> Inl NotFound
           | Some u \<Rightarrow>
               if \<not> vf current (u_password_hash u) then Inl WrongPassword
               else Inr (audit ''user'' (a_id actor) ''updated'' (Some (a_id actor)) (Some (u_email u))
                          (db\<lparr>ac_users := od_set (a_id actor) (u\<lparr>u_password_hash := bc password\<rparr>) (ac_users db)\<rparr>)))"

definition delete_user :: "rat \<Rightarrow> nat \<Rightarrow> claims \<Rightarrow> accounts \<Rightarrow> acc_error + accounts" where
  "delete_user now uid actor db =
     (case require_role [SUPERADMIN] now actor db of
        Some e \<Rightarrow> Inl e
      | None \<Rightarrow>
          (case od_get (ac_users db) uid of
             None \<Rightarrow> Inl NotFound
           | Some u \<Rightarrow>
               if u_service_account u then Inl ServiceAccountLocked
               else Inr (audit ''user'' uid ''deleted'' (Some (a_id actor)) (Some (a_email actor))
                          (db\<lparr>ac_users := od_set uid (u\<lparr>u_deleted := True\<rparr>) (ac_users db)\<rparr>))))"

definition list_users :: "nat option \<Rightarrow> bool \<Rightarrow> accounts \<Rightarrow> (nat \<times> user_row) list" where
  "list_users tenant platform_scoped db =
     filter (\<lambda>(i, u). \<not> u_deleted u \<and> \<not> u_service_account u \<and>
               (if platform_scoped \<and> tenant = None then True
                else if platform_scoped then u_tenant u = tenant
                else u_tenant u = tenant \<and> u_role u \<noteq> SUPERADMIN)) (ac_users db)"

definition list_users_route :: "rat \<Rightarrow> nat option \<Rightarrow> claims \<Rightarrow> accounts \<Rightarrow> acc_error + (nat \<times> user_row) list" where
  "list_users_route now tenant actor db =
     (case require_role CONSOLE_ROLES now actor db of
        Some e \<Rightarrow> Inl e
      | None \<Rightarrow>
          let scoped = (is_platform_scoped actor \<and> a_role actor = SUPERADMIN)
          in Inr (list_users (if scoped then tenant else a_tenant actor) scoped db))"

section \<open>Invitations\<close>

definition may_invite :: "user_role \<Rightarrow> nat option \<Rightarrow> user_role \<Rightarrow> nat option \<Rightarrow> bool" where
  "may_invite actor_role actor_tenant target_role target_tenant =
     (if actor_role = SUPERADMIN then True
      else if actor_role = ADMIN
           then (if target_role = SUPERADMIN then False
                 else if actor_tenant = None then False
                 else actor_tenant = target_tenant)
      else False)"

definition conflict_tenant_name :: "nat option \<Rightarrow> claims \<Rightarrow> accounts \<Rightarrow> string option" where
  "conflict_tenant_name tenant actor db =
     (if a_role actor \<noteq> SUPERADMIN then None
      else case tenant of
             None \<Rightarrow> Some ''platform''
           | Some t \<Rightarrow> (case od_get (ac_tenants db) t of
                          Some r \<Rightarrow> if t_deleted r then None else Some (t_slug r)
                        | None \<Rightarrow> None))"

definition in_slot :: "nat option \<Rightarrow> string \<Rightarrow> nat \<times> invite_row \<Rightarrow> bool" where
  "in_slot tenant email p \<longleftrightarrow>
     i_status (snd p) = INV_PENDING \<and> i_tenant (snd p) = tenant \<and> py_lower (i_email (snd p)) = py_lower email"

text \<open>The transaction of \<^verbatim>\<open>create_invite\<close>: an expired invitation that the actor could revoke frees its slot.\<close>

definition reclaim_slot :: "rat \<Rightarrow> nat option \<Rightarrow> string \<Rightarrow> claims \<Rightarrow> accounts \<Rightarrow> accounts" where
  "reclaim_slot now tenant email actor db =
     (case find (in_slot tenant email) (ac_invites db) of
        None \<Rightarrow> db
      | Some (i, r) \<Rightarrow>
          if i_expires_at r \<le> now \<and> may_invite (a_role actor) (a_tenant actor) (i_role r) (i_tenant r)
          then audit ''invite'' i ''updated'' (Some (a_id actor)) (Some (a_email actor))
                 (db\<lparr>ac_invites := od_set i (r\<lparr>i_status := INV_REVOKED\<rparr>) (ac_invites db)\<rparr>)
          else db)"

definition token_used :: "string \<Rightarrow> accounts \<Rightarrow> bool" where
  "token_used h db \<longleftrightarrow> list_ex (\<lambda>(i, r). i_token_hash r = h) (ac_invites db)"

definition insert_invite ::
  "string \<Rightarrow> rat \<Rightarrow> string \<Rightarrow> user_role \<Rightarrow> nat option \<Rightarrow> string option \<Rightarrow> claims \<Rightarrow> accounts \<Rightarrow> acc_error + accounts"
where
  "insert_invite h tx email role tenant team actor db =
     (if list_ex (in_slot tenant email) (ac_invites db) \<or> token_used h db then Inl PendingInviteConflict
      else if \<not> tenant_known tenant db \<or> od_get (ac_users db) (a_id actor) = None then Inl DbError
      else
        let i = ac_next_id db;
            r = \<lparr>i_tenant = tenant, i_email = email, i_role = role, i_team = team, i_token_hash = h,
                 i_status = INV_PENDING, i_expires_at = tx + INVITE_TTL, i_invited_by = Some (a_id actor),
                 i_accepted_at = None, i_accepted_user = None, i_last_sent_at = Some tx\<rparr>
        in Inr (audit ''invite'' i ''created'' (Some (a_id actor)) (Some (a_email actor))
                  (db\<lparr>ac_invites := ac_invites db @ [(i, r)], ac_next_id := Suc i\<rparr>)))"

definition create_tx ::
  "(string \<Rightarrow> string) \<Rightarrow> string \<Rightarrow> rat \<Rightarrow> rat \<Rightarrow> string \<Rightarrow> user_role \<Rightarrow> nat option \<Rightarrow> string option \<Rightarrow> claims
     \<Rightarrow> accounts \<Rightarrow> acc_error + accounts"
where
  "create_tx sha raw now tx email role tenant team actor db =
     insert_invite (sha raw) tx (py_lower email) role tenant team actor
       (reclaim_slot now tenant (py_lower email) actor db)"

definition create_checks :: "rat \<Rightarrow> string \<Rightarrow> user_role \<Rightarrow> nat option \<Rightarrow> claims \<Rightarrow> accounts \<Rightarrow> acc_error option" where
  "create_checks now email role tenant actor db =
     (case require_role [SUPERADMIN, ADMIN] now actor db of
        Some e \<Rightarrow> Some e
      | None \<Rightarrow>
          if \<not> may_invite (a_role actor) (a_tenant actor) role tenant then Some PermissionDenied
          else case get_user_by_email (py_lower email) db of
                 Some (i, u) \<Rightarrow> Some (EmailConflict (conflict_tenant_name (u_tenant u) actor db))
               | None \<Rightarrow> None)"

definition create_invite ::
  "(string \<Rightarrow> string) \<Rightarrow> string \<Rightarrow> rat \<Rightarrow> rat \<Rightarrow> string \<Rightarrow> user_role \<Rightarrow> nat option \<Rightarrow> string option \<Rightarrow> claims
     \<Rightarrow> accounts \<Rightarrow> acc_error + accounts"
where
  "create_invite sha raw now tx email role tenant team actor db =
     (case create_checks now email role tenant actor db of
        Some e \<Rightarrow> Inl e
      | None \<Rightarrow> create_tx sha raw now tx email role tenant team actor db)"

text \<open>What \<^verbatim>\<open>resend_invite\<close> and \<^verbatim>\<open>revoke_invite\<close> check first.\<close>

definition manageable :: "rat \<Rightarrow> nat \<Rightarrow> claims \<Rightarrow> accounts \<Rightarrow> acc_error + invite_row" where
  "manageable now i actor db =
     (case require_role [SUPERADMIN, ADMIN] now actor db of
        Some e \<Rightarrow> Inl e
      | None \<Rightarrow>
          (case od_get (ac_invites db) i of
             None \<Rightarrow> Inl NotFound
           | Some r \<Rightarrow>
               if \<not> may_invite (a_role actor) (a_tenant actor) (i_role r) (i_tenant r) then Inl PermissionDenied
               else if i_status r \<noteq> INV_PENDING then Inl InviteNotPending
               else Inr r))"

definition cooldown_left :: "rat \<Rightarrow> invite_row \<Rightarrow> int option" where
  "cooldown_left now r =
     (case i_last_sent_at r of
        Some t \<Rightarrow> if now - t < RESEND_COOLDOWN_SECONDS
                  then Some (trunc_rat (RESEND_COOLDOWN_SECONDS - (now - t)) + 1) else None
      | None \<Rightarrow> None)"

definition resend_invite ::
  "(string \<Rightarrow> string) \<Rightarrow> string \<Rightarrow> rat \<Rightarrow> rat \<Rightarrow> nat \<Rightarrow> claims \<Rightarrow> accounts \<Rightarrow> acc_error + accounts"
where
  "resend_invite sha raw now tx i actor db =
     (case manageable now i actor db of
        Inl e \<Rightarrow> Inl e
      | Inr r \<Rightarrow>
          (case cooldown_left now r of
             Some seconds \<Rightarrow> Inl (ResendCooldown seconds)
           | None \<Rightarrow>
               if token_used (sha raw) db then Inl DbError
               else Inr (audit ''invite'' i ''updated'' (Some (a_id actor)) (Some (a_email actor))
                          (db\<lparr>ac_invites := od_set i (r\<lparr>i_token_hash := sha raw, i_last_sent_at := Some tx,
                                                         i_expires_at := tx + INVITE_TTL\<rparr>) (ac_invites db)\<rparr>))))"

definition revoke_invite :: "rat \<Rightarrow> nat \<Rightarrow> claims \<Rightarrow> accounts \<Rightarrow> acc_error + accounts" where
  "revoke_invite now i actor db =
     (case manageable now i actor db of
        Inl e \<Rightarrow> Inl e
      | Inr r \<Rightarrow>
          Inr (audit ''invite'' i ''updated'' (Some (a_id actor)) (Some (a_email actor))
                (db\<lparr>ac_invites := od_set i (r\<lparr>i_status := INV_REVOKED\<rparr>) (ac_invites db)\<rparr>)))"

text \<open>\<^verbatim>\<open>_check_context_live\<close>: the tenant and the inviter as they are now.\<close>

definition context_live :: "invite_row \<Rightarrow> accounts \<Rightarrow> bool" where
  "context_live r db \<longleftrightarrow>
     (case i_tenant r of
        Some t \<Rightarrow> (case od_get (ac_tenants db) t of Some tr \<Rightarrow> \<not> t_deleted tr | None \<Rightarrow> False)
      | None \<Rightarrow> True) \<and>
     (case i_invited_by r of
        Some b \<Rightarrow> (case get_user_by_id b db of
                     Some u \<Rightarrow> may_invite (u_role u) (u_tenant u) (i_role r) (i_tenant r)
                   | None \<Rightarrow> False)
      | None \<Rightarrow> False)"

definition invite_by_token :: "(string \<Rightarrow> string) \<Rightarrow> string \<Rightarrow> accounts \<Rightarrow> (nat \<times> invite_row) option" where
  "invite_by_token sha raw db = find (\<lambda>(i, r). i_token_hash r = sha raw) (ac_invites db)"

definition classify :: "rat \<Rightarrow> invite_row \<Rightarrow> accounts \<Rightarrow> acc_error option" where
  "classify now r db =
     (if i_status r = INV_REVOKED then Some InviteRevoked
      else if i_status r = INV_ACCEPTED then Some InviteUsed
      else if i_expires_at r < now then Some InviteExpired
      else if \<not> context_live r db then Some InviteContextGone
      else None)"

definition accept_invite ::
  "(string \<Rightarrow> string) \<Rightarrow> (string \<Rightarrow> string) \<Rightarrow> rat \<Rightarrow> rat \<Rightarrow> string \<Rightarrow> string \<Rightarrow> accounts \<Rightarrow> acc_error + nat \<times> accounts"
where
  "accept_invite sha bc now tx raw password db =
     (case invite_by_token sha raw db of
        None \<Rightarrow> Inl NotFound
      | Some (i, r) \<Rightarrow>
          (case classify now r db of
             Some e \<Rightarrow> Inl e
           | None \<Rightarrow>
               if i_expires_at r \<le> tx then Inl InviteUsed
               else case insert_user bc (i_email r) password (i_role r) (i_tenant r) None (Some (i_email r)) (i_team r) db of
                      None \<Rightarrow> Inl EmailTaken
                    | Some (uid, db1) \<Rightarrow>
                        Inr (uid, audit ''invite'' i ''updated'' (Some uid) (Some (py_lower (i_email r)))
                          (db1\<lparr>ac_invites := od_set i (r\<lparr>i_status := INV_ACCEPTED, i_accepted_at := Some tx,
                                                           i_accepted_user := Some uid\<rparr>) (ac_invites db1)\<rparr>))))"

definition get_invite_for_accept ::
  "(string \<Rightarrow> string) \<Rightarrow> rat \<Rightarrow> string \<Rightarrow> accounts \<Rightarrow> acc_error + string \<times> string \<times> user_role"
where
  "get_invite_for_accept sha now raw db =
     (case invite_by_token sha raw db of
        None \<Rightarrow> Inl NotFound
      | Some (i, r) \<Rightarrow>
          (case classify now r db of
             Some e \<Rightarrow> Inl e
           | None \<Rightarrow>
               Inr (i_email r,
                    (case i_tenant r of
                       Some t \<Rightarrow> (case od_get (ac_tenants db) t of
                                    Some tr \<Rightarrow> if t_deleted tr then ''platform'' else t_name tr
                                  | None \<Rightarrow> ''platform'')
                     | None \<Rightarrow> ''platform''),
                    i_role r)))"

definition list_invites :: "nat option \<Rightarrow> bool \<Rightarrow> accounts \<Rightarrow> (nat \<times> invite_row) list" where
  "list_invites tenant superadmin db =
     (if superadmin \<and> tenant = None then ac_invites db else filter (\<lambda>(i, r). i_tenant r = tenant) (ac_invites db))"

definition list_invites_route :: "rat \<Rightarrow> nat option \<Rightarrow> claims \<Rightarrow> accounts \<Rightarrow> acc_error + (nat \<times> invite_row) list" where
  "list_invites_route now tenant actor db =
     (case require_role [SUPERADMIN, ADMIN] now actor db of
        Some e \<Rightarrow> Inl e
      | None \<Rightarrow>
          let scoped = (is_platform_scoped actor \<and> a_role actor = SUPERADMIN)
          in Inr (list_invites (if scoped then tenant else a_tenant actor) scoped db))"

definition delete_tenant :: "nat \<Rightarrow> accounts \<Rightarrow> acc_error + accounts" where
  "delete_tenant t db =
     (case od_get (ac_tenants db) t of
        None \<Rightarrow> Inl NotFound
      | Some r \<Rightarrow> Inr (audit ''tenant'' t ''deleted'' None None
                         (db\<lparr>ac_tenants := od_set t (r\<lparr>t_deleted := True\<rparr>) (ac_tenants db)\<rparr>)))"

section \<open>Requests\<close>

text \<open>
  A request that fails changes nothing. \<open>CreateInvite\<close> is the transaction alone: the checks that precede
  it ran at an earlier moment, of which only the claims and the privilege check are left, the account
  that the check of the email did not find may exist by now.
\<close>

datatype acc_event =
    Bootstrap rat string string
  | Login rat string string
  | UpdateUser rat nat "user_role option" "nat option option" "string option" claims
  | ChangePassword rat string string claims
  | DeleteUser rat nat claims
  | DeleteTenant nat
  | CreateInvite string rat rat string user_role "nat option" "string option" claims
  | ResendInvite string rat rat nat claims
  | RevokeInvite rat nat claims
  | AcceptInvite rat rat string string

definition commit :: "accounts \<Rightarrow> acc_error + accounts \<Rightarrow> accounts" where
  "commit db res = (case res of Inl e \<Rightarrow> db | Inr db' \<Rightarrow> db')"

fun acc_step ::
  "(string \<Rightarrow> string) \<Rightarrow> (string \<Rightarrow> string) \<Rightarrow> (string \<Rightarrow> string \<Rightarrow> bool) \<Rightarrow> acc_event \<Rightarrow> accounts \<Rightarrow> accounts"
where
  "acc_step sha bc vf (Bootstrap now email password) db = commit db (bootstrap bc now email password db)"
| "acc_step sha bc vf (Login now email password) db = commit db (login vf now email password db)"
| "acc_step sha bc vf (UpdateUser now uid role tenant password actor) db =
     commit db (update_user bc now uid role tenant password actor db)"
| "acc_step sha bc vf (ChangePassword now current password actor) db =
     commit db (change_password bc vf now current password actor db)"
| "acc_step sha bc vf (DeleteUser now uid actor) db = commit db (delete_user now uid actor db)"
| "acc_step sha bc vf (DeleteTenant t) db = commit db (delete_tenant t db)"
| "acc_step sha bc vf (CreateInvite raw now tx email role tenant team actor) db =
     (if may_invite (a_role actor) (a_tenant actor) role tenant
      then commit db (create_tx sha raw now tx email role tenant team actor db) else db)"
| "acc_step sha bc vf (ResendInvite raw now tx i actor) db = commit db (resend_invite sha raw now tx i actor db)"
| "acc_step sha bc vf (RevokeInvite now i actor) db = commit db (revoke_invite now i actor db)"
| "acc_step sha bc vf (AcceptInvite now tx raw password) db =
     (case accept_invite sha bc now tx raw password db of Inl e \<Rightarrow> db | Inr (uid, db') \<Rightarrow> db')"

definition acc_init :: accounts where
  "acc_init = \<lparr>ac_users = [], ac_invites = [], ac_tenants = [], ac_audit = [], ac_issued = [], ac_next_id = 0\<rparr>"

section \<open>No escalation\<close>

definition live_users :: "accounts \<Rightarrow> (nat \<times> user_row) list" where
  "live_users db = filter (\<lambda>(i, u). \<not> u_deleted u) (ac_users db)"



lemma audit_simps [simp]:
  "ac_users (audit e i a x y db) = ac_users db" "ac_invites (audit e i a x y db) = ac_invites db"
  "ac_tenants (audit e i a x y db) = ac_tenants db" "ac_issued (audit e i a x y db) = ac_issued db"
  "ac_next_id (audit e i a x y db) = ac_next_id db"
  by (simp_all add: audit_def)

lemma issue_simps [simp]: "ac_users (issue_token now uid u db) = ac_users db"
  by (simp add: issue_token_def)

lemma reclaim_users [simp]: "ac_users (reclaim_slot now tenant email actor db) = ac_users db"
  by (auto simp: reclaim_slot_def split: option.split)





lemma accept_parts:
  assumes "accept_invite sha bc now tx raw password db = Inr (uid, db')"
  obtains k r db1 where "invite_by_token sha raw db = Some (k, r)" "classify now r db = None" "tx < i_expires_at r"
    "insert_user bc (i_email r) password (i_role r) (i_tenant r) None (Some (i_email r)) (i_team r) db = Some (uid, db1)"
    "db' = audit ''invite'' k ''updated'' (Some uid) (Some (py_lower (i_email r)))
        (db1\<lparr>ac_invites := od_set k (r\<lparr>i_status := INV_ACCEPTED, i_accepted_at := Some tx, i_accepted_user := Some uid\<rparr>) (ac_invites db1)\<rparr>)"
  using assms by (auto simp: accept_invite_def split: option.splits if_splits)

lemma context_inviter:
  assumes "context_live r db"
  obtains j v where "(j, v) \<in> set (live_users db)" "i_invited_by r = Some j" "may_invite (u_role v) (u_tenant v) (i_role r) (i_tenant r)"
  using assms by (auto simp: context_live_def get_user_by_id_def live_users_def split: if_splits option.splits dest: od_get_SomeD)



section \<open>One account per invitation\<close>

definition slots :: "accounts \<Rightarrow> (nat option \<times> string) list" where
  "slots db = map (\<lambda>p. (i_tenant (snd p), py_lower (i_email (snd p))))
     (filter (\<lambda>p. i_status (snd p) = INV_PENDING) (ac_invites db))"

definition live_emails :: "accounts \<Rightarrow> string list" where
  "live_emails db = map (\<lambda>p. py_lower (u_email (snd p))) (filter (\<lambda>p. \<not> u_deleted (snd p)) (ac_users db))"

definition token_hashes :: "accounts \<Rightarrow> string list" where
  "token_hashes db = map (\<lambda>p. i_token_hash (snd p)) (ac_invites db)"

definition accepted_users :: "accounts \<Rightarrow> nat list" where
  "accepted_users db = map (\<lambda>p. the (i_accepted_user (snd p)))
     (filter (\<lambda>p. i_status (snd p) = INV_ACCEPTED) (ac_invites db))"

definition invite_ok :: "accounts \<Rightarrow> invite_row \<Rightarrow> bool" where
  "invite_ok db r \<longleftrightarrow>
     (i_status r = INV_ACCEPTED \<longleftrightarrow> i_accepted_user r \<noteq> None) \<and>
     (case i_accepted_user r of
        Some k \<Rightarrow> (case od_get (ac_users db) k of Some u \<Rightarrow> u_email u = py_lower (i_email r) | None \<Rightarrow> False)
      | None \<Rightarrow> True)"

definition users_inv :: "accounts \<Rightarrow> bool" where
  "users_inv db \<longleftrightarrow> od_ok (ac_users db) \<and> (\<forall>k \<in> set (od_keys (ac_users db)). k < ac_next_id db) \<and> distinct (live_emails db)"

definition invites_inv :: "accounts \<Rightarrow> bool" where
  "invites_inv db \<longleftrightarrow> od_ok (ac_invites db) \<and> (\<forall>k \<in> set (od_keys (ac_invites db)). k < ac_next_id db) \<and>
     distinct (slots db) \<and> distinct (token_hashes db) \<and> distinct (accepted_users db) \<and>
     (\<forall>p \<in> set (ac_invites db). invite_ok db (snd p))"

definition acc_inv :: "accounts \<Rightarrow> bool" where
  "acc_inv db \<longleftrightarrow> users_inv db \<and> invites_inv db"

lemma py_lower_idem [simp]: "py_lower (py_lower s) = py_lower s"
proof -
  have "py_lower_char (py_lower_char c) = py_lower_char c" for c
    by (auto simp: py_lower_char_def Let_def)
  then show ?thesis by (simp add: py_lower_def)
qed

lemma od_set_split:
  assumes "od_get d k = Some v"
  obtains xs ys where "d = xs @ (k, v) # ys" "od_set k w d = xs @ (k, w) # ys"
proof -
  have "\<exists>xs ys. d = xs @ (k, v) # ys \<and> od_set k w d = xs @ (k, w) # ys"
    using assms
  proof (induction d)
    case (Cons p d)
    obtain a b where p: "p = (a, b)" by fastforce
    show ?case
    proof (cases "a = k")
      case True
      then show ?thesis using Cons.prems p by (auto simp: od_get_def)
    next
      case False
      then obtain xs ys where "d = xs @ (k, v) # ys" "od_set k w d = xs @ (k, w) # ys"
        using Cons p by (auto simp: od_get_def)
      then have "p # d = (p # xs) @ (k, v) # ys" "od_set k w (p # d) = (p # xs) @ (k, w) # ys" using False p by simp_all
      then show ?thesis by blast
    qed
  qed (simp add: od_get_def)
  then show thesis using that by blast
qed

lemma distinct_replace:
  assumes "distinct (map f (filter P (xs @ a # ys)))"
    and "P b \<Longrightarrow> (P a \<and> f b = f a) \<or> f b \<notin> set (map f (filter P (xs @ a # ys)))"
  shows "distinct (map f (filter P (xs @ b # ys)))"
proof -
  define us vs where "us = map f (filter P xs)" and "vs = map f (filter P ys)"
  have d: "distinct (us @ (if P a then [f a] else []) @ vs)" using assms(1) by (cases "P a") (simp_all add: us_def vs_def)
  have n: "P b \<Longrightarrow> (P a \<and> f b = f a) \<or> f b \<notin> set us \<union> set vs" using assms(2) by (auto simp: us_def vs_def)
  have "distinct (us @ (if P b then [f b] else []) @ vs)" using d n by (auto split: if_splits)
  then show ?thesis by (simp add: us_def vs_def split: if_splits)
qed

lemma invite_ok_cong: "ac_users db' = ac_users db \<Longrightarrow> invite_ok db' r = invite_ok db r"
  by (auto simp: invite_ok_def split: option.splits)

text \<open>Changing one account, but for its email.\<close>

lemma users_update:
  assumes "acc_inv db" and "od_get (ac_users db) k = Some u" and "u_email w = u_email u" and "u_deleted u \<Longrightarrow> u_deleted w"
    and "ac_users db' = od_set k w (ac_users db)" and "ac_invites db' = ac_invites db" and "ac_next_id db' = ac_next_id db"
  shows "acc_inv db'"
proof -
  obtain xs ys where s: "ac_users db = xs @ (k, u) # ys" "ac_users db' = xs @ (k, w) # ys"
    using od_set_split [OF assms(2)] assms(5) by metis
  have "users_inv db'" using assms(1,3,4,7) by (auto simp: acc_inv_def users_inv_def live_emails_def s split: if_splits)
  moreover have "invite_ok db' r" if "invite_ok db r" for r
    using that assms(2,3,5) by (auto simp: invite_ok_def split: option.splits if_splits)
  ultimately show ?thesis using assms(1,6,7)
    by (auto simp: acc_inv_def invites_inv_def slots_def token_hashes_def accepted_users_def)
qed

lemma token_used_iff: "token_used h db \<longleftrightarrow> h \<in> set (token_hashes db)"
  by (force simp: token_used_def token_hashes_def list_ex_iff)

text \<open>Changing one invitation, within its slot.\<close>

lemma invites_update:
  assumes inv: "acc_inv db" and r: "od_get (ac_invites db) k = Some r" and e: "i_tenant w = i_tenant r" "i_email w = i_email r"
    and h: "i_token_hash w = i_token_hash r \<or> \<not> token_used (i_token_hash w) db"
    and p: "i_status w = INV_PENDING \<Longrightarrow> i_status r = INV_PENDING"
    and a: "i_status w = INV_ACCEPTED \<Longrightarrow> i_status r \<noteq> INV_ACCEPTED \<Longrightarrow> the (i_accepted_user w) \<notin> set (accepted_users db)"
    and a': "i_status r = INV_ACCEPTED \<Longrightarrow> i_status w = INV_ACCEPTED \<Longrightarrow> i_accepted_user w = i_accepted_user r"
    and ok: "invite_ok db w"
    and d: "ac_invites db' = od_set k w (ac_invites db)" "ac_users db' = ac_users db" "ac_next_id db' = ac_next_id db"
  shows "acc_inv db'"
proof -
  obtain xs ys where s: "ac_invites db = xs @ (k, r) # ys" "ac_invites db' = xs @ (k, w) # ys"
    using od_set_split [OF r] d(1) by metis
  have iv: "invites_inv db" using inv by (simp add: acc_inv_def)
  have iv': "distinct (slots db)" "distinct (token_hashes db)" "distinct (accepted_users db)"
    using iv by (simp_all add: invites_inv_def)
  have "distinct (slots db')" unfolding slots_def s(2)
    by (rule distinct_replace [OF iv'(1) [unfolded slots_def s(1)]]) (use e p in simp)
  moreover have "distinct (map (\<lambda>p. i_token_hash (snd p)) (filter (\<lambda>p. True) (xs @ (k, w) # ys)))"
    by (rule distinct_replace [where a = "(k, r)"])
      (use iv'(2) h in \<open>auto simp: token_hashes_def token_used_iff s(1)\<close>)
  moreover have "distinct (accepted_users db')" unfolding accepted_users_def s(2)
    by (rule distinct_replace [OF iv'(3) [unfolded accepted_users_def s(1)]])
      (use a a' in \<open>cases "i_status r = INV_ACCEPTED"; simp add: accepted_users_def s(1)\<close>)
  moreover have "\<forall>p \<in> set (ac_invites db'). invite_ok db' (snd p)"
    using iv ok by (auto simp: invites_inv_def invite_ok_cong [OF d(2)] s)
  moreover have "users_inv db'" using inv d(2,3) by (simp add: acc_inv_def users_inv_def live_emails_def)
  moreover have "od_ok (ac_invites db')" "\<forall>k \<in> set (od_keys (ac_invites db')). k < ac_next_id db'"
    using iv d(3) by (auto simp: invites_inv_def s)
  ultimately show ?thesis by (simp add: acc_inv_def invites_inv_def token_hashes_def s(2))
qed

lemma acc_frame:
  "acc_inv db \<Longrightarrow> ac_users db' = ac_users db \<Longrightarrow> ac_invites db' = ac_invites db \<Longrightarrow> ac_next_id db' = ac_next_id db \<Longrightarrow> acc_inv db'"
  by (simp add: acc_inv_def users_inv_def invites_inv_def live_emails_def slots_def token_hashes_def accepted_users_def
      invite_ok_cong [of db' db])

lemma insert_user_inv:
  assumes "acc_inv db" and "insert_user bc email password role tenant c ce team db = Some (uid, db')"
  shows "acc_inv db'" and "uid = ac_next_id db" and "ac_invites db' = ac_invites db"
    and "\<exists>u. od_get (ac_users db') uid = Some u \<and> u_email u = py_lower email"
proof -
  have free: "\<not> list_ex (live_email email) (ac_users db)" and uid: "uid = ac_next_id db"
    and d: "ac_users db' = ac_users db @ [(uid, \<lparr>u_email = py_lower email, u_password_hash = bc password, u_role = role,
        u_tenant = tenant, u_team = team, u_service_account = False, u_deleted = False\<rparr>)]"
      "ac_invites db' = ac_invites db" "ac_next_id db' = Suc uid"
    using assms(2) by (auto simp: insert_user_def Let_def split: if_splits)
  show "uid = ac_next_id db" "ac_invites db' = ac_invites db" by (rule uid, rule d(2))
  have new: "od_get (ac_users db) uid = None"
    using assms(1) uid by (auto simp: acc_inv_def users_inv_def od_get_None_iff)
  have get: "od_get (ac_users db') k = (if k = uid then Some \<lparr>u_email = py_lower email, u_password_hash = bc password, u_role = role,
        u_tenant = tenant, u_team = team, u_service_account = False, u_deleted = False\<rparr> else od_get (ac_users db) k)" for k
    using new by (auto simp: d(1) od_get_def map_add_def split: option.split)
  show "\<exists>u. od_get (ac_users db') uid = Some u \<and> u_email u = py_lower email" by (simp add: get)
  have "users_inv db'" using assms(1) free uid new
    by (auto simp: acc_inv_def users_inv_def d live_emails_def list_ex_iff live_email_def od_get_None_iff less_Suc_eq)
  moreover have "invite_ok db' r" if "invite_ok db r" for r
    using that new by (auto simp: invite_ok_def get split: option.splits)
  ultimately show "acc_inv db'" using assms(1) uid
    by (auto simp: acc_inv_def invites_inv_def slots_def token_hashes_def accepted_users_def d(2,3) less_Suc_eq)
qed

lemma find_invite:
  assumes "acc_inv db" and "find P (ac_invites db) = Some (i, r)"
  shows "od_get (ac_invites db) i = Some r" and "P (i, r)" and "invite_ok db r"
proof -
  have m: "(i, r) \<in> set (ac_invites db)" "P (i, r)" using assms(2) by (auto simp: find_Some_iff)
  then show "od_get (ac_invites db) i = Some r" "P (i, r)" "invite_ok db r"
    using assms(1) by (auto simp: acc_inv_def invites_inv_def od_get_in_set)
qed

lemma slot_taken: "list_ex (in_slot t e) (ac_invites db) \<longleftrightarrow> (t, py_lower e) \<in> set (slots db)"
  by (force simp: slots_def in_slot_def list_ex_iff)

lemma pending_ok: "invite_ok db r \<Longrightarrow> i_status r = INV_PENDING \<Longrightarrow> i_accepted_user r = None"
  by (auto simp: invite_ok_def)

lemma reclaim_inv: "acc_inv db \<Longrightarrow> acc_inv (reclaim_slot now t e a db)"
proof (cases "find (in_slot t e) (ac_invites db)")
  case (Some p)
  assume inv: "acc_inv db"
  obtain i r where p: "p = (i, r)" by fastforce
  note f = find_invite [OF inv Some [unfolded p]]
  have "i_status r = INV_PENDING" using f(2) by (simp add: in_slot_def)
  then have "acc_inv (audit ''invite'' i ''updated'' (Some (a_id a)) (Some (a_email a))
      (db\<lparr>ac_invites := od_set i (r\<lparr>i_status := INV_REVOKED\<rparr>) (ac_invites db)\<rparr>))"
    using pending_ok [OF f(3)]
    by (intro invites_update [OF inv f(1), of "r\<lparr>i_status := INV_REVOKED\<rparr>"]) (simp_all add: invite_ok_def)
  then show ?thesis using inv Some p by (simp add: reclaim_slot_def)
qed (simp add: reclaim_slot_def)

lemma insert_invite_inv: "acc_inv db \<Longrightarrow> insert_invite h tx email role t team a db = Inr db' \<Longrightarrow> acc_inv db'"
proof -
  assume inv: "acc_inv db" and r: "insert_invite h tx email role t team a db = Inr db'"
  define row where "row = \<lparr>i_tenant = t, i_email = email, i_role = role, i_team = team, i_token_hash = h,
      i_status = INV_PENDING, i_expires_at = tx + INVITE_TTL, i_invited_by = Some (a_id a),
      i_accepted_at = None, i_accepted_user = None, i_last_sent_at = Some tx\<rparr>"
  have d: "ac_invites db' = ac_invites db @ [(ac_next_id db, row)]" "ac_users db' = ac_users db" "ac_next_id db' = Suc (ac_next_id db)"
    and free: "(t, py_lower email) \<notin> set (slots db)" "h \<notin> set (token_hashes db)"
    using r by (auto simp: insert_invite_def Let_def row_def slot_taken token_used_iff split: if_splits)
  have row: "i_tenant row = t" "i_email row = email" "i_token_hash row = h" "i_status row = INV_PENDING" "i_accepted_user row = None"
    by (simp_all add: row_def)
  have "slots db' = slots db @ [(t, py_lower email)]" "token_hashes db' = token_hashes db @ [h]" "accepted_users db' = accepted_users db"
    by (simp_all add: slots_def token_hashes_def accepted_users_def d row)
  then have "invites_inv db'" using inv free
    by (auto simp: acc_inv_def invites_inv_def d row invite_ok_cong [OF d(2)] less_Suc_eq, auto simp: invite_ok_def row)
  moreover have "users_inv db'" using inv by (auto simp: acc_inv_def users_inv_def d live_emails_def less_Suc_eq)
  ultimately show "acc_inv db'" by (simp add: acc_inv_def)
qed

lemma managed_inv:
  assumes inv: "acc_inv db" and m: "manageable now i a db = Inr r"
    and w: "i_tenant w = i_tenant r" "i_email w = i_email r" "i_status w \<noteq> INV_ACCEPTED" "i_accepted_user w = i_accepted_user r"
      "i_token_hash w = i_token_hash r \<or> \<not> token_used (i_token_hash w) db"
    and d: "ac_invites db' = od_set i w (ac_invites db)" "ac_users db' = ac_users db" "ac_next_id db' = ac_next_id db"
  shows "acc_inv db'"
proof -
  have r: "od_get (ac_invites db) i = Some r" "i_status r = INV_PENDING"
    using m by (auto simp: manageable_def split: option.splits if_splits)
  have "invite_ok db r" using od_get_SomeD [OF r(1)] inv by (fastforce simp: acc_inv_def invites_inv_def)
  then have "i_accepted_user w = None" using pending_ok r(2) w(4) by simp
  then show ?thesis using r(2) w d
    by (intro invites_update [OF inv r(1), of w]) (simp_all add: invite_ok_def)
qed

lemma accepted_below: "acc_inv db \<Longrightarrow> k \<in> set (accepted_users db) \<Longrightarrow> k < ac_next_id db"
proof -
  assume inv: "acc_inv db" and "k \<in> set (accepted_users db)"
  then obtain i r where "(i, r) \<in> set (ac_invites db)" "i_status r = INV_ACCEPTED" "k = the (i_accepted_user r)"
    by (auto simp: accepted_users_def)
  then have "od_get (ac_users db) k \<noteq> None"
    using inv by (fastforce simp: acc_inv_def invites_inv_def invite_ok_def split: option.splits)
  then obtain u where "(k, u) \<in> set (ac_users db)" by (auto dest: od_get_SomeD)
  then show "k < ac_next_id db" using inv by (force simp: acc_inv_def users_inv_def)
qed

lemma accept_inv:
  assumes inv: "acc_inv db" and a: "accept_invite sha bc now tx raw password db = Inr (uid, db')"
  shows "acc_inv db'"
  using a
proof (rule accept_parts)
  fix k r db1
  assume k: "invite_by_token sha raw db = Some (k, r)"
    and ins: "insert_user bc (i_email r) password (i_role r) (i_tenant r) None (Some (i_email r)) (i_team r) db = Some (uid, db1)"
    and d: "db' = audit ''invite'' k ''updated'' (Some uid) (Some (py_lower (i_email r)))
        (db1\<lparr>ac_invites := od_set k (r\<lparr>i_status := INV_ACCEPTED, i_accepted_at := Some tx, i_accepted_user := Some uid\<rparr>) (ac_invites db1)\<rparr>)"
  note i = insert_user_inv [OF inv ins]
  have g: "od_get (ac_invites db1) k = Some r" using find_invite(1) [OF inv] k i(3) by (simp add: invite_by_token_def)
  have "accepted_users db1 = accepted_users db" by (simp add: accepted_users_def i(3))
  then have fresh: "uid \<notin> set (accepted_users db1)" using accepted_below [OF inv] i(2) by auto
  assume c: "classify now r db = None"
  then have "i_status r = INV_PENDING" by (cases "i_status r") (auto simp: classify_def)
  then show ?thesis unfolding d
    by (intro invites_update [OF i(1) g, of "r\<lparr>i_status := INV_ACCEPTED, i_accepted_at := Some tx, i_accepted_user := Some uid\<rparr>"])
      (use fresh i(4) in \<open>auto simp: invite_ok_def\<close>)
qed

lemma update_user_parts:
  assumes "update_user bc now uid role tenant password actor db = Inr db'"
  obtains u w where "od_get (ac_users db) uid = Some u" "u_email w = u_email u" "u_deleted w = u_deleted u"
    "ac_users db' = od_set uid w (ac_users db)" "ac_invites db' = ac_invites db" "ac_next_id db' = ac_next_id db"
proof -
  obtain u where u: "od_get (ac_users db) uid = Some u"
    using assms by (cases "od_get (ac_users db) uid") (simp_all add: update_user_def split: option.split_asm if_split_asm)
  define w where "w = u\<lparr>u_role := (case role of Some r \<Rightarrow> r | None \<Rightarrow> u_role u),
      u_tenant := (case tenant of Some t \<Rightarrow> t | None \<Rightarrow> u_tenant u),
      u_password_hash := (case password of Some p \<Rightarrow> bc p | None \<Rightarrow> u_password_hash u)\<rparr>"
  have "db' = audit ''user'' uid ''updated'' (Some (a_id actor)) (Some (a_email actor)) (db\<lparr>ac_users := od_set uid w (ac_users db)\<rparr>)"
    using assms unfolding update_user_def u w_def
    by (cases "require_role [SUPERADMIN] now actor db") (simp_all add: Let_def split: if_split_asm)
  then show thesis by (intro that [OF u, of w]) (simp_all add: w_def)
qed

lemma acc_inv_step: "acc_inv db \<Longrightarrow> acc_inv (acc_step sha bc vf e db)"
proof (cases e)
  case (Bootstrap now email password)
  assume inv: "acc_inv db"
  show ?thesis
  proof (cases "bootstrap bc now email password db")
    case (Inr db')
    then obtain uid db1 where ins: "insert_user bc email password SUPERADMIN None None (Some email) None db = Some (uid, db1)"
      and db': "ac_users db' = ac_users db1" "ac_invites db' = ac_invites db1" "ac_next_id db' = ac_next_id db1"
      by (auto simp: bootstrap_def issue_token_def split: if_splits option.splits)
    have "acc_inv db'" by (rule acc_frame [OF insert_user_inv(1) [OF inv ins] db'])
    then show ?thesis using Bootstrap Inr by (simp add: commit_def)
  qed (use inv Bootstrap in \<open>simp add: commit_def\<close>)
next
  case (Login now email password)
  assume "acc_inv db"
  then show ?thesis using Login
    by (auto simp: commit_def login_def issue_token_def intro: acc_frame split: option.split)
next
  case (UpdateUser now uid role tenant password actor)
  assume inv: "acc_inv db"
  show ?thesis
  proof (cases "update_user bc now uid role tenant password actor db")
    case (Inr db')
    then obtain u w where u: "od_get (ac_users db) uid = Some u" "u_email w = u_email u" "u_deleted w = u_deleted u"
      "ac_users db' = od_set uid w (ac_users db)" "ac_invites db' = ac_invites db" "ac_next_id db' = ac_next_id db"
      by (rule update_user_parts)
    have "acc_inv db'" by (rule users_update [OF inv u(1,2) _ u(4-6)]) (simp add: u(3))
    then show ?thesis using UpdateUser Inr by (simp add: commit_def)
  qed (use inv UpdateUser in \<open>simp add: commit_def\<close>)
next
  case (ChangePassword now current password actor)
  assume inv: "acc_inv db"
  show ?thesis
  proof (cases "change_password bc vf now current password actor db")
    case (Inr db')
    then obtain u where "od_get (ac_users db) (a_id actor) = Some u"
      "ac_users db' = od_set (a_id actor) (u\<lparr>u_password_hash := bc password\<rparr>) (ac_users db)"
      "ac_invites db' = ac_invites db" "ac_next_id db' = ac_next_id db"
      by (auto simp: change_password_def split: option.splits if_splits)
    then have "acc_inv db'" by (intro users_update [OF inv, of _ u "u\<lparr>u_password_hash := bc password\<rparr>"]) simp_all
    then show ?thesis using ChangePassword Inr by (simp add: commit_def)
  qed (use inv ChangePassword in \<open>simp add: commit_def\<close>)
next
  case (DeleteUser now uid actor)
  assume inv: "acc_inv db"
  show ?thesis
  proof (cases "delete_user now uid actor db")
    case (Inr db')
    then obtain u where "od_get (ac_users db) uid = Some u" "ac_users db' = od_set uid (u\<lparr>u_deleted := True\<rparr>) (ac_users db)"
      "ac_invites db' = ac_invites db" "ac_next_id db' = ac_next_id db"
      by (auto simp: delete_user_def split: option.splits if_splits)
    then have "acc_inv db'" by (intro users_update [OF inv, of _ u "u\<lparr>u_deleted := True\<rparr>"]) simp_all
    then show ?thesis using DeleteUser Inr by (simp add: commit_def)
  qed (use inv DeleteUser in \<open>simp add: commit_def\<close>)
next
  case (DeleteTenant t)
  assume "acc_inv db"
  then show ?thesis using DeleteTenant
    by (auto simp: commit_def delete_tenant_def intro: acc_frame split: option.split)
next
  case (CreateInvite raw now tx email role tenant team actor)
  assume inv: "acc_inv db"
  show ?thesis using inv insert_invite_inv [OF reclaim_inv [OF inv]] CreateInvite
    by (auto simp: commit_def create_tx_def split: sum.split)
next
  case (ResendInvite raw now tx i actor)
  assume inv: "acc_inv db"
  show ?thesis
  proof (cases "resend_invite sha raw now tx i actor db")
    case (Inr db')
    then obtain r where m: "manageable now i actor db = Inr r" and u: "\<not> token_used (sha raw) db"
      and d: "db' = audit ''invite'' i ''updated'' (Some (a_id actor)) (Some (a_email actor))
                          (db\<lparr>ac_invites := od_set i (r\<lparr>i_token_hash := sha raw, i_last_sent_at := Some tx,
                                                         i_expires_at := tx + INVITE_TTL\<rparr>) (ac_invites db)\<rparr>)"
      by (auto simp: resend_invite_def split: sum.splits option.splits if_splits)
    have "i_status r = INV_PENDING" using m by (auto simp: manageable_def split: option.splits if_splits)
    then have "acc_inv db'" unfolding d using u
      by (intro managed_inv [OF inv m, of "r\<lparr>i_token_hash := sha raw, i_last_sent_at := Some tx, i_expires_at := tx + INVITE_TTL\<rparr>"]) simp_all
    then show ?thesis using ResendInvite Inr by (simp add: commit_def)
  qed (use inv ResendInvite in \<open>simp add: commit_def\<close>)
next
  case (RevokeInvite now i actor)
  assume inv: "acc_inv db"
  show ?thesis
  proof (cases "manageable now i actor db")
    case (Inr r)
    have "acc_inv (audit ''invite'' i ''updated'' (Some (a_id actor)) (Some (a_email actor))
                (db\<lparr>ac_invites := od_set i (r\<lparr>i_status := INV_REVOKED\<rparr>) (ac_invites db)\<rparr>))"
      by (intro managed_inv [OF inv Inr, of "r\<lparr>i_status := INV_REVOKED\<rparr>"]) simp_all
    then show ?thesis using RevokeInvite Inr by (simp add: commit_def revoke_invite_def)
  qed (use inv RevokeInvite in \<open>simp add: commit_def revoke_invite_def\<close>)
next
  case (AcceptInvite now tx raw password)
  assume inv: "acc_inv db"
  then show ?thesis using AcceptInvite accept_inv [OF inv] by (auto split: sum.split)
qed

lemma acc_inv_init: "acc_inv (acc_init\<lparr>ac_tenants := ts\<rparr>)"
  by (simp add: acc_inv_def users_inv_def invites_inv_def acc_init_def live_emails_def slots_def token_hashes_def
      accepted_users_def)

interpretation acc: event_machine "acc_init\<lparr>ac_tenants := ts\<rparr>" "acc_step sha bc vf" acc_inv
  by unfold_locales (simp_all add: acc_inv_init acc_inv_step)

text \<open>
  C27. One account per invitation, one live account per email, one pending invitation per organisation
  and email, whatever sequence of requests the tables have seen: no two accepted invitations made the
  same account, every accepted one names an existing account with its email, and no token belongs to
  two invitations.
\<close>

theorem one_account_per_invite:
  "let db = fold (acc_step sha bc vf) es (acc_init\<lparr>ac_tenants := ts\<rparr>)
   in distinct (live_emails db) \<and> distinct (slots db) \<and> distinct (token_hashes db) \<and> distinct (accepted_users db) \<and>
      list_all (\<lambda>p. invite_ok db (snd p)) (ac_invites db)"
  using acc.inv_run [of sha bc vf es ts]
  by (simp add: Let_def acc_inv_def users_inv_def invites_inv_def list_all_iff)

section \<open>Acceptance\<close>

lemma find_od_set:
  assumes "find P d = Some (k, r)" and "od_ok d" and "P (k, w)"
  shows "find P (od_set k w d) = Some (k, w)"
  using assms
proof (induction d)
  case (Cons p d)
  obtain a b where p: "p = (a, b)" by fastforce
  have "od_ok d" using Cons.prems(2) by (cases p) simp
  show ?case
  proof (cases "P p")
    case True
    then show ?thesis using Cons.prems p by simp
  next
    case False
    then have f: "find P d = Some (k, r)" using Cons.prems(1) by simp
    then have "(k, r) \<in> set d" by (auto simp: find_Some_iff)
    then have "a \<noteq> k" using Cons.prems(2) p by force
    then show ?thesis using Cons.IH [OF f \<open>od_ok d\<close> Cons.prems(3)] False p by simp
  qed
qed simp

text \<open>
  What an acceptance does. It succeeds only for a pending invitation, before its expiry on both
  clocks, of a live organisation, whose inviter is a live account that may still grant the role; the
  new account has exactly the invitation's email, role and organisation; and the same token is refused
  as used from then on, at any time and with any password.
\<close>

theorem accept_uses_invite_once:
  assumes "acc_inv db" and "accept_invite sha bc now tx raw password db = Inr (uid, db')"
  shows "(\<exists>i r j v u. invite_by_token sha raw db = Some (i, r) \<and> i_status r = INV_PENDING \<and>
      now \<le> i_expires_at r \<and> tx < i_expires_at r \<and>
      (\<forall>t. i_tenant r = Some t \<longrightarrow> (\<exists>tr. od_get (ac_tenants db) t = Some tr \<and> \<not> t_deleted tr)) \<and>
      i_invited_by r = Some j \<and> (j, v) \<in> set (live_users db) \<and>
      may_invite (u_role v) (u_tenant v) (i_role r) (i_tenant r) \<and>
      get_user_by_id uid db = None \<and> get_user_by_id uid db' = Some u \<and>
      u_email u = py_lower (i_email r) \<and> u_role u = i_role r \<and> u_tenant u = i_tenant r \<and>
      u_password_hash u = bc password) \<and>
    accept_invite sha bc now' tx' raw password' db' = Inl InviteUsed"
  using assms(2)
proof (rule accept_parts)
  fix i r db1
  assume i: "invite_by_token sha raw db = Some (i, r)" and c: "classify now r db = None" and x: "tx < i_expires_at r"
    and ins: "insert_user bc (i_email r) password (i_role r) (i_tenant r) None (Some (i_email r)) (i_team r) db = Some (uid, db1)"
    and d: "db' = audit ''invite'' i ''updated'' (Some uid) (Some (py_lower (i_email r)))
        (db1\<lparr>ac_invites := od_set i (r\<lparr>i_status := INV_ACCEPTED, i_accepted_at := Some tx, i_accepted_user := Some uid\<rparr>) (ac_invites db1)\<rparr>)"
  note n = insert_user_inv [OF assms(1) ins]
  have live: "context_live r db" and p: "i_status r = INV_PENDING" "now \<le> i_expires_at r"
    using c by (cases "i_status r"; simp add: classify_def split: if_splits)+
  from live obtain j v where v: "(j, v) \<in> set (live_users db)" "i_invited_by r = Some j"
    "may_invite (u_role v) (u_tenant v) (i_role r) (i_tenant r)"
    by (rule context_inviter)
  have t: "\<exists>tr. od_get (ac_tenants db) t = Some tr \<and> \<not> t_deleted tr" if "i_tenant r = Some t" for t
    using live that by (auto simp: context_live_def split: option.splits)
  have new: "od_get (ac_users db) uid = None"
    using assms(1) n(2) by (auto simp: acc_inv_def users_inv_def od_get_None_iff)
  then obtain u where u: "od_get (ac_users db1) uid = Some u" "\<not> u_deleted u" "u_email u = py_lower (i_email r)"
    "u_role u = i_role r" "u_tenant u = i_tenant r" "u_password_hash u = bc password"
    using ins by (auto simp: insert_user_def Let_def od_get_def map_add_def split: if_splits option.splits)
  have "find (\<lambda>(i, r). i_token_hash r = sha raw) (ac_invites db') =
      Some (i, r\<lparr>i_status := INV_ACCEPTED, i_accepted_at := Some tx, i_accepted_user := Some uid\<rparr>)"
    using find_invite(2) [OF assms(1) i [unfolded invite_by_token_def]] i n(3) assms(1)
    by (simp add: d invite_by_token_def find_od_set acc_inv_def invites_inv_def)
  then have "accept_invite sha bc now' tx' raw password' db' = Inl InviteUsed"
    by (simp add: accept_invite_def invite_by_token_def classify_def)
  moreover have "get_user_by_id uid db = None" "get_user_by_id uid db' = Some u"
    using new u(1,2) by (simp_all add: get_user_by_id_def d)
  ultimately show ?thesis using i p x t v u(3-6) by blast
qed

section \<open>Stale tokens\<close>

text \<open>
  The role that counts is the token's. An account that was demoted, or deleted, and holds a token from
  before, restores its own role with it: the edit succeeds whatever the row says.
\<close>

lemma stale_token_restores_role:
  assumes "(a, expiry) \<in> set (ac_issued db)" and "now < expiry" and "a_role a = SUPERADMIN"
    and "od_get (ac_users db) (a_id a) = Some u" and "\<not> u_service_account u"
  obtains db' u' where "update_user bc now (a_id a) (Some SUPERADMIN) None None a db = Inr db'"
    "od_get (ac_users db') (a_id a) = Some u'" "u_role u' = SUPERADMIN"
proof -
  have "require_role [SUPERADMIN] now a db = None"
    using assms(1-3) by (auto simp: require_role_def authenticated_def list_ex_iff CONSOLE_ROLES_def)
  then show thesis using assms(4,5) that by (simp add: update_user_def Let_def)
qed

section \<open>Examples\<close>

text \<open>
  The superadmin is gone, an administrator of organisation 7 is left, who invited a viewer.
\<close>

definition ex_org :: accounts where
  "ex_org = \<lparr>
     ac_users = [(0, \<lparr>u_email = ''root'', u_password_hash = ''h'', u_role = SUPERADMIN, u_tenant = None, u_team = None,
                    u_service_account = False, u_deleted = True\<rparr>),
                 (1, \<lparr>u_email = ''ada'', u_password_hash = ''h'', u_role = ADMIN, u_tenant = Some 7, u_team = None,
                    u_service_account = False, u_deleted = False\<rparr>)],
     ac_invites = [(2, \<lparr>i_tenant = Some 7, i_email = ''bob'', i_role = VIEWER, i_team = None, i_token_hash = ''t'',
                    i_status = INV_PENDING, i_expires_at = 1000, i_invited_by = Some 1, i_accepted_at = None,
                    i_accepted_user = None, i_last_sent_at = None\<rparr>)],
     ac_tenants = [(7, \<lparr>t_slug = ''org'', t_name = ''Org'', t_deleted = False\<rparr>)],
     ac_audit = [], ac_issued = [], ac_next_id = 3\<rparr>"

definition ex_bob :: "nat \<times> user_row" where
  "ex_bob = (3, \<lparr>u_email = ''bob'', u_password_hash = ''pw'', u_role = VIEWER, u_tenant = Some 7, u_team = None,
                 u_service_account = False, u_deleted = False\<rparr>)"

lemmas acc_eval = accept_invite_def invite_by_token_def classify_def context_live_def get_user_by_id_def may_invite_def
  insert_user_def live_email_def tenant_known_def audit_def Let_def live_users_def

lemma ex_org_accept:
  "\<exists>db'. accept_invite (\<lambda>s. s) (\<lambda>s. s) 5 5 ''t'' ''pw'' ex_org = Inr (3, db') \<and> live_users db' = [hd (tl (ac_users ex_org)), ex_bob]"
  by (simp add: acc_eval ex_org_def ex_bob_def od_get_def py_lower_def py_lower_char_def)

lemma ex_org_inv: "acc_inv ex_org"
  by (simp add: acc_inv_def users_inv_def invites_inv_def ex_org_def live_emails_def slots_def token_hashes_def
      accepted_users_def invite_ok_def)


lemma accept_uses_invite_once_witness:
  "\<exists>db'. accept_invite (\<lambda>s. s) (\<lambda>s. s) 5 5 ''t'' ''pw'' ex_org = Inr (3, db') \<and>
     accept_invite (\<lambda>s. s) (\<lambda>s. s) 9 9 ''t'' ''pw2'' db' = Inl InviteUsed"
proof -
  obtain db' where db': "accept_invite (\<lambda>s. s) (\<lambda>s. s) 5 5 ''t'' ''pw'' ex_org = Inr (3, db')"
    using ex_org_accept by blast
  show ?thesis using accept_uses_invite_once [OF ex_org_inv db'] db' by blast
qed

lemma ex_org_stale:
  "\<exists>a db'. a_role a = SUPERADMIN \<and>
     update_user (\<lambda>s. s) 10 0 (Some SUPERADMIN) None None a (ex_org\<lparr>ac_issued := [(a, 50)]\<rparr>) = Inr db'"
proof -
  define a where "a = \<lparr>a_id = 0, a_email = ''root'', a_role = SUPERADMIN, a_tenant = None, a_service_account = False\<rparr>"
  obtain db' where "update_user (\<lambda>s. s) 10 (a_id a) (Some SUPERADMIN) None None a (ex_org\<lparr>ac_issued := [(a, 50)]\<rparr>) = Inr db'"
    by (rule stale_token_restores_role [of a 50 "ex_org\<lparr>ac_issued := [(a, 50)]\<rparr>" 10 "hd (map snd (ac_users ex_org))" "\<lambda>s. s"])
      (auto simp: a_def ex_org_def od_get_def)
  moreover have "a_id a = 0" "a_role a = SUPERADMIN" by (simp_all add: a_def)
  ultimately show ?thesis by metis
qed

end
