(* ===== verification/Agent_Store.thy ===== *)
theory Agent_Store
  imports Workflow_Dataflow Accounts
begin

text \<open>
  Agents and their workflows in the configuration service (\<^verbatim>\<open>services/config/agents.py\<close>,
  \<^verbatim>\<open>workflows.py\<close>, \<^verbatim>\<open>graphs_equivalent\<close> of \<^verbatim>\<open>libs/config_sdk/workflow.py\<close>), over the tables of
  \<^verbatim>\<open>database/schema.sql\<close>.

  An agent's row keeps its plain columns in a dictionary, as the code that builds the UPDATE statement
  sees them, and the two JSONB columns with the live graph and the draft apart. A transaction is one
  function from the tables to an error or to a result with new tables; the peek of \<^verbatim>\<open>publish\<close>, which
  happens before its transaction, is a function of its own. A JSONB column keeps the value it was given,
  key order included; what JSON or PostgreSQL cannot store is refused. Times, other than the expiry of
  cached entries, are left out, as are the old and new values inside an audit row.
\<close>

section \<open>Equality of JSON values\<close>

text \<open>
  \<^verbatim>\<open>==\<close> of Python compares numbers by value and takes \<^verbatim>\<open>True\<close> for 1; jsonb does the first only.
\<close>

definition num_value :: "bool \<Rightarrow> pyval \<Rightarrow> rat option" where
  "num_value bools v =
     (case v of
        PInt n \<Rightarrow> Some (of_int n)
      | PFloat q _ \<Rightarrow> Some q
      | PBool b \<Rightarrow> if bools then Some (if b then 1 else 0) else None
      | _ \<Rightarrow> None)"

fun val_eq :: "bool \<Rightarrow> pyval \<Rightarrow> pyval \<Rightarrow> bool" where
  "val_eq bools (PList xs) (PList ys) = list_all2 (\<lambda>x y. val_eq bools x y) xs ys"
| "val_eq bools (PDict d) (PDict e) =
     (length d = length e \<and>
      list_all (\<lambda>p. case od_get e (fst p) of Some w \<Rightarrow> val_eq bools (snd p) w | None \<Rightarrow> False) d)"
| "val_eq bools PNone PNone = True"
| "val_eq bools (PStr s) (PStr t) = (s = t)"
| "val_eq bools (PInf a) (PInf b) = (a = b)"
| "val_eq bools (PBool a) (PBool b) = (a = b)"
| "val_eq bools v w = (num_value bools v \<noteq> None \<and> num_value bools v = num_value bools w)"

section \<open>Equivalent graphs\<close>

type_synonym json_object = "(string \<times> pyval) list"

definition RF_NODE_LOGIC :: "string list" where
  "RF_NODE_LOGIC = [''id'', ''type'', ''data'']"

definition RF_EDGE_LOGIC :: "string list" where
  "RF_EDGE_LOGIC = [''id'', ''source'', ''target'', ''sourceHandle'', ''targetHandle'', ''data'']"

text \<open>The elements a \<^verbatim>\<open>for\<close> loop takes from a value; \<open>None\<close> when it cannot be iterated.\<close>

definition iterate :: "pyval \<Rightarrow> pyval list option" where
  "iterate v =
     (case v of
        PList xs \<Rightarrow> Some xs
      | PDict d \<Rightarrow> Some (map (PStr \<circ> fst) d)
      | PStr s \<Rightarrow> Some (map (\<lambda>c. PStr [c]) s)
      | _ \<Rightarrow> None)"

text \<open>\<^verbatim>\<open>{k: n[k] for k in keys if k in n}\<close>; \<open>None\<close> is a \<^verbatim>\<open>TypeError\<close>.\<close>

definition logic_item :: "string list \<Rightarrow> pyval \<Rightarrow> json_object option" where
  "logic_item keys n =
     (case n of
        PDict d \<Rightarrow> Some (concat (map (\<lambda>k. case od_get d k of Some v \<Rightarrow> [(k, v)] | None \<Rightarrow> []) keys))
      | PList xs \<Rightarrow> if list_ex (\<lambda>k. list_ex (val_eq True (PStr k)) xs) keys then None else Some []
      | PStr s \<Rightarrow> if list_ex (\<lambda>k. py_in k s) keys then None else Some []
      | _ \<Rightarrow> None)"

fun logic_items :: "string list \<Rightarrow> pyval list \<Rightarrow> json_object list option" where
  "logic_items keys [] = Some []"
| "logic_items keys (n # ns) =
     (case logic_item keys n of
        None \<Rightarrow> None
      | Some d \<Rightarrow> (case logic_items keys ns of None \<Rightarrow> None | Some ds \<Rightarrow> Some (d # ds)))"

text \<open>The stable sort by \<^verbatim>\<open>str(n.get("id", ""))\<close>.\<close>

fun str_less :: "string \<Rightarrow> string \<Rightarrow> bool" where
  "str_less [] t = (t \<noteq> [])"
| "str_less (c # s) [] = False"
| "str_less (c # s) (d # t) =
     ((of_char c :: nat) < of_char d \<or> (c = d \<and> str_less s t))"

definition sort_id :: "json_object \<Rightarrow> string" where
  "sort_id d = (case od_get d ''id'' of Some v \<Rightarrow> py_str v | None \<Rightarrow> [])"

fun insert_item :: "json_object \<Rightarrow> json_object list \<Rightarrow> json_object list" where
  "insert_item d [] = [d]"
| "insert_item d (e # es) = (if str_less (sort_id e) (sort_id d) then e # insert_item d es else d # e # es)"

definition sort_items :: "json_object list \<Rightarrow> json_object list" where
  "sort_items ds = foldr insert_item ds []"

definition logic_part :: "string list \<Rightarrow> pyval \<Rightarrow> pyval option" where
  "logic_part keys v =
     (case iterate (py_or v (PList [])) of
        None \<Rightarrow> None
      | Some ns \<Rightarrow>
          (case logic_items keys ns of
             None \<Rightarrow> None
           | Some ds \<Rightarrow> Some (PList (map PDict (sort_items ds)))))"

definition logic_view :: "json_object \<Rightarrow> pyval option" where
  "logic_view g =
     (case (logic_part RF_NODE_LOGIC (py_get g ''nodes''), logic_part RF_EDGE_LOGIC (py_get g ''edges'')) of
        (Some ns, Some es) \<Rightarrow>
          Some (PDict [(''version'', py_get g ''version''), (''nodes'', ns), (''edges'', es)])
      | _ \<Rightarrow> None)"

text \<open>\<open>None\<close> is the \<^verbatim>\<open>TypeError\<close> of a graph that is not even shaped like one.\<close>

definition graphs_equivalent :: "json_object option \<Rightarrow> json_object option \<Rightarrow> bool option" where
  "graphs_equivalent a b =
     (case (a, b) of
        (Some g, Some h) \<Rightarrow>
          (case (logic_view g, logic_view h) of
             (Some v, Some w) \<Rightarrow> Some (val_eq True v w)
           | _ \<Rightarrow> None)
      | (None, None) \<Rightarrow> Some True
      | _ \<Rightarrow> Some False)"

section \<open>Tables\<close>

record agent_row =
  ag_tenant :: nat
  ag_slug :: string
  ag_fields :: "(string, pyval) odict"
  ag_workflow :: "json_object option"
  ag_draft :: "json_object option"
  ag_version :: nat
  ag_deleted_at :: "rat option"

record provider_row =
  pr_tenant :: nat
  pr_role :: string
  pr_engine :: string
  pr_voice :: "string option"

record version_row =
  vr_agent :: nat
  vr_version :: nat
  vr_graph :: json_object
  vr_published_by :: "nat option"
  vr_note :: "string option"

record agent_store =
  st_tenants :: "(nat, tenant_row) odict"
  st_agents :: "(nat, agent_row) odict"
  st_providers :: "(int, provider_row) odict"
  st_versions :: "version_row list"
  st_audit :: "audit_row list"
  st_next :: nat
  st_cache :: "(string, agent_row \<times> rat option) odict"

datatype store_error =
    AgentNotFound
  | BadRequest
  | InvalidGraph "wf_error list"
  | StaleDraft
  | Crashed
  | Refused

definition UPDATABLE_FIELDS :: "string list" where
  "UPDATABLE_FIELDS =
     [''name'', ''greeting'', ''system_prompt'', ''goodbye_grace_ms'', ''language'',
      ''stt_config_id'', ''llm_config_id'', ''tts_config_id'',
      ''transfer_type'', ''transfer_destination'', ''queue_id'', ''escalation_threshold'',
      ''caller_id_policy'', ''platform_did'', ''custom_caller_id'',
      ''transfer_waiting_experience'',
      ''end_call_prompt'', ''transfer_prompt'',
      ''farewell_message'', ''transfer_announcement'',
      ''status'', ''max_call_duration_s'']"

text \<open>The columns of a new row that its INSERT does not name, with the defaults of the schema.\<close>

definition column_defaults :: "(string, pyval) odict" where
  "column_defaults =
     [(''name'', PNone), (''greeting'', PStr []), (''system_prompt'', PStr []),
      (''goodbye_grace_ms'', PInt 3000), (''language'', PNone),
      (''stt_config_id'', PNone), (''llm_config_id'', PNone), (''tts_config_id'', PNone),
      (''transfer_type'', PStr ''none''), (''transfer_destination'', PNone), (''queue_id'', PNone),
      (''escalation_threshold'', PNone), (''caller_id_policy'', PStr ''original''),
      (''platform_did'', PNone), (''custom_caller_id'', PNone),
      (''transfer_waiting_experience'', PStr ''announcement_moh''),
      (''end_call_prompt'', PNone), (''transfer_prompt'', PNone),
      (''farewell_message'', PNone), (''transfer_announcement'', PNone),
      (''status'', PStr ''active''), (''max_call_duration_s'', PNone)]"

text \<open>The NOT NULL and CHECK constraints of the table.\<close>

definition NOT_NULL_COLUMNS :: "string list" where
  "NOT_NULL_COLUMNS =
     [''name'', ''greeting'', ''system_prompt'', ''goodbye_grace_ms'', ''transfer_type'',
      ''caller_id_policy'', ''transfer_waiting_experience'', ''status'']"

definition column_in :: "(string, pyval) odict \<Rightarrow> string \<Rightarrow> string list \<Rightarrow> bool" where
  "column_in cols k allowed = (case py_get cols k of PStr s \<Rightarrow> s \<in> set allowed | _ \<Rightarrow> False)"

definition call_duration_ok :: "pyval \<Rightarrow> bool" where
  "call_duration_ok v = (case v of PNone \<Rightarrow> True | PInt n \<Rightarrow> 30 \<le> n \<and> n \<le> 7200 | _ \<Rightarrow> False)"

definition columns_ok :: "(string, pyval) odict \<Rightarrow> bool" where
  "columns_ok cols =
     (list_all (\<lambda>k. py_get cols k \<noteq> PNone) NOT_NULL_COLUMNS \<and>
      column_in cols ''transfer_type'' [''warm'', ''cold'', ''none''] \<and>
      column_in cols ''caller_id_policy'' [''original'', ''platform'', ''custom''] \<and>
      column_in cols ''transfer_waiting_experience'' [''announcement_moh'', ''announcement_silence''] \<and>
      column_in cols ''status'' [''active'', ''inactive''] \<and>
      call_duration_ok (py_get cols ''max_call_duration_s''))"

text \<open>JSON has no infinities and no NaN, and a jsonb text no null character.\<close>

fun json_storable :: "pyval \<Rightarrow> bool" where
  "json_storable (PInf _) = False"
| "json_storable PNaN = False"
| "json_storable (PStr s) = (char_of (0::nat) \<notin> set s)"
| "json_storable (PList xs) = list_all json_storable xs"
| "json_storable (PDict d) = list_all (\<lambda>p. char_of (0::nat) \<notin> set (fst p) \<and> json_storable (snd p)) d"
| "json_storable _ = True"

text \<open>
  The trigger \<^verbatim>\<open>bump_agent_config_version\<close>: an update that changes nothing but the draft keeps the
  version.
\<close>

definition same_graph :: "json_object option \<Rightarrow> json_object option \<Rightarrow> bool" where
  "same_graph a b =
     (a = b \<or>
      (case (a, b) of
         (Some g, Some h) \<Rightarrow> val_eq False (PDict g) (PDict h)
       | _ \<Rightarrow> False))"

definition version_trigger :: "agent_row \<Rightarrow> agent_row \<Rightarrow> agent_row" where
  "version_trigger old new =
     (if ag_tenant new = ag_tenant old \<and> ag_slug new = ag_slug old \<and> ag_fields new = ag_fields old \<and>
         ag_deleted_at new = ag_deleted_at old \<and> same_graph (ag_workflow new) (ag_workflow old)
      then new\<lparr>ag_version := ag_version old\<rparr>
      else new\<lparr>ag_version := Suc (ag_version old)\<rparr>)"

definition put_agent :: "nat \<Rightarrow> agent_row \<Rightarrow> agent_row \<Rightarrow> agent_store \<Rightarrow> agent_store" where
  "put_agent i old new s = s\<lparr>st_agents := od_set i (version_trigger old new) (st_agents s)\<rparr>"

definition store_audit :: "string \<Rightarrow> nat \<Rightarrow> string \<Rightarrow> nat option \<Rightarrow> string option \<Rightarrow> agent_store \<Rightarrow> agent_store" where
  "store_audit entity eid action uid email s =
     s\<lparr>st_audit := st_audit s @ [\<lparr>au_entity_type = entity, au_entity_id = eid, au_action = action,
          au_user_id = uid, au_user_email = email\<rparr>]\<rparr>"

section \<open>The cache\<close>

text \<open>
  The helpers of \<^verbatim>\<open>cache.py\<close>. Whether Redis answers a command is an argument: a read that fails is a
  miss, a write that fails is skipped.
\<close>

type_synonym 'v cache = "(string, 'v \<times> rat option) odict"

definition DEFAULT_TTL_SECONDS :: rat where
  "DEFAULT_TTL_SECONDS = 60"

definition cache_get_json :: "bool \<Rightarrow> rat \<Rightarrow> string \<Rightarrow> 'v cache \<Rightarrow> 'v option" where
  "cache_get_json up now key c =
     (if \<not> up then None
      else case od_get c key of
        None \<Rightarrow> None
      | Some (v, None) \<Rightarrow> Some v
      | Some (v, Some expires) \<Rightarrow> if now < expires then Some v else None)"

definition cache_set_json :: "bool \<Rightarrow> rat \<Rightarrow> string \<Rightarrow> 'v \<Rightarrow> rat option \<Rightarrow> 'v cache \<Rightarrow> 'v cache" where
  "cache_set_json up now key v ttl c =
     (if up then od_set key (v, map_option (\<lambda>t. now + t) ttl) c else c)"

definition cache_invalidate :: "bool \<Rightarrow> string list \<Rightarrow> 'v cache \<Rightarrow> 'v cache" where
  "cache_invalidate up ks c = (if up then fold od_del ks c else c)"

definition agent_cache_key :: "string \<Rightarrow> string \<Rightarrow> string" where
  "agent_cache_key tenant_slug agent_slug = ''agent:'' @ tenant_slug @ '':'' @ agent_slug"

definition forget_agent :: "bool \<Rightarrow> string \<Rightarrow> string \<Rightarrow> agent_store \<Rightarrow> agent_store" where
  "forget_agent up tenant_slug agent_slug s =
     s\<lparr>st_cache := cache_invalidate up [agent_cache_key tenant_slug agent_slug] (st_cache s)\<rparr>"

section \<open>Reading agents\<close>

definition slug_of_tenant :: "nat \<Rightarrow> agent_store \<Rightarrow> string option" where
  "slug_of_tenant t s = map_option t_slug (od_get (st_tenants s) t)"

text \<open>The join of agents and tenants by id and slug, and the same without the deleted rows.\<close>

definition scoped_agent :: "nat \<Rightarrow> string \<Rightarrow> agent_store \<Rightarrow> agent_row option" where
  "scoped_agent i tenant_slug s =
     (case od_get (st_agents s) i of
        None \<Rightarrow> None
      | Some r \<Rightarrow> if slug_of_tenant (ag_tenant r) s = Some tenant_slug then Some r else None)"

definition locked_agent :: "nat \<Rightarrow> string \<Rightarrow> agent_store \<Rightarrow> agent_row option" where
  "locked_agent i tenant_slug s =
     (case scoped_agent i tenant_slug s of
        None \<Rightarrow> None
      | Some r \<Rightarrow> if ag_deleted_at r = None then Some r else None)"

definition public_agent :: "agent_row \<Rightarrow> agent_row" where
  "public_agent r = r\<lparr>ag_draft := None\<rparr>"

definition tenant_live :: "nat \<Rightarrow> string \<Rightarrow> agent_store \<Rightarrow> bool" where
  "tenant_live t slug s =
     (case od_get (st_tenants s) t of None \<Rightarrow> False | Some r \<Rightarrow> t_slug r = slug \<and> \<not> t_deleted r)"

definition find_agent :: "string \<Rightarrow> string \<Rightarrow> agent_store \<Rightarrow> agent_row option" where
  "find_agent tenant_slug agent_slug s =
     map_option snd
       (find (\<lambda>p. ag_slug (snd p) = agent_slug \<and> ag_deleted_at (snd p) = None \<and>
                  tenant_live (ag_tenant (snd p)) tenant_slug s) (st_agents s))"

definition get_agent :: "bool \<Rightarrow> bool \<Rightarrow> rat \<Rightarrow> string \<Rightarrow> string \<Rightarrow> agent_store \<Rightarrow> agent_row option \<times> agent_store" where
  "get_agent up1 up2 now tenant_slug agent_slug s =
     (let key = agent_cache_key tenant_slug agent_slug in
      case cache_get_json up1 now key (st_cache s) of
        Some r \<Rightarrow> (Some r, s)
      | None \<Rightarrow>
          (case find_agent tenant_slug agent_slug s of
             None \<Rightarrow> (None, s)
           | Some r \<Rightarrow>
               (Some (public_agent r),
                s\<lparr>st_cache := cache_set_json up2 now key (public_agent r) (Some DEFAULT_TTL_SECONDS)
                     (st_cache s)\<rparr>)))"

definition get_agent_by_id :: "nat \<Rightarrow> agent_store \<Rightarrow> agent_row option" where
  "get_agent_by_id i s =
     (case od_get (st_agents s) i of
        None \<Rightarrow> None
      | Some r \<Rightarrow> if ag_deleted_at r = None then Some (public_agent r) else None)"

text \<open>
  \<^verbatim>\<open>_list_workflow_fields\<close>: what the list of agents shows of the two graphs, whether each is there, whether
  they differ, and the number of nodes. \<open>None\<close> is the exception of a graph that cannot be compared.
\<close>

definition graph_node_count :: "json_object option \<Rightarrow> nat option" where
  "graph_node_count g =
     (case g of
        None \<Rightarrow> None
      | Some d \<Rightarrow> (case py_get d ''nodes'' of PList ns \<Rightarrow> Some (length ns) | _ \<Rightarrow> None))"

definition list_workflow_fields :: "agent_row \<Rightarrow> (bool \<times> bool \<times> bool \<times> nat option) option" where
  "list_workflow_fields r =
     (let has_wf = (ag_workflow r \<noteq> None); has_draft = (ag_draft r \<noteq> None) in
      case (if has_wf \<and> has_draft then map_option Not (graphs_equivalent (ag_workflow r) (ag_draft r))
            else Some False) of
        None \<Rightarrow> None
      | Some diverged \<Rightarrow>
          Some (has_wf, has_draft, diverged,
                graph_node_count (if has_draft \<and> (\<not> has_wf \<or> diverged) then ag_draft r else ag_workflow r)))"

section \<open>Prompts and graphs\<close>

definition coerce_prompt :: "pyval \<Rightarrow> string" where
  "coerce_prompt v = (if v = PNone then [] else py_str v)"

text \<open>
  \<^verbatim>\<open>prompts_from_graph\<close>: the greeting of the last start node and the prompt of the last global node.
  \<open>None\<close> is the exception of a node, or of its data, that is no object.
\<close>

fun prompts_loop :: "pyval list \<Rightarrow> string option \<Rightarrow> string option \<Rightarrow> (string option \<times> string option) option" where
  "prompts_loop [] greeting system_prompt = Some (greeting, system_prompt)"
| "prompts_loop (PDict node # ns) greeting system_prompt =
     (let data = py_or (py_get node ''data'') (PDict []) in
      if py_get node ''type'' = PStr ''start'' then
        (case data of
           PDict d \<Rightarrow> prompts_loop ns (Some (coerce_prompt (py_get d ''greeting''))) system_prompt
         | _ \<Rightarrow> None)
      else if py_get node ''type'' = PStr ''global'' then
        (case data of
           PDict d \<Rightarrow> prompts_loop ns greeting (Some (coerce_prompt (py_get d ''prompt'')))
         | _ \<Rightarrow> None)
      else prompts_loop ns greeting system_prompt)"
| "prompts_loop (_ # ns) greeting system_prompt = None"

definition prompts_from_graph :: "json_object \<Rightarrow> (string option \<times> string option) option" where
  "prompts_from_graph g =
     (case iterate (py_or (py_get g ''nodes'') (PList [])) of
        None \<Rightarrow> None
      | Some ns \<Rightarrow> prompts_loop ns None None)"

definition column_prompts :: "json_object \<Rightarrow> (string \<times> string) option" where
  "column_prompts g =
     map_option (\<lambda>(a, b). (case a of Some t \<Rightarrow> t | None \<Rightarrow> [], case b of Some t \<Rightarrow> t | None \<Rightarrow> []))
       (prompts_from_graph g)"

text \<open>
  \<^verbatim>\<open>_require_prompt_nodes\<close>. A node that is no object raises AttributeError, and a type that is a list
  or an object cannot be put into the set.
\<close>

fun node_types :: "pyval list \<Rightarrow> pyval list option" where
  "node_types [] = Some []"
| "node_types (PDict n # ns) =
     (case py_get n ''type'' of
        PList _ \<Rightarrow> None
      | PDict _ \<Rightarrow> None
      | t \<Rightarrow> map_option (\<lambda>ts. t # ts) (node_types ns))"
| "node_types (_ # ns) = None"

definition mirrors :: "string \<Rightarrow> (string, pyval) odict \<Rightarrow> bool" where
  "mirrors k kw = (od_get kw k \<noteq> None)"

definition require_prompt_nodes :: "json_object \<Rightarrow> (string, pyval) odict \<Rightarrow> store_error option" where
  "require_prompt_nodes g kw =
     (case iterate (py_or (py_get g ''nodes'') (PList [])) of
        None \<Rightarrow> Some Crashed
      | Some ns \<Rightarrow>
          (case node_types ns of
             None \<Rightarrow> Some Crashed
           | Some ts \<Rightarrow>
               if mirrors ''greeting'' kw \<and> PStr ''start'' \<notin> set ts then Some BadRequest
               else if mirrors ''system_prompt'' kw \<and> PStr ''global'' \<notin> set ts then Some BadRequest
               else None))"

text \<open>\<^verbatim>\<open>dict(x)\<close> of a list of pairs; a key that is no text becomes one when the graph is written as JSON.\<close>

definition pair_key :: "pyval \<Rightarrow> string option" where
  "pair_key v =
     (case v of
        PStr s \<Rightarrow> Some s
      | PInt n \<Rightarrow> Some (py_str_int n)
      | PBool b \<Rightarrow> Some (if b then ''true'' else ''false'')
      | PFloat _ r \<Rightarrow> Some r
      | PNone \<Rightarrow> Some ''null''
      | _ \<Rightarrow> None)"

fun dict_of_pairs :: "pyval list \<Rightarrow> json_object \<Rightarrow> store_error + json_object" where
  "dict_of_pairs [] d = Inr d"
| "dict_of_pairs (p # ps) d =
     (case iterate p of
        None \<Rightarrow> Inl Crashed
      | Some [k, v] \<Rightarrow>
          (case pair_key k of
             None \<Rightarrow> Inl Crashed
           | Some s \<Rightarrow> dict_of_pairs ps (od_set s v d))
      | Some _ \<Rightarrow> Inl BadRequest)"

definition py_dict :: "pyval \<Rightarrow> store_error + json_object" where
  "py_dict v =
     (case py_or v (PDict []) of
        PDict d \<Rightarrow> Inr d
      | PList xs \<Rightarrow> dict_of_pairs xs []
      | PStr _ \<Rightarrow> Inl BadRequest
      | _ \<Rightarrow> Inl Crashed)"

definition mirror_data :: "pyval \<Rightarrow> (string, pyval) odict \<Rightarrow> json_object \<Rightarrow> json_object" where
  "mirror_data ty kw d =
     (let d1 = (if ty = PStr ''global'' \<and> mirrors ''system_prompt'' kw
                then od_set ''prompt'' (PStr (coerce_prompt (py_get kw ''system_prompt''))) d else d)
      in if ty = PStr ''start'' \<and> mirrors ''greeting'' kw
         then od_set ''greeting'' (PStr (coerce_prompt (py_get kw ''greeting''))) d1 else d1)"

fun mirror_nodes :: "(string, pyval) odict \<Rightarrow> pyval list \<Rightarrow> store_error + pyval list" where
  "mirror_nodes kw [] = Inr []"
| "mirror_nodes kw (PDict raw # ns) =
     (case py_dict (py_get raw ''data'') of
        Inl e \<Rightarrow> Inl e
      | Inr d \<Rightarrow>
          (case mirror_nodes kw ns of
             Inl e \<Rightarrow> Inl e
           | Inr rest \<Rightarrow>
               Inr (PDict (od_set ''data'' (PDict (mirror_data (py_get raw ''type'') kw d)) raw) # rest)))"
| "mirror_nodes kw (_ # ns) = Inl Crashed"

definition mirror_prompts_into_graph :: "json_object \<Rightarrow> (string, pyval) odict \<Rightarrow> store_error + json_object" where
  "mirror_prompts_into_graph g kw =
     (if \<not> mirrors ''greeting'' kw \<and> \<not> mirrors ''system_prompt'' kw then Inr g
      else case require_prompt_nodes g kw of
        Some e \<Rightarrow> Inl e
      | None \<Rightarrow>
          (case iterate (py_or (py_get g ''nodes'') (PList [])) of
             None \<Rightarrow> Inl Crashed
           | Some ns \<Rightarrow>
               (case mirror_nodes kw ns of
                  Inl e \<Rightarrow> Inl e
                | Inr ns' \<Rightarrow> Inr (od_set ''nodes'' (PList ns') g))))"

text \<open>\<^verbatim>\<open>workflows.validate\<close>: the errors of the editor, or the warnings.\<close>

definition validate :: "(string list \<Rightarrow> string list) \<Rightarrow> json_object \<Rightarrow> store_error + wf_error list" where
  "validate order g =
     (case parse_graph (PDict g) of
        Inl (WorkflowInvalid errs) \<Rightarrow> Inl (InvalidGraph errs)
      | Inl (Raised _) \<Rightarrow> Inl Crashed
      | Inr parsed \<Rightarrow>
          (case graph_warnings order parsed [] of
             Some (Inr ws) \<Rightarrow> Inr ws
           | _ \<Rightarrow> Inl Crashed))"

definition latest_version :: "nat \<Rightarrow> agent_store \<Rightarrow> nat" where
  "latest_version i s = foldr max (map vr_version (filter (\<lambda>v. vr_agent v = i) (st_versions s))) 0"

definition append_version :: "nat \<Rightarrow> json_object \<Rightarrow> nat option \<Rightarrow> string option \<Rightarrow> agent_store \<Rightarrow> nat \<times> agent_store" where
  "append_version i g uid note s =
     (let v = Suc (latest_version i s) in
      (v, s\<lparr>st_versions := st_versions s @
              [\<lparr>vr_agent = i, vr_version = v, vr_graph = g, vr_published_by = uid, vr_note = note\<rparr>]\<rparr>))"

section \<open>Provider assignments\<close>

text \<open>
  \<^verbatim>\<open>uuid.UUID(text)\<close>, as the number it stands for: hyphens, braces and the prefixes of a URN are
  dropped, 32 hexadecimal digits have to be left.
\<close>

function py_remove :: "string \<Rightarrow> string \<Rightarrow> string" where
  "py_remove sub [] = []"
| "py_remove sub (c # s) =
     (if sub \<noteq> [] \<and> starts_with sub (c # s) then py_remove sub (drop (length sub) (c # s))
      else c # py_remove sub s)"
  by pat_completeness auto
termination
  by (relation "measure (length \<circ> snd)") auto

definition strip_braces_of :: "string \<Rightarrow> string" where
  "strip_braces_of s =
     (let brace = (\<lambda>c. c = CHR ''{'' \<or> c = CHR ''}'')
      in rev (dropWhile brace (rev (dropWhile brace s))))"

definition hex_value :: "char \<Rightarrow> int option" where
  "hex_value c =
     (let n = (of_char c :: nat) in
      if ascii_digit c then Some (int n - 48)
      else if 97 \<le> n \<and> n \<le> 102 then Some (int n - 87)
      else if 65 \<le> n \<and> n \<le> 70 then Some (int n - 55)
      else None)"

definition uuid_value :: "string \<Rightarrow> int option" where
  "uuid_value s =
     (let h = py_remove ''-'' (strip_braces_of (py_remove ''uuid:'' (py_remove ''urn:'' s))) in
      if length h = 32 \<and> list_all (\<lambda>c. hex_value c \<noteq> None) h
      then Some (foldl (\<lambda>n c. 16 * n + the (hex_value c)) 0 h) else None)"

definition PROVIDER_ROLE_BY_FIELD :: "(string \<times> string) list" where
  "PROVIDER_ROLE_BY_FIELD =
     [(''stt_config_id'', ''stt''), (''llm_config_id'', ''llm''), (''tts_config_id'', ''tts'')]"

definition TTS_ENGINES_REQUIRING_VOICE :: "string list" where
  "TTS_ENGINES_REQUIRING_VOICE = [''elevenlabs'']"

definition assignment_problem :: "nat \<Rightarrow> string \<Rightarrow> pyval \<Rightarrow> agent_store \<Rightarrow> store_error option" where
  "assignment_problem t role v s =
     (case v of
        PNone \<Rightarrow> None
      | PStr text \<Rightarrow>
          (case uuid_value text of
             None \<Rightarrow> Some BadRequest
           | Some k \<Rightarrow>
               (case od_get (st_providers s) k of
                  None \<Rightarrow> Some BadRequest
                | Some p \<Rightarrow>
                    if pr_tenant p \<noteq> t then Some BadRequest
                    else if pr_role p \<noteq> role then Some BadRequest
                    else if pr_engine p \<in> set TTS_ENGINES_REQUIRING_VOICE \<and>
                            (pr_voice p = None \<or> pr_voice p = Some [])
                    then Some BadRequest
                    else None))
      | _ \<Rightarrow> Some Crashed)"

fun assignments_problem ::
  "(string \<times> string) list \<Rightarrow> nat \<Rightarrow> (string, pyval) odict \<Rightarrow> agent_store \<Rightarrow> store_error option" where
  "assignments_problem [] t kw s = None"
| "assignments_problem ((field, role) # rs) t kw s =
     (case assignment_problem t role (py_get kw field) s of
        Some e \<Rightarrow> Some e
      | None \<Rightarrow> assignments_problem rs t kw s)"

definition validate_provider_assignments ::
  "nat \<Rightarrow> (string, pyval) odict \<Rightarrow> agent_store \<Rightarrow> store_error option" where
  "validate_provider_assignments t kw s = assignments_problem PROVIDER_ROLE_BY_FIELD t kw s"

section \<open>Writing agents\<close>

text \<open>The value a column takes: a reference to a provider is the number its text stands for.\<close>

definition column_value :: "string \<Rightarrow> pyval \<Rightarrow> pyval" where
  "column_value k v =
     (if k \<in> set (map fst PROVIDER_ROLE_BY_FIELD) then
        (case v of PStr s \<Rightarrow> (case uuid_value s of Some n \<Rightarrow> PInt n | None \<Rightarrow> v) | _ \<Rightarrow> v)
      else v)"

definition INT_COLUMNS :: "string list" where
  "INT_COLUMNS = [''goodbye_grace_ms'', ''escalation_threshold'', ''max_call_duration_s'']"

definition column_typed :: "string \<times> pyval \<Rightarrow> bool" where
  "column_typed p =
     (case snd p of
        PNone \<Rightarrow> True
      | PInt n \<Rightarrow> fst p \<in> set (map fst PROVIDER_ROLE_BY_FIELD) \<or>
                  (fst p \<in> set INT_COLUMNS \<and> - 2147483648 \<le> n \<and> n \<le> 2147483647)
      | PStr s \<Rightarrow> fst p \<notin> set INT_COLUMNS \<and> char_of (0::nat) \<notin> set s
      | _ \<Rightarrow> False)"

definition set_columns :: "(string, pyval) odict \<Rightarrow> (string, pyval) odict \<Rightarrow> (string, pyval) odict" where
  "set_columns kw cols = fold (\<lambda>(k, v). od_set k (column_value k v)) kw cols"

text \<open>Whether PostgreSQL stores a row: the column types, the constraints, and what jsonb can hold.\<close>

definition row_storable :: "agent_row \<Rightarrow> bool" where
  "row_storable r =
     (list_all column_typed (ag_fields r) \<and> columns_ok (ag_fields r) \<and>
      (case ag_workflow r of None \<Rightarrow> True | Some g \<Rightarrow> json_storable (PDict g)) \<and>
      (case ag_draft r of None \<Rightarrow> True | Some g \<Rightarrow> json_storable (PDict g)))"

definition slug_taken :: "nat \<Rightarrow> string \<Rightarrow> agent_store \<Rightarrow> bool" where
  "slug_taken t slug s = list_ex (\<lambda>p. ag_tenant (snd p) = t \<and> ag_slug (snd p) = slug) (st_agents s)"

definition starter_object :: "string \<Rightarrow> string \<Rightarrow> json_object" where
  "starter_object greeting system_prompt =
     (case starter_graph greeting system_prompt [] [] of PDict d \<Rightarrow> d | _ \<Rightarrow> [])"

definition new_agent_row ::
  "nat \<Rightarrow> string \<Rightarrow> string \<Rightarrow> string \<Rightarrow> string \<Rightarrow> (string, pyval) odict \<Rightarrow> json_object \<Rightarrow> agent_row" where
  "new_agent_row t slug name greeting system_prompt providers g =
     \<lparr>ag_tenant = t, ag_slug = slug,
      ag_fields = set_columns
        ([(''name'', PStr name), (''greeting'', PStr greeting), (''system_prompt'', PStr system_prompt)]
         @ providers) column_defaults,
      ag_workflow = Some g, ag_draft = Some g, ag_version = 1, ag_deleted_at = None\<rparr>"

definition initial_graph :: "json_object option \<Rightarrow> string \<Rightarrow> string \<Rightarrow> json_object" where
  "initial_graph workflow greeting system_prompt =
     (case workflow of
        Some w \<Rightarrow> if w \<noteq> [] then w else starter_object greeting system_prompt
      | None \<Rightarrow> starter_object greeting system_prompt)"

text \<open>\<^verbatim>\<open>create_agent\<close>, without the warming of the cache, which follows the transaction.\<close>

definition insert_agent ::
  "(string list \<Rightarrow> string list) \<Rightarrow> nat \<Rightarrow> string \<Rightarrow> string \<Rightarrow> string \<Rightarrow> string \<Rightarrow> (string, pyval) odict \<Rightarrow>
   json_object option \<Rightarrow> nat option \<Rightarrow> string option \<Rightarrow> agent_store \<Rightarrow> store_error + (nat \<times> agent_row \<times> agent_store)"
where
  "insert_agent order t slug name greeting0 system_prompt0 providers workflow uid email s =
     (let g = initial_graph workflow greeting0 system_prompt0 in
      case validate order g of
        Inl e \<Rightarrow> Inl e
      | Inr _ \<Rightarrow>
          (case column_prompts g of
             None \<Rightarrow> Inl Crashed
           | Some (greeting, system_prompt) \<Rightarrow>
               (case validate_provider_assignments t providers s of
                  Some e \<Rightarrow> Inl e
                | None \<Rightarrow>
                    let row = new_agent_row t slug name greeting system_prompt providers g; i = st_next s in
                    if od_get (st_tenants s) t = None \<or> slug_taken t slug s \<or> \<not> row_storable row
                    then Inl Refused
                    else Inr (i, row,
                      store_audit ''agent'' i ''created'' uid email
                        (snd (append_version i g uid (Some ''created with the agent'')
                          (s\<lparr>st_agents := od_set i row (st_agents s), st_next := Suc i\<rparr>)))))))"

definition create_agent ::
  "bool \<Rightarrow> bool \<Rightarrow> rat \<Rightarrow> (string list \<Rightarrow> string list) \<Rightarrow> nat \<Rightarrow> string \<Rightarrow> string \<Rightarrow> string \<Rightarrow> string \<Rightarrow>
   (string, pyval) odict \<Rightarrow> json_object option \<Rightarrow> string option \<Rightarrow> nat option \<Rightarrow> string option \<Rightarrow> agent_store \<Rightarrow>
   store_error + (agent_row \<times> agent_store)"
where
  "create_agent up1 up2 now order t slug name greeting system_prompt providers workflow tenant_slug uid email s =
     (case insert_agent order t slug name greeting system_prompt providers workflow uid email s of
        Inl e \<Rightarrow> Inl e
      | Inr (i, row, s1) \<Rightarrow>
          Inr (public_agent row,
               case tenant_slug of None \<Rightarrow> s1 | Some ts \<Rightarrow> snd (get_agent up1 up2 now ts slug s1)))"

text \<open>The kw of an update, with the prompts as texts.\<close>

definition coerced_fields :: "(string, pyval) odict \<Rightarrow> (string, pyval) odict" where
  "coerced_fields kw =
     map (\<lambda>(k, v). (k, if k = ''greeting'' \<or> k = ''system_prompt'' then PStr (coerce_prompt v) else v)) kw"

definition changed_graph :: "json_object \<Rightarrow> json_object \<Rightarrow> json_object option" where
  "changed_graph new old = (if val_eq True (PDict new) (PDict old) then None else Some new)"

text \<open>
  The graphs an update writes: the new live graph and the new draft, each only when the mirrored prompts
  change it. An agent without a draft gets its draft from the live graph.
\<close>

definition mirrored_graphs ::
  "agent_row \<Rightarrow> (string, pyval) odict \<Rightarrow> store_error + (json_object option \<times> json_object option)" where
  "mirrored_graphs old kw =
     (case ag_workflow old of
        None \<Rightarrow> Inr (None, None)
      | Some live \<Rightarrow>
          if \<not> mirrors ''greeting'' kw \<and> \<not> mirrors ''system_prompt'' kw then Inr (None, None)
          else
            (case mirror_prompts_into_graph live (coerced_fields kw) of
               Inl e \<Rightarrow> Inl e
             | Inr live' \<Rightarrow>
                 let draft = (case ag_draft old of Some d \<Rightarrow> d | None \<Rightarrow> live) in
                 (case mirror_prompts_into_graph draft (coerced_fields kw) of
                    Inl e \<Rightarrow> Inl e
                  | Inr draft' \<Rightarrow> Inr (changed_graph live' live, changed_graph draft' draft))))"

definition updated_row ::
  "agent_row \<Rightarrow> (string, pyval) odict \<Rightarrow> json_object option \<times> json_object option \<Rightarrow> agent_row" where
  "updated_row old kw graphs =
     old\<lparr>ag_fields := set_columns (coerced_fields kw) (ag_fields old),
         ag_workflow := (case fst graphs of Some g \<Rightarrow> Some g | None \<Rightarrow> ag_workflow old),
         ag_draft := (case snd graphs of Some g \<Rightarrow> Some g | None \<Rightarrow> ag_draft old)\<rparr>"

definition update_agent ::
  "bool \<Rightarrow> nat \<Rightarrow> string \<Rightarrow> (string, pyval) odict \<Rightarrow> nat option \<Rightarrow> string option \<Rightarrow> agent_store \<Rightarrow>
   store_error + (agent_row \<times> agent_store)"
where
  "update_agent up i tenant_slug kw uid email s =
     (if kw = [] then Inl BadRequest
      else if \<not> set (od_keys kw) \<subseteq> set UPDATABLE_FIELDS then Inl BadRequest
      else case scoped_agent i tenant_slug s of
        None \<Rightarrow> Inl AgentNotFound
      | Some old \<Rightarrow>
          (case validate_provider_assignments (ag_tenant old) kw s of
             Some e \<Rightarrow> Inl e
           | None \<Rightarrow>
               (case mirrored_graphs old kw of
                  Inl e \<Rightarrow> Inl e
                | Inr graphs \<Rightarrow>
                    let row = updated_row old kw graphs in
                    if \<not> row_storable row then Inl Refused
                    else
                      let s1 = put_agent i old row s;
                          s2 = (case fst graphs of
                                  Some g \<Rightarrow> snd (append_version i g uid (Some ''mirrored greeting/system_prompt'') s1)
                                | None \<Rightarrow> s1)
                      in Inr (public_agent (version_trigger old row),
                              forget_agent up tenant_slug (ag_slug old)
                                (store_audit ''agent'' i ''updated'' uid email s2)))))"

definition soft_delete_agent ::
  "bool \<Rightarrow> rat \<Rightarrow> nat \<Rightarrow> string \<Rightarrow> nat option \<Rightarrow> string option \<Rightarrow> agent_store \<Rightarrow> store_error + agent_store"
where
  "soft_delete_agent up now i tenant_slug uid email s =
     (case scoped_agent i tenant_slug s of
        None \<Rightarrow> Inl AgentNotFound
      | Some old \<Rightarrow>
          Inr (forget_agent up tenant_slug (ag_slug old)
            (store_audit ''agent'' i ''deleted'' uid email
              (put_agent i old (old\<lparr>ag_deleted_at := Some now\<rparr>) s))))"

section \<open>Drafts, publishing and versions\<close>

text \<open>\<^verbatim>\<open>get_workflow\<close>: the live graph, the draft, whether anything is published, and the version.\<close>

definition get_workflow ::
  "nat \<Rightarrow> string \<Rightarrow> agent_store \<Rightarrow> store_error + (json_object option \<times> json_object option \<times> bool \<times> nat)" where
  "get_workflow i tenant_slug s =
     (case locked_agent i tenant_slug s of
        None \<Rightarrow> Inl AgentNotFound
      | Some r \<Rightarrow> Inr (ag_workflow r, ag_draft r, ag_workflow r \<noteq> None, ag_version r))"

definition save_draft ::
  "bool \<Rightarrow> nat \<Rightarrow> string \<Rightarrow> json_object \<Rightarrow> nat option \<Rightarrow> agent_store \<Rightarrow> store_error + (nat \<times> agent_store)" where
  "save_draft up i tenant_slug g base s =
     (if \<not> json_storable (PDict g) then Inl Refused
      else case locked_agent i tenant_slug s of
        None \<Rightarrow> Inl AgentNotFound
      | Some r \<Rightarrow>
          if base \<noteq> None \<and> base \<noteq> Some (ag_version r) then Inl StaleDraft
          else Inr (ag_version r,
                 forget_agent up tenant_slug (ag_slug r) (put_agent i r (r\<lparr>ag_draft := Some g\<rparr>) s)))"

text \<open>The part of \<^verbatim>\<open>publish\<close> before its transaction: the graph that gets validated, and its warnings.\<close>

definition publish_peek ::
  "(string list \<Rightarrow> string list) \<Rightarrow> nat \<Rightarrow> string \<Rightarrow> json_object option \<Rightarrow> agent_store \<Rightarrow>
   store_error + (json_object \<times> wf_error list)"
where
  "publish_peek order i tenant_slug graph s =
     (case (case graph of
              Some g \<Rightarrow> Inr g
            | None \<Rightarrow>
                (case locked_agent i tenant_slug s of
                   None \<Rightarrow> Inl AgentNotFound
                 | Some r \<Rightarrow> (case ag_draft r of None \<Rightarrow> Inl BadRequest | Some g \<Rightarrow> Inr g))) of
        Inl e \<Rightarrow> Inl e
      | Inr g \<Rightarrow> (case validate order g of Inl e \<Rightarrow> Inl e | Inr ws \<Rightarrow> Inr (g, ws)))"

text \<open>The check inside the transaction: another draft than the peeked one is validated again.\<close>

definition revalidate ::
  "(string list \<Rightarrow> string list) \<Rightarrow> json_object \<Rightarrow> json_object \<times> wf_error list \<Rightarrow> store_error + wf_error list" where
  "revalidate order candidate peeked =
     (case graphs_equivalent (Some candidate) (Some (fst peeked)) of
        None \<Rightarrow> Inl Crashed
      | Some True \<Rightarrow> Inr (snd peeked)
      | Some False \<Rightarrow> validate order candidate)"

text \<open>
  The two ways \<^verbatim>\<open>publish\<close> writes: the same logic as the live graph, where only positions are synced, or a
  new version. The result is the version number, the row and the tables.
\<close>

definition sync_positions :: "nat \<Rightarrow> agent_row \<Rightarrow> json_object \<Rightarrow> agent_store \<Rightarrow> store_error + (nat \<times> agent_row \<times> agent_store)"
where
  "sync_positions i old candidate s =
     (let row = old\<lparr>ag_workflow := Some candidate, ag_draft := Some candidate\<rparr> in
      if \<not> row_storable row then Inl Refused
      else Inr (latest_version i s, version_trigger old row, put_agent i old row s))"

definition publish_version ::
  "nat \<Rightarrow> agent_row \<Rightarrow> json_object \<Rightarrow> string option \<Rightarrow> nat option \<Rightarrow> string option \<Rightarrow> agent_store \<Rightarrow>
   store_error + (nat \<times> agent_row \<times> agent_store)"
where
  "publish_version i old candidate note uid email s =
     (case column_prompts candidate of
        None \<Rightarrow> Inl Crashed
      | Some (greeting, system_prompt) \<Rightarrow>
          let row = old\<lparr>ag_workflow := Some candidate, ag_draft := Some candidate,
                        ag_fields := od_set ''system_prompt'' (PStr system_prompt)
                          (od_set ''greeting'' (PStr greeting) (ag_fields old))\<rparr> in
          if \<not> row_storable row then Inl Refused
          else
            let (v, s1) = append_version i candidate uid note (put_agent i old row s)
            in Inr (v, version_trigger old row, store_audit ''agent_workflow'' i ''updated'' uid email s1))"

definition publish_commit ::
  "bool \<Rightarrow> (string list \<Rightarrow> string list) \<Rightarrow> nat \<Rightarrow> string \<Rightarrow> json_object option \<Rightarrow> string option \<Rightarrow> nat option \<Rightarrow>
   string option \<Rightarrow> json_object \<times> wf_error list \<Rightarrow> agent_store \<Rightarrow>
   store_error + ((nat \<times> nat \<times> wf_error list) \<times> agent_store)"
where
  "publish_commit up order i tenant_slug graph note uid email peeked s =
     (case locked_agent i tenant_slug s of
        None \<Rightarrow> Inl AgentNotFound
      | Some old \<Rightarrow>
          (case (case graph of Some g \<Rightarrow> Some g | None \<Rightarrow> ag_draft old) of
             None \<Rightarrow> Inl BadRequest
           | Some candidate \<Rightarrow>
               (case revalidate order candidate peeked of
                  Inl e \<Rightarrow> Inl e
                | Inr ws \<Rightarrow>
                    (case graphs_equivalent (Some candidate) (ag_workflow old) of
                       None \<Rightarrow> Inl Crashed
                     | Some same \<Rightarrow>
                         (case (if same then sync_positions i old candidate s
                                else publish_version i old candidate note uid email s) of
                            Inl e \<Rightarrow> Inl e
                          | Inr (v, row, s1) \<Rightarrow>
                              Inr ((v, ag_version row, ws), forget_agent up tenant_slug (ag_slug row) s1))))))"

definition publish_workflow ::
  "bool \<Rightarrow> (string list \<Rightarrow> string list) \<Rightarrow> nat \<Rightarrow> string \<Rightarrow> json_object option \<Rightarrow> string option \<Rightarrow> nat option \<Rightarrow>
   string option \<Rightarrow> agent_store \<Rightarrow> store_error + ((nat \<times> nat \<times> wf_error list) \<times> agent_store)"
where
  "publish_workflow up order i tenant_slug graph note uid email s =
     (case publish_peek order i tenant_slug graph s of
        Inl e \<Rightarrow> Inl e
      | Inr peeked \<Rightarrow> publish_commit up order i tenant_slug graph note uid email peeked s)"

definition get_version :: "nat \<Rightarrow> string \<Rightarrow> nat \<Rightarrow> agent_store \<Rightarrow> version_row option" where
  "get_version i tenant_slug v s =
     (case locked_agent i tenant_slug s of
        None \<Rightarrow> None
      | Some _ \<Rightarrow> find (\<lambda>r. vr_agent r = i \<and> vr_version r = v) (st_versions s))"

text \<open>\<^verbatim>\<open>list_versions\<close>: newest first, at most 200; the versions of an agent are appended in ascending order.\<close>

definition list_versions :: "nat \<Rightarrow> string \<Rightarrow> int \<Rightarrow> agent_store \<Rightarrow> version_row list" where
  "list_versions i tenant_slug limit s =
     (case locked_agent i tenant_slug s of
        None \<Rightarrow> []
      | Some _ \<Rightarrow>
          take (nat (max 1 (min limit 200))) (rev (filter (\<lambda>r. vr_agent r = i) (st_versions s))))"

definition rollback ::
  "bool \<Rightarrow> (string list \<Rightarrow> string list) \<Rightarrow> nat \<Rightarrow> string \<Rightarrow> nat \<Rightarrow> nat option \<Rightarrow> string option \<Rightarrow> agent_store \<Rightarrow>
   store_error + ((nat \<times> nat \<times> wf_error list) \<times> agent_store)"
where
  "rollback up order i tenant_slug v uid email s =
     (case get_version i tenant_slug v s of
        None \<Rightarrow> Inl AgentNotFound
      | Some r \<Rightarrow>
          publish_workflow up order i tenant_slug (Some (vr_graph r))
            (Some (''rollback to version '' @ py_str_int (int v))) uid email s)"

section \<open>Mirroring keeps a graph valid\<close>

text \<open>Validation never looks at the prompt or the greeting of a node.\<close>

definition blind :: "node \<Rightarrow> node" where
  "blind n = n\<lparr>n_prompt := [], n_greeting := None\<rparr>"

definition blinds :: "(string, node) odict \<Rightarrow> (string, node) odict" where
  "blinds d = map (\<lambda>p. (fst p, blind (snd p))) d"

lemma blind_sel [simp]:
  "n_id (blind n) = n_id n" "n_type (blind n) = n_type n" "n_name (blind n) = n_name n"
  "n_transfer_destination (blind n) = n_transfer_destination n"
  "n_is_terminal (blind n) = n_is_terminal n" "n_is_unwired (blind n) = n_is_unwired n"
  by (simp_all add: blind_def n_is_terminal_def n_is_unwired_def)

lemma blind_fields:
  "blind n = blind m \<longleftrightarrow>
     n_id n = n_id m \<and> n_type n = n_type m \<and> n_name n = n_name m \<and>
     n_delayed_start_ms n = n_delayed_start_ms m \<and> n_tools n = n_tools m \<and>
     n_knowledge_base_ids n = n_knowledge_base_ids m \<and> n_extraction n = n_extraction m \<and>
     n_transfer_destination n = n_transfer_destination m \<and> n_disposition n = n_disposition m \<and>
     n_out_edges n = n_out_edges m"
  by (cases n, cases m) (auto simp: blind_def)

lemma name_errors_blind: "name_errors (map blind ns) seen = name_errors ns seen"
  by (induction ns seen rule: name_errors.induct) simp_all

lemma filter_blind: "(\<And>n. P (blind n) = P n) \<Longrightarrow> filter P (map blind ns) = map blind (filter P ns)"
  by (induction ns) simp_all

lemma count_errors_blind: "count_errors (map blind ns) = count_errors ns"
  by (simp add: count_errors_def filter_blind list_ex_iff)

lemma wiring_errors_blind: "wiring_errors es (blind n) = wiring_errors es n"
  by (simp add: wiring_errors_def)

lemma od_get_blinds: "od_get (blinds d) k = map_option blind (od_get d k)"
  by (induction d) (auto simp: blinds_def od_get_def)

lemma collect_edges_blinds: "collect_edges (blinds d) raws errs es = collect_edges d raws errs es"
  by (induction d raws errs es rule: collect_edges.induct) (auto simp: od_get_blinds Let_def)

lemma blinds_set: "blinds (od_set k n d) = od_set k (blind n) (blinds d)"
  by (induction k n d rule: od_set.induct) (auto simp: blinds_def)

lemma blinds_snd: "map snd (blinds d) = map blind (map snd d)"
  by (simp add: blinds_def comp_def)

lemma same_blinds:
  assumes "blinds d = blinds e"
  shows "name_errors (map snd d) seen = name_errors (map snd e) seen"
    and "count_errors (map snd d) = count_errors (map snd e)"
    and "map (wiring_errors es) (map snd d) = map (wiring_errors es) (map snd e)"
    and "collect_edges d raws errs es = collect_edges e raws errs es"
proof -
  have b: "map blind (map snd d) = map blind (map snd e)"
    using assms by (metis blinds_snd)
  show "name_errors (map snd d) seen = name_errors (map snd e) seen"
    by (metis b name_errors_blind)
  show "count_errors (map snd d) = count_errors (map snd e)"
    by (metis b count_errors_blind)
  have w: "map (wiring_errors es) ns = map (wiring_errors es) (map blind ns)" for ns
    by (simp add: wiring_errors_blind)
  show "map (wiring_errors es) (map snd d) = map (wiring_errors es) (map snd e)"
    by (metis b w)
  show "collect_edges d raws errs es = collect_edges e raws errs es"
    by (metis assms collect_edges_blinds)
qed

lemma py_get_set: "py_get (od_set k v d) j = (if j = k then v else py_get d j)"
  by (simp add: py_get_def)

lemma py_get_mirror_data:
  "j \<noteq> ''prompt'' \<Longrightarrow> j \<noteq> ''greeting'' \<Longrightarrow> py_get (mirror_data ty kw d) j = py_get d j"
  by (simp add: mirror_data_def Let_def py_get_set)

lemma py_strip_Nil [simp]: "py_strip [] = []"
  by (simp add: py_strip_def py_lstrip_def py_rstrip_def)

lemma named_node_data:
  assumes "node_from_raw raw = Inr n" and "n_name n \<noteq> []"
  shows "\<exists>d. py_get raw ''data'' = PDict d \<and> d \<noteq> []"
proof (cases "py_get raw ''data''")
  case (PDict d)
  have "d \<noteq> []"
    using assms PDict by (auto simp: node_from_raw_def data_object_def Let_def split: sum.splits)
  then show ?thesis using PDict by simp
qed (use assms in \<open>auto simp: node_from_raw_def data_object_def Let_def split: sum.splits\<close>)

lemma node_from_mirrored:
  assumes n: "node_from_raw raw = Inr n" and d: "py_get raw ''data'' = PDict d"
  shows "\<exists>m. node_from_raw (od_set ''data'' (PDict (mirror_data ty kw d)) raw) = Inr m \<and> blind m = blind n"
  using assms
  by (auto simp: node_from_raw_def data_object_def Let_def py_get_set py_get_mirror_data blind_fields
      split: sum.splits)

lemma collect_mirrored:
  assumes "collect_nodes raws errs nodes = Inr ([], res)" and "mirror_nodes kw raws = Inr raws'"
    and "blinds nodes' = blinds nodes"
  shows "\<exists>res'. collect_nodes raws' [] nodes' = Inr ([], res') \<and> blinds res' = blinds res"
  using assms
proof (induction raws errs nodes arbitrary: raws' nodes' rule: collect_nodes.induct)
  case (2 raw raws errs nodes)
  obtain n where n: "node_from_raw raw = Inr n" using "2.prems"(1) by (auto split: sum.splits)
  have id: "n_id n \<noteq> []" and new: "od_get nodes (n_id n) = None"
    using "2.prems"(1) n by (auto split: if_splits dest: collect_nodes_errs)
  have rec: "\<exists>es. collect_nodes raws es (od_set (n_id n) n nodes) = Inr ([], res) \<and>
      errs @ (if n_type n \<notin> set NODE_TYPES
              then [err ''node'' (Some (n_id n)) (Some ''type'') (UnknownType (n_type n))] else [])
           @ (if n_name n = [] then [err ''node'' (Some (n_id n)) (Some ''name'') NeedsName] else []) = es"
    using "2.prems"(1) n id new by simp
  then have e: "errs = []" "n_type n \<in> set NODE_TYPES" "n_name n \<noteq> []"
    by (auto dest: collect_nodes_errs split: if_splits)
  obtain d where d: "py_get raw ''data'' = PDict d" "d \<noteq> []"
    using named_node_data [OF n e(3)] by blast
  obtain rest where rest: "mirror_nodes kw raws = Inr rest"
    and raws': "raws' = PDict (od_set ''data'' (PDict (mirror_data (py_get raw ''type'') kw d)) raw) # rest"
    using "2.prems"(2) d by (auto simp: py_dict_def py_or_def split: sum.splits)
  obtain m where m: "node_from_raw (od_set ''data'' (PDict (mirror_data (py_get raw ''type'') kw d)) raw) = Inr m"
    "blind m = blind n"
    using node_from_mirrored [OF n d(1)] by blast
  have same: "n_id m = n_id n" "n_type m = n_type n" "n_name m = n_name n"
    using m(2) by (simp_all add: blind_fields)
  have new': "od_get nodes' (n_id n) = None"
    using new "2.prems"(3) by (metis map_option_is_None od_get_blinds)
  have "blinds (od_set (n_id n) m nodes') = blinds (od_set (n_id n) n nodes)"
    using "2.prems"(3) m(2) by (simp add: blinds_set)
  moreover have "collect_nodes raws [] (od_set (n_id n) n nodes) = Inr ([], res)"
    using rec e by auto
  ultimately obtain res' where "collect_nodes rest [] (od_set (n_id n) m nodes') = Inr ([], res')"
    "blinds res' = blinds res"
    using "2.IH"(3) [OF n id] new e rest by auto
  then show ?case using raws' m(1) same id new' e by simp
qed (auto dest: collect_nodes_errs)

lemma parse_graph_iff: "(\<exists>gr. parse_graph raw = Inr gr) \<longleftrightarrow> (\<exists>gr. validate_and_build raw = Inr ([], Some gr))"
  by (auto simp: parse_graph_def split: sum.splits option.splits if_splits)

text \<open>What validation of a graph with at least one node and a list of edges comes down to.\<close>

definition nodes_valid :: "(string, node) odict \<Rightarrow> pyval list \<Rightarrow> bool" where
  "nodes_valid nodes raw_edges =
     (let ns = map snd nodes; r = collect_edges nodes raw_edges (name_errors ns [] @ count_errors ns) []
      in fst r @ concat (map (wiring_errors (snd r)) ns) = [])"

lemma nodes_valid_blinds: "blinds d = blinds e \<Longrightarrow> nodes_valid d raws = nodes_valid e raws"
  unfolding nodes_valid_def Let_def using same_blinds [of d e] by simp

lemma valid_start:
  assumes "nodes_valid nodes raws"
  obtains n where "filter (\<lambda>n. n_type n = ''start'') (map snd nodes) = [n]"
proof -
  have "name_errors (map snd nodes) [] @ count_errors (map snd nodes) = []"
    using assms unfolding nodes_valid_def Let_def
    by (metis append_is_Nil_conv collect_edges_errs prod.collapse)
  then have "length (filter (\<lambda>n. n_type n = ''start'') (map snd nodes)) = 1"
    by (auto simp: count_errors_def Let_def split: if_splits)
  then show thesis using that length_one_conv by blast
qed

lemma validate_iff:
  "(\<exists>gr. validate_and_build (PDict g) = Inr ([], Some gr)) \<longleftrightarrow>
     (\<exists>raws es nodes. py_get g ''nodes'' = PList raws \<and> raws \<noteq> [] \<and>
        py_or (py_get g ''edges'') (PList []) = PList es \<and>
        collect_nodes raws [] [] = Inr ([], nodes) \<and> nodes_valid nodes es)"
    (is "?l = ?r")
proof
  assume ?l
  then show ?r
    by (auto simp: validate_and_build_def nodes_valid_def Let_def
        split: pyval.splits sum.splits prod.splits if_splits list.splits)
next
  assume ?r
  then obtain raws es nodes where r: "py_get g ''nodes'' = PList raws" "raws \<noteq> []"
    "py_or (py_get g ''edges'') (PList []) = PList es" "collect_nodes raws [] [] = Inr ([], nodes)"
    "nodes_valid nodes es"
    by blast
  obtain n where "filter (\<lambda>n. n_type n = ''start'') (map snd nodes) = [n]"
    using valid_start [OF r(5)] .
  then show ?l
    using r by (auto simp: validate_and_build_def nodes_valid_def Let_def split: prod.splits)
qed

lemma mirror_nodes_Nil: "mirror_nodes kw raws = Inr [] \<Longrightarrow> raws = []"
  by (induction kw raws rule: mirror_nodes.induct) (auto split: sum.splits)

lemma mirror_keeps_valid:
  assumes "parse_graph (PDict g) = Inr gr" and "mirror_prompts_into_graph g kw = Inr g'"
  shows "\<exists>gr'. parse_graph (PDict g') = Inr gr'"
proof (cases "g' = g")
  case True
  then show ?thesis using assms(1) by blast
next
  case False
  obtain raws es nodes where r: "py_get g ''nodes'' = PList raws" "raws \<noteq> []"
    "py_or (py_get g ''edges'') (PList []) = PList es" "collect_nodes raws [] [] = Inr ([], nodes)"
    "nodes_valid nodes es"
    using assms(1) validate_iff [of g] parse_graph_iff [of "PDict g"] by blast
  obtain raws' where m: "mirror_nodes kw raws = Inr raws'" "g' = od_set ''nodes'' (PList raws') g"
    using assms(2) False r(1,2)
    by (auto simp: mirror_prompts_into_graph_def iterate_def py_or_def split: if_splits option.splits sum.splits)
  obtain nodes' where n': "collect_nodes raws' [] [] = Inr ([], nodes')" "blinds nodes' = blinds nodes"
    using collect_mirrored [OF r(4) m(1) refl] by blast
  have "raws' \<noteq> []" using r(2) m(1) mirror_nodes_Nil by blast
  then have "\<exists>raws es nodes. py_get g' ''nodes'' = PList raws \<and> raws \<noteq> [] \<and>
        py_or (py_get g' ''edges'') (PList []) = PList es \<and>
        collect_nodes raws [] [] = Inr ([], nodes) \<and> nodes_valid nodes es"
    using r(3,5) n' m(2) nodes_valid_blinds [OF n'(2)] by (simp add: py_get_set)
  then show ?thesis using validate_iff [of g'] parse_graph_iff [of "PDict g'"] by blast
qed

lemma validate_parses: "validate order g = Inr ws \<Longrightarrow> \<exists>gr. parse_graph (PDict g) = Inr gr"
  by (auto simp: validate_def split: sum.splits parse_exn.splits)

text \<open>Validation ends on every graph, with its errors or with its warnings.\<close>

lemma validate_returns:
  assumes "\<And>xs. set (order xs) = set xs" and "parse_graph (PDict g) = Inr gr"
  shows "\<exists>ws. validate order g = Inr ws"
  using graph_warnings_spec [OF parse_graph_wf [OF assms(2)] assms(1), of "[]"] assms(2)
  by (auto simp: validate_def)

section \<open>Requests\<close>

text \<open>
  A request that fails leaves the tables as they were. \<open>PublishLate\<close> is the transaction of a publish
  whose peek happened at some earlier moment: its peeked graph and warnings are what validation accepted
  then.
\<close>

datatype store_event =
    Create "bool \<times> bool \<times> rat" nat string string string string "(string, pyval) odict" "json_object option"
      "string option" "nat option" "string option"
  | Update bool nat string "(string, pyval) odict" "nat option" "string option"
  | SoftDelete bool rat nat string "nat option" "string option"
  | GetAgent "bool \<times> bool \<times> rat" string string
  | SaveDraft bool nat string json_object "nat option"
  | Publish bool nat string "json_object option" "string option" "nat option" "string option"
  | PublishLate bool nat string "json_object option" "string option" "nat option" "string option"
      "json_object \<times> wf_error list"
  | Rollback bool nat string nat "nat option" "string option"

definition done_or :: "agent_store \<Rightarrow> store_error + ('r \<times> agent_store) \<Rightarrow> agent_store" where
  "done_or s r = (case r of Inl _ \<Rightarrow> s | Inr p \<Rightarrow> snd p)"

fun agents_step :: "(string list \<Rightarrow> string list) \<Rightarrow> store_event \<Rightarrow> agent_store \<Rightarrow> agent_store" where
  "agents_step order (Create c t slug name g sp providers workflow ts uid email) s =
     done_or s (create_agent (fst c) (fst (snd c)) (snd (snd c)) order t slug name g sp providers workflow ts uid email s)"
| "agents_step order (Update up i ts kw uid email) s = done_or s (update_agent up i ts kw uid email s)"
| "agents_step order (SoftDelete up now i ts uid email) s =
     (case soft_delete_agent up now i ts uid email s of Inl _ \<Rightarrow> s | Inr s' \<Rightarrow> s')"
| "agents_step order (GetAgent c ts slug) s = snd (get_agent (fst c) (fst (snd c)) (snd (snd c)) ts slug s)"
| "agents_step order (SaveDraft up i ts g base) s = done_or s (save_draft up i ts g base s)"
| "agents_step order (Publish up i ts g note uid email) s = done_or s (publish_workflow up order i ts g note uid email s)"
| "agents_step order (PublishLate up i ts g note uid email peeked) s =
     (if validate order (fst peeked) = Inr (snd peeked)
      then done_or s (publish_commit up order i ts g note uid email peeked s) else s)"
| "agents_step order (Rollback up i ts v uid email) s = done_or s (rollback up order i ts v uid email s)"

definition agents_init :: "(nat, tenant_row) odict \<Rightarrow> (int, provider_row) odict \<Rightarrow> agent_store" where
  "agents_init ts ps = \<lparr>st_tenants = ts, st_agents = [], st_providers = ps, st_versions = [], st_audit = [],
     st_next = 0, st_cache = []\<rparr>"

section \<open>The live graph is always valid\<close>

definition row_live :: "agent_row \<Rightarrow> bool" where
  "row_live r = (\<forall>g. ag_workflow r = Some g \<longrightarrow> (\<exists>gr. parse_graph (PDict g) = Inr gr))"

definition live_ok :: "agent_store \<Rightarrow> bool" where
  "live_ok s \<longleftrightarrow> (\<forall>r \<in> snd ` set (st_agents s). row_live r) \<and> (\<forall>r \<in> (fst \<circ> snd) ` set (st_cache s). row_live r)"

lemma version_trigger_sel [simp]:
  "ag_workflow (version_trigger old new) = ag_workflow new"
  "ag_draft (version_trigger old new) = ag_draft new"
  "ag_fields (version_trigger old new) = ag_fields new"
  "ag_slug (version_trigger old new) = ag_slug new"
  "ag_tenant (version_trigger old new) = ag_tenant new"
  "ag_deleted_at (version_trigger old new) = ag_deleted_at new"
  by (simp_all add: version_trigger_def)

lemma row_live_trigger [simp]: "row_live (version_trigger old new) = row_live new"
  by (simp add: row_live_def)

lemma row_live_public [simp]: "row_live (public_agent r) = row_live r"
  by (simp add: row_live_def public_agent_def)

lemma row_live_draft [simp]: "row_live (r\<lparr>ag_draft := d\<rparr>) = row_live r"
  by (simp add: row_live_def)

lemma row_live_deleted [simp]: "row_live (r\<lparr>ag_deleted_at := d\<rparr>) = row_live r"
  by (simp add: row_live_def)

lemma live_ok_put: "live_ok s \<Longrightarrow> row_live new \<Longrightarrow> live_ok (put_agent i old new s)"
  using set_od_set_subset [of i "version_trigger old new" "st_agents s"]
  by (auto simp: live_ok_def put_agent_def)

lemma live_ok_audit [simp]: "live_ok (store_audit e i a u m s) = live_ok s"
  by (simp add: live_ok_def store_audit_def)

lemma live_ok_append [simp]: "live_ok (snd (append_version i g u n s)) = live_ok s"
  by (simp add: live_ok_def append_version_def Let_def)

lemma live_ok_forget: "live_ok s \<Longrightarrow> live_ok (forget_agent up ts slug s)"
  using set_od_del [of "agent_cache_key ts slug" "st_cache s"]
  by (auto simp: live_ok_def forget_agent_def cache_invalidate_def)

lemma find_member: "find P xs = Some x \<Longrightarrow> x \<in> set xs"
  by (induction xs) (auto split: if_splits)

lemma find_agent_member: "find_agent ts slug s = Some r \<Longrightarrow> r \<in> snd ` set (st_agents s)"
  unfolding find_agent_def by (auto dest!: find_member intro: rev_image_eqI)

lemma scoped_agent_get: "scoped_agent i ts s = Some r \<Longrightarrow> od_get (st_agents s) i = Some r"
  by (auto simp: scoped_agent_def split: option.splits if_splits)

lemma locked_agent_iff:
  "locked_agent i ts s = Some r \<longleftrightarrow>
     od_get (st_agents s) i = Some r \<and> slug_of_tenant (ag_tenant r) s = Some ts \<and> ag_deleted_at r = None"
  by (auto simp: locked_agent_def scoped_agent_def split: option.splits if_splits)

lemma live_ok_row: "live_ok s \<Longrightarrow> od_get (st_agents s) i = Some r \<Longrightarrow> row_live r"
  by (force simp: live_ok_def dest: od_get_SomeD)

lemma live_ok_get_agent: "live_ok s \<Longrightarrow> live_ok (snd (get_agent up1 up2 now ts slug s))"
  using set_od_set_subset [of "agent_cache_key ts slug" _ "st_cache s"] find_agent_member [of ts slug s]
  by (fastforce simp: get_agent_def Let_def live_ok_def cache_set_json_def split: option.splits)

lemma insert_agent_ok:
  assumes "insert_agent order t slug name g sp providers workflow uid email s = Inr (i, row, s')"
  shows "\<exists>w gr. ag_workflow row = Some w \<and> parse_graph (PDict w) = Inr gr \<and> i = st_next s \<and>
    s' = store_audit ''agent'' i ''created'' uid email
           (snd (append_version i w uid (Some ''created with the agent'')
              (s\<lparr>st_agents := od_set i row (st_agents s), st_next := Suc i\<rparr>)))"
proof -
  let ?w = "initial_graph workflow g sp"
  obtain ws where v: "validate order ?w = Inr ws"
    using assms by (auto simp: insert_agent_def Let_def split: sum.splits)
  then obtain gr where "parse_graph (PDict ?w) = Inr gr" using validate_parses by blast
  moreover have "ag_workflow row = Some ?w \<and> i = st_next s \<and>
      s' = store_audit ''agent'' i ''created'' uid email
           (snd (append_version i ?w uid (Some ''created with the agent'')
              (s\<lparr>st_agents := od_set i row (st_agents s), st_next := Suc i\<rparr>)))"
    using assms v
    by (auto simp: insert_agent_def Let_def new_agent_row_def split: option.splits if_splits)
  ultimately show ?thesis by blast
qed

lemma live_ok_create:
  assumes "live_ok s" and "create_agent u1 u2 now order t slug name g sp providers workflow ts uid email s = Inr (r, s')"
  shows "live_ok s'"
proof -
  obtain i row s1 where i: "insert_agent order t slug name g sp providers workflow uid email s = Inr (i, row, s1)"
    and s': "s' = (case ts of None \<Rightarrow> s1 | Some ts \<Rightarrow> snd (get_agent u1 u2 now ts slug s1))"
    using assms(2) by (auto simp: create_agent_def split: sum.splits prod.splits)
  obtain w gr where w: "ag_workflow row = Some w" "parse_graph (PDict w) = Inr gr"
    "s1 = store_audit ''agent'' i ''created'' uid email
           (snd (append_version i w uid (Some ''created with the agent'')
              (s\<lparr>st_agents := od_set i row (st_agents s), st_next := Suc i\<rparr>)))"
    using insert_agent_ok [OF i] by blast
  then have "row_live row" by (simp add: row_live_def)
  then have "live_ok (s\<lparr>st_agents := od_set i row (st_agents s), st_next := Suc i\<rparr>)"
    using assms(1) set_od_set_subset [of i row "st_agents s"] by (auto simp: live_ok_def)
  then have "live_ok s1" using w(3) by simp
  then show ?thesis using s' live_ok_get_agent by (cases ts) auto
qed

lemma mirrored_live:
  assumes "row_live old" and "mirrored_graphs old kw = Inr graphs"
  shows "row_live (updated_row old kw graphs)"
  using assms mirror_keeps_valid
  by (auto simp: mirrored_graphs_def updated_row_def row_live_def changed_graph_def Let_def
      split: option.splits sum.splits if_splits; metis)

lemma update_agent_result:
  assumes "update_agent up i ts kw uid email s = Inr (r, s')"
  obtains old graphs where "scoped_agent i ts s = Some old" "mirrored_graphs old kw = Inr graphs"
    "r = public_agent (version_trigger old (updated_row old kw graphs))"
    "s' = forget_agent up ts (ag_slug old) (store_audit ''agent'' i ''updated'' uid email
        (case fst graphs of
           Some g \<Rightarrow> snd (append_version i g uid (Some ''mirrored greeting/system_prompt'')
                     (put_agent i old (updated_row old kw graphs) s))
         | None \<Rightarrow> put_agent i old (updated_row old kw graphs) s))"
  using assms by (auto simp: update_agent_def Let_def split: if_splits option.splits sum.splits)

lemma live_ok_update:
  assumes "live_ok s" and "update_agent up i ts kw uid email s = Inr (r, s')"
  shows "live_ok s'"
  using assms(2)
proof (rule update_agent_result)
  fix old graphs
  assume o: "scoped_agent i ts s = Some old" "mirrored_graphs old kw = Inr graphs"
    and s': "s' = forget_agent up ts (ag_slug old) (store_audit ''agent'' i ''updated'' uid email
        (case fst graphs of
           Some g \<Rightarrow> snd (append_version i g uid (Some ''mirrored greeting/system_prompt'')
                     (put_agent i old (updated_row old kw graphs) s))
         | None \<Rightarrow> put_agent i old (updated_row old kw graphs) s))"
  have "row_live old" using live_ok_row [OF assms(1) scoped_agent_get [OF o(1)]] .
  then have "live_ok (put_agent i old (updated_row old kw graphs) s)"
    using live_ok_put [OF assms(1)] mirrored_live [OF _ o(2)] by blast
  then show ?thesis unfolding s' by (auto intro!: live_ok_forget split: option.splits)
qed

abbreviation published_row :: "agent_row \<Rightarrow> json_object \<Rightarrow> (string, pyval) odict \<Rightarrow> agent_row" where
  "published_row old g cols \<equiv> old\<lparr>ag_workflow := Some g, ag_draft := Some g, ag_fields := cols\<rparr>"

lemma sync_positions_result:
  assumes "sync_positions i old g s = Inr (v, row, s')"
  shows "row = version_trigger old (published_row old g (ag_fields old)) \<and> v = latest_version i s \<and>
    s' = put_agent i old (published_row old g (ag_fields old)) s"
  using assms by (auto simp: sync_positions_def Let_def split: if_splits)

lemma publish_version_result:
  assumes "publish_version i old g note uid email s = Inr (v, row, s')"
  obtains gt pt where "column_prompts g = Some (gt, pt)"
    "row = version_trigger old (published_row old g
       (od_set ''system_prompt'' (PStr pt) (od_set ''greeting'' (PStr gt) (ag_fields old))))"
    "v = Suc (latest_version i s)"
    "s' = store_audit ''agent_workflow'' i ''updated'' uid email (snd (append_version i g uid note
       (put_agent i old (published_row old g
         (od_set ''system_prompt'' (PStr pt) (od_set ''greeting'' (PStr gt) (ag_fields old)))) s)))"
proof -
  obtain gt pt where c: "column_prompts g = Some (gt, pt)"
    using assms by (auto simp: publish_version_def split: option.splits)
  show thesis
    by (rule that [OF c])
      (use assms c in \<open>auto simp: publish_version_def Let_def append_version_def latest_version_def put_agent_def
         split: if_splits\<close>)
qed

lemma live_ok_published:
  assumes "live_ok s" and "parse_graph (PDict g) = Inr gr"
    and "(if same then sync_positions i old g s else publish_version i old g note uid email s) = Inr (v, row, s')"
  shows "live_ok s'"
proof -
  have "live_ok (put_agent i old (published_row old g cols) s)" for cols
    using assms(2) by (intro live_ok_put [OF assms(1)]) (simp add: row_live_def)
  then show ?thesis
    using assms(3) by (cases same) (auto dest!: sync_positions_result elim!: publish_version_result)
qed

text \<open>What a publish whose transaction got through has done.\<close>

lemma publish_commit_result:
  assumes "publish_commit up order i ts graph note uid email peeked s = Inr ((v, cv, ws), s')"
  obtains old g same row s1 where "locked_agent i ts s = Some old"
    "(case graph of Some h \<Rightarrow> Some h | None \<Rightarrow> ag_draft old) = Some g"
    "revalidate order g peeked = Inr ws" "graphs_equivalent (Some g) (ag_workflow old) = Some same"
    "(if same then sync_positions i old g s else publish_version i old g note uid email s) = Inr (v, row, s1)"
    "cv = ag_version row" "s' = forget_agent up ts (ag_slug row) s1"
proof -
  obtain old where o: "locked_agent i ts s = Some old"
    using assms by (auto simp: publish_commit_def split: option.splits)
  obtain g where g: "(case graph of Some h \<Rightarrow> Some h | None \<Rightarrow> ag_draft old) = Some g"
    using assms o by (cases "(case graph of Some h \<Rightarrow> Some h | None \<Rightarrow> ag_draft old)") (auto simp: publish_commit_def)
  obtain ws' where r: "revalidate order g peeked = Inr ws'"
    using assms o g by (cases "revalidate order g peeked") (auto simp: publish_commit_def)
  obtain same where q: "graphs_equivalent (Some g) (ag_workflow old) = Some same"
    using assms o g r by (cases "graphs_equivalent (Some g) (ag_workflow old)") (auto simp: publish_commit_def)
  obtain v' row s1 where w:
    "(if same then sync_positions i old g s else publish_version i old g note uid email s) = Inr (v', row, s1)"
    using assms o g r q
    by (cases "(if same then sync_positions i old g s else publish_version i old g note uid email s)")
      (auto simp: publish_commit_def)
  have "ws' = ws \<and> v' = v \<and> cv = ag_version row \<and> s' = forget_agent up ts (ag_slug row) s1"
    using assms o g r q w by (auto simp: publish_commit_def)
  with that [OF o g _ q] r w show thesis by blast
qed

lemma publish_result:
  assumes "publish_workflow up order i ts graph note uid email s = Inr (out, s')"
  obtains old g ws where "locked_agent i ts s = Some old"
    "(case graph of Some h \<Rightarrow> Some h | None \<Rightarrow> ag_draft old) = Some g" "validate order g = Inr ws"
    "publish_commit up order i ts graph note uid email (g, ws) s = Inr (out, s')"
proof -
  obtain g ws where p: "publish_peek order i ts graph s = Inr (g, ws)"
    and c: "publish_commit up order i ts graph note uid email (g, ws) s = Inr (out, s')"
    using assms by (auto simp: publish_workflow_def split: sum.splits)
  have v: "validate order g = Inr ws"
    using p by (auto simp: publish_peek_def split: sum.splits option.splits)
  obtain old where o: "locked_agent i ts s = Some old"
    using c by (auto simp: publish_commit_def split: option.splits)
  have "(case graph of Some h \<Rightarrow> Some h | None \<Rightarrow> ag_draft old) = Some g"
    using p o by (auto simp: publish_peek_def split: sum.splits option.splits)
  then show thesis using that o v c by blast
qed

lemma live_ok_publish:
  assumes "live_ok s" and "publish_workflow up order i ts graph note uid email s = Inr (out, s')"
  shows "live_ok s'"
proof -
  obtain old g ws where o: "locked_agent i ts s = Some old"
    "(case graph of Some h \<Rightarrow> Some h | None \<Rightarrow> ag_draft old) = Some g" "validate order g = Inr ws"
    "publish_commit up order i ts graph note uid email (g, ws) s = Inr (out, s')"
    using publish_result [OF assms(2)] .
  obtain gr where gr: "parse_graph (PDict g) = Inr gr" using validate_parses [OF o(3)] by blast
  obtain v cv ws' where out: "out = (v, cv, ws')" by (cases out) auto
  obtain old' g' same row s1 where c: "locked_agent i ts s = Some old'"
    "(case graph of Some h \<Rightarrow> Some h | None \<Rightarrow> ag_draft old') = Some g'"
    "(if same then sync_positions i old' g' s else publish_version i old' g' note uid email s) = Inr (v, row, s1)"
    "s' = forget_agent up ts (ag_slug row) s1"
    using publish_commit_result [OF o(4) [unfolded out]] by metis
  have "g' = g" "old' = old" using o(1,2) c(1,2) by auto
  then show ?thesis
    using live_ok_published [OF assms(1) gr c(3) [unfolded \<open>g' = g\<close>]] c(4) live_ok_forget by simp
qed

lemma live_ok_save_draft:
  assumes "live_ok s" and "save_draft up i ts g base s = Inr (v, s')"
  shows "live_ok s'"
proof -
  obtain r where r: "locked_agent i ts s = Some r"
    and s': "s' = forget_agent up ts (ag_slug r) (put_agent i r (r\<lparr>ag_draft := Some g\<rparr>) s)"
    using assms(2) by (auto simp: save_draft_def split: if_splits option.splits)
  have "row_live r" using live_ok_row [OF assms(1)] r by (auto simp: locked_agent_iff)
  then show ?thesis unfolding s' by (intro live_ok_forget live_ok_put assms(1)) simp
qed

lemma live_ok_soft_delete:
  assumes "live_ok s" and "soft_delete_agent up now i ts uid email s = Inr s'"
  shows "live_ok s'"
proof -
  obtain r where r: "scoped_agent i ts s = Some r"
    and s': "s' = forget_agent up ts (ag_slug r) (store_audit ''agent'' i ''deleted'' uid email
        (put_agent i r (r\<lparr>ag_deleted_at := Some now\<rparr>) s))"
    using assms(2) by (auto simp: soft_delete_agent_def split: option.splits)
  have "row_live r" using live_ok_row [OF assms(1) scoped_agent_get [OF r]] .
  then show ?thesis unfolding s' by (intro live_ok_forget) (simp add: live_ok_put assms(1))
qed

definition one_at_a_time :: "store_event \<Rightarrow> bool" where
  "one_at_a_time e = (case e of PublishLate _ _ _ _ _ _ _ _ \<Rightarrow> False | _ \<Rightarrow> True)"

lemma live_ok_step:
  assumes "live_ok s" and "one_at_a_time e"
  shows "live_ok (agents_step order e s)"
  using assms
  by (cases e) (auto simp: done_or_def one_at_a_time_def rollback_def
      dest: live_ok_create live_ok_update live_ok_save_draft live_ok_publish live_ok_soft_delete
      intro: live_ok_get_agent split: sum.splits option.splits)

lemma live_ok_init: "live_ok (agents_init ts ps)"
  by (simp add: live_ok_def agents_init_def)

lemma live_ok_run: "live_ok s \<Longrightarrow> \<forall>e \<in> set es. one_at_a_time e \<Longrightarrow> live_ok (fold (agents_step order) es s)"
  by (induction es arbitrary: s) (simp_all add: live_ok_step)

section \<open>Version histories\<close>

definition versions_of :: "nat \<Rightarrow> agent_store \<Rightarrow> version_row list" where
  "versions_of i s = filter (\<lambda>v. vr_agent v = i) (st_versions s)"

definition gapless :: "agent_store \<Rightarrow> bool" where
  "gapless s = (\<forall>i. map vr_version (versions_of i s) = [1..<Suc (length (versions_of i s))])"

text \<open>A request leaves the history as it is, or appends the next version of one agent.\<close>

definition grows :: "agent_store \<Rightarrow> agent_store \<Rightarrow> bool" where
  "grows s s' \<longleftrightarrow> st_versions s' = st_versions s \<or>
     (\<exists>v. st_versions s' = st_versions s @ [v] \<and> vr_version v = Suc (latest_version (vr_agent v) s))"

lemma versions_frame [simp]:
  "st_versions (put_agent i old new s) = st_versions s"
  "st_versions (store_audit e j a u m s) = st_versions s"
  "st_versions (forget_agent up ts slug s) = st_versions s"
  "st_versions (snd (get_agent u1 u2 now ts slug s)) = st_versions s"
  by (simp_all add: put_agent_def store_audit_def forget_agent_def get_agent_def Let_def split: option.splits)

lemma latest_frame: "st_versions s' = st_versions s \<Longrightarrow> latest_version i s' = latest_version i s"
  by (simp add: latest_version_def)

lemma grows_refl: "st_versions s' = st_versions s \<Longrightarrow> grows s s'"
  by (simp add: grows_def)

lemma grows_same [simp]: "grows s s" "grows s (put_agent i old new s)"
  by (simp_all add: grows_def)

lemma grows_append [simp]: "st_versions s' = st_versions s \<Longrightarrow> grows s (snd (append_version i g u n s'))"
  using latest_frame [of s' s i] by (simp add: grows_def append_version_def Let_def)

lemma grows_frame [simp]:
  "grows s (store_audit e j a u m t) = grows s t"
  "grows s (forget_agent up ts slug t) = grows s t"
  "grows s (snd (get_agent u1 u2 now ts slug t)) = grows s t"
  by (simp_all add: grows_def)

lemma grows_create:
  assumes "create_agent u1 u2 now order t slug name g sp providers workflow ts uid email s = Inr (r, s')"
  shows "grows s s'"
proof -
  obtain i row s1 where i: "insert_agent order t slug name g sp providers workflow uid email s = Inr (i, row, s1)"
    and s': "s' = (case ts of None \<Rightarrow> s1 | Some ts \<Rightarrow> snd (get_agent u1 u2 now ts slug s1))"
    using assms by (auto simp: create_agent_def split: sum.splits prod.splits)
  have "grows s s1" using insert_agent_ok [OF i] by auto
  then show ?thesis using s' by (cases ts) auto
qed

lemma grows_update: "update_agent up i ts kw uid email s = Inr (r, s') \<Longrightarrow> grows s s'"
  by (erule update_agent_result) (auto split: option.splits)

lemma grows_publish_commit:
  assumes "publish_commit up order i ts graph note uid email peeked s = Inr (out, s')"
  shows "grows s s'"
proof -
  obtain v cv ws where out: "out = (v, cv, ws)" by (cases out) auto
  obtain old g same row s1 where
    w: "(if same then sync_positions i old g s else publish_version i old g note uid email s) = Inr (v, row, s1)"
    and s': "s' = forget_agent up ts (ag_slug row) s1"
    using publish_commit_result [OF assms [unfolded out]] by metis
  have "grows s s1"
    using w by (cases same)
      (auto dest!: sync_positions_result elim!: publish_version_result)
  then show ?thesis using s' by simp
qed

lemma grows_publish: "publish_workflow up order i ts graph note uid email s = Inr (out, s') \<Longrightarrow> grows s s'"
  by (erule publish_result) (rule grows_publish_commit)

lemma grows_save_draft: "save_draft up i ts g base s = Inr (v, s') \<Longrightarrow> grows s s'"
  by (auto simp: save_draft_def split: if_splits option.splits)

lemma grows_soft_delete: "soft_delete_agent up now i ts uid email s = Inr s' \<Longrightarrow> grows s s'"
  by (auto simp: soft_delete_agent_def split: option.splits)

lemma grows_rollback: "rollback up order i ts v uid email s = Inr (out, s') \<Longrightarrow> grows s s'"
  by (auto simp: rollback_def dest: grows_publish split: option.splits)

lemma done_or_grows: "(\<And>x s'. r = Inr (x, s') \<Longrightarrow> grows s s') \<Longrightarrow> grows s (done_or s r)"
  by (cases r) (auto simp: done_or_def)

lemma agents_step_grows: "grows s (agents_step order e s)"
proof (cases e)
  case (SoftDelete up now i ts uid email)
  then show ?thesis using grows_soft_delete [of up now i ts uid email s] by (auto split: sum.splits)
qed (auto intro!: done_or_grows
      dest: grows_create grows_update grows_save_draft grows_publish grows_publish_commit grows_rollback)

lemma foldr_max_upt: "foldr max [1..<Suc n] a = max n a"
  by (induction n arbitrary: a) auto

lemma latest_numbered: "gapless s \<Longrightarrow> latest_version i s = length (versions_of i s)"
  unfolding latest_version_def gapless_def versions_of_def [symmetric] using foldr_max_upt [of _ 0] by simp

lemma numbered_grows:
  assumes "gapless s" and "grows s s'"
  shows "gapless s'"
proof (cases "st_versions s' = st_versions s")
  case True
  then show ?thesis using assms(1) by (simp add: gapless_def versions_of_def)
next
  case False
  then obtain v where v: "st_versions s' = st_versions s @ [v]"
    "vr_version v = Suc (length (versions_of (vr_agent v) s))"
    using assms latest_numbered by (auto simp: grows_def)
  show ?thesis
    unfolding gapless_def
  proof
    fix i
    have "map vr_version (versions_of i s) = [1..<Suc (length (versions_of i s))]"
      using assms(1) by (simp add: gapless_def)
    then show "map vr_version (versions_of i s') = [1..<Suc (length (versions_of i s'))]"
      using v by (cases "vr_agent v = i") (simp_all add: versions_of_def)
  qed
qed

interpretation history: event_machine "agents_init ts ps" "agents_step order" gapless
  by unfold_locales
    (simp add: gapless_def versions_of_def agents_init_def, rule numbered_grows [OF _ agents_step_grows])

lemma versions_prefix: "\<exists>vs. st_versions (fold (agents_step order) es s) = st_versions s @ vs"
proof (induction es arbitrary: s)
  case (Cons e es)
  obtain us where "st_versions (agents_step order e s) = st_versions s @ us"
    using agents_step_grows [of s order e] by (auto simp: grows_def)
  then show ?case using Cons [of "agents_step order e s"] by auto
qed simp

section \<open>A sample agent\<close>

definition sample_object :: json_object where
  "sample_object = starter_object ''Hi'' ''Be nice''"

definition stored_agent :: agent_row where
  "stored_agent = new_agent_row 1 ''bot'' ''Bot'' ''Hi'' ''Be nice'' [] sample_object"

definition sample_store :: agent_store where
  "sample_store =
     \<lparr>st_tenants = [(1, \<lparr>t_slug = ''acme'', t_name = ''Acme'', t_deleted = False\<rparr>)],
      st_agents = [(0, stored_agent)], st_providers = [],
      st_versions = [\<lparr>vr_agent = 0, vr_version = 1, vr_graph = sample_object, vr_published_by = None,
                      vr_note = Some ''created with the agent''\<rparr>],
      st_audit = [\<lparr>au_entity_type = ''agent'', au_entity_id = 0, au_action = ''created'', au_user_id = None,
                   au_user_email = None\<rparr>],
      st_next = 1, st_cache = []\<rparr>"

definition sample_create :: store_event where
  "sample_create = Create (True, True, 0) 1 ''bot'' ''Bot'' ''Hi'' ''Be nice'' [] None None None None"

lemma starter_object_graph: "PDict (starter_object g sp) = starter_graph g sp [] []"
  by (simp add: starter_object_def starter_graph_def)

lemma sample_parses: "\<exists>gr. parse_graph (PDict sample_object) = Inr gr"
  unfolding sample_object_def starter_object_graph using parse_graph_starter by blast

lemma sample_validates: "\<exists>ws. validate (\<lambda>xs. xs) sample_object = Inr ws"
  using sample_parses validate_returns [of "\<lambda>xs. xs"] by blast

lemma sample_prompts: "column_prompts sample_object = Some (''Hi'', ''Be nice'')"
  by code_simp

lemma sample_storable: "row_storable stored_agent"
  by code_simp

lemma sample_insert:
  "insert_agent (\<lambda>xs. xs) 1 ''bot'' ''Bot'' ''Hi'' ''Be nice'' [] None None None
     (agents_init (st_tenants sample_store) []) = Inr (0, stored_agent, sample_store)"
proof -
  obtain ws where "validate (\<lambda>xs. xs) sample_object = Inr ws" using sample_validates by blast
  then show ?thesis
    using sample_prompts sample_storable
    by (simp add: insert_agent_def initial_graph_def sample_object_def [symmetric] stored_agent_def [unfolded One_nat_def, symmetric]
        Let_def validate_provider_assignments_def PROVIDER_ROLE_BY_FIELD_def assignment_problem_def
        sample_store_def agents_init_def slug_taken_def od_get_def store_audit_def append_version_def
        latest_version_def)
qed

lemma sample_run:
  "fold (agents_step (\<lambda>xs. xs)) [sample_create] (agents_init (st_tenants sample_store) []) = sample_store"
  using sample_insert by (simp add: sample_create_def create_agent_def done_or_def)

section \<open>Main results\<close>

text \<open>
  C9. Whatever requests are served one after the other, an agent's live graph is always a graph that
  parses: creating and publishing validate it, rolling back validates it again, and the mirroring of an
  edited greeting or system prompt into the live graph, which validates nothing, cannot break it.
\<close>

theorem live_graph_parses:
  assumes "\<forall>e \<in> set es. one_at_a_time e"
    and "od_get (st_agents (fold (agents_step order) es (agents_init ts ps))) i = Some r"
    and "ag_workflow r = Some g"
  shows "\<exists>gr. parse_graph (PDict g) = Inr gr"
  using live_ok_row [OF live_ok_run [OF live_ok_init assms(1)] assms(2)] assms(3) by (simp add: row_live_def)

theorem live_graph_parses_witness: "\<exists>gr. parse_graph (PDict sample_object) = Inr gr"
  by (rule live_graph_parses [of "[sample_create]" "\<lambda>xs. xs" "st_tenants sample_store" "[]" 0 stored_agent])
    (simp_all only: sample_run, simp_all add: sample_create_def one_at_a_time_def sample_store_def od_get_def
      stored_agent_def new_agent_row_def)

text \<open>
  The published history of every agent is numbered from 1 without gaps or repetitions after any
  interleaving of requests, publishes that peeked earlier included, and no request ever changes or
  removes an entry.
\<close>

theorem version_history:
  "map vr_version (versions_of i (fold (agents_step order) es (agents_init ts ps))) =
     [1..<Suc (length (versions_of i (fold (agents_step order) es (agents_init ts ps))))] \<and>
   (\<exists>vs. st_versions (fold (agents_step order) (es @ fs) (agents_init ts ps)) =
         st_versions (fold (agents_step order) es (agents_init ts ps)) @ vs)"
  using history.inv_run [of order es ts ps] versions_prefix [of order fs "fold (agents_step order) es (agents_init ts ps)"]
  by (simp add: gapless_def)


lemma trigger_draft: "version_trigger r (r\<lparr>ag_draft := d\<rparr>) = r\<lparr>ag_draft := d\<rparr>"
  by (simp add: version_trigger_def same_graph_def)

text \<open>
  Saving a draft: a base version other than the agent's current one is refused and nothing changes;
  otherwise the draft is stored, and the live graph, the prompts, the version of the configuration, every
  other agent and the whole history stay what they were.
\<close>

theorem draft_is_fenced:
  assumes "locked_agent i ts s = Some r" and "json_storable (PDict g)"
  shows "if base \<noteq> None \<and> base \<noteq> Some (ag_version r) then save_draft up i ts g base s = Inl StaleDraft
         else \<exists>s'. save_draft up i ts g base s = Inr (ag_version r, s') \<and>
                od_get (st_agents s') i = Some (r\<lparr>ag_draft := Some g\<rparr>) \<and>
                (\<forall>j. j \<noteq> i \<longrightarrow> od_get (st_agents s') j = od_get (st_agents s) j) \<and>
                st_versions s' = st_versions s \<and> st_audit s' = st_audit s"
  using assms by (auto simp: save_draft_def put_agent_def forget_agent_def trigger_draft)

theorem draft_is_fenced_witness:
  "save_draft True 0 ''acme'' [] (Some 7) sample_store = Inl StaleDraft"
  using draft_is_fenced [of 0 "''acme''" sample_store stored_agent "[]" "Some 7" True]
  by (simp add: locked_agent_iff sample_store_def od_get_def stored_agent_def new_agent_row_def slug_of_tenant_def)

lemma locked_agent_get: "locked_agent i ts s = Some r \<Longrightarrow> od_get (st_agents s) i = Some r"
  by (simp add: locked_agent_iff)

lemma get_put_agent [simp]:
  "od_get (st_agents (put_agent i old new s)) j = (if j = i then Some (version_trigger old new) else od_get (st_agents s) j)"
  by (simp add: put_agent_def)

lemma agents_frame [simp]:
  "st_agents (store_audit e j a u m s) = st_agents s"
  "st_agents (forget_agent up ts slug s) = st_agents s"
  "st_agents (snd (append_version i g u n s)) = st_agents s"
  by (simp_all add: store_audit_def forget_agent_def append_version_def Let_def)

lemma cache_forgotten:
  "od_get (st_cache (forget_agent True ts slug s)) (agent_cache_key ts slug) = None"
  by (simp add: forget_agent_def cache_invalidate_def)

text \<open>
  A publish that returns has put a graph that parses live: the given graph, or else the draft. It is
  the draft too, the answer carries the row's version of the configuration, and the cached copy of the
  agent is gone, so the next call reads the new row. When the logic differs from what was live, the graph
  is the newest entry of the history, with the number the answer carries, and the columns that calls
  speak from are the greeting and the prompt of the graph.
\<close>

theorem publish_goes_live:
  assumes "publish_workflow up order i ts graph note uid email s = Inr ((v, cv, ws), s')"
  shows "\<exists>old g r. locked_agent i ts s = Some old \<and>
    (case graph of Some h \<Rightarrow> Some h | None \<Rightarrow> ag_draft old) = Some g \<and>
    (\<exists>gr. parse_graph (PDict g) = Inr gr) \<and>
    od_get (st_agents s') i = Some r \<and> ag_workflow r = Some g \<and> ag_draft r = Some g \<and> cv = ag_version r \<and>
    (up \<longrightarrow> od_get (st_cache s') (agent_cache_key ts (ag_slug r)) = None) \<and>
    (if graphs_equivalent (Some g) (ag_workflow old) = Some True
     then v = latest_version i s \<and> st_versions s' = st_versions s \<and> ag_fields r = ag_fields old
     else v = Suc (latest_version i s) \<and>
       (\<exists>u n. st_versions s' = st_versions s @
          [\<lparr>vr_agent = i, vr_version = v, vr_graph = g, vr_published_by = u, vr_note = n\<rparr>]) \<and>
       (\<exists>gt pt. column_prompts g = Some (gt, pt) \<and>
          od_get (ag_fields r) ''greeting'' = Some (PStr gt) \<and>
          od_get (ag_fields r) ''system_prompt'' = Some (PStr pt)))"
proof -
  obtain old g ws0 where o: "locked_agent i ts s = Some old"
    "(case graph of Some h \<Rightarrow> Some h | None \<Rightarrow> ag_draft old) = Some g" "validate order g = Inr ws0"
    "publish_commit up order i ts graph note uid email (g, ws0) s = Inr ((v, cv, ws), s')"
    using publish_result [OF assms] .
  obtain old' g' same row s1 where c: "locked_agent i ts s = Some old'"
    "(case graph of Some h \<Rightarrow> Some h | None \<Rightarrow> ag_draft old') = Some g'"
    "graphs_equivalent (Some g') (ag_workflow old') = Some same"
    "(if same then sync_positions i old' g' s else publish_version i old' g' note uid email s) = Inr (v, row, s1)"
    "cv = ag_version row" "s' = forget_agent up ts (ag_slug row) s1"
    using publish_commit_result [OF o(4)] by metis
  have eq: "old' = old" "g' = g" using o(1,2) c(1,2) by auto
  have row: "od_get (st_agents s1) i = Some row \<and> ag_workflow row = Some g \<and> ag_draft row = Some g"
    using c(4) eq by (cases same) (auto dest!: sync_positions_result elim!: publish_version_result)
  moreover have "if same then v = latest_version i s \<and> st_versions s1 = st_versions s \<and> ag_fields row = ag_fields old
     else v = Suc (latest_version i s) \<and>
       st_versions s1 = st_versions s @
          [\<lparr>vr_agent = i, vr_version = v, vr_graph = g, vr_published_by = uid, vr_note = note\<rparr>] \<and>
       (\<exists>gt pt. column_prompts g = Some (gt, pt) \<and>
          od_get (ag_fields row) ''greeting'' = Some (PStr gt) \<and>
          od_get (ag_fields row) ''system_prompt'' = Some (PStr pt))"
    using c(4) eq
    by (cases same) (auto dest!: sync_positions_result elim!: publish_version_result
        simp: append_version_def Let_def latest_version_def)
  moreover have "up \<longrightarrow> od_get (st_cache s') (agent_cache_key ts (ag_slug row)) = None"
    using c(6) cache_forgotten by auto
  ultimately show ?thesis
    using o(1,2) c(3,5,6) eq validate_parses [OF o(3)] by (cases same) auto
qed


text \<open>Where an edited prompt goes: the columns, the live graph and the draft speak the same text.\<close>

definition speaks :: "string \<Rightarrow> string \<Rightarrow> json_object \<Rightarrow> bool" where
  "speaks field text g =
     (\<exists>a b. prompts_from_graph g = Some (a, b) \<and> (if field = ''greeting'' then a else b) = Some text)"

abbreviation prompt_of :: "string \<Rightarrow> (string, pyval) odict \<Rightarrow> string" where
  "prompt_of k kw \<equiv> coerce_prompt (py_get kw k)"

lemma prompts_mirrored:
  assumes "mirror_nodes kw ns = Inr ns'" and "node_types ns = Some ts"
  shows "\<exists>a' b'. prompts_loop ns' a b = Some (a', b') \<and>
    (mirrors ''greeting'' kw \<longrightarrow> (if PStr ''start'' \<in> set ts then a' = Some (prompt_of ''greeting'' kw) else a' = a)) \<and>
    (mirrors ''system_prompt'' kw \<longrightarrow>
       (if PStr ''global'' \<in> set ts then b' = Some (prompt_of ''system_prompt'' kw) else b' = b))"
  using assms
proof (induction kw ns arbitrary: ns' ts a b rule: mirror_nodes.induct)
  case (2 kw raw ns)
  obtain d where d: "py_dict (py_get raw ''data'') = Inr d" using "2.prems"(1) by (auto split: sum.splits)
  obtain rest where rest: "mirror_nodes kw ns = Inr rest"
    and ns': "ns' = PDict (od_set ''data'' (PDict (mirror_data (py_get raw ''type'') kw d)) raw) # rest"
    using "2.prems"(1) d by (auto split: sum.splits)
  obtain ts0 where ts: "node_types ns = Some ts0" "ts = py_get raw ''type'' # ts0"
    using "2.prems"(2) by (auto split: pyval.splits)
  note IH = "2.IH" [OF d rest ts(1)]
  let ?t = "py_get raw ''type''" and ?m = "mirror_data (py_get raw ''type'') kw d"
  consider (start) "?t = PStr ''start''" | (global) "?t = PStr ''global''"
    | (other) "?t \<noteq> PStr ''start''" "?t \<noteq> PStr ''global''" by blast
  then show ?case
  proof cases
    case start
    obtain x where x: "prompts_loop ns' a b = prompts_loop rest (Some x) b"
      "mirrors ''greeting'' kw \<Longrightarrow> x = prompt_of ''greeting'' kw"
      by (rule that [of "coerce_prompt (py_get ?m ''greeting'')"])
        (simp_all add: ns' start py_get_set py_or_def coerce_prompt_def mirror_data_def)
    obtain a' b' where "prompts_loop rest (Some x) b = Some (a', b')"
      "mirrors ''greeting'' kw \<longrightarrow> (if PStr ''start'' \<in> set ts0 then a' = Some (prompt_of ''greeting'' kw) else a' = Some x)"
      "mirrors ''system_prompt'' kw \<longrightarrow>
         (if PStr ''global'' \<in> set ts0 then b' = Some (prompt_of ''system_prompt'' kw) else b' = b)"
      using IH [of "Some x" b] by blast
    then show ?thesis using x by (intro exI [of _ a'] exI [of _ b']) (simp add: ts(2) start split: if_splits)
  next
    case global
    obtain x where x: "prompts_loop ns' a b = prompts_loop rest a (Some x)"
      "mirrors ''system_prompt'' kw \<Longrightarrow> x = prompt_of ''system_prompt'' kw"
      by (rule that [of "coerce_prompt (py_get ?m ''prompt'')"])
        (simp_all add: ns' global py_get_set py_or_def coerce_prompt_def mirror_data_def)
    obtain a' b' where "prompts_loop rest a (Some x) = Some (a', b')"
      "mirrors ''greeting'' kw \<longrightarrow> (if PStr ''start'' \<in> set ts0 then a' = Some (prompt_of ''greeting'' kw) else a' = a)"
      "mirrors ''system_prompt'' kw \<longrightarrow>
         (if PStr ''global'' \<in> set ts0 then b' = Some (prompt_of ''system_prompt'' kw) else b' = Some x)"
      using IH [of a "Some x"] by blast
    then show ?thesis using x by (intro exI [of _ a'] exI [of _ b']) (simp add: ts(2) global split: if_splits)
  next
    case other
    then have "prompts_loop ns' a b = prompts_loop rest a b"
      by (simp add: ns' py_get_set)
    then show ?thesis using IH [of a b] other by (simp add: ts(2))
  qed
qed auto

lemma val_eq_dict: "val_eq b (PDict d) w \<Longrightarrow> \<exists>e. w = PDict e"
  by (cases w) (auto simp: num_value_def)

lemma val_eq_text: "val_eq b (PStr t) w \<Longrightarrow> w = PStr t"
  by (cases w) (auto simp: num_value_def)

lemma val_eq_get:
  "val_eq b (PDict d) (PDict e) \<Longrightarrow> od_get d k = Some v \<Longrightarrow> \<exists>w. od_get e k = Some w \<and> val_eq b v w"
proof -
  assume eq: "val_eq b (PDict d) (PDict e)" and get: "od_get d k = Some v"
  have "(k, v) \<in> set d" using get by (rule od_get_SomeD)
  then have "case od_get e k of Some w \<Rightarrow> val_eq b v w | None \<Rightarrow> False"
    using bspec [OF conjunct2 [OF eq [unfolded val_eq.simps list_all_iff]], of "(k, v)"] by (simp split: option.splits)
  then show ?thesis by (auto split: option.splits)
qed

lemma unchanged_data:
  assumes "val_eq True (PDict (od_set ''data'' (PDict (mirror_data ty kw d)) raw)) (PDict raw)"
    and "py_dict (py_get raw ''data'') = Inr d"
  shows "py_get raw ''data'' = PDict d" and "val_eq True (PDict (mirror_data ty kw d)) (PDict d)"
proof -
  obtain w where w: "od_get raw ''data'' = Some w" "val_eq True (PDict (mirror_data ty kw d)) w"
    using val_eq_get [OF assms(1), of "''data''" "PDict (mirror_data ty kw d)"] by auto
  obtain e where e: "w = PDict e" using val_eq_dict [OF w(2)] by blast
  have g: "py_get raw ''data'' = PDict e" using w(1) e by (simp add: py_get_def)
  have "e = d" using assms(2) g by (cases e) (auto simp: py_dict_def py_or_def)
  then show "py_get raw ''data'' = PDict d" "val_eq True (PDict (mirror_data ty kw d)) (PDict d)"
    using g w(2) e by simp_all
qed

lemma unchanged_get:
  assumes "val_eq True (PDict (mirror_data ty kw d)) (PDict d)"
  shows "py_get (mirror_data ty kw d) ''greeting'' = py_get d ''greeting''"
    and "py_get (mirror_data ty kw d) ''prompt'' = py_get d ''prompt''"
proof -
  have keeps: "py_get (mirror_data ty kw d) k = py_get d k" if "od_get (mirror_data ty kw d) k = Some (PStr t)" for k t
    using val_eq_get [OF assms that] that by (auto simp: py_get_def dest!: val_eq_text)
  show "py_get (mirror_data ty kw d) ''greeting'' = py_get d ''greeting''"
    by (cases "ty = PStr ''start'' \<and> mirrors ''greeting'' kw")
      (rule keeps, auto simp: mirror_data_def Let_def py_get_set)
  show "py_get (mirror_data ty kw d) ''prompt'' = py_get d ''prompt''"
    by (cases "ty = PStr ''global'' \<and> mirrors ''system_prompt'' kw")
      (rule keeps, auto simp: mirror_data_def Let_def py_get_set)
qed

lemma prompts_unchanged:
  "mirror_nodes kw ns = Inr ns' \<Longrightarrow> list_all2 (val_eq True) ns' ns \<Longrightarrow> prompts_loop ns' a b = prompts_loop ns a b"
proof (induction kw ns arbitrary: ns' a b rule: mirror_nodes.induct)
  case (2 kw raw ns)
  obtain d where d: "py_dict (py_get raw ''data'') = Inr d" using "2.prems"(1) by (auto split: sum.splits)
  let ?m = "mirror_data (py_get raw ''type'') kw d"
  obtain rest where rest: "mirror_nodes kw ns = Inr rest"
    and ns': "ns' = PDict (od_set ''data'' (PDict ?m) raw) # rest"
    using "2.prems"(1) d by (auto split: sum.splits)
  have eq: "val_eq True (PDict (od_set ''data'' (PDict ?m) raw)) (PDict raw)" "list_all2 (val_eq True) rest ns"
    using "2.prems"(2) unfolding ns' list_all2_Cons by blast+
  note u = unchanged_data [OF eq(1) d]
  note IH = "2.IH" [OF d rest eq(2)]
  have or: "py_or (PDict d) (PDict []) = PDict d" for d
    by (auto simp: py_or_def)
  obtain m where m: "?m = m" "py_get m ''greeting'' = py_get d ''greeting''" "py_get m ''prompt'' = py_get d ''prompt''"
    using unchanged_get [OF u(2)] by blast
  show ?case
    by (simp add: ns' m Let_def py_get_set u(1) or IH)
qed auto

lemma nodes_mirrored:
  assumes "mirror_prompts_into_graph g kw = Inr g'" and "mirrors ''greeting'' kw \<or> mirrors ''system_prompt'' kw"
  obtains ns ns' ts where "iterate (py_or (py_get g ''nodes'') (PList [])) = Some ns" "node_types ns = Some ts"
    "mirror_nodes kw ns = Inr ns'" "g' = od_set ''nodes'' (PList ns') g"
    "mirrors ''greeting'' kw \<longrightarrow> PStr ''start'' \<in> set ts" "mirrors ''system_prompt'' kw \<longrightarrow> PStr ''global'' \<in> set ts"
proof -
  have c: "(case require_prompt_nodes g kw of
        Some e \<Rightarrow> Inl e
      | None \<Rightarrow>
          (case iterate (py_or (py_get g ''nodes'') (PList [])) of
             None \<Rightarrow> Inl Crashed
           | Some ns \<Rightarrow>
               (case mirror_nodes kw ns of
                  Inl e \<Rightarrow> Inl e
                | Inr ns' \<Rightarrow> Inr (od_set ''nodes'' (PList ns') g)))) = Inr g'"
    using assms by (auto simp: mirror_prompts_into_graph_def)
  then have r: "require_prompt_nodes g kw = None" by (auto split: option.splits)
  obtain ns where ns: "iterate (py_or (py_get g ''nodes'') (PList [])) = Some ns"
    using c r by (auto split: option.splits)
  obtain ns' where ns': "mirror_nodes kw ns = Inr ns'" "g' = od_set ''nodes'' (PList ns') g"
    using c r ns by (auto split: sum.splits)
  obtain ts where ts: "node_types ns = Some ts"
    using r ns by (auto simp: require_prompt_nodes_def split: option.splits)
  have "mirrors ''greeting'' kw \<longrightarrow> PStr ''start'' \<in> set ts" "mirrors ''system_prompt'' kw \<longrightarrow> PStr ''global'' \<in> set ts"
    using r ns ts by (auto simp: require_prompt_nodes_def split: if_splits)
  with that ns ts ns' show thesis by blast
qed

lemma iterate_or: "iterate (py_or (PList xs) (PList [])) = Some xs"
  by (cases xs) (auto simp: py_or_def iterate_def)

text \<open>The graph that is kept, mirrored or not because nothing changes, speaks the new texts.\<close>

lemma mirrored_speaks:
  assumes "mirror_prompts_into_graph g kw = Inr g'" and "k = ''greeting'' \<or> k = ''system_prompt''"
    and "mirrors k kw"
  shows "speaks k (prompt_of k kw) (case changed_graph g' g of Some h \<Rightarrow> h | None \<Rightarrow> g)"
proof -
  have any: "mirrors ''greeting'' kw \<or> mirrors ''system_prompt'' kw" using assms(2,3) by blast
  obtain ns ns' ts where m: "iterate (py_or (py_get g ''nodes'') (PList [])) = Some ns" "node_types ns = Some ts"
    "mirror_nodes kw ns = Inr ns'" "g' = od_set ''nodes'' (PList ns') g"
    "mirrors ''greeting'' kw \<longrightarrow> PStr ''start'' \<in> set ts" "mirrors ''system_prompt'' kw \<longrightarrow> PStr ''global'' \<in> set ts"
    using nodes_mirrored [OF assms(1) any] .
  obtain a b where p: "prompts_loop ns' None None = Some (a, b)"
    "mirrors ''greeting'' kw \<longrightarrow> (if PStr ''start'' \<in> set ts then a = Some (prompt_of ''greeting'' kw) else a = None)"
    "mirrors ''system_prompt'' kw \<longrightarrow>
       (if PStr ''global'' \<in> set ts then b = Some (prompt_of ''system_prompt'' kw) else b = None)"
    using prompts_mirrored [OF m(3,2), of None None] by blast
  have g': "prompts_from_graph g' = Some (a, b)"
    using p(1) by (simp add: prompts_from_graph_def m(4) py_get_set iterate_or)
  have same: "prompts_from_graph g = Some (a, b)" if eq: "val_eq True (PDict g') (PDict g)"
  proof -
    obtain w where w: "od_get g ''nodes'' = Some w" "val_eq True (PList ns') w"
      using val_eq_get [OF eq, of "''nodes''" "PList ns'"] by (auto simp: m(4))
    obtain xs where xs: "w = PList xs" "list_all2 (val_eq True) ns' xs"
      using w(2) by (cases w) (auto simp: num_value_def)
    have "xs = ns" using m(1) w(1) xs(1) by (simp add: py_get_def iterate_or)
    then show ?thesis
      using prompts_unchanged [OF m(3)] xs(2) p(1) m(1) by (simp add: prompts_from_graph_def)
  qed
  show ?thesis
    using g' same p(2,3) m(5,6) assms(2,3) by (auto simp: speaks_def changed_graph_def)
qed

lemma od_get_coerced: "od_get (coerced_fields kw) k =
    map_option (\<lambda>v. if k = ''greeting'' \<or> k = ''system_prompt'' then PStr (coerce_prompt v) else v) (od_get kw k)"
  by (induction kw) (auto simp: coerced_fields_def od_get_def)

lemma od_get_fold_other: "k \<notin> set (map fst kw) \<Longrightarrow>
    od_get (fold (\<lambda>(k, v). od_set k (f k v)) kw cols) k = od_get cols k"
  by (induction kw arbitrary: cols) auto

lemma od_get_fold: "od_ok kw \<Longrightarrow> od_get kw k = Some v \<Longrightarrow>
    od_get (fold (\<lambda>(k, v). od_set k (f k v)) kw cols) k = Some (f k v)"
proof (induction kw arbitrary: cols)
  case (Cons p kw)
  obtain j w where p: "p = (j, w)" by (cases p)
  show ?case
  proof (cases "j = k")
    case True
    then have "w = v" "k \<notin> set (map fst kw)" using Cons.prems p by (auto simp: od_get_def)
    then show ?thesis using True by (simp add: p od_get_fold_other)
  next
    case False
    then show ?thesis using Cons p by (simp add: od_get_def)
  qed
qed (simp add: od_get_def)

lemma keys_coerced [simp]: "map fst (coerced_fields kw) = map fst kw"
  by (simp add: coerced_fields_def comp_def split_def)

text \<open>
  An edit of the greeting or of the system prompt that returns has reached all three places at once:
  the column calls speak from, the live graph and the draft the editor shows, each with the same text;
  a null is the empty text.
\<close>

theorem update_reaches_graph:
  assumes "update_agent up i ts kw uid email s = Inr (r, s')"
    and "k = ''greeting'' \<or> k = ''system_prompt''" and "od_get kw k = Some v" and "od_ok kw"
    and "scoped_agent i ts s = Some old" and "ag_workflow old \<noteq> None"
  shows "\<exists>row live draft. od_get (st_agents s') i = Some row \<and>
    od_get (ag_fields row) k = Some (PStr (coerce_prompt v)) \<and>
    ag_workflow row = Some live \<and> speaks k (coerce_prompt v) live \<and>
    (ag_draft row = Some draft \<and> speaks k (coerce_prompt v) draft \<or> ag_draft old = None \<and> ag_draft row = None)"
proof -
  obtain graphs where g: "mirrored_graphs old kw = Inr graphs"
    and s': "od_get (st_agents s') i = Some (version_trigger old (updated_row old kw graphs))"
  proof (rule update_agent_result [OF assms(1)])
    fix old' graphs
    assume o: "scoped_agent i ts s = Some old'" "mirrored_graphs old' kw = Inr graphs"
      and s': "s' = forget_agent up ts (ag_slug old') (store_audit ''agent'' i ''updated'' uid email
        (case fst graphs of
           Some g \<Rightarrow> snd (append_version i g uid (Some ''mirrored greeting/system_prompt'')
                     (put_agent i old' (updated_row old' kw graphs) s))
         | None \<Rightarrow> put_agent i old' (updated_row old' kw graphs) s))"
    have "od_get (st_agents s') i = Some (version_trigger old (updated_row old kw graphs))"
      using o(1) assms(5) by (cases "fst graphs") (simp_all add: s')
    then show thesis using that o assms(5) by simp
  qed
  obtain live where live: "ag_workflow old = Some live" using assms(6) by blast
  define draft where "draft = (case ag_draft old of Some d \<Rightarrow> d | None \<Rightarrow> live)"
  have m: "mirrors k kw" "mirrors k (coerced_fields kw)" "prompt_of k (coerced_fields kw) = coerce_prompt v"
    using assms(2,3) by (auto simp: mirrors_def od_get_coerced py_get_def coerce_prompt_def)
  obtain live' draft' where n: "mirror_prompts_into_graph live (coerced_fields kw) = Inr live'"
    "mirror_prompts_into_graph draft (coerced_fields kw) = Inr draft'"
    "graphs = (changed_graph live' live, changed_graph draft' draft)"
  proof -
    have c: "(case mirror_prompts_into_graph live (coerced_fields kw) of
        Inl e \<Rightarrow> Inl e
      | Inr live' \<Rightarrow>
          (case mirror_prompts_into_graph draft (coerced_fields kw) of
             Inl e \<Rightarrow> Inl e
           | Inr draft' \<Rightarrow> Inr (changed_graph live' live, changed_graph draft' draft))) = Inr graphs"
      using g m(1) assms(2) unfolding mirrored_graphs_def live Let_def draft_def by (elim disjE) simp_all
    show thesis
    proof (cases "mirror_prompts_into_graph live (coerced_fields kw)")
      case (Inr live')
      then show thesis
        using c that by (cases "mirror_prompts_into_graph draft (coerced_fields kw)") auto
    qed (use c in simp)
  qed
  note spoken = mirrored_speaks [OF n(1) assms(2) m(2)] mirrored_speaks [OF n(2) assms(2) m(2)]
  have "od_get (ag_fields (updated_row old kw graphs)) k = Some (PStr (coerce_prompt v))"
    using od_get_fold [of "coerced_fields kw" k "PStr (coerce_prompt v)" column_value "ag_fields old"] assms(2-4)
    by (auto simp: updated_row_def set_columns_def od_get_coerced column_value_def PROVIDER_ROLE_BY_FIELD_def)
  moreover have "ag_workflow (updated_row old kw graphs) = Some (case changed_graph live' live of Some h \<Rightarrow> h | None \<Rightarrow> live)"
    by (simp add: updated_row_def n(3) live split: option.splits)
  moreover have "ag_draft (updated_row old kw graphs) = Some (case changed_graph draft' draft of Some h \<Rightarrow> h | None \<Rightarrow> draft)
      \<or> ag_draft old = None \<and> ag_draft (updated_row old kw graphs) = None"
    by (auto simp: updated_row_def n(3) draft_def split: option.splits)
  ultimately show ?thesis using s' spoken m(3) by auto
qed

text \<open>The concrete runs behind the witnesses: an edit of the greeting, and a publish of an edited graph.\<close>

lemma not_isl_Inr: "\<not> isl x \<Longrightarrow> \<exists>y. x = Inr y"
  by (cases x) auto

lemma sample_update_ok:
  "\<not> isl (update_agent True 0 ''acme'' [(''greeting'', PStr ''Hello'')] None None sample_store)"
  by code_simp

lemma sample_update:
  "\<exists>r s'. update_agent True 0 ''acme'' [(''greeting'', PStr ''Hello'')] None None sample_store = Inr (r, s')"
  using not_isl_Inr [OF sample_update_ok] by auto

theorem update_reaches_graph_witness:
  "\<exists>(row :: agent_row) live. ag_workflow row = Some live \<and> speaks ''greeting'' ''Hello'' live \<and>
     od_get (ag_fields row) ''greeting'' = Some (PStr ''Hello'')"
proof -
  obtain r s' where u: "update_agent True 0 ''acme'' [(''greeting'', PStr ''Hello'')] None None sample_store = Inr (r, s')"
    using sample_update by blast
  have l: "scoped_agent 0 ''acme'' sample_store = Some stored_agent" "ag_workflow stored_agent \<noteq> None"
    by (simp_all add: scoped_agent_def sample_store_def slug_of_tenant_def od_get_def stored_agent_def new_agent_row_def)
  have kv: "od_get [(''greeting'', PStr ''Hello'')] ''greeting'' = Some (PStr ''Hello'')"
    "od_ok [(''greeting'', PStr ''Hello'')]"
    by (simp_all add: od_get_def)
  have c: "coerce_prompt (PStr ''Hello'') = ''Hello''" by (simp add: coerce_prompt_def)
  show ?thesis
    using update_reaches_graph [OF u disjI1 [OF refl] kv l] unfolding c by blast
qed

definition edited_object :: json_object where
  "edited_object = starter_object ''Good day'' ''Be brief''"

lemma edited_parses: "\<exists>gr. parse_graph (PDict edited_object) = Inr gr"
  unfolding edited_object_def starter_object_graph using parse_graph_starter by blast

lemma edited_validates: "\<exists>ws. validate (\<lambda>xs. xs) edited_object = Inr ws"
  using edited_parses validate_returns [of "\<lambda>xs. xs"] by blast

lemma edited_differs: "graphs_equivalent (Some edited_object) (Some sample_object) = Some False"
  by code_simp

lemma edited_same: "graphs_equivalent (Some edited_object) (Some edited_object) = Some True"
  by code_simp

lemma edited_publishes_ok:
  "\<not> isl (publish_version 0 stored_agent edited_object None None None sample_store)"
  by code_simp

lemma edited_publishes:
  "\<exists>v row s'. publish_version 0 stored_agent edited_object None None None sample_store = Inr (v, row, s')"
  using not_isl_Inr [OF edited_publishes_ok] by auto

lemma sample_publish:
  "\<exists>v cv ws s'. publish_workflow True (\<lambda>xs. xs) 0 ''acme'' (Some edited_object) None None None sample_store = Inr ((v, cv, ws), s')"
proof -
  obtain ws where ws: "validate (\<lambda>xs. xs) edited_object = Inr ws" using edited_validates by blast
  have l: "locked_agent 0 ''acme'' sample_store = Some stored_agent" "ag_workflow stored_agent = Some sample_object"
    by (simp_all add: locked_agent_iff sample_store_def slug_of_tenant_def od_get_def stored_agent_def new_agent_row_def)
  obtain v row s1 where p: "publish_version 0 stored_agent edited_object None None None sample_store = Inr (v, row, s1)"
    using edited_publishes by blast
  show ?thesis
    using ws l p edited_differs edited_same
    by (simp add: publish_workflow_def publish_peek_def publish_commit_def revalidate_def)
qed

theorem publish_goes_live_witness:
  "\<exists>(s' :: agent_store) r gt pt. od_get (st_agents s') 0 = Some r \<and> ag_workflow r = Some edited_object \<and>
     column_prompts edited_object = Some (gt, pt) \<and> od_get (ag_fields r) ''greeting'' = Some (PStr gt)"
proof -
  obtain v cv ws s' where p:
    "publish_workflow True (\<lambda>xs. xs) 0 ''acme'' (Some edited_object) None None None sample_store = Inr ((v, cv, ws), s')"
    using sample_publish by blast
  have l: "locked_agent 0 ''acme'' sample_store = Some stored_agent" "ag_workflow stored_agent = Some sample_object"
    by (simp_all add: locked_agent_iff sample_store_def slug_of_tenant_def od_get_def stored_agent_def new_agent_row_def)
  show ?thesis
    using publish_goes_live [OF p] l edited_differs by (auto split: if_splits)
qed

section \<open>What the fence and the re-validation miss\<close>

text \<open>
  A publish of the graph that is already live keeps the version of the configuration even when it replaces
  a different draft, so a later save of that draft with its old base version is accepted.
\<close>

lemma republish_keeps_version:
  assumes "publish_workflow up order i ts (Some g) note uid email s = Inr ((v, cv, ws), s')"
    and "locked_agent i ts s = Some r" and "ag_workflow r = Some g"
    and "graphs_equivalent (Some g) (Some g) = Some True"
  shows "cv = ag_version r \<and> od_get (st_agents s') i = Some (r\<lparr>ag_draft := Some g\<rparr>)"
proof -
  obtain old0 g0 ws0 where p: "publish_commit up order i ts (Some g) note uid email (g0, ws0) s = Inr ((v, cv, ws), s')"
    using publish_result [OF assms(1)] .
  obtain old g' same row s1 where c: "locked_agent i ts s = Some old"
    "(case Some g of Some h \<Rightarrow> Some h | None \<Rightarrow> ag_draft old) = Some g'"
    "graphs_equivalent (Some g') (ag_workflow old) = Some same"
    "(if same then sync_positions i old g' s else publish_version i old g' note uid email s) = Inr (v, row, s1)"
    "cv = ag_version row" "s' = forget_agent up ts (ag_slug row) s1"
    using publish_commit_result [OF p] by metis
  have "same" "old = r" "g' = g" using c(1-3) assms(2-4) by auto
  moreover have "published_row r g (ag_fields r) = r\<lparr>ag_draft := Some g\<rparr>" using assms(3) by simp
  ultimately show ?thesis
    using sync_positions_result [of i r g s v row s1] c(4-6) trigger_draft [of r] by simp
qed

text \<open>
  Two graphs that \<^verbatim>\<open>==\<close> cannot tell apart, because it takes \<^verbatim>\<open>True\<close> for 1, while \<^verbatim>\<open>str\<close> can: one is
  valid, the other has two steps of the same name. A draft that changes from the first to the second
  between the peek and the lock is published without having been validated.
\<close>

definition named_object :: "pyval \<Rightarrow> json_object" where
  "named_object v =
     [(''version'', PInt 1),
      (''nodes'', PList
        [PDict [(''id'', PStr ''s''), (''type'', PStr ''start''), (''data'', PDict [(''name'', v)])],
         PDict [(''id'', PStr ''x''), (''type'', PStr ''end''), (''data'', PDict [(''name'', PStr ''True'')])]]),
      (''edges'', PList
        [PDict [(''id'', PStr ''e''), (''source'', PStr ''s''), (''target'', PStr ''x''),
                (''data'', PDict [(''label'', PStr ''done''), (''condition'', PStr ''done'')])]])]"

lemma equal_graphs_same:
  "graphs_equivalent (Some (named_object (PBool True))) (Some (named_object (PInt 1))) = Some True"
  by code_simp

lemma equal_graphs_differ:
  "\<not> isl (parse_graph (PDict (named_object (PInt 1))))"
  "isl (parse_graph (PDict (named_object (PBool True))))"
  by code_simp+

lemma late_publish_skips_validation:
  assumes "locked_agent i ts s = Some r" and "ag_draft r = Some (named_object (PBool True))"
  shows "revalidate order (named_object (PBool True)) (named_object (PInt 1), ws) = Inr ws"
  by (simp add: revalidate_def equal_graphs_same)

text \<open>\<^verbatim>\<open>update_agent\<close> and \<^verbatim>\<open>soft_delete_agent\<close> find an agent that has been deleted; \<^verbatim>\<open>_locked_agent\<close> does not.\<close>

lemma deleted_agent_still_found:
  assumes "od_get (st_agents s) i = Some r" and "slug_of_tenant (ag_tenant r) s = Some ts"
    and "ag_deleted_at r = Some t"
  shows "scoped_agent i ts s = Some r \<and> locked_agent i ts s = None"
  using assms by (simp add: scoped_agent_def locked_agent_def)

section \<open>Tenants stay apart\<close>

text \<open>
  \<^verbatim>\<open>_resolve_tenant\<close> of \<^verbatim>\<open>routers/agents.py\<close>: the tenant of the path, hidden from an actor of another
  tenant. Every route of the router calls it before the service.
\<close>

definition resolve_tenant :: "string \<Rightarrow> claims \<Rightarrow> agent_store \<Rightarrow> nat option" where
  "resolve_tenant slug c s =
     (case find (\<lambda>p. t_slug (snd p) = slug \<and> \<not> t_deleted (snd p)) (st_tenants s) of
        None \<Rightarrow> None
      | Some p \<Rightarrow>
          if a_role c = SUPERADMIN \<or> a_service_account c \<or> a_tenant c = Some (fst p) then Some (fst p) else None)"

definition event_slug :: "store_event \<Rightarrow> string option" where
  "event_slug e =
     (case e of
        Update _ _ ts _ _ _ \<Rightarrow> Some ts
      | SoftDelete _ _ _ ts _ _ \<Rightarrow> Some ts
      | SaveDraft _ _ ts _ _ \<Rightarrow> Some ts
      | Publish _ _ ts _ _ _ _ \<Rightarrow> Some ts
      | Rollback _ _ ts _ _ _ \<Rightarrow> Some ts
      | _ \<Rightarrow> None)"

text \<open>
  The routes that change an existing agent: the dependency \<^verbatim>\<open>require_role\<close> first, then the request runs
  only when the path's tenant resolves.
\<close>

definition routed_step ::
  "(string list \<Rightarrow> string list) \<Rightarrow> claims \<Rightarrow> store_event \<Rightarrow> agent_store \<Rightarrow> agent_store" where
  "routed_step order c e s =
     (if a_role c \<noteq> SUPERADMIN \<and> a_role c \<noteq> ADMIN then s
      else case event_slug e of
        None \<Rightarrow> s
      | Some slug \<Rightarrow> (case resolve_tenant slug c s of None \<Rightarrow> s | Some _ \<Rightarrow> agents_step order e s))"

definition spares :: "string \<Rightarrow> agent_store \<Rightarrow> agent_store \<Rightarrow> bool" where
  "spares slug s s' \<longleftrightarrow>
     (\<forall>j r. od_get (st_agents s) j = Some r \<longrightarrow> slug_of_tenant (ag_tenant r) s \<noteq> Some slug \<longrightarrow>
            od_get (st_agents s') j = Some r)"

lemma spares_same [simp]: "spares slug s s"
  by (simp add: spares_def)

lemma spares_agents: "st_agents s' = st_agents t \<Longrightarrow> spares slug s t \<Longrightarrow> spares slug s s'"
  by (simp add: spares_def)

lemma spares_put: "scoped_agent i slug s = Some old \<Longrightarrow> spares slug s (put_agent i old new s)"
  by (auto simp: spares_def scoped_agent_def split: option.splits if_splits)

lemma locked_scoped: "locked_agent i ts s = Some r \<Longrightarrow> scoped_agent i ts s = Some r"
  by (auto simp: locked_agent_def split: option.splits if_splits)

lemma spares_update: "update_agent up i slug kw uid email s = Inr (r, s') \<Longrightarrow> spares slug s s'"
  by (erule update_agent_result) (auto intro: spares_agents [OF _ spares_put] split: option.splits)

lemma spares_soft_delete: "soft_delete_agent up now i slug uid email s = Inr s' \<Longrightarrow> spares slug s s'"
  by (auto simp: soft_delete_agent_def intro: spares_agents [OF _ spares_put] split: option.splits)

lemma spares_save_draft: "save_draft up i slug g base s = Inr (v, s') \<Longrightarrow> spares slug s s'"
  by (auto simp: save_draft_def intro: spares_agents [OF _ spares_put] dest: locked_scoped split: option.splits if_splits)

lemma spares_publish:
  assumes "publish_workflow up order i slug graph note uid email s = Inr (out, s')"
  shows "spares slug s s'"
proof -
  obtain v cv ws where out: "out = (v, cv, ws)" by (cases out) auto
  obtain g0 ws0 where p: "publish_commit up order i slug graph note uid email (g0, ws0) s = Inr (out, s')"
    using publish_result [OF assms] .
  obtain old g same row s1 where c: "locked_agent i slug s = Some old"
    "(if same then sync_positions i old g s else publish_version i old g note uid email s) = Inr (v, row, s1)"
    "s' = forget_agent up slug (ag_slug row) s1"
    using publish_commit_result [OF p [unfolded out]] by metis
  have "\<exists>new. st_agents s' = st_agents (put_agent i old new s)"
    using c(2,3) by (cases same) (auto dest!: sync_positions_result elim!: publish_version_result)
  then show ?thesis using spares_put [OF locked_scoped [OF c(1)]] spares_agents by blast
qed

lemma spares_done: "(\<And>x s'. r = Inr (x, s') \<Longrightarrow> spares slug s s') \<Longrightarrow> spares slug s (done_or s r)"
  by (cases r) (auto simp: done_or_def)

lemma step_spares:
  assumes "event_slug e = Some slug"
  shows "spares slug s (agents_step order e s)"
proof (cases e)
  case (SoftDelete up now i ts uid email)
  then show ?thesis using assms spares_soft_delete [of up now i ts uid email s]
    by (auto simp: event_slug_def split: sum.splits)
next
  case (Rollback up i ts v uid email)
  then show ?thesis using assms
    by (auto simp: event_slug_def rollback_def intro!: spares_done dest: spares_publish split: option.splits)
qed (use assms in \<open>auto simp: event_slug_def intro!: spares_done
      dest: spares_update spares_save_draft spares_publish\<close>)

lemma slug_unique:
  assumes "distinct (map (t_slug \<circ> snd) (st_tenants s))" and "(t, rt) \<in> set (st_tenants s)"
    and "slug_of_tenant u s = Some (t_slug rt)"
  shows "u = t"
proof -
  obtain ru where u: "(u, ru) \<in> set (st_tenants s)" "t_slug ru = t_slug rt"
    using assms(3) by (auto simp: slug_of_tenant_def dest: od_get_SomeD)
  then show ?thesis
    using assms(1,2) by (force simp: distinct_map inj_on_def)
qed

text \<open>
  C25. An actor who belongs to one tenant and is neither a superadmin nor a service account cannot change
  an agent of any other tenant, whatever id and path a request carries; the slugs of tenants are unique,
  which the table demands.
\<close>

theorem tenants_stay_apart:
  assumes "a_role c \<noteq> SUPERADMIN" and "\<not> a_service_account c" and "a_tenant c = Some t"
    and "distinct (map (t_slug \<circ> snd) (st_tenants s))"
    and "od_get (st_agents s) i = Some r" and "ag_tenant r \<noteq> t"
  shows "od_get (st_agents (routed_step order c e s)) i = Some r"
proof (cases "event_slug e")
  case (Some slug)
  show ?thesis
  proof (cases "resolve_tenant slug c s")
    case (Some u)
    obtain p where p: "find (\<lambda>p. t_slug (snd p) = slug \<and> \<not> t_deleted (snd p)) (st_tenants s) = Some p"
      "fst p = t"
      using Some assms(1-3) by (auto simp: resolve_tenant_def split: option.splits if_splits)
    have "p \<in> set (st_tenants s)" "t_slug (snd p) = slug"
      using p(1) find_member [OF p(1)] by (auto simp: find_Some_iff)
    then have "slug_of_tenant (ag_tenant r) s \<noteq> Some slug"
      using slug_unique [OF assms(4), of t "snd p"] p(2) assms(6) by (metis prod.collapse)
    then show ?thesis
      using step_spares [OF \<open>event_slug e = Some slug\<close>] assms(5) Some \<open>event_slug e = Some slug\<close>
      by (simp add: routed_step_def spares_def)
  qed (simp add: routed_step_def assms(5) \<open>event_slug e = Some slug\<close>)
qed (simp add: routed_step_def assms(5))

theorem tenants_stay_apart_witness:
  "od_get (st_agents (routed_step (\<lambda>xs. xs)
      \<lparr>a_id = 9, a_email = ''x@y.z'', a_role = ADMIN, a_tenant = Some 2, a_service_account = False\<rparr>
      (SaveDraft True 0 ''acme'' [] None) sample_store)) 0 = Some stored_agent"
  by (rule tenants_stay_apart [where t = 2])
    (simp_all add: sample_store_def od_get_def stored_agent_def new_agent_row_def)

end
