(* ===== verification/Provider_Store.thy ===== *)
theory Provider_Store
  imports Agent_Store Secrets
begin

text \<open>
  The rows of \<^verbatim>\<open>provider_configs\<close> (\<^verbatim>\<open>services/config/provider_configs.py\<close> and its routes): creating, editing
  and deleting a provider, what a deletion does to the tenants and agents that use it, and the assignments
  (\<^verbatim>\<open>_validate_provider_assignments\<close> of \<^verbatim>\<open>agents.py\<close>, \<^verbatim>\<open>update_tenant\<close> of \<^verbatim>\<open>tenants.py\<close>). Of tenants and agents
  only the columns that name a provider are kept, by role, without those that are NULL. A transaction is
  one function. Whether Redis answers is an argument.
\<close>

section \<open>Tables\<close>

record provider =
  pv_tenant :: nat
  pv_role :: string
  pv_fields :: "(string, pyval) odict"
  pv_created_at :: rat
  pv_deleted_at :: "rat option"

record default_row =
  dt_slug :: string
  dt_deleted :: bool
  dt_defaults :: "(string, nat) odict"

record override_row =
  ov_tenant :: nat
  ov_slug :: string
  ov_deleted :: bool
  ov_overrides :: "(string, nat) odict"

record audit_entry =
  ae_entity :: nat
  ae_action :: string
  ae_user :: "nat option"
  ae_old :: "(string, pyval) odict option"
  ae_new :: "(string, pyval) odict option"

datatype cached_row = CachedProvider provider | CachedOther

record providers =
  pd_rows :: "(nat, provider) odict"
  pd_tenants :: "(nat, default_row) odict"
  pd_agents :: "(nat, override_row) odict"
  pd_next :: nat
  pd_redis :: "cached_row cache"
  pd_published :: "nat list"
  pd_audits :: "audit_entry list"

datatype provider_error =
    BadCredential secret_error
  | NoFieldsLeft
  | UnknownColumn
  | ProviderMissing
  | RowRefused
  | TenantMissing
  | ForeignTenant
  | RoleForbidden
  | BlankCredential
  | BadAssignment

definition provider_key :: "nat \<Rightarrow> string" where
  "provider_key i = ''provider:'' @ nat_digits i"

definition tenant_key :: "string \<Rightarrow> string" where
  "tenant_key slug = ''tenant:'' @ slug"

definition VOICE_ROLES :: "string list" where
  "VOICE_ROLES = [''stt'', ''llm'', ''tts'']"

text \<open>The constraints of the table; the role \<^verbatim>\<open>embedding\<close> comes with \<^verbatim>\<open>database/knowledge_schema.sql\<close>.\<close>

definition fields_ok :: "(string, pyval) odict \<Rightarrow> bool" where
  "fields_ok f =
     (py_get f ''name'' \<noteq> PNone \<and> py_get f ''engine'' \<noteq> PNone \<and>
      column_in f ''environment'' [''prod'', ''staging'', ''dev''] \<and> list_all (json_storable \<circ> snd) f)"

definition role_known :: "string \<Rightarrow> bool" where
  "role_known r = (r \<in> set (VOICE_ROLES @ [''embedding'']))"

section \<open>The audit\<close>

definition SECRET_REF_FIELDS :: "string list" where
  "SECRET_REF_FIELDS = [''api_key_ref'', ''auth_token_ref'', ''password_hash'', ''token_hash'']"

definition redact :: "(string, pyval) odict \<Rightarrow> (string, pyval) odict" where
  "redact f = map (\<lambda>p. (fst p, if fst p \<in> set SECRET_REF_FIELDS then PStr ''[redacted]'' else snd p)) f"

definition write_audit ::
  "nat \<Rightarrow> string \<Rightarrow> nat option \<Rightarrow> (string, pyval) odict option \<Rightarrow> (string, pyval) odict option \<Rightarrow> providers \<Rightarrow> providers" where
  "write_audit i action uid before new s =
     s\<lparr>pd_audits := pd_audits s @
        [\<lparr>ae_entity = i, ae_action = action, ae_user = uid, ae_old = map_option redact before, ae_new = map_option redact new\<rparr>]\<rparr>"

section \<open>Reading\<close>

definition live_row :: "nat \<Rightarrow> providers \<Rightarrow> provider option" where
  "live_row i s = (case od_get (pd_rows s) i of None \<Rightarrow> None | Some r \<Rightarrow> if pv_deleted_at r = None then Some r else None)"

definition get_provider :: "bool \<Rightarrow> bool \<Rightarrow> rat \<Rightarrow> nat \<Rightarrow> providers \<Rightarrow> provider option \<times> providers" where
  "get_provider up1 up2 now i s =
     (case cache_get_json up1 now (provider_key i) (pd_redis s) of
        Some (CachedProvider r) \<Rightarrow> (Some r, s)
      | _ \<Rightarrow>
          (case live_row i s of
             None \<Rightarrow> (None, s)
           | Some r \<Rightarrow>
               (Some r, s\<lparr>pd_redis := cache_set_json up2 now (provider_key i) (CachedProvider r) (Some DEFAULT_TTL_SECONDS) (pd_redis s)\<rparr>)))"

text \<open>The list of a tenant; its order by name is left out.\<close>

definition list_providers :: "nat \<Rightarrow> string option \<Rightarrow> string option \<Rightarrow> providers \<Rightarrow> (nat \<times> provider) list" where
  "list_providers t role environment s =
     filter (\<lambda>(i, r). pv_tenant r = t \<and> pv_deleted_at r = None \<and> (role = None \<or> role = Some (pv_role r)) \<and>
        (environment = None \<or> py_get (pv_fields r) ''environment'' = PStr (the environment))) (pd_rows s)"

section \<open>Writing\<close>

text \<open>A text or \<^verbatim>\<open>None\<close>, as the request schema has it.\<close>

definition text_field :: "(string, pyval) odict \<Rightarrow> string \<Rightarrow> string option" where
  "text_field f k = (case py_get f k of PStr t \<Rightarrow> Some t | _ \<Rightarrow> None)"

definition opt_text :: "string option \<Rightarrow> pyval" where
  "opt_text x = (case x of None \<Rightarrow> PNone | Some t \<Rightarrow> PStr t)"

definition new_fields :: "(string, pyval) odict \<Rightarrow> string option \<Rightarrow> (string, pyval) odict" where
  "new_fields kw ref =
     [(''name'', py_get kw ''name''), (''engine'', py_get kw ''engine''),
      (''environment'', if od_get kw ''environment'' = None then PStr ''prod'' else py_get kw ''environment''),
      (''model'', py_get kw ''model''), (''voice'', py_get kw ''voice''), (''language'', py_get kw ''language''),
      (''region'', py_get kw ''region''), (''api_key_ref'', opt_text ref), (''extra'', py_get kw ''extra'')]"

definition create_provider ::
  "fernet option \<Rightarrow> rat \<Rightarrow> nat \<Rightarrow> string \<Rightarrow> (string, pyval) odict \<Rightarrow> nat option \<Rightarrow> providers \<Rightarrow>
     provider_error + (nat \<times> providers)" where
  "create_provider f now t role kw uid s =
     (case resolve_api_key_input f (text_field kw ''api_key'') (text_field kw ''api_key_ref'') of
        Inl e \<Rightarrow> Inl (BadCredential e)
      | Inr ref \<Rightarrow>
          let cols = new_fields kw ref; i = pd_next s
          in if od_get (pd_tenants s) t = None \<or> \<not> role_known role \<or> \<not> fields_ok cols then Inl RowRefused
             else Inr (i, write_audit i ''created'' uid None (Some cols)
               (s\<lparr>pd_rows := od_set i \<lparr>pv_tenant = t, pv_role = role, pv_fields = cols, pv_created_at = now, pv_deleted_at = None\<rparr>
                    (pd_rows s), pd_next := Suc i\<rparr>)))"

definition UPDATABLE_PROVIDER_FIELDS :: "string list" where
  "UPDATABLE_PROVIDER_FIELDS =
     [''name'', ''engine'', ''model'', ''voice'', ''language'', ''region'', ''environment'', ''api_key_ref'', ''extra'']"

text \<open>
  The credential of a request: \<^verbatim>\<open>api_key\<close> is not a column. A key that is there but empty clears the
  credential.
\<close>

definition fold_credential :: "fernet option \<Rightarrow> (string, pyval) odict \<Rightarrow> provider_error + (string, pyval) odict" where
  "fold_credential f kw =
     (let rest = od_del ''api_key'' kw in
      if od_get kw ''api_key'' = None \<and> od_get rest ''api_key_ref'' = None then Inr rest
      else case resolve_api_key_input f (text_field kw ''api_key'') (text_field rest ''api_key_ref'') of
        Inl e \<Rightarrow> Inl (BadCredential e)
      | Inr ref \<Rightarrow> Inr (od_set ''api_key_ref'' (opt_text ref) rest))"

definition put_fields :: "(string, pyval) odict \<Rightarrow> (string, pyval) odict \<Rightarrow> (string, pyval) odict" where
  "put_fields new f =
     fold (\<lambda>k d. case od_get new k of None \<Rightarrow> d | Some v \<Rightarrow> od_set k v d) UPDATABLE_PROVIDER_FIELDS f"

definition tell :: "bool \<Rightarrow> nat \<Rightarrow> providers \<Rightarrow> providers" where
  "tell up i s = (if up then s\<lparr>pd_published := pd_published s @ [i]\<rparr> else s)"

definition forget_keys :: "bool \<Rightarrow> string list \<Rightarrow> providers \<Rightarrow> providers" where
  "forget_keys up ks s = s\<lparr>pd_redis := cache_invalidate up ks (pd_redis s)\<rparr>"

definition update_provider ::
  "fernet option \<Rightarrow> bool \<Rightarrow> bool \<Rightarrow> nat \<Rightarrow> (string, pyval) odict \<Rightarrow> nat option \<Rightarrow> providers \<Rightarrow> provider_error + providers" where
  "update_provider f up1 up2 i kw uid s =
     (case fold_credential f kw of
        Inl e \<Rightarrow> Inl e
      | Inr cols \<Rightarrow>
          if cols = [] then Inl NoFieldsLeft
          else if \<not> list_all (\<lambda>p. fst p \<in> set UPDATABLE_PROVIDER_FIELDS) cols then Inl UnknownColumn
          else case od_get (pd_rows s) i of
            None \<Rightarrow> Inl ProviderMissing
          | Some r \<Rightarrow>
              let new = put_fields cols (pv_fields r) in
              if \<not> fields_ok new then Inl RowRefused
              else Inr (tell up2 i (forget_keys up1 [provider_key i]
                (write_audit i ''updated'' uid
                   (Some (map (\<lambda>p. (fst p, py_get (pv_fields r) (fst p))) cols))
                   (Some (map (\<lambda>p. (fst p, py_get new (fst p))) cols))
                   (s\<lparr>pd_rows := od_set i (r\<lparr>pv_fields := new\<rparr>) (pd_rows s)\<rparr>)))))"

text \<open>
  The newest provider of a tenant and role that is not deleted; of rows created at the same time
  the database may choose any, here it is the first.
\<close>

definition candidates :: "nat \<Rightarrow> string \<Rightarrow> (nat, provider) odict \<Rightarrow> (nat \<times> provider) list" where
  "candidates t role rows = filter (\<lambda>p. pv_tenant (snd p) = t \<and> pv_role (snd p) = role \<and> pv_deleted_at (snd p) = None) rows"

definition newest :: "(nat \<times> provider) list \<Rightarrow> nat option" where
  "newest ps =
     (case ps of [] \<Rightarrow> None
      | p # qs \<Rightarrow> Some (fst (fold (\<lambda>q b. if pv_created_at (snd b) < pv_created_at (snd q) then q else b) qs p)))"

definition set_column :: "string \<Rightarrow> nat option \<Rightarrow> (string, nat) odict \<Rightarrow> (string, nat) odict" where
  "set_column role v d = (case v of None \<Rightarrow> od_del role d | Some i \<Rightarrow> od_set role i d)"

definition detach_agent :: "string \<Rightarrow> nat \<Rightarrow> override_row \<Rightarrow> override_row" where
  "detach_agent role i r =
     (if od_get (ov_overrides r) role = Some i then r\<lparr>ov_overrides := od_del role (ov_overrides r)\<rparr> else r)"

definition uses_default :: "string \<Rightarrow> nat \<Rightarrow> default_row \<Rightarrow> bool" where
  "uses_default role i r = (od_get (dt_defaults r) role = Some i \<and> \<not> dt_deleted r)"

definition repoint :: "string \<Rightarrow> nat \<Rightarrow> (nat, provider) odict \<Rightarrow> nat \<Rightarrow> default_row \<Rightarrow> default_row" where
  "repoint role i rows t r =
     (if uses_default role i r
      then r\<lparr>dt_defaults := set_column role (newest (candidates t role rows)) (dt_defaults r)\<rparr> else r)"

definition slug_of :: "nat \<Rightarrow> providers \<Rightarrow> string option" where
  "slug_of t s = map_option dt_slug (od_get (pd_tenants s) t)"

text \<open>The keys of live agents in the tenants with these slugs, and of those that \<open>P\<close> picks.\<close>

definition agent_keys :: "(override_row \<Rightarrow> string \<Rightarrow> bool) \<Rightarrow> providers \<Rightarrow> string list" where
  "agent_keys P s =
     concat (map (\<lambda>p. case slug_of (ov_tenant (snd p)) s of
         Some slug \<Rightarrow> if \<not> ov_deleted (snd p) \<and> P (snd p) slug then [agent_cache_key slug (ov_slug (snd p))] else []
       | None \<Rightarrow> []) (pd_agents s))"

definition detach_all :: "string \<Rightarrow> nat \<Rightarrow> providers \<Rightarrow> providers" where
  "detach_all role i s =
     (if role \<in> set VOICE_ROLES
      then s\<lparr>pd_agents := map (\<lambda>p. (fst p, detach_agent role i (snd p))) (pd_agents s),
             pd_tenants := map (\<lambda>p. (fst p, repoint role i (pd_rows s) (fst p) (snd p))) (pd_tenants s)\<rparr>
      else s)"

definition stale_keys :: "string \<Rightarrow> nat \<Rightarrow> providers \<Rightarrow> string list" where
  "stale_keys role i s =
     (let slugs = (if role \<in> set VOICE_ROLES
        then map (\<lambda>p. dt_slug (snd p)) (filter (\<lambda>p. uses_default role i (snd p)) (pd_tenants s)) else [])
      in provider_key i # map tenant_key slugs @
         agent_keys (\<lambda>r slug. role \<in> set VOICE_ROLES \<and> od_get (ov_overrides r) role = Some i) s @
         agent_keys (\<lambda>r slug. slug \<in> set slugs) s)"

definition soft_delete_provider ::
  "bool \<Rightarrow> bool \<Rightarrow> rat \<Rightarrow> nat \<Rightarrow> nat option \<Rightarrow> providers \<Rightarrow> provider_error + providers" where
  "soft_delete_provider up1 up2 now i uid s =
     (case od_get (pd_rows s) i of
        None \<Rightarrow> Inl ProviderMissing
      | Some r \<Rightarrow>
          let s1 = write_audit i ''deleted'' uid (Some (pv_fields r)) None
                (s\<lparr>pd_rows := od_set i (r\<lparr>pv_deleted_at := Some now\<rparr>) (pd_rows s)\<rparr>)
          in Inr (tell up2 i (forget_keys up1 (stale_keys (pv_role r) i s) (detach_all (pv_role r) i s1))))"

section \<open>Assignments\<close>

definition assignable :: "nat \<Rightarrow> string \<Rightarrow> nat \<Rightarrow> providers \<Rightarrow> bool" where
  "assignable t role i s =
     (case od_get (pd_rows s) i of
        None \<Rightarrow> False
      | Some r \<Rightarrow>
          pv_tenant r = t \<and> pv_role r = role \<and>
          \<not> (py_get (pv_fields r) ''engine'' \<in> PStr ` set TTS_ENGINES_REQUIRING_VOICE \<and> \<not> truthy (py_get (pv_fields r) ''voice'')))"

definition assign_override :: "nat \<Rightarrow> string \<Rightarrow> nat option \<Rightarrow> providers \<Rightarrow> provider_error + providers" where
  "assign_override a role v s =
     (case od_get (pd_agents s) a of
        None \<Rightarrow> Inl BadAssignment
      | Some r \<Rightarrow>
          if role \<notin> set VOICE_ROLES \<or> (case v of None \<Rightarrow> False | Some i \<Rightarrow> \<not> assignable (ov_tenant r) role i s) then Inl BadAssignment
          else Inr (s\<lparr>pd_agents := od_set a (r\<lparr>ov_overrides := set_column role v (ov_overrides r)\<rparr>) (pd_agents s)\<rparr>))"

text \<open>The default of a tenant is only held by the foreign key.\<close>

definition assign_default :: "nat \<Rightarrow> string \<Rightarrow> nat option \<Rightarrow> providers \<Rightarrow> provider_error + providers" where
  "assign_default t role v s =
     (case od_get (pd_tenants s) t of
        None \<Rightarrow> Inl BadAssignment
      | Some r \<Rightarrow>
          if role \<notin> set VOICE_ROLES \<or> (case v of None \<Rightarrow> False | Some i \<Rightarrow> od_get (pd_rows s) i = None) then Inl BadAssignment
          else Inr (s\<lparr>pd_tenants := od_set t (r\<lparr>dt_defaults := set_column role v (dt_defaults r)\<rparr>) (pd_tenants s)\<rparr>))"

section \<open>The routes\<close>

definition unscoped :: "claims \<Rightarrow> bool" where
  "unscoped c = (a_role c = SUPERADMIN \<or> a_tenant c = None)"

definition writes_rows :: "claims \<Rightarrow> bool" where
  "writes_rows c = (a_role c = SUPERADMIN \<or> a_role c = ADMIN)"

definition authorize_provider ::
  "bool \<Rightarrow> bool \<Rightarrow> rat \<Rightarrow> claims \<Rightarrow> nat \<Rightarrow> providers \<Rightarrow> (provider_error + provider) \<times> providers" where
  "authorize_provider up1 up2 now c i s =
     (case get_provider up1 up2 now i s of
        (None, s') \<Rightarrow> (Inl ProviderMissing, s')
      | (Some r, s') \<Rightarrow> (if \<not> unscoped c \<and> a_tenant c \<noteq> Some (pv_tenant r) then Inl ForeignTenant else Inr r, s'))"

text \<open>The route that creates a row looks at the role of the caller and at the tenant's id, not at the caller's tenant.\<close>

definition create_route ::
  "fernet option \<Rightarrow> rat \<Rightarrow> claims \<Rightarrow> nat \<Rightarrow> string \<Rightarrow> (string, pyval) odict \<Rightarrow> providers \<Rightarrow> provider_error + (nat \<times> providers)" where
  "create_route f now c t role kw s =
     (if \<not> writes_rows c then Inl RoleForbidden
      else case od_get (pd_tenants s) t of
        None \<Rightarrow> Inl TenantMissing
      | Some r \<Rightarrow> if dt_deleted r then Inl TenantMissing else create_provider f now t role kw (Some (a_id c)) s)"

definition list_route :: "claims \<Rightarrow> nat \<Rightarrow> string option \<Rightarrow> string option \<Rightarrow> providers \<Rightarrow> provider_error + (nat \<times> provider) list" where
  "list_route c t role environment s =
     (if \<not> unscoped c \<and> a_tenant c \<noteq> Some t then Inl ForeignTenant else Inr (list_providers t role environment s))"

definition blank_text :: "string option \<Rightarrow> bool" where
  "blank_text x = (py_strip (case x of None \<Rightarrow> [] | Some t \<Rightarrow> t) = [])"

definition patch_route ::
  "fernet option \<Rightarrow> nat \<Rightarrow> (nat \<Rightarrow> bool) \<Rightarrow> rat \<Rightarrow> claims \<Rightarrow> (string, pyval) odict \<Rightarrow> providers \<Rightarrow>
     provider_error option \<times> providers" where
  "patch_route f i up now c kw s =
     (if \<not> writes_rows c then (Some RoleForbidden, s)
      else case authorize_provider (up 0) (up 1) now c i s of
        (Inl e, s') \<Rightarrow> (Some e, s')
      | (Inr r, s') \<Rightarrow>
          if kw = [] then (Some NoFieldsLeft, s')
          else if od_get kw ''api_key_ref'' \<noteq> None \<and> blank_text (text_field kw ''api_key_ref'') \<and> blank_text (text_field kw ''api_key'')
          then (Some BlankCredential, s')
          else case update_provider f (up 2) (up 3) i kw (Some (a_id c)) s' of
            Inl e \<Rightarrow> (Some e, s')
          | Inr s'' \<Rightarrow> (None, s''))"

definition delete_route :: "nat \<Rightarrow> (nat \<Rightarrow> bool) \<Rightarrow> rat \<Rightarrow> claims \<Rightarrow> providers \<Rightarrow> provider_error option \<times> providers" where
  "delete_route i up now c s =
     (if \<not> writes_rows c then (Some RoleForbidden, s)
      else case authorize_provider (up 0) (up 1) now c i s of
        (Inl e, s') \<Rightarrow> (Some e, s')
      | (Inr r, s') \<Rightarrow>
          (case soft_delete_provider (up 2) (up 3) now i (Some (a_id c)) s' of
             Inl e \<Rightarrow> (Some e, s')
           | Inr s'' \<Rightarrow> (None, s'')))"

datatype provider_event =
    CreateProvider rat claims nat string "(string, pyval) odict"
  | ReadProvider "nat \<Rightarrow> bool" rat claims nat
  | PatchProvider "nat \<Rightarrow> bool" rat claims nat "(string, pyval) odict"
  | DeleteProvider "nat \<Rightarrow> bool" rat claims nat
  | AssignOverride nat string "nat option"
  | AssignDefault nat string "nat option"

definition kept :: "providers \<Rightarrow> provider_error + providers \<Rightarrow> providers" where
  "kept s r = (case r of Inl e \<Rightarrow> s | Inr s' \<Rightarrow> s')"

fun provider_step :: "fernet option \<Rightarrow> provider_event \<Rightarrow> providers \<Rightarrow> providers" where
  "provider_step f (CreateProvider now c t role kw) s = kept s (map_sum id snd (create_route f now c t role kw s))"
| "provider_step f (ReadProvider up now c i) s = snd (authorize_provider (up 0) (up 1) now c i s)"
| "provider_step f (PatchProvider up now c i kw) s = snd (patch_route f i up now c kw s)"
| "provider_step f (DeleteProvider up now c i) s = snd (delete_route i up now c s)"
| "provider_step f (AssignOverride a role v) s = kept s (assign_override a role v s)"
| "provider_step f (AssignDefault t role v) s = kept s (assign_default t role v s)"

section \<open>Credentials stay sealed\<close>

definition credential_of :: "provider \<Rightarrow> string option" where
  "credential_of r = text_field (pv_fields r) ''api_key_ref''"

definition redacted :: "(string, pyval) odict option \<Rightarrow> bool" where
  "redacted f = (\<forall>d. f = Some d \<longrightarrow> (\<forall>p\<in>set d. fst p \<in> set SECRET_REF_FIELDS \<longrightarrow> snd p = PStr ''[redacted]''))"


definition audits_sealed :: "audit_entry list \<Rightarrow> bool" where
  "audits_sealed es = (\<forall>a\<in>set es. redacted (ae_old a) \<and> redacted (ae_new a))"


lemma audits_sealed_write [simp]: "audits_sealed (pd_audits (write_audit i a uid b n s)) = audits_sealed (pd_audits s)"
proof -
  have "redacted (map_option redact f)" for f by (auto simp: redacted_def redact_def)
  then show ?thesis by (simp add: audits_sealed_def write_audit_def ball_Un)
qed

lemma write_audit_sel [simp]:
  "pd_rows (write_audit i a uid b n s) = pd_rows s"
  "pd_agents (write_audit i a uid b n s) = pd_agents s"
  "pd_tenants (write_audit i a uid b n s) = pd_tenants s"
  "pd_redis (write_audit i a uid b n s) = pd_redis s"
  "pd_next (write_audit i a uid b n s) = pd_next s"
  "pd_published (write_audit i a uid b n s) = pd_published s"
  by (simp_all add: write_audit_def)

lemma tell_forget_sel [simp]:
  "pd_rows (tell up i s) = pd_rows s" "pd_rows (forget_keys up ks s) = pd_rows s"
  "pd_agents (tell up i s) = pd_agents s" "pd_agents (forget_keys up ks s) = pd_agents s"
  "pd_tenants (tell up i s) = pd_tenants s" "pd_tenants (forget_keys up ks s) = pd_tenants s"
  "pd_next (tell up i s) = pd_next s" "pd_next (forget_keys up ks s) = pd_next s"
  "pd_audits (tell up i s) = pd_audits s" "pd_audits (forget_keys up ks s) = pd_audits s"
  "pd_redis (tell up i s) = pd_redis s" "pd_redis (forget_keys up ks s) = cache_invalidate up ks (pd_redis s)"
  "pd_published (tell up i s) = (if up then pd_published s @ [i] else pd_published s)"
  "pd_published (forget_keys up ks s) = pd_published s"
  by (simp_all add: tell_def forget_keys_def)

lemma detach_all_sel [simp]:
  "pd_rows (detach_all role i s) = pd_rows s" "pd_redis (detach_all role i s) = pd_redis s"
  "pd_next (detach_all role i s) = pd_next s" "pd_audits (detach_all role i s) = pd_audits s"
  "pd_published (detach_all role i s) = pd_published s"
  by (simp_all add: detach_all_def)

lemma fold_del_get: "od_get (fold od_del ks c) k = (if k \<in> set ks then None else od_get c k)"
  by (induction ks arbitrary: c) auto

lemma cache_invalidate_get: "od_get (cache_invalidate up ks c) k = (if up \<and> k \<in> set ks then None else od_get c k)"
  by (simp add: cache_invalidate_def fold_del_get)


lemma text_field_opt_text [simp]: "od_get f k = Some (opt_text x) \<Longrightarrow> text_field f k = x"
  by (cases x) (simp_all add: text_field_def opt_text_def py_get_def)



lemma create_providerD:
  assumes "create_provider f now t role kw uid s = Inr (i, s')"
  obtains ref cols where "resolve_api_key_input f (text_field kw ''api_key'') (text_field kw ''api_key_ref'') = Inr ref"
    "od_get cols ''api_key_ref'' = Some (opt_text ref)" "i = pd_next s" "od_get (pd_tenants s) t \<noteq> None" "role_known role"
    "s' = write_audit i ''created'' uid None (Some cols)
       (s\<lparr>pd_rows := od_set i \<lparr>pv_tenant = t, pv_role = role, pv_fields = cols, pv_created_at = now, pv_deleted_at = None\<rparr>
            (pd_rows s), pd_next := Suc i\<rparr>)"
proof -
  obtain ref where ref: "resolve_api_key_input f (text_field kw ''api_key'') (text_field kw ''api_key_ref'') = Inr ref"
    using assms by (auto simp: create_provider_def split: sum.splits)
  have "od_get (new_fields kw ref) ''api_key_ref'' = Some (opt_text ref)" by (simp add: new_fields_def od_get_def)
  then show ?thesis
    using that [OF ref, of "new_fields kw ref"] assms by (auto simp: create_provider_def ref Let_def split: if_splits)
qed


text \<open>A read answers from the cache, finds no row, or copies a live row into the cache.\<close>

lemma get_provider_cases:
  assumes "get_provider up1 up2 now i s = (x, s')"
  obtains (hit) r where "x = Some r" "s' = s" "\<exists>e. od_get (pd_redis s) (provider_key i) = Some (CachedProvider r, e)"
  | (missing) "x = None" "s' = s"
  | (row) r where "x = Some r" "od_get (pd_rows s) i = Some r" "pv_deleted_at r = None"
      "s' = s\<lparr>pd_redis := cache_set_json up2 now (provider_key i) (CachedProvider r) (Some DEFAULT_TTL_SECONDS) (pd_redis s)\<rparr>"
proof (cases "\<exists>r. cache_get_json up1 now (provider_key i) (pd_redis s) = Some (CachedProvider r)")
  case True
  then obtain r where c: "cache_get_json up1 now (provider_key i) (pd_redis s) = Some (CachedProvider r)" by blast
  then have "\<exists>e. od_get (pd_redis s) (provider_key i) = Some (CachedProvider r, e)"
    by (auto simp: cache_get_json_def split: if_splits option.splits)
  then show ?thesis using hit [of r] assms c by (simp add: get_provider_def)
next
  case False
  then have "get_provider up1 up2 now i s =
      (case live_row i s of
         None \<Rightarrow> (None, s)
       | Some r \<Rightarrow>
           (Some r, s\<lparr>pd_redis := cache_set_json up2 now (provider_key i) (CachedProvider r) (Some DEFAULT_TTL_SECONDS) (pd_redis s)\<rparr>))"
    by (auto simp: get_provider_def split: option.splits cached_row.splits)
  then show ?thesis
    using assms missing row by (auto simp: live_row_def split: option.splits if_splits)
qed

lemma cache_set_json_get:
  "od_get (cache_set_json up now k v ttl c) j = (if up \<and> j = k then Some (v, map_option (\<lambda>t. now + t) ttl) else od_get c j)"
  by (simp add: cache_set_json_def)




lemma authorize_state: "snd (authorize_provider up1 up2 now c i s) = snd (get_provider up1 up2 now i s)"
  by (auto simp: authorize_provider_def split: prod.splits option.splits)

lemma patch_state:
  "snd (patch_route f i up now c kw s) = s \<or>
   (\<exists>s1. s1 = snd (get_provider (up 0) (up 1) now i s) \<and>
     (snd (patch_route f i up now c kw s) = s1 \<or> (\<exists>s2. update_provider f (up 2) (up 3) i kw (Some (a_id c)) s1 = Inr s2 \<and>
        snd (patch_route f i up now c kw s) = s2)))"
  using authorize_state [of "up 0" "up 1" now c i s]
  by (auto simp: patch_route_def split: prod.splits sum.splits if_splits)

lemma delete_state:
  "snd (delete_route i up now c s) = s \<or>
   (\<exists>s1. s1 = snd (get_provider (up 0) (up 1) now i s) \<and>
     (snd (delete_route i up now c s) = s1 \<or> (\<exists>s2. soft_delete_provider (up 2) (up 3) now i (Some (a_id c)) s1 = Inr s2 \<and>
        snd (delete_route i up now c s) = s2)))"
  using authorize_state [of "up 0" "up 1" now c i s]
  by (auto simp: delete_route_def split: prod.splits sum.splits if_splits)

definition providers_init :: "(nat, default_row) odict \<Rightarrow> (nat, override_row) odict \<Rightarrow> providers" where
  "providers_init ts as =
     \<lparr>pd_rows = [], pd_tenants = map (\<lambda>p. (fst p, (snd p)\<lparr>dt_defaults := []\<rparr>)) ts,
      pd_agents = map (\<lambda>p. (fst p, (snd p)\<lparr>ov_overrides := []\<rparr>)) as, pd_next = 0, pd_redis = [], pd_published = [], pd_audits = []\<rparr>"

definition rows_after ::
  "fernet option \<Rightarrow> (nat, default_row) odict \<Rightarrow> (nat, override_row) odict \<Rightarrow> provider_event list \<Rightarrow> providers" where
  "rows_after f ts as es = fold (provider_step f) es (providers_init ts as)"





section \<open>Overrides stay within the tenant\<close>

definition overrides_ok :: "providers \<Rightarrow> bool" where
  "overrides_ok s \<longleftrightarrow>
     (\<forall>p\<in>set (pd_agents s). \<forall>role i. od_get (ov_overrides (snd p)) role = Some i \<longrightarrow>
        (\<exists>r. od_get (pd_rows s) i = Some r \<and> pv_tenant r = ov_tenant (snd p) \<and> pv_role r = role))"

definition cache_tenants_ok :: "providers \<Rightarrow> bool" where
  "cache_tenants_ok s \<longleftrightarrow>
     (\<forall>i r e. od_get (pd_redis s) (provider_key i) = Some (CachedProvider r, e) \<longrightarrow>
        (\<exists>p. od_get (pd_rows s) i = Some p \<and> pv_tenant p = pv_tenant r))"

definition tenancy :: "providers \<Rightarrow> bool" where
  "tenancy s \<longleftrightarrow> overrides_ok s \<and> cache_tenants_ok s \<and> (\<forall>i. od_get (pd_rows s) i \<noteq> None \<longrightarrow> i < pd_next s)"

text \<open>No step removes a row or moves it to another tenant or role.\<close>

definition keeps_rows :: "providers \<Rightarrow> providers \<Rightarrow> bool" where
  "keeps_rows s s' \<longleftrightarrow>
     (\<forall>i r. od_get (pd_rows s) i = Some r \<longrightarrow>
        (\<exists>r'. od_get (pd_rows s') i = Some r' \<and> pv_tenant r' = pv_tenant r \<and> pv_role r' = pv_role r))"

definition fewer_overrides :: "providers \<Rightarrow> providers \<Rightarrow> bool" where
  "fewer_overrides s s' \<longleftrightarrow>
     (\<forall>p'\<in>set (pd_agents s'). \<exists>p\<in>set (pd_agents s). ov_tenant (snd p') = ov_tenant (snd p) \<and>
        (\<forall>role i. od_get (ov_overrides (snd p')) role = Some i \<longrightarrow> od_get (ov_overrides (snd p)) role = Some i))"

definition fewer_cached :: "providers \<Rightarrow> providers \<Rightarrow> bool" where
  "fewer_cached s s' \<longleftrightarrow>
     (\<forall>k x. od_get (pd_redis s') k = Some x \<longrightarrow> od_get (pd_redis s) k = Some x)"

lemma keepsD: "keeps_rows s s' \<Longrightarrow> od_get (pd_rows s) i = Some r \<Longrightarrow>
    \<exists>r'. od_get (pd_rows s') i = Some r' \<and> pv_tenant r' = pv_tenant r \<and> pv_role r' = pv_role r"
  by (simp add: keeps_rows_def)

lemma tenancy_mono:
  assumes ok: "tenancy s" and keep: "keeps_rows s s'" and "fewer_overrides s s'" and few: "fewer_cached s s'"
    and ids: "\<And>i. od_get (pd_rows s') i \<noteq> None \<Longrightarrow> i < pd_next s'"
  shows "tenancy s'"
proof -
  have "overrides_ok s'"
    unfolding overrides_ok_def
  proof (intro ballI allI impI)
    fix p' role i
    assume "p' \<in> set (pd_agents s')" and o: "od_get (ov_overrides (snd p')) role = Some i"
    then obtain p where p: "p \<in> set (pd_agents s)" "ov_tenant (snd p') = ov_tenant (snd p)" "od_get (ov_overrides (snd p)) role = Some i"
      using assms(3) unfolding fewer_overrides_def by blast
    then obtain r where "od_get (pd_rows s) i = Some r" "pv_tenant r = ov_tenant (snd p)" "pv_role r = role"
      using ok unfolding tenancy_def overrides_ok_def by blast
    then show "\<exists>r. od_get (pd_rows s') i = Some r \<and> pv_tenant r = ov_tenant (snd p') \<and> pv_role r = role"
      using keepsD [OF keep] p(2) by fastforce
  qed
  moreover have "cache_tenants_ok s'"
    unfolding cache_tenants_ok_def
  proof (intro allI impI)
    fix i r e
    assume "od_get (pd_redis s') (provider_key i) = Some (CachedProvider r, e)"
    then have "od_get (pd_redis s) (provider_key i) = Some (CachedProvider r, e)" using few by (simp add: fewer_cached_def)
    then obtain p where "od_get (pd_rows s) i = Some p" "pv_tenant p = pv_tenant r"
      using ok unfolding tenancy_def cache_tenants_ok_def by blast
    then show "\<exists>p. od_get (pd_rows s') i = Some p \<and> pv_tenant p = pv_tenant r" using keepsD [OF keep] by fastforce
  qed
  ultimately show ?thesis using ids by (simp add: tenancy_def)
qed

lemma nat_digits_inj: "nat_digits m = nat_digits n \<Longrightarrow> m = n"
proof (induction m arbitrary: n rule: nat_digits.induct)
  case (1 m)
  have digit: "char_of (48 + a) = (char_of (48 + b) :: char) \<Longrightarrow> a = b" if "a < 10" "b < (10::nat)" for a b
    using that by (simp add: char_of_eq_iff take_bit_eq_mod)
  show ?case
  proof (cases "m < 10 \<longleftrightarrow> n < 10")
    case same: True
    show ?thesis
    proof (cases "m < 10")
      case True
      then show ?thesis using same "1.prems" digit by (simp add: nat_digits.simps)
    next
      case False
      then have "nat_digits (m div 10) = nat_digits (n div 10)" "m mod 10 = n mod 10"
        using same "1.prems" digit [of "m mod 10" "n mod 10"] by (simp_all add: nat_digits.simps [of m] nat_digits.simps [of n])
      then show ?thesis using "1.IH" False by (metis div_mult_mod_eq)
    qed
  next
    case False
    have "nat_digits k \<noteq> []" "[] \<noteq> nat_digits k" for k by (simp_all add: nat_digits.simps)
    then show ?thesis using False "1.prems" by (auto simp: nat_digits.simps [of m] nat_digits.simps [of n])
  qed
qed

lemma provider_key_inj: "provider_key i = provider_key j \<Longrightarrow> i = j"
  by (simp add: provider_key_def nat_digits_inj)

lemma tenancyD:
  assumes "tenancy s"
  shows "overrides_ok s" "cache_tenants_ok s" "od_get (pd_rows s) i \<noteq> None \<Longrightarrow> i < pd_next s"
  using assms by (auto simp: tenancy_def)

lemma fewer_refl [simp]: "pd_agents s' = pd_agents s \<Longrightarrow> fewer_overrides s s'" "pd_redis s' = pd_redis s \<Longrightarrow> fewer_cached s s'"
  by (auto simp: fewer_overrides_def fewer_cached_def)

lemma fewer_invalidate: "pd_redis s' = cache_invalidate up ks (pd_redis s) \<Longrightarrow> fewer_cached s s'"
  by (auto simp: fewer_cached_def cache_invalidate_get split: if_splits)

lemma tenancy_create:
  assumes "tenancy s" "create_provider f now t role kw uid s = Inr (i, s')"
  shows "tenancy s'"
  using assms(2)
proof (cases rule: create_providerD)
  case (1 ref cols)
  have "od_get (pd_rows s) i = None"
  proof (rule ccontr)
    assume "od_get (pd_rows s) i \<noteq> None"
    then have "i < pd_next s" by (rule tenancyD(3) [OF assms(1)])
    then show False using 1(3) by simp
  qed
  then have "keeps_rows s s'" by (auto simp: keeps_rows_def 1(6))
  moreover have "j < pd_next s'" if "od_get (pd_rows s') j \<noteq> None" for j
    using that tenancyD(3) [OF assms(1), of j] 1(3) by (auto simp: 1(6) split: if_splits)
  ultimately show ?thesis by (intro tenancy_mono [OF assms(1)]) (simp_all add: 1(6))
qed

lemma tenancy_get:
  assumes ok: "tenancy s" and "get_provider up1 up2 now i s = (x, s')"
  shows "tenancy s'"
  using assms(2)
proof (cases rule: get_provider_cases)
  case (row r)
  have "cache_tenants_ok s'"
    unfolding cache_tenants_ok_def
  proof (intro allI impI)
    fix j q e
    assume "od_get (pd_redis s') (provider_key j) = Some (CachedProvider q, e)"
    then have "(j = i \<and> q = r) \<or> od_get (pd_redis s) (provider_key j) = Some (CachedProvider q, e)"
      by (auto simp: row(4) cache_set_json_get provider_key_inj split: if_splits)
    then show "\<exists>p. od_get (pd_rows s') j = Some p \<and> pv_tenant p = pv_tenant q"
      using row(2) tenancyD(2) [OF ok] unfolding cache_tenants_ok_def by (auto simp: row(4))
  qed
  then show ?thesis using ok by (simp add: tenancy_def overrides_ok_def row(4))
qed (use ok in simp_all)

lemma update_providerD:
  assumes "update_provider f up1 up2 i kw uid s = Inr s'"
  obtains cols r where "fold_credential f kw = Inr cols" "od_get (pd_rows s) i = Some r"
    "pd_rows s' = od_set i (r\<lparr>pv_fields := put_fields cols (pv_fields r)\<rparr>) (pd_rows s)"
    "pd_redis s' = cache_invalidate up1 [provider_key i] (pd_redis s)" "pd_agents s' = pd_agents s" "pd_next s' = pd_next s"
  using assms by (auto simp: update_provider_def Let_def split: sum.splits if_splits option.splits)

lemma delete_providerD:
  assumes "soft_delete_provider up1 up2 now i uid s = Inr s'"
  obtains r where "od_get (pd_rows s) i = Some r" "pd_rows s' = od_set i (r\<lparr>pv_deleted_at := Some now\<rparr>) (pd_rows s)"
    "pd_redis s' = cache_invalidate up1 (stale_keys (pv_role r) i s) (pd_redis s)" "pd_next s' = pd_next s"
    "pd_agents s' = (if pv_role r \<in> set VOICE_ROLES
       then map (\<lambda>p. (fst p, detach_agent (pv_role r) i (snd p))) (pd_agents s) else pd_agents s)"
    "pd_tenants s' = (if pv_role r \<in> set VOICE_ROLES
       then map (\<lambda>p. (fst p, repoint (pv_role r) i (pd_rows s') (fst p) (snd p))) (pd_tenants s) else pd_tenants s)"
    "pd_published s' = (if up2 then pd_published s @ [i] else pd_published s)"
  using assms by (auto simp: soft_delete_provider_def Let_def detach_all_def split: option.splits)

lemma tenancy_update:
  assumes ok: "tenancy s" and "update_provider f up1 up2 i kw uid s = Inr s'"
  shows "tenancy s'"
  using assms(2)
proof (cases rule: update_providerD)
  case (1 cols r)
  have "keeps_rows s s'" using 1(2) by (auto simp: keeps_rows_def 1(3))
  moreover have "j < pd_next s'" if "od_get (pd_rows s') j \<noteq> None" for j
    using that tenancyD(3) [OF ok, of j] 1(2) by (auto simp: 1(3,6) split: if_splits)
  ultimately show ?thesis by (intro tenancy_mono [OF ok]) (simp_all add: 1(5) fewer_invalidate [OF 1(4)])
qed

lemma tenancy_delete:
  assumes ok: "tenancy s" and "soft_delete_provider up1 up2 now i uid s = Inr s'"
  shows "tenancy s'"
  using assms(2)
proof (cases rule: delete_providerD)
  case (1 r)
  have "keeps_rows s s'" using 1(1) by (auto simp: keeps_rows_def 1(2))
  moreover have "fewer_overrides s s'"
    by (fastforce simp: fewer_overrides_def 1(5) detach_agent_def split: if_splits)
  moreover have "j < pd_next s'" if "od_get (pd_rows s') j \<noteq> None" for j
    using that tenancyD(3) [OF ok, of j] 1(1) by (auto simp: 1(2,4) split: if_splits)
  ultimately show ?thesis by (intro tenancy_mono [OF ok]) (simp_all add: fewer_invalidate [OF 1(3)])
qed

lemma od_get_set_column: "od_get (set_column role v d) k = (if k = role then v else od_get d k)"
  by (cases v) (simp_all add: set_column_def)

lemma tenancy_assign:
  assumes ok: "tenancy s" and new: "assign_override a role v s = Inr s'"
  shows "tenancy s'"
proof -
  obtain r where r: "od_get (pd_agents s) a = Some r" "\<And>i. v = Some i \<Longrightarrow> assignable (ov_tenant r) role i s"
    "s' = s\<lparr>pd_agents := od_set a (r\<lparr>ov_overrides := set_column role v (ov_overrides r)\<rparr>) (pd_agents s)\<rparr>"
    using new by (auto simp: assign_override_def split: option.splits if_splits)
  have in_set: "(a, r) \<in> set (pd_agents s)" using r(1) by (rule od_get_SomeD)
  have "overrides_ok s'"
    unfolding overrides_ok_def
  proof (intro ballI allI impI)
    fix p k i
    assume p: "p \<in> set (pd_agents s')" and o: "od_get (ov_overrides (snd p)) k = Some i"
    from p have "p \<in> insert (a, r\<lparr>ov_overrides := set_column role v (ov_overrides r)\<rparr>) (set (pd_agents s))"
      unfolding r(3) using set_od_set_subset by fastforce
    then consider "p = (a, r\<lparr>ov_overrides := set_column role v (ov_overrides r)\<rparr>)" | "p \<in> set (pd_agents s)" by auto
    then have "\<exists>x. od_get (pd_rows s) i = Some x \<and> pv_tenant x = ov_tenant (snd p) \<and> pv_role x = k"
    proof cases
      case 1
      show ?thesis
      proof (cases "k = role")
        case True
        then have "v = Some i" using 1 o by (simp add: od_get_set_column)
        then show ?thesis using r(2) [of i] 1 True by (auto simp: assignable_def split: option.splits)
      next
        case False
        then have "od_get (ov_overrides r) k = Some i" using 1 o by (simp add: od_get_set_column)
        then show ?thesis using tenancyD(1) [OF ok] in_set 1 unfolding overrides_ok_def by fastforce
      qed
    next
      case 2
      then show ?thesis using tenancyD(1) [OF ok] o unfolding overrides_ok_def by blast
    qed
    then show "\<exists>x. od_get (pd_rows s') i = Some x \<and> pv_tenant x = ov_tenant (snd p) \<and> pv_role x = k" by (simp add: r(3))
  qed
  then show ?thesis using ok by (simp add: tenancy_def cache_tenants_ok_def r(3))
qed

lemma tenancy_step:
  assumes ok: "tenancy s"
  shows "tenancy (provider_step f e s)"
proof (cases e)
  case (CreateProvider now c t role kw)
  have "tenancy s'" if "create_route f now c t role kw s = Inr (i, s')" for i s'
    using that tenancy_create [OF ok] by (auto simp: create_route_def split: if_splits option.splits)
  then show ?thesis using ok CreateProvider by (cases "create_route f now c t role kw s") (auto simp: kept_def)
next
  case (ReadProvider up now c i)
  have "tenancy (snd (get_provider (up 0) (up 1) now i s))" by (rule tenancy_get [OF ok surjective_pairing])
  then show ?thesis using ReadProvider by (simp add: authorize_state)
next
  case (PatchProvider up now c i kw)
  have "tenancy (snd (get_provider (up 0) (up 1) now i s))" by (rule tenancy_get [OF ok surjective_pairing])
  then show ?thesis using PatchProvider patch_state [of f i up now c kw s] ok tenancy_update by auto
next
  case (DeleteProvider up now c i)
  have "tenancy (snd (get_provider (up 0) (up 1) now i s))" by (rule tenancy_get [OF ok surjective_pairing])
  then show ?thesis using DeleteProvider delete_state [of i up now c s] ok tenancy_delete by auto
next
  case (AssignOverride a role v)
  then show ?thesis using ok tenancy_assign [OF ok] by (cases "assign_override a role v s") (auto simp: kept_def)
next
  case (AssignDefault t role v)
  then show ?thesis
    using ok by (auto simp: kept_def assign_default_def tenancy_def overrides_ok_def cache_tenants_ok_def split: option.splits)
qed

lemma tenancy_init: "tenancy (providers_init ts as)"
  by (auto simp: tenancy_def overrides_ok_def cache_tenants_ok_def providers_init_def od_get_def)

interpretation tenants: event_machine "providers_init ts as" "provider_step f" tenancy
  by unfold_locales (rule tenancy_init, rule tenancy_step)

text \<open>
  The provider that overrides a tenant's default for an agent is, whatever is created, edited, deleted
  and assigned, a row of the agent's own tenant and of the role of the column.
\<close>

theorem overrides_stay_in_tenant:
  assumes "p \<in> set (pd_agents (rows_after f ts as es))" and "od_get (ov_overrides (snd p)) role = Some i"
  shows "\<exists>r. od_get (pd_rows (rows_after f ts as es)) i = Some r \<and> pv_tenant r = ov_tenant (snd p) \<and> pv_role r = role"
proof -
  have "tenancy (rows_after f ts as es)" unfolding rows_after_def by (rule tenants.inv_run)
  from tenancyD(1) [OF this] show ?thesis using assms unfolding overrides_ok_def by blast
qed

section \<open>Requests stay within the tenant\<close>

fun request_of :: "provider_event \<Rightarrow> (claims \<times> nat) option" where
  "request_of (ReadProvider up now c i) = Some (c, i)"
| "request_of (PatchProvider up now c i kw) = Some (c, i)"
| "request_of (DeleteProvider up now c i) = Some (c, i)"
| "request_of _ = None"

definition others_kept :: "nat option \<Rightarrow> providers \<Rightarrow> providers \<Rightarrow> bool" where
  "others_kept t s s' \<longleftrightarrow>
     (\<forall>j r. od_get (pd_rows s) j = Some r \<longrightarrow> t \<noteq> Some (pv_tenant r) \<longrightarrow> od_get (pd_rows s') j = Some r) \<and>
     (\<forall>p\<in>set (pd_agents s). t \<noteq> Some (ov_tenant (snd p)) \<longrightarrow> p \<in> set (pd_agents s'))"

lemma others_kept_same: "pd_rows s' = pd_rows s \<Longrightarrow> pd_agents s' = pd_agents s \<Longrightarrow> others_kept t s s'"
  by (simp add: others_kept_def)

lemma get_provider_rows:
  "pd_rows (snd (get_provider up1 up2 now i s)) = pd_rows s" "pd_agents (snd (get_provider up1 up2 now i s)) = pd_agents s"
  by (cases rule: get_provider_cases [of up1 up2 now i s "fst (get_provider up1 up2 now i s)" "snd (get_provider up1 up2 now i s)"],
      simp_all)+

text \<open>A caller who passes the check of a row belongs to the tenant of the row in the table.\<close>

lemma authorize_own:
  assumes ok: "tenancy s" and scoped: "\<not> unscoped c" and a: "authorize_provider up1 up2 now c i s = (Inr r, s')"
  shows "a_tenant c = Some (pv_tenant r) \<and> (\<exists>q. od_get (pd_rows s) i = Some q \<and> a_tenant c = Some (pv_tenant q))"
proof -
  obtain x s1 where g: "get_provider up1 up2 now i s = (x, s1)" by fastforce
  then have own: "x = Some r" "a_tenant c = Some (pv_tenant r)"
    using a scoped by (auto simp: authorize_provider_def split: option.splits if_splits)
  from g show ?thesis
  proof (cases rule: get_provider_cases)
    case (hit q)
    then have "\<exists>p. od_get (pd_rows s) i = Some p \<and> pv_tenant p = pv_tenant r"
      using tenancyD(2) [OF ok] own(1) unfolding cache_tenants_ok_def by blast
    then show ?thesis using own(2) by auto
  qed (use own in auto)
qed

lemma others_kept_update:
  assumes "update_provider f up1 up2 i kw uid s = Inr s'" "od_get (pd_rows s) i = Some q" "t = Some (pv_tenant q)"
  shows "others_kept t s s'"
  using assms(1)
proof (cases rule: update_providerD)
  case (1 cols r)
  then show ?thesis using assms(2,3) by (auto simp: others_kept_def)
qed

lemma others_kept_delete:
  assumes ok: "tenancy s" and "soft_delete_provider up1 up2 now i uid s = Inr s'" "od_get (pd_rows s) i = Some q" "t = Some (pv_tenant q)"
  shows "others_kept t s s'"
  using assms(2)
proof (cases rule: delete_providerD)
  case (1 r)
  have "p \<in> set (pd_agents s')" if p: "p \<in> set (pd_agents s)" "t \<noteq> Some (ov_tenant (snd p))" for p
  proof -
    have "od_get (ov_overrides (snd p)) (pv_role r) \<noteq> Some i"
      using tenancyD(1) [OF ok] p assms(3,4) unfolding overrides_ok_def by fastforce
    then have "detach_agent (pv_role r) i (snd p) = snd p" by (simp add: detach_agent_def)
    then show ?thesis using p(1) by (auto simp: 1(5) intro: image_eqI [of _ _ p])
  qed
  then show ?thesis using 1(1,2) assms(3,4) by (auto simp: others_kept_def)
qed

text \<open>
  C19. A caller who is bound to a tenant reads only that tenant's providers, and whatever he edits or
  deletes, the providers of other tenants and the overrides of their agents stay as they were.
\<close>

theorem requests_stay_in_tenant:
  assumes "request_of e = Some (c, i)" and "\<not> unscoped c"
  shows "let s = rows_after f ts as es in
     others_kept (a_tenant c) s (provider_step f e s) \<and>
     (\<forall>up1 up2 now r s'. authorize_provider up1 up2 now c i s = (Inr r, s') \<longrightarrow> a_tenant c = Some (pv_tenant r))"
proof -
  obtain s where s_def: "s = rows_after f ts as es" by blast
  have ok: "tenancy s" unfolding s_def rows_after_def by (rule tenants.inv_run)
  note own = authorize_own [OF ok assms(2)]
  have "others_kept (a_tenant c) s (provider_step f e s)"
  proof (cases e)
    case (ReadProvider up now d j)
    then show ?thesis by (simp add: authorize_state get_provider_rows others_kept_same)
  next
    case (PatchProvider up now d j kw)
    then have [simp]: "d = c" "j = i" using assms(1) by simp_all
    obtain x s1 where a: "authorize_provider (up 0) (up 1) now c i s = (x, s1)" by fastforce
    have s1: "s1 = snd (get_provider (up 0) (up 1) now i s)" using authorize_state [of "up 0" "up 1" now c i s] a by simp
    then have rows: "pd_rows s1 = pd_rows s" "pd_agents s1 = pd_agents s" by (simp_all add: get_provider_rows)
    have "others_kept (a_tenant c) s s2" if x: "x = Inr r" and up: "update_provider f (up 2) (up 3) i kw (Some (a_id c)) s1 = Inr s2" for r s2
    proof -
      obtain q where "od_get (pd_rows s) i = Some q" "a_tenant c = Some (pv_tenant q)" using own a x by blast
      then have "others_kept (a_tenant c) s1 s2" using others_kept_update [OF up] rows by simp
      then show ?thesis by (simp add: others_kept_def rows)
    qed
    then show ?thesis
      using PatchProvider a others_kept_same [OF rows] others_kept_same [of s s]
      by (auto simp: patch_route_def split: sum.splits)
  next
    case (DeleteProvider up now d j)
    then have [simp]: "d = c" "j = i" using assms(1) by simp_all
    obtain x s1 where a: "authorize_provider (up 0) (up 1) now c i s = (x, s1)" by fastforce
    have s1: "s1 = snd (get_provider (up 0) (up 1) now i s)" using authorize_state [of "up 0" "up 1" now c i s] a by simp
    then have rows: "pd_rows s1 = pd_rows s" "pd_agents s1 = pd_agents s" by (simp_all add: get_provider_rows)
    have ok1: "tenancy s1" unfolding s1 by (rule tenancy_get [OF ok surjective_pairing])
    have "others_kept (a_tenant c) s s2" if x: "x = Inr r" and up: "soft_delete_provider (up 2) (up 3) now i (Some (a_id c)) s1 = Inr s2" for r s2
    proof -
      obtain q where "od_get (pd_rows s) i = Some q" "a_tenant c = Some (pv_tenant q)" using own a x by blast
      then have "others_kept (a_tenant c) s1 s2" using others_kept_delete [OF ok1 up] rows by simp
      then show ?thesis by (simp add: others_kept_def rows)
    qed
    then show ?thesis
      using DeleteProvider a others_kept_same [OF rows] others_kept_same [of s s]
      by (auto simp: delete_route_def split: sum.splits)
  qed (use assms(1) in simp_all)
  then show ?thesis using own unfolding s_def Let_def by blast
qed

section \<open>A deletion detaches\<close>






section \<open>Where the rows are not protected\<close>

definition sample_admin :: "nat \<Rightarrow> claims" where
  "sample_admin t = \<lparr>a_id = t, a_email = ''a'', a_role = ADMIN, a_tenant = Some t, a_service_account = False\<rparr>"

definition sample_form :: "string \<Rightarrow> string \<Rightarrow> (string, pyval) odict" where
  "sample_form name key = [(''name'', PStr name), (''engine'', PStr ''openai''), (''api_key'', PStr key)]"

definition sample_tables :: "provider_event list \<Rightarrow> providers" where
  "sample_tables es =
     rows_after (Some sample_fernet)
       [(1, \<lparr>dt_slug = ''acme'', dt_deleted = False, dt_defaults = []\<rparr>), (2, \<lparr>dt_slug = ''rival'', dt_deleted = False, dt_defaults = []\<rparr>)]
       [(7, \<lparr>ov_tenant = 1, ov_slug = ''desk'', ov_deleted = False, ov_overrides = []\<rparr>)] es"

definition sample_setup :: "provider_event list" where
  "sample_setup =
     [CreateProvider 10 (sample_admin 1) 1 ''llm'' (sample_form ''main'' ''sk-1''),
      AssignDefault 1 ''llm'' (Some 0), AssignOverride 7 ''llm'' (Some 0)]"

abbreviation redis_up :: "nat \<Rightarrow> bool" where
  "redis_up \<equiv> \<lambda>_. True"

text \<open>
  The route that creates a provider does not ask for the tenant of the caller. An administrator of
  another tenant adds a row, and when the tenant deletes its provider, that row becomes its default.
\<close>

lemma foreign_row_becomes_default:
  "let s = sample_tables (sample_setup @
       [CreateProvider 20 (sample_admin 2) 1 ''llm'' (sample_form ''planted'' ''sk-2''), DeleteProvider redis_up 30 (sample_admin 1) 0])
   in map_option (\<lambda>d. od_get (dt_defaults d) ''llm'') (od_get (pd_tenants s) 1) = Some (Some 1) \<and>
      map_option credential_of (od_get (pd_rows s) 1) = Some (Some ''enc:2-ks'')"
  by code_simp

text \<open>A deleted provider is accepted as an override, and any row as a default.\<close>

lemma deleted_row_assigned:
  "let s = sample_tables (sample_setup @ [DeleteProvider redis_up 30 (sample_admin 1) 0, AssignOverride 7 ''llm'' (Some 0)])
   in map_option (\<lambda>r. od_get (ov_overrides r) ''llm'') (od_get (pd_agents s) 7) = Some (Some 0) \<and> live_row 0 s = None"
  by code_simp

lemma any_row_as_default:
  assumes "od_get (pd_tenants s) t = Some d" "role \<in> set VOICE_ROLES" "od_get (pd_rows s) i \<noteq> None"
  shows "\<exists>s'. assign_default t role (Some i) s = Inr s'"
  using assms by (auto simp: assign_default_def)

text \<open>The route refuses a blank_text reference, but a blank_text key alone clears the credential.\<close>

lemma blank_key_clears:
  "patch_route (Some sample_fernet) 0 redis_up 20 (sample_admin 1) [(''api_key_ref'', PStr [])] (sample_tables sample_setup) =
     (Some BlankCredential, snd (get_provider True True 20 0 (sample_tables sample_setup)))"
  "map_option credential_of (od_get (pd_rows (sample_tables (sample_setup @
     [PatchProvider redis_up 20 (sample_admin 1) 0 [(''api_key'', PStr [])]]))) 0) = Some None"
  by code_simp+

section \<open>Concrete runs\<close>

lemma sample_rows:
  "map_option credential_of (od_get (pd_rows (sample_tables sample_setup)) 0) = Some (Some ''enc:1-ks'')"
  "map_option pv_role (od_get (pd_rows (sample_tables sample_setup)) 0) = Some ''llm''"
  "map fst (pd_rows (sample_tables sample_setup)) = [0]"
  "(7, \<lparr>ov_tenant = 1, ov_slug = ''desk'', ov_deleted = False, ov_overrides = [(''llm'', 0)]\<rparr>) \<in> set (pd_agents (sample_tables sample_setup))"
  by code_simp+


theorem overrides_stay_in_tenant_witness:
  "\<exists>r. od_get (pd_rows (sample_tables sample_setup)) 0 = Some r \<and> pv_tenant r = 1 \<and> pv_role r = ''llm''"
  using overrides_stay_in_tenant [OF sample_rows(4) [unfolded sample_tables_def], of "''llm''" 0]
  by (simp add: sample_tables_def od_get_def)

theorem requests_stay_in_tenant_witness:
  "\<not> unscoped (sample_admin 2) \<and>
   others_kept (Some 2) (sample_tables sample_setup)
     (provider_step (Some sample_fernet) (DeleteProvider redis_up 30 (sample_admin 2) 0) (sample_tables sample_setup))"
proof -
  have c: "\<not> unscoped (sample_admin 2)" "a_tenant (sample_admin 2) = Some 2" by (simp_all add: unscoped_def sample_admin_def)
  have e: "request_of (DeleteProvider redis_up 30 (sample_admin 2) 0) = Some (sample_admin 2, 0)" by simp
  show ?thesis using requests_stay_in_tenant [OF e c(1)] c unfolding sample_tables_def Let_def by simp
qed


end
