(* ===== verification/Chunking.thy ===== *)
theory Chunking
  imports Prelude
begin

text \<open>
  Cutting a document into overlapping windows of words (\<^verbatim>\<open>services/knowledge/chunking.py\<close>). The loop over
  a long paragraph only shrinks its words when the overlap is smaller than a window; the model lets it
  run on otherwise, and not returning is \<open>None\<close>. Sizes are natural numbers.
\<close>

section \<open>Words and paragraphs\<close>

text \<open>\<^verbatim>\<open>str.split()\<close>; \<open>w\<close> is the word read so far.\<close>

fun split_acc :: "string \<Rightarrow> string \<Rightarrow> string list" where
  "split_acc w [] = (if w = [] then [] else [w])"
| "split_acc w (c # s) =
     (if py_space c then (if w = [] then split_acc [] s else w # split_acc [] s) else split_acc (w @ [c]) s)"

definition split_words :: "string \<Rightarrow> string list" where
  "split_words s = split_acc [] s"

text \<open>After a newline: what follows the last newline of the white space that comes next, if it has one.\<close>

fun after_gap :: "string \<Rightarrow> string option" where
  "after_gap [] = None"
| "after_gap (c # s) =
     (if \<not> py_space c then None
      else case after_gap s of
        Some r \<Rightarrow> Some r
      | None \<Rightarrow> if c = CHR 0x0A then Some s else None)"

lemma after_gap_split: "after_gap s = Some r \<Longrightarrow> \<exists>g. s = g @ r \<and> g \<noteq> [] \<and> (\<forall>c\<in>set g. py_space c)"
proof (induction s)
  case (Cons c s)
  then have c: "py_space c" by (auto split: if_splits)
  show ?case
  proof (cases "after_gap s")
    case None
    then have "c # s = [c] @ r" using Cons.prems c by (auto split: if_splits)
    then show ?thesis using c by fastforce
  next
    case (Some t)
    then obtain g where "s = g @ r" "\<forall>c\<in>set g. py_space c" using Cons c by auto
    then have "c # s = (c # g) @ r \<and> c # g \<noteq> [] \<and> (\<forall>d\<in>set (c # g). py_space d)" using c by simp
    then show ?thesis by blast
  qed
qed simp

text \<open>The pieces between the matches of \<^verbatim>\<open>\n\s*\n\<close>; \<open>cur\<close> is the piece read so far.\<close>

function split_gaps :: "string \<Rightarrow> string \<Rightarrow> string list" where
  "split_gaps cur [] = [cur]"
| "split_gaps cur (c # s) =
     (case (if c = CHR 0x0A then after_gap s else None) of
        Some r \<Rightarrow> cur # split_gaps [] r
      | None \<Rightarrow> split_gaps (cur @ [c]) s)"
  by pat_completeness auto

termination
  by (relation "measure (\<lambda>(cur, s). length s)") (auto dest!: after_gap_split split: if_splits)

definition paragraphs :: "string \<Rightarrow> string list" where
  "paragraphs t = filter (\<lambda>p. p \<noteq> []) (map py_strip (split_gaps [] t))"

section \<open>Packing\<close>

record chunk =
  ch_content :: string
  ch_token_count :: nat

definition as_chunk :: "string list \<Rightarrow> chunk" where
  "as_chunk ws = \<lparr>ch_content = py_join '' '' ws, ch_token_count = length ws\<rparr>"

definition overlap_words :: "nat \<Rightarrow> string list \<Rightarrow> string list" where
  "overlap_words n ws = drop (length ws - n) ws"

text \<open>The loop that cuts windows off a current list of words that is too long.\<close>

partial_function (option) cut_long :: "nat \<Rightarrow> nat \<Rightarrow> string list \<Rightarrow> (chunk list \<times> string list) option" where
  "cut_long sz n ws =
     (if length ws \<le> sz then Some ([], ws)
      else Option.bind (cut_long sz n (overlap_words n (take sz ws) @ drop sz ws))
        (\<lambda>p. Some (as_chunk (take sz ws) # fst p, snd p)))"

definition pack :: "nat \<Rightarrow> nat \<Rightarrow> string list \<Rightarrow> chunk list \<times> string list \<Rightarrow> (chunk list \<times> string list) option" where
  "pack sz n para st =
     (let (cs, cur) =
        (if snd st \<noteq> [] \<and> length (snd st) + length para > sz
         then (fst st @ [as_chunk (snd st)], overlap_words n (snd st) @ para)
         else (fst st, snd st @ para))
      in Option.bind (cut_long sz n cur) (\<lambda>p. Some (cs @ fst p, snd p)))"

fun pack_all :: "nat \<Rightarrow> nat \<Rightarrow> string list list \<Rightarrow> chunk list \<times> string list \<Rightarrow> (chunk list \<times> string list) option" where
  "pack_all sz n [] st = Some st"
| "pack_all sz n (para # ps) st = Option.bind (pack sz n para st) (pack_all sz n ps)"

definition chunk_text :: "string \<Rightarrow> nat \<Rightarrow> nat \<Rightarrow> chunk list option" where
  "chunk_text t sz n =
     (if paragraphs t = [] then Some []
      else Option.bind (pack_all sz n (map split_words (paragraphs t)) ([], []))
        (\<lambda>st. Some (fst st @ (if snd st \<noteq> [] then [as_chunk (snd st)] else []))))"

section \<open>Splitting into words\<close>

definition word :: "string \<Rightarrow> bool" where
  "word w \<longleftrightarrow> w \<noteq> [] \<and> (\<forall>c\<in>set w. \<not> py_space c)"

lemma split_acc_words: "v \<in> set (split_acc w s) \<Longrightarrow> \<forall>c\<in>set w. \<not> py_space c \<Longrightarrow> word v"
proof (induction s arbitrary: w)
  case Nil
  then show ?case by (cases "w = []") (simp_all add: word_def)
next
  case (Cons c s)
  show ?case
  proof (cases "py_space c")
    case True
    then have "v \<in> set (split_acc [] s) \<or> v = w \<and> w \<noteq> []" using Cons.prems(1) by (cases "w = []") auto
    then show ?thesis using Cons.IH [of "[]"] Cons.prems(2) by (auto simp: word_def)
  next
    case False
    then have "v \<in> set (split_acc (w @ [c]) s)" using Cons.prems(1) by simp
    then show ?thesis using Cons.IH [of "w @ [c]"] Cons.prems(2) False by simp
  qed
qed

lemma split_words_words: "\<forall>v\<in>set (split_words s). word v"
  unfolding split_words_def by (auto intro: split_acc_words)

lemma split_acc_space: "py_space c \<Longrightarrow> split_acc w (a @ c # b) = split_acc w a @ split_acc [] b"
  by (induction w a rule: split_acc.induct) auto

lemma split_acc_spaces: "\<forall>c\<in>set g. py_space c \<Longrightarrow> split_acc [] (g @ b) = split_acc [] b"
  by (induction g) auto

lemma split_acc_word: "\<forall>c\<in>set v. \<not> py_space c \<Longrightarrow> split_acc w (v @ s) = split_acc (w @ v) s"
  by (induction v arbitrary: w) auto

lemma split_words_gap: "g \<noteq> [] \<Longrightarrow> \<forall>c\<in>set g. py_space c \<Longrightarrow> split_words (a @ g @ b) = split_words a @ split_words b"
  by (cases g) (auto simp: split_words_def split_acc_space split_acc_spaces)

lemma split_words_trailing: "\<forall>c\<in>set g. py_space c \<Longrightarrow> split_words (a @ g) = split_words a"
  using split_words_gap [of g a "[]"] by (cases "g = []") (auto simp: split_words_def)

lemma split_words_strip [simp]: "split_words (py_strip s) = split_words s"
proof -
  have l: "split_words (py_lstrip t) = split_words t" for t
    using split_acc_spaces [of "takeWhile py_space t" "dropWhile py_space t"] set_takeWhileD
    by (fastforce simp: split_words_def py_lstrip_def)
  have r: "split_words (py_rstrip t) = split_words t" for t
  proof -
    have "t = py_rstrip t @ rev (takeWhile py_space (rev t))"
      unfolding py_rstrip_def by (metis rev_append rev_rev_ident takeWhile_dropWhile_id)
    moreover have "\<forall>c\<in>set (rev (takeWhile py_space (rev t))). py_space c" by (auto dest: set_takeWhileD)
    ultimately show ?thesis by (metis split_words_trailing)
  qed
  show ?thesis by (simp add: py_strip_def l r)
qed

lemma split_words_join: "\<forall>w\<in>set ws. word w \<Longrightarrow> split_words (py_join '' '' ws) = ws"
proof (induction "'' ''" ws rule: py_join.induct)
  case (2 x)
  then show ?case using split_acc_word [of x "[]" "[]"] by (simp add: split_words_def word_def)
next
  case (3 x y xs)
  have "split_words x = [x]" using 3 split_acc_word [of x "[]" "[]"] by (simp add: split_words_def word_def)
  moreover have "py_space (CHR '' '')" by code_simp
  ultimately show ?case using 3 split_words_gap [of "'' ''" x "py_join '' '' (y # xs)"] by simp
qed (simp add: split_words_def)

lemma split_gaps_words: "concat (map split_words (split_gaps cur s)) = split_words (cur @ s)"
proof (induction cur s rule: split_gaps.induct)
  case (2 cur c s)
  show ?case
  proof (cases "if c = CHR 0x0A then after_gap s else None")
    case None
    then show ?thesis using 2 by simp
  next
    case (Some r)
    then have nl: "c = CHR 0x0A" and g: "after_gap s = Some r" by (auto split: if_splits)
    obtain g where "s = g @ r" "\<forall>d\<in>set g. py_space d" using after_gap_split [OF g] by blast
    moreover have "py_space (CHR 0x0A)" by code_simp
    ultimately show ?thesis using 2 Some nl split_words_gap [of "c # g" cur r] by simp
  qed
qed simp

lemma paragraphs_words: "concat (map split_words (paragraphs t)) = split_words t"
proof -
  have drop_empty: "concat (map split_words (filter (\<lambda>p. p \<noteq> []) ps)) = concat (map split_words ps)" for ps
    by (induction ps) (auto simp: split_words_def)
  show ?thesis
    using split_gaps_words [of "[]" t] by (simp add: paragraphs_def drop_empty comp_def)
qed

section \<open>The windows cover the words\<close>

text \<open>Taking the repeated words out: \<open>prev\<close> is the window before.\<close>

fun glue :: "nat \<Rightarrow> string list \<Rightarrow> string list list \<Rightarrow> string list" where
  "glue n prev [] = []"
| "glue n prev (c # cs) = drop (min n (length prev)) c @ glue n c cs"

lemma glue_append: "glue n prev (cs @ ds) = glue n prev cs @ glue n (if cs = [] then prev else last cs) ds"
  by (induction n prev cs rule: glue.induct) auto

definition windows :: "nat \<Rightarrow> chunk list \<Rightarrow> string list list \<Rightarrow> bool" where
  "windows sz cs wss \<longleftrightarrow> cs = map as_chunk wss \<and> (\<forall>ws\<in>set wss. ws \<noteq> [] \<and> length ws \<le> sz \<and> (\<forall>w\<in>set ws. word w))"

lemma cut_long_covers:
  assumes "n < sz" and "min n (length prev) \<le> length ws" and "\<forall>w\<in>set ws. word w"
  shows "\<exists>cs rest wss. cut_long sz n ws = Some (cs, rest) \<and> windows sz cs wss \<and> length rest \<le> sz \<and>
    (\<forall>w\<in>set rest. word w) \<and> (rest = [] \<longrightarrow> ws = []) \<and>
    min n (length (if wss = [] then prev else last wss)) \<le> length rest \<and>
    glue n prev (wss @ [rest]) = drop (min n (length prev)) ws"
  using assms(2,3)
proof (induction "length ws" arbitrary: ws prev rule: less_induct)
  case less
  show ?case
  proof (cases "length ws \<le> sz")
    case True
    then show ?thesis using less.prems by (subst cut_long.simps) (auto simp: windows_def)
  next
    case False
    let ?head = "take sz ws"
    let ?next = "overlap_words n ?head @ drop sz ws"
    have lens: "length ?head = sz" "length (overlap_words n ?head) = n" using False assms(1) by (simp_all add: overlap_words_def)
    have len: "length ?next < length ws" using False assms(1) lens by simp
    have words: "\<forall>w\<in>set ?next. word w"
      using less.prems(2) by (auto simp: overlap_words_def dest: in_set_dropD in_set_takeD)
    have "min n (length ?head) \<le> length ?next" using lens by simp
    from less.hyps [OF len this words] obtain cs rest wss where
      r: "cut_long sz n ?next = Some (cs, rest)" "windows sz cs wss" "length rest \<le> sz" "\<forall>w\<in>set rest. word w"
        "rest = [] \<longrightarrow> ?next = []" "min n (length (if wss = [] then ?head else last wss)) \<le> length rest"
        "glue n ?head (wss @ [rest]) = drop (min n (length ?head)) ?next"
      by blast
    have cut: "cut_long sz n ws = Some (as_chunk ?head # cs, rest)"
      using False r(1) by (subst cut_long.simps) simp
    have win: "windows sz (as_chunk ?head # cs) (?head # wss)"
      using r(2) False lens assms(1) less.prems(2) by (auto simp: windows_def dest: in_set_takeD)
    have "drop (min n (length ?head)) ?next = drop sz ws" using lens assms(1) by simp
    then have gl: "glue n prev ((?head # wss) @ [rest]) = drop (min n (length prev)) ws"
    proof -
      have k: "min n (length prev) \<le> length ?head" using lens assms(1) by simp
      have "drop (min n (length prev)) ws = drop (min n (length prev)) (?head @ drop sz ws)"
        by (simp only: append_take_drop_id)
      also have "\<dots> = drop (min n (length prev)) ?head @ drop sz ws" using k by (simp only: drop_append) simp
      also have "drop sz ws = glue n ?head (wss @ [rest])" using r(7) \<open>drop (min n (length ?head)) ?next = drop sz ws\<close> by (simp only:)
      finally show ?thesis by (simp only: append_Cons glue.simps)
    qed
    have "rest \<noteq> []" using r(5) False by auto
    then show ?thesis using cut win r(3,4,6) gl by (intro exI conjI) (auto split: if_splits)
  qed
qed

lemma windows_words: "windows sz cs wss \<Longrightarrow> map (\<lambda>c. split_words (ch_content c)) cs = wss"
  by (auto simp: windows_def as_chunk_def split_words_join intro!: map_idI)

lemma windows_counts:
  assumes "windows sz cs wss" and "c \<in> set cs"
  shows "0 < ch_token_count c \<and> ch_token_count c \<le> sz \<and> ch_token_count c = length (split_words (ch_content c))"
proof -
  obtain ws where "c = as_chunk ws" "ws \<noteq> []" "length ws \<le> sz" "\<forall>w\<in>set ws. word w"
    using assms by (auto simp: windows_def)
  then show ?thesis by (simp add: as_chunk_def split_words_join)
qed

definition covers :: "nat \<Rightarrow> nat \<Rightarrow> chunk list \<times> string list \<Rightarrow> string list \<Rightarrow> bool" where
  "covers sz n st read \<longleftrightarrow>
     (\<exists>wss. windows sz (fst st) wss \<and> length (snd st) \<le> sz \<and> (\<forall>w\<in>set (snd st). word w) \<and>
        min n (length (if wss = [] then [] else last wss)) \<le> length (snd st) \<and>
        glue n [] (wss @ [snd st]) = read)"

lemma windows_append: "windows sz cs wss \<Longrightarrow> windows sz ds vss \<Longrightarrow> windows sz (cs @ ds) (wss @ vss)"
  by (auto simp: windows_def)

lemma covers_cut:
  assumes n: "n < sz" and win: "windows sz cs wss" and words: "\<forall>w\<in>set cur. word w"
    and len: "min n (length (if wss = [] then [] else last wss)) \<le> length cur"
    and glued: "glue n [] wss @ drop (min n (length (if wss = [] then [] else last wss))) cur = read"
  shows "\<exists>ds rest. cut_long sz n cur = Some (ds, rest) \<and> covers sz n (cs @ ds, rest) read"
proof -
  let ?prev = "if wss = [] then [] else last wss"
  obtain ds rest vss where d: "cut_long sz n cur = Some (ds, rest)" "windows sz ds vss" "length rest \<le> sz"
      "\<forall>w\<in>set rest. word w" "min n (length (if vss = [] then ?prev else last vss)) \<le> length rest"
      "glue n ?prev (vss @ [rest]) = drop (min n (length ?prev)) cur"
    using cut_long_covers [OF n len words] by blast
  have "glue n [] ((wss @ vss) @ [rest]) = read"
    using d(6) glued glue_append [of n "[]" wss "vss @ [rest]"] by simp
  moreover have "(if wss @ vss = [] then [] else last (wss @ vss)) = (if vss = [] then ?prev else last vss)" by simp
  ultimately have "covers sz n (cs @ ds, rest) read"
    unfolding covers_def using windows_append [OF win d(2)] d(3-5) by (intro exI [of _ "wss @ vss"]) simp
  then show ?thesis using d(1) by blast
qed

lemma pack_covers:
  assumes "n < sz" and "covers sz n st read" and "\<forall>w\<in>set para. word w"
  shows "\<exists>st'. pack sz n para st = Some st' \<and> covers sz n st' (read @ para)"
proof -
  obtain cs cur where st: "st = (cs, cur)" by (cases st)
  obtain wss where w: "windows sz cs wss" "length cur \<le> sz" "\<forall>w\<in>set cur. word w"
      "min n (length (if wss = [] then [] else last wss)) \<le> length cur" "glue n [] (wss @ [cur]) = read"
    using assms(2) by (auto simp: covers_def st)
  show ?thesis
  proof (cases "cur \<noteq> [] \<and> length cur + length para > sz")
    case True
    have win: "windows sz (cs @ [as_chunk cur]) (wss @ [cur])"
      using w(1-3) True by (auto simp: windows_def)
    have words: "\<forall>w\<in>set (overlap_words n cur @ para). word w"
      using w(3) assms(3) by (auto simp: overlap_words_def dest: in_set_dropD)
    have len: "min n (length (if wss @ [cur] = [] then [] else last (wss @ [cur]))) \<le> length (overlap_words n cur @ para)"
      by (simp add: overlap_words_def)
    have "glue n [] (wss @ [cur]) @ drop (min n (length (if wss @ [cur] = [] then [] else last (wss @ [cur]))))
        (overlap_words n cur @ para) = read @ para"
      using w(5) by (simp add: overlap_words_def)
    from covers_cut [OF assms(1) win words len this] show ?thesis using True by (auto simp: pack_def st)
  next
    case False
    have "\<forall>w\<in>set (cur @ para). word w" using w(3) assms(3) by auto
    moreover have "glue n [] wss @ drop (min n (length (if wss = [] then [] else last wss))) (cur @ para) = read @ para"
      using w(4,5) by (simp add: glue_append)
    ultimately obtain ds rest where "cut_long sz n (cur @ para) = Some (ds, rest)"
      "covers sz n (cs @ ds, rest) (read @ para)"
      using covers_cut [OF assms(1) w(1), of "cur @ para" "read @ para"] w(4) by auto
    then show ?thesis using False by (auto simp: pack_def st)
  qed
qed

lemma pack_all_covers:
  assumes "n < sz" and "covers sz n st read" and "\<forall>para\<in>set ps. \<forall>w\<in>set para. word w"
  shows "\<exists>st'. pack_all sz n ps st = Some st' \<and> covers sz n st' (read @ concat ps)"
  using assms(2,3)
proof (induction ps arbitrary: st read)
  case (Cons para ps)
  then show ?case using pack_covers [OF assms(1) Cons.prems(1), of para] by fastforce
qed simp

lemma chunk_text_windows:
  assumes "n < sz"
  shows "\<exists>cs wss. chunk_text t sz n = Some cs \<and> windows sz cs wss \<and> glue n [] wss = split_words t"
proof (cases "paragraphs t = []")
  case True
  then show ?thesis using paragraphs_words [of t] by (auto simp: chunk_text_def windows_def intro: exI [of _ "[]"])
next
  case False
  have start: "covers sz n ([], []) []" by (auto simp: covers_def windows_def intro: exI [of _ "[]"])
  obtain cs cur where p: "pack_all sz n (map split_words (paragraphs t)) ([], []) = Some (cs, cur)"
      "covers sz n (cs, cur) (split_words t)"
    using pack_all_covers [OF assms start, of "map split_words (paragraphs t)"] split_words_words
    by (auto simp: paragraphs_words)
  obtain wss where w: "windows sz cs wss" "length cur \<le> sz" "\<forall>w\<in>set cur. word w" "glue n [] (wss @ [cur]) = split_words t"
    using p(2) by (auto simp: covers_def)
  let ?wss = "wss @ (if cur \<noteq> [] then [cur] else [])"
  let ?cs = "cs @ (if cur \<noteq> [] then [as_chunk cur] else [])"
  have "windows sz ?cs ?wss" using w(1-3) by (auto simp: windows_def)
  moreover have "glue n [] ?wss = split_words t" using w(4) by (auto simp: glue_append)
  moreover have "chunk_text t sz n = Some ?cs" using p(1) False by (simp add: chunk_text_def)
  ultimately show ?thesis by blast
qed

text \<open>
  C34. With an overlap smaller than a window the cutting returns, whatever the document: every window has at
  least one word, at most \<open>sz\<close> words and their number as its count, and reading the windows in order, each
  without the words it repeats from the one before, gives exactly the words of the document.
\<close>

theorem chunks_cover_text:
  assumes "n < sz"
  shows "\<exists>cs. chunk_text t sz n = Some cs \<and>
    (\<forall>c\<in>set cs. 0 < ch_token_count c \<and> ch_token_count c \<le> sz \<and> ch_token_count c = length (split_words (ch_content c))) \<and>
    glue n [] (map (\<lambda>c. split_words (ch_content c)) cs) = split_words t"
proof -
  obtain cs wss where c: "chunk_text t sz n = Some cs" "windows sz cs wss" "glue n [] wss = split_words t"
    using chunk_text_windows [OF assms] by blast
  have "\<forall>c\<in>set cs. 0 < ch_token_count c \<and> ch_token_count c \<le> sz \<and> ch_token_count c = length (split_words (ch_content c))"
    using windows_counts [OF c(2)] by blast
  moreover have "glue n [] (map (\<lambda>c. split_words (ch_content c)) cs) = split_words t"
    using c(3) windows_words [OF c(2)] by (simp only:)
  ultimately show ?thesis using c(1) by blast
qed

theorem chunks_cover_text_witness:
  "\<exists>cs. chunk_text ''a b c d e'' 3 1 = Some cs \<and> glue 1 [] (map (\<lambda>c. split_words (ch_content c)) cs) = split_words ''a b c d e''"
  using chunks_cover_text [of 1 3 "''a b c d e''"] by auto

text \<open>With an overlap as large as a window, a paragraph that is too long is cut forever.\<close>

lemma large_overlap_never_returns:
  assumes "sz \<le> n" and "sz < length ws"
  shows "cut_long sz n ws = None"
proof -
  have step: "a \<le> b \<longrightarrow> length us \<le> a"
    if ih: "\<And>a b us p. rec a b us = Some p \<Longrightarrow> a \<le> b \<longrightarrow> length us \<le> a"
      and ret: "(if length us \<le> a then Some ([], us)
        else Option.bind (rec a b (overlap_words b (take a us) @ drop a us)) (\<lambda>p. Some (as_chunk (take a us) # fst p, snd p))) = Some p"
    for rec a b us p
  proof (cases "length us \<le> a")
    case False
    then obtain q where "rec a b (overlap_words b (take a us) @ drop a us) = Some q"
      using ret by (auto simp: bind_eq_Some_conv)
    then have "a \<le> b \<longrightarrow> length (overlap_words b (take a us) @ drop a us) \<le> a" by (rule ih)
    moreover have "overlap_words b (take a us) = take a us" if "a \<le> b" using that by (simp add: overlap_words_def)
    ultimately show ?thesis by (metis append_take_drop_id)
  qed simp
  have "sz \<le> n \<longrightarrow> length ws \<le> sz" if "cut_long sz n ws = Some p" for p
    by (rule cut_long.raw_induct [of "\<lambda>a b us p. a \<le> b \<longrightarrow> length us \<le> a", OF step that])
  then show ?thesis using assms by (cases "cut_long sz n ws") auto
qed

end
