(* ===== verification/Knowledge_Index.thy ===== *)
theory Knowledge_Index
  imports Chunking Py_Values
begin

text \<open>
  Uploaded documents and the worker that indexes them (\<^verbatim>\<open>services/knowledge\<close>: \<^verbatim>\<open>documents.py\<close>,
  \<^verbatim>\<open>knowledge_bases.py\<close>, \<^verbatim>\<open>ingestion_worker.py\<close>, with the constraints of
  \<^verbatim>\<open>database/knowledge_schema.sql\<close>).

  A transaction is one function, and so is every piece of the worker between two statements; requests and
  pieces interleave as events. Ids and the names of stored files are numbers given out in order. The
  decoding of UTF-8, the answer of the embedding service and the success of a transaction are arguments.
  Audit rows, timestamps and the progress of \<^verbatim>\<open>config_version\<close> are left out.
\<close>

section \<open>Rows\<close>

datatype document_status = DOC_PENDING | DOC_PROCESSING | DOC_READY | DOC_FAILED
datatype usage_mode = MODE_AUTO | MODE_PROMPT
datatype job_status = JOB_PENDING | JOB_RUNNING | JOB_SUCCEEDED | JOB_FAILED

datatype ingest_error =
    NoDocument | NoFile | UnsupportedType string | NotUtf8 | ZeroChunks
  | NoEmbeddingConfig nat | EmbeddingFailed | StoreRefused

record base_row =
  kb_tenant :: nat
  kb_slug :: string
  kb_config :: "nat option"
  kb_active :: bool
  kb_deleted :: bool

record document =
  dc_kb :: nat
  dc_tenant :: nat
  dc_title :: string
  dc_source :: nat
  dc_type :: string
  dc_language :: "string option"
  dc_tags :: pyval
  dc_status :: document_status
  dc_error :: "ingest_error option"
  dc_version :: nat
  dc_mode :: usage_mode
  dc_deleted :: bool

record chunk_row =
  ck_document :: nat
  ck_kb :: nat
  ck_tenant :: nat
  ck_index :: nat
  ck_content :: string
  ck_vector :: "rat list option"
  ck_tokens :: nat
  ck_language :: "string option"
  ck_version :: nat

record index_job =
  jb_document :: nat
  jb_kb :: nat
  jb_status :: job_status
  jb_error :: "ingest_error option"
  jb_attempts :: nat

text \<open>Where \<^verbatim>\<open>process_one_job\<close> is: the job, the row of the document it read, the chunks, the vectors.\<close>

datatype worker =
    Waiting
  | Took nat
  | Marked nat
  | Embedding nat document "chunk list"
  | Storing nat document "chunk list" "rat list option list" usage_mode
  | Failing nat ingest_error
  | FailedDocument nat ingest_error

record index =
  kn_bases :: "(nat, base_row) odict"
  kn_documents :: "(nat, document) odict"
  kn_chunks :: "chunk_row list"
  kn_jobs :: "(nat, index_job) odict"
  kn_files :: "(nat, string) odict"
  kn_configs :: "(nat, bool) odict"
  kn_next :: nat
  kn_worker :: worker

definition index_init :: "(nat, bool) odict \<Rightarrow> index" where
  "index_init configs =
     \<lparr>kn_bases = [], kn_documents = [], kn_chunks = [], kn_jobs = [], kn_files = [], kn_configs = configs,
      kn_next = 0, kn_worker = Waiting\<rparr>"

datatype index_error =
    BaseNotFound nat | DocumentNotFound nat | NoFieldsGiven | StorageFailed
  | NullViolation | CheckViolation | DuplicateBase | UnknownConfig

section \<open>Knowledge bases\<close>

definition get_knowledge_base :: "nat \<Rightarrow> index \<Rightarrow> base_row option" where
  "get_knowledge_base b k =
     (case od_get (kn_bases k) b of
        Some r \<Rightarrow> if kb_deleted r then None else Some r
      | None \<Rightarrow> None)"

definition config_known :: "nat option \<Rightarrow> index \<Rightarrow> bool" where
  "config_known c k = (case c of None \<Rightarrow> True | Some i \<Rightarrow> od_get (kn_configs k) i \<noteq> None)"

definition create_knowledge_base :: "nat \<Rightarrow> string \<Rightarrow> nat option \<Rightarrow> index \<Rightarrow> (index_error + nat) \<times> index" where
  "create_knowledge_base tenant slug config k =
     (if \<exists>p\<in>set (kn_bases k). kb_tenant (snd p) = tenant \<and> kb_slug (snd p) = slug then (Inl DuplicateBase, k)
      else if \<not> config_known config k then (Inl UnknownConfig, k)
      else (Inr (kn_next k),
            k\<lparr>kn_bases := od_set (kn_next k)
                 \<lparr>kb_tenant = tenant, kb_slug = slug, kb_config = config, kb_active = True, kb_deleted = False\<rparr> (kn_bases k),
              kn_next := Suc (kn_next k)\<rparr>))"

text \<open>The columns a request may set; name and description decide nothing.\<close>

datatype base_field = SetText "string option" | SetConfig "nat option" | SetBaseStatus "string option"

fun set_base_field :: "index \<Rightarrow> base_field \<Rightarrow> base_row \<Rightarrow> index_error + base_row" where
  "set_base_field k (SetText t) r = (if t = None then Inl NullViolation else Inr r)"
| "set_base_field k (SetConfig c) r = (if config_known c k then Inr (r\<lparr>kb_config := c\<rparr>) else Inl UnknownConfig)"
| "set_base_field k (SetBaseStatus None) r = Inl NullViolation"
| "set_base_field k (SetBaseStatus (Some t)) r =
     (if t = ''active'' then Inr (r\<lparr>kb_active := True\<rparr>)
      else if t = ''inactive'' then Inr (r\<lparr>kb_active := False\<rparr>)
      else Inl CheckViolation)"

fun set_fields :: "('f \<Rightarrow> 'r \<Rightarrow> index_error + 'r) \<Rightarrow> 'f list \<Rightarrow> 'r \<Rightarrow> index_error + 'r" where
  "set_fields f [] r = Inr r"
| "set_fields f (x # xs) r = (case f x r of Inl e \<Rightarrow> Inl e | Inr r' \<Rightarrow> set_fields f xs r')"

definition update_knowledge_base :: "nat \<Rightarrow> base_field list \<Rightarrow> index \<Rightarrow> (index_error + unit) \<times> index" where
  "update_knowledge_base b fs k =
     (if fs = [] then (Inl NoFieldsGiven, k)
      else case od_get (kn_bases k) b of
        None \<Rightarrow> (Inl (BaseNotFound b), k)
      | Some r \<Rightarrow>
          (case set_fields (set_base_field k) fs r of
             Inl e \<Rightarrow> (Inl e, k)
           | Inr r' \<Rightarrow> (Inr (), k\<lparr>kn_bases := od_set b r' (kn_bases k)\<rparr>)))"

definition soft_delete_knowledge_base :: "nat \<Rightarrow> index \<Rightarrow> (index_error + unit) \<times> index" where
  "soft_delete_knowledge_base b k =
     (case od_get (kn_bases k) b of
        None \<Rightarrow> (Inl (BaseNotFound b), k)
      | Some r \<Rightarrow> (Inr (), k\<lparr>kn_bases := od_set b (r\<lparr>kb_deleted := True\<rparr>) (kn_bases k)\<rparr>))"

section \<open>Documents\<close>

definition get_document :: "nat \<Rightarrow> index \<Rightarrow> document option" where
  "get_document d k =
     (case od_get (kn_documents k) d of
        Some r \<Rightarrow> if dc_deleted r then None else Some r
      | None \<Rightarrow> None)"

definition list_documents :: "nat \<Rightarrow> index \<Rightarrow> (nat \<times> document) list" where
  "list_documents b k = rev (filter (\<lambda>p. dc_kb (snd p) = b \<and> \<not> dc_deleted (snd p)) (kn_documents k))"

text \<open>
  The route with \<^verbatim>\<open>upload_document\<close>: row, file and job in one transaction. The file and the row share a
  number, the job has the next one.
\<close>

definition upload_document ::
  "nat \<Rightarrow> string \<Rightarrow> string \<Rightarrow> string \<Rightarrow> string option \<Rightarrow> pyval \<Rightarrow> bool \<Rightarrow> index \<Rightarrow> (index_error + nat) \<times> index" where
  "upload_document b title content_type content language tags saved k =
     (case get_knowledge_base b k of
        None \<Rightarrow> (Inl (BaseNotFound b), k)
      | Some r \<Rightarrow>
          if \<not> saved then (Inl StorageFailed, k)
          else
            let d = kn_next k in
            (Inr d,
             k\<lparr>kn_documents := od_set d
                  \<lparr>dc_kb = b, dc_tenant = kb_tenant r, dc_title = title, dc_source = d, dc_type = content_type,
                   dc_language = language, dc_tags = tags, dc_status = DOC_PENDING, dc_error = None, dc_version = 1,
                   dc_mode = MODE_AUTO, dc_deleted = False\<rparr> (kn_documents k),
               kn_files := od_set d content (kn_files k),
               kn_jobs := od_set (Suc d)
                  \<lparr>jb_document = d, jb_kb = b, jb_status = JOB_PENDING, jb_error = None, jb_attempts = 0\<rparr> (kn_jobs k),
               kn_next := Suc (Suc d)\<rparr>))"

datatype document_field =
    SetTitle "string option" | SetLanguage "string option" | SetTags pyval | SetMode "string option"

fun set_document_field :: "document_field \<Rightarrow> document \<Rightarrow> index_error + document" where
  "set_document_field (SetTitle None) r = Inl NullViolation"
| "set_document_field (SetTitle (Some t)) r = Inr (r\<lparr>dc_title := t\<rparr>)"
| "set_document_field (SetLanguage l) r = Inr (r\<lparr>dc_language := l\<rparr>)"
| "set_document_field (SetTags t) r = Inr (r\<lparr>dc_tags := t\<rparr>)"
| "set_document_field (SetMode None) r = Inl NullViolation"
| "set_document_field (SetMode (Some m)) r =
     (if m = ''auto'' then Inr (r\<lparr>dc_mode := MODE_AUTO\<rparr>)
      else if m = ''prompt'' then Inr (r\<lparr>dc_mode := MODE_PROMPT\<rparr>)
      else Inl CheckViolation)"

definition update_document :: "nat \<Rightarrow> document_field list \<Rightarrow> index \<Rightarrow> (index_error + unit) \<times> index" where
  "update_document d fs k =
     (if fs = [] then (Inl NoFieldsGiven, k)
      else case od_get (kn_documents k) d of
        None \<Rightarrow> (Inl (DocumentNotFound d), k)
      | Some r \<Rightarrow>
          (case set_fields set_document_field fs r of
             Inl e \<Rightarrow> (Inl e, k)
           | Inr r' \<Rightarrow> (Inr (), k\<lparr>kn_documents := od_set d r' (kn_documents k)\<rparr>)))"

definition soft_delete_document :: "nat \<Rightarrow> index \<Rightarrow> (index_error + unit) \<times> index" where
  "soft_delete_document d k =
     (case od_get (kn_documents k) d of
        None \<Rightarrow> (Inl (DocumentNotFound d), k)
      | Some r \<Rightarrow> (Inr (), k\<lparr>kn_documents := od_set d (r\<lparr>dc_deleted := True\<rparr>) (kn_documents k)\<rparr>))"

section \<open>The worker\<close>

definition SUPPORTED_CONTENT_TYPES :: "string list" where
  "SUPPORTED_CONTENT_TYPES = [''text/plain'', ''text/markdown'']"

definition AUTO_INLINE_THRESHOLD_BYTES :: nat where
  "AUTO_INLINE_THRESHOLD_BYTES = 500"

definition EMBEDDING_DIMENSION :: nat where
  "EMBEDDING_DIMENSION = 768"

definition extract_text :: "(string \<Rightarrow> string option) \<Rightarrow> string \<Rightarrow> string \<Rightarrow> ingest_error + string" where
  "extract_text decode content_type raw =
     (if content_type \<notin> set SUPPORTED_CONTENT_TYPES then Inl (UnsupportedType content_type)
      else case decode raw of None \<Rightarrow> Inl NotUtf8 | Some t \<Rightarrow> Inr t)"

text \<open>An UPDATE of one row by its id changes nothing when there is no such row.\<close>

definition od_update :: "'k \<Rightarrow> ('v \<Rightarrow> 'v) \<Rightarrow> ('k, 'v) odict \<Rightarrow> ('k, 'v) odict" where
  "od_update i f d = (case od_get d i of None \<Rightarrow> d | Some v \<Rightarrow> od_set i (f v) d)"

definition set_job :: "nat \<Rightarrow> (index_job \<Rightarrow> index_job) \<Rightarrow> index \<Rightarrow> index" where
  "set_job i f k = k\<lparr>kn_jobs := od_update i f (kn_jobs k)\<rparr>"

definition set_document :: "nat \<Rightarrow> (document \<Rightarrow> document) \<Rightarrow> index \<Rightarrow> index" where
  "set_document d f k = k\<lparr>kn_documents := od_update d f (kn_documents k)\<rparr>"

definition go_to :: "worker \<Rightarrow> index \<Rightarrow> index" where
  "go_to w k = k\<lparr>kn_worker := w\<rparr>"

text \<open>The document and the knowledge base of a job never change after it was queued.\<close>

definition document_of :: "nat \<Rightarrow> index \<Rightarrow> nat" where
  "document_of i k = (case od_get (kn_jobs k) i of Some j \<Rightarrow> jb_document j | None \<Rightarrow> 0)"

definition base_of :: "nat \<Rightarrow> index \<Rightarrow> nat" where
  "base_of i k = (case od_get (kn_jobs k) i of Some j \<Rightarrow> jb_kb j | None \<Rightarrow> 0)"

text \<open>\<^verbatim>\<open>run_loop\<close>: the oldest pending job, if there is one.\<close>

definition take_job :: "index \<Rightarrow> index" where
  "take_job k =
     (case filter (\<lambda>p. jb_status (snd p) = JOB_PENDING) (kn_jobs k) of
        [] \<Rightarrow> k
      | p # _ \<Rightarrow>
          go_to (Took (fst p))
            (set_job (fst p) (\<lambda>j. j\<lparr>jb_status := JOB_RUNNING, jb_attempts := Suc (jb_attempts j)\<rparr>) k))"

definition mark_document :: "nat \<Rightarrow> index \<Rightarrow> index" where
  "mark_document i k = go_to (Marked i) (set_document (document_of i k) (\<lambda>r. r\<lparr>dc_status := DOC_PROCESSING\<rparr>) k)"

definition fetch_embedding_config :: "nat \<Rightarrow> index \<Rightarrow> nat option" where
  "fetch_embedding_config b k =
     (case od_get (kn_bases k) b of
        None \<Rightarrow> None
      | Some r \<Rightarrow>
          (case kb_config r of
             None \<Rightarrow> None
           | Some c \<Rightarrow> if od_get (kn_configs k) c = Some True then Some c else None))"

definition prepare_text :: "nat \<Rightarrow> document \<Rightarrow> string \<Rightarrow> string \<Rightarrow> index \<Rightarrow> worker" where
  "prepare_text i r raw t k =
     (if length raw < AUTO_INLINE_THRESHOLD_BYTES then
        Storing i r [\<lparr>ch_content = t, ch_token_count = length (split_words t)\<rparr>] [None] MODE_PROMPT
      else case chunk_text t 200 40 of
        None \<Rightarrow> Marked i
      | Some cs \<Rightarrow>
          if cs = [] then Failing i ZeroChunks
          else if fetch_embedding_config (base_of i k) k = None then Failing i (NoEmbeddingConfig (base_of i k))
          else Embedding i r cs)"

definition prepare :: "(string \<Rightarrow> string option) \<Rightarrow> nat \<Rightarrow> index \<Rightarrow> index" where
  "prepare decode i k =
     go_to
       (case od_get (kn_documents k) (document_of i k) of
          None \<Rightarrow> Failing i NoDocument
        | Some r \<Rightarrow>
            (case od_get (kn_files k) (dc_source r) of
               None \<Rightarrow> Failing i NoFile
             | Some raw \<Rightarrow>
                 (case extract_text decode (dc_type r) raw of
                    Inl e \<Rightarrow> Failing i e
                  | Inr t \<Rightarrow> prepare_text i r raw t k))) k"

definition new_version :: "document \<Rightarrow> nat" where
  "new_version r =
     (if dc_status r = DOC_READY then (if dc_version r = 0 then 1 else dc_version r) + 1 else dc_version r)"

definition chunk_rows :: "nat \<Rightarrow> nat \<Rightarrow> document \<Rightarrow> chunk list \<Rightarrow> rat list option list \<Rightarrow> chunk_row list" where
  "chunk_rows d b r cs vs =
     map (\<lambda>(n, c, v). \<lparr>ck_document = d, ck_kb = b, ck_tenant = dc_tenant r, ck_index = n, ck_content = ch_content c,
            ck_vector = v, ck_tokens = ch_token_count c, ck_language = dc_language r, ck_version = new_version r\<rparr>)
       (enumerate 0 (zip cs vs))"

definition vector_fits :: "rat list option \<Rightarrow> bool" where
  "vector_fits v = (case v of None \<Rightarrow> True | Some xs \<Rightarrow> length xs = EMBEDDING_DIMENSION)"

text \<open>The transaction at the end; a vector of another dimension, like any failure, rolls it back.\<close>

definition store_chunks :: "bool \<Rightarrow> nat \<Rightarrow> document \<Rightarrow> chunk list \<Rightarrow> rat list option list \<Rightarrow> usage_mode \<Rightarrow> index \<Rightarrow> index" where
  "store_chunks ok i r cs vs mode k =
     (if ok \<and> (\<forall>x\<in>set (chunk_rows (document_of i k) (base_of i k) r cs vs). vector_fits (ck_vector x)) then
        let d = document_of i k in
        go_to Waiting
          (set_job i (\<lambda>j. j\<lparr>jb_status := JOB_SUCCEEDED\<rparr>)
            (set_document d
              (\<lambda>x. x\<lparr>dc_status := DOC_READY, dc_error := None, dc_version := new_version r, dc_mode := mode\<rparr>)
              (k\<lparr>kn_chunks := filter (\<lambda>x. ck_document x \<noteq> d) (kn_chunks k) @ chunk_rows d (base_of i k) r cs vs\<rparr>)))
      else go_to (Failing i StoreRefused) k)"

definition fail_document :: "nat \<Rightarrow> ingest_error \<Rightarrow> index \<Rightarrow> index" where
  "fail_document i e k =
     go_to (FailedDocument i e)
       (set_document (document_of i k) (\<lambda>r. r\<lparr>dc_status := DOC_FAILED, dc_error := Some e\<rparr>) k)"

definition fail_job :: "nat \<Rightarrow> ingest_error \<Rightarrow> index \<Rightarrow> index" where
  "fail_job i e k = go_to Waiting (set_job i (\<lambda>j. j\<lparr>jb_status := JOB_FAILED, jb_error := Some e\<rparr>) k)"

text \<open>
  One step of the worker: \<open>reply\<close> is what the embedding service answers if it is asked, \<open>ok\<close> whether the
  transaction goes through.
\<close>

definition worker_step :: "(string \<Rightarrow> string option) \<Rightarrow> rat list list option \<Rightarrow> bool \<Rightarrow> index \<Rightarrow> index" where
  "worker_step decode reply ok k =
     (case kn_worker k of
        Waiting \<Rightarrow> take_job k
      | Took i \<Rightarrow> mark_document i k
      | Marked i \<Rightarrow> prepare decode i k
      | Embedding i r cs \<Rightarrow>
          (case reply of
             None \<Rightarrow> go_to (Failing i EmbeddingFailed) k
           | Some vs \<Rightarrow> go_to (Storing i r cs (map Some vs) (dc_mode r)) k)
      | Storing i r cs vs mode \<Rightarrow> store_chunks ok i r cs vs mode k
      | Failing i e \<Rightarrow> fail_document i e k
      | FailedDocument i e \<Rightarrow> fail_job i e k)"

section \<open>Interleavings\<close>

datatype index_event =
    CreateBase nat string "nat option"
  | UpdateBase nat "base_field list"
  | DeleteBase nat
  | DeleteConfig nat
  | Upload nat string string string "string option" pyval bool
  | UpdateDocument nat "document_field list"
  | DeleteDocument nat
  | WorkerStep "rat list list option" bool
  | WorkerCrash

fun index_step :: "(string \<Rightarrow> string option) \<Rightarrow> index_event \<Rightarrow> index \<Rightarrow> index" where
  "index_step decode (CreateBase t s c) k = snd (create_knowledge_base t s c k)"
| "index_step decode (UpdateBase b fs) k = snd (update_knowledge_base b fs k)"
| "index_step decode (DeleteBase b) k = snd (soft_delete_knowledge_base b k)"
| "index_step decode (DeleteConfig c) k = k\<lparr>kn_configs := od_update c (\<lambda>_. False) (kn_configs k)\<rparr>"
| "index_step decode (Upload b title ty content l tags saved) k = snd (upload_document b title ty content l tags saved k)"
| "index_step decode (UpdateDocument d fs) k = snd (update_document d fs k)"
| "index_step decode (DeleteDocument d) k = snd (soft_delete_document d k)"
| "index_step decode (WorkerStep reply ok) k = worker_step decode reply ok k"
| "index_step decode WorkerCrash k = go_to Waiting k"

section \<open>Jobs and documents\<close>

lemma od_get_update [simp]: "od_get (od_update i f d) j = (if j = i then map_option f (od_get d i) else od_get d j)"
  by (simp add: od_update_def split: option.split)

lemma od_ok_update [simp]: "od_ok d \<Longrightarrow> od_ok (od_update i f d)"
  by (simp add: od_update_def split: option.split)

text \<open>Which states of a document go with a state of its job.\<close>

fun fits :: "job_status \<Rightarrow> document_status \<Rightarrow> bool" where
  "fits JOB_PENDING s = (s = DOC_PENDING)"
| "fits JOB_RUNNING s = (s \<noteq> DOC_READY)"
| "fits JOB_SUCCEEDED s = (s = DOC_READY)"
| "fits JOB_FAILED s = (s = DOC_FAILED)"

text \<open>The job the worker is at, and the state it has put the document into.\<close>

fun busy_on :: "worker \<Rightarrow> (nat \<times> document_status) option" where
  "busy_on Waiting = None"
| "busy_on (Took i) = Some (i, DOC_PENDING)"
| "busy_on (Marked i) = Some (i, DOC_PROCESSING)"
| "busy_on (Embedding i r cs) = Some (i, DOC_PROCESSING)"
| "busy_on (Storing i r cs vs m) = Some (i, DOC_PROCESSING)"
| "busy_on (Failing i e) = Some (i, DOC_PROCESSING)"
| "busy_on (FailedDocument i e) = Some (i, DOC_FAILED)"

text \<open>The row the worker has read.\<close>

fun snapshot :: "worker \<Rightarrow> document option" where
  "snapshot (Embedding i r cs) = Some r"
| "snapshot (Storing i r cs vs m) = Some r"
| "snapshot _ = None"

definition rows_of :: "nat \<Rightarrow> chunk_row list \<Rightarrow> chunk_row list" where
  "rows_of d xs = filter (\<lambda>x. ck_document x = d) xs"

definition rows_ok :: "document \<Rightarrow> chunk_row list \<Rightarrow> bool" where
  "rows_ok r xs \<longleftrightarrow>
     map ck_index xs = [0..<length xs] \<and>
     (\<forall>x\<in>set xs. ck_kb x = dc_kb r \<and> ck_tenant x = dc_tenant r \<and> ck_version x = dc_version r) \<and>
     (dc_status r \<noteq> DOC_READY \<longrightarrow> xs = [])"

definition document_ok :: "index \<Rightarrow> nat \<Rightarrow> document \<Rightarrow> bool" where
  "document_ok k d r \<longleftrightarrow>
     (case od_get (kn_jobs k) (Suc d) of
        None \<Rightarrow> False
      | Some j \<Rightarrow> jb_document j = d \<and> jb_kb j = dc_kb r \<and> fits (jb_status j) (dc_status r)) \<and>
     od_get (kn_files k) (dc_source r) \<noteq> None \<and> dc_version r = 1 \<and> rows_ok r (rows_of d (kn_chunks k))"

definition job_ok :: "index \<Rightarrow> nat \<Rightarrow> index_job \<Rightarrow> bool" where
  "job_ok k i j \<longleftrightarrow> i = Suc (jb_document j) \<and> i < kn_next k \<and> od_get (kn_documents k) (jb_document j) \<noteq> None"

definition worker_ok :: "index \<Rightarrow> bool" where
  "worker_ok k \<longleftrightarrow>
     (\<forall>i s. busy_on (kn_worker k) = Some (i, s) \<longrightarrow>
        (\<exists>j r. od_get (kn_jobs k) i = Some j \<and> jb_status j = JOB_RUNNING \<and>
           od_get (kn_documents k) (jb_document j) = Some r \<and> dc_status r = s \<and>
           (\<forall>r0. snapshot (kn_worker k) = Some r0 \<longrightarrow>
              dc_status r0 = DOC_PROCESSING \<and> dc_version r0 = 1 \<and> dc_tenant r0 = dc_tenant r)))"

lemma worker_ok_keep:
  assumes "worker_ok k" and w: "kn_worker k' = kn_worker k"
    and jobs: "\<And>i j. od_get (kn_jobs k) i = Some j \<Longrightarrow> od_get (kn_jobs k') i = Some j"
    and docs: "\<And>d r. od_get (kn_documents k) d = Some r \<Longrightarrow>
      \<exists>r'. od_get (kn_documents k') d = Some r' \<and> dc_status r' = dc_status r \<and> dc_tenant r' = dc_tenant r"
  shows "worker_ok k'"
  unfolding worker_ok_def w
proof (intro allI impI)
  fix i st assume "busy_on (kn_worker k) = Some (i, st)"
  then obtain j r where j: "od_get (kn_jobs k) i = Some j" "jb_status j = JOB_RUNNING"
      and r: "od_get (kn_documents k) (jb_document j) = Some r" "dc_status r = st"
      and snap: "\<forall>r0. snapshot (kn_worker k) = Some r0 \<longrightarrow> dc_status r0 = DOC_PROCESSING \<and> dc_version r0 = 1 \<and> dc_tenant r0 = dc_tenant r"
    using assms(1) by (auto simp: worker_ok_def)
  obtain r' where "od_get (kn_documents k') (jb_document j) = Some r'" "dc_status r' = dc_status r" "dc_tenant r' = dc_tenant r"
    using docs [OF r(1)] by blast
  then show "\<exists>j r. od_get (kn_jobs k') i = Some j \<and> jb_status j = JOB_RUNNING \<and>
      od_get (kn_documents k') (jb_document j) = Some r \<and> dc_status r = st \<and>
      (\<forall>r0. snapshot (kn_worker k) = Some r0 \<longrightarrow>
         dc_status r0 = DOC_PROCESSING \<and> dc_version r0 = 1 \<and> dc_tenant r0 = dc_tenant r)"
    using jobs [OF j(1)] j(2) r(2) snap by (intro exI [of _ j] exI [of _ r']) simp
qed

lemma document_ok_other [simp]:
  "document_ok (k\<lparr>kn_documents := ds\<rparr>) d r = document_ok k d r"
  "document_ok (k\<lparr>kn_worker := w\<rparr>) d r = document_ok k d r"
  by (simp_all add: document_ok_def)

definition index_ok :: "index \<Rightarrow> bool" where
  "index_ok k \<longleftrightarrow>
     od_ok (kn_jobs k) \<and>
     (\<forall>d r. od_get (kn_documents k) d = Some r \<longrightarrow> d < kn_next k \<and> document_ok k d r) \<and>
     (\<forall>i j. od_get (kn_jobs k) i = Some j \<longrightarrow> job_ok k i j) \<and>
     (\<forall>x\<in>set (kn_chunks k). od_get (kn_documents k) (ck_document x) \<noteq> None) \<and>
     worker_ok k"

lemma index_okI:
  assumes "od_ok (kn_jobs k)"
    and "\<And>d r. od_get (kn_documents k) d = Some r \<Longrightarrow> d < kn_next k \<and> document_ok k d r"
    and "\<And>i j. od_get (kn_jobs k) i = Some j \<Longrightarrow> job_ok k i j"
    and "\<And>x. x \<in> set (kn_chunks k) \<Longrightarrow> od_get (kn_documents k) (ck_document x) \<noteq> None"
    and "worker_ok k"
  shows "index_ok k"
  using assms by (simp add: index_ok_def)

lemma index_okD:
  assumes "index_ok k"
  shows "od_ok (kn_jobs k)"
    and "od_get (kn_documents k) d = Some r \<Longrightarrow> d < kn_next k \<and> document_ok k d r"
    and "od_get (kn_jobs k) i = Some j \<Longrightarrow> job_ok k i j"
    and "x \<in> set (kn_chunks k) \<Longrightarrow> od_get (kn_documents k) (ck_document x) \<noteq> None"
    and "worker_ok k"
  using assms by (auto simp: index_ok_def)

text \<open>Requests keep what the index knows of a document: everything but title, language, tags, mode and deletion.\<close>

definition same_core :: "document \<Rightarrow> document \<Rightarrow> bool" where
  "same_core r r' \<longleftrightarrow>
     dc_kb r' = dc_kb r \<and> dc_tenant r' = dc_tenant r \<and> dc_source r' = dc_source r \<and> dc_status r' = dc_status r \<and>
     dc_version r' = dc_version r"

lemma document_ok_core: "same_core r r' \<Longrightarrow> document_ok k d r' = document_ok k d r"
  by (simp add: same_core_def document_ok_def rows_ok_def split: option.split)

lemma set_document_field_core: "set_document_field f r = Inr r' \<Longrightarrow> same_core r r'"
  by (cases "(f, r)" rule: set_document_field.cases) (auto simp: same_core_def split: if_splits)

lemma set_fields_core: "set_fields set_document_field fs r = Inr r' \<Longrightarrow> same_core r r'"
proof (induction fs arbitrary: r)
  case (Cons f fs)
  then obtain r1 where "set_document_field f r = Inr r1" "set_fields set_document_field fs r1 = Inr r'"
    by (auto split: sum.splits)
  then show ?case using Cons.IH [of r1] set_document_field_core [of f r r1] by (simp add: same_core_def)
qed (simp add: same_core_def)

lemma index_ok_same_core:
  assumes k: "index_ok k" and d: "od_get (kn_documents k) d = Some r" and core: "same_core r r'"
  shows "index_ok (k\<lparr>kn_documents := od_set d r' (kn_documents k)\<rparr>)" (is "index_ok ?k")
proof (rule index_okI)
  show "od_ok (kn_jobs ?k)" using index_okD(1) [OF k] by simp
  show "e < kn_next ?k \<and> document_ok ?k e x" if x: "od_get (kn_documents ?k) e = Some x" for e x
  proof (cases "e = d")
    case True
    then have "x = r'" using x by simp
    then show ?thesis using True index_okD(2) [OF k d] document_ok_core [OF core] by simp
  next
    case False
    then show ?thesis using x index_okD(2) [OF k, of e x] by simp
  qed
  show "job_ok ?k i j" if "od_get (kn_jobs ?k) i = Some j" for i j
    using index_okD(3) [OF k, of i j] that by (auto simp: job_ok_def)
  show "od_get (kn_documents ?k) (ck_document x) \<noteq> None" if "x \<in> set (kn_chunks ?k)" for x
    using index_okD(4) [OF k, of x] that by auto
  show "worker_ok ?k"
    by (rule worker_ok_keep [OF index_okD(5) [OF k]]) (use d core in \<open>auto simp: same_core_def\<close>)
qed

lemma index_ok_requests:
  assumes "index_ok k"
  shows "index_ok (snd (update_document d fs k))" and "index_ok (snd (soft_delete_document d k))"
  using assms
  by (auto simp: update_document_def soft_delete_document_def same_core_def
      intro!: index_ok_same_core dest: set_fields_core split: option.splits sum.splits)

text \<open>Bases and configurations are not part of the invariant.\<close>

lemma index_ok_cong:
  assumes "kn_documents k' = kn_documents k" and "kn_chunks k' = kn_chunks k" and "kn_jobs k' = kn_jobs k"
    and "kn_files k' = kn_files k" and "kn_worker k' = kn_worker k" and "kn_next k \<le> kn_next k'" and "index_ok k"
  shows "index_ok k'"
  using assms by (force simp: index_ok_def document_ok_def job_ok_def worker_ok_def)

lemma index_ok_bases:
  assumes "index_ok k"
  shows "index_ok (snd (create_knowledge_base t s c k))" and "index_ok (snd (update_knowledge_base b bs k))"
    and "index_ok (snd (soft_delete_knowledge_base b k))" and "index_ok (k\<lparr>kn_configs := cs\<rparr>)"
  using assms
  by (auto intro!: index_ok_cong [OF _ _ _ _ _ _ assms]
      simp: create_knowledge_base_def update_knowledge_base_def soft_delete_knowledge_base_def
      split: option.splits sum.splits)

lemma rows_of_fresh:
  assumes "index_ok k" and "od_get (kn_documents k) d = None"
  shows "rows_of d (kn_chunks k) = []"
proof -
  have "ck_document x \<noteq> d" if "x \<in> set (kn_chunks k)" for x using index_okD(4) [OF assms(1) that] assms(2) by auto
  then show ?thesis by (simp add: rows_of_def filter_empty_conv)
qed

lemma index_ok_upload:
  assumes k: "index_ok k"
  shows "index_ok (snd (upload_document b title ty content l tags saved k))"
proof (cases "get_knowledge_base b k")
  case (Some r)
  show ?thesis
  proof (cases saved)
    case True
    let ?d = "kn_next k"
    let ?k = "snd (upload_document b title ty content l tags saved k)"
    have fresh: "od_get (kn_documents k) ?d = None" "od_get (kn_jobs k) (Suc ?d) = None"
      using index_okD(2) [OF k, of ?d] index_okD(3) [OF k, of "Suc ?d"]
      by (cases "od_get (kn_documents k) ?d", auto, cases "od_get (kn_jobs k) (Suc ?d)", auto simp: job_ok_def)
    show ?thesis
    proof (rule index_okI)
      show "od_ok (kn_jobs ?k)" using index_okD(1) [OF k] Some True by (simp add: upload_document_def Let_def)
      show "e < kn_next ?k \<and> document_ok ?k e x" if "od_get (kn_documents ?k) e = Some x" for e x
      proof (cases "e = ?d")
        case new: True
        then show ?thesis using that Some True rows_of_fresh [OF k fresh(1)]
          by (auto simp: upload_document_def Let_def document_ok_def rows_ok_def)
      next
        case False
        then have "od_get (kn_documents k) e = Some x" using that Some True by (simp add: upload_document_def Let_def)
        then show ?thesis using index_okD(2) [OF k, of e x] Some True False
          by (auto simp: upload_document_def Let_def document_ok_def split: option.splits)
      qed
      show "job_ok ?k i j" if "od_get (kn_jobs ?k) i = Some j" for i j
        using that Some True index_okD(3) [OF k, of i j]
        by (auto simp: upload_document_def Let_def job_ok_def split: if_splits)
      show "od_get (kn_documents ?k) (ck_document x) \<noteq> None" if "x \<in> set (kn_chunks ?k)" for x
        using that Some True index_okD(4) [OF k, of x] by (auto simp: upload_document_def Let_def)
      show "worker_ok ?k"
        by (rule worker_ok_keep [OF index_okD(5) [OF k]]) (use Some True fresh in \<open>auto simp: upload_document_def Let_def\<close>)
    qed
  qed (simp add: upload_document_def Some k)
qed (simp add: upload_document_def k)

text \<open>The worker touches one job and its document, to which the invariant gives access.\<close>

lemma worker_at:
  assumes "index_ok k" and "busy_on (kn_worker k) = Some (i, st)"
  shows "\<exists>d j r. i = Suc d \<and> od_get (kn_jobs k) (Suc d) = Some j \<and> jb_document j = d \<and> jb_status j = JOB_RUNNING \<and>
    document_of i k = d \<and> base_of i k = dc_kb r \<and> od_get (kn_documents k) d = Some r \<and> dc_status r = st \<and>
    jb_kb j = dc_kb r \<and> dc_version r = 1 \<and>
    (\<forall>r0. snapshot (kn_worker k) = Some r0 \<longrightarrow> dc_status r0 = DOC_PROCESSING \<and> dc_version r0 = 1 \<and> dc_tenant r0 = dc_tenant r)"
proof -
  obtain j r where j: "od_get (kn_jobs k) i = Some j" "jb_status j = JOB_RUNNING"
      and r: "od_get (kn_documents k) (jb_document j) = Some r" "dc_status r = st"
      and snap: "\<forall>r0. snapshot (kn_worker k) = Some r0 \<longrightarrow> dc_status r0 = DOC_PROCESSING \<and> dc_version r0 = 1 \<and> dc_tenant r0 = dc_tenant r"
    using index_okD(5) [OF assms(1)] assms(2) by (auto simp: worker_ok_def)
  have i: "i = Suc (jb_document j)" using index_okD(3) [OF assms(1) j(1)] by (simp add: job_ok_def)
  have "jb_kb j = dc_kb r" "dc_version r = 1"
    using index_okD(2) [OF assms(1) r(1)] i j(1) by (simp_all add: document_ok_def)
  then show ?thesis
    using i j r snap by (intro exI [of _ "jb_document j"] exI [of _ j] exI [of _ r]) (simp add: document_of_def base_of_def)
qed

definition touch :: "nat \<Rightarrow> (index_job \<Rightarrow> index_job) \<Rightarrow> (document \<Rightarrow> document) \<Rightarrow> chunk_row list \<Rightarrow> worker \<Rightarrow> index \<Rightarrow> index" where
  "touch d f g xs w k =
     k\<lparr>kn_jobs := od_update (Suc d) f (kn_jobs k), kn_documents := od_update d g (kn_documents k), kn_chunks := xs, kn_worker := w\<rparr>"

lemma index_ok_touch:
  assumes k: "index_ok k" and j: "od_get (kn_jobs k) (Suc d) = Some j" and r: "od_get (kn_documents k) d = Some r"
    and job: "jb_document (f j) = d" "jb_kb (f j) = jb_kb j"
    and doc: "dc_kb (g r) = dc_kb r" "dc_source (g r) = dc_source r" "dc_version (g r) = 1"
    and fit: "fits (jb_status (f j)) (dc_status (g r))"
    and rows: "rows_ok (g r) (rows_of d xs)" "filter (\<lambda>x. ck_document x \<noteq> d) xs = filter (\<lambda>x. ck_document x \<noteq> d) (kn_chunks k)"
    and busy: "busy_on w = None \<or> busy_on w = Some (Suc d, dc_status (g r)) \<and> jb_status (f j) = JOB_RUNNING \<and>
      (\<forall>r0. snapshot w = Some r0 \<longrightarrow> dc_status r0 = DOC_PROCESSING \<and> dc_version r0 = 1 \<and> dc_tenant r0 = dc_tenant (g r))"
  shows "index_ok (touch d f g xs w k)" (is "index_ok ?k")
proof (rule index_okI)
  have d: "d < kn_next k" "document_ok k d r" using index_okD(2) [OF k r] by auto
  have others: "rows_of e xs = rows_of e (kn_chunks k)" if "e \<noteq> d" for e
  proof -
    have "rows_of e xs = filter (\<lambda>x. ck_document x = e) (filter (\<lambda>x. ck_document x \<noteq> d) xs)"
      using that by (auto simp: rows_of_def intro: filter_cong)
    then show ?thesis using that rows(2) by (auto simp: rows_of_def intro: filter_cong)
  qed
  show "od_ok (kn_jobs ?k)" using index_okD(1) [OF k] by (simp add: touch_def)
  show "e < kn_next ?k \<and> document_ok ?k e x" if x: "od_get (kn_documents ?k) e = Some x" for e x
  proof (cases "e = d")
    case True
    then have "x = g r" using x r by (simp add: touch_def)
    then show ?thesis using True d doc fit rows(1) job j by (simp add: document_ok_def touch_def split: option.splits)
  next
    case False
    then show ?thesis using x index_okD(2) [OF k, of e x] others by (simp add: document_ok_def touch_def)
  qed
  show "job_ok ?k i y" if "od_get (kn_jobs ?k) i = Some y" for i y
    using that index_okD(3) [OF k, of i] j r job by (auto simp: job_ok_def touch_def split: if_splits)
  show "od_get (kn_documents ?k) (ck_document x) \<noteq> None" if x: "x \<in> set (kn_chunks ?k)" for x
  proof (cases "ck_document x = d")
    case False
    then have "x \<in> set (filter (\<lambda>x. ck_document x \<noteq> d) (kn_chunks k))" using x rows(2) [symmetric] by (simp add: touch_def)
    then show ?thesis using index_okD(4) [OF k, of x] False by (simp add: touch_def)
  qed (simp add: touch_def r)
  show "worker_ok ?k" using busy j r job by (auto simp: worker_ok_def touch_def)
qed

lemma rows_of_kept:
  "index_ok k \<Longrightarrow> od_get (kn_documents k) d = Some r \<Longrightarrow> dc_status r \<noteq> DOC_READY \<Longrightarrow> rows_of d (kn_chunks k) = []"
  using index_okD(2) [of k d r] by (simp add: document_ok_def rows_ok_def)

lemma od_set_same: "od_get d i = Some v \<Longrightarrow> od_set i v d = d"
  by (induction i v d rule: od_set.induct) (auto simp: od_get_def split: if_splits)

lemma od_update_id [simp]: "od_update i (\<lambda>v. v) d = d"
  by (simp add: od_update_def od_set_same split: option.split)

lemma index_ok_go_to:
  assumes k: "index_ok k"
    and w: "busy_on w = None \<or> busy_on w = busy_on (kn_worker k)"
    and snap: "\<And>r0. snapshot w = Some r0 \<Longrightarrow> snapshot (kn_worker k) = Some r0 \<or>
      (\<exists>i st. busy_on w = Some (i, st) \<and> od_get (kn_documents k) (document_of i k) = Some r0 \<and> st = DOC_PROCESSING)"
  shows "index_ok (go_to w k)" (is "index_ok ?k")
proof (rule index_okI)
  show "od_ok (kn_jobs ?k)" using index_okD(1) [OF k] by (simp add: go_to_def)
  show "e < kn_next ?k \<and> document_ok ?k e x" if "od_get (kn_documents ?k) e = Some x" for e x
    using that index_okD(2) [OF k, of e x] by (simp add: go_to_def)
  show "job_ok ?k i j" if "od_get (kn_jobs ?k) i = Some j" for i j
    using that index_okD(3) [OF k, of i j] by (simp add: go_to_def job_ok_def)
  show "od_get (kn_documents ?k) (ck_document x) \<noteq> None" if "x \<in> set (kn_chunks ?k)" for x
    using that index_okD(4) [OF k, of x] by (simp add: go_to_def)
  show "worker_ok ?k"
    unfolding worker_ok_def
  proof (intro allI impI)
    fix i st assume b: "busy_on (kn_worker ?k) = Some (i, st)"
    then have old: "busy_on (kn_worker k) = Some (i, st)" using w by (auto simp: go_to_def)
    obtain d j r where o: "i = Suc d" "od_get (kn_jobs k) (Suc d) = Some j" "jb_document j = d" "jb_status j = JOB_RUNNING"
      "document_of i k = d" "od_get (kn_documents k) d = Some r" "dc_status r = st" "dc_version r = 1"
      "\<forall>r0. snapshot (kn_worker k) = Some r0 \<longrightarrow> dc_status r0 = DOC_PROCESSING \<and> dc_version r0 = 1 \<and> dc_tenant r0 = dc_tenant r"
      using worker_at [OF k old] by blast
    have "dc_status r0 = DOC_PROCESSING \<and> dc_version r0 = 1 \<and> dc_tenant r0 = dc_tenant r" if "snapshot w = Some r0" for r0
      using snap [OF that] o b by (auto simp: go_to_def)
    then show "\<exists>j r. od_get (kn_jobs ?k) i = Some j \<and> jb_status j = JOB_RUNNING \<and>
        od_get (kn_documents ?k) (jb_document j) = Some r \<and> dc_status r = st \<and>
        (\<forall>r0. snapshot (kn_worker ?k) = Some r0 \<longrightarrow>
           dc_status r0 = DOC_PROCESSING \<and> dc_version r0 = 1 \<and> dc_tenant r0 = dc_tenant r)"
      using o by (intro exI [of _ j] exI [of _ r]) (simp add: go_to_def)
  qed
qed

lemma index_ok_take:
  assumes k: "index_ok k"
  shows "index_ok (take_job k)"
proof (cases "filter (\<lambda>p. jb_status (snd p) = JOB_PENDING) (kn_jobs k)")
  case (Cons p ps)
  have "p \<in> set (filter (\<lambda>p. jb_status (snd p) = JOB_PENDING) (kn_jobs k))" unfolding Cons by simp
  then have p: "p \<in> set (kn_jobs k)" "jb_status (snd p) = JOB_PENDING" by auto
  then have get: "od_get (kn_jobs k) (fst p) = Some (snd p)" using index_okD(1) [OF k] by (simp add: od_get_def)
  then obtain d where d: "fst p = Suc d" "jb_document (snd p) = d" "od_get (kn_documents k) d \<noteq> None"
    using index_okD(3) [OF k get] by (auto simp: job_ok_def)
  then obtain r where r: "od_get (kn_documents k) d = Some r" by auto
  have "dc_status r = DOC_PENDING" "dc_version r = 1"
    using index_okD(2) [OF k r] get d(1) p(2) by (simp_all add: document_ok_def)
  moreover have "take_job k = touch d (\<lambda>j. j\<lparr>jb_status := JOB_RUNNING, jb_attempts := Suc (jb_attempts j)\<rparr>) (\<lambda>r. r)
      (kn_chunks k) (Took (Suc d)) k"
    using Cons d(1) by (simp add: take_job_def touch_def go_to_def set_job_def)
  moreover have "rows_of d (kn_chunks k) = []" using rows_of_kept [OF k r] \<open>dc_status r = DOC_PENDING\<close> by simp
  ultimately show ?thesis
    by (simp only:) (rule index_ok_touch [OF k _ r, of "snd p"], use get d in \<open>simp_all add: rows_ok_def\<close>)
qed (simp add: take_job_def k)

lemma chunk_rows_index: "map ck_index (chunk_rows d b r cs vs) = [0..<length (chunk_rows d b r cs vs)]"
  by (simp add: chunk_rows_def comp_def case_prod_unfold enumerate_eq_zip)

lemma chunk_rows_fields:
  "x \<in> set (chunk_rows d b r cs vs) \<Longrightarrow>
    ck_document x = d \<and> ck_kb x = b \<and> ck_tenant x = dc_tenant r \<and> ck_version x = new_version r"
  by (auto simp: chunk_rows_def)

lemma index_ok_store:
  assumes k: "index_ok k" and w: "kn_worker k = Storing i r0 cs vs mode"
  shows "index_ok (store_chunks ok i r0 cs vs mode k)"
proof (cases "ok \<and> (\<forall>x\<in>set (chunk_rows (document_of i k) (base_of i k) r0 cs vs). vector_fits (ck_vector x))")
  case True
  have "busy_on (kn_worker k) = Some (i, DOC_PROCESSING)" using w by simp
  from worker_at [OF k this] obtain d j r where o: "i = Suc d" "od_get (kn_jobs k) (Suc d) = Some j" "jb_document j = d"
      "jb_status j = JOB_RUNNING" "document_of i k = d" "base_of i k = dc_kb r" "od_get (kn_documents k) d = Some r"
      "jb_kb j = dc_kb r"
      and snap: "\<forall>x. snapshot (kn_worker k) = Some x \<longrightarrow> dc_status x = DOC_PROCESSING \<and> dc_version x = 1 \<and> dc_tenant x = dc_tenant r"
    by blast
  have r0: "dc_status r0 = DOC_PROCESSING" "dc_version r0 = 1" "dc_tenant r0 = dc_tenant r" using snap w by auto
  let ?rows = "chunk_rows d (dc_kb r) r0 cs vs"
  let ?xs = "filter (\<lambda>x. ck_document x \<noteq> d) (kn_chunks k) @ ?rows"
  let ?g = "\<lambda>x. x\<lparr>dc_status := DOC_READY, dc_error := None, dc_version := new_version r0, dc_mode := mode\<rparr>"
  have v: "new_version r0 = 1" using r0 by (simp add: new_version_def)
  have mine: "rows_of d ?xs = ?rows" using chunk_rows_fields [of _ d "dc_kb r" r0 cs vs] by (auto simp: rows_of_def)
  have "rows_ok (?g r) ?rows"
    using chunk_rows_index chunk_rows_fields [of _ d "dc_kb r" r0 cs vs] r0 v by (auto simp: rows_ok_def)
  moreover have "store_chunks ok i r0 cs vs mode k = touch d (\<lambda>j. j\<lparr>jb_status := JOB_SUCCEEDED\<rparr>) ?g ?xs Waiting k"
    using True o(1,5,6) by (simp add: store_chunks_def touch_def go_to_def set_job_def set_document_def Let_def)
  moreover have "filter (\<lambda>x. ck_document x \<noteq> d) ?xs = filter (\<lambda>x. ck_document x \<noteq> d) (kn_chunks k)"
    using chunk_rows_fields [of _ d "dc_kb r" r0 cs vs] by (auto simp: filter_empty_conv)
  ultimately show ?thesis
    by (simp only:) (rule index_ok_touch [OF k o(2,7)], use o(3,4) v mine in simp_all)
next
  case False
  have "store_chunks ok i r0 cs vs mode k = go_to (Failing i StoreRefused) k" using False by (auto simp: store_chunks_def)
  moreover have "index_ok (go_to (Failing i StoreRefused) k)" by (rule index_ok_go_to [OF k]) (use w in auto)
  ultimately show ?thesis by (simp only:)
qed

lemma index_ok_status:
  assumes k: "index_ok k" and w: "busy_on (kn_worker k) = Some (i, st)" and new: "busy_on w' = Some (i, st')" "snapshot w' = None"
    and st': "st' \<noteq> DOC_READY" and g: "\<And>r. dc_kb (g r) = dc_kb r \<and> dc_source (g r) = dc_source r \<and> dc_version (g r) = dc_version r \<and>
      dc_tenant (g r) = dc_tenant r \<and> dc_status (g r) = st'"
  shows "index_ok (go_to w' (set_document (document_of i k) g k))"
proof -
  have "st \<noteq> DOC_READY" using w by (cases "kn_worker k") auto
  with worker_at [OF k w] obtain d j r where o: "i = Suc d" "od_get (kn_jobs k) (Suc d) = Some j" "jb_document j = d"
      "jb_status j = JOB_RUNNING" "document_of i k = d" "od_get (kn_documents k) d = Some r" "dc_status r \<noteq> DOC_READY" "dc_version r = 1"
    by blast
  have "rows_of d (kn_chunks k) = []" using rows_of_kept [OF k o(6,7)] .
  moreover have "go_to w' (set_document (document_of i k) g k) = touch d (\<lambda>j. j) g (kn_chunks k) w' k"
    using o(5) by (simp add: touch_def go_to_def set_document_def)
  ultimately show ?thesis
    by (simp only:) (rule index_ok_touch [OF k o(2,6)], use o new st' g in \<open>simp_all add: rows_ok_def\<close>)
qed

lemma index_ok_fail_job:
  assumes k: "index_ok k" and w: "kn_worker k = FailedDocument i e"
  shows "index_ok (fail_job i e k)"
proof -
  have "busy_on (kn_worker k) = Some (i, DOC_FAILED)" using w by simp
  from worker_at [OF k this] obtain d j r where o: "i = Suc d" "od_get (kn_jobs k) (Suc d) = Some j" "jb_document j = d"
      "od_get (kn_documents k) d = Some r" "dc_status r = DOC_FAILED" "dc_version r = 1"
    by blast
  have "rows_of d (kn_chunks k) = []" using rows_of_kept [OF k o(4)] o(5) by simp
  moreover have "fail_job i e k = touch d (\<lambda>j. j\<lparr>jb_status := JOB_FAILED, jb_error := Some e\<rparr>) (\<lambda>r. r) (kn_chunks k) Waiting k"
    using o(1) by (simp add: fail_job_def touch_def go_to_def set_job_def)
  ultimately show ?thesis
    by (simp only:) (rule index_ok_touch [OF k o(2,4)], use o in \<open>simp_all add: rows_ok_def\<close>)
qed

text \<open>What \<open>prepare\<close> leads to stays at the job, and keeps the row it has just read.\<close>

lemma prepare_worker:
  "busy_on (kn_worker (prepare decode i k)) = Some (i, DOC_PROCESSING) \<and>
   (\<forall>r0. snapshot (kn_worker (prepare decode i k)) = Some r0 \<longrightarrow> od_get (kn_documents k) (document_of i k) = Some r0)"
  by (auto simp: prepare_def prepare_text_def go_to_def split: option.splits sum.splits if_splits)

lemma index_ok_prepare:
  assumes k: "index_ok k" and w: "kn_worker k = Marked i"
  shows "index_ok (prepare decode i k)"
proof -
  have "prepare decode i k = go_to (kn_worker (prepare decode i k)) k" by (simp add: prepare_def go_to_def)
  moreover have "index_ok (go_to (kn_worker (prepare decode i k)) k)"
    by (rule index_ok_go_to [OF k]) (use prepare_worker [of decode i k] w in auto)
  ultimately show ?thesis by (simp only:)
qed

lemma index_ok_worker:
  assumes k: "index_ok k"
  shows "index_ok (worker_step decode reply ok k)"
proof (cases "kn_worker k")
  case Waiting
  then show ?thesis using index_ok_take [OF k] by (simp add: worker_step_def)
next
  case (Took i)
  then show ?thesis using index_ok_status [OF k, of i DOC_PENDING "Marked i" DOC_PROCESSING] by (simp add: worker_step_def mark_document_def)
next
  case (Marked i)
  then show ?thesis using index_ok_prepare [OF k] by (simp add: worker_step_def)
next
  case (Embedding i r cs)
  then show ?thesis by (auto simp: worker_step_def intro!: index_ok_go_to [OF k] split: option.split)
next
  case (Storing i r cs vs mode)
  then show ?thesis using index_ok_store [OF k] by (simp add: worker_step_def)
next
  case (Failing i e)
  then show ?thesis using index_ok_status [OF k, of i DOC_PROCESSING "FailedDocument i e" DOC_FAILED]
    by (simp add: worker_step_def fail_document_def)
next
  case (FailedDocument i e)
  then show ?thesis using index_ok_fail_job [OF k] by (simp add: worker_step_def)
qed

lemma index_ok_init: "index_ok (index_init cs)"
  by (auto simp: index_ok_def index_init_def worker_ok_def od_get_def)

lemma index_ok_step: "index_ok k \<Longrightarrow> index_ok (index_step decode e k)"
  by (cases e) (auto simp: index_ok_bases index_ok_upload index_ok_requests index_ok_worker intro: index_ok_go_to)

interpretation index: event_machine "index_init cs" "index_step decode" index_ok
  by unfold_locales (rule index_ok_init, rule index_ok_step)

text \<open>
  C13. A document, its file, its job and its chunks stay together under every interleaving of requests, the
  worker and its crashes: there is exactly the one job that was queued with the document, the states of
  the two fit, the stored bytes are there, the chunks are numbered from 0 without gaps, belong to the
  document's base and tenant and carry its version, and there are none unless the document is ready. The
  version is 1 forever.
\<close>

theorem uploads_settle_together:
  assumes "k = fold (index_step decode) es (index_init cs)" and "od_get (kn_documents k) d = Some r"
  shows "(case od_get (kn_jobs k) (Suc d) of
        None \<Rightarrow> False
      | Some j \<Rightarrow> jb_document j = d \<and> jb_kb j = dc_kb r \<and> fits (jb_status j) (dc_status r)) \<and>
    od_get (kn_files k) (dc_source r) \<noteq> None \<and> dc_version r = 1 \<and>
    (let xs = filter (\<lambda>x. ck_document x = d) (kn_chunks k) in
     map ck_index xs = [0..<length xs] \<and>
     (\<forall>x\<in>set xs. ck_kb x = dc_kb r \<and> ck_tenant x = dc_tenant r \<and> ck_version x = dc_version r) \<and>
     (dc_status r \<noteq> DOC_READY \<longrightarrow> xs = []))"
  using index_okD(2) [OF index.inv_run [of decode es cs] assms(2) [unfolded assms(1)]] assms(1)
  by (simp add: document_ok_def rows_ok_def rows_of_def Let_def)

definition one_upload :: "index_event list" where
  "one_upload =
     [CreateBase 7 ''faq'' None, Upload 0 ''Hours'' ''text/plain'' ''open 9 to 5'' None (PDict []) True,
      WorkerStep None True, WorkerStep None True, WorkerStep None True, WorkerStep None True]"

abbreviation indexed_upload :: index where
  "indexed_upload \<equiv> fold (index_step Some) one_upload (index_init [])"

theorem uploads_settle_together_witness:
  "\<exists>r. od_get (kn_documents indexed_upload) 1 = Some r \<and> dc_status r = DOC_READY \<and> dc_mode r = MODE_PROMPT \<and>
    (let xs = filter (\<lambda>x. ck_document x = 1) (kn_chunks indexed_upload) in
     length xs = 1 \<and> map ck_index xs = [0..<length xs])"
proof -
  let ?r = "\<lparr>dc_kb = 0, dc_tenant = 7, dc_title = ''Hours'', dc_source = 1, dc_type = ''text/plain'', dc_language = None,
    dc_tags = PDict [], dc_status = DOC_READY, dc_error = None, dc_version = 1, dc_mode = MODE_PROMPT, dc_deleted = False\<rparr> :: document"
  have r: "od_get (kn_documents indexed_upload) 1 = Some ?r" by code_simp
  have "length (filter (\<lambda>x. ck_document x = 1) (kn_chunks indexed_upload)) = 1" by code_simp
  then show ?thesis using uploads_settle_together [OF refl r] r by (simp add: Let_def)
qed

section \<open>What the worker does not do\<close>

text \<open>
  A job whose worker died stays marked as running, and so never gets a worker again: only pending jobs are
  taken.
\<close>

definition abandoned :: "nat \<Rightarrow> index \<Rightarrow> bool" where
  "abandoned i k \<longleftrightarrow>
     (\<exists>j. od_get (kn_jobs k) i = Some j \<and> jb_status j = JOB_RUNNING) \<and>
     (\<forall>st. busy_on (kn_worker k) \<noteq> Some (i, st))"

lemma abandoned_other_job: "abandoned i k \<Longrightarrow> e \<noteq> i \<Longrightarrow> od_get (kn_jobs (set_job e f k)) i = od_get (kn_jobs k) i"
  by (simp add: set_job_def)

lemma take_job_cases:
  assumes "od_ok (kn_jobs k)"
  obtains "take_job k = k"
    | i j where "od_get (kn_jobs k) i = Some j" "jb_status j = JOB_PENDING"
        "take_job k = go_to (Took i) (set_job i (\<lambda>j. j\<lparr>jb_status := JOB_RUNNING, jb_attempts := Suc (jb_attempts j)\<rparr>) k)"
proof (cases "filter (\<lambda>p. jb_status (snd p) = JOB_PENDING) (kn_jobs k)")
  case Nil
  then show ?thesis using that(1) by (simp add: take_job_def)
next
  case (Cons p ps)
  have "p \<in> set (filter (\<lambda>p. jb_status (snd p) = JOB_PENDING) (kn_jobs k))" unfolding Cons by simp
  then have "od_get (kn_jobs k) (fst p) = Some (snd p)" "jb_status (snd p) = JOB_PENDING"
    using assms by (auto simp: od_get_def)
  then show ?thesis using that(2) Cons by (simp add: take_job_def)
qed

lemma abandoned_worker:
  assumes k: "index_ok k" and a: "abandoned i k"
  shows "abandoned i (worker_step decode reply ok k)"
proof (cases "kn_worker k")
  case Waiting
  show ?thesis
  proof (rule take_job_cases [OF index_okD(1) [OF k]])
    assume "take_job k = k"
    then show ?thesis using a Waiting by (simp add: worker_step_def)
  next
    fix e j assume "od_get (kn_jobs k) e = Some j" "jb_status j = JOB_PENDING"
      "take_job k = go_to (Took e) (set_job e (\<lambda>j. j\<lparr>jb_status := JOB_RUNNING, jb_attempts := Suc (jb_attempts j)\<rparr>) k)"
    then show ?thesis using a Waiting by (auto simp: worker_step_def abandoned_def go_to_def set_job_def)
  qed
next
  case (Marked e)
  have "kn_jobs (prepare decode e k) = kn_jobs k" by (simp add: prepare_def go_to_def)
  then show ?thesis using a Marked prepare_worker [of decode e k] by (auto simp: worker_step_def abandoned_def)
qed (use a in \<open>auto simp: worker_step_def abandoned_def mark_document_def store_chunks_def fail_document_def fail_job_def
    go_to_def set_job_def set_document_def Let_def split: option.split\<close>)

lemma abandoned_requests:
  assumes "index_ok k" and "abandoned i k"
  shows "abandoned i (index_step decode e k)"
proof (cases e)
  case (Upload b title ty content l tags saved)
  obtain j where j: "od_get (kn_jobs k) i = Some j" using assms(2) by (auto simp: abandoned_def)
  then have "i < kn_next k" using index_okD(3) [OF assms(1) j] by (simp add: job_ok_def)
  then show ?thesis using assms(2) Upload
    by (auto simp: abandoned_def upload_document_def Let_def split: option.splits)
next
  case (WorkerStep reply ok)
  then show ?thesis using abandoned_worker [OF assms] by simp
qed (use assms(2) in \<open>auto simp: abandoned_def go_to_def create_knowledge_base_def update_knowledge_base_def
    soft_delete_knowledge_base_def update_document_def soft_delete_document_def split: option.splits sum.splits\<close>)

lemma abandoned_job_stays:
  assumes "k = fold (index_step decode) es (index_init cs)" and "abandoned i k"
  shows "abandoned i (fold (index_step decode) es' k)"
proof -
  have "index_ok k" using index.inv_run assms(1) by simp
  then show ?thesis using assms(2)
    by (induction es' arbitrary: k) (auto intro: abandoned_requests index_ok_step)
qed

lemma crash_abandons:
  "abandoned 2 (fold (index_step Some) (take 3 one_upload @ [WorkerCrash]) (index_init []))"
  unfolding abandoned_def by (rule conjI, rule exI [of _ "\<lparr>jb_document = 1, jb_kb = 0, jb_status = JOB_RUNNING, jb_error = None, jb_attempts = 1\<rparr>"], code_simp) (simp add: go_to_def)

text \<open>
  The mode that is written at the end is the one the worker read at the start: an administrator's choice in
  between is undone.
\<close>

lemma mode_reset_by_worker:
  assumes "kn_worker k = Storing i r cs vs mode" and "od_get (kn_documents k) (document_of i k) = Some x"
    and "\<forall>y\<in>set (chunk_rows (document_of i k) (base_of i k) r cs vs). vector_fits (ck_vector y)"
  shows "let k' = worker_step decode reply True (snd (update_document (document_of i k) [SetMode (Some ''prompt'')] k)) in
    map_option dc_mode (od_get (kn_documents k') (document_of i k)) = Some mode"
  using assms
  by (simp add: worker_step_def update_document_def store_chunks_def document_of_def base_of_def go_to_def set_job_def
      set_document_def Let_def)

section \<open>Every round settles a job\<close>

definition pending_jobs :: "index \<Rightarrow> nat list" where
  "pending_jobs k = map fst (filter (\<lambda>p. jb_status (snd p) = JOB_PENDING) (kn_jobs k))"





lemma pending_other [simp]:
  "pending_jobs (go_to w k) = pending_jobs k" "pending_jobs (set_document d g k) = pending_jobs k"
  "pending_jobs (k\<lparr>kn_chunks := xs\<rparr>) = pending_jobs k"
  by (simp_all add: pending_jobs_def go_to_def set_document_def)

















end
