(* ===== verification/Knowledge_Retrieval.thy ===== *)
theory Knowledge_Retrieval
  imports Knowledge_Index Service_Client
begin

text \<open>
  What an agent is given to know (\<^verbatim>\<open>services/knowledge\<close>: \<^verbatim>\<open>retrieval.py\<close>, \<^verbatim>\<open>vector_repository.py\<close>,
  \<^verbatim>\<open>agent_kb.py\<close>, \<^verbatim>\<open>retrieval_policies.py\<close>; \<^verbatim>\<open>libs/knowledge_sdk\<close>): which bases are attached to an agent, the
  flag in Redis that says whether there are any, the policy, the search and the choice of chunks.

  A retrieval is read at one moment. The embedding of a query and the distance of two vectors are
  arguments; the vector index is taken to be exact, and rows that SQL leaves unordered come in the order
  of their tables. Of a chunk the fields that decide something are kept. The flags \<^verbatim>\<open>rerank\<close> and
  \<^verbatim>\<open>hybrid_search\<close> are only passed on by the code and are left out.
\<close>

section \<open>State\<close>

record agent_ref =
  ka_tenant :: nat
  ka_tenant_slug :: string
  ka_slug :: string
  ka_gone :: bool

record retrieval_row =
  po_top_k :: "int option"
  po_max_tokens :: "int option"
  po_minimum_score :: "rat option"
  po_citations :: "bool option"

record kb_service =
  ks_index :: index
  ks_agents :: "(nat, agent_ref) odict"
  ks_assigned :: "(nat \<times> nat, bool) odict"
  ks_policies :: "(nat, retrieval_row) odict"
  ks_flags :: "(string \<times> string, bool) odict"

definition service_init :: "(nat, bool) odict \<Rightarrow> (nat, agent_ref) odict \<Rightarrow> kb_service" where
  "service_init configs agents =
     \<lparr>ks_index = index_init configs, ks_agents = agents, ks_assigned = [], ks_policies = [], ks_flags = []\<rparr>"

section \<open>Attaching bases\<close>

text \<open>\<^verbatim>\<open>kb.deleted_at IS NULL AND kb.status = 'active'\<close>\<close>

definition usable_base :: "nat \<Rightarrow> kb_service \<Rightarrow> base_row option" where
  "usable_base b s =
     (case od_get (kn_bases (ks_index s)) b of
        Some r \<Rightarrow> if kb_deleted r \<or> \<not> kb_active r then None else Some r
      | None \<Rightarrow> None)"

definition has_kb :: "nat \<Rightarrow> kb_service \<Rightarrow> bool" where
  "has_kb a s \<longleftrightarrow> (\<exists>p\<in>set (ks_assigned s). fst (fst p) = a \<and> snd p \<and> usable_base (snd (fst p)) s \<noteq> None)"

text \<open>\<open>up\<close> tells whether Redis takes the write.\<close>

definition refresh_flag :: "bool \<Rightarrow> nat \<Rightarrow> kb_service \<Rightarrow> kb_service" where
  "refresh_flag up a s =
     (case od_get (ks_agents s) a of
        None \<Rightarrow> s
      | Some r \<Rightarrow>
          if up then s\<lparr>ks_flags := od_set (ka_tenant_slug r, ka_slug r) (has_kb a s) (ks_flags s)\<rparr> else s)"

text \<open>The foreign keys refuse an agent or a base that does not exist.\<close>

definition assign :: "bool \<Rightarrow> nat \<Rightarrow> nat \<Rightarrow> bool \<Rightarrow> kb_service \<Rightarrow> kb_service" where
  "assign up a b enabled s =
     (if od_get (ks_agents s) a = None \<or> od_get (kn_bases (ks_index s)) b = None then s
      else refresh_flag up a (s\<lparr>ks_assigned := od_set (a, b) enabled (ks_assigned s)\<rparr>))"

definition set_enabled :: "bool \<Rightarrow> nat \<Rightarrow> nat \<Rightarrow> bool \<Rightarrow> kb_service \<Rightarrow> kb_service" where
  "set_enabled up a b enabled s =
     (if od_get (ks_assigned s) (a, b) = None then s
      else refresh_flag up a (s\<lparr>ks_assigned := od_set (a, b) enabled (ks_assigned s)\<rparr>))"

definition detach :: "bool \<Rightarrow> nat \<Rightarrow> nat \<Rightarrow> kb_service \<Rightarrow> kb_service" where
  "detach up a b s = refresh_flag up a (s\<lparr>ks_assigned := od_del (a, b) (ks_assigned s)\<rparr>)"

definition upsert_policy :: "nat \<Rightarrow> (retrieval_row \<Rightarrow> retrieval_row) \<Rightarrow> kb_service \<Rightarrow> kb_service" where
  "upsert_policy a f s =
     (if od_get (ks_agents s) a = None then s
      else
        let old = (case od_get (ks_policies s) a of
            Some p \<Rightarrow> p
          | None \<Rightarrow> \<lparr>po_top_k = None, po_max_tokens = None, po_minimum_score = None, po_citations = None\<rparr>)
        in s\<lparr>ks_policies := od_set a (f old) (ks_policies s)\<rparr>)"

section \<open>What may be retrieved\<close>

definition is_agent :: "string \<Rightarrow> string \<Rightarrow> agent_ref \<Rightarrow> bool" where
  "is_agent t a r \<longleftrightarrow> ka_tenant_slug r = t \<and> ka_slug r = a \<and> \<not> ka_gone r"

text \<open>The joined rows of an agent, its enabled assignments and the usable bases.\<close>

definition attached_row :: "string \<Rightarrow> string \<Rightarrow> kb_service \<Rightarrow> (nat \<times> nat) \<times> bool \<Rightarrow> (nat \<times> base_row) list" where
  "attached_row t a s p =
     (case (od_get (ks_agents s) (fst (fst p)), usable_base (snd (fst p)) s) of
        (Some r, Some base) \<Rightarrow> if snd p \<and> is_agent t a r then [(snd (fst p), base)] else []
      | _ \<Rightarrow> [])"

definition attached :: "string \<Rightarrow> string \<Rightarrow> kb_service \<Rightarrow> (nat \<times> base_row) list" where
  "attached t a s = concat (map (attached_row t a s) (ks_assigned s))"

definition agent_enabled_kb_ids :: "string \<Rightarrow> string \<Rightarrow> kb_service \<Rightarrow> nat list" where
  "agent_enabled_kb_ids t a s = map fst (attached t a s)"

definition has_enabled_kb :: "string \<Rightarrow> string \<Rightarrow> kb_service \<Rightarrow> bool" where
  "has_enabled_kb t a s \<longleftrightarrow> attached t a s \<noteq> []"

text \<open>\<^verbatim>\<open>groups.setdefault(config, []).append(kb)\<close> over the bases that have an embedding configuration.\<close>

fun add_groups :: "(nat \<times> base_row) list \<Rightarrow> (nat, nat list) odict \<Rightarrow> (nat, nat list) odict" where
  "add_groups [] g = g"
| "add_groups ((b, r) # bs) g =
     (case kb_config r of
        None \<Rightarrow> add_groups bs g
      | Some c \<Rightarrow> add_groups bs (od_set c ((case od_get g c of Some ids \<Rightarrow> ids | None \<Rightarrow> []) @ [b]) g))"

definition agent_kb_groups :: "string \<Rightarrow> string \<Rightarrow> kb_service \<Rightarrow> (nat, nat list) odict" where
  "agent_kb_groups t a s = add_groups (attached t a s) []"

section \<open>The policy\<close>

record retrieval_policy =
  rp_top_k :: int
  rp_max_tokens :: int
  rp_minimum_score :: rat
  rp_citations :: bool

definition SYSTEM_DEFAULT_POLICY :: retrieval_policy where
  "SYSTEM_DEFAULT_POLICY = \<lparr>rp_top_k = 5, rp_max_tokens = 1000, rp_minimum_score = 0, rp_citations = True\<rparr>"

definition agent_id_for :: "string \<Rightarrow> string \<Rightarrow> kb_service \<Rightarrow> nat option" where
  "agent_id_for t a s = (case filter (\<lambda>p. is_agent t a (snd p)) (ks_agents s) of [] \<Rightarrow> None | p # _ \<Rightarrow> Some (fst p))"

definition first_of :: "'a option \<Rightarrow> 'a option \<Rightarrow> 'a \<Rightarrow> 'a" where
  "first_of override configured fallback =
     (case override of Some v \<Rightarrow> v | None \<Rightarrow> (case configured of Some v \<Rightarrow> v | None \<Rightarrow> fallback))"

definition resolve_policy :: "string \<Rightarrow> string \<Rightarrow> retrieval_row \<Rightarrow> kb_service \<Rightarrow> retrieval_policy" where
  "resolve_policy t a overrides s =
     (let row = Option.bind (agent_id_for t a s) (od_get (ks_policies s)) in
      \<lparr>rp_top_k = first_of (po_top_k overrides) (Option.bind row po_top_k) (rp_top_k SYSTEM_DEFAULT_POLICY),
       rp_max_tokens = first_of (po_max_tokens overrides) (Option.bind row po_max_tokens) (rp_max_tokens SYSTEM_DEFAULT_POLICY),
       rp_minimum_score =
         first_of (po_minimum_score overrides) (Option.bind row po_minimum_score) (rp_minimum_score SYSTEM_DEFAULT_POLICY),
       rp_citations = first_of (po_citations overrides) (Option.bind row po_citations) (rp_citations SYSTEM_DEFAULT_POLICY)\<rparr>)"

section \<open>Matches\<close>

record vmatch =
  vm_document :: nat
  vm_kb :: nat
  vm_content :: string
  vm_score :: rat
  vm_tokens :: nat
  vm_title :: string

text \<open>The documents that are always included, their chunks put together in order.\<close>

definition prompt_match :: "index \<Rightarrow> nat list \<Rightarrow> nat \<times> document \<Rightarrow> vmatch list" where
  "prompt_match k kbs p =
     (let xs = sort_key ck_index (filter (\<lambda>x. ck_document x = fst p \<and> ck_kb x \<in> set kbs) (kn_chunks k)) in
      if xs = [] \<or> dc_deleted (snd p) \<or> dc_mode (snd p) \<noteq> MODE_PROMPT \<or> dc_status (snd p) \<noteq> DOC_READY then []
      else [\<lparr>vm_document = fst p, vm_kb = ck_kb (hd xs), vm_content = py_join '' '' (map ck_content xs), vm_score = 1,
             vm_tokens = sum_list (map ck_tokens xs), vm_title = dc_title (snd p)\<rparr>])"

definition fetch_prompt_mode_matches :: "nat list \<Rightarrow> kb_service \<Rightarrow> vmatch list" where
  "fetch_prompt_mode_matches kbs s =
     (if kbs = [] then [] else concat (map (prompt_match (ks_index s) kbs) (kn_documents (ks_index s))))"

datatype retrieve_error = EmbeddingConfigGone nat | QueryNotEmbedded | BadLimit

text \<open>The rows of the similarity query with their distances.\<close>

definition search_row ::
  "(rat list \<Rightarrow> rat list \<Rightarrow> rat) \<Rightarrow> nat list \<Rightarrow> rat list \<Rightarrow> index \<Rightarrow> chunk_row \<Rightarrow> (rat \<times> vmatch) list" where
  "search_row distance kbs q k x =
     (case (od_get (kn_documents k) (ck_document x), ck_vector x) of
        (Some d, Some v) \<Rightarrow>
          if ck_kb x \<in> set kbs \<and> \<not> dc_deleted d \<and> dc_mode d = MODE_AUTO
          then [(distance v q,
                 \<lparr>vm_document = ck_document x, vm_kb = ck_kb x, vm_content = ck_content x, vm_score = 1 - distance v q,
                  vm_tokens = ck_tokens x, vm_title = dc_title d\<rparr>)]
          else []
      | _ \<Rightarrow> [])"

definition search_rows :: "(rat list \<Rightarrow> rat list \<Rightarrow> rat) \<Rightarrow> nat list \<Rightarrow> rat list \<Rightarrow> index \<Rightarrow> (rat \<times> vmatch) list" where
  "search_rows distance kbs q k =
     concat (map (search_row distance kbs q k) (kn_chunks k))"

definition search :: "(rat list \<Rightarrow> rat list \<Rightarrow> rat) \<Rightarrow> nat list \<Rightarrow> rat list \<Rightarrow> int \<Rightarrow> rat \<Rightarrow> index \<Rightarrow> retrieve_error + vmatch list" where
  "search distance kbs q top_k min_score k =
     (if kbs = [] then Inr []
      else if top_k < 0 then Inl BadLimit
      else Inr (filter (\<lambda>m. vm_score m \<ge> min_score)
             (map snd (take (nat top_k) (sort_key fst (search_rows distance kbs q k))))))"

text \<open>One search per embedding configuration; \<open>embedded\<close> is the query as that configuration's service embeds it.\<close>

fun search_groups ::
  "(rat list \<Rightarrow> rat list \<Rightarrow> rat) \<Rightarrow> (nat \<Rightarrow> rat list option) \<Rightarrow> retrieval_policy \<Rightarrow> index \<Rightarrow> (nat, nat list) odict \<Rightarrow>
   retrieve_error + vmatch list" where
  "search_groups distance embedded p k [] = Inr []"
| "search_groups distance embedded p k ((c, kbs) # gs) =
     (if od_get (kn_configs k) c \<noteq> Some True then Inl (EmbeddingConfigGone c)
      else case embedded c of
        None \<Rightarrow> Inl QueryNotEmbedded
      | Some q \<Rightarrow>
          (case search distance kbs q (rp_top_k p) (rp_minimum_score p) k of
             Inl e \<Rightarrow> Inl e
           | Inr ms \<Rightarrow>
               (case search_groups distance embedded p k gs of Inl e \<Rightarrow> Inl e | Inr rest \<Rightarrow> Inr (ms @ rest))))"

section \<open>The choice\<close>

text \<open>\<^verbatim>\<open>m.token_count or _approx_token_count(m.content)\<close>\<close>

definition tokens_of :: "vmatch \<Rightarrow> int" where
  "tokens_of m = int (if vm_tokens m = 0 then length (split_words (vm_content m)) else vm_tokens m)"

definition total_tokens :: "vmatch list \<Rightarrow> int" where
  "total_tokens ms = sum_list (map tokens_of ms)"

text \<open>The loop over the ranked matches; \<open>any\<close> tells whether something is selected already.\<close>

fun select_within :: "int \<Rightarrow> bool \<Rightarrow> vmatch list \<Rightarrow> vmatch list" where
  "select_within budget any [] = []"
| "select_within budget any (m # ms) =
     (if any \<and> budget - tokens_of m < 0 then [] else m # select_within (budget - tokens_of m) True ms)"

text \<open>\<^verbatim>\<open>xs[:k]\<close>\<close>

definition py_take :: "int \<Rightarrow> 'a list \<Rightarrow> 'a list" where
  "py_take k xs = (if 0 \<le> k then take (nat k) xs else take (length xs - nat (- k)) xs)"

fun first_occurrences :: "'a list \<Rightarrow> 'a list \<Rightarrow> 'a list" where
  "first_occurrences seen [] = []"
| "first_occurrences seen (x # xs) =
     (if x \<in> set seen then first_occurrences seen xs else x # first_occurrences (x # seen) xs)"

record retrieved =
  rt_chunks :: "vmatch list"
  rt_sources :: "string list"
  rt_token_count :: int
  rt_citations :: bool
  rt_candidates :: nat
  rt_groups :: nat
  rt_always :: nat

definition retrieve ::
  "(rat list \<Rightarrow> rat list \<Rightarrow> rat) \<Rightarrow> (nat \<Rightarrow> rat list option) \<Rightarrow> string \<Rightarrow> string \<Rightarrow> retrieval_row \<Rightarrow> kb_service \<Rightarrow>
   retrieve_error + retrieved option" where
  "retrieve distance embedded t a overrides s =
     (let p = resolve_policy t a overrides s; kbs = agent_enabled_kb_ids t a s in
      if kbs = [] then Inr None
      else
        let always = fetch_prompt_mode_matches kbs s; groups = agent_kb_groups t a s in
        case search_groups distance embedded p (ks_index s) groups of
          Inl e \<Rightarrow> Inl e
        | Inr found \<Rightarrow>
            if always = [] \<and> found = [] then Inr None
            else
              let ranked = sort_key (\<lambda>m. - vm_score m) found;
                  selected = always @
                    select_within (rp_max_tokens p - total_tokens always) (always \<noteq> []) (py_take (rp_top_k p) ranked)
              in if selected = [] then Inr None
                 else Inr (Some \<lparr>rt_chunks = selected, rt_sources = first_occurrences [] (map vm_title selected),
                    rt_token_count = total_tokens selected, rt_citations = rp_citations p,
                    rt_candidates = length found, rt_groups = length groups, rt_always = length always\<rparr>))"

section \<open>The client\<close>

text \<open>\<^verbatim>\<open>has_enabled_kb\<close> and \<^verbatim>\<open>retrieve\<close> of the repositories: what the two routes answer.\<close>

definition has_knowledge_route :: "string \<Rightarrow> string \<Rightarrow> kb_service \<Rightarrow> bool reply" where
  "has_knowledge_route t a s = Answer 200 (has_enabled_kb t a s)"

definition retrieve_route :: "retrieve_error + retrieved option \<Rightarrow> retrieved option reply" where
  "retrieve_route r =
     (case r of
        Inr None \<Rightarrow> Answer 404 None
      | Inr (Some x) \<Rightarrow> Answer 200 (Some x)
      | Inl (EmbeddingConfigGone c) \<Rightarrow> Answer 400 None
      | Inl e \<Rightarrow> Answer 500 None)"

datatype turn_context = NoContext | Context retrieved | TurnError

text \<open>
  \<^verbatim>\<open>CacheAsideKnowledgeProvider.retrieve\<close>: the flag in Redis, on a miss the service, then the retrieval. An
  error of the transport that is not the library's own leaves the function.
\<close>

definition provider_retrieve ::
  "bool option \<Rightarrow> (client_error + bool option) \<Rightarrow> (client_error + retrieved option option) \<Rightarrow> turn_context" where
  "provider_retrieve flag has_http retrieve_http =
     (case (case flag of
          Some b \<Rightarrow> Inr b
        | None \<Rightarrow> (case has_http of Inl e \<Rightarrow> Inl e | Inr None \<Rightarrow> Inr False | Inr (Some b) \<Rightarrow> Inr b)) of
        Inl RepositoryUnavailable \<Rightarrow> NoContext
      | Inl TransportFailure \<Rightarrow> TurnError
      | Inr False \<Rightarrow> NoContext
      | Inr True \<Rightarrow>
          (case retrieve_http of
             Inl RepositoryUnavailable \<Rightarrow> NoContext
           | Inl TransportFailure \<Rightarrow> TurnError
           | Inr (Some (Some r)) \<Rightarrow> Context r
           | Inr _ \<Rightarrow> NoContext))"

text \<open>The whole path with a service that answers a signed-in client; \<open>redis_up\<close> tells whether Redis answers.\<close>

definition ask_knowledge ::
  "bool \<Rightarrow> (rat list \<Rightarrow> rat list \<Rightarrow> rat) \<Rightarrow> (nat \<Rightarrow> rat list option) \<Rightarrow> string \<Rightarrow> string \<Rightarrow> retrieval_row \<Rightarrow> kb_service \<Rightarrow> turn_context" where
  "ask_knowledge redis_up distance embedded t a overrides s =
     provider_retrieve
       (if redis_up then od_get (ks_flags s) (t, a) else None)
       (fst (client_request Unreachable Unreachable (has_knowledge_route t a s) Unreachable (Some [])))
       (fst (client_request Unreachable Unreachable (retrieve_route (retrieve distance embedded t a overrides s)) Unreachable (Some [])))"

section \<open>Events\<close>

datatype kb_event =
    Assign bool nat nat bool
  | SetEnabled bool nat nat bool
  | Detach bool nat nat
  | UpsertPolicy nat "retrieval_row \<Rightarrow> retrieval_row"
  | AgentGone nat
  | InIndex index_event

fun kb_step :: "(string \<Rightarrow> string option) \<Rightarrow> kb_event \<Rightarrow> kb_service \<Rightarrow> kb_service" where
  "kb_step decode (Assign up a b e) s = assign up a b e s"
| "kb_step decode (SetEnabled up a b e) s = set_enabled up a b e s"
| "kb_step decode (Detach up a b) s = detach up a b s"
| "kb_step decode (UpsertPolicy a f) s = upsert_policy a f s"
| "kb_step decode (AgentGone a) s = s\<lparr>ks_agents := od_update a (\<lambda>r. r\<lparr>ka_gone := True\<rparr>) (ks_agents s)\<rparr>"
| "kb_step decode (InIndex e) s = s\<lparr>ks_index := index_step decode e (ks_index s)\<rparr>"

section \<open>What a retrieval returns\<close>

lemma tokens_nonneg [simp]: "0 \<le> tokens_of m"
  by (simp add: tokens_of_def)

lemma total_tokens_simps [simp]:
  "total_tokens [] = 0" "total_tokens (m # ms) = tokens_of m + total_tokens ms"
  "total_tokens (ms @ ns) = total_tokens ms + total_tokens ns"
  by (simp_all add: total_tokens_def)

lemma select_within_prefix: "\<exists>n. select_within b any ms = take n ms"
proof (induction b any ms rule: select_within.induct)
  case (2 b any m ms)
  show ?case
  proof (cases "any \<and> b - tokens_of m < 0")
    case False
    then obtain n where "select_within (b - tokens_of m) True ms = take n ms" using 2 by auto
    then have "select_within b any (m # ms) = take (Suc n) (m # ms)" using False by simp
    then show ?thesis by blast
  qed (simp add: exI [of _ 0])
qed simp

lemma select_within_budget:
  "select_within b any ms = [] \<or> total_tokens (select_within b any ms) \<le> b \<or> \<not> any \<and> length (select_within b any ms) = 1"
proof (induction b any ms rule: select_within.induct)
  case (2 b any m ms)
  show ?case
  proof (cases "any \<and> b - tokens_of m < 0")
    case False
    then have ih: "select_within (b - tokens_of m) True ms = [] \<or>
        total_tokens (select_within (b - tokens_of m) True ms) \<le> b - tokens_of m" using 2 by auto
    then show ?thesis using False by auto
  qed auto
qed simp

lemma add_groups_kbs:
  "(c, ids) \<in> set (add_groups bs g) \<Longrightarrow> \<forall>(c, ids)\<in>set g. ids \<noteq> [] \<and> set ids \<subseteq> A \<Longrightarrow> fst ` set bs \<subseteq> A \<Longrightarrow> od_ok g \<Longrightarrow>
    ids \<noteq> [] \<and> set ids \<subseteq> A"
proof (induction bs g rule: add_groups.induct)
  case (2 b r bs g)
  show ?case
  proof (cases "kb_config r")
    case None
    then show ?thesis using 2 by simp
  next
    case (Some e)
    obtain old where old: "old = (case od_get g e of Some ids \<Rightarrow> ids | None \<Rightarrow> [])" by simp
    have sub: "set old \<subseteq> A"
    proof (cases "od_get g e")
      case (Some ids)
      then have "(e, ids) \<in> set g" by (simp add: od_get_def map_of_SomeD)
      then show ?thesis using 2(4) Some old by auto
    qed (simp add: old)
    have "\<forall>(c, ids)\<in>set (od_set e (old @ [b]) g). ids \<noteq> [] \<and> set ids \<subseteq> A"
    proof (clarify)
      fix c x assume "(c, x) \<in> set (od_set e (old @ [b]) g)"
      moreover have "od_ok (od_set e (old @ [b]) g)" using 2(6) by simp
      ultimately have "od_get (od_set e (old @ [b]) g) c = Some x" by (simp only: od_get_def map_of_is_SomeI)
      then have "c = e \<and> x = old @ [b] \<or> od_get g c = Some x" by (simp split: if_splits)
      then have "c = e \<and> x = old @ [b] \<or> (c, x) \<in> set g" by (auto simp: od_get_def dest: map_of_SomeD)
      then show "x \<noteq> [] \<and> set x \<subseteq> A" using sub 2(4,5) by auto
    qed
    moreover have "add_groups ((b, r) # bs) g = add_groups bs (od_set e (old @ [b]) g)" using Some old by simp
    moreover have "od_ok (od_set e (old @ [b]) g)" using 2(6) by simp
    ultimately show ?thesis using 2(2) [OF Some] 2(3,5) old by simp
  qed
qed auto

lemma groups_kbs:
  assumes "(c, ids) \<in> set (agent_kb_groups t a s)"
  shows "ids \<noteq> []" and "set ids \<subseteq> set (agent_enabled_kb_ids t a s)"
  using add_groups_kbs [OF assms [unfolded agent_kb_groups_def], of "set (agent_enabled_kb_ids t a s)"]
  by (auto simp: agent_enabled_kb_ids_def)

lemma search_row_found:
  assumes "x \<in> set (search_row distance kbs q i c)"
  shows "vm_kb (snd x) \<in> set kbs" and
    "\<exists>d. od_get (kn_documents i) (vm_document (snd x)) = Some d \<and> \<not> dc_deleted d \<and> dc_mode d = MODE_AUTO"
proof -
  obtain d v where "od_get (kn_documents i) (ck_document c) = Some d" "ck_vector c = Some v"
      "ck_kb c \<in> set kbs \<and> \<not> dc_deleted d \<and> dc_mode d = MODE_AUTO"
    using assms
    by (cases "od_get (kn_documents i) (ck_document c)"; cases "ck_vector c") (auto simp: search_row_def split: if_splits)
  then show "vm_kb (snd x) \<in> set kbs"
    "\<exists>d. od_get (kn_documents i) (vm_document (snd x)) = Some d \<and> \<not> dc_deleted d \<and> dc_mode d = MODE_AUTO"
    using assms by (auto simp: search_row_def)
qed

lemma search_found:
  assumes "search distance kbs q k l i = Inr ms" and "m \<in> set ms"
  shows "l \<le> vm_score m" and "vm_kb m \<in> set kbs" and
    "\<exists>d. od_get (kn_documents i) (vm_document m) = Some d \<and> \<not> dc_deleted d \<and> dc_mode d = MODE_AUTO"
proof -
  obtain x where x: "x \<in> set (search_rows distance kbs q i)" "m = snd x" "l \<le> vm_score m"
    using assms by (auto simp: search_def split: if_splits dest!: in_set_takeD)
  show "l \<le> vm_score m" by (rule x(3))
  show "vm_kb m \<in> set kbs" "\<exists>d. od_get (kn_documents i) (vm_document m) = Some d \<and> \<not> dc_deleted d \<and> dc_mode d = MODE_AUTO"
    using x(1,2) search_row_found [of x distance kbs q i] by (auto simp: search_rows_def)
qed

lemma search_groups_found:
  assumes "search_groups distance embedded p i gs = Inr ms" and "m \<in> set ms"
  shows "\<exists>c kbs q found. (c, kbs) \<in> set gs \<and> search distance kbs q (rp_top_k p) (rp_minimum_score p) i = Inr found \<and> m \<in> set found"
  using assms
proof (induction gs arbitrary: ms)
  case (Cons g gs)
  obtain c kbs where g: "g = (c, kbs)" by (cases g)
  obtain q found rest where q: "search distance kbs q (rp_top_k p) (rp_minimum_score p) i = Inr found"
      "search_groups distance embedded p i gs = Inr rest" "ms = found @ rest"
    using Cons.prems(1) g by (auto split: if_splits option.splits sum.splits)
  show ?case
  proof (cases "m \<in> set found")
    case True
    have "(c, kbs) \<in> set (g # gs)" using g by simp
    then show ?thesis using q(1) True by blast
  next
    case False
    then have "m \<in> set rest" using Cons.prems(2) q(3) by simp
    from Cons.IH [OF q(2) this] show ?thesis by auto
  qed
qed simp

lemma retrieve_parts:
  assumes "retrieve distance embedded t a ov s = Inr (Some r)"
  obtains always found where "always = fetch_prompt_mode_matches (agent_enabled_kb_ids t a s) s"
    "search_groups distance embedded (resolve_policy t a ov s) (ks_index s) (agent_kb_groups t a s) = Inr found"
    "agent_enabled_kb_ids t a s \<noteq> []"
    "rt_chunks r = always @ select_within (rp_max_tokens (resolve_policy t a ov s) - total_tokens always) (always \<noteq> [])
       (py_take (rp_top_k (resolve_policy t a ov s)) (sort_key (\<lambda>m. - vm_score m) found))"
    "rt_token_count r = total_tokens (rt_chunks r)"
  using assms by (auto simp: retrieve_def Let_def split: if_splits sum.splits)

lemma py_take_subset: "set (py_take k xs) \<subseteq> set xs"
  by (auto simp: py_take_def dest: in_set_takeD)

lemma py_take_prefix: "\<exists>m. py_take k xs = take m xs"
  unfolding py_take_def by (cases "0 \<le> k") (simp_all only: if_True if_False, rule exI, rule refl, rule exI, rule refl)

lemma negative_limit_finds_nothing:
  assumes "search_groups distance embedded p i gs = Inr found" and "rp_top_k p < 0" and "\<forall>(c, kbs)\<in>set gs. kbs \<noteq> []"
  shows "found = []"
  using assms by (cases gs) (auto simp: search_def split: if_splits option.splits)

lemma sorted_take_key: "sorted (map f (take n (sort_key f xs)))"
  by (simp add: sorted_wrt_take take_map [symmetric])

text \<open>
  A retrieval keeps to its policy: it returns the documents that are always included and after them
  at most \<open>top_k\<close> ranked chunks in descending order, none below the minimum score, and the words it counts stay
  within the budget unless no ranked chunk was added, or it is a single chunk on its own.
\<close>

theorem retrieved_within_policy:
  assumes "retrieve distance embedded t a ov s = Inr (Some r)"
  shows "let p = resolve_policy t a ov s; always = fetch_prompt_mode_matches (agent_enabled_kb_ids t a s) s in
    \<exists>ranked. rt_chunks r = always @ ranked \<and> length ranked \<le> nat (rp_top_k p) \<and>
      sorted (map (\<lambda>m. - vm_score m) ranked) \<and> (\<forall>m\<in>set ranked. rp_minimum_score p \<le> vm_score m) \<and>
      rt_token_count r = total_tokens (rt_chunks r) \<and>
      (rt_token_count r \<le> rp_max_tokens p \<or> ranked = [] \<or> always = [] \<and> length ranked = 1)"
proof -
  let ?p = "resolve_policy t a ov s"
  obtain always found where r: "always = fetch_prompt_mode_matches (agent_enabled_kb_ids t a s) s"
    "search_groups distance embedded ?p (ks_index s) (agent_kb_groups t a s) = Inr found"
    "rt_chunks r = always @ select_within (rp_max_tokens ?p - total_tokens always) (always \<noteq> [])
       (py_take (rp_top_k ?p) (sort_key (\<lambda>m. - vm_score m) found))"
    "rt_token_count r = total_tokens (rt_chunks r)"
    by (rule retrieve_parts [OF assms])
  let ?top = "py_take (rp_top_k ?p) (sort_key (\<lambda>m. - vm_score m) found)"
  let ?sel = "select_within (rp_max_tokens ?p - total_tokens always) (always \<noteq> []) ?top"
  obtain n where n: "?sel = take n ?top" using select_within_prefix by blast
  have "length ?top \<le> nat (rp_top_k ?p)"
  proof (cases "0 \<le> rp_top_k ?p")
    case False
    moreover have "\<forall>(c, kbs)\<in>set (agent_kb_groups t a s). kbs \<noteq> []" using groups_kbs(1) by blast
    ultimately have "found = []" using negative_limit_finds_nothing [OF r(2)] by simp
    then show ?thesis by (simp add: py_take_def)
  qed (simp add: py_take_def)
  then have len: "length ?sel \<le> nat (rp_top_k ?p)" using n by simp
  obtain m where top: "?top = take m (sort_key (\<lambda>m. - vm_score m) found)" using py_take_prefix by blast
  have "?sel = take (min n m) (sort_key (\<lambda>m. - vm_score m) found)" using n top by (simp only: take_take)
  then have sorted: "sorted (map (\<lambda>m. - vm_score m) ?sel)" by (simp only: sorted_take_key)
  have score: "rp_minimum_score ?p \<le> vm_score m" if "m \<in> set ?sel" for m
  proof -
    have "m \<in> set found" using that n py_take_subset [of "rp_top_k ?p" "sort_key (\<lambda>m. - vm_score m) found"]
      by (auto dest: in_set_takeD)
    then show ?thesis using search_groups_found [OF r(2)] search_found(1) by blast
  qed
  have budget: "rt_token_count r \<le> rp_max_tokens ?p \<or> ?sel = [] \<or> always = [] \<and> length ?sel = 1"
    using select_within_budget [of "rp_max_tokens ?p - total_tokens always" "always \<noteq> []" ?top] r(3,4) by auto
  show ?thesis unfolding Let_def using r(1,3,4) len sorted score budget by (intro exI [of _ ?sel]) simp
qed

lemma attached_rows:
  assumes "b \<in> set (agent_enabled_kb_ids t a s)"
  shows "\<exists>i r base. ((i, b), True) \<in> set (ks_assigned s) \<and> od_get (ks_agents s) i = Some r \<and> is_agent t a r \<and>
    usable_base b s = Some base"
proof -
  obtain p where p: "p \<in> set (ks_assigned s)" "b \<in> fst ` set (attached_row t a s p)"
    using assms by (auto simp: agent_enabled_kb_ids_def attached_def)
  obtain i b' e where eq: "p = ((i, b'), e)" by (metis prod.exhaust)
  obtain r base where "od_get (ks_agents s) i = Some r" "usable_base b' s = Some base" "e \<and> is_agent t a r" "b = b'"
    using p(2) eq by (cases "od_get (ks_agents s) i"; cases "usable_base b' s") (auto simp: attached_row_def split: if_splits)
  then show ?thesis using p(1) eq by auto
qed

lemma prompt_match_rows:
  assumes "m \<in> set (fetch_prompt_mode_matches kbs s)"
  shows "vm_kb m \<in> set kbs" and "\<exists>d. (vm_document m, d) \<in> set (kn_documents (ks_index s)) \<and> \<not> dc_deleted d \<and>
    dc_mode d = MODE_PROMPT \<and> dc_status d = DOC_READY"
proof -
  obtain p where p: "p \<in> set (kn_documents (ks_index s))" "m \<in> set (prompt_match (ks_index s) kbs p)"
    using assms by (auto simp: fetch_prompt_mode_matches_def split: if_splits)
  let ?xs = "sort_key ck_index (filter (\<lambda>x. ck_document x = fst p \<and> ck_kb x \<in> set kbs) (kn_chunks (ks_index s)))"
  have "?xs \<noteq> []" "vm_kb m = ck_kb (hd ?xs)" using p(2) by (auto simp: prompt_match_def Let_def split: if_splits)
  then have "hd ?xs \<in> set ?xs" by (intro hd_in_set)
  then show "vm_kb m \<in> set kbs" unfolding \<open>vm_kb m = ck_kb (hd ?xs)\<close> by auto
  show "\<exists>d. (vm_document m, d) \<in> set (kn_documents (ks_index s)) \<and> \<not> dc_deleted d \<and> dc_mode d = MODE_PROMPT \<and> dc_status d = DOC_READY"
    using p by (intro exI [of _ "snd p"]) (auto simp: prompt_match_def Let_def split: if_splits)
qed

text \<open>
  C14. Nothing reaches an agent but what it may read: every chunk that is returned belongs to a base that is
  active, not deleted and attached, enabled, to a live agent of these names, and to a document that is not
  deleted: ready if it is always included, and otherwise in automatic mode.
\<close>

theorem retrieved_only_attached:
  assumes "retrieve distance embedded t a ov s = Inr (Some r)" and "m \<in> set (rt_chunks r)"
  shows "(\<exists>i ref base. ((i, vm_kb m), True) \<in> set (ks_assigned s) \<and> od_get (ks_agents s) i = Some ref \<and> is_agent t a ref \<and>
      usable_base (vm_kb m) s = Some base) \<and>
    (\<exists>d. (vm_document m, d) \<in> set (kn_documents (ks_index s)) \<and> \<not> dc_deleted d \<and>
      (dc_mode d = MODE_PROMPT \<and> dc_status d = DOC_READY \<or> dc_mode d = MODE_AUTO))"
proof -
  let ?p = "resolve_policy t a ov s"
  obtain always found where r: "always = fetch_prompt_mode_matches (agent_enabled_kb_ids t a s) s"
    "search_groups distance embedded ?p (ks_index s) (agent_kb_groups t a s) = Inr found"
    "rt_chunks r = always @ select_within (rp_max_tokens ?p - total_tokens always) (always \<noteq> [])
       (py_take (rp_top_k ?p) (sort_key (\<lambda>m. - vm_score m) found))"
    by (rule retrieve_parts [OF assms(1)])
  show ?thesis
  proof (cases "m \<in> set always")
    case True
    then show ?thesis using prompt_match_rows [of m] attached_rows r(1) by blast
  next
    case False
    then have "m \<in> set (select_within (rp_max_tokens ?p - total_tokens always) (always \<noteq> [])
       (py_take (rp_top_k ?p) (sort_key (\<lambda>m. - vm_score m) found)))" using assms(2) r(3) by simp
    then have "m \<in> set found"
      using select_within_prefix [of "rp_max_tokens ?p - total_tokens always" "always \<noteq> []"] py_take_subset
      by (metis in_mono in_set_takeD set_sort)
    then obtain c kbs q ms where f: "(c, kbs) \<in> set (agent_kb_groups t a s)"
        "search distance kbs q (rp_top_k ?p) (rp_minimum_score ?p) (ks_index s) = Inr ms" "m \<in> set ms"
      using search_groups_found [OF r(2)] by blast
    have "vm_kb m \<in> set (agent_enabled_kb_ids t a s)" using search_found(2) [OF f(2,3)] groups_kbs(2) [OF f(1)] by blast
    moreover obtain d where "od_get (kn_documents (ks_index s)) (vm_document m) = Some d" "\<not> dc_deleted d" "dc_mode d = MODE_AUTO"
      using search_found(3) [OF f(2,3)] by blast
    moreover from this have "(vm_document m, d) \<in> set (kn_documents (ks_index s))" by (simp add: od_get_def map_of_SomeD)
    ultimately show ?thesis using attached_rows by blast
  qed
qed

section \<open>The flag in Redis\<close>







lemma refresh_keeps [simp]:
  "ks_index (refresh_flag up a s) = ks_index s" "ks_agents (refresh_flag up a s) = ks_agents s"
  "ks_assigned (refresh_flag up a s) = ks_assigned s"
  by (simp_all add: refresh_flag_def split: option.split)



lemma worker_keeps_bases [simp]:
  "kn_bases (worker_step decode reply ok k) = kn_bases k" "kn_next (worker_step decode reply ok k) = kn_next k"
  by (auto simp: worker_step_def take_job_def mark_document_def prepare_def store_chunks_def fail_document_def fail_job_def
      go_to_def set_job_def set_document_def Let_def split: worker.split list.split option.split)









section \<open>A concrete service\<close>

definition two_agents :: "(nat, agent_ref) odict" where
  "two_agents =
     [(0, \<lparr>ka_tenant = 7, ka_tenant_slug = ''acme'', ka_slug = ''desk'', ka_gone = False\<rparr>),
      (1, \<lparr>ka_tenant = 8, ka_tenant_slug = ''rival'', ka_slug = ''desk'', ka_gone = False\<rparr>)]"

definition no_override :: retrieval_row where
  "no_override = \<lparr>po_top_k = None, po_max_tokens = None, po_minimum_score = None, po_citations = None\<rparr>"

definition indexed_service :: "kb_event list \<Rightarrow> kb_service" where
  "indexed_service es = fold (kb_step Some) (map InIndex one_upload @ es) (service_init [] two_agents)"

definition opening_hours :: retrieved where
  "opening_hours =
     \<lparr>rt_chunks = [\<lparr>vm_document = 1, vm_kb = 0, vm_content = ''open 9 to 5'', vm_score = 1, vm_tokens = 4, vm_title = ''Hours''\<rparr>],
      rt_sources = [''Hours''], rt_token_count = 4, rt_citations = True, rt_candidates = 0, rt_groups = 0, rt_always = 1\<rparr>"

lemma hours_retrieved:
  "retrieve (\<lambda>_ _. 0) (\<lambda>_. None) ''acme'' ''desk'' no_override (indexed_service [Assign True 0 0 True]) = Inr (Some opening_hours)"
  by code_simp

theorem retrieved_within_policy_witness:
  "\<exists>ranked. rt_chunks opening_hours =
      fetch_prompt_mode_matches (agent_enabled_kb_ids ''acme'' ''desk'' (indexed_service [Assign True 0 0 True]))
        (indexed_service [Assign True 0 0 True]) @ ranked \<and> length ranked \<le> 5"
proof -
  have p: "rp_top_k (resolve_policy ''acme'' ''desk'' no_override (indexed_service [Assign True 0 0 True])) = 5" by code_simp
  show ?thesis using retrieved_within_policy [OF hours_retrieved, unfolded Let_def p] by auto
qed

theorem retrieved_only_attached_witness:
  "\<exists>i ref. ((i, 0), True) \<in> set (ks_assigned (indexed_service [Assign True 0 0 True])) \<and> is_agent ''acme'' ''desk'' ref"
proof -
  let ?m = "\<lparr>vm_document = 1, vm_kb = 0, vm_content = ''open 9 to 5'', vm_score = 1, vm_tokens = 4, vm_title = ''Hours''\<rparr> :: vmatch"
  have "?m \<in> set (rt_chunks opening_hours)" by (simp add: opening_hours_def)
  from retrieved_only_attached [OF hours_retrieved this] show ?thesis by auto
qed


text \<open>
  A base that is paused when it is attached leaves the flag down, and activating the base does not raise it:
  the agent never asks, though the service would answer.
\<close>

lemma reactivated_base_unused:
  "let s = indexed_service [InIndex (UpdateBase 0 [SetBaseStatus (Some ''inactive'')]), Assign True 0 0 True,
        InIndex (UpdateBase 0 [SetBaseStatus (Some ''active'')])] in
    ask_knowledge True (\<lambda>_ _. 0) (\<lambda>_. None) ''acme'' ''desk'' no_override s = NoContext \<and>
    ask_knowledge False (\<lambda>_ _. 0) (\<lambda>_. None) ''acme'' ''desk'' no_override s = Context opening_hours"
  by code_simp

text \<open>The same after one write that Redis missed: the flag has no expiry.\<close>

lemma missed_write_stays:
  "let s = indexed_service [Assign True 0 0 False, SetEnabled False 0 0 True] in
    ask_knowledge True (\<lambda>_ _. 0) (\<lambda>_. None) ''acme'' ''desk'' no_override s = NoContext \<and>
    ask_knowledge False (\<lambda>_ _. 0) (\<lambda>_. None) ''acme'' ''desk'' no_override s = Context opening_hours"
  by code_simp

text \<open>Nothing compares the tenants of an agent and a base: the agent of one tenant reads the documents of another.\<close>

lemma foreign_base_attached:
  "retrieve (\<lambda>_ _. 0) (\<lambda>_. None) ''rival'' ''desk'' no_override (indexed_service [Assign True 1 0 True]) = Inr (Some opening_hours)"
  by code_simp

end
