(* ===== verification/Webcall.thy ===== *)
theory Webcall
  imports Py_Values
begin

text \<open>
  The bridge between a browser tab and the conversation service (\<^verbatim>\<open>services/webcall/__main__.py\<close>): who may
  open a test session, how many run at once, the two loops that shuttle messages, and the watchdog that
  tells the browser that no answer came.

  One connection is one coroutine with two child loops and a watchdog task; an event is what happens
  between two suspensions. The decoding of a token, the answer of the configuration service and the
  reading of a float from text are arguments, as are the settings of the environment. Timestamps of audio
  chunks, the optional audio dump and log lines are left out.
\<close>

section \<open>Limits and slots\<close>

datatype problem =
    MissingParams
  | AuthTimedOut | NotATextFrame | NotJson | NotAnAuthFrame
  | NoSecret | NoToken | BadToken | ServiceAccountToken | RoleNotAllowed | NoUserId
  | TenantUnreachable | TenantRefused
  | UserCap | TenantCap

text \<open>\<^verbatim>\<open>max(1, int(os.environ.get(name, default)))\<close>, and the default when that is no number.\<close>

definition session_limit :: "string option \<Rightarrow> int \<Rightarrow> int" where
  "session_limit setting fallback =
     (case setting of
        None \<Rightarrow> fallback
      | Some s \<Rightarrow> (case py_int_of_string s of Some n \<Rightarrow> max 1 n | None \<Rightarrow> fallback))"

record limits =
  li_per_user :: "string option"
  li_per_tenant :: "string option"

definition max_per_user :: "limits \<Rightarrow> int" where
  "max_per_user l = session_limit (li_per_user l) 2"

definition max_per_tenant :: "limits \<Rightarrow> int" where
  "max_per_tenant l = session_limit (li_per_tenant l) 10"

record call_slots =
  sl_by_user :: "(string, int) odict"
  sl_by_tenant :: "(string, int) odict"

definition slots_init :: call_slots where
  "slots_init = \<lparr>sl_by_user = [], sl_by_tenant = []\<rparr>"

definition held_by :: "(string, int) odict \<Rightarrow> string \<Rightarrow> int" where
  "held_by d k = (case od_get d k of Some n \<Rightarrow> n | None \<Rightarrow> 0)"

definition try_acquire :: "limits \<Rightarrow> string \<Rightarrow> string \<Rightarrow> call_slots \<Rightarrow> problem option \<times> call_slots" where
  "try_acquire l user tenant s =
     (let user_n = held_by (sl_by_user s) user; tenant_n = held_by (sl_by_tenant s) tenant in
      if user_n \<ge> max_per_user l then (Some UserCap, s)
      else if tenant_n \<ge> max_per_tenant l then (Some TenantCap, s)
      else (None, s\<lparr>sl_by_user := od_set user (user_n + 1) (sl_by_user s),
                    sl_by_tenant := od_set tenant (tenant_n + 1) (sl_by_tenant s)\<rparr>))"

definition give_back :: "string \<Rightarrow> (string, int) odict \<Rightarrow> (string, int) odict" where
  "give_back k d = (let n = held_by d k in if n \<le> 1 then od_del k d else od_set k (n - 1) d)"

definition release_slot :: "string \<Rightarrow> string \<Rightarrow> call_slots \<Rightarrow> call_slots" where
  "release_slot user tenant s =
     s\<lparr>sl_by_user := give_back user (sl_by_user s), sl_by_tenant := give_back tenant (sl_by_tenant s)\<rparr>"

section \<open>Who may open a session\<close>

definition WEBCALL_ROLES :: "string list" where
  "WEBCALL_ROLES = [''superadmin'', ''admin'', ''viewer'']"

datatype 'a outcome = Fine 'a | Refuse problem | Raise

text \<open>The answer of the configuration service to GET /tenants/SLUG: an HTTP status, or no answer.\<close>

definition config_tenant_check :: "nat option \<Rightarrow> problem option" where
  "config_tenant_check status =
     (case status of
        None \<Rightarrow> Some TenantUnreachable
      | Some n \<Rightarrow>
          if n = 200 then None
          else if n = 401 \<or> n = 403 \<or> n = 404 then Some TenantRefused
          else Some TenantUnreachable)"

definition session_auth_problem ::
  "string option \<Rightarrow> (pyval \<Rightarrow> (string \<times> pyval) list option) \<Rightarrow> nat option \<Rightarrow> pyval \<Rightarrow> string outcome" where
  "session_auth_problem secret decode status token =
     (if py_strip (case secret of Some s \<Rightarrow> s | None \<Rightarrow> []) = [] then Refuse NoSecret
      else if \<not> truthy token then Refuse NoToken
      else case decode token of
        None \<Rightarrow> Refuse BadToken
      | Some payload \<Rightarrow>
          if truthy (py_get payload ''is_service_account'') then Refuse ServiceAccountToken
          else
            (case py_get payload ''role'' of
               PList _ \<Rightarrow> Raise
             | PDict _ \<Rightarrow> Raise
             | role \<Rightarrow>
                 if role \<notin> PStr ` set WEBCALL_ROLES then Refuse RoleNotAllowed
                 else
                   let user_id = py_strip (py_str (py_or (py_get payload ''sub'') (PStr []))) in
                   if user_id = [] then Refuse NoUserId
                   else
                     (case config_tenant_check status of
                        Some p \<Rightarrow> Refuse p
                      | None \<Rightarrow> Fine user_id)))"

text \<open>The first frame: nothing within five seconds, bytes, or a text with the value it parses to.\<close>

datatype first_frame = NoFrame | BytesFrame | TextFrame "pyval option"

definition await_session_auth ::
  "string option \<Rightarrow> (pyval \<Rightarrow> (string \<times> pyval) list option) \<Rightarrow> nat option \<Rightarrow> first_frame \<Rightarrow> string outcome" where
  "await_session_auth secret decode status frame =
     (case frame of
        NoFrame \<Rightarrow> Refuse AuthTimedOut
      | BytesFrame \<Rightarrow> Refuse NotATextFrame
      | TextFrame None \<Rightarrow> Refuse NotJson
      | TextFrame (Some msg) \<Rightarrow>
          (case msg of
             PDict d \<Rightarrow>
               if py_get d ''type'' \<noteq> PStr ''auth'' then Refuse NotAnAuthFrame
               else session_auth_problem secret decode status (py_get d ''token'')
           | _ \<Rightarrow> Raise))"

section \<open>One session\<close>

datatype to_service =
    OpenUp string string bool bool
  | AudioUp nat string
  | TextUp string
  | SpeechEndedUp int pyval
  | CancelUp
  | PlayedUp bool

datatype from_service =
    TtsChunkMsg string bool
  | ReadyMsg
  | SttMsg string pyval
  | AgentMsg string
  | TransferMsg string string
  | StartedMsg
  | CancelAckMsg
  | ErrorMsg string string bool
  | NodeMsg string string string
  | EndMsg string
  | SilentMsg

datatype to_browser =
    AudioDown string
  | ChunkFinal
  | ReadyFrame
  | SttFrame string pyval
  | AgentFrame string
  | TransferFrame string string
  | StartedFrame
  | CancelFrame
  | NoteFrame string string
  | ErrorFrame string string bool
  | NodeFrame string string string
  | EndFrame string
  | NoResponse

text \<open>
  A session that holds a slot; \<open>wc_up\<close> is empty until the opening message is written. \<open>wc_reading\<close> and \<open>wc_relaying\<close> tell whether the loops
  \<^verbatim>\<open>_browser_to_grpc\<close> and \<^verbatim>\<open>_grpc_to_browser\<close> still run, \<open>wc_ws_open\<close> and \<open>wc_call_open\<close> whether the two
  ends of the bridge are there; \<open>wc_deadline\<close> is when the armed watchdog fires.
\<close>

record browser_session =
  wc_user :: string
  wc_tenant :: string
  wc_agent :: string
  wc_draft :: bool
  wc_text_mode :: bool
  wc_reading :: bool
  wc_relaying :: bool
  wc_ws_open :: bool
  wc_call_open :: bool
  wc_sequence_num :: nat
  wc_up :: "to_service list"
  wc_down :: "to_browser list"
  wc_deadline :: "rat option"

text \<open>What became of the session: it goes on, or an exception or the end of both loops ended it.\<close>

datatype progress = Goes browser_session | Ends

definition arm :: "rat \<Rightarrow> rat \<Rightarrow> browser_session \<Rightarrow> browser_session" where
  "arm timeout now c = c\<lparr>wc_deadline := Some (now + timeout)\<rparr>"

definition disarm :: "browser_session \<Rightarrow> browser_session" where
  "disarm c = c\<lparr>wc_deadline := None\<rparr>"

text \<open>
  The opening message, the first thing written, and the start of the two loops. A browser that leaves
  earlier is noticed by the reading loop, so its closing comes later.
\<close>

definition channel_opens :: "bool \<Rightarrow> browser_session \<Rightarrow> progress" where
  "channel_opens reachable c =
     (if wc_up c \<noteq> [] then Goes c
      else if reachable then
        Goes (c\<lparr>wc_up := [OpenUp (wc_tenant c) (wc_agent c) (wc_draft c) (wc_text_mode c)],
                wc_reading := True, wc_relaying := True\<rparr>)
      else Ends)"

definition write_up :: "to_service \<Rightarrow> browser_session \<Rightarrow> progress" where
  "write_up m c = (if wc_call_open c then Goes (c\<lparr>wc_up := wc_up c @ [m]\<rparr>) else Ends)"

text \<open>\<^verbatim>\<open>float()\<close> of a JSON value; a text is read by \<open>read_float\<close>.\<close>

definition py_float :: "(string \<Rightarrow> pyval option) \<Rightarrow> pyval \<Rightarrow> pyval option" where
  "py_float read_float v =
     (case v of
        PInt _ \<Rightarrow> Some v
      | PFloat _ _ \<Rightarrow> Some v
      | PInf _ \<Rightarrow> Some v
      | PNaN \<Rightarrow> Some v
      | PBool b \<Rightarrow> Some (PInt (if b then 1 else 0))
      | PStr s \<Rightarrow> read_float s
      | _ \<Rightarrow> None)"

definition get_with :: "(string \<times> pyval) list \<Rightarrow> string \<Rightarrow> pyval \<Rightarrow> pyval" where
  "get_with d k v = (case od_get d k of Some w \<Rightarrow> w | None \<Rightarrow> v)"

text \<open>The announcement of an utterance: \<^verbatim>\<open>duration_ms\<close> is an unsigned 32-bit field.\<close>

definition speech_ended ::
  "(string \<Rightarrow> pyval option) \<Rightarrow> rat \<Rightarrow> rat \<Rightarrow> (string \<times> pyval) list \<Rightarrow> browser_session \<Rightarrow> progress" where
  "speech_ended read_float timeout now control c =
     (case (py_int (get_with control ''duration_ms'' (PInt 0)),
            py_float read_float (get_with control ''energy_db'' (PFloat 0 ''0.0''))) of
        (Inr ms, Some db) \<Rightarrow>
          if 0 \<le> ms \<and> ms < 2 ^ 32 then write_up (SpeechEndedUp ms db) (arm timeout now c) else Ends
      | _ \<Rightarrow> Ends)"

datatype browser_message = Binary string | Control "pyval option"

definition handle_control ::
  "(string \<Rightarrow> pyval option) \<Rightarrow> rat \<Rightarrow> rat \<Rightarrow> (string \<times> pyval) list \<Rightarrow> browser_session \<Rightarrow> progress" where
  "handle_control read_float timeout now control c =
     (let kind = py_get control ''type'' in
      if kind = PStr ''text_input'' then
        (let t = py_strip (py_str (get_with control ''text'' (PStr []))) in
         if t = [] then Goes c else write_up (TextUp t) c)
      else if kind = PStr ''speech_ended'' then speech_ended read_float timeout now control c
      else if kind = PStr ''cancel'' then write_up CancelUp c
      else if kind = PStr ''playback_finished'' then
        write_up (PlayedUp (truthy (get_with control ''interrupted'' (PBool False)))) c
      else Goes c)"

definition browser_says ::
  "(string \<Rightarrow> pyval option) \<Rightarrow> rat \<Rightarrow> rat \<Rightarrow> browser_message \<Rightarrow> browser_session \<Rightarrow> progress" where
  "browser_says read_float timeout now m c =
     (if \<not> wc_reading c then Goes c
      else case m of
        Binary payload \<Rightarrow>
          write_up (AudioUp (Suc (wc_sequence_num c)) payload) (c\<lparr>wc_sequence_num := Suc (wc_sequence_num c)\<rparr>)
      | Control None \<Rightarrow> Goes c
      | Control (Some v) \<Rightarrow>
          (case v of
             PDict control \<Rightarrow> handle_control read_float timeout now control c
           | _ \<Rightarrow> Ends))"

text \<open>
  \<^verbatim>\<open>async for message in ws\<close> ends quietly on a normal close; any other close raises. \<^verbatim>\<open>gather\<close> returns
  when both loops have ended.
\<close>

definition browser_closes :: "bool \<Rightarrow> browser_session \<Rightarrow> progress" where
  "browser_closes normal c =
     (if wc_up c = [] then Goes c
      else if \<not> wc_reading c then Goes (c\<lparr>wc_ws_open := False\<rparr>)
      else if normal \<and> wc_relaying c then Goes (c\<lparr>wc_ws_open := False, wc_reading := False\<rparr>)
      else Ends)"

section \<open>From the service to the browser\<close>

definition payload_name :: "from_service \<Rightarrow> string" where
  "payload_name m =
     (case m of
        TtsChunkMsg _ _ \<Rightarrow> ''tts_chunk''
      | ReadyMsg \<Rightarrow> ''service_ready''
      | SttMsg _ _ \<Rightarrow> ''stt_result''
      | AgentMsg _ \<Rightarrow> ''agent_text''
      | TransferMsg _ _ \<Rightarrow> ''transfer_request''
      | StartedMsg \<Rightarrow> ''tts_started''
      | CancelAckMsg \<Rightarrow> ''cancel_ack''
      | ErrorMsg _ _ _ \<Rightarrow> ''error''
      | NodeMsg _ _ _ \<Rightarrow> ''workflow_node_changed''
      | EndMsg _ \<Rightarrow> ''end_call''
      | SilentMsg \<Rightarrow> ''conversation_finalized'')"

definition TEXT_TURN_ENDING :: "string list" where
  "TEXT_TURN_ENDING = [''agent_text'', ''end_call'', ''error'', ''transfer_request'']"

definition watchdog_saw :: "rat \<Rightarrow> rat \<Rightarrow> string \<Rightarrow> browser_session \<Rightarrow> browser_session" where
  "watchdog_saw timeout now which c =
     (if wc_text_mode c then
        if which = ''stt_result'' then arm timeout now c
        else if which \<notin> set TEXT_TURN_ENDING then c
        else disarm c
      else disarm c)"

definition frames_of :: "from_service \<Rightarrow> to_browser list" where
  "frames_of m =
     (case m of
        TtsChunkMsg payload final \<Rightarrow>
          (if payload \<noteq> [] then [AudioDown payload] else []) @ (if final then [ChunkFinal] else [])
      | ReadyMsg \<Rightarrow> [ReadyFrame]
      | SttMsg t confidence \<Rightarrow> [SttFrame t confidence]
      | AgentMsg t \<Rightarrow> [AgentFrame t]
      | TransferMsg destination reason \<Rightarrow> [TransferFrame destination reason]
      | StartedMsg \<Rightarrow> [StartedFrame]
      | CancelAckMsg \<Rightarrow> [CancelFrame]
      | ErrorMsg code t fatal \<Rightarrow>
          if code = ''draft_fallback'' \<or> code = ''session_note'' then [NoteFrame t code]
          else [ErrorFrame code t fatal]
      | NodeMsg i n t \<Rightarrow> [NodeFrame i n t]
      | EndMsg reason \<Rightarrow> [EndFrame reason]
      | SilentMsg \<Rightarrow> [])"

definition stops_relay :: "from_service \<Rightarrow> bool" where
  "stops_relay m =
     (case m of
        ErrorMsg code _ fatal \<Rightarrow> fatal \<and> code \<noteq> ''draft_fallback'' \<and> code \<noteq> ''session_note''
      | _ \<Rightarrow> False)"

text \<open>The end of the relaying loop: the session ends with it only when the reading loop has ended too.\<close>

definition relay_ends :: "browser_session \<Rightarrow> progress" where
  "relay_ends c = (if wc_reading c then Goes (c\<lparr>wc_relaying := False\<rparr>) else Ends)"

definition service_says :: "rat \<Rightarrow> rat \<Rightarrow> from_service \<Rightarrow> browser_session \<Rightarrow> progress" where
  "service_says timeout now m c =
     (if \<not> wc_relaying c then Goes c
      else
        let c1 = watchdog_saw timeout now (payload_name m) c in
        if frames_of m \<noteq> [] \<and> \<not> wc_ws_open c then Ends
        else
          let c2 = c1\<lparr>wc_down := wc_down c1 @ frames_of m\<rparr> in
          if stops_relay m then relay_ends c2 else Goes c2)"

definition service_ends :: "bool \<Rightarrow> browser_session \<Rightarrow> progress" where
  "service_ends failed c =
     (let c1 = c\<lparr>wc_call_open := False\<rparr> in
      if wc_up c = [] then Goes c
      else if \<not> wc_relaying c then Goes c1
      else if failed then Ends
      else relay_ends c1)"

text \<open>\<^verbatim>\<open>_fire\<close> after its sleep; what the send raises is caught.\<close>

definition watchdog_fires :: "rat \<Rightarrow> browser_session \<Rightarrow> browser_session" where
  "watchdog_fires now c =
     (case wc_deadline c of
        None \<Rightarrow> c
      | Some d \<Rightarrow>
          if now < d then c
          else if wc_ws_open c then c\<lparr>wc_down := wc_down c @ [NoResponse], wc_deadline := None\<rparr>
          else c\<lparr>wc_deadline := None\<rparr>)"

section \<open>The server\<close>

record server =
  sv_slots :: call_slots
  sv_sessions :: "(nat, browser_session) odict"
  sv_now :: rat
  sv_refused :: "(nat \<times> problem) list"

record settings =
  se_limits :: limits
  se_timeout :: rat
  se_secret :: "string option"
  se_decode :: "pyval \<Rightarrow> (string \<times> pyval) list option"
  se_read_float :: "string \<Rightarrow> pyval option"

definition server_init :: server where
  "server_init = \<lparr>sv_slots = slots_init, sv_sessions = [], sv_now = 0, sv_refused = []\<rparr>"

text \<open>\<^verbatim>\<open>_parse_query\<close>: the first value of every parameter that has one.\<close>

definition parse_query :: "(string, string list) odict \<Rightarrow> (string, string) odict" where
  "parse_query qs = map (\<lambda>p. (fst p, hd (snd p))) (filter (\<lambda>p. snd p \<noteq> []) qs)"

definition param :: "(string, string) odict \<Rightarrow> string \<Rightarrow> string" where
  "param ps k = (case od_get ps k of Some v \<Rightarrow> v | None \<Rightarrow> [])"

definition new_session :: "string \<Rightarrow> string \<Rightarrow> string \<Rightarrow> bool \<Rightarrow> bool \<Rightarrow> browser_session" where
  "new_session user tenant agent draft text_mode =
     \<lparr>wc_user = user, wc_tenant = tenant, wc_agent = agent, wc_draft = draft, wc_text_mode = text_mode,
      wc_reading = False, wc_relaying = False, wc_ws_open = True, wc_call_open = True, wc_sequence_num = 0,
      wc_up = [], wc_down = [], wc_deadline = None\<rparr>"

definition refuse :: "nat \<Rightarrow> problem \<Rightarrow> server \<Rightarrow> server" where
  "refuse i p s = s\<lparr>sv_refused := sv_refused s @ [(i, p)]\<rparr>"

text \<open>
  \<^verbatim>\<open>_handle_connection\<close> up to the taking of a slot; the event \<open>ChannelOpens\<close> is its next step. A browser
  that leaves before it is authenticated changes nothing and is no event.
\<close>

definition handle_connection ::
  "settings \<Rightarrow> nat \<Rightarrow> (string, string list) odict \<Rightarrow> first_frame \<Rightarrow> nat option \<Rightarrow> server \<Rightarrow> server" where
  "handle_connection st i qs frame status s =
     (let ps = parse_query qs; tenant = param ps ''tenant''; agent = param ps ''agent'';
          draft = (param ps ''draft'' = ''1'' \<or> param ps ''draft'' = ''true'') in
      if tenant = [] \<or> agent = [] then refuse i MissingParams s
      else case await_session_auth (se_secret st) (se_decode st) status frame of
        Raise \<Rightarrow> s
      | Refuse p \<Rightarrow> refuse i p s
      | Fine user \<Rightarrow>
          (case try_acquire (se_limits st) user tenant (sv_slots s) of
             (Some p, _) \<Rightarrow> refuse i p s
           | (None, taken) \<Rightarrow>
               s\<lparr>sv_slots := taken,
                 sv_sessions := od_set i (new_session user tenant agent draft (param ps ''mode'' = ''text''))
                   (sv_sessions s)\<rparr>))"

text \<open>The two \<^verbatim>\<open>finally\<close> clauses: the watchdog is disarmed, the call cancelled and the slot released.\<close>

definition settle :: "nat \<Rightarrow> browser_session \<Rightarrow> progress \<Rightarrow> server \<Rightarrow> server" where
  "settle i c p s =
     (case p of
        Goes c' \<Rightarrow> s\<lparr>sv_sessions := od_set i c' (sv_sessions s)\<rparr>
      | Ends \<Rightarrow> s\<lparr>sv_sessions := od_del i (sv_sessions s), sv_slots := release_slot (wc_user c) (wc_tenant c) (sv_slots s)\<rparr>)"

definition in_session :: "nat \<Rightarrow> (browser_session \<Rightarrow> progress) \<Rightarrow> server \<Rightarrow> server" where
  "in_session i f s =
     (case od_get (sv_sessions s) i of None \<Rightarrow> s | Some c \<Rightarrow> settle i c (f c) s)"

datatype server_event =
    Connect nat "(string, string list) odict" first_frame "nat option"
  | ChannelOpens nat bool
  | BrowserSays nat browser_message
  | BrowserCloses nat bool
  | ServiceSays nat from_service
  | ServiceEnds nat bool
  | WatchFires nat
  | Tick rat

fun server_step :: "settings \<Rightarrow> server_event \<Rightarrow> server \<Rightarrow> server" where
  "server_step st (Connect i qs frame status) s =
     (if od_get (sv_sessions s) i = None then handle_connection st i qs frame status s else s)"
| "server_step st (ChannelOpens i reachable) s = in_session i (channel_opens reachable) s"
| "server_step st (BrowserSays i m) s =
     in_session i (browser_says (se_read_float st) (se_timeout st) (sv_now s) m) s"
| "server_step st (BrowserCloses i normal) s = in_session i (browser_closes normal) s"
| "server_step st (ServiceSays i m) s = in_session i (service_says (se_timeout st) (sv_now s) m) s"
| "server_step st (ServiceEnds i failed) s = in_session i (service_ends failed) s"
| "server_step st (WatchFires i) s = in_session i (\<lambda>c. Goes (watchdog_fires (sv_now s) c)) s"
| "server_step st (Tick dt) s = s\<lparr>sv_now := sv_now s + max 0 dt\<rparr>"

section \<open>Counting slots\<close>

definition counted :: "(browser_session \<Rightarrow> string) \<Rightarrow> (nat, browser_session) odict \<Rightarrow> string \<Rightarrow> int" where
  "counted f ss k = int (length (filter (\<lambda>p. f (snd p) = k) ss))"

definition table_ok :: "(browser_session \<Rightarrow> string) \<Rightarrow> (nat, browser_session) odict \<Rightarrow> (string, int) odict \<Rightarrow> bool" where
  "table_ok f ss d \<longleftrightarrow> (\<forall>k. od_get d k = (if counted f ss k = 0 then None else Some (counted f ss k)))"

lemma counted_nonneg [simp]: "0 \<le> counted f ss k"
  by (simp add: counted_def)

lemma counted_new:
  "od_get ss i = None \<Longrightarrow> counted f (od_set i c ss) k = counted f ss k + (if f c = k then 1 else 0)"
  by (simp add: counted_def od_set_new)

lemma counted_same:
  "od_get ss i = Some c \<Longrightarrow> f c' = f c \<Longrightarrow> counted f (od_set i c' ss) k = counted f ss k"
proof (induction ss)
  case (Cons p ss)
  obtain j x where "p = (j, x)" by (cases p)
  then show ?case using Cons by (cases "j = i") (auto simp: counted_def od_get_def)
qed (simp add: od_get_def)

lemma od_del_missing: "od_get ss i = None \<Longrightarrow> od_del i ss = ss"
  by (auto simp: od_get_None_iff od_del_def filter_id_conv)

lemma counted_del:
  "od_ok ss \<Longrightarrow> od_get ss i = Some c \<Longrightarrow> counted f (od_del i ss) k = counted f ss k - (if f c = k then 1 else 0)"
proof (induction ss)
  case (Cons p ss)
  obtain j x where p: "p = (j, x)" by (cases p)
  show ?case
  proof (cases "j = i")
    case True
    then have "od_get ss i = None" using Cons.prems(1) p by (auto simp: od_get_None_iff)
    then have "od_del i (p # ss) = ss" using p True od_del_missing [of ss i] by (simp add: od_del_def)
    then show ?thesis using Cons.prems(2) p True by (auto simp: counted_def od_get_def)
  next
    case False
    then have "od_get ss i = Some c" using Cons.prems(2) p by (simp add: od_get_def)
    then have "counted f (od_del i ss) k = counted f ss k - (if f c = k then 1 else 0)"
      using Cons.IH Cons.prems(1) by simp
    then show ?thesis using p False by (auto simp: counted_def od_del_def)
  qed
qed (simp add: od_get_def)

lemma held_by_table: "table_ok f ss d \<Longrightarrow> held_by d k = counted f ss k"
  by (simp add: table_ok_def held_by_def)

lemma table_acquire:
  assumes "table_ok f ss d" and "od_get ss i = None"
  shows "table_ok f (od_set i c ss) (od_set (f c) (held_by d (f c) + 1) d)"
proof -
  have "counted f ss (f c) + 1 \<noteq> 0" using counted_nonneg [of f ss "f c"] by linarith
  then show ?thesis
    using assms(1) held_by_table [OF assms(1)] by (auto simp: table_ok_def counted_new [OF assms(2)])
qed

lemma table_release:
  assumes "table_ok f ss d" and "od_ok ss" and "od_get ss i = Some c"
  shows "table_ok f (od_del i ss) (give_back (f c) d)"
proof -
  have n: "held_by d (f c) = counted f ss (f c)" using held_by_table [OF assms(1)] .
  have one: "1 \<le> counted f ss (f c)"
    using counted_del [OF assms(2,3), of f "f c"] counted_nonneg [of f "od_del i ss" "f c"] by simp
  show ?thesis
    using assms(1) n one
    by (auto simp: table_ok_def give_back_def Let_def counted_del [OF assms(2,3)])
qed

definition slots_ok :: "limits \<Rightarrow> server \<Rightarrow> bool" where
  "slots_ok l s \<longleftrightarrow>
     od_ok (sv_sessions s) \<and>
     table_ok wc_user (sv_sessions s) (sl_by_user (sv_slots s)) \<and>
     table_ok wc_tenant (sv_sessions s) (sl_by_tenant (sv_slots s)) \<and>
     (\<forall>u. counted wc_user (sv_sessions s) u \<le> max_per_user l) \<and>
     (\<forall>t. counted wc_tenant (sv_sessions s) t \<le> max_per_tenant l)"

text \<open>No event of a session changes whose it is.\<close>

definition keeps_owner :: "(browser_session \<Rightarrow> progress) \<Rightarrow> bool" where
  "keeps_owner f \<longleftrightarrow> (\<forall>c c'. f c = Goes c' \<longrightarrow> wc_user c' = wc_user c \<and> wc_tenant c' = wc_tenant c)"

lemmas session_defs =
  write_up_def speech_ended_def handle_control_def browser_says_def browser_closes_def relay_ends_def
  service_says_def service_ends_def channel_opens_def watchdog_saw_def arm_def disarm_def watchdog_fires_def

lemma keeps_owner_events:
  "keeps_owner (channel_opens reachable)"
  "keeps_owner (browser_says rf timeout now m)" "keeps_owner (browser_closes normal)"
  "keeps_owner (service_says timeout now msg)" "keeps_owner (service_ends failed)"
  "keeps_owner (\<lambda>c. Goes (watchdog_fires now c))"
  by (auto simp: keeps_owner_def session_defs Let_def
      split: if_splits browser_message.splits option.splits pyval.splits sum.splits)

lemma slots_ok_in_session:
  assumes "slots_ok l s" and "keeps_owner f"
  shows "slots_ok l (in_session i f s)"
proof (cases "od_get (sv_sessions s) i")
  case (Some c)
  show ?thesis
  proof (cases "f c")
    case (Goes c')
    then have "wc_user c' = wc_user c" "wc_tenant c' = wc_tenant c" using assms(2) by (auto simp: keeps_owner_def)
    then show ?thesis
      using assms(1) Some Goes
      by (simp add: in_session_def settle_def slots_ok_def table_ok_def counted_same)
  next
    case Ends
    have ok: "od_ok (sv_sessions s)" using assms(1) by (simp add: slots_ok_def)
    have le: "counted g (od_del i (sv_sessions s)) k \<le> counted g (sv_sessions s) k" for g k
      using counted_del [OF ok Some, of g k] by simp
    then show ?thesis
      using assms(1) Some Ends table_release [OF _ ok Some]
      by (simp add: in_session_def settle_def slots_ok_def release_slot_def order_trans [OF le])
  qed
qed (simp add: in_session_def assms(1))

lemma slots_ok_connect:
  assumes "slots_ok (se_limits st) s" and "od_get (sv_sessions s) i = None"
  shows "slots_ok (se_limits st) (handle_connection st i qs frame status s)"
proof -
  let ?l = "se_limits st"
  have ok: "od_ok (sv_sessions s)" and tu: "table_ok wc_user (sv_sessions s) (sl_by_user (sv_slots s))"
    and tt: "table_ok wc_tenant (sv_sessions s) (sl_by_tenant (sv_slots s))"
    and cu: "\<And>u. counted wc_user (sv_sessions s) u \<le> max_per_user ?l"
    and ct: "\<And>t. counted wc_tenant (sv_sessions s) t \<le> max_per_tenant ?l"
    using assms(1) by (auto simp: slots_ok_def)
  have step: "slots_ok ?l (s\<lparr>sv_slots := sl, sv_sessions := od_set i c (sv_sessions s)\<rparr>)"
    if a: "try_acquire ?l (wc_user c) (wc_tenant c) (sv_slots s) = (None, sl)" for c sl
  proof -
    have lim: "counted wc_user (sv_sessions s) (wc_user c) < max_per_user ?l"
      "counted wc_tenant (sv_sessions s) (wc_tenant c) < max_per_tenant ?l"
      and sl: "sl_by_user sl = od_set (wc_user c) (held_by (sl_by_user (sv_slots s)) (wc_user c) + 1) (sl_by_user (sv_slots s))"
      "sl_by_tenant sl = od_set (wc_tenant c) (held_by (sl_by_tenant (sv_slots s)) (wc_tenant c) + 1) (sl_by_tenant (sv_slots s))"
      using a held_by_table [OF tu] held_by_table [OF tt]
      by (auto simp: try_acquire_def Let_def split: if_splits)
    then show ?thesis
      using table_acquire [OF tu assms(2), of c] table_acquire [OF tt assms(2), of c] ok cu ct
      by (auto simp: slots_ok_def counted_new [OF assms(2)] intro: less_imp_le)
  qed
  have step': "slots_ok ?l (s\<lparr>sv_slots := sl, sv_sessions := od_set i (new_session u t a d m) (sv_sessions s)\<rparr>)"
    if "try_acquire ?l u t (sv_slots s) = (None, sl)" for u t a d m sl
    using step [of "new_session u t a d m" sl] that by (simp add: new_session_def)
  have refused: "slots_ok ?l (refuse i p s)" for p
    using assms(1) by (simp add: refuse_def slots_ok_def)
  show ?thesis
    using assms(1) step' refused
    by (auto simp: handle_connection_def Let_def split: outcome.splits option.splits prod.splits)
qed

lemma slots_ok_now: "slots_ok l (s\<lparr>sv_now := t\<rparr>) = slots_ok l s"
  by (simp add: slots_ok_def)

lemma slots_ok_step: "slots_ok (se_limits st) s \<Longrightarrow> slots_ok (se_limits st) (server_step st e s)"
  by (cases e) (auto intro: slots_ok_connect slots_ok_in_session keeps_owner_events simp: slots_ok_now)

lemma max_positive: "1 \<le> max_per_user l" "1 \<le> max_per_tenant l"
  by (auto simp: max_per_user_def max_per_tenant_def session_limit_def split: option.splits)

lemma slots_ok_init: "slots_ok l server_init"
  using max_positive [of l]
  by (auto simp: slots_ok_def server_init_def slots_init_def table_ok_def counted_def od_get_def)

interpretation webcall: event_machine server_init "server_step st" "slots_ok (se_limits st)"
  by unfold_locales (rule slots_ok_init, rule slots_ok_step)

text \<open>
  C12. The slots are exactly the live sessions: after any sequence of events, under every interleaving of
  connections, browsers, service and clock, the two tables count the sessions of each user and of each
  tenant and hold no other entry, and no user and no tenant has more sessions than allowed.
\<close>

theorem slots_match_sessions:
  fixes st :: settings and es :: "server_event list"
  shows "let s = fold (server_step st) es server_init in
      table_ok wc_user (sv_sessions s) (sl_by_user (sv_slots s)) \<and>
      table_ok wc_tenant (sv_sessions s) (sl_by_tenant (sv_slots s)) \<and>
      (\<forall>u. counted wc_user (sv_sessions s) u \<le> max_per_user (se_limits st)) \<and>
      (\<forall>t. counted wc_tenant (sv_sessions s) t \<le> max_per_tenant (se_limits st))"
  using webcall.inv_run [of st es] by (simp add: slots_ok_def Let_def)

section \<open>A concrete server\<close>

definition admin_settings :: settings where
  "admin_settings =
     \<lparr>se_limits = \<lparr>li_per_user = None, li_per_tenant = None\<rparr>, se_timeout = 8, se_secret = Some ''k'',
      se_decode = (\<lambda>_. Some [(''role'', PStr ''admin''), (''sub'', PStr ''u1'')]), se_read_float = (\<lambda>_. None)\<rparr>"

definition admin_connects :: "nat \<Rightarrow> server_event list" where
  "admin_connects i =
     [Connect i [(''tenant'', [''acme'']), (''agent'', [''a''])]
        (TextFrame (Some (PDict [(''type'', PStr ''auth''), (''token'', PStr ''t'')]))) (Some 200),
      ChannelOpens i True]"

text \<open>Two tabs that were closed while the service had nothing to say lock their user out.\<close>

lemma closed_tabs_lock_out:
  "sv_refused (fold (server_step admin_settings)
      (admin_connects 1 @ [BrowserCloses 1 True] @ admin_connects 2 @ [BrowserCloses 2 True] @ admin_connects 3)
      server_init) = [(3, UserCap)]"
  by code_simp

text \<open>A message of the service that the browser would be sent frees the slot.\<close>

lemma message_frees_slot:
  "sv_slots (fold (server_step admin_settings)
      (admin_connects 1 @ [BrowserCloses 1 True, ServiceSays 1 StartedMsg]) server_init) = slots_init"
  by code_simp

section \<open>Who gets a session\<close>

lemma in_session_keeps_absent: "od_get (sv_sessions s) j = None \<Longrightarrow> od_get (sv_sessions (in_session i f s)) j = None"
  by (auto simp: in_session_def settle_def split: option.split progress.split)

lemma authorised:
  assumes "session_auth_problem secret decode status token = Fine user"
  shows "\<exists>payload. decode token = Some payload \<and> status = Some 200 \<and>
    \<not> truthy (py_get payload ''is_service_account'') \<and> py_get payload ''role'' \<in> PStr ` set WEBCALL_ROLES \<and>
    user = py_strip (py_str (py_or (py_get payload ''sub'') (PStr []))) \<and> user \<noteq> [] \<and>
    py_strip (case secret of Some s \<Rightarrow> s | None \<Rightarrow> []) \<noteq> []"
  using assms
  by (auto simp: session_auth_problem_def config_tenant_check_def Let_def
      split: if_splits option.splits pyval.splits)

text \<open>
  A session only comes into being by a connection whose first frame carries a token that decodes to an
  interactive user with a console role and an id, for whom the configuration service answered 200 on the
  tenant of the request, and only below both caps. The session is held by that user and that tenant.
\<close>

theorem session_needs_console_token:
  assumes "od_get (sv_sessions s) i = None" and "od_get (sv_sessions (server_step st e s)) i = Some c"
  shows "\<exists>qs d payload.
    e = Connect i qs (TextFrame (Some (PDict d))) (Some 200) \<and> py_get d ''type'' = PStr ''auth'' \<and>
    se_decode st (py_get d ''token'') = Some payload \<and>
    \<not> truthy (py_get payload ''is_service_account'') \<and> py_get payload ''role'' \<in> PStr ` set WEBCALL_ROLES \<and>
    wc_user c = py_strip (py_str (py_or (py_get payload ''sub'') (PStr []))) \<and> wc_user c \<noteq> [] \<and>
    wc_tenant c = param (parse_query qs) ''tenant'' \<and> wc_tenant c \<noteq> [] \<and>
    held_by (sl_by_user (sv_slots s)) (wc_user c) < max_per_user (se_limits st) \<and>
    held_by (sl_by_tenant (sv_slots s)) (wc_tenant c) < max_per_tenant (se_limits st)"
proof -
  obtain qs frame status where e: "e = Connect i qs frame status"
    using assms in_session_keeps_absent [OF assms(1)]
    by (cases e) (auto split: if_splits simp: handle_connection_def Let_def refuse_def
        split: outcome.splits option.splits prod.splits)
  have new: "od_get (sv_sessions (handle_connection st i qs frame status s)) i = Some c"
    using assms e by simp
  then obtain user where a: "await_session_auth (se_secret st) (se_decode st) status frame = Fine user"
    using assms(1)
    by (auto simp: handle_connection_def Let_def refuse_def split: outcome.splits if_splits)
  then obtain d where d: "frame = TextFrame (Some (PDict d))" "py_get d ''type'' = PStr ''auth''"
    "session_auth_problem (se_secret st) (se_decode st) status (py_get d ''token'') = Fine user"
    by (auto simp: await_session_auth_def split: first_frame.splits option.splits pyval.splits if_splits)
  have c: "wc_user c = user" "wc_tenant c = param (parse_query qs) ''tenant''" "wc_tenant c \<noteq> []"
    "held_by (sl_by_user (sv_slots s)) user < max_per_user (se_limits st)"
    "held_by (sl_by_tenant (sv_slots s)) (wc_tenant c) < max_per_tenant (se_limits st)"
    using new assms(1) a
    by (auto simp: handle_connection_def Let_def refuse_def try_acquire_def new_session_def split: if_splits)
  show ?thesis using e d(1,2) c authorised [OF d(3)] by blast
qed

theorem session_needs_console_token_witness:
  "\<exists>c payload. od_get (sv_sessions (server_step admin_settings (hd (admin_connects 1)) server_init)) 1 = Some c \<and>
    se_decode admin_settings (PStr ''t'') = Some payload \<and> wc_user c = ''u1'' \<and>
    py_get payload ''role'' \<in> PStr ` set WEBCALL_ROLES"
proof -
  let ?s = "server_step admin_settings (hd (admin_connects 1)) server_init"
  have absent: "od_get (sv_sessions server_init) 1 = None" by code_simp
  have "od_get (sv_sessions ?s) 1 = Some (new_session ''u1'' ''acme'' ''a'' False False)" by code_simp
  from this session_needs_console_token [OF absent this] show ?thesis
    by (fastforce simp: admin_connects_def new_session_def py_get_def od_get_def)
qed

section \<open>A browser that leaves\<close>

text \<open>The reading loop has ended and the relaying loop waits for the service.\<close>

definition left_behind :: "string \<Rightarrow> browser_session option \<Rightarrow> bool" where
  "left_behind user c =
     (case c of
        None \<Rightarrow> False
      | Some c \<Rightarrow> wc_user c = user \<and> wc_up c \<noteq> [] \<and> \<not> wc_reading c \<and> wc_relaying c)"

text \<open>The service neither ends the stream of session \<open>i\<close> nor says something the browser would be sent.\<close>

fun silent_on :: "nat \<Rightarrow> server_event \<Rightarrow> bool" where
  "silent_on i (ServiceSays j m) = (j \<noteq> i \<or> frames_of m = [])"
| "silent_on i (ServiceEnds j failed) = (j \<noteq> i)"
| "silent_on i _ = True"

lemma stops_relay_speaks: "frames_of m = [] \<Longrightarrow> \<not> stops_relay m"
  by (auto simp: frames_of_def stops_relay_def split: from_service.splits if_splits)

lemma left_behind_service:
  assumes "left_behind user (Some c)" and "frames_of m = []"
  shows "\<exists>c'. service_says timeout now m c = Goes c' \<and> left_behind user (Some c')"
  using assms stops_relay_speaks [OF assms(2)]
  by (simp add: service_says_def left_behind_def Let_def watchdog_saw_def arm_def disarm_def)

lemma left_behind_in_session:
  assumes "left_behind user (od_get (sv_sessions s) i)"
    and "\<And>c. j = i \<Longrightarrow> left_behind user (Some c) \<Longrightarrow> \<exists>c'. f c = Goes c' \<and> left_behind user (Some c')"
  shows "left_behind user (od_get (sv_sessions (in_session j f s)) i)"
proof (cases "j = i")
  case True
  obtain c where c: "od_get (sv_sessions s) i = Some c" using assms(1) by (auto simp: left_behind_def split: option.splits)
  obtain c' where "f c = Goes c'" "left_behind user (Some c')" using assms(2) [OF True, of c] assms(1) c by auto
  then show ?thesis using c True by (simp add: in_session_def settle_def)
next
  case False
  then show ?thesis using assms(1)
    by (auto simp: in_session_def settle_def split: option.split progress.split)
qed

lemma left_behind_step:
  assumes "left_behind user (od_get (sv_sessions s) i)" and "silent_on i e"
  shows "left_behind user (od_get (sv_sessions (server_step st e s)) i)"
proof (cases e)
  case (Connect j qs frame status)
  then show ?thesis using assms(1)
    by (auto simp: left_behind_def handle_connection_def Let_def refuse_def
        split: option.splits outcome.splits prod.splits)
next
  case (ServiceSays j m)
  have "left_behind user (od_get (sv_sessions (in_session j (service_says (se_timeout st) (sv_now s) m) s)) i)"
    by (rule left_behind_in_session [OF assms(1)]) (use assms(2) ServiceSays left_behind_service in auto)
  then show ?thesis using ServiceSays by simp
next
  case (ServiceEnds j failed)
  then have "j \<noteq> i" using assms(2) by simp
  then show ?thesis
    using left_behind_in_session [OF assms(1), of j "service_ends failed"] ServiceEnds by simp
next
  case (BrowserSays j m)
  then show ?thesis
    using left_behind_in_session [OF assms(1), of j "browser_says (se_read_float st) (se_timeout st) (sv_now s) m"]
    by (auto simp: left_behind_def browser_says_def)
next
  case (BrowserCloses j normal)
  then show ?thesis
    using left_behind_in_session [OF assms(1), of j "browser_closes normal"]
    by (auto simp: left_behind_def browser_closes_def)
next
  case (ChannelOpens j reachable)
  then show ?thesis
    using left_behind_in_session [OF assms(1), of j "channel_opens reachable"]
    by (auto simp: left_behind_def channel_opens_def)
next
  case (WatchFires j)
  then show ?thesis
    using left_behind_in_session [OF assms(1), of j "\<lambda>c. Goes (watchdog_fires (sv_now s) c)"]
    by (auto simp: left_behind_def watchdog_fires_def split: option.splits)
next
  case (Tick dt)
  then show ?thesis using assms(1) by simp
qed

lemma left_behind_steps:
  "left_behind user (od_get (sv_sessions s) i) \<Longrightarrow> \<forall>e\<in>set es. silent_on i e \<Longrightarrow>
    left_behind user (od_get (sv_sessions (fold (server_step st) es s)) i)"
  by (induction es arbitrary: s) (auto intro: left_behind_step)

lemma counted_present: "od_get ss i = Some c \<Longrightarrow> 1 \<le> counted f ss (f c)"
proof (induction ss)
  case (Cons p ss)
  obtain j x where "p = (j, x)" by (cases p)
  then show ?case using Cons by (cases "j = i") (auto simp: counted_def od_get_def)
qed (simp add: od_get_def)

text \<open>
  A browser that closes normally ends only the reading loop: as long as the service has nothing to say
  that the browser would be sent and does not end the stream, whatever else happens on the server the
  session stays and its user keeps the slot.
\<close>

theorem closed_browser_keeps_slot:
  assumes "s = fold (server_step st) es0 server_init"
    and "od_get (sv_sessions s) i = Some c" and "wc_reading c" and "wc_relaying c" and "wc_up c \<noteq> []"
    and "\<forall>e\<in>set es. silent_on i e"
  shows "let s' = fold (server_step st) (BrowserCloses i True # es) s in
    left_behind (wc_user c) (od_get (sv_sessions s') i) \<and> 1 \<le> held_by (sl_by_user (sv_slots s')) (wc_user c)"
proof -
  let ?s1 = "server_step st (BrowserCloses i True) s"
  let ?s' = "fold (server_step st) es ?s1"
  have "left_behind (wc_user c) (od_get (sv_sessions ?s1) i)"
    using assms(2-5) by (simp add: in_session_def settle_def browser_closes_def left_behind_def)
  then have left: "left_behind (wc_user c) (od_get (sv_sessions ?s') i)" using assms(6) by (rule left_behind_steps)
  then obtain c' where "od_get (sv_sessions ?s') i = Some c'" "wc_user c' = wc_user c"
    by (auto simp: left_behind_def split: option.splits)
  then have "1 \<le> counted wc_user (sv_sessions ?s') (wc_user c)" using counted_present [of _ i c' wc_user] by simp
  moreover have "slots_ok (se_limits st) ?s'"
    using webcall.inv_run [of st "es0 @ BrowserCloses i True # es"] assms(1) by simp
  ultimately show ?thesis using left held_by_table [of wc_user "sv_sessions ?s'"] by (simp add: slots_ok_def Let_def)
qed

theorem closed_browser_keeps_slot_witness:
  "1 \<le> held_by (sl_by_user (sv_slots (fold (server_step admin_settings) (BrowserCloses 1 True # [Tick 3600])
      (fold (server_step admin_settings) (admin_connects 1) server_init)))) ''u1''"
proof -
  let ?s = "fold (server_step admin_settings) (admin_connects 1) server_init"
  let ?c = "(new_session ''u1'' ''acme'' ''a'' False False)
    \<lparr>wc_up := [OpenUp ''acme'' ''a'' False False], wc_reading := True, wc_relaying := True\<rparr>"
  have c: "od_get (sv_sessions ?s) 1 = Some ?c" by code_simp
  have "wc_reading ?c" "wc_relaying ?c" "wc_up ?c \<noteq> []" "\<forall>e\<in>set [Tick 3600]. silent_on 1 e" by simp_all
  from closed_browser_keeps_slot [OF refl c this] show ?thesis by (simp add: Let_def new_session_def)
qed

end
