(* ===== verification/Phone_Routing.thy ===== *)
theory Phone_Routing
  imports Agent_Store
begin

text \<open>
  From a dialled number to a tenant and an agent: \<^verbatim>\<open>services/config/phone_numbers.py\<close> with its router,
  the deletion of a tenant (\<^verbatim>\<open>tenants.py\<close>), and the lookup of the telephony bridge
  (\<^verbatim>\<open>services/vobiz/redis_route.py\<close>), on top of the tables of agents.

  Routes are cached in Redis under \<^verbatim>\<open>did:<number>\<close> without expiry. Whether Redis answers the n-th command
  of an operation is the argument \<open>up\<close>. Identifiers are numbers; \<open>created_at\<close> and \<open>updated_at\<close> are left
  out; of a carrier only whether it is deleted is kept.
\<close>

section \<open>Tables\<close>

record number_row =
  pn_tenant :: nat
  pn_did :: string
  pn_agent :: "nat option"
  pn_fallback :: "nat option"
  pn_carrier :: "nat option"
  pn_region :: "string option"
  pn_status :: string
  pn_deleted :: bool

record did_route =
  dr_tenant_slug :: string
  dr_agent_slug :: string
  dr_version :: "nat option"

record routing =
  rg_store :: agent_store
  rg_carriers :: "(nat, bool) odict"
  rg_numbers :: "(nat, number_row) odict"
  rg_audit :: "audit_row list"
  rg_next :: nat
  rg_redis :: "did_route cache"

datatype number_error = NoFields | UnknownField | NumberNotFound | NumberRefused | MissingReference | NotAllowed

datatype number_field =
    SetDid "string option"
  | SetAgent "nat option"
  | SetFallback "nat option"
  | SetCarrier "nat option"
  | SetRegion "string option"
  | SetStatus "string option"
  | OtherField string

definition did_key :: "string \<Rightarrow> string" where
  "did_key did = ''did:'' @ did"

section \<open>The route of a number\<close>

text \<open>The LEFT JOIN on an agent that is neither deleted nor deactivated.\<close>

definition active_agent :: "nat option \<Rightarrow> agent_store \<Rightarrow> agent_row option" where
  "active_agent a s =
     (case a of
        None \<Rightarrow> None
      | Some i \<Rightarrow>
          (case od_get (st_agents s) i of
             None \<Rightarrow> None
           | Some r \<Rightarrow>
               if ag_deleted_at r = None \<and> py_get (ag_fields r) ''status'' = PStr ''active'' then Some r else None))"

definition live_tenant :: "nat \<Rightarrow> agent_store \<Rightarrow> tenant_row option" where
  "live_tenant t s =
     (case od_get (st_tenants s) t of None \<Rightarrow> None | Some r \<Rightarrow> if t_deleted r then None else Some r)"

definition number_route :: "number_row \<Rightarrow> agent_store \<Rightarrow> did_route option" where
  "number_route n s =
     (if pn_status n \<noteq> ''active'' \<or> pn_deleted n then None
      else case live_tenant (pn_tenant n) s of
        None \<Rightarrow> None
      | Some t \<Rightarrow>
          Some (case active_agent (pn_agent n) s of
                  Some a \<Rightarrow> \<lparr>dr_tenant_slug = t_slug t, dr_agent_slug = ag_slug a, dr_version = Some (ag_version a)\<rparr>
                | None \<Rightarrow>
                    (case active_agent (pn_fallback n) s of
                       Some a \<Rightarrow> \<lparr>dr_tenant_slug = t_slug t, dr_agent_slug = ag_slug a, dr_version = Some (ag_version a)\<rparr>
                     | None \<Rightarrow> \<lparr>dr_tenant_slug = t_slug t, dr_agent_slug = ''default'', dr_version = None\<rparr>)))"

text \<open>The query of \<^verbatim>\<open>get_by_did\<close>; the column \<^verbatim>\<open>did\<close> is unique.\<close>

definition route_in :: "string \<Rightarrow> (nat, number_row) odict \<Rightarrow> agent_store \<Rightarrow> did_route option" where
  "route_in did ns s =
     (case find (\<lambda>p. pn_did (snd p) = did \<and> number_route (snd p) s \<noteq> None) ns of
        None \<Rightarrow> None
      | Some p \<Rightarrow> number_route (snd p) s)"

definition route_of :: "string \<Rightarrow> routing \<Rightarrow> did_route option" where
  "route_of did s = route_in did (rg_numbers s) (rg_store s)"

definition get_by_did :: "(nat \<Rightarrow> bool) \<Rightarrow> rat \<Rightarrow> string \<Rightarrow> routing \<Rightarrow> did_route option \<times> routing" where
  "get_by_did up now did s =
     (case cache_get_json (up 0) now (did_key did) (rg_redis s) of
        Some r \<Rightarrow> (Some r, s)
      | None \<Rightarrow>
          (case route_of did s of
             None \<Rightarrow> (None, s)
           | Some r \<Rightarrow> (Some r, s\<lparr>rg_redis := cache_set_json (up 1) now (did_key did) r None (rg_redis s)\<rparr>)))"

text \<open>\<^verbatim>\<open>prewarm\<close>: every active number once; each lookup sends two commands to Redis.\<close>

fun warm :: "(nat \<Rightarrow> bool) \<Rightarrow> rat \<Rightarrow> string list \<Rightarrow> routing \<Rightarrow> routing" where
  "warm up now [] s = s"
| "warm up now (d # ds) s = warm (\<lambda>n. up (n + 2)) now ds (snd (get_by_did up now d s))"

definition active_dids :: "routing \<Rightarrow> string list" where
  "active_dids s =
     map (pn_did \<circ> snd) (filter (\<lambda>p. pn_status (snd p) = ''active'' \<and> \<not> pn_deleted (snd p)) (rg_numbers s))"

definition prewarm :: "(nat \<Rightarrow> bool) \<Rightarrow> rat \<Rightarrow> routing \<Rightarrow> nat \<times> routing" where
  "prewarm up now s = (length (active_dids s), warm up now (active_dids s) s)"

text \<open>\<^verbatim>\<open>resolve_did\<close> of the bridge: Redis only, the default tenant and agent on a miss or an outage.\<close>

definition resolve_did :: "bool \<Rightarrow> rat \<Rightarrow> string \<Rightarrow> routing \<Rightarrow> string \<times> string" where
  "resolve_did up now did s =
     (case cache_get_json up now (did_key did) (rg_redis s) of
        None \<Rightarrow> (''default'', ''default'')
      | Some r \<Rightarrow> (dr_tenant_slug r, dr_agent_slug r))"

section \<open>Writing numbers\<close>

definition number_audit :: "nat \<Rightarrow> string \<Rightarrow> nat option \<Rightarrow> string option \<Rightarrow> routing \<Rightarrow> routing" where
  "number_audit i action uid email s =
     s\<lparr>rg_audit := rg_audit s @ [\<lparr>au_entity_type = ''phone_number'', au_entity_id = i, au_action = action,
          au_user_id = uid, au_user_email = email\<rparr>]\<rparr>"

text \<open>The foreign keys, the CHECK on the status and the uniqueness of \<^verbatim>\<open>did\<close>, deleted rows included.\<close>

definition reference_ok :: "nat option \<Rightarrow> (nat, 'v) odict \<Rightarrow> bool" where
  "reference_ok r table = (case r of None \<Rightarrow> True | Some i \<Rightarrow> od_get table i \<noteq> None)"

definition number_ok :: "nat \<Rightarrow> number_row \<Rightarrow> routing \<Rightarrow> bool" where
  "number_ok i n s =
     (od_get (st_tenants (rg_store s)) (pn_tenant n) \<noteq> None \<and>
      reference_ok (pn_agent n) (st_agents (rg_store s)) \<and>
      reference_ok (pn_fallback n) (st_agents (rg_store s)) \<and>
      reference_ok (pn_carrier n) (rg_carriers s) \<and>
      pn_status n \<in> {''active'', ''inactive'', ''suspended''} \<and>
      list_all (\<lambda>p. fst p = i \<or> pn_did (snd p) \<noteq> pn_did n) (rg_numbers s))"

definition create_phone_number ::
  "(nat \<Rightarrow> bool) \<Rightarrow> rat \<Rightarrow> nat \<Rightarrow> string \<Rightarrow> nat option \<Rightarrow> nat option \<Rightarrow> nat option \<Rightarrow> string option \<Rightarrow>
   string \<Rightarrow> nat option \<Rightarrow> string option \<Rightarrow> routing \<Rightarrow> number_error + (number_row \<times> routing)"
where
  "create_phone_number up now t did agent fallback carrier region status uid email s =
     (let i = rg_next s;
          n = \<lparr>pn_tenant = t, pn_did = did, pn_agent = agent, pn_fallback = fallback, pn_carrier = carrier,
               pn_region = region, pn_status = status, pn_deleted = False\<rparr> in
      if \<not> number_ok i n s then Inl NumberRefused
      else Inr (n, snd (get_by_did up now did
                    (number_audit i ''created'' uid email
                      (s\<lparr>rg_numbers := od_set i n (rg_numbers s), rg_next := Suc i\<rparr>)))))"

text \<open>One column of the SET clause; \<^verbatim>\<open>did\<close> and \<^verbatim>\<open>status\<close> are NOT NULL.\<close>

fun set_number_field :: "number_field \<Rightarrow> number_row option \<Rightarrow> number_row option" where
  "set_number_field f None = None"
| "set_number_field (SetDid (Some d)) (Some n) = Some (n\<lparr>pn_did := d\<rparr>)"
| "set_number_field (SetDid None) (Some n) = None"
| "set_number_field (SetAgent a) (Some n) = Some (n\<lparr>pn_agent := a\<rparr>)"
| "set_number_field (SetFallback a) (Some n) = Some (n\<lparr>pn_fallback := a\<rparr>)"
| "set_number_field (SetCarrier c) (Some n) = Some (n\<lparr>pn_carrier := c\<rparr>)"
| "set_number_field (SetRegion r) (Some n) = Some (n\<lparr>pn_region := r\<rparr>)"
| "set_number_field (SetStatus (Some t)) (Some n) = Some (n\<lparr>pn_status := t\<rparr>)"
| "set_number_field (SetStatus None) (Some n) = None"
| "set_number_field (OtherField _) (Some n) = Some n"

definition is_other :: "number_field \<Rightarrow> bool" where
  "is_other f = (case f of OtherField _ \<Rightarrow> True | _ \<Rightarrow> False)"

text \<open>The write-through after the transaction: first the keys go, then the new number is read again.\<close>

definition write_through :: "(nat \<Rightarrow> bool) \<Rightarrow> rat \<Rightarrow> string \<Rightarrow> string \<Rightarrow> routing \<Rightarrow> routing" where
  "write_through up now old_did new_did s =
     (let first = (if old_did \<noteq> new_did then 1 else 0);
          s1 = (if old_did \<noteq> new_did
                then s\<lparr>rg_redis := cache_invalidate (up 0) [did_key old_did] (rg_redis s)\<rparr> else s);
          s2 = s1\<lparr>rg_redis := cache_invalidate (up first) [did_key new_did] (rg_redis s1)\<rparr>
      in snd (get_by_did (\<lambda>n. up (n + first + 1)) now new_did s2))"

definition update_phone_number ::
  "(nat \<Rightarrow> bool) \<Rightarrow> rat \<Rightarrow> nat \<Rightarrow> number_field list \<Rightarrow> nat option \<Rightarrow> string option \<Rightarrow> routing \<Rightarrow>
   number_error + (number_row \<times> routing)"
where
  "update_phone_number up now i fs uid email s =
     (if fs = [] then Inl NoFields
      else if list_ex is_other fs then Inl UnknownField
      else case od_get (rg_numbers s) i of
        None \<Rightarrow> Inl NumberNotFound
      | Some old \<Rightarrow>
          (case fold set_number_field fs (Some old) of
             None \<Rightarrow> Inl NumberRefused
           | Some n \<Rightarrow>
               if \<not> number_ok i n s then Inl NumberRefused
               else Inr (n, write_through up now (pn_did old) (pn_did n)
                              (number_audit i ''updated'' uid email (s\<lparr>rg_numbers := od_set i n (rg_numbers s)\<rparr>)))))"

definition soft_delete_phone_number ::
  "bool \<Rightarrow> nat \<Rightarrow> nat option \<Rightarrow> string option \<Rightarrow> routing \<Rightarrow> number_error + routing" where
  "soft_delete_phone_number up i uid email s =
     (case od_get (rg_numbers s) i of
        None \<Rightarrow> Inl NumberNotFound
      | Some old \<Rightarrow>
          let s1 = number_audit i ''deleted'' uid email
                     (s\<lparr>rg_numbers := od_set i (old\<lparr>pn_deleted := True\<rparr>) (rg_numbers s)\<rparr>)
          in Inr (s1\<lparr>rg_redis := cache_invalidate up [did_key (pn_did old)] (rg_redis s1)\<rparr>))"

definition get_phone_number :: "nat \<Rightarrow> routing \<Rightarrow> number_row option" where
  "get_phone_number i s =
     (case od_get (rg_numbers s) i of None \<Rightarrow> None | Some n \<Rightarrow> if pn_deleted n then None else Some n)"

section \<open>The routes of the API\<close>

text \<open>
  The checks of the router: the role, then every identifier of the body, which has to name a live row.
  They look neither at the tenant of the actor nor at the tenant of an agent or a carrier.
\<close>

definition may_write :: "claims \<Rightarrow> bool" where
  "may_write c = (a_role c = SUPERADMIN \<or> a_role c = ADMIN)"

definition agent_exists :: "nat option \<Rightarrow> routing \<Rightarrow> bool" where
  "agent_exists a s = (case a of None \<Rightarrow> True | Some i \<Rightarrow> get_agent_by_id i (rg_store s) \<noteq> None)"

definition carrier_exists :: "nat option \<Rightarrow> routing \<Rightarrow> bool" where
  "carrier_exists c s = (case c of None \<Rightarrow> True | Some i \<Rightarrow> od_get (rg_carriers s) i = Some False)"

definition create_number_request ::
  "(nat \<Rightarrow> bool) \<Rightarrow> rat \<Rightarrow> claims \<Rightarrow> nat \<Rightarrow> string \<Rightarrow> nat option \<Rightarrow> nat option \<Rightarrow> nat option \<Rightarrow> string option \<Rightarrow>
   string \<Rightarrow> routing \<Rightarrow> number_error + (number_row \<times> routing)"
where
  "create_number_request up now c t did agent fallback carrier region status s =
     (if \<not> may_write c then Inl NotAllowed
      else if live_tenant t (rg_store s) = None \<or> \<not> agent_exists agent s \<or> \<not> agent_exists fallback s \<or>
              \<not> carrier_exists carrier s then Inl MissingReference
      else create_phone_number up now t did agent fallback carrier region status (Some (a_id c)) (Some (a_email c)) s)"

definition field_exists :: "number_field \<Rightarrow> routing \<Rightarrow> bool" where
  "field_exists f s =
     (case f of
        SetAgent a \<Rightarrow> agent_exists a s
      | SetFallback a \<Rightarrow> agent_exists a s
      | SetCarrier c \<Rightarrow> carrier_exists c s
      | _ \<Rightarrow> True)"

definition update_number_request ::
  "(nat \<Rightarrow> bool) \<Rightarrow> rat \<Rightarrow> claims \<Rightarrow> nat \<Rightarrow> number_field list \<Rightarrow> routing \<Rightarrow> number_error + (number_row \<times> routing)"
where
  "update_number_request up now c i fs s =
     (if \<not> may_write c then Inl NotAllowed
      else if fs = [] then Inl NoFields
      else if list_ex (\<lambda>f. \<not> field_exists f s) fs then Inl MissingReference
      else update_phone_number up now i fs (Some (a_id c)) (Some (a_email c)) s)"

definition soft_delete_tenant :: "nat \<Rightarrow> routing \<Rightarrow> routing" where
  "soft_delete_tenant t s =
     (case od_get (st_tenants (rg_store s)) t of
        None \<Rightarrow> s
      | Some r \<Rightarrow>
          s\<lparr>rg_store := store_audit ''tenant'' t ''deleted'' None None
             (rg_store s\<lparr>st_tenants := od_set t (r\<lparr>t_deleted := True\<rparr>) (st_tenants (rg_store s))\<rparr>)\<rparr>)"

section \<open>Events\<close>

datatype routing_event =
    Lookup "nat \<Rightarrow> bool" rat string
  | Prewarm "nat \<Rightarrow> bool" rat
  | CreateNumber "nat \<Rightarrow> bool" rat nat string "nat option" "nat option" "nat option" "string option" string
      "nat option" "string option"
  | UpdateNumber "nat \<Rightarrow> bool" rat nat "number_field list" "nat option" "string option"
  | DeleteNumber "nat \<Rightarrow> bool" nat "nat option" "string option"
  | AgentRequest store_event
  | DeleteTenant nat

definition new_state :: "routing \<Rightarrow> number_error + ('r \<times> routing) \<Rightarrow> routing" where
  "new_state s r = (case r of Inl _ \<Rightarrow> s | Inr p \<Rightarrow> snd p)"

fun routing_step :: "(string list \<Rightarrow> string list) \<Rightarrow> routing_event \<Rightarrow> routing \<Rightarrow> routing" where
  "routing_step order (Lookup up now did) s = snd (get_by_did up now did s)"
| "routing_step order (Prewarm up now) s = snd (prewarm up now s)"
| "routing_step order (CreateNumber up now t did a b c region status uid email) s =
     new_state s (create_phone_number up now t did a b c region status uid email s)"
| "routing_step order (UpdateNumber up now i fs uid email) s =
     new_state s (update_phone_number up now i fs uid email s)"
| "routing_step order (DeleteNumber up i uid email) s =
     (case soft_delete_phone_number (up 0) i uid email s of Inl _ \<Rightarrow> s | Inr s' \<Rightarrow> s')"
| "routing_step order (AgentRequest e) s = s\<lparr>rg_store := agents_step order e (rg_store s)\<rparr>"
| "routing_step order (DeleteTenant t) s = soft_delete_tenant t s"

section \<open>The cache and the tables\<close>



lemma did_key_inj [simp]: "did_key d = did_key e \<longleftrightarrow> d = e"
  by (simp add: did_key_def)

lemma route_cong: "rg_numbers s' = rg_numbers s \<Longrightarrow> rg_store s' = rg_store s \<Longrightarrow> route_of d s' = route_of d s"
  by (simp add: route_of_def)

lemma route_redis [simp]: "route_of d (s\<lparr>rg_redis := c\<rparr>) = route_of d s"
  by (simp add: route_of_def)





lemma frame_get_by_did [simp]:
  "rg_numbers (snd (get_by_did up now d s)) = rg_numbers s"
  "rg_store (snd (get_by_did up now d s)) = rg_store s"
  "rg_next (snd (get_by_did up now d s)) = rg_next s"
  "route_of e (snd (get_by_did up now d s)) = route_of e s"
  by (auto simp: get_by_did_def split: option.splits)

text \<open>A lookup writes the current route or nothing.\<close>

lemma redis_get_by_did:
  "od_get (rg_redis (snd (get_by_did up now d s))) (did_key e) =
     (if e = d \<and> cache_get_json (up 0) now (did_key d) (rg_redis s) = None \<and> up 1 \<and> route_of d s \<noteq> None
      then map_option (\<lambda>r. (r, None)) (route_of d s)
      else od_get (rg_redis s) (did_key e))"
  by (auto simp: get_by_did_def cache_set_json_def split: option.splits)


lemma cache_miss: "od_get c k = None \<Longrightarrow> cache_get_json up now k c = None"
  by (simp add: cache_get_json_def)


lemma frame_warm [simp]:
  "rg_numbers (warm up now ds s) = rg_numbers s" "rg_store (warm up now ds s) = rg_store s"
  "rg_next (warm up now ds s) = rg_next s"
  by (induction up now ds s rule: warm.induct) simp_all




section \<open>Redis and PostgreSQL in lockstep\<close>




lemma audit_frame [simp]:
  "rg_numbers (number_audit i a u m s) = rg_numbers s" "rg_store (number_audit i a u m s) = rg_store s"
  "rg_next (number_audit i a u m s) = rg_next s" "rg_redis (number_audit i a u m s) = rg_redis s"
  by (simp_all add: number_audit_def)












section \<open>What a cached route says\<close>

text \<open>The events that write no number, with a Redis that answers the reads.\<close>

definition writes_no_number :: "routing_event \<Rightarrow> bool" where
  "writes_no_number e =
     (case e of
        Lookup up _ _ \<Rightarrow> (\<forall>n. up n)
      | Prewarm up _ \<Rightarrow> (\<forall>n. up n)
      | AgentRequest _ \<Rightarrow> True
      | DeleteTenant _ \<Rightarrow> True
      | _ \<Rightarrow> False)"

lemma cached_kept:
  assumes "od_get (rg_redis s) (did_key d) = Some (r, None)" and "\<And>n. up n"
  shows "od_get (rg_redis (snd (get_by_did up now e s))) (did_key d) = Some (r, None)"
  using assms(1) by (auto simp: redis_get_by_did cache_get_json_def assms(2))

lemma cached_kept_warm:
  assumes "\<And>n. up n" and "od_get (rg_redis s) (did_key d) = Some (r, None)"
  shows "od_get (rg_redis (warm up now ds s)) (did_key d) = Some (r, None)"
  using assms
proof (induction up now ds s rule: warm.induct)
  case (2 up now e es s)
  have "od_get (rg_redis (warm (\<lambda>n. up (n + 2)) now es (snd (get_by_did up now e s)))) (did_key d) = Some (r, None)"
    using "2.IH" "2.prems" cached_kept [of s d r up now e] by blast
  then show ?case by (simp only: warm.simps)
qed simp

lemma quiet_step:
  assumes "od_get (rg_redis s) (did_key d) = Some (r, None)" and "writes_no_number e"
  shows "od_get (rg_redis (routing_step order e s)) (did_key d) = Some (r, None)"
proof (cases e)
  case (Lookup up now f)
  then show ?thesis using assms cached_kept [of s d r up now f] by (simp add: writes_no_number_def)
next
  case (Prewarm up now)
  then show ?thesis using assms cached_kept_warm [of up s d r now "active_dids s"] by (simp add: writes_no_number_def prewarm_def)
next
  case (DeleteTenant t)
  then show ?thesis using assms by (simp add: soft_delete_tenant_def split: option.splits)
qed (use assms in \<open>simp_all add: writes_no_number_def\<close>)

lemma quiet_run:
  "od_get (rg_redis s) (did_key d) = Some (r, None) \<Longrightarrow> \<forall>e \<in> set es. writes_no_number e \<Longrightarrow>
     od_get (rg_redis (fold (routing_step order) es s)) (did_key d) = Some (r, None)"
  by (induction es arbitrary: s) (simp_all add: quiet_step)

text \<open>Every entry of the cache is one it had before the event or the route the tables hold after it.\<close>

definition refreshed :: "routing \<Rightarrow> routing \<Rightarrow> bool" where
  "refreshed s s' \<longleftrightarrow>
     (\<forall>d x. od_get (rg_redis s') (did_key d) = Some x \<longrightarrow>
        od_get (rg_redis s) (did_key d) = Some x \<or> (\<exists>r. x = (r, None) \<and> route_of d s' = Some r))"

lemma refreshedD:
  "refreshed s s' \<Longrightarrow> od_get (rg_redis s') (did_key d) = Some x \<Longrightarrow>
     od_get (rg_redis s) (did_key d) = Some x \<or> (\<exists>r. x = (r, None) \<and> route_of d s' = Some r)"
  unfolding refreshed_def by blast

lemma refreshed_same [simp]: "rg_redis s' = rg_redis s \<Longrightarrow> refreshed s s'"
  by (simp add: refreshed_def)

lemma refreshed_get_by_did: "refreshed s t \<Longrightarrow> refreshed s (snd (get_by_did up now e t))"
  by (auto simp: refreshed_def redis_get_by_did split: if_splits)

lemma refreshed_warm: "refreshed s t \<Longrightarrow> refreshed s (warm up now ds t)"
  by (induction up now ds t rule: warm.induct) (simp_all add: refreshed_get_by_did)

lemma od_get_fold_del: "od_get (fold od_del ks c) k = (if k \<in> set ks then None else od_get c k)"
  by (induction ks arbitrary: c) auto

lemma od_get_invalidate: "od_get (cache_invalidate up ks c) k = Some x \<Longrightarrow> od_get c k = Some x"
  by (auto simp: cache_invalidate_def od_get_fold_del split: if_splits)

lemma refreshed_invalidate:
  "refreshed s t \<Longrightarrow> refreshed s (t\<lparr>rg_redis := cache_invalidate up ks (rg_redis t)\<rparr>)"
  by (auto simp: refreshed_def dest!: od_get_invalidate)

lemma refreshed_write_through: "refreshed s t \<Longrightarrow> refreshed s (write_through up now a b t)"
  by (auto simp: write_through_def Let_def intro!: refreshed_get_by_did
      refreshed_invalidate [of s "t\<lparr>rg_redis := _\<rparr>", simplified] refreshed_invalidate)

lemma refreshed_create:
  "create_phone_number up now t did a b c region status uid email s = Inr (n, s') \<Longrightarrow> refreshed s s'"
  by (auto simp: create_phone_number_def Let_def intro!: refreshed_get_by_did split: if_splits)

lemma refreshed_update: "update_phone_number up now i fs uid email s = Inr (n, s') \<Longrightarrow> refreshed s s'"
  by (auto simp: update_phone_number_def intro!: refreshed_write_through split: if_splits option.splits)

lemma refreshed_delete: "soft_delete_phone_number up i uid email s = Inr s' \<Longrightarrow> refreshed s s'"
  by (auto simp: soft_delete_phone_number_def Let_def refreshed_def dest!: od_get_invalidate split: option.splits)

lemma refreshed_step: "refreshed s (routing_step order e s)"
proof (cases e)
  case (CreateNumber up now t did a b c region status uid email)
  then show ?thesis by (auto simp: new_state_def dest: refreshed_create split: sum.splits)
next
  case (UpdateNumber up now i fs uid email)
  then show ?thesis by (auto simp: new_state_def dest: refreshed_update split: sum.splits)
next
  case (DeleteNumber up i uid email)
  then show ?thesis by (auto dest: refreshed_delete split: sum.splits)
qed (simp_all add: refreshed_get_by_did refreshed_warm prewarm_def soft_delete_tenant_def split: option.splits)

section \<open>Main results\<close>


text \<open>
  Nothing that happens to agents and tenants reaches a cached route: however the agents are changed,
  deactivated or deleted, the tenant deleted, the numbers looked up or the cache prewarmed by a restart,
  a dialled number keeps resolving to the route it had.
\<close>

theorem agent_changes_miss_routes:
  assumes "od_get (rg_redis s) (did_key did) = Some (r, None)" and "\<forall>e \<in> set es. writes_no_number e"
  shows "resolve_did True t did (fold (routing_step order) es s) = (dr_tenant_slug r, dr_agent_slug r) \<and>
    (\<forall>up now. up 0 \<longrightarrow> fst (get_by_did up now did (fold (routing_step order) es s)) = Some r)"
  using quiet_run [OF assms] by (simp add: resolve_did_def cache_get_json_def get_by_did_def)

text \<open>
  Whatever Redis fails to answer, in any order of requests, a cached route is never invented: it was
  the route the tables held for that number at some earlier moment.
\<close>

theorem cached_route_was_true:
  assumes "rg_redis s = []"
    and "od_get (rg_redis (fold (routing_step order) es s)) (did_key did) = Some x"
  shows "\<exists>n r. n \<le> length es \<and> x = (r, None) \<and> route_of did (fold (routing_step order) (take n es) s) = Some r"
  using assms(2)
proof (induction es rule: rev_induct)
  case Nil
  then show ?case using assms(1) by (simp add: od_get_def)
next
  case (snoc e es)
  let ?s = "fold (routing_step order) es s"
  consider (old) "od_get (rg_redis ?s) (did_key did) = Some x"
    | (new) r where "x = (r, None)" "route_of did (routing_step order e ?s) = Some r"
    using refreshedD [OF refreshed_step, of order e ?s did x] snoc.prems by auto
  then show ?case
  proof cases
    case old
    then obtain n r where "n \<le> length es" "x = (r, None)" "route_of did (fold (routing_step order) (take n es) s) = Some r"
      using snoc.IH by blast
    then show ?thesis by (intro exI [of _ n] exI [of _ r]) simp
  next
    case new
    then show ?thesis by (intro exI [of _ "Suc (length es)"] exI [of _ r]) simp
  qed
qed

section \<open>A deactivated agent keeps its calls\<close>

definition sample_number :: number_row where
  "sample_number = \<lparr>pn_tenant = 1, pn_did = ''+1'', pn_agent = Some 0, pn_fallback = None, pn_carrier = None,
     pn_region = None, pn_status = ''active'', pn_deleted = False\<rparr>"

definition sample_routing :: routing where
  "sample_routing = \<lparr>rg_store = sample_store, rg_carriers = [], rg_numbers = [(0, sample_number)], rg_audit = [],
     rg_next = 1, rg_redis = []\<rparr>"

definition sample_route :: did_route where
  "sample_route = \<lparr>dr_tenant_slug = ''acme'', dr_agent_slug = ''bot'', dr_version = Some 1\<rparr>"

lemma sample_route_of: "route_of ''+1'' sample_routing = Some sample_route"
  by code_simp



theorem cached_route_was_true_witness:
  "\<exists>n r. n \<le> 1 \<and> r = sample_route \<and>
     route_of ''+1'' (fold (routing_step (\<lambda>xs. xs)) (take n [Lookup (\<lambda>_. True) 0 ''+1'']) sample_routing) = Some r"
proof -
  have c: "rg_redis sample_routing = []" by (simp add: sample_routing_def)
  have "od_get (rg_redis (fold (routing_step (\<lambda>xs. xs)) [Lookup (\<lambda>_. True) 0 ''+1''] sample_routing)) (did_key ''+1'')
      = Some (sample_route, None)"
    using sample_route_of redis_get_by_did [of "\<lambda>_. True" 0 "''+1''" sample_routing "''+1''"]
    by (simp add: cache_miss c od_get_def)
  from cached_route_was_true [OF c this] obtain n r where
    "n \<le> length [Lookup (\<lambda>_. True) 0 ''+1'']" "(sample_route, None) = (r, None)"
    "route_of ''+1'' (fold (routing_step (\<lambda>xs. xs)) (take n [Lookup (\<lambda>_. True) 0 ''+1'']) sample_routing) = Some r"
    by blast
  then show ?thesis by (intro exI [of _ n] exI [of _ r] conjI) (simp_all del: fold.simps)
qed

definition warmed_routing :: routing where
  "warmed_routing = sample_routing\<lparr>rg_redis := [(did_key ''+1'', (sample_route, None))]\<rparr>"

definition deactivate :: routing_event where
  "deactivate = AgentRequest (Update True 0 ''acme'' [(''status'', PStr ''inactive'')] None None)"

lemma deactivated_route:
  "route_of ''+1'' (routing_step (\<lambda>xs. xs) deactivate warmed_routing) =
     Some \<lparr>dr_tenant_slug = ''acme'', dr_agent_slug = ''default'', dr_version = None\<rparr>"
  by code_simp

theorem agent_changes_miss_routes_witness:
  "resolve_did True 0 ''+1'' (fold (routing_step (\<lambda>xs. xs)) [deactivate, Prewarm (\<lambda>_. True) 0] warmed_routing)
     = (''acme'', ''bot'') \<and>
   route_of ''+1'' (fold (routing_step (\<lambda>xs. xs)) [deactivate, Prewarm (\<lambda>_. True) 0] warmed_routing)
     = Some \<lparr>dr_tenant_slug = ''acme'', dr_agent_slug = ''default'', dr_version = None\<rparr>"
proof -
  have "od_get (rg_redis warmed_routing) (did_key ''+1'') = Some (sample_route, None)"
    by (simp add: warmed_routing_def od_get_def)
  then have "resolve_did True 0 ''+1'' (fold (routing_step (\<lambda>xs. xs)) [deactivate, Prewarm (\<lambda>_. True) 0] warmed_routing)
     = (dr_tenant_slug sample_route, dr_agent_slug sample_route)"
    by (rule agent_changes_miss_routes [THEN conjunct1]) (simp add: writes_no_number_def deactivate_def)
  moreover have "route_of ''+1'' (fold (routing_step (\<lambda>xs. xs)) [deactivate, Prewarm (\<lambda>_. True) 0] warmed_routing)
     = route_of ''+1'' (routing_step (\<lambda>xs. xs) deactivate warmed_routing)"
    by (simp add: route_of_def prewarm_def)
  ultimately show ?thesis using deactivated_route by (simp add: sample_route_def)
qed

text \<open>An invalidation that Redis does not answer leaves a route without expiry behind, for good.\<close>

lemma missed_invalidation_stays:
  assumes "update_phone_number (\<lambda>_. False) now i fs uid email s = Inr (n, s')"
  shows "rg_redis s' = rg_redis s"
  using assms
  by (auto simp: update_phone_number_def write_through_def Let_def get_by_did_def cache_invalidate_def
      cache_set_json_def split: if_splits option.splits)

text \<open>The router never compares tenants: an admin of one tenant writes the numbers of another.\<close>

lemma foreign_admin_moves_number:
  assumes "a_role c = ADMIN" and "a_tenant c = Some t" and "fs \<noteq> []" and "list_all (\<lambda>f. field_exists f s) fs"
  shows "update_number_request up now c i fs s = update_phone_number up now i fs (Some (a_id c)) (Some (a_email c)) s"
  using assms by (auto simp: update_number_request_def may_write_def list_ex_iff list_all_iff)

end
