(* ===== verification/Rate_Limit.thy ===== *)
theory Rate_Limit
  imports Py_Values
begin

text \<open>
  The rate limits of the invitation routes (\<^verbatim>\<open>services/config/app.py\<close>: \<^verbatim>\<open>FixedWindowCounter\<close>,
  \<^verbatim>\<open>InviteThrottle\<close>, \<^verbatim>\<open>AcceptThrottle\<close>). Every reading of the monotonic clock is an argument, a rational
  number of seconds; each public method of a counter reads it once.
\<close>

section \<open>Fixed windows\<close>

definition SWEEP_THRESHOLD :: nat where
  "SWEEP_THRESHOLD = 1000"

definition SWEEP_INTERVAL :: nat where
  "SWEEP_INTERVAL = 500"

definition MAX_BUCKETS :: nat where
  "MAX_BUCKETS = 20000"

record counter =
  fw_limit :: nat
  fw_window :: rat
  fw_buckets :: "(string, rat \<times> nat) odict"
  fw_since :: nat

definition counter_init :: "nat \<Rightarrow> rat \<Rightarrow> counter" where
  "counter_init limit window = \<lparr>fw_limit = limit, fw_window = window, fw_buckets = [], fw_since = 0\<rparr>"

definition evict_stale :: "rat \<Rightarrow> counter \<Rightarrow> counter" where
  "evict_stale now c =
     c\<lparr>fw_buckets := filter (\<lambda>(k, start, n). \<not> fw_window c \<le> now - start) (fw_buckets c)\<rparr>"

definition maybe_sweep :: "rat \<Rightarrow> counter \<Rightarrow> counter" where
  "maybe_sweep now c =
     (if length (fw_buckets c) \<le> SWEEP_THRESHOLD then evict_stale now (c\<lparr>fw_since := 0\<rparr>)
      else
        let c1 = c\<lparr>fw_since := Suc (fw_since c)\<rparr>
        in if SWEEP_INTERVAL \<le> fw_since c1 then evict_stale now (c1\<lparr>fw_since := 0\<rparr>) else c1)"

definition at_capacity_for_new_key :: "string \<Rightarrow> counter \<Rightarrow> bool" where
  "at_capacity_for_new_key key c \<longleftrightarrow> od_get (fw_buckets c) key = None \<and> MAX_BUCKETS \<le> length (fw_buckets c)"

definition refuse_new_key :: "string \<Rightarrow> rat \<Rightarrow> counter \<Rightarrow> bool \<times> counter" where
  "refuse_new_key key now c =
     (if \<not> at_capacity_for_new_key key c then (False, c)
      else let c1 = evict_stale now (c\<lparr>fw_since := 0\<rparr>) in (at_capacity_for_new_key key c1, c1))"

definition current_window :: "string \<Rightarrow> rat \<Rightarrow> counter \<Rightarrow> rat \<times> nat" where
  "current_window key now c =
     (let (start, n) = (case od_get (fw_buckets c) key of Some b \<Rightarrow> b | None \<Rightarrow> (now, 0))
      in if fw_window c \<le> now - start then (now, 0) else (start, n))"

text \<open>The answer of \<^verbatim>\<open>over_limit\<close> is \<open>Some\<close> of the seconds to wait, or \<open>None\<close> below the limit.\<close>

definition over_limit :: "string \<Rightarrow> rat \<Rightarrow> counter \<Rightarrow> int option \<times> counter" where
  "over_limit key now c =
     (let (refused, c1) = refuse_new_key key now (maybe_sweep now c)
      in if refused then (Some (trunc_rat (fw_window c1)), c1)
         else
           let (start, n) = current_window key now c1
           in if fw_limit c1 \<le> n then (Some (trunc_rat (fw_window c1 - (now - start)) + 1), c1) else (None, c1))"

definition increment_key :: "string \<Rightarrow> rat \<Rightarrow> counter \<Rightarrow> counter" where
  "increment_key key now c =
     (let (refused, c1) = refuse_new_key key now (maybe_sweep now c)
      in if refused then c1
         else
           let (start, n) = current_window key now c1
           in c1\<lparr>fw_buckets := od_set key (start, Suc n) (fw_buckets c1)\<rparr>)"

section \<open>Throttles\<close>

record invite_throttle =
  it_probe :: counter
  it_send :: counter

definition invite_throttle_init :: invite_throttle where
  "invite_throttle_init = \<lparr>it_probe = counter_init 30 3600, it_send = counter_init 20 3600\<rparr>"

text \<open>\<open>Some seconds\<close> is the response 429 with its \<^verbatim>\<open>Retry-After\<close>.\<close>

definition check_probe :: "string \<Rightarrow> rat \<Rightarrow> rat \<Rightarrow> invite_throttle \<Rightarrow> int option \<times> invite_throttle" where
  "check_probe actor t1 t2 th =
     (case over_limit actor t1 (it_probe th) of
        (Some s, c) \<Rightarrow> (Some s, th\<lparr>it_probe := c\<rparr>)
      | (None, c) \<Rightarrow> (None, th\<lparr>it_probe := increment_key actor t2 c\<rparr>))"

definition check_send_cap :: "string \<Rightarrow> rat \<Rightarrow> invite_throttle \<Rightarrow> int option \<times> invite_throttle" where
  "check_send_cap actor t th = (case over_limit actor t (it_send th) of (r, c) \<Rightarrow> (r, th\<lparr>it_send := c\<rparr>))"

definition record_send :: "string \<Rightarrow> rat \<Rightarrow> invite_throttle \<Rightarrow> invite_throttle" where
  "record_send actor t th = th\<lparr>it_send := increment_key actor t (it_send th)\<rparr>"

record accept_throttle =
  at_minute :: counter
  at_hour :: counter

definition accept_throttle_init :: accept_throttle where
  "accept_throttle_init = \<lparr>at_minute = counter_init 10 60, at_hour = counter_init 50 3600\<rparr>"

text \<open>The four readings of the clock of one check, in the order of the calls.\<close>

record readings =
  rd_minute :: rat
  rd_hour :: rat
  rd_minute_inc :: rat
  rd_hour_inc :: rat

definition accept_check :: "string \<Rightarrow> readings \<Rightarrow> accept_throttle \<Rightarrow> int option \<times> accept_throttle" where
  "accept_check host rd th =
     (case over_limit host (rd_minute rd) (at_minute th) of
        (Some s, m) \<Rightarrow> (Some s, th\<lparr>at_minute := m\<rparr>)
      | (None, m) \<Rightarrow>
          (case over_limit host (rd_hour rd) (at_hour th) of
             (Some s, h) \<Rightarrow> (Some s, th\<lparr>at_minute := m, at_hour := h\<rparr>)
           | (None, h) \<Rightarrow>
               (None, th\<lparr>at_minute := increment_key host (rd_minute_inc rd) m,
                         at_hour := increment_key host (rd_hour_inc rd) h\<rparr>)))"

section \<open>Memory\<close>

definition fw_ok :: "counter \<Rightarrow> bool" where
  "fw_ok c \<longleftrightarrow> od_ok (fw_buckets c) \<and> length (fw_buckets c) \<le> MAX_BUCKETS"

datatype counter_op = OverLimit string rat | Increment string rat

fun counter_step :: "counter_op \<Rightarrow> counter \<Rightarrow> counter" where
  "counter_step (OverLimit key now) c = snd (over_limit key now c)"
| "counter_step (Increment key now) c = increment_key key now c"

lemma evict_simps [simp]:
  "fw_limit (evict_stale now c) = fw_limit c" "fw_window (evict_stale now c) = fw_window c"
  by (simp_all add: evict_stale_def)

lemma sweep_simps [simp]:
  "fw_limit (maybe_sweep now c) = fw_limit c" "fw_window (maybe_sweep now c) = fw_window c"
  by (simp_all add: maybe_sweep_def Let_def)

lemma refuse_simps [simp]:
  "fw_limit (snd (refuse_new_key key now c)) = fw_limit c" "fw_window (snd (refuse_new_key key now c)) = fw_window c"
  by (simp_all add: refuse_new_key_def Let_def)

lemma evict_ok: "fw_ok c \<Longrightarrow> fw_ok (evict_stale now c)"
  by (auto simp: fw_ok_def evict_stale_def distinct_map_filter intro: order_trans [OF length_filter_le])

lemma since_ok [simp]: "fw_ok (c\<lparr>fw_since := n\<rparr>) = fw_ok c"
  by (simp add: fw_ok_def)

lemma sweep_ok: "fw_ok c \<Longrightarrow> fw_ok (maybe_sweep now c)"
  by (simp add: maybe_sweep_def Let_def evict_ok)

lemma refuse_ok: "fw_ok c \<Longrightarrow> fw_ok (snd (refuse_new_key key now c))"
  by (simp add: refuse_new_key_def Let_def evict_ok)

lemma admitted_room:
  "refuse_new_key key now c = (False, c1) \<Longrightarrow> \<not> at_capacity_for_new_key key c1"
  by (auto simp: refuse_new_key_def Let_def split: if_splits)

lemma over_limit_counter:
  "snd (over_limit key now c) = snd (refuse_new_key key now (maybe_sweep now c))"
  by (auto simp: over_limit_def Let_def split: prod.split)

lemma over_limit_ok: "fw_ok c \<Longrightarrow> fw_ok (snd (over_limit key now c))"
  by (simp add: over_limit_counter refuse_ok sweep_ok)

lemma increment_ok: "fw_ok c \<Longrightarrow> fw_ok (increment_key key now c)"
proof -
  assume c: "fw_ok c"
  obtain refused c1 where r: "refuse_new_key key now (maybe_sweep now c) = (refused, c1)" by fastforce
  have c1: "fw_ok c1" using refuse_ok [OF sweep_ok [OF c], of key now now] r by simp
  show ?thesis
  proof (cases refused)
    case False
    then have "\<not> at_capacity_for_new_key key c1" using admitted_room r by simp
    then show ?thesis using c1 r False
      by (auto simp: increment_key_def fw_ok_def at_capacity_for_new_key_def length_od_set split: prod.split)
  qed (use r c1 in \<open>simp add: increment_key_def\<close>)
qed

interpretation counter: event_machine "counter_init limit window" counter_step fw_ok
proof
  show "fw_ok (counter_init limit window)" by (simp add: fw_ok_def counter_init_def)
  show "fw_ok c \<Longrightarrow> fw_ok (counter_step e c)" for c e
    by (cases e) (simp_all add: over_limit_ok increment_ok)
qed

text \<open>
  Memory is bounded: whatever keys are asked for and whenever, a counter never tracks more than
  20000 of them.
\<close>

theorem buckets_bounded:
  "length (fw_buckets (fold counter_step ops (counter_init limit window))) \<le> 20000"
  using counter.inv_run [of ops limit window] by (simp add: fw_ok_def MAX_BUCKETS_def)

section \<open>What a window admits\<close>

text \<open>
  The log of the admissions of one key, the newest first: \<open>spaced w m\<close> says that any two of them that
  are \<open>m\<close> places apart are at least \<open>w\<close> seconds apart.
\<close>

definition spaced :: "rat \<Rightarrow> nat \<Rightarrow> rat list \<Rightarrow> bool" where
  "spaced w m adm \<longleftrightarrow> (\<forall>i j. i + m \<le> j \<longrightarrow> j < length adm \<longrightarrow> w \<le> adm ! i - adm ! j)"

lemma spaced_Nil [simp]: "spaced w m []"
  by (simp add: spaced_def)

lemma spaced_Cons:
  assumes "spaced w m adm" and "0 < m" and "\<And>j. m \<le> Suc j \<Longrightarrow> j < length adm \<Longrightarrow> w \<le> t - adm ! j"
  shows "spaced w m (t # adm)"
  unfolding spaced_def
proof (intro allI impI)
  fix i j assume ij: "i + m \<le> j" "j < length (t # adm)"
  then obtain j' where j: "j = Suc j'" using assms(2) by (cases j) auto
  show "w \<le> (t # adm) ! i - (t # adm) ! j"
  proof (cases i)
    case 0
    then show ?thesis using assms(3) [of j'] j ij by simp
  next
    case (Suc i')
    then show ?thesis using assms(1) j ij by (auto simp: spaced_def)
  qed
qed

text \<open>
  The log splits into the running window, which the bucket counts, the window before it and the older
  ones, which were over when the running one began. Without a bucket the last window is over.
\<close>

definition log_split :: "nat \<Rightarrow> rat \<Rightarrow> rat \<Rightarrow> rat \<Rightarrow> nat \<Rightarrow> rat list \<Rightarrow> bool" where
  "log_split m w now start n adm \<longleftrightarrow> (\<exists>cur prev old. adm = cur @ prev @ old \<and> length cur = n \<and> n \<le> m \<and> length prev \<le> m \<and>
     start \<le> now \<and> (\<forall>x \<in> set cur. x \<le> now) \<and> (\<forall>x \<in> set prev. x \<le> start) \<and> (\<forall>x \<in> set old. x + w \<le> start))"

definition bucket_log :: "nat \<Rightarrow> rat \<Rightarrow> rat \<Rightarrow> (rat \<times> nat) option \<Rightarrow> rat list \<Rightarrow> bool" where
  "bucket_log m w now b adm \<longleftrightarrow>
     (case b of Some (start, n) \<Rightarrow> log_split m w now start n adm
      | None \<Rightarrow> (\<exists>start n. start + w \<le> now \<and> log_split m w now start n adm))"

definition key_log :: "string \<Rightarrow> rat \<Rightarrow> rat list \<Rightarrow> counter \<Rightarrow> bool" where
  "key_log key now adm c \<longleftrightarrow> fw_ok c \<and> spaced (fw_window c) (2 * fw_limit c) adm \<and>
     bucket_log (fw_limit c) (fw_window c) now (od_get (fw_buckets c) key) adm"

lemma log_split_later:
  assumes "log_split m w now start n adm" and "now \<le> now'"
  shows "log_split m w now' start n adm"
proof -
  obtain cur prev old where a: "adm = cur @ prev @ old" "length cur = n" "n \<le> m" "length prev \<le> m" "start \<le> now"
    "\<forall>x \<in> set cur. x \<le> now" "\<forall>x \<in> set prev. x \<le> start" "\<forall>x \<in> set old. x + w \<le> start"
    using assms(1) by (auto simp: log_split_def)
  have "start \<le> now'" "\<forall>x \<in> set cur. x \<le> now'" using a(5,6) assms(2) by auto
  then show ?thesis unfolding log_split_def
    by (intro exI [of _ cur] exI [of _ prev] exI [of _ old]) (use a in simp)
qed

lemma key_log_later: "key_log key now adm c \<Longrightarrow> now \<le> now' \<Longrightarrow> key_log key now' adm c"
  by (cases "od_get (fw_buckets c) key") (force simp: key_log_def bucket_log_def intro: log_split_later)+

lemma key_log_init: "0 \<le> window \<Longrightarrow> key_log key now [] (counter_init limit window)"
proof -
  assume "0 \<le> window"
  then have "now - window + window \<le> now \<and> log_split limit window now (now - window) 0 []" by (simp add: log_split_def)
  then have "bucket_log limit window now None []" unfolding bucket_log_def option.case by blast
  then show ?thesis by (simp add: key_log_def counter_init_def od_get_def fw_ok_def)
qed

lemma od_get_filter:
  "od_ok d \<Longrightarrow> od_get (filter P d) k = (case od_get d k of Some v \<Rightarrow> if P (k, v) then Some v else None | None \<Rightarrow> None)"
  by (induction d) (auto simp: od_get_def map_of_eq_None_iff split: option.splits dest: map_of_SomeD)

lemma bucket_log_evict:
  "bucket_log m w now (Some (start, n)) adm \<Longrightarrow> w \<le> now - start \<Longrightarrow> bucket_log m w now None adm"
  by (auto simp: bucket_log_def algebra_simps)

lemma key_log_evict: "key_log key now adm c \<Longrightarrow> key_log key now adm (evict_stale now c)"
proof -
  assume k: "key_log key now adm c"
  then have ok: "fw_ok c" and b: "bucket_log (fw_limit c) (fw_window c) now (od_get (fw_buckets c) key) adm"
    by (simp_all add: key_log_def)
  have "od_get (fw_buckets (evict_stale now c)) key =
      (case od_get (fw_buckets c) key of Some (start, n) \<Rightarrow> if fw_window c \<le> now - start then None else Some (start, n) | None \<Rightarrow> None)"
    using ok by (auto simp: evict_stale_def fw_ok_def od_get_filter split: option.split)
  then have "bucket_log (fw_limit c) (fw_window c) now (od_get (fw_buckets (evict_stale now c)) key) adm"
    using b by (auto split: option.split dest: bucket_log_evict)
  then show ?thesis using k evict_ok [OF ok, of now] by (simp add: key_log_def)
qed

lemma key_log_since [simp]: "key_log key now adm (c\<lparr>fw_since := n\<rparr>) = key_log key now adm c"
  by (simp add: key_log_def)

lemma key_log_sweep: "key_log key now adm c \<Longrightarrow> key_log key now adm (maybe_sweep now c)"
  by (simp add: maybe_sweep_def Let_def key_log_evict)

lemma key_log_refuse: "key_log key now adm c \<Longrightarrow> key_log key now adm (snd (refuse_new_key k now c))"
  by (simp add: refuse_new_key_def Let_def key_log_evict)

lemma key_log_over: "key_log key now adm c \<Longrightarrow> key_log key now adm (snd (over_limit k now c))"
  by (simp add: over_limit_counter key_log_refuse key_log_sweep)

lemma log_split_cur:
  assumes "log_split m w now start n adm" and "n < m" and "spaced w (2 * m) adm"
  shows "log_split m w now start (Suc n) (now # adm)" and "spaced w (2 * m) (now # adm)"
proof -
  obtain cur prev old where a: "adm = cur @ prev @ old" "length cur = n" "length prev \<le> m" "start \<le> now"
    "\<forall>x \<in> set cur. x \<le> now" "\<forall>x \<in> set prev. x \<le> start" "\<forall>x \<in> set old. x + w \<le> start"
    using assms(1) by (auto simp: log_split_def)
  have e: "now # adm = (now # cur) @ prev @ old" by (simp add: a(1))
  show "log_split m w now start (Suc n) (now # adm)" unfolding log_split_def
    by (intro exI [of _ "now # cur"] exI [of _ prev] exI [of _ old]) (use a assms(2) e in simp)
  show "spaced w (2 * m) (now # adm)"
  proof (rule spaced_Cons [OF assms(3)])
    fix j assume j: "2 * m \<le> Suc j" "j < length adm"
    then have ge: "length (cur @ prev) \<le> j" using a(2,3) assms(2) by simp
    then have "adm ! j = old ! (j - length (cur @ prev))" using a(1) nth_append [of "cur @ prev" old j] by simp
    moreover have "j - length (cur @ prev) < length old" using j(2) ge by (simp add: a(1))
    ultimately have "adm ! j \<in> set old" using nth_mem by metis
    then show "w \<le> now - adm ! j" using a(4,7) by fastforce
  qed (use assms(2) in simp)
qed

lemma log_split_new:
  assumes "log_split m w now start n adm" and "start + w \<le> now" and "0 \<le> w"
  shows "log_split m w now now 0 adm"
proof -
  obtain cur prev old where a: "adm = cur @ prev @ old" "length cur \<le> m"
    "\<forall>x \<in> set cur. x \<le> now" "\<forall>x \<in> set prev. x \<le> start" "\<forall>x \<in> set old. x + w \<le> start"
    using assms(1) by (auto simp: log_split_def)
  have "\<forall>x \<in> set (prev @ old). x + w \<le> now" using a(4,5) assms(2,3) by fastforce
  then show ?thesis unfolding log_split_def
    by (intro exI [of _ "[]"] exI [of _ cur] exI [of _ "prev @ old"]) (use a in simp)
qed

text \<open>The window that counts at an instant, running or new.\<close>

lemma key_log_current:
  assumes "key_log key now adm c" and "0 < fw_window c" and "current_window key now c = (start, n)"
  shows "log_split (fw_limit c) (fw_window c) now start n adm" and "now - start < fw_window c"
proof -
  have b: "bucket_log (fw_limit c) (fw_window c) now (od_get (fw_buckets c) key) adm"
    using assms(1) by (simp add: key_log_def)
  have "log_split (fw_limit c) (fw_window c) now start n adm \<and> now - start < fw_window c"
  proof (cases "od_get (fw_buckets c) key")
    case None
    then have e: "start = now" "n = 0" using assms(2,3) by (auto simp: current_window_def)
    obtain s' n' where "s' + fw_window c \<le> now" "log_split (fw_limit c) (fw_window c) now s' n' adm"
      using b None by (auto simp: bucket_log_def)
    then show ?thesis using log_split_new assms(2) e by fastforce
  next
    case (Some b')
    obtain s' n' where b': "b' = (s', n')" by fastforce
    have l: "log_split (fw_limit c) (fw_window c) now s' n' adm" using b Some b' by (simp add: bucket_log_def)
    show ?thesis
    proof (cases "fw_window c \<le> now - s'")
      case True
      then have "s' + fw_window c \<le> now" by (simp add: algebra_simps)
      then show ?thesis using True log_split_new [OF l] assms(2,3) Some b' by (simp add: current_window_def)
    qed (use l assms(3) Some b' in \<open>simp add: current_window_def\<close>)
  qed
  then show "log_split (fw_limit c) (fw_window c) now start n adm" "now - start < fw_window c" by simp_all
qed

lemma over_limit_None:
  assumes "over_limit key now c = (None, c1)"
  shows "\<not> at_capacity_for_new_key key c1" and "snd (current_window key now c1) < fw_limit c1"
    and "c1 = snd (over_limit key now c)"
  using assms by (auto simp: over_limit_def admitted_room split: prod.splits if_splits)

lemma evict_room:
  assumes "fw_ok c" and "\<not> at_capacity_for_new_key key c"
  shows "\<not> at_capacity_for_new_key key (evict_stale now c)"
proof -
  define d where "d = filter (\<lambda>(k, start, n). \<not> fw_window c \<le> now - start) (fw_buckets c)"
  have len: "length d \<le> length (fw_buckets c)" "length (fw_buckets c) \<le> MAX_BUCKETS" and ok: "od_ok (fw_buckets c)"
    using assms(1) by (simp_all add: d_def fw_ok_def)
  have "length d < MAX_BUCKETS" if n: "od_get d key = None"
  proof (cases "od_get (fw_buckets c) key")
    case None
    then show ?thesis using assms(2) len(1) by (simp add: at_capacity_for_new_key_def)
  next
    case (Some b)
    then have "(key, b) \<in> set (fw_buckets c)" by (rule od_get_SomeD)
    moreover have "(key, b) \<notin> set d" using n by (auto simp: od_get_None_iff image_iff)
    ultimately have "length d < length (fw_buckets c)" unfolding d_def by (intro length_filter_less) auto
    then show ?thesis using len(2) by simp
  qed
  then have "\<not> (od_get d key = None \<and> MAX_BUCKETS \<le> length d)" by (meson leD)
  then show ?thesis by (simp add: at_capacity_for_new_key_def evict_stale_def d_def)
qed

lemma since_room [simp]: "at_capacity_for_new_key key (c\<lparr>fw_since := n\<rparr>) = at_capacity_for_new_key key c"
  by (simp add: at_capacity_for_new_key_def)

lemma sweep_room: "fw_ok c \<Longrightarrow> \<not> at_capacity_for_new_key key c \<Longrightarrow> \<not> at_capacity_for_new_key key (maybe_sweep now c)"
  by (simp add: maybe_sweep_def Let_def evict_room)

lemma evict_bucket:
  "fw_ok c \<Longrightarrow> od_get (fw_buckets (evict_stale now c)) key = Some b \<Longrightarrow> od_get (fw_buckets c) key = Some b"
  by (auto simp: evict_stale_def fw_ok_def od_get_filter split: option.splits if_splits)

lemma sweep_bucket:
  "fw_ok c \<Longrightarrow> od_get (fw_buckets (maybe_sweep now c)) key = Some b \<Longrightarrow> od_get (fw_buckets c) key = Some b"
  by (auto simp: maybe_sweep_def Let_def dest: evict_bucket [rotated] split: if_splits)

text \<open>A request that passed the check is always counted, in a window with room for it.\<close>

lemma key_log_admit:
  assumes c: "key_log key now adm c" and o: "over_limit key now c = (None, c1)" and t: "now \<le> now'"
    and w: "0 < fw_window c" "0 < fw_limit c"
  shows "key_log key now' (now' # adm) (increment_key key now' c1)"
proof -
  have c1: "c1 = snd (over_limit key now c)" and room: "\<not> at_capacity_for_new_key key c1"
    and below: "snd (current_window key now c1) < fw_limit c1"
    using over_limit_None [OF o] by simp_all
  have p: "fw_window c1 = fw_window c" "fw_limit c1 = fw_limit c" by (simp_all add: c1 over_limit_counter)
  have k1: "key_log key now' adm c1" using key_log_later [OF key_log_over [OF c, of key] t] by (simp add: c1)
  then have ok: "fw_ok c1" by (simp add: key_log_def)
  define c2 where "c2 = maybe_sweep now' c1"
  have k2: "key_log key now' adm c2" and ok2: "fw_ok c2" and p2: "fw_window c2 = fw_window c" "fw_limit c2 = fw_limit c"
    using key_log_sweep [OF k1] sweep_ok [OF ok] by (simp_all add: c2_def p)
  obtain start n where cur: "current_window key now' c2 = (start, n)" by fastforce
  have n: "n < fw_limit c"
  proof (cases "od_get (fw_buckets c2) key")
    case None
    then show ?thesis using cur w(2) by (auto simp: current_window_def split: if_splits)
  next
    case (Some b)
    then have b: "od_get (fw_buckets c1) key = Some b" using sweep_bucket [OF ok] by (simp add: c2_def)
    show ?thesis
    proof (cases "fw_window c \<le> now' - fst b")
      case True
      then show ?thesis using cur Some w(2) by (auto simp: current_window_def p2 split: prod.splits)
    next
      case False
      then have "\<not> fw_window c \<le> now - fst b" using t by simp
      then show ?thesis using cur Some False below b by (auto simp: current_window_def p p2 split: prod.splits)
    qed
  qed
  have inc: "increment_key key now' c1 = c2\<lparr>fw_buckets := od_set key (start, Suc n) (fw_buckets c2)\<rparr>"
    using sweep_room [OF ok room, of now'] cur by (simp add: increment_key_def refuse_new_key_def c2_def)
  have l: "log_split (fw_limit c) (fw_window c) now' start n adm" "spaced (fw_window c) (2 * fw_limit c) adm"
    using key_log_current(1) [OF k2 _ cur] k2 w(1) by (simp_all add: p2 key_log_def)
  show ?thesis using log_split_cur [OF l(1) n l(2)] increment_ok [OF ok, of key now'] 
    by (simp add: inc key_log_def bucket_log_def p2)
qed

lemma key_log_other:
  assumes "key_log key now adm c" and "k \<noteq> key"
  shows "key_log key now adm (increment_key k now c)"
proof -
  obtain refused c1 where r: "refuse_new_key k now (maybe_sweep now c) = (refused, c1)" by fastforce
  have k1: "key_log key now adm c1" using key_log_refuse [OF key_log_sweep [OF assms(1)], of k] r by simp
  have "fw_ok (increment_key k now c)" using assms(1) by (simp add: key_log_def increment_ok)
  then show ?thesis using k1 r assms(2) by (auto simp: increment_key_def key_log_def split: prod.splits if_splits)
qed

section \<open>The public routes\<close>

text \<open>A run of checks, and the log of the admitted ones: the host and the readings of its two increments.\<close>

fun accept_step ::
  "string \<times> readings \<Rightarrow> accept_throttle \<times> (string \<times> rat \<times> rat) list \<Rightarrow> accept_throttle \<times> (string \<times> rat \<times> rat) list"
where
  "accept_step (host, rd) (th, adm) =
     (case accept_check host rd th of
        (None, th') \<Rightarrow> (th', (host, rd_minute_inc rd, rd_hour_inc rd) # adm)
      | (Some s, th') \<Rightarrow> (th', adm))"

definition accept_run :: "(string \<times> readings) list \<Rightarrow> accept_throttle \<times> (string \<times> rat \<times> rat) list" where
  "accept_run rqs = fold accept_step rqs (accept_throttle_init, [])"

text \<open>The admissions of a host, the newest first.\<close>

definition admitted_at :: "string \<Rightarrow> (string \<times> rat \<times> rat) list \<Rightarrow> (rat \<times> rat) list" where
  "admitted_at host adm = map snd (filter (\<lambda>p. fst p = host) adm)"

text \<open>The clock never goes back.\<close>

fun clock_ok :: "rat \<Rightarrow> (string \<times> readings) list \<Rightarrow> bool" where
  "clock_ok now [] = True"
| "clock_ok now ((host, rd) # rqs) =
     (now \<le> rd_minute rd \<and> rd_minute rd \<le> rd_hour rd \<and> rd_hour rd \<le> rd_minute_inc rd \<and>
      rd_minute_inc rd \<le> rd_hour_inc rd \<and> clock_ok (rd_hour_inc rd) rqs)"

definition throttle_log :: "string \<Rightarrow> rat \<Rightarrow> accept_throttle \<times> (string \<times> rat \<times> rat) list \<Rightarrow> bool" where
  "throttle_log host now s \<longleftrightarrow>
     fw_limit (at_minute (fst s)) = 10 \<and> fw_window (at_minute (fst s)) = 60 \<and>
     fw_limit (at_hour (fst s)) = 50 \<and> fw_window (at_hour (fst s)) = 3600 \<and>
     key_log host now (map fst (admitted_at host (snd s))) (at_minute (fst s)) \<and>
     key_log host now (map snd (admitted_at host (snd s))) (at_hour (fst s))"

lemma over_limit_params [simp]:
  "fw_limit (snd (over_limit key now c)) = fw_limit c" "fw_window (snd (over_limit key now c)) = fw_window c"
  by (simp_all add: over_limit_counter)

lemma increment_params [simp]:
  "fw_limit (increment_key key now c) = fw_limit c" "fw_window (increment_key key now c) = fw_window c"
proof -
  obtain refused c1 where r: "refuse_new_key key now (maybe_sweep now c) = (refused, c1)" by fastforce
  then have "fw_limit c1 = fw_limit c" "fw_window c1 = fw_window c"
    using refuse_simps [of key now "maybe_sweep now c"] by simp_all
  then show "fw_limit (increment_key key now c) = fw_limit c" "fw_window (increment_key key now c) = fw_window c"
    by (simp_all add: increment_key_def r split: prod.split)
qed

lemma throttle_log_step:
  assumes l: "throttle_log host now (th, adm)" and c: "clock_ok now ((h, rd) # rqs)"
  shows "throttle_log host (rd_hour_inc rd) (accept_step (h, rd) (th, adm))"
proof -
  let ?m = "map fst (admitted_at host adm)" and ?h = "map snd (admitted_at host adm)"
  have t: "now \<le> rd_minute rd" "rd_minute rd \<le> rd_hour rd" "rd_hour rd \<le> rd_minute_inc rd" "rd_minute_inc rd \<le> rd_hour_inc rd"
    using c by simp_all
  have p: "fw_limit (at_minute th) = 10" "fw_window (at_minute th) = 60" "fw_limit (at_hour th) = 50" "fw_window (at_hour th) = 3600"
    and km: "key_log host (rd_minute rd) ?m (at_minute th)" and kh: "key_log host (rd_hour rd) ?h (at_hour th)"
    using l t by (auto simp: throttle_log_def intro: key_log_later order_trans)
  obtain om m oh h' where o: "over_limit h (rd_minute rd) (at_minute th) = (om, m)" "over_limit h (rd_hour rd) (at_hour th) = (oh, h')"
    by fastforce
  have e: "m = snd (over_limit h (rd_minute rd) (at_minute th))" "h' = snd (over_limit h (rd_hour rd) (at_hour th))"
    using o by simp_all
  have q: "fw_limit m = 10" "fw_window m = 60" "fw_limit h' = 50" "fw_window h' = 3600" by (simp_all add: e p)
  have km': "key_log host (rd_minute_inc rd) ?m m" and kh': "key_log host (rd_hour_inc rd) ?h h'"
    using key_log_over [OF km, of h] key_log_over [OF kh, of h] t by (auto simp: e intro: key_log_later order_trans)
  have km2: "key_log host (rd_hour_inc rd) ?m m" and kh2: "key_log host (rd_hour_inc rd) ?h (at_hour th)"
    using key_log_later [OF km' t(4)] key_log_later [OF kh] t by simp_all
  show ?thesis
  proof (cases "om = None \<and> oh = None")
    case False
    then show ?thesis using o q p km2 kh2 kh' by (auto simp: accept_check_def throttle_log_def split: option.split)
  next
    case True
    then have s: "accept_step (h, rd) (th, adm) =
        (th\<lparr>at_minute := increment_key h (rd_minute_inc rd) m, at_hour := increment_key h (rd_hour_inc rd) h'\<rparr>,
         (h, rd_minute_inc rd, rd_hour_inc rd) # adm)"
      using o by (simp add: accept_check_def)
    show ?thesis
    proof (cases "h = host")
      case True
      have "key_log host (rd_minute_inc rd) (rd_minute_inc rd # ?m) (increment_key h (rd_minute_inc rd) m)"
        using key_log_admit [OF km, of m "rd_minute_inc rd"] o \<open>om = None \<and> oh = None\<close> t p True by simp
      moreover have "key_log host (rd_hour_inc rd) (rd_hour_inc rd # ?h) (increment_key h (rd_hour_inc rd) h')"
        using key_log_admit [OF kh, of h' "rd_hour_inc rd"] o \<open>om = None \<and> oh = None\<close> t p True by simp
      ultimately show ?thesis unfolding s using key_log_later [OF _ t(4)] q True
        by (simp add: throttle_log_def admitted_at_def)
    next
      case False
      then have "key_log host (rd_hour_inc rd) ?m (increment_key h (rd_minute_inc rd) m)"
        "key_log host (rd_hour_inc rd) ?h (increment_key h (rd_hour_inc rd) h')"
        using key_log_other [OF km'] key_log_other [OF kh'] t(4) by (auto intro: key_log_later)
      then show ?thesis unfolding s using q False by (simp add: throttle_log_def admitted_at_def)
    qed
  qed
qed

lemma throttle_log_run:
  "throttle_log host now s \<Longrightarrow> clock_ok now rqs \<Longrightarrow> \<exists>now'. throttle_log host now' (fold accept_step rqs s)"
proof (induction rqs arbitrary: now s)
  case (Cons rq rqs)
  obtain h rd th adm where e: "rq = (h, rd)" "s = (th, adm)" by fastforce
  show ?case using throttle_log_step [of host now th adm h rd rqs] Cons e by auto
qed auto

text \<open>
  C35. The promise of the public invitation routes. Whatever requests arrive, as long as the clock does
  not go back: of one host, any two admitted requests with 20 admissions from one to the other are at
  least a minute apart, and any two with 100 are at least an hour apart. So a minute never holds more
  than twice the limit of 10, an hour never more than twice the limit of 50.
\<close>

theorem accept_rate_bounded:
  assumes "clock_ok 0 rqs"
  shows "spaced 60 20 (map fst (admitted_at host (snd (accept_run rqs)))) \<and>
         spaced 3600 100 (map snd (admitted_at host (snd (accept_run rqs))))"
proof -
  have "throttle_log host 0 (accept_throttle_init, [])"
    by (simp add: throttle_log_def accept_throttle_init_def admitted_at_def key_log_init) (simp add: counter_init_def)
  then obtain now where "throttle_log host now (accept_run rqs)"
    using throttle_log_run [OF _ assms] unfolding accept_run_def by blast
  then show ?thesis by (auto simp: throttle_log_def key_log_def)
qed

text \<open>A counter that knows one key.\<close>

definition one_key :: "nat \<Rightarrow> rat \<Rightarrow> string \<Rightarrow> rat \<Rightarrow> nat \<Rightarrow> counter" where
  "one_key limit w key start n = \<lparr>fw_limit = limit, fw_window = w, fw_buckets = [(key, start, n)], fw_since = 0\<rparr>"

lemma one_key_first:
  "0 < w \<Longrightarrow> over_limit key now (counter_init limit w) =
     ((if limit = 0 then Some (trunc_rat w + 1) else None), counter_init limit w)"
  "0 < w \<Longrightarrow> increment_key key now (counter_init limit w) = one_key limit w key now 1"
  by (simp_all add: over_limit_def increment_key_def maybe_sweep_def evict_stale_def refuse_new_key_def
      at_capacity_for_new_key_def current_window_def counter_init_def one_key_def od_get_def MAX_BUCKETS_def)

lemma one_key_next:
  assumes "now - start < w"
  shows "over_limit key now (one_key limit w key start n) =
      ((if limit \<le> n then Some (trunc_rat (w - (now - start)) + 1) else None), one_key limit w key start n)"
    and "increment_key key now (one_key limit w key start n) = one_key limit w key start (Suc n)"
  using assms
  by (simp_all add: over_limit_def increment_key_def maybe_sweep_def evict_stale_def refuse_new_key_def
      at_capacity_for_new_key_def current_window_def one_key_def od_get_def SWEEP_THRESHOLD_def)

definition ex_burst :: "(string \<times> readings) list" where
  "ex_burst = replicate 11 (''10.0.0.1'', \<lparr>rd_minute = 5, rd_hour = 5, rd_minute_inc = 5, rd_hour_inc = 5\<rparr>)"

theorem accept_rate_bounded_witness:
  "length (admitted_at ''10.0.0.1'' (snd (accept_run ex_burst))) = 10 \<and>
   spaced 60 20 (map fst (admitted_at ''10.0.0.1'' (snd (accept_run ex_burst))))"
proof
  show "length (admitted_at ''10.0.0.1'' (snd (accept_run ex_burst))) = 10"
    by (simp add: ex_burst_def accept_run_def eval_nat_numeral accept_check_def accept_throttle_init_def
        one_key_first one_key_next admitted_at_def)
  have "clock_ok 0 ex_burst" by (simp add: ex_burst_def eval_nat_numeral)
  then show "spaced 60 20 (map fst (admitted_at ''10.0.0.1'' (snd (accept_run ex_burst))))"
    using accept_rate_bounded by blast
qed

text \<open>
  The cap on sent invitations is checked before the request and counted after it: two requests of one
  administrator that overlap both pass with one send left, and the hour ends with 21.
\<close>

lemma overlapping_sends_pass_cap:
  "let th = fold (\<lambda>_. record_send ''admin'' 5) [0..<19] invite_throttle_init;
       (first, th1) = check_send_cap ''admin'' 6 th;
       (second, th2) = check_send_cap ''admin'' 6 th1;
       th3 = record_send ''admin'' 7 (record_send ''admin'' 7 th2)
   in first = None \<and> second = None \<and> od_get (fw_buckets (it_send th3)) ''admin'' = Some (5, 21)"
proof -
  have "fold (\<lambda>_. record_send ''admin'' 5) [0..<Suc n] invite_throttle_init =
      invite_throttle_init\<lparr>it_send := one_key 20 3600 ''admin'' 5 (Suc n)\<rparr>" for n
    by (induction n) (simp_all add: record_send_def invite_throttle_init_def one_key_first one_key_next)
  from this [of 18] show ?thesis
    by (simp add: check_send_cap_def record_send_def one_key_next) (simp add: one_key_def od_get_def)
qed

end
