(* ===== verification/Vad.thy ===== *)
theory Vad
  imports Prelude Complex_Main
begin

text \<open>
  Voice activity detection (\<^verbatim>\<open>libs/vad_sdk/vad.py\<close>, \<^verbatim>\<open>silero_vad.py\<close>): from frames of samples to the
  events speech-start and speech-end. Both detectors share the shape of their hysteresis, and the code
  writes it twice; so does the model. A frame is the list of its 16-bit samples. The neural network is
  a parameter: from its state and an input window to a probability and the next state, or \<open>None\<close> where
  the runtime raises.
\<close>

datatype vad_event = NO_EVENT | SPEECH_START | SPEECH_END

text \<open>\<^verbatim>\<open>max(1, ceil(a / b))\<close> on integers.\<close>

definition ceil_div :: "nat \<Rightarrow> nat \<Rightarrow> nat" where
  "ceil_div a b = (a + b - 1) div b"

section \<open>Energy\<close>

record energy_config =
  ec_speech_threshold_db :: real
  ec_silence_threshold_db :: real
  ec_hold_ms :: nat
  ec_frame_ms :: nat
  ec_onset_ms :: nat

definition energy_defaults :: energy_config where
  "energy_defaults = \<lparr>ec_speech_threshold_db = -35, ec_silence_threshold_db = -40, ec_hold_ms = 500,
     ec_frame_ms = 20, ec_onset_ms = 100\<rparr>"

record energy_vad =
  ev_cfg :: energy_config
  ev_hold_frames :: nat
  ev_onset_needed :: nat
  ev_in_speech :: bool
  ev_silence_frames :: nat
  ev_speech_frames :: nat
  ev_onset_frames :: nat
  ev_last_energy_db :: real

definition energy_init :: "energy_config \<Rightarrow> energy_vad" where
  "energy_init cfg = \<lparr>ev_cfg = cfg, ev_hold_frames = max 1 (ec_hold_ms cfg div ec_frame_ms cfg),
     ev_onset_needed = max 1 (ceil_div (ec_onset_ms cfg) (ec_frame_ms cfg)), ev_in_speech = False,
     ev_silence_frames = 0, ev_speech_frames = 0, ev_onset_frames = 0, ev_last_energy_db = -96\<rparr>"

definition compute_energy_db :: "int list \<Rightarrow> real" where
  "compute_energy_db samples =
     (let total = sum_list (map (\<lambda>s. (real_of_int s / 32768) ^ 2) samples);
          rms = sqrt (total / real (length samples))
      in if rms < 1 / 10 ^ 10 then -96 else 20 * log 10 rms)"

text \<open>The state of the detector once the energy of a frame is known.\<close>

definition energy_react :: "energy_vad \<Rightarrow> vad_event \<times> energy_vad" where
  "energy_react v =
     (if \<not> ev_in_speech v then
        (if ec_speech_threshold_db (ev_cfg v) \<le> ev_last_energy_db v then
           (let n = Suc (ev_onset_frames v)
            in if ev_onset_needed v \<le> n
               then (SPEECH_START, v\<lparr>ev_in_speech := True, ev_silence_frames := 0, ev_speech_frames := n, ev_onset_frames := 0\<rparr>)
               else (NO_EVENT, v\<lparr>ev_onset_frames := n\<rparr>))
         else (NO_EVENT, v\<lparr>ev_onset_frames := 0\<rparr>))
      else if ev_last_energy_db v < ec_silence_threshold_db (ev_cfg v) then
        (let n = Suc (ev_silence_frames v)
         in if ev_hold_frames v \<le> n
            then (SPEECH_END, v\<lparr>ev_in_speech := False, ev_silence_frames := 0, ev_speech_frames := 0\<rparr>)
            else (NO_EVENT, v\<lparr>ev_silence_frames := n\<rparr>))
      else (NO_EVENT, v\<lparr>ev_silence_frames := 0, ev_speech_frames := Suc (ev_speech_frames v)\<rparr>))"

definition energy_process :: "int list \<Rightarrow> energy_vad \<Rightarrow> vad_event \<times> energy_vad" where
  "energy_process samples v =
     (if samples = [] then (NO_EVENT, v)
      else energy_react (v\<lparr>ev_last_energy_db := compute_energy_db samples\<rparr>))"

definition energy_duration_ms :: "energy_vad \<Rightarrow> nat" where
  "energy_duration_ms v = (if ev_in_speech v then ev_speech_frames v * ec_frame_ms (ev_cfg v) else 0)"

definition energy_reset :: "energy_vad \<Rightarrow> energy_vad" where
  "energy_reset v = v\<lparr>ev_in_speech := False, ev_silence_frames := 0, ev_speech_frames := 0, ev_onset_frames := 0,
     ev_last_energy_db := -96\<rparr>"

section \<open>Silero\<close>

definition WINDOW_SAMPLES :: nat where
  "WINDOW_SAMPLES = 512"

definition CONTEXT_SAMPLES :: nat where
  "CONTEXT_SAMPLES = 64"

definition WINDOW_MS :: nat where
  "WINDOW_MS = 32"

record silero_config =
  sc_speech_threshold :: rat
  sc_silence_threshold :: rat
  sc_onset_ms :: nat
  sc_hold_ms :: nat

definition silero_defaults :: silero_config where
  "silero_defaults = \<lparr>sc_speech_threshold = 1 / 2, sc_silence_threshold = 35 / 100, sc_onset_ms = 96, sc_hold_ms = 1000\<rparr>"

text \<open>The state of the network, its two tensors.\<close>

type_synonym lstm = "rat list \<times> rat list"

type_synonym network = "rat list \<Rightarrow> lstm \<Rightarrow> (rat \<times> lstm) option"

record silero_vad =
  sv_cfg :: silero_config
  sv_onset_needed :: nat
  sv_hold_needed :: nat
  sv_context :: "rat list"
  sv_lstm :: lstm
  sv_in_speech :: bool
  sv_onset_windows :: nat
  sv_silence_windows :: nat
  sv_speech_windows :: nat
  sv_fail_count :: nat
  sv_last_speech_prob :: rat

definition lstm_zero :: lstm where
  "lstm_zero = (replicate 128 0, replicate 128 0)"

definition silero_init :: "silero_config \<Rightarrow> silero_vad" where
  "silero_init cfg = \<lparr>sv_cfg = cfg, sv_onset_needed = max 1 (ceil_div (sc_onset_ms cfg) WINDOW_MS),
     sv_hold_needed = max 1 (ceil_div (sc_hold_ms cfg) WINDOW_MS), sv_context = replicate CONTEXT_SAMPLES 0,
     sv_lstm = lstm_zero, sv_in_speech = False, sv_onset_windows = 0, sv_silence_windows = 0,
     sv_speech_windows = 0, sv_fail_count = 0, sv_last_speech_prob = 0\<rparr>"

definition silero_react :: "silero_vad \<Rightarrow> vad_event \<times> silero_vad" where
  "silero_react v =
     (if \<not> sv_in_speech v then
        (if sc_speech_threshold (sv_cfg v) \<le> sv_last_speech_prob v then
           (let n = Suc (sv_onset_windows v)
            in if sv_onset_needed v \<le> n
               then (SPEECH_START, v\<lparr>sv_in_speech := True, sv_silence_windows := 0, sv_speech_windows := n, sv_onset_windows := 0\<rparr>)
               else (NO_EVENT, v\<lparr>sv_onset_windows := n\<rparr>))
         else (NO_EVENT, v\<lparr>sv_onset_windows := 0\<rparr>))
      else if sv_last_speech_prob v < sc_silence_threshold (sv_cfg v) then
        (let n = Suc (sv_silence_windows v)
         in if sv_hold_needed v \<le> n
            then (SPEECH_END, v\<lparr>sv_in_speech := False, sv_silence_windows := 0, sv_speech_windows := 0\<rparr>)
            else (NO_EVENT, v\<lparr>sv_silence_windows := n\<rparr>))
      else (NO_EVENT, v\<lparr>sv_silence_windows := 0, sv_speech_windows := Suc (sv_speech_windows v)\<rparr>))"

text \<open>The context moves on before the network runs, also where it raises.\<close>

definition silero_process :: "network \<Rightarrow> int list \<Rightarrow> silero_vad \<Rightarrow> vad_event \<times> silero_vad" where
  "silero_process net window v =
     (if length window \<noteq> WINDOW_SAMPLES then (NO_EVENT, v)
      else
        let samples = map (\<lambda>s. of_int s / 32768) window;
            v1 = v\<lparr>sv_context := drop (length samples - CONTEXT_SAMPLES) samples\<rparr>
        in case net (sv_context v @ samples) (sv_lstm v) of
             None \<Rightarrow> (NO_EVENT, v1\<lparr>sv_fail_count := Suc (sv_fail_count v)\<rparr>)
           | Some (prob, st) \<Rightarrow> silero_react (v1\<lparr>sv_lstm := st, sv_last_speech_prob := prob\<rparr>))"

definition silero_duration_ms :: "silero_vad \<Rightarrow> nat" where
  "silero_duration_ms v = (if sv_in_speech v then sv_speech_windows v * WINDOW_MS else 0)"

definition silero_reset :: "silero_vad \<Rightarrow> silero_vad" where
  "silero_reset v = v\<lparr>sv_context := replicate CONTEXT_SAMPLES 0, sv_lstm := lstm_zero, sv_in_speech := False,
     sv_onset_windows := 0, sv_silence_windows := 0, sv_speech_windows := 0, sv_last_speech_prob := 0\<rparr>"

section \<open>What a detector promises\<close>

text \<open>
  The abstract detector, on the observations so far, the newest first: speech begins with \<open>up\<close> loud
  observations in a row and ends with \<open>down\<close> quiet ones in a row; what is neither loud nor quiet
  breaks a run of either kind.
\<close>

definition run_length :: "('o \<Rightarrow> bool) \<Rightarrow> 'o list \<Rightarrow> nat" where
  "run_length P obs = length (takeWhile P obs)"

fun speaking :: "nat \<Rightarrow> nat \<Rightarrow> ('o \<Rightarrow> bool) \<Rightarrow> ('o \<Rightarrow> bool) \<Rightarrow> 'o list \<Rightarrow> bool" where
  "speaking up down loud quiet [] = False"
| "speaking up down loud quiet (ob # obs) =
     (if speaking up down loud quiet obs then run_length quiet (ob # obs) < down
      else up \<le> run_length loud (ob # obs))"

definition edge :: "bool \<Rightarrow> bool \<Rightarrow> vad_event" where
  "edge was now = (if was = now then NO_EVENT else if now then SPEECH_START else SPEECH_END)"

lemma run_length_Cons [simp]: "run_length P (ob # obs) = (if P ob then Suc (run_length P obs) else 0)"
  by (simp add: run_length_def)

lemma run_length_Nil [simp]: "run_length P [] = 0"
  by (simp add: run_length_def)

locale hysteresis =
  fixes step :: "'o \<Rightarrow> 's \<Rightarrow> vad_event \<times> 's"
    and on :: "'s \<Rightarrow> bool"
    and ups :: "'s \<Rightarrow> nat"
    and downs :: "'s \<Rightarrow> nat"
    and ok :: "'s \<Rightarrow> bool"
    and up :: nat
    and down :: nat
    and loud :: "'o \<Rightarrow> bool"
    and quiet :: "'o \<Rightarrow> bool"
  assumes disjoint: "loud ob \<Longrightarrow> \<not> quiet ob"
    and positive: "0 < up" "0 < down"
    and ok_step: "ok s \<Longrightarrow> ok (snd (step ob s))"
    and off_loud: "ok s \<Longrightarrow> \<not> on s \<Longrightarrow> loud ob \<Longrightarrow>
      (if up \<le> Suc (ups s)
       then fst (step ob s) = SPEECH_START \<and> on (snd (step ob s)) \<and> downs (snd (step ob s)) = 0 \<and> ups (snd (step ob s)) = 0
       else fst (step ob s) = NO_EVENT \<and> \<not> on (snd (step ob s)) \<and> ups (snd (step ob s)) = Suc (ups s))"
    and off_other: "ok s \<Longrightarrow> \<not> on s \<Longrightarrow> \<not> loud ob \<Longrightarrow>
      fst (step ob s) = NO_EVENT \<and> \<not> on (snd (step ob s)) \<and> ups (snd (step ob s)) = 0"
    and on_quiet: "ok s \<Longrightarrow> on s \<Longrightarrow> quiet ob \<Longrightarrow>
      (if down \<le> Suc (downs s)
       then fst (step ob s) = SPEECH_END \<and> \<not> on (snd (step ob s)) \<and> ups (snd (step ob s)) = ups s
       else fst (step ob s) = NO_EVENT \<and> on (snd (step ob s)) \<and> downs (snd (step ob s)) = Suc (downs s) \<and>
            ups (snd (step ob s)) = ups s)"
    and on_other: "ok s \<Longrightarrow> on s \<Longrightarrow> \<not> quiet ob \<Longrightarrow>
      fst (step ob s) = NO_EVENT \<and> on (snd (step ob s)) \<and> downs (snd (step ob s)) = 0 \<and> ups (snd (step ob s)) = ups s"
begin

definition agrees :: "'s \<Rightarrow> 'o list \<Rightarrow> bool" where
  "agrees s obs \<longleftrightarrow> ok s \<and> (on s \<longleftrightarrow> speaking up down loud quiet obs) \<and>
     (if on s then downs s = run_length quiet obs \<and> ups s = 0 else ups s = run_length loud obs)"

lemma agrees_step:
  assumes "agrees s obs"
  shows "agrees (snd (step ob s)) (ob # obs)"
    and "fst (step ob s) = edge (speaking up down loud quiet obs) (speaking up down loud quiet (ob # obs))"
proof -
  have s: "ok s" "on s \<longleftrightarrow> speaking up down loud quiet obs" using assms by (simp_all add: agrees_def)
  have "agrees (snd (step ob s)) (ob # obs) \<and>
      fst (step ob s) = edge (speaking up down loud quiet obs) (speaking up down loud quiet (ob # obs))"
  proof (cases "on s")
    case True
    then have d: "downs s = run_length quiet obs" "ups s = 0" using assms by (simp_all add: agrees_def)
    show ?thesis
    proof (cases "quiet ob")
      case q: True
      then have "\<not> loud ob" using disjoint by blast
      then show ?thesis using on_quiet [OF s(1) True q] ok_step [OF s(1), of ob] s(2) True d q
        by (auto simp: agrees_def edge_def split: if_splits)
    next
      case False
      then show ?thesis using on_other [OF s(1) True False] ok_step [OF s(1), of ob] s(2) True positive d
        by (auto simp: agrees_def edge_def)
    qed
  next
    case False
    then have d: "ups s = run_length loud obs" using assms by (simp add: agrees_def)
    show ?thesis
    proof (cases "loud ob")
      case l: True
      then have "\<not> quiet ob" using disjoint by blast
      then show ?thesis using off_loud [OF s(1) False l] ok_step [OF s(1), of ob] s(2) False d l
        by (auto simp: agrees_def edge_def split: if_splits)
    next
      case l: False
      then show ?thesis using off_other [OF s(1) False l] ok_step [OF s(1), of ob] s(2) False positive
        by (auto simp: agrees_def edge_def)
    qed
  qed
  then show "agrees (snd (step ob s)) (ob # obs)"
    "fst (step ob s) = edge (speaking up down loud quiet obs) (speaking up down loud quiet (ob # obs))" by simp_all
qed

end

section \<open>Both detectors keep the promise\<close>

definition energy_ok :: "energy_vad \<Rightarrow> bool" where
  "energy_ok v \<longleftrightarrow> ev_cfg v = energy_defaults \<and> ev_hold_frames v = 25 \<and> ev_onset_needed v = 5"

definition energy_loud :: "real \<Rightarrow> bool" where
  "energy_loud db \<longleftrightarrow> -35 \<le> db"

definition energy_quiet :: "real \<Rightarrow> bool" where
  "energy_quiet db \<longleftrightarrow> db < -40"

definition silero_loud :: "rat \<Rightarrow> bool" where
  "silero_loud p \<longleftrightarrow> 1 / 2 \<le> p"

definition silero_quiet :: "rat \<Rightarrow> bool" where
  "silero_quiet p \<longleftrightarrow> p < 35 / 100"

definition silero_ok :: "silero_vad \<Rightarrow> bool" where
  "silero_ok v \<longleftrightarrow> sv_cfg v = silero_defaults \<and> sv_onset_needed v = 3 \<and> sv_hold_needed v = 32"

interpretation energy: hysteresis "\<lambda>db v. energy_react (v\<lparr>ev_last_energy_db := db\<rparr>)" ev_in_speech ev_onset_frames
    ev_silence_frames energy_ok 5 25 energy_loud energy_quiet
  by unfold_locales (auto simp: energy_loud_def energy_quiet_def energy_react_def energy_ok_def energy_defaults_def Let_def)

interpretation silero: hysteresis "\<lambda>p v. silero_react (v\<lparr>sv_last_speech_prob := p\<rparr>)" sv_in_speech sv_onset_windows
    sv_silence_windows silero_ok 3 32 silero_loud silero_quiet
  by unfold_locales (auto simp: silero_loud_def silero_quiet_def silero_react_def silero_ok_def silero_defaults_def Let_def)

lemma energy_process_agrees:
  assumes "energy.agrees v obs" and "samples \<noteq> []" and "energy_process samples v = (e, v')"
  shows "energy.agrees v' (compute_energy_db samples # obs)"
    and "e = edge (speaking 5 25 energy_loud energy_quiet obs) (speaking 5 25 energy_loud energy_quiet (compute_energy_db samples # obs))"
  using energy.agrees_step [OF assms(1), of "compute_energy_db samples"] assms(2,3) by (simp_all add: energy_process_def)

text \<open>A run over windows; the log holds, the newest first, each event and the probability that was observed.\<close>

definition silero_prob :: "network \<Rightarrow> int list \<Rightarrow> silero_vad \<Rightarrow> rat option" where
  "silero_prob net window v =
     (if length window \<noteq> WINDOW_SAMPLES then None
      else map_option fst (net (sv_context v @ map (\<lambda>s. of_int s / 32768) window) (sv_lstm v)))"

fun silero_run :: "network \<Rightarrow> int list list \<Rightarrow> silero_vad \<Rightarrow> (vad_event \<times> rat option) list \<Rightarrow> (vad_event \<times> rat option) list \<times> silero_vad" where
  "silero_run net [] v lg = (lg, v)"
| "silero_run net (w # ws) v lg =
     (case silero_process net w v of (e, v') \<Rightarrow> silero_run net ws v' ((e, silero_prob net w v) # lg))"

definition observed :: "(vad_event \<times> rat option) list \<Rightarrow> rat list" where
  "observed lg = List.map_filter snd lg"

definition silero_spec :: "rat list \<Rightarrow> bool" where
  "silero_spec = speaking 3 32 silero_loud silero_quiet"

text \<open>Every entry of a lg is the edge that the abstract detector shows there.\<close>

fun edges_ok :: "(vad_event \<times> rat option) list \<Rightarrow> bool" where
  "edges_ok [] = True"
| "edges_ok ((e, ob) # lg) \<longleftrightarrow> edges_ok lg \<and> e = edge (silero_spec (observed lg)) (silero_spec (observed ((e, ob) # lg)))"

lemma silero_agrees_frame [simp]:
  "silero.agrees (v\<lparr>sv_context := c\<rparr>) obs = silero.agrees v obs"
  "silero.agrees (v\<lparr>sv_lstm := st\<rparr>) obs = silero.agrees v obs"
  "silero.agrees (v\<lparr>sv_fail_count := n\<rparr>) obs = silero.agrees v obs"
  by (simp_all add: silero.agrees_def silero_ok_def)

lemma silero_process_agrees:
  assumes "silero.agrees v (observed lg)" and "edges_ok lg" and "silero_process net w v = (e, v')"
  shows "silero.agrees v' (observed ((e, silero_prob net w v) # lg)) \<and> edges_ok ((e, silero_prob net w v) # lg)"
proof (cases "silero_prob net w v")
  case None
  then have "e = NO_EVENT" "silero.agrees v' (observed lg)"
    using assms(1,3) silero_agrees_frame(1) [where v = v and obs = "observed lg"]
      silero_agrees_frame(3) [where v = "v\<lparr>sv_context := c\<rparr>" and obs = "observed lg" for c]
    by (auto simp: silero_process_def silero_prob_def Let_def split: if_splits option.splits)
  then show ?thesis using None assms(2) by (simp add: observed_def map_filter_simps edge_def)
next
  case (Some p)
  define v1 where "v1 = v\<lparr>sv_context := drop (length w - CONTEXT_SAMPLES) (map (\<lambda>s. of_int s / 32768) w)\<rparr>"
  obtain st where p: "silero_react ((v1\<lparr>sv_lstm := st\<rparr>)\<lparr>sv_last_speech_prob := p\<rparr>) = (e, v')"
    using Some assms(3) by (auto simp: silero_process_def silero_prob_def Let_def v1_def split: if_splits option.splits)
  have "silero.agrees (v1\<lparr>sv_lstm := st\<rparr>) (observed lg)" using assms(1) by (simp add: v1_def)
  from silero.agrees_step [OF this, of p] p have "silero.agrees v' (p # observed lg)"
    "e = edge (silero_spec (observed lg)) (silero_spec (p # observed lg))" by (simp_all add: silero_spec_def)
  then show ?thesis using Some assms(2) by (simp add: observed_def map_filter_simps)
qed

lemma silero_run_agrees:
  "silero.agrees v (observed lg) \<Longrightarrow> edges_ok lg \<Longrightarrow>
     silero.agrees (snd (silero_run net ws v lg)) (observed (fst (silero_run net ws v lg))) \<and>
     edges_ok (fst (silero_run net ws v lg))"
proof (induction ws arbitrary: v lg)
  case (Cons w ws)
  obtain e v' where "silero_process net w v = (e, v')" by fastforce
  then show ?case using Cons.IH silero_process_agrees [OF Cons.prems] by simp
qed simp

lemma silero_init_agrees: "silero.agrees (silero_init silero_defaults) []"
  by (simp add: silero.agrees_def silero_ok_def silero_init_def silero_defaults_def ceil_div_def WINDOW_MS_def)

text \<open>
  C36. The neural detector implements the abstract one: for every network and every sequence of windows,
  malformed ones and failed inferences included, it is in speech exactly when the probabilities observed
  so far say so, with 3 windows of at least 0.5 in a row to start and 32 windows below 0.35 in a row to
  end, and each call returns exactly the edge between two such states.
\<close>

theorem silero_refines_spec:
  "let (lg, v) = silero_run net ws (silero_init silero_defaults) []
   in (sv_in_speech v \<longleftrightarrow> silero_spec (observed lg)) \<and> edges_ok lg"
  using silero_run_agrees [of "silero_init silero_defaults" "[]" net ws] silero_init_agrees
  by (auto simp: observed_def map_filter_simps silero.agrees_def silero_spec_def split: prod.split)

text \<open>
  The length of an utterance cannot be read when it ends: the counters are reset before the event is
  returned.
\<close>

lemma duration_zero_at_end:
  "silero_process net w v = (SPEECH_END, v') \<Longrightarrow> silero_duration_ms v' = 0"
  by (auto simp: silero_process_def silero_react_def silero_duration_ms_def Let_def split: if_splits option.splits)

end
