(* ===== verification/Vobiz_Bridge.thy ===== *)
theory Vobiz_Bridge
  imports Vad
begin

text \<open>
  The bridge between a streaming telephony provider and the conversation service
  (\<^verbatim>\<open>services/vobiz/bridge.py\<close>, class \<^verbatim>\<open>VobizCallBridge\<close>). Its five tasks share one event loop; a step of
  the model is what one of them does between two points where it may be suspended, so the lists of steps
  are the interleavings. The monotonic clock is part of the state and moves by whole nanoseconds.

  Audio comes in as the samples, and goes out as the bytes, that the conversion of \<^verbatim>\<open>audio.py\<close> yields.
  \<open>vb_written\<close> logs what is written to the stream, \<open>vb_ws\<close> what is sent to the provider. The network of the
  detector is a parameter.
\<close>

section \<open>State\<close>

definition ULAW_FRAME_BYTES :: nat where
  "ULAW_FRAME_BYTES = 160"

definition PLAYBACK_LEAD_S :: rat where
  "PLAYBACK_LEAD_S = 1 / 10"

definition AUDIO_DELAY_S :: rat where
  "AUDIO_DELAY_S = 15 / 100"

definition TURN_WATCHDOG_S :: rat where
  "TURN_WATCHDOG_S = 12"

datatype gateway_msg =
    AudioChunk nat "int list"
  | CancelTurn
  | SpeechEndedNote nat rat

datatype play_item = PlayFrame "nat list" | FINAL_MARKER

datatype ws_msg = PlayAudio "nat list" | ClearAudio

record bridge =
  vb_now :: rat
  vb_vad :: silero_vad
  vb_vad_buf :: "int list"
  vb_sequence_num :: nat
  vb_speaking :: bool
  vb_playing_tts :: bool
  vb_turn_active :: bool
  vb_turn_generation :: nat
  vb_turn_watchdog :: "(nat \<times> rat) option"
  vb_play_queue :: "play_item list"
  vb_play_buf :: "nat list"
  vb_playback_started_at :: "rat option"
  vb_frames_sent :: nat
  vb_write_queue :: "gateway_msg list"
  vb_audio_delay_buf :: "(rat \<times> gateway_msg) list"
  vb_clearing :: bool
  vb_pacing :: "(nat list \<times> rat) option"
  vb_ws :: "ws_msg list"
  vb_written :: "gateway_msg list"
  vb_open :: bool

definition bridge_init :: bridge where
  "bridge_init = \<lparr>vb_now = 0, vb_vad = silero_init silero_defaults, vb_vad_buf = [], vb_sequence_num = 0,
     vb_speaking = False, vb_playing_tts = False, vb_turn_active = False, vb_turn_generation = 0,
     vb_turn_watchdog = None, vb_play_queue = [], vb_play_buf = [], vb_playback_started_at = None,
     vb_frames_sent = 0, vb_write_queue = [], vb_audio_delay_buf = [], vb_clearing = False, vb_pacing = None,
     vb_ws = [], vb_written = [], vb_open = True\<rparr>"

section \<open>Turns and queues\<close>

definition clear_playback_queue :: "bridge \<Rightarrow> bridge" where
  "clear_playback_queue b = b\<lparr>vb_play_queue := [], vb_play_buf := [], vb_playback_started_at := None, vb_frames_sent := 0\<rparr>"

definition enqueue :: "gateway_msg \<Rightarrow> bridge \<Rightarrow> bridge" where
  "enqueue m b = b\<lparr>vb_write_queue := vb_write_queue b @ [m]\<rparr>"

definition flush_pending_audio_now :: "bridge \<Rightarrow> bridge" where
  "flush_pending_audio_now b =
     b\<lparr>vb_audio_delay_buf := [], vb_write_queue := vb_write_queue b @ map snd (vb_audio_delay_buf b)\<rparr>"

definition resolve_turn :: "bridge \<Rightarrow> bridge" where
  "resolve_turn b = b\<lparr>vb_turn_active := False, vb_turn_watchdog := None\<rparr>"

definition start_turn :: "bridge \<Rightarrow> bridge" where
  "start_turn b =
     (let gen = Suc (vb_turn_generation b)
      in b\<lparr>vb_turn_active := True, vb_turn_generation := gen, vb_turn_watchdog := Some (gen, vb_now b + TURN_WATCHDOG_S)\<rparr>)"

text \<open>The timer. A task that found its turn over stays in the field, done.\<close>

definition turn_watchdog_fire :: "bridge \<Rightarrow> bridge" where
  "turn_watchdog_fire b =
     (case vb_turn_watchdog b of
        None \<Rightarrow> b
      | Some (gen, due) \<Rightarrow>
          if due \<le> vb_now b \<and> vb_turn_active b \<and> gen = vb_turn_generation b
          then b\<lparr>vb_turn_active := False, vb_turn_watchdog := None\<rparr> else b)"

section \<open>From the caller\<close>

text \<open>
  \<^verbatim>\<open>_run_vad\<close>, the body of its loop. A barge-in on audio that plays suspends in \<^verbatim>\<open>ws.send_text\<close>
  (\<open>vb_clearing\<close>) before the cancellation is queued.
\<close>

definition queue_cancel :: "bridge \<Rightarrow> bridge" where
  "queue_cancel b = flush_pending_audio_now (enqueue CancelTurn b)"

definition speech_start :: "bridge \<Rightarrow> bridge" where
  "speech_start b0 =
     (let b = b0\<lparr>vb_speaking := True\<rparr>
      in if vb_turn_active b then
           (let b1 = (clear_playback_queue (resolve_turn b))\<lparr>vb_playing_tts := False\<rparr>
            in if vb_playing_tts b
               then b1\<lparr>vb_ws := vb_ws b1 @ [ClearAudio], vb_clearing := True\<rparr>
               else queue_cancel b1)
         else b)"

definition speech_end :: "bridge \<Rightarrow> bridge" where
  "speech_end b =
     (if vb_speaking b
      then enqueue (SpeechEndedNote (silero_duration_ms (vb_vad b)) (sv_last_speech_prob (vb_vad b)))
             (start_turn (b\<lparr>vb_speaking := False\<rparr>))
      else b)"

definition vad_window :: "network \<Rightarrow> bridge \<Rightarrow> bridge" where
  "vad_window net b =
     (case silero_process net (take WINDOW_SAMPLES (vb_vad_buf b)) (vb_vad b) of
        (e, v) \<Rightarrow>
          let b1 = b\<lparr>vb_vad := v, vb_vad_buf := drop WINDOW_SAMPLES (vb_vad_buf b)\<rparr>
          in case e of SPEECH_START \<Rightarrow> speech_start b1 | SPEECH_END \<Rightarrow> speech_end b1 | NO_EVENT \<Rightarrow> b1)"

lemma vad_buf_frame [simp]:
  "vb_vad_buf (speech_start b) = vb_vad_buf b" "vb_vad_buf (speech_end b) = vb_vad_buf b"
  by (simp_all add: speech_start_def speech_end_def queue_cancel_def flush_pending_audio_now_def enqueue_def
      clear_playback_queue_def resolve_turn_def start_turn_def Let_def)

lemma vad_window_shorter: "WINDOW_SAMPLES \<le> length (vb_vad_buf b) \<Longrightarrow> length (vb_vad_buf (vad_window net b)) < length (vb_vad_buf b)"
  by (auto simp: vad_window_def Let_def WINDOW_SAMPLES_def split: prod.split vad_event.split)

function vad_loop :: "network \<Rightarrow> bridge \<Rightarrow> bridge" where
  "vad_loop net b =
     (if vb_clearing b \<or> length (vb_vad_buf b) < WINDOW_SAMPLES then b else vad_loop net (vad_window net b))"
  by pat_completeness auto
termination
  by (relation "measure (\<lambda>(net, b). length (vb_vad_buf b))") (auto intro: vad_window_shorter)

declare vad_loop.simps [simp del]

definition on_media :: "network \<Rightarrow> int list \<Rightarrow> bridge \<Rightarrow> bridge" where
  "on_media net pcm b =
     (if vb_clearing b then b
      else
        let n = Suc (vb_sequence_num b)
        in vad_loop net (b\<lparr>vb_sequence_num := n, vb_audio_delay_buf := vb_audio_delay_buf b @ [(vb_now b, AudioChunk n pcm)],
                           vb_vad_buf := vb_vad_buf b @ pcm\<rparr>))"

definition clear_sent :: "network \<Rightarrow> bridge \<Rightarrow> bridge" where
  "clear_sent net b = (if vb_clearing b then vad_loop net (queue_cancel (b\<lparr>vb_clearing := False\<rparr>)) else b)"

text \<open>\<^verbatim>\<open>_audio_delay_pump\<close> and \<^verbatim>\<open>_grpc_writer_loop\<close>.\<close>

definition audio_delay_pump :: "bridge \<Rightarrow> bridge" where
  "audio_delay_pump b =
     (case vb_audio_delay_buf b of
        [] \<Rightarrow> b
      | (t, m) # rest \<Rightarrow>
          if 0 < AUDIO_DELAY_S - (vb_now b - t) then b else enqueue m (b\<lparr>vb_audio_delay_buf := rest\<rparr>))"

definition grpc_writer :: "bridge \<Rightarrow> bridge" where
  "grpc_writer b =
     (case vb_write_queue b of [] \<Rightarrow> b | m # rest \<Rightarrow> b\<lparr>vb_write_queue := rest, vb_written := vb_written b @ [m]\<rparr>)"

section \<open>To the caller\<close>

text \<open>Full frames leave the buffer.\<close>

fun full_frames :: "nat \<Rightarrow> nat list \<Rightarrow> nat list list \<times> nat list" where
  "full_frames 0 buf = ([], buf)"
| "full_frames (Suc n) buf =
     (if ULAW_FRAME_BYTES \<le> length buf
      then (case full_frames n (drop ULAW_FRAME_BYTES buf) of (fs, rest) \<Rightarrow> (take ULAW_FRAME_BYTES buf # fs, rest))
      else ([], buf))"

definition on_tts_chunk :: "nat list \<Rightarrow> bool \<Rightarrow> bridge \<Rightarrow> bridge" where
  "on_tts_chunk ulaw final b =
     (let (fs, rest) = full_frames (length (vb_play_buf b @ ulaw)) (vb_play_buf b @ ulaw);
          b1 = b\<lparr>vb_play_queue := vb_play_queue b @ map PlayFrame fs, vb_play_buf := rest\<rparr>
      in if final
         then b1\<lparr>vb_play_queue := vb_play_queue b1 @ (if rest \<noteq> [] then [PlayFrame rest] else []) @ [FINAL_MARKER],
                 vb_play_buf := []\<rparr>
         else b1)"

definition on_error :: "bool \<Rightarrow> bridge \<Rightarrow> bridge" where
  "on_error fatal b =
     (let b1 = resolve_turn ((clear_playback_queue b)\<lparr>vb_playing_tts := False\<rparr>)
      in if fatal then b1\<lparr>vb_open := False\<rparr> else b1)"

text \<open>\<^verbatim>\<open>_playback_pacer\<close>: taking an item, and sending the frame after the sleep.\<close>

definition send_frame :: "nat list \<Rightarrow> bridge \<Rightarrow> bridge" where
  "send_frame frame b = b\<lparr>vb_frames_sent := Suc (vb_frames_sent b), vb_ws := vb_ws b @ [PlayAudio frame]\<rparr>"

definition pacer_take :: "bridge \<Rightarrow> bridge" where
  "pacer_take b =
     (case (vb_pacing b, vb_play_queue b) of
        (None, FINAL_MARKER # rest) \<Rightarrow>
          resolve_turn (b\<lparr>vb_play_queue := rest, vb_playing_tts := False, vb_playback_started_at := None, vb_frames_sent := 0\<rparr>)
      | (None, PlayFrame frame # rest) \<Rightarrow>
          (let b1 = b\<lparr>vb_play_queue := rest, vb_playing_tts := True\<rparr>;
               b2 = (case vb_playback_started_at b1 of
                       None \<Rightarrow> b1\<lparr>vb_playback_started_at := Some (vb_now b - PLAYBACK_LEAD_S), vb_frames_sent := 0\<rparr>
                     | Some _ \<Rightarrow> b1);
               target = the (vb_playback_started_at b2) + of_nat (vb_frames_sent b2) * (of_nat ULAW_FRAME_BYTES / 8000)
           in if vb_now b < target then b2\<lparr>vb_pacing := Some (frame, target)\<rparr> else send_frame frame b2)
      | _ \<Rightarrow> b)"

definition pacer_wake :: "bridge \<Rightarrow> bridge" where
  "pacer_wake b =
     (case vb_pacing b of
        Some (frame, target) \<Rightarrow> if target \<le> vb_now b then send_frame frame (b\<lparr>vb_pacing := None\<rparr>) else b
      | None \<Rightarrow> b)"

section \<open>Steps\<close>

datatype bridge_event =
    Elapse nat
  | Media "int list"
  | ClearSent
  | StreamStop
  | PumpAudio
  | WriteNext
  | TtsChunk "nat list" bool
  | ServiceError bool
  | ServiceEndCall
  | PacerTake
  | PacerWake
  | WatchdogFires

fun bridge_step :: "network \<Rightarrow> bridge_event \<Rightarrow> bridge \<Rightarrow> bridge" where
  "bridge_step net (Elapse ns) b = b\<lparr>vb_now := vb_now b + of_nat ns / 10 ^ 9\<rparr>"
| "bridge_step net (Media pcm) b = (if vb_open b then on_media net pcm b else b)"
| "bridge_step net ClearSent b = (if vb_open b then clear_sent net b else b)"
| "bridge_step net StreamStop b = (if vb_clearing b then b else b\<lparr>vb_open := False\<rparr>)"
| "bridge_step net PumpAudio b = (if vb_open b then audio_delay_pump b else b)"
| "bridge_step net WriteNext b = (if vb_open b then grpc_writer b else b)"
| "bridge_step net (TtsChunk ulaw final) b = (if vb_open b then on_tts_chunk ulaw final b else b)"
| "bridge_step net (ServiceError fatal) b = (if vb_open b then on_error fatal b else b)"
| "bridge_step net ServiceEndCall b = b\<lparr>vb_open := False\<rparr>"
| "bridge_step net PacerTake b = (if vb_open b then pacer_take b else b)"
| "bridge_step net PacerWake b = (if vb_open b then pacer_wake b else b)"
| "bridge_step net WatchdogFires b = (if vb_open b then turn_watchdog_fire b else b)"

definition bridge_run :: "network \<Rightarrow> bridge_event list \<Rightarrow> bridge" where
  "bridge_run net es = fold (bridge_step net) es bridge_init"

lemmas bridge_defs = clear_playback_queue_def enqueue_def flush_pending_audio_now_def resolve_turn_def start_turn_def
  turn_watchdog_fire_def queue_cancel_def speech_start_def speech_end_def audio_delay_pump_def grpc_writer_def
  on_error_def send_frame_def

lemma vad_loop_inv:
  assumes "\<And>net b. P b \<Longrightarrow> \<not> vb_clearing b \<Longrightarrow> P (vad_window net b)" and "P b"
  shows "P (vad_loop net b)"
  using assms(2)
proof (induction net b rule: vad_loop.induct)
  case (1 net b)
  show ?case
  proof (cases "vb_clearing b \<or> length (vb_vad_buf b) < WINDOW_SAMPLES")
    case True
    then show ?thesis using 1(2) by (simp add: vad_loop.simps [of net b])
  next
    case False
    then have "P (vad_loop net (vad_window net b))" using 1 assms(1) by simp
    then show ?thesis using False by (simp add: vad_loop.simps [of net b])
  qed
qed

lemma vad_window_inv:
  assumes "P (b\<lparr>vb_vad := v, vb_vad_buf := buf\<rparr>)" and "P (speech_start (b\<lparr>vb_vad := v, vb_vad_buf := buf\<rparr>))"
    and "P (speech_end (b\<lparr>vb_vad := v, vb_vad_buf := buf\<rparr>))"
    and "v = snd (silero_process net (take WINDOW_SAMPLES (vb_vad_buf b)) (vb_vad b))" and "buf = drop WINDOW_SAMPLES (vb_vad_buf b)"
  shows "P (vad_window net b)"
  using assms by (auto simp: vad_window_def Let_def split: prod.split vad_event.split)

section \<open>What the service is told\<close>

definition audio_seqs :: "gateway_msg list \<Rightarrow> nat list" where
  "audio_seqs ms = List.map_filter (\<lambda>m. case m of AudioChunk n pcm \<Rightarrow> Some n | _ \<Rightarrow> None) ms"

text \<open>A cancellation only for a turn that was announced and not cancelled before.\<close>

fun cancels_ok :: "bool \<Rightarrow> gateway_msg list \<Rightarrow> bool" where
  "cancels_ok announced [] = True"
| "cancels_ok announced (AudioChunk n pcm # ms) = cancels_ok announced ms"
| "cancels_ok announced (SpeechEndedNote d p # ms) = cancels_ok True ms"
| "cancels_ok announced (CancelTurn # ms) = (announced \<and> cancels_ok False ms)"

fun announced_after :: "bool \<Rightarrow> gateway_msg list \<Rightarrow> bool" where
  "announced_after announced [] = announced"
| "announced_after announced (AudioChunk n pcm # ms) = announced_after announced ms"
| "announced_after announced (SpeechEndedNote d p # ms) = announced_after True ms"
| "announced_after announced (CancelTurn # ms) = announced_after False ms"

lemma audio_seqs_append [simp]: "audio_seqs (ms @ ns) = audio_seqs ms @ audio_seqs ns"
  by (simp add: audio_seqs_def map_filter_def)

lemma audio_seqs_simps [simp]:
  "audio_seqs [] = []" "audio_seqs (AudioChunk n pcm # ms) = n # audio_seqs ms"
  "audio_seqs (CancelTurn # ms) = audio_seqs ms" "audio_seqs (SpeechEndedNote d p # ms) = audio_seqs ms"
  by (simp_all add: audio_seqs_def map_filter_simps)

lemma cancels_ok_append [simp]: "cancels_ok a (ms @ ns) = (cancels_ok a ms \<and> cancels_ok (announced_after a ms) ns)"
  by (induction a ms rule: cancels_ok.induct) auto

lemma announced_append [simp]: "announced_after a (ms @ ns) = announced_after (announced_after a ms) ns"
  by (induction a ms rule: announced_after.induct) auto

fun is_audio :: "gateway_msg \<Rightarrow> bool" where
  "is_audio (AudioChunk n pcm) = True"
| "is_audio _ = False"

lemma audio_only [simp]:
  "list_all is_audio ms \<Longrightarrow> cancels_ok a ms" "list_all is_audio ms \<Longrightarrow> announced_after a ms = a"
  by (induction a ms rule: cancels_ok.induct) auto

text \<open>The messages on their way: written, queued, held back.\<close>

definition on_the_way :: "bridge \<Rightarrow> gateway_msg list" where
  "on_the_way b = vb_written b @ vb_write_queue b"

definition stream_inv :: "bridge \<Rightarrow> bool" where
  "stream_inv b \<longleftrightarrow>
     audio_seqs (on_the_way b @ map snd (vb_audio_delay_buf b)) = [1..<Suc (vb_sequence_num b)] \<and>
     list_all is_audio (map snd (vb_audio_delay_buf b)) \<and>
     cancels_ok False (on_the_way b @ (if vb_clearing b then [CancelTurn] else [])) \<and>
     (vb_turn_active b \<longrightarrow> announced_after False (on_the_way b)) \<and>
     (vb_clearing b \<longrightarrow> \<not> vb_turn_active b)"

lemmas stream_defs = stream_inv_def on_the_way_def

lemma stream_cong:
  "stream_inv b \<Longrightarrow> vb_written b' @ vb_write_queue b' = on_the_way b \<Longrightarrow> vb_audio_delay_buf b' = vb_audio_delay_buf b \<Longrightarrow>
     vb_sequence_num b' = vb_sequence_num b \<Longrightarrow> vb_clearing b' = vb_clearing b \<Longrightarrow>
     (vb_turn_active b' \<Longrightarrow> vb_turn_active b) \<Longrightarrow> stream_inv b'"
  by (auto simp: stream_defs)

text \<open>What the playback side leaves alone.\<close>

definition caller_side :: "bridge \<Rightarrow> gateway_msg list \<times> gateway_msg list \<times> (rat \<times> gateway_msg) list \<times> nat \<times> bool" where
  "caller_side b = (vb_written b, vb_write_queue b, vb_audio_delay_buf b, vb_sequence_num b, vb_clearing b)"

lemma caller_side_frame [simp]:
  "caller_side (pacer_take b) = caller_side b" "caller_side (pacer_wake b) = caller_side b"
  "caller_side (on_error f b) = caller_side b" "caller_side (turn_watchdog_fire b) = caller_side b"
  "caller_side (on_tts_chunk ulaw final b) = caller_side b"
  by (simp_all add: caller_side_def pacer_take_def pacer_wake_def on_error_def turn_watchdog_fire_def on_tts_chunk_def
      clear_playback_queue_def resolve_turn_def send_frame_def Let_def split: option.split list.split play_item.split prod.split)

lemma turn_active_frame:
  "vb_turn_active (pacer_take b) \<Longrightarrow> vb_turn_active b" "vb_turn_active (pacer_wake b) \<Longrightarrow> vb_turn_active b"
  "vb_turn_active (on_error f b) \<Longrightarrow> vb_turn_active b" "vb_turn_active (turn_watchdog_fire b) \<Longrightarrow> vb_turn_active b"
  "vb_turn_active (on_tts_chunk ulaw final b) \<Longrightarrow> vb_turn_active b"
  by (simp_all add: pacer_take_def pacer_wake_def on_error_def turn_watchdog_fire_def on_tts_chunk_def
      clear_playback_queue_def resolve_turn_def send_frame_def Let_def
      split: option.split_asm list.split_asm play_item.split_asm prod.split_asm if_split_asm)

lemma stream_frame:
  "stream_inv b \<Longrightarrow> caller_side b' = caller_side b \<Longrightarrow> (vb_turn_active b' \<Longrightarrow> vb_turn_active b) \<Longrightarrow> stream_inv b'"
  by (rule stream_cong [of b]) (simp_all add: caller_side_def on_the_way_def)

lemma stream_window: "stream_inv b \<Longrightarrow> \<not> vb_clearing b \<Longrightarrow> stream_inv (vad_window net b)"
proof (rule vad_window_inv [OF _ _ _ refl refl])
  assume s: "stream_inv b" "\<not> vb_clearing b"
  let ?b = "b\<lparr>vb_vad := snd (silero_process net (take WINDOW_SAMPLES (vb_vad_buf b)) (vb_vad b)),
      vb_vad_buf := drop WINDOW_SAMPLES (vb_vad_buf b)\<rparr>"
  show "stream_inv ?b" using s by (simp add: stream_defs)
  show "stream_inv (speech_start ?b)" using s by (auto simp: stream_defs bridge_defs Let_def)
  show "stream_inv (speech_end ?b)" using s by (auto simp: stream_defs bridge_defs Let_def)
qed

lemma stream_loop: "stream_inv b \<Longrightarrow> stream_inv (vad_loop net b)"
  by (rule vad_loop_inv) (rule stream_window)

lemma stream_step: "stream_inv b \<Longrightarrow> stream_inv (bridge_step net e b)"
proof (cases e)
  case (Media pcm)
  assume s: "stream_inv b"
  show ?thesis
  proof (cases "vb_open b \<and> \<not> vb_clearing b")
    case True
    let ?n = "Suc (vb_sequence_num b)"
    have "stream_inv (b\<lparr>vb_sequence_num := ?n, vb_audio_delay_buf := vb_audio_delay_buf b @ [(vb_now b, AudioChunk ?n pcm)],
        vb_vad_buf := vb_vad_buf b @ pcm\<rparr>)"
      using s by (auto simp: stream_defs upt_Suc)
    from stream_loop [OF this] show ?thesis using Media True by (simp add: on_media_def Let_def)
  qed (use s Media in \<open>auto simp: on_media_def\<close>)
next
  case ClearSent
  assume s: "stream_inv b"
  show ?thesis
  proof (cases "vb_open b \<and> vb_clearing b")
    case True
    then have "stream_inv (queue_cancel (b\<lparr>vb_clearing := False\<rparr>))" using s by (auto simp: stream_defs bridge_defs)
    then show ?thesis using True ClearSent by (simp add: clear_sent_def stream_loop)
  qed (use s ClearSent in \<open>auto simp: clear_sent_def\<close>)
next
  case PumpAudio
  assume s: "stream_inv b"
  have "stream_inv (audio_delay_pump b)"
  proof (cases "vb_audio_delay_buf b")
    case (Cons p rest)
    moreover obtain t n pcm where "p = (t, AudioChunk n pcm)"
      using s Cons by (cases p) (auto simp: stream_inv_def elim: is_audio.elims)
    ultimately show ?thesis using s by (auto simp: stream_defs bridge_defs simp del: upt_Suc)
  qed (use s in \<open>simp add: audio_delay_pump_def\<close>)
  then show ?thesis using s PumpAudio by simp
next
  case WriteNext
  assume "stream_inv b"
  then have "stream_inv (grpc_writer b)" by (rule stream_cong) (auto simp: grpc_writer_def on_the_way_def split: list.splits)
  then show ?thesis using WriteNext \<open>stream_inv b\<close> by simp
next
  case PacerTake
  assume "stream_inv b"
  then show ?thesis using PacerTake stream_frame [of b "pacer_take b"] turn_active_frame(1) by simp
next
  case PacerWake
  assume "stream_inv b"
  then show ?thesis using PacerWake stream_frame [of b "pacer_wake b"] turn_active_frame(2) by simp
next
  case (ServiceError fatal)
  assume "stream_inv b"
  then show ?thesis using ServiceError stream_frame [of b "on_error fatal b"] turn_active_frame(3) by simp
next
  case WatchdogFires
  assume "stream_inv b"
  then show ?thesis using WatchdogFires stream_frame [of b "turn_watchdog_fire b"] turn_active_frame(4) by simp
next
  case (TtsChunk ulaw final)
  assume "stream_inv b"
  then show ?thesis using TtsChunk stream_frame [of b "on_tts_chunk ulaw final b"] turn_active_frame(5) by simp
qed (auto intro: stream_frame [of b] simp: caller_side_def)

lemma stream_init: "stream_inv bridge_init"
  by (simp add: stream_defs bridge_init_def)

interpretation stream: event_machine bridge_init "bridge_step net" stream_inv
  by unfold_locales (simp_all add: stream_init stream_step)

lemma prefix_of_upt: "xs @ ys = [1..<Suc n] \<Longrightarrow> xs = [1..<Suc (length xs)]"
proof -
  assume e: "xs @ ys = [1..<Suc n]"
  then have "xs = take (length xs) [1..<Suc n]" by (metis append_eq_conv_conj)
  moreover have "length xs \<le> n" using arg_cong [OF e, of length] by (simp del: upt_Suc)
  moreover have "take (length xs) [1..<Suc n] = [1..<1 + length xs]" if "length xs \<le> n" by (rule take_upt) (use that in simp)
  ultimately show ?thesis by simp
qed

text \<open>
  C5. What the service hears. Under every interleaving of the five tasks, the audio written to the
  stream is the caller's, every chunk once and in order from the first, through the hold-back, its early
  flush at a barge-in and the write queue; and a cancellation is written only for a turn that was
  announced before and not yet cancelled.
\<close>

theorem caller_stream_ordered:
  "let sent = vb_written (bridge_run net es)
   in audio_seqs sent = [1..<Suc (length (audio_seqs sent))] \<and> cancels_ok False sent"
proof -
  have s: "stream_inv (bridge_run net es)" using stream.inv_run [of net es] by (simp add: bridge_run_def)
  then have "audio_seqs (vb_written (bridge_run net es)) @
      audio_seqs (vb_write_queue (bridge_run net es) @ map snd (vb_audio_delay_buf (bridge_run net es))) =
      [1..<Suc (vb_sequence_num (bridge_run net es))]" by (simp add: stream_defs)
  from prefix_of_upt [OF this] show ?thesis using s by (simp add: stream_defs Let_def)
qed

section \<open>What the caller hears\<close>

definition frame_ok :: "nat list \<Rightarrow> bool" where
  "frame_ok f \<longleftrightarrow> f \<noteq> [] \<and> length f \<le> ULAW_FRAME_BYTES"

fun item_ok :: "play_item \<Rightarrow> bool" where
  "item_ok (PlayFrame f) = frame_ok f"
| "item_ok FINAL_MARKER = True"

fun ws_ok :: "ws_msg \<Rightarrow> bool" where
  "ws_ok (PlayAudio f) = frame_ok f"
| "ws_ok ClearAudio = True"

definition frame_s :: rat where
  "frame_s = 1 / 50"

definition pace_ok :: "rat \<Rightarrow> rat option \<Rightarrow> nat \<Rightarrow> (nat list \<times> rat) option \<Rightarrow> bool" where
  "pace_ok now started n pacing \<longleftrightarrow>
     (case started of
        Some s \<Rightarrow> s + PLAYBACK_LEAD_S \<le> now \<and> of_nat n * frame_s \<le> now - s + frame_s \<and>
                  (case pacing of Some (f, target) \<Rightarrow> target = s + of_nat n * frame_s | None \<Rightarrow> True)
      | None \<Rightarrow> n \<le> 1 \<and> (pacing \<noteq> None \<longrightarrow> n = 0))"

definition playback_inv :: "bridge \<Rightarrow> bool" where
  "playback_inv b \<longleftrightarrow>
     list_all item_ok (vb_play_queue b) \<and> list_all ws_ok (vb_ws b) \<and> length (vb_play_buf b) < ULAW_FRAME_BYTES \<and>
     (case vb_pacing b of Some (f, target) \<Rightarrow> frame_ok f | None \<Rightarrow> True) \<and>
     pace_ok (vb_now b) (vb_playback_started_at b) (vb_frames_sent b) (vb_pacing b)"

lemma full_frames_spec:
  "length buf \<le> n \<Longrightarrow> full_frames n buf = (fs, rest) \<Longrightarrow>
     concat fs @ rest = buf \<and> list_all (\<lambda>f. length f = ULAW_FRAME_BYTES) fs \<and> length rest < ULAW_FRAME_BYTES"
proof (induction n buf arbitrary: fs rest rule: full_frames.induct)
  case (2 n buf)
  show ?case
  proof (cases "ULAW_FRAME_BYTES \<le> length buf")
    case True
    obtain fs' rest' where r: "full_frames n (drop ULAW_FRAME_BYTES buf) = (fs', rest')" by fastforce
    have "length (drop ULAW_FRAME_BYTES buf) \<le> n" using 2(2) True by (auto simp: ULAW_FRAME_BYTES_def)
    from 2(1) [OF True this r] show ?thesis using 2(3) True r by auto
  next
    case False
    then show ?thesis using 2(3) by auto
  qed
qed (auto simp: ULAW_FRAME_BYTES_def)

lemma pace_later: "pace_ok now s n p \<Longrightarrow> now \<le> now' \<Longrightarrow> pace_ok now' s n p"
  by (auto simp: pace_ok_def split: option.splits)

lemma pace_clear [simp]: "pace_ok now None 0 p"
  by (simp add: pace_ok_def)

lemma playback_chunk: "playback_inv b \<Longrightarrow> playback_inv (on_tts_chunk ulaw final b)"
proof -
  assume p: "playback_inv b"
  obtain fs rest where r: "full_frames (length (vb_play_buf b @ ulaw)) (vb_play_buf b @ ulaw) = (fs, rest)" by fastforce
  have "list_all (\<lambda>f. length f = ULAW_FRAME_BYTES) fs" "length rest < ULAW_FRAME_BYTES"
    using full_frames_spec [OF _ r] by simp_all
  moreover from this(1) have "list_all item_ok (map PlayFrame fs)"
    by (auto simp: list_all_iff frame_ok_def ULAW_FRAME_BYTES_def)
  ultimately show ?thesis using p r by (auto simp: on_tts_chunk_def playback_inv_def frame_ok_def ULAW_FRAME_BYTES_def Let_def)
qed

lemma pacer_take_inv: "playback_inv b \<Longrightarrow> playback_inv (pacer_take b)"
proof (cases "vb_pacing b")
  case (Some f)
  assume "playback_inv b"
  then show ?thesis using Some by (simp add: pacer_take_def)
next
  case None
  assume p: "playback_inv b"
  show ?thesis
  proof (cases "vb_play_queue b")
    case Nil
    then show ?thesis using p None by (simp add: pacer_take_def)
  next
    case (Cons i rest)
    show ?thesis
    proof (cases i)
      case FINAL_MARKER
      then show ?thesis using p None Cons by (simp add: pacer_take_def playback_inv_def resolve_turn_def)
    next
      case (PlayFrame f)
      have q: "frame_ok f" "list_all item_ok rest" "list_all ws_ok (vb_ws b)" "length (vb_play_buf b) < ULAW_FRAME_BYTES"
        "pace_ok (vb_now b) (vb_playback_started_at b) (vb_frames_sent b) None"
        using p None Cons PlayFrame by (simp_all add: playback_inv_def)
      show ?thesis
      proof (cases "vb_playback_started_at b")
        case n: None
        then have "pacer_take b = send_frame f (b\<lparr>vb_play_queue := rest, vb_playing_tts := True,
            vb_playback_started_at := Some (vb_now b - PLAYBACK_LEAD_S), vb_frames_sent := 0\<rparr>)"
          using None Cons PlayFrame by (simp add: pacer_take_def Let_def PLAYBACK_LEAD_S_def)
        then show ?thesis using q None
          by (simp add: playback_inv_def send_frame_def pace_ok_def PLAYBACK_LEAD_S_def frame_s_def)
      next
        case (Some s)
        then show ?thesis using q None Cons PlayFrame
          by (auto simp: pacer_take_def playback_inv_def send_frame_def pace_ok_def Let_def frame_s_def
              ULAW_FRAME_BYTES_def algebra_simps add_divide_distrib)
      qed
    qed
  qed
qed

lemma pacer_wake_inv: "playback_inv b \<Longrightarrow> playback_inv (pacer_wake b)"
  by (auto simp: pacer_wake_def playback_inv_def send_frame_def pace_ok_def frame_s_def algebra_simps add_divide_distrib split: option.splits)

lemma playback_window: "playback_inv b \<Longrightarrow> playback_inv (vad_window net b)"
  by (rule vad_window_inv [OF _ _ _ refl refl]) (auto simp: playback_inv_def bridge_defs Let_def)

lemma playback_loop: "playback_inv b \<Longrightarrow> playback_inv (vad_loop net b)"
  by (rule vad_loop_inv) (rule playback_window)

lemma playback_cong:
  "playback_inv b \<Longrightarrow> vb_play_queue b' = vb_play_queue b \<Longrightarrow> vb_ws b' = vb_ws b \<Longrightarrow> vb_play_buf b' = vb_play_buf b \<Longrightarrow>
     vb_pacing b' = vb_pacing b \<Longrightarrow> vb_now b' = vb_now b \<Longrightarrow> vb_playback_started_at b' = vb_playback_started_at b \<Longrightarrow>
     vb_frames_sent b' = vb_frames_sent b \<Longrightarrow> playback_inv b'"
  by (simp add: playback_inv_def)

lemma playback_step: "playback_inv b \<Longrightarrow> playback_inv (bridge_step net e b)"
proof (cases e)
  case (Elapse ns)
  assume "playback_inv b"
  then show ?thesis using Elapse by (auto simp: playback_inv_def intro: pace_later)
next
  case (Media pcm)
  assume p: "playback_inv b"
  then show ?thesis using Media
    by (auto simp: on_media_def Let_def intro!: playback_loop intro: playback_cong [OF p])
next
  case ClearSent
  assume p: "playback_inv b"
  have "playback_inv (queue_cancel (b\<lparr>vb_clearing := False\<rparr>))"
    by (rule playback_cong [OF p]) (simp_all add: queue_cancel_def enqueue_def flush_pending_audio_now_def)
  then show ?thesis using p ClearSent by (simp add: clear_sent_def playback_loop)
next
  case PumpAudio
  assume p: "playback_inv b"
  have "playback_inv (audio_delay_pump b)"
    by (rule playback_cong [OF p]) (simp_all add: audio_delay_pump_def enqueue_def split: list.split prod.split)
  then show ?thesis using p PumpAudio by simp
next
  case WriteNext
  assume p: "playback_inv b"
  have "playback_inv (grpc_writer b)" by (rule playback_cong [OF p]) (simp_all add: grpc_writer_def split: list.split)
  then show ?thesis using p WriteNext by simp
next
  case (ServiceError fatal)
  assume "playback_inv b"
  then show ?thesis using ServiceError
    by (simp add: playback_inv_def on_error_def clear_playback_queue_def resolve_turn_def Let_def ULAW_FRAME_BYTES_def)
next
  case WatchdogFires
  assume p: "playback_inv b"
  have "playback_inv (turn_watchdog_fire b)"
    by (rule playback_cong [OF p]) (simp_all add: turn_watchdog_fire_def split: option.split)
  then show ?thesis using p WatchdogFires by simp
qed (auto simp: playback_chunk pacer_take_inv pacer_wake_inv intro: playback_cong)

lemma playback_init: "playback_inv bridge_init"
  by (simp add: playback_inv_def bridge_init_def ULAW_FRAME_BYTES_def)

interpretation playback: event_machine bridge_init "bridge_step net" playback_inv
  by unfold_locales (simp_all add: playback_init playback_step)

text \<open>
  Playback is paced. Every frame sent to the provider holds 1 to 160 bytes, at most 20 milliseconds;
  and at every moment the audio sent since the playback began exceeds the time since then by at most 120
  milliseconds, the lead and one frame. So the provider never buffers more than that, and a barge-in has
  the rest to drop.
\<close>

theorem playback_paced:
  "let b = bridge_run net es
   in list_all ws_ok (vb_ws b) \<and>
      (case vb_playback_started_at b of
         None \<Rightarrow> vb_frames_sent b \<le> 1
       | Some s \<Rightarrow> s + PLAYBACK_LEAD_S \<le> vb_now b \<and>
           of_nat (vb_frames_sent b) * (1 / 50) - (vb_now b - (s + PLAYBACK_LEAD_S)) \<le> 120 / 1000)"
  using playback.inv_run [of net es]
  by (auto simp: bridge_run_def Let_def playback_inv_def pace_ok_def frame_s_def PLAYBACK_LEAD_S_def split: option.splits)

section \<open>Barge-in\<close>

definition frames_played :: "bridge \<Rightarrow> nat" where
  "frames_played b = length (filter (\<lambda>m. m \<noteq> ClearAudio) (vb_ws b))"

fun brings_audio :: "bridge_event \<Rightarrow> bool" where
  "brings_audio (TtsChunk ulaw final) = True"
| "brings_audio _ = False"

definition silent :: "nat \<Rightarrow> bridge \<Rightarrow> bool" where
  "silent n b \<longleftrightarrow> list_all (\<lambda>i. i = FINAL_MARKER) (vb_play_queue b) \<and>
     frames_played b + (case vb_pacing b of Some f \<Rightarrow> 1 | None \<Rightarrow> 0) \<le> n"

lemma silent_cong:
  "silent n b \<Longrightarrow> vb_play_queue b' = vb_play_queue b \<or> vb_play_queue b' = [] \<Longrightarrow> vb_pacing b' = vb_pacing b \<Longrightarrow>
     vb_ws b' = vb_ws b \<or> vb_ws b' = vb_ws b @ [ClearAudio] \<Longrightarrow> silent n b'"
  by (auto simp: silent_def frames_played_def)

lemma silent_window: "silent n b \<Longrightarrow> silent n (vad_window net b)"
  by (rule vad_window_inv [OF _ _ _ refl refl]; erule silent_cong) (simp_all add: bridge_defs Let_def)

lemma silent_loop: "silent n b \<Longrightarrow> silent n (vad_loop net b)"
  by (rule vad_loop_inv) (rule silent_window)

lemma silent_step: "silent n b \<Longrightarrow> \<not> brings_audio e \<Longrightarrow> silent n (bridge_step net e b)"
proof (cases e)
  case (Media pcm)
  assume p: "silent n b"
  then show ?thesis using Media
    by (auto simp: on_media_def Let_def intro!: silent_loop intro: silent_cong [OF p])
next
  case ClearSent
  assume p: "silent n b"
  have "silent n (queue_cancel (b\<lparr>vb_clearing := False\<rparr>))"
    by (rule silent_cong [OF p]) (simp_all add: queue_cancel_def enqueue_def flush_pending_audio_now_def)
  then show ?thesis using p ClearSent by (simp add: clear_sent_def silent_loop)
next
  case PumpAudio
  assume p: "silent n b"
  have "silent n (audio_delay_pump b)"
    by (rule silent_cong [OF p]) (simp_all add: audio_delay_pump_def enqueue_def split: list.split prod.split)
  then show ?thesis using p PumpAudio by simp
next
  case WriteNext
  assume p: "silent n b"
  have "silent n (grpc_writer b)" by (rule silent_cong [OF p]) (simp_all add: grpc_writer_def split: list.split)
  then show ?thesis using p WriteNext by simp
next
  case (ServiceError fatal)
  assume p: "silent n b"
  have "silent n (on_error fatal b)" by (rule silent_cong [OF p]) (simp_all add: on_error_def bridge_defs Let_def)
  then show ?thesis using p ServiceError by simp
next
  case WatchdogFires
  assume p: "silent n b"
  have "silent n (turn_watchdog_fire b)"
    by (rule silent_cong [OF p]) (simp_all add: turn_watchdog_fire_def split: option.split)
  then show ?thesis using p WatchdogFires by simp
next
  case PacerTake
  assume "silent n b"
  then have "silent n (pacer_take b)"
    by (cases "vb_play_queue b") (auto simp: silent_def pacer_take_def resolve_turn_def frames_played_def split: option.splits)
  then show ?thesis using PacerTake \<open>silent n b\<close> by simp
next
  case PacerWake
  assume "silent n b"
  then have "silent n (pacer_wake b)"
    by (auto simp: silent_def pacer_wake_def send_frame_def frames_played_def split: option.splits)
  then show ?thesis using PacerWake \<open>silent n b\<close> by simp
qed (auto intro: silent_cong)

lemma silent_run: "silent n b \<Longrightarrow> list_all (\<lambda>e. \<not> brings_audio e) es \<Longrightarrow> silent n (fold (bridge_step net) es b)"
  by (induction es arbitrary: b) (auto intro: silent_step)

text \<open>
  C6. A barge-in works. When the detector reports speech while a turn is in flight, the turn is over and
  its watchdog gone, nothing is left to play; whatever happens then, until the service sends new audio at
  most one more frame goes out, the one the pacer already held. If no audio was playing, the cancellation
  is queued at once, before all the audio that was held back, which holds the caller's first words.
\<close>

theorem barge_in_silences:
  assumes "silero_process net (take WINDOW_SAMPLES (vb_vad_buf b)) (vb_vad b) = (SPEECH_START, v)"
    and "vb_turn_active b" and "list_all (\<lambda>e. \<not> brings_audio e) es"
  shows "\<not> vb_turn_active (vad_window net b) \<and> vb_turn_watchdog (vad_window net b) = None \<and>
    vb_play_queue (vad_window net b) = [] \<and> vb_play_buf (vad_window net b) = [] \<and>
    frames_played (fold (bridge_step net) es (vad_window net b)) \<le> frames_played b + 1 \<and>
    (\<not> vb_playing_tts b \<longrightarrow>
       vb_write_queue (vad_window net b) = vb_write_queue b @ [CancelTurn] @ map snd (vb_audio_delay_buf b))"
proof -
  have w: "vad_window net b = speech_start (b\<lparr>vb_vad := v, vb_vad_buf := drop WINDOW_SAMPLES (vb_vad_buf b)\<rparr>)"
    by (simp add: vad_window_def assms(1) Let_def)
  have "silent (frames_played b + 1) (vad_window net b)"
    using assms(2) by (auto simp: w silent_def frames_played_def bridge_defs Let_def split: option.split)
  from silent_run [OF this assms(3), of net]
  have "frames_played (fold (bridge_step net) es (vad_window net b)) \<le> frames_played b + 1"
    by (simp add: silent_def)
  then show ?thesis using assms(2) by (auto simp: w bridge_defs Let_def)
qed

definition loud_network :: network where
  "loud_network input st = Some (1, st)"

text \<open>A turn in flight, a reply that plays, one chunk held back, and two loud windows heard already.\<close>

definition ex_playing :: bridge where
  "ex_playing = bridge_init\<lparr>
     vb_vad := (silero_init silero_defaults)\<lparr>sv_onset_windows := 2\<rparr>, vb_vad_buf := replicate 512 1000,
     vb_turn_active := True, vb_playing_tts := True, vb_turn_watchdog := Some (0, 12),
     vb_play_queue := [PlayFrame [1, 2], FINAL_MARKER], vb_audio_delay_buf := [(0, AudioChunk 1 [])]\<rparr>"

lemma loud_window:
  "\<exists>v. silero_process loud_network (replicate 512 1000) ((silero_init silero_defaults)\<lparr>sv_onset_windows := 2\<rparr>) = (SPEECH_START, v)"
  by (simp add: silero_process_def WINDOW_SAMPLES_def loud_network_def Let_def silero_react_def silero_init_def
      silero_defaults_def ceil_div_def WINDOW_MS_def)

theorem barge_in_silences_witness:
  "vb_play_queue (vad_window loud_network ex_playing) = [] \<and>
   frames_played (fold (bridge_step loud_network) [PacerTake, PacerWake] (vad_window loud_network ex_playing)) \<le> 1"
proof -
  obtain v where v: "silero_process loud_network (take WINDOW_SAMPLES (vb_vad_buf ex_playing)) (vb_vad ex_playing) = (SPEECH_START, v)"
    using loud_window by (auto simp: ex_playing_def WINDOW_SAMPLES_def)
  have "vb_turn_active ex_playing" "frames_played ex_playing = 0"
    by (simp_all add: ex_playing_def frames_played_def bridge_init_def)
  then show ?thesis using barge_in_silences [OF v, of "[PacerTake, PacerWake]"] by simp
qed

section \<open>What goes wrong\<close>

text \<open>
  The watchdog counts from the end of the caller's utterance to the end of the playback: with a reply that
  plays beyond it, the turn is over while the reply still plays, and the caller's speech interrupts nothing.
\<close>

lemma watchdog_disables_barge_in:
  assumes "vb_turn_watchdog b = Some (vb_turn_generation b, due)" and "due \<le> vb_now b" and "vb_open b"
    and "silero_process net (take WINDOW_SAMPLES (vb_vad_buf b)) (vb_vad b) = (SPEECH_START, v)" and "vb_turn_active b"
  shows "let b' = vad_window net (bridge_step net WatchdogFires b)
         in vb_play_queue b' = vb_play_queue b \<and> vb_ws b' = vb_ws b \<and> vb_write_queue b' = vb_write_queue b \<and>
            vb_playing_tts b' = vb_playing_tts b"
  using assms by (simp add: vad_window_def turn_watchdog_fire_def speech_start_def Let_def)

text \<open>
  The service sends the end of the call right behind the audio of the farewell; the bridge tears down at
  once, whatever is left in the queue.
\<close>

lemma end_call_drops_goodbye: "vb_ws (fold (bridge_step net) es (bridge_step net ServiceEndCall b)) = vb_ws b"
proof -
  have "\<not> vb_open b \<Longrightarrow> vb_ws (fold (bridge_step net) es b) = vb_ws b" for b
  proof (induction es arbitrary: b)
    case (Cons e es)
    have "vb_ws (bridge_step net e b) = vb_ws b \<and> \<not> vb_open (bridge_step net e b)" using Cons.prems by (cases e) simp_all
    then show ?case using Cons.IH by simp
  qed simp
  from this [of "bridge_step net ServiceEndCall b"] show ?thesis by simp
qed

text \<open>
  While the bridge waits for the provider to take \<^verbatim>\<open>clearAudio\<close>, the cancellation is not queued yet: audio
  that becomes old enough overtakes it.
\<close>

lemma audio_overtakes_cancel:
  assumes "vb_clearing b" and "vb_open b" and "vb_audio_delay_buf b = (t, m) # held" and "AUDIO_DELAY_S \<le> vb_now b - t"
    and "length (vb_vad_buf b) < WINDOW_SAMPLES"
  shows "vb_write_queue (bridge_step net ClearSent (bridge_step net PumpAudio b)) =
    vb_write_queue b @ [m, CancelTurn] @ map snd held"
  using assms
  by (simp add: audio_delay_pump_def clear_sent_def bridge_defs vad_loop.simps)

text \<open>Every announced utterance has length zero.\<close>

definition no_length :: "bridge \<Rightarrow> bool" where
  "no_length b \<longleftrightarrow> (\<forall>m \<in> set (on_the_way b @ map snd (vb_audio_delay_buf b)). case m of SpeechEndedNote d p \<Rightarrow> d = 0 | _ \<Rightarrow> True)"

lemma no_length_window: "no_length b \<Longrightarrow> no_length (vad_window net b)"
proof -
  assume n: "no_length b"
  obtain e v where p: "silero_process net (take WINDOW_SAMPLES (vb_vad_buf b)) (vb_vad b) = (e, v)" by fastforce
  show ?thesis using n p duration_zero_at_end [of net "take WINDOW_SAMPLES (vb_vad_buf b)" "vb_vad b" v]
    by (cases e) (auto simp: vad_window_def Let_def no_length_def on_the_way_def bridge_defs)
qed

lemma no_length_frame: "no_length b \<Longrightarrow> caller_side b' = caller_side b \<Longrightarrow> no_length b'"
  by (simp add: no_length_def caller_side_def on_the_way_def)

lemma no_length_loop: "no_length b \<Longrightarrow> no_length (vad_loop net b)"
  by (rule vad_loop_inv) (rule no_length_window)

lemma no_length_step: "no_length b \<Longrightarrow> no_length (bridge_step net e b)"
proof (cases e)
  case (Media pcm)
  assume n: "no_length b"
  let ?n = "Suc (vb_sequence_num b)"
  have "no_length (b\<lparr>vb_sequence_num := ?n, vb_audio_delay_buf := vb_audio_delay_buf b @ [(vb_now b, AudioChunk ?n pcm)],
      vb_vad_buf := vb_vad_buf b @ pcm\<rparr>)"
    using n by (auto simp: no_length_def on_the_way_def)
  then show ?thesis using n Media by (simp add: on_media_def Let_def no_length_loop)
next
  case ClearSent
  assume n: "no_length b"
  have "no_length (queue_cancel (b\<lparr>vb_clearing := False\<rparr>))"
    using n by (auto simp: no_length_def on_the_way_def queue_cancel_def enqueue_def flush_pending_audio_now_def)
  then show ?thesis using n ClearSent by (simp add: clear_sent_def no_length_loop)
next
  case PumpAudio
  assume n: "no_length b"
  have "on_the_way (audio_delay_pump b) @ map snd (vb_audio_delay_buf (audio_delay_pump b)) =
      on_the_way b @ map snd (vb_audio_delay_buf b)"
    by (simp add: audio_delay_pump_def enqueue_def on_the_way_def split: list.split prod.split)
  then have "no_length (audio_delay_pump b)" using n by (simp only: no_length_def)
  then show ?thesis using n PumpAudio by simp
next
  case WriteNext
  assume "no_length b"
  then show ?thesis using WriteNext by (cases "vb_write_queue b") (auto simp: grpc_writer_def no_length_def on_the_way_def)
qed (auto intro: no_length_frame simp: caller_side_frame, auto intro: no_length_frame simp: caller_side_def)

interpretation lengths: event_machine bridge_init "bridge_step net" no_length
  by unfold_locales (simp_all add: no_length_step, simp add: no_length_def on_the_way_def bridge_init_def)

lemma utterance_length_lost: "SpeechEndedNote d p \<in> set (vb_written (bridge_run net es)) \<Longrightarrow> d = 0"
  using lengths.inv_run [of net es] by (force simp: bridge_run_def no_length_def on_the_way_def)

end
