(* ===== verification/Campaign_Worker.thy ===== *)
theory Campaign_Worker
  imports Py_Values
begin

text \<open>
  The dialling worker of outbound campaigns (\<^verbatim>\<open>services/campaigns/worker.py\<close>) with the queries it makes
  (\<^verbatim>\<open>campaign_contacts.py\<close>, \<^verbatim>\<open>dnc.py\<close>, \<^verbatim>\<open>campaigns.py\<close>): pacing, the concurrency cap, claiming a contact,
  the do-not-call check, retries, and the completion events of the telephone switch, which arrive
  between any two awaits of a tick.

  A tick is cut at its awaits: the place where it waits, with the local variables that are read again
  afterwards, is part of the state, and every event is one step between two awaits. A contact table is
  kept in the order of creation. The settings of a campaign do not change. A campaign may be ticked at
  any time, whatever its status. The listener of the switch handles one completion at a time: while it
  waits for the database, the next one stays in the socket. The database itself does not fail.
\<close>

section \<open>Do-not-call numbers\<close>

text \<open>\<^verbatim>\<open>str.isdigit\<close> on Latin-1: the digits and the three superscripts.\<close>

definition py_isdigit :: "char \<Rightarrow> bool" where
  "py_isdigit c \<longleftrightarrow> ascii_digit c \<or> (of_char c :: nat) \<in> {178, 179, 185}"

definition normalize_phone :: "string \<Rightarrow> string" where
  "normalize_phone phone =
     (let digits = filter py_isdigit phone
      in if length digits \<ge> 10 then drop (length digits - 10) digits else digits)"

text \<open>The table of a tenant's numbers: \<^verbatim>\<open>add_number\<close> is an upsert on (tenant, number).\<close>

type_synonym dnc_table = "(string \<times> string) list"

definition add_number :: "string \<Rightarrow> string \<Rightarrow> dnc_table \<Rightarrow> dnc_table" where
  "add_number tenant phone dnc = (if (tenant, phone) \<in> set dnc then dnc else dnc @ [(tenant, phone)])"

definition remove_number :: "string \<Rightarrow> string \<Rightarrow> dnc_table \<Rightarrow> dnc_table" where
  "remove_number tenant phone dnc = filter (\<lambda>row. row \<noteq> (tenant, phone)) dnc"

definition is_blocked :: "dnc_table \<Rightarrow> string \<Rightarrow> string \<Rightarrow> bool" where
  "is_blocked dnc tenant phone \<longleftrightarrow>
     list_ex (\<lambda>(t, p). t = tenant \<and> normalize_phone p = normalize_phone phone) dnc"

section \<open>Calling hours\<close>

text \<open>Minutes after midnight; \<open>Inl\<close> is the exception of \<^verbatim>\<open>int()\<close> or of \<^verbatim>\<open>time()\<close>.\<close>

definition parse_hhmm :: "string \<Rightarrow> py_exn + int" where
  "parse_hhmm value =
     (let hour = takeWhile (\<lambda>c. c \<noteq> CHR '':'') value;
          minute = drop 1 (dropWhile (\<lambda>c. c \<noteq> CHR '':'') value)
      in case (py_int_of_string hour, py_int_of_string minute) of
           (Some h, Some m) \<Rightarrow>
             if 0 \<le> h \<and> h \<le> 23 \<and> 0 \<le> m \<and> m \<le> 59 then Inr (h * 60 + m) else Inl ValueError
         | _ \<Rightarrow> Inl ValueError)"

text \<open>\<open>now\<close> is the local time of day in minutes, seconds as fractions.\<close>

definition within_calling_hours :: "string option \<Rightarrow> string option \<Rightarrow> rat \<Rightarrow> py_exn + bool" where
  "within_calling_hours start_s end_s now =
     (case (start_s, end_s) of
        (Some s, Some e) \<Rightarrow>
          if s = [] \<or> e = [] then Inr True
          else (case parse_hhmm s of
                  Inl x \<Rightarrow> Inl x
                | Inr a \<Rightarrow>
                    (case parse_hhmm e of
                       Inl x \<Rightarrow> Inl x
                     | Inr b \<Rightarrow>
                         Inr (if a \<le> b then of_int a \<le> now \<and> now \<le> of_int b
                              else now \<ge> of_int a \<or> now \<le> of_int b)))
      | _ \<Rightarrow> Inr True)"

section \<open>State\<close>

datatype contact_status = Pending | Calling | Completed | FailedCall | NoAnswer | Blocked

record contact =
  ct_campaign :: string
  ct_phone :: string
  ct_status :: contact_status
  ct_attempts :: int
  ct_session :: "string option"

record campaign =
  cp_tenant :: string
  cp_pacing_seconds :: rat
  cp_max_concurrent_calls :: int
  cp_caller_id :: string
  cp_hours_start :: "string option"
  cp_hours_end :: "string option"
  cp_max_attempts :: int

text \<open>Where the running tick waits: for the claim, the progress, the do-not-call list, the switch, or
  for the update of a contact after which the counter is decremented.\<close>

datatype tick_state =
    Idle
  | AwaitClaim string int rat
  | AwaitProgress string
  | AwaitDnc string int rat string
  | AwaitOriginate string string int int
  | AwaitRelease string

record cworker =
  cw_contacts :: "(string, contact) odict"
  cw_completed :: "string list"
  cw_last_attempt_at :: "(string, rat) odict"
  cw_in_flight :: "(string, int) odict"
  cw_job_to_contact :: "(string, string \<times> string \<times> int \<times> int) odict"
  cw_tick :: tick_state
  cw_listener :: "string option"
  cw_dnc :: dnc_table
  cw_dialled :: "(string \<times> string) list"

text \<open>\<^verbatim>\<open>claim_next_pending\<close>: the oldest pending contact of the campaign.\<close>

fun next_pending :: "(string, contact) odict \<Rightarrow> string \<Rightarrow> string option" where
  "next_pending [] cid = None"
| "next_pending ((k, ct) # d) cid =
     (if ct_campaign ct = cid \<and> ct_status ct = Pending then Some k else next_pending d cid)"

definition mark_contact_status ::
  "string \<Rightarrow> contact_status \<Rightarrow> string option \<Rightarrow> (string, contact) odict \<Rightarrow> (string, contact) odict"
where
  "mark_contact_status k st session d =
     (case od_get d k of
        None \<Rightarrow> d
      | Some ct \<Rightarrow>
          od_set k (ct\<lparr>ct_status := st,
                       ct_session := (case session of Some s \<Rightarrow> Some s | None \<Rightarrow> ct_session ct)\<rparr>) d)"

definition in_flight_of :: "cworker \<Rightarrow> string \<Rightarrow> int" where
  "in_flight_of w cid = (case od_get (cw_in_flight w) cid of Some n \<Rightarrow> n | None \<Rightarrow> 0)"

text \<open>\<^verbatim>\<open>max(0, self._in_flight.get(campaign_id, 1) - 1)\<close>.\<close>

definition release :: "string \<Rightarrow> cworker \<Rightarrow> cworker" where
  "release cid w =
     w\<lparr>cw_in_flight := od_set cid
          (max 0 ((case od_get (cw_in_flight w) cid of Some n \<Rightarrow> n | None \<Rightarrow> 1) - 1)) (cw_in_flight w)\<rparr>"

text \<open>The update that resolves a contact; the counter follows when the database has answered.\<close>

definition resolve_contact :: "string \<Rightarrow> contact_status \<Rightarrow> string option \<Rightarrow> cworker \<Rightarrow> cworker" where
  "resolve_contact k st session w = w\<lparr>cw_contacts := mark_contact_status k st session (cw_contacts w)\<rparr>"

definition resolve_with_retry :: "string \<Rightarrow> int \<Rightarrow> int \<Rightarrow> contact_status \<Rightarrow> cworker \<Rightarrow> cworker" where
  "resolve_with_retry k max_attempts attempt_count st w =
     (if attempt_count < max_attempts
      then w\<lparr>cw_contacts := mark_contact_status k Pending None (cw_contacts w)\<rparr>
      else resolve_contact k st None w)"

section \<open>Steps\<close>

text \<open>The start of \<^verbatim>\<open>_tick_campaign\<close>, up to its first await.\<close>

definition tick_campaign :: "(string \<Rightarrow> campaign) \<Rightarrow> string \<Rightarrow> rat \<Rightarrow> rat \<Rightarrow> cworker \<Rightarrow> cworker" where
  "tick_campaign cfg cid now day_minutes w =
     (let c = cfg cid;
          last_at = (case od_get (cw_last_attempt_at w) cid of Some t \<Rightarrow> t | None \<Rightarrow> 0)
      in if cw_tick w \<noteq> Idle then w
         else if now - last_at < cp_pacing_seconds c then w
         else if in_flight_of w cid \<ge> cp_max_concurrent_calls c then w
         else if cp_caller_id c = [] then w
         else (case within_calling_hours (cp_hours_start c) (cp_hours_end c) day_minutes of
                 Inr True \<Rightarrow> w\<lparr>cw_tick := AwaitClaim cid (in_flight_of w cid) now\<rparr>
               | _ \<Rightarrow> w))"

definition claim_step :: "cworker \<Rightarrow> cworker" where
  "claim_step w =
     (case cw_tick w of
        AwaitClaim cid n now \<Rightarrow>
          (case next_pending (cw_contacts w) cid of
             None \<Rightarrow> w\<lparr>cw_tick := AwaitProgress cid\<rparr>
           | Some k \<Rightarrow>
               (case od_get (cw_contacts w) k of
                  None \<Rightarrow> w
                | Some ct \<Rightarrow>
                    w\<lparr>cw_contacts := od_set k (ct\<lparr>ct_status := Calling, ct_attempts := ct_attempts ct + 1\<rparr>)
                                       (cw_contacts w),
                      cw_tick := AwaitDnc cid n now k\<rparr>))
      | _ \<Rightarrow> w)"

definition progress_step :: "cworker \<Rightarrow> cworker" where
  "progress_step w =
     (case cw_tick w of
        AwaitProgress cid \<Rightarrow>
          (if list_ex (\<lambda>(k, ct). ct_campaign ct = cid \<and> ct_status ct = Calling) (cw_contacts w)
           then w\<lparr>cw_tick := Idle\<rparr>
           else w\<lparr>cw_completed := cw_completed w @ [cid], cw_tick := Idle\<rparr>)
      | _ \<Rightarrow> w)"

text \<open>After the do-not-call check the call is paid for, from the counter that was read at the start,
  and the switch is asked to dial.\<close>

definition dnc_step :: "(string \<Rightarrow> campaign) \<Rightarrow> cworker \<Rightarrow> cworker" where
  "dnc_step cfg w =
     (case cw_tick w of
        AwaitDnc cid n now k \<Rightarrow>
          (case od_get (cw_contacts w) k of
             None \<Rightarrow> w
           | Some ct \<Rightarrow>
               if is_blocked (cw_dnc w) (cp_tenant (cfg cid)) (ct_phone ct)
               then w\<lparr>cw_contacts := mark_contact_status k Blocked None (cw_contacts w), cw_tick := Idle\<rparr>
               else w\<lparr>cw_last_attempt_at := od_set cid now (cw_last_attempt_at w),
                      cw_in_flight := od_set cid (n + 1) (cw_in_flight w),
                      cw_dialled := cw_dialled w @ [(k, ct_phone ct)],
                      cw_tick := AwaitOriginate cid k (cp_max_attempts (cfg cid)) (ct_attempts ct)\<rparr>)
      | _ \<Rightarrow> w)"

text \<open>The answer of the switch: \<open>None\<close> is \<^verbatim>\<open>OriginateError\<close>, the empty text a missing job id.\<close>

definition originate_step :: "string option \<Rightarrow> cworker \<Rightarrow> cworker" where
  "originate_step job w =
     (case cw_tick w of
        AwaitOriginate cid k mx att \<Rightarrow>
          (case job of
             Some uuid \<Rightarrow>
               if uuid \<noteq> []
               then w\<lparr>cw_job_to_contact := od_set uuid (cid, k, mx, att) (cw_job_to_contact w), cw_tick := Idle\<rparr>
               else resolve_with_retry k mx att FailedCall (w\<lparr>cw_tick := AwaitRelease cid\<rparr>)
           | None \<Rightarrow> resolve_with_retry k mx att FailedCall (w\<lparr>cw_tick := AwaitRelease cid\<rparr>))
      | _ \<Rightarrow> w)"

definition tick_release_step :: "cworker \<Rightarrow> cworker" where
  "tick_release_step w =
     (case cw_tick w of AwaitRelease cid \<Rightarrow> release cid (w\<lparr>cw_tick := Idle\<rparr>) | _ \<Rightarrow> w)"

definition job_status :: "bool \<Rightarrow> string \<Rightarrow> contact_status" where
  "job_status succeeded detail =
     (if succeeded then Completed else if py_in ''NO_ANSWER'' detail then NoAnswer else FailedCall)"

definition job_session :: "bool \<Rightarrow> string \<Rightarrow> string option" where
  "job_session succeeded detail =
     (let s = py_strip (if starts_with ''+OK'' detail then drop 3 detail else detail)
      in if succeeded \<and> s \<noteq> [] then Some s else None)"

definition on_job_complete :: "string \<Rightarrow> bool \<Rightarrow> string \<Rightarrow> cworker \<Rightarrow> cworker" where
  "on_job_complete uuid succeeded detail w =
     (if cw_listener w \<noteq> None then w
      else case od_get (cw_job_to_contact w) uuid of
        None \<Rightarrow> w
      | Some (cid, k, mx, att) \<Rightarrow>
          let w1 = w\<lparr>cw_job_to_contact := od_del uuid (cw_job_to_contact w), cw_listener := Some cid\<rparr>;
              st = job_status succeeded detail
          in if st = FailedCall \<or> st = NoAnswer then resolve_with_retry k mx att st w1
             else resolve_contact k st (job_session succeeded detail) w1)"

definition listener_release_step :: "cworker \<Rightarrow> cworker" where
  "listener_release_step w =
     (case cw_listener w of Some cid \<Rightarrow> release cid (w\<lparr>cw_listener := None\<rparr>) | None \<Rightarrow> w)"

datatype cw_event =
    TickCampaign string rat rat
  | ClaimDone
  | ProgressDone
  | DncDone
  | OriginateDone "string option"
  | TickReleaseDone
  | JobComplete string bool string
  | ListenerReleaseDone
  | AddNumber string string
  | RemoveNumber string string

fun cw_step :: "(string \<Rightarrow> campaign) \<Rightarrow> cw_event \<Rightarrow> cworker \<Rightarrow> cworker" where
  "cw_step cfg (TickCampaign cid now day) w = tick_campaign cfg cid now day w"
| "cw_step cfg ClaimDone w = claim_step w"
| "cw_step cfg ProgressDone w = progress_step w"
| "cw_step cfg DncDone w = dnc_step cfg w"
| "cw_step cfg (OriginateDone job) w = originate_step job w"
| "cw_step cfg TickReleaseDone w = tick_release_step w"
| "cw_step cfg (JobComplete uuid ok detail) w = on_job_complete uuid ok detail w"
| "cw_step cfg ListenerReleaseDone w = listener_release_step w"
| "cw_step cfg (AddNumber tenant phone) w = w\<lparr>cw_dnc := add_number tenant phone (cw_dnc w)\<rparr>"
| "cw_step cfg (RemoveNumber tenant phone) w = w\<lparr>cw_dnc := remove_number tenant phone (cw_dnc w)\<rparr>"

definition worker_init :: "(string, contact) odict \<Rightarrow> dnc_table \<Rightarrow> cworker" where
  "worker_init contacts dnc =
     \<lparr>cw_contacts = contacts, cw_completed = [], cw_last_attempt_at = [], cw_in_flight = [],
      cw_job_to_contact = [], cw_tick = Idle, cw_listener = None, cw_dnc = dnc, cw_dialled = []\<rparr>"

section \<open>The calls that are out\<close>

text \<open>The calls a campaign has on the line: registered jobs and the one being placed.\<close>

definition entries :: "cworker \<Rightarrow> (string \<times> string \<times> int \<times> int) list" where
  "entries w =
     (case cw_tick w of AwaitOriginate cid k mx att \<Rightarrow> [(cid, k, mx, att)] | _ \<Rightarrow> []) @
     map snd (cw_job_to_contact w)"

definition calls_out :: "cworker \<Rightarrow> string \<Rightarrow> int" where
  "calls_out w cid = int (length (filter (\<lambda>e. fst e = cid) (entries w)))"

text \<open>Calls that are over but still counted, because their release is on its way.\<close>

definition owed :: "cworker \<Rightarrow> string \<Rightarrow> int" where
  "owed w cid = (if cw_tick w = AwaitRelease cid then 1 else 0) + (if cw_listener w = Some cid then 1 else 0)"

section \<open>The counter of calls\<close>

text \<open>The counter that the running tick has read and will write back incremented.\<close>

definition tick_read :: "cworker \<Rightarrow> (string \<times> int) option" where
  "tick_read w = (case cw_tick w of AwaitClaim cid n _ \<Rightarrow> Some (cid, n) | AwaitDnc cid n _ _ \<Rightarrow> Some (cid, n) | _ \<Rightarrow> None)"

definition counter_ok :: "(string \<Rightarrow> campaign) \<Rightarrow> cworker \<Rightarrow> bool" where
  "counter_ok cfg w \<longleftrightarrow>
     (\<forall>cid. calls_out w cid + owed w cid \<le> in_flight_of w cid \<and>
            in_flight_of w cid \<le> max 0 (cp_max_concurrent_calls (cfg cid))) \<and>
     (\<forall>cid n. tick_read w = Some (cid, n) \<longrightarrow> in_flight_of w cid \<le> n \<and> n < cp_max_concurrent_calls (cfg cid))"

lemmas cw_state_defs = calls_out_def owed_def entries_def in_flight_of_def tick_read_def

lemma filter_od_set_le:
  "length (filter (\<lambda>e. fst e = c) (map snd (od_set k v d))) \<le> (if fst v = c then 1 else 0) + length (filter (\<lambda>e. fst e = c) (map snd d))"
  by (induction k v d rule: od_set.induct) auto

lemma filter_od_del_le:
  fixes d :: "('k, 'v \<times> 'w) odict"
  assumes "od_get d k = Some v"
  shows "length (filter (\<lambda>e. fst e = c) (map snd (od_del k d))) + (if fst v = c then 1 else 0) \<le> length (filter (\<lambda>e. fst e = c) (map snd d))"
proof -
  have le: "length (filter (\<lambda>e. fst e = c) (map snd (od_del k d))) \<le> length (filter (\<lambda>e. fst e = c) (map snd d))" for d :: "('k, 'v \<times> 'w) odict"
    by (induction d) (auto simp: od_del_def)
  show ?thesis using assms
  proof (induction d)
    case (Cons p d)
    then show ?case using le [of d] by (cases p) (auto simp: od_get_def od_del_def split: if_splits)
  qed (simp add: od_get_def)
qed

lemma resolve_with_retry_eq:
  "resolve_with_retry k mx att st w =
     w\<lparr>cw_contacts := mark_contact_status k (if att < mx then Pending else st) None (cw_contacts w)\<rparr>"
  by (simp add: resolve_with_retry_def resolve_contact_def)

lemma on_job_complete_cases:
  obtains "on_job_complete uuid ok detail w = w"
  | cid k mx att st se where "cw_listener w = None" "od_get (cw_job_to_contact w) uuid = Some (cid, k, mx, att)"
      "st \<noteq> Calling" "st = Pending \<Longrightarrow> att < mx"
      "on_job_complete uuid ok detail w =
         w\<lparr>cw_contacts := mark_contact_status k st se (cw_contacts w),
           cw_job_to_contact := od_del uuid (cw_job_to_contact w), cw_listener := Some cid\<rparr>"
proof (cases "cw_listener w = None \<and> od_get (cw_job_to_contact w) uuid \<noteq> None")
  case False
  then have "on_job_complete uuid ok detail w = w" by (auto simp: on_job_complete_def split: option.split)
  then show thesis by (rule that(1))
next
  case True
  then obtain cid k mx att where e: "cw_listener w = None" "od_get (cw_job_to_contact w) uuid = Some (cid, k, mx, att)"
    by auto
  define st where "st = (if ok then Completed else if att < mx then Pending else job_status ok detail)"
  define se where "se = (if ok then job_session ok detail else None)"
  have "on_job_complete uuid ok detail w =
         w\<lparr>cw_contacts := mark_contact_status k st se (cw_contacts w),
           cw_job_to_contact := od_del uuid (cw_job_to_contact w), cw_listener := Some cid\<rparr>"
    using e by (simp add: on_job_complete_def job_status_def resolve_with_retry_eq resolve_contact_def st_def se_def)
  moreover have "st \<noteq> Calling" "st = Pending \<Longrightarrow> att < mx"
    by (auto simp: st_def job_status_def split: if_splits)
  ultimately show thesis using e that(2) by blast
qed

lemma in_flight_release:
  "in_flight_of (release cid w) c =
     (if c = cid then max 0 ((case od_get (cw_in_flight w) cid of Some n \<Rightarrow> n | None \<Rightarrow> 1) - 1) else in_flight_of w c)"
  by (simp add: release_def in_flight_of_def)

lemma calls_out_nonneg [simp]: "0 \<le> calls_out w cid"
  by (simp add: calls_out_def)

text \<open>Releasing a call that is still counted decrements the counter by exactly one.\<close>

lemma release_counter:
  assumes "1 \<le> in_flight_of w cid"
  shows "in_flight_of (release cid w) c = in_flight_of w c - (if c = cid then 1 else 0)"
proof -
  have "\<exists>n. od_get (cw_in_flight w) cid = Some n" using assms by (auto simp: in_flight_of_def split: option.splits)
  then show ?thesis using assms by (auto simp: in_flight_release in_flight_of_def [of w])
qed

lemma release_frame [simp]:
  "entries (release cid w) = entries w" "cw_tick (release cid w) = cw_tick w"
  "cw_listener (release cid w) = cw_listener w" "cw_contacts (release cid w) = cw_contacts w"
  "cw_job_to_contact (release cid w) = cw_job_to_contact w" "cw_dialled (release cid w) = cw_dialled w"
  "cw_dnc (release cid w) = cw_dnc w"
  by (simp_all add: release_def entries_def)

lemma tick_campaign_cases:
  obtains "tick_campaign cfg cid now day w = w"
  | "cw_tick w = Idle" "in_flight_of w cid < cp_max_concurrent_calls (cfg cid)"
    "tick_campaign cfg cid now day w = w\<lparr>cw_tick := AwaitClaim cid (in_flight_of w cid) now\<rparr>"
proof -
  have "tick_campaign cfg cid now day w = w \<or>
        cw_tick w = Idle \<and> in_flight_of w cid < cp_max_concurrent_calls (cfg cid) \<and>
        tick_campaign cfg cid now day w = w\<lparr>cw_tick := AwaitClaim cid (in_flight_of w cid) now\<rparr>"
    by (simp add: tick_campaign_def Let_def split: sum.split bool.split)
  then show thesis using that by blast
qed

lemma counter_ok_frame:
  assumes "counter_ok cfg w" and "entries v = entries w" and "owed v = owed w"
    and "cw_in_flight v = cw_in_flight w"
    and "\<And>cid n. tick_read v = Some (cid, n) \<Longrightarrow> in_flight_of w cid \<le> n \<and> n < cp_max_concurrent_calls (cfg cid)"
  shows "counter_ok cfg v"
proof -
  have "calls_out v c = calls_out w c" "in_flight_of v c = in_flight_of w c" for c
    using assms(2,4) by (simp_all add: calls_out_def in_flight_of_def)
  then show ?thesis using assms(1,3,5) by (simp add: counter_ok_def)
qed

lemma counter_ok_read:
  "counter_ok cfg w \<Longrightarrow> tick_read w = Some (cid, n) \<Longrightarrow> in_flight_of w cid \<le> n \<and> n < cp_max_concurrent_calls (cfg cid)"
  by (simp add: counter_ok_def)

lemma counter_ok_tick:
  assumes "counter_ok cfg w"
  shows "counter_ok cfg (tick_campaign cfg cid now day w)"
proof (rule tick_campaign_cases [of cfg cid now day w])
  assume "cw_tick w = Idle" "in_flight_of w cid < cp_max_concurrent_calls (cfg cid)"
    "tick_campaign cfg cid now day w = w\<lparr>cw_tick := AwaitClaim cid (in_flight_of w cid) now\<rparr>"
  then show ?thesis
    by (intro counter_ok_frame [OF assms]) (auto simp: entries_def owed_def fun_eq_iff tick_read_def)
qed (use assms in simp)

lemma claim_step_cases:
  obtains "claim_step w = w"
  | cid n now where "cw_tick w = AwaitClaim cid n now" "claim_step w = w\<lparr>cw_tick := AwaitProgress cid\<rparr>"
  | cid n now k ct where "cw_tick w = AwaitClaim cid n now" "next_pending (cw_contacts w) cid = Some k"
      "od_get (cw_contacts w) k = Some ct"
      "claim_step w =
         w\<lparr>cw_contacts := od_set k (ct\<lparr>ct_status := Calling, ct_attempts := ct_attempts ct + 1\<rparr>) (cw_contacts w),
           cw_tick := AwaitDnc cid n now k\<rparr>"
proof (cases "cw_tick w")
  case (AwaitClaim cid n now)
  show thesis
  proof (cases "next_pending (cw_contacts w) cid")
    case None
    then show thesis using that(2) [of cid n now] AwaitClaim by (simp add: claim_step_def)
  next
    case (Some k)
    then show thesis using that(1) that(3) [of cid n now k] AwaitClaim
      by (cases "od_get (cw_contacts w) k") (simp_all add: claim_step_def)
  qed
qed (use that(1) in \<open>simp_all add: claim_step_def\<close>)

lemma counter_ok_claim:
  assumes "counter_ok cfg w"
  shows "counter_ok cfg (claim_step w)"
proof (rule claim_step_cases [of w])
  fix cid n now
  assume "cw_tick w = AwaitClaim cid n now" "claim_step w = w\<lparr>cw_tick := AwaitProgress cid\<rparr>"
  then show ?thesis
    by (intro counter_ok_frame [OF assms]) (auto simp: entries_def owed_def fun_eq_iff tick_read_def)
next
  fix cid n now k ct
  assume w: "cw_tick w = AwaitClaim cid n now"
    "claim_step w =
       w\<lparr>cw_contacts := od_set k (ct\<lparr>ct_status := Calling, ct_attempts := ct_attempts ct + 1\<rparr>) (cw_contacts w),
         cw_tick := AwaitDnc cid n now k\<rparr>"
  then have "tick_read (claim_step w) = tick_read w" by (simp add: tick_read_def)
  then show ?thesis using w counter_ok_read [OF assms]
    by (intro counter_ok_frame [OF assms]) (auto simp: entries_def owed_def fun_eq_iff)
qed (use assms in simp)

lemma progress_step_cases:
  obtains "progress_step w = w"
  | cid fin where "cw_tick w = AwaitProgress cid" "progress_step w = w\<lparr>cw_completed := fin, cw_tick := Idle\<rparr>"
proof (cases "cw_tick w")
  case (AwaitProgress cid)
  have keep: "w\<lparr>cw_completed := cw_completed w, cw_tick := Idle\<rparr> = w\<lparr>cw_tick := Idle\<rparr>" by simp
  have "\<exists>fin. progress_step w = w\<lparr>cw_completed := fin, cw_tick := Idle\<rparr>"
  proof (cases "list_ex (\<lambda>(k, ct). ct_campaign ct = cid \<and> ct_status ct = Calling) (cw_contacts w)")
    case True
    then have "progress_step w = w\<lparr>cw_completed := cw_completed w, cw_tick := Idle\<rparr>"
      using AwaitProgress unfolding keep by (simp add: progress_step_def)
    then show ?thesis by blast
  next
    case False
    then have "progress_step w = w\<lparr>cw_completed := cw_completed w @ [cid], cw_tick := Idle\<rparr>"
      using AwaitProgress by (simp add: progress_step_def)
    then show ?thesis by blast
  qed
  then show thesis using that(2) [OF AwaitProgress] by blast
qed (use that(1) in \<open>simp_all add: progress_step_def\<close>)

lemma counter_ok_progress:
  assumes "counter_ok cfg w"
  shows "counter_ok cfg (progress_step w)"
proof (rule progress_step_cases [of w])
  fix cid fin
  assume "cw_tick w = AwaitProgress cid" "progress_step w = w\<lparr>cw_completed := fin, cw_tick := Idle\<rparr>"
  then show ?thesis
    by (intro counter_ok_frame [OF assms]) (auto simp: entries_def owed_def fun_eq_iff tick_read_def)
qed (use assms in simp)

lemma counter_ok_originate:
  assumes "counter_ok cfg w"
  shows "counter_ok cfg (originate_step job w)"
proof (cases "cw_tick w")
  case (AwaitOriginate cid k mx att)
  have inf: "in_flight_of (originate_step job w) c = in_flight_of w c" for c
    using AwaitOriginate by (simp add: originate_step_def in_flight_of_def resolve_with_retry_eq split: option.splits)
  have read: "tick_read (originate_step job w) = None"
    using AwaitOriginate by (simp add: originate_step_def tick_read_def resolve_with_retry_eq split: option.splits)
  have "calls_out (originate_step job w) c + owed (originate_step job w) c \<le> calls_out w c + owed w c" for c
    using AwaitOriginate filter_od_set_le [of c "the job" "(cid, k, mx, att)" "cw_job_to_contact w"]
    by (auto simp: originate_step_def calls_out_def owed_def entries_def resolve_with_retry_eq split: option.splits)
  then show ?thesis using assms inf read unfolding counter_ok_def by (smt (verit) option.distinct(1))
qed (use assms in \<open>simp_all add: originate_step_def\<close>)

lemma counter_ok_dnc:
  assumes "counter_ok cfg w"
  shows "counter_ok cfg (dnc_step cfg w)"
proof (cases "cw_tick w")
  case (AwaitDnc cid n now k)
  show ?thesis
  proof (cases "od_get (cw_contacts w) k")
    case (Some ct)
    show ?thesis
    proof (cases "is_blocked (cw_dnc w) (cp_tenant (cfg cid)) (ct_phone ct)")
      case True
      then show ?thesis using assms AwaitDnc Some by (auto simp: counter_ok_def dnc_step_def cw_state_defs)
    next
      case False
      have n: "in_flight_of w cid \<le> n" "n < cp_max_concurrent_calls (cfg cid)"
        using assms AwaitDnc by (auto simp: counter_ok_def tick_read_def)
      let ?w = "dnc_step cfg w"
      have "in_flight_of ?w c = (if c = cid then n + 1 else in_flight_of w c)" for c
        using AwaitDnc Some False by (simp add: dnc_step_def in_flight_of_def)
      moreover have "calls_out ?w c = calls_out w c + (if c = cid then 1 else 0)" "owed ?w c = owed w c" for c
        using AwaitDnc Some False by (auto simp: dnc_step_def calls_out_def owed_def entries_def)
      moreover have "tick_read ?w = None" using AwaitDnc Some False by (simp add: dnc_step_def tick_read_def)
      ultimately show ?thesis using assms n unfolding counter_ok_def by (smt (verit) option.distinct(1))
    qed
  qed (use assms AwaitDnc in \<open>simp add: dnc_step_def\<close>)
qed (use assms in \<open>simp_all add: dnc_step_def\<close>)

lemma counter_ok_job:
  assumes "counter_ok cfg w"
  shows "counter_ok cfg (on_job_complete uuid ok detail w)"
proof (rule on_job_complete_cases [of uuid ok detail w])
  fix cid k mx att st se
  assume e: "cw_listener w = None" "od_get (cw_job_to_contact w) uuid = Some (cid, k, mx, att)"
    and w': "on_job_complete uuid ok detail w =
         w\<lparr>cw_contacts := mark_contact_status k st se (cw_contacts w),
           cw_job_to_contact := od_del uuid (cw_job_to_contact w), cw_listener := Some cid\<rparr>"
  let ?w = "on_job_complete uuid ok detail w"
  have "calls_out ?w c + owed ?w c \<le> calls_out w c + owed w c" for c
    using filter_od_del_le [OF e(2), of c] e(1)
    by (auto simp: w' calls_out_def owed_def entries_def split: tick_state.splits if_splits)
  moreover have "in_flight_of ?w c = in_flight_of w c" "tick_read ?w = tick_read w" for c
    by (simp_all add: w' in_flight_of_def tick_read_def)
  ultimately show ?thesis using assms unfolding counter_ok_def by (smt (verit))
qed (use assms in simp)

lemma counter_ok_release:
  assumes "counter_ok cfg w" and "\<And>c. owed v c + (if c = cid then 1 else 0) \<le> owed w c"
    and "entries v = entries w" and "cw_in_flight v = cw_in_flight w" and "tick_read v = tick_read w"
  shows "counter_ok cfg (release cid v)"
proof -
  have calls: "calls_out (release cid v) c = calls_out w c" "owed (release cid v) c = owed v c"
    "tick_read (release cid v) = tick_read w" for c
    using assms(3,5) by (simp_all add: calls_out_def owed_def tick_read_def)
  have inf: "in_flight_of v c = in_flight_of w c" for c using assms(4) by (simp add: in_flight_of_def)
  have "0 \<le> owed v cid" by (simp add: owed_def)
  then have "1 \<le> in_flight_of v cid"
    using assms(1) assms(2) [of cid] calls_out_nonneg [of w cid] unfolding counter_ok_def inf by (smt (verit))
  then have dec: "in_flight_of (release cid v) c = in_flight_of w c - (if c = cid then 1 else 0)" for c
    by (simp add: release_counter inf)
  show ?thesis unfolding counter_ok_def calls dec
  proof (intro conjI allI impI)
    fix c
    show "calls_out w c + owed v c \<le> in_flight_of w c - (if c = cid then 1 else 0)"
      using assms(1) assms(2) [of c] unfolding counter_ok_def by (smt (verit))
    show "in_flight_of w c - (if c = cid then 1 else 0) \<le> max 0 (cp_max_concurrent_calls (cfg c))"
      using assms(1) unfolding counter_ok_def by (smt (verit))
  qed (use assms(1) in \<open>auto simp: counter_ok_def\<close>)
qed

lemma counter_ok_step:
  assumes "counter_ok cfg w"
  shows "counter_ok cfg (cw_step cfg e w)"
proof (cases e)
  case TickReleaseDone
  then show ?thesis
  proof (cases "cw_tick w")
    case (AwaitRelease cid)
    then have "counter_ok cfg (release cid (w\<lparr>cw_tick := Idle\<rparr>))"
      by (intro counter_ok_release [OF assms]) (simp_all add: cw_state_defs)
    then show ?thesis using TickReleaseDone AwaitRelease by (simp add: tick_release_step_def)
  qed (use assms in \<open>simp_all add: tick_release_step_def\<close>)
next
  case ListenerReleaseDone
  then show ?thesis
  proof (cases "cw_listener w")
    case (Some cid)
    then have "counter_ok cfg (release cid (w\<lparr>cw_listener := None\<rparr>))"
      by (intro counter_ok_release [OF assms]) (simp_all add: cw_state_defs)
    then show ?thesis using ListenerReleaseDone Some by (simp add: listener_release_step_def)
  qed (use assms in \<open>simp_all add: listener_release_step_def\<close>)
qed (use assms in \<open>simp_all add: counter_ok_tick counter_ok_claim counter_ok_progress counter_ok_dnc
       counter_ok_originate counter_ok_job\<close>, simp_all add: counter_ok_def cw_state_defs)

section \<open>The contacts on the line\<close>

text \<open>The contact that waits for its do-not-call check, and all contacts that the worker holds.\<close>

definition under_check :: "cworker \<Rightarrow> (string \<times> string) option" where
  "under_check w = (case cw_tick w of AwaitDnc cid _ _ k \<Rightarrow> Some (cid, k) | _ \<Rightarrow> None)"

definition busy :: "cworker \<Rightarrow> string list" where
  "busy w = (case under_check w of Some (_, k) \<Rightarrow> [k] | None \<Rightarrow> []) @ map (\<lambda>e. fst (snd e)) (entries w)"

definition dials :: "cworker \<Rightarrow> string \<Rightarrow> int" where
  "dials w k = int (length (filter (\<lambda>d. fst d = k) (cw_dialled w)))"

definition held :: "(string \<Rightarrow> campaign) \<Rightarrow> cworker \<Rightarrow> bool" where
  "held cfg w \<longleftrightarrow>
     (\<forall>cid k mx att. (cid, k, mx, att) \<in> set (entries w) \<longrightarrow>
        mx = cp_max_attempts (cfg cid) \<and>
        (\<exists>ct. od_get (cw_contacts w) k = Some ct \<and> ct_campaign ct = cid \<and> ct_status ct = Calling \<and> ct_attempts ct = att)) \<and>
     (\<forall>cid k. under_check w = Some (cid, k) \<longrightarrow>
        (\<exists>ct. od_get (cw_contacts w) k = Some ct \<and> ct_campaign ct = cid \<and> ct_status ct = Calling \<and> dials w k < ct_attempts ct))"

definition attempts_ok :: "(string \<Rightarrow> campaign) \<Rightarrow> cworker \<Rightarrow> bool" where
  "attempts_ok cfg w \<longleftrightarrow>
     (\<forall>k ct. od_get (cw_contacts w) k = Some ct \<longrightarrow>
        ct_attempts ct \<le> cp_max_attempts (cfg (ct_campaign ct)) \<and>
        (ct_status ct = Pending \<longrightarrow> ct_attempts ct < cp_max_attempts (cfg (ct_campaign ct))) \<and>
        dials w k \<le> ct_attempts ct)"

definition contacts_ok :: "(string \<Rightarrow> campaign) \<Rightarrow> cworker \<Rightarrow> bool" where
  "contacts_ok cfg w \<longleftrightarrow> od_ok (cw_contacts w) \<and> distinct (busy w) \<and> held cfg w \<and> attempts_ok cfg w"

lemma next_pending_spec:
  assumes "next_pending d cid = Some k" and "od_ok d"
  obtains ct where "od_get d k = Some ct" "ct_campaign ct = cid" "ct_status ct = Pending"
proof -
  have "\<exists>ct. (k, ct) \<in> set d \<and> ct_campaign ct = cid \<and> ct_status ct = Pending"
    using assms(1) by (induction d cid rule: next_pending.induct) (auto split: if_splits)
  then show thesis using that od_get_in_set [OF assms(2)] by blast
qed

lemma od_get_mark:
  "od_get (mark_contact_status k st se d) j =
     (if j = k then map_option (\<lambda>ct. ct\<lparr>ct_status := st, ct_session := (case se of Some s \<Rightarrow> Some s | None \<Rightarrow> ct_session ct)\<rparr>) (od_get d k)
      else od_get d j)"
  by (simp add: mark_contact_status_def split: option.split)

lemma od_ok_mark: "od_ok d \<Longrightarrow> od_ok (mark_contact_status k st se d)"
  by (simp add: mark_contact_status_def split: option.split)

lemma busy_entries: "(cid, k, mx, att) \<in> set (entries w) \<Longrightarrow> k \<in> set (busy w)"
  unfolding busy_def by force

lemma busy_under_check: "under_check w = Some (cid, k) \<Longrightarrow> k \<in> set (busy w)"
  by (simp add: busy_def)

lemma busy_calling:
  assumes "contacts_ok cfg w" and "k \<in> set (busy w)"
  shows "\<exists>ct. od_get (cw_contacts w) k = Some ct \<and> ct_status ct = Calling"
  using assms unfolding contacts_ok_def held_def busy_def
  by (auto split: option.splits) (metis)+

text \<open>Marking a contact that the worker no longer holds keeps the invariant.\<close>

lemma contacts_ok_mark:
  assumes ok: "contacts_ok cfg w"
    and v: "cw_contacts v = mark_contact_status k st se (cw_contacts w)" "cw_dialled v = cw_dialled w"
    and busy: "distinct (busy v)" "k \<notin> set (busy v)" "set (entries v) \<subseteq> set (entries w)"
      "under_check v = under_check w \<or> under_check v = None"
    and st: "\<And>ct. st = Pending \<Longrightarrow> od_get (cw_contacts w) k = Some ct \<Longrightarrow> ct_attempts ct < cp_max_attempts (cfg (ct_campaign ct))"
  shows "contacts_ok cfg v"
proof -
  have dials: "dials v = dials w" using v(2) by (simp add: dials_def fun_eq_iff)
  have other: "od_get (cw_contacts v) j = od_get (cw_contacts w) j" if "j \<in> set (busy v)" for j
    using busy(2) that unfolding v(1) od_get_mark by auto
  have "held cfg v" unfolding held_def
  proof (intro conjI allI impI)
    fix cid j mx att assume e: "(cid, j, mx, att) \<in> set (entries v)"
    then have "(cid, j, mx, att) \<in> set (entries w)" using busy(3) by blast
    then show "mx = cp_max_attempts (cfg cid)"
      "\<exists>ct. od_get (cw_contacts v) j = Some ct \<and> ct_campaign ct = cid \<and> ct_status ct = Calling \<and> ct_attempts ct = att"
      using ok other [OF busy_entries [OF e]] unfolding contacts_ok_def held_def by auto
  next
    fix cid j assume c: "under_check v = Some (cid, j)"
    then have "under_check w = Some (cid, j)" using busy(4) by auto
    then show "\<exists>ct. od_get (cw_contacts v) j = Some ct \<and> ct_campaign ct = cid \<and> ct_status ct = Calling \<and> dials v j < ct_attempts ct"
      using ok other [OF busy_under_check [OF c]] unfolding contacts_ok_def held_def dials by auto
  qed
  moreover have "attempts_ok cfg v"
    using ok st unfolding contacts_ok_def attempts_ok_def v(1) dials od_get_mark by (auto split: if_splits)
  ultimately show ?thesis using ok busy(1) od_ok_mark by (simp add: contacts_ok_def v(1))
qed

lemma contacts_ok_frame:
  assumes "contacts_ok cfg w" and "cw_contacts v = cw_contacts w" and "cw_dialled v = cw_dialled w"
    and "distinct (busy v)" and "set (entries v) \<subseteq> set (entries w)" and "under_check v = under_check w \<or> under_check v = None"
  shows "contacts_ok cfg v"
proof -
  have "dials v = dials w" using assms(3) by (simp add: dials_def fun_eq_iff)
  moreover have "e \<in> set (entries v) \<Longrightarrow> e \<in> set (entries w)" for e using assms(5) by blast
  moreover have "under_check v = Some p \<Longrightarrow> under_check w = Some p" for p using assms(6) by auto
  ultimately have "held cfg v" "attempts_ok cfg v"
    using assms(1,2) by (simp_all add: contacts_ok_def held_def attempts_ok_def) blast
  then show ?thesis using assms by (simp add: contacts_ok_def)
qed

lemma busy_distinct: "contacts_ok cfg w \<Longrightarrow> distinct (busy w)"
  by (simp add: contacts_ok_def)

lemma contacts_ok_claim:
  assumes ok: "contacts_ok cfg w"
  shows "contacts_ok cfg (claim_step w)"
proof (rule claim_step_cases [of w])
  fix cid n now
  assume "cw_tick w = AwaitClaim cid n now" "claim_step w = w\<lparr>cw_tick := AwaitProgress cid\<rparr>"
  then show ?thesis using busy_distinct [OF ok]
    by (intro contacts_ok_frame [OF ok]) (simp_all add: entries_def under_check_def busy_def)
next
  fix cid n now k ct
  assume w: "cw_tick w = AwaitClaim cid n now" "next_pending (cw_contacts w) cid = Some k"
      "od_get (cw_contacts w) k = Some ct"
    and v: "claim_step w =
         w\<lparr>cw_contacts := od_set k (ct\<lparr>ct_status := Calling, ct_attempts := ct_attempts ct + 1\<rparr>) (cw_contacts w),
           cw_tick := AwaitDnc cid n now k\<rparr>"
  have ok': "od_ok (cw_contacts w)" using ok by (simp add: contacts_ok_def)
  obtain ct' where "od_get (cw_contacts w) k = Some ct'" "ct_campaign ct' = cid" "ct_status ct' = Pending"
    using next_pending_spec [OF w(2) ok'] .
  then have p: "ct_campaign ct = cid" "ct_status ct = Pending" using w(3) by auto
  then have notbusy: "k \<notin> set (busy w)" using busy_calling [OF ok, of k] w(3) by auto
  let ?v = "claim_step w"
  have ent: "entries ?v = entries w" "under_check ?v = Some (cid, k)" "busy ?v = k # busy w" "dials ?v = dials w"
    using w(1) by (simp_all add: v entries_def under_check_def busy_def dials_def fun_eq_iff)
  have att: "ct_attempts ct < cp_max_attempts (cfg cid)" "dials w k \<le> ct_attempts ct"
    using ok w(3) p unfolding contacts_ok_def attempts_ok_def by auto
  have "held cfg ?v" using ok notbusy busy_entries [of _ k _ _ w] p att
    unfolding contacts_ok_def held_def ent by (auto simp: v)
  moreover have "attempts_ok cfg ?v" using ok att p unfolding contacts_ok_def attempts_ok_def ent by (auto simp: v)
  ultimately show ?thesis using ok notbusy by (simp add: contacts_ok_def ent, simp add: v)
qed (use ok in simp)

lemma contacts_ok_dnc:
  assumes ok: "contacts_ok cfg w"
  shows "contacts_ok cfg (dnc_step cfg w)"
proof (cases "cw_tick w")
  case (AwaitDnc cid n now k)
  then have chk: "under_check w = Some (cid, k)" by (simp add: under_check_def)
  then obtain ct where ct: "od_get (cw_contacts w) k = Some ct" "ct_campaign ct = cid" "ct_status ct = Calling" "dials w k < ct_attempts ct"
    using ok unfolding contacts_ok_def held_def by auto
  have b: "busy w = k # map (\<lambda>e. fst (snd e)) (entries w)" using chk by (simp add: busy_def)
  let ?v = "dnc_step cfg w"
  show ?thesis
  proof (cases "is_blocked (cw_dnc w) (cp_tenant (cfg cid)) (ct_phone ct)")
    case True
    then have v: "?v = w\<lparr>cw_contacts := mark_contact_status k Blocked None (cw_contacts w), cw_tick := Idle\<rparr>"
      using AwaitDnc ct by (simp add: dnc_step_def)
    have "entries ?v = entries w" "under_check ?v = None" using AwaitDnc by (simp_all add: v entries_def under_check_def)
    then have "busy ?v = map (\<lambda>e. fst (snd e)) (entries w)" "set (entries ?v) \<subseteq> set (entries w)" "under_check ?v = None"
      by (simp_all add: busy_def)
    then show ?thesis using busy_distinct [OF ok] unfolding b
      by (intro contacts_ok_mark [OF ok, of _ k Blocked None]) (simp_all, simp_all add: v)
  next
    case False
    define e where "e = (cid, k, cp_max_attempts (cfg cid), ct_attempts ct)"
    have v: "?v = w\<lparr>cw_last_attempt_at := od_set cid now (cw_last_attempt_at w), cw_in_flight := od_set cid (n + 1) (cw_in_flight w),
        cw_dialled := cw_dialled w @ [(k, ct_phone ct)], cw_tick := AwaitOriginate cid k (cp_max_attempts (cfg cid)) (ct_attempts ct)\<rparr>"
      using AwaitDnc ct False by (simp add: dnc_step_def)
    have ent: "entries ?v = e # entries w" "under_check ?v = None" "busy ?v = busy w" "cw_contacts ?v = cw_contacts w"
      "dials ?v j = dials w j + (if j = k then 1 else 0)" for j
      using AwaitDnc b by (simp_all add: v entries_def under_check_def busy_def dials_def e_def)
    have "held cfg ?v" using ok ct unfolding contacts_ok_def held_def ent by (auto simp: e_def)
    moreover have "attempts_ok cfg ?v" using ok ct unfolding contacts_ok_def attempts_ok_def ent by auto
    ultimately show ?thesis using ok by (simp add: contacts_ok_def ent)
  qed
qed (use ok in \<open>simp_all add: dnc_step_def\<close>)

lemma distinct_map_od_set:
  "distinct (f v # map f (map snd d)) \<Longrightarrow> distinct (map f (map snd (od_set u v d)))"
proof (induction u v d rule: od_set.induct)
  case (2 u v a b d)
  have "set (map f (map snd (od_set u v d))) \<subseteq> insert (f v) (set (map f (map snd d)))"
    using set_od_set_subset [of u v d] by force
  then show ?case using 2 by auto
qed simp

lemma contacts_ok_originate:
  assumes ok: "contacts_ok cfg w"
  shows "contacts_ok cfg (originate_step job w)"
proof (cases "cw_tick w")
  case (AwaitOriginate cid k mx att)
  define e where "e = (cid, k, mx, att)"
  have ent: "entries w = e # map snd (cw_job_to_contact w)" "under_check w = None"
    using AwaitOriginate by (simp_all add: entries_def under_check_def e_def)
  have d: "distinct (k # map (\<lambda>e. fst (snd e)) (map snd (cw_job_to_contact w)))"
    using busy_distinct [OF ok] ent by (simp add: busy_def e_def)
  show ?thesis
  proof (cases "job = None \<or> job = Some []")
    case True
    then have v: "originate_step job w = w\<lparr>cw_contacts := mark_contact_status k (if att < mx then Pending else FailedCall) None (cw_contacts w),
        cw_tick := AwaitRelease cid\<rparr>"
      using AwaitOriginate by (auto simp: originate_step_def resolve_with_retry_eq)
    have "mx = cp_max_attempts (cfg cid) \<and> (\<exists>ct. od_get (cw_contacts w) k = Some ct \<and> ct_campaign ct = cid \<and> ct_attempts ct = att)"
      using ok ent(1) unfolding contacts_ok_def held_def e_def by (metis list.set_intros(1))
    then show ?thesis using d ent
      by (intro contacts_ok_mark [OF ok, of _ k "if att < mx then Pending else FailedCall" None])
        (auto simp: v entries_def under_check_def busy_def split: if_splits)
  next
    case False
    then obtain u where v: "originate_step job w = w\<lparr>cw_job_to_contact := od_set u e (cw_job_to_contact w), cw_tick := Idle\<rparr>"
      using AwaitOriginate by (cases job) (auto simp: originate_step_def e_def)
    have sub: "set (map snd (od_set u e (cw_job_to_contact w))) \<subseteq> set (entries w)"
      using set_od_set_subset [of u e "cw_job_to_contact w"] unfolding ent by force
    have "distinct (map (\<lambda>e. fst (snd e)) (map snd (od_set u e (cw_job_to_contact w))))"
      by (rule distinct_map_od_set) (use d in \<open>simp add: e_def\<close>)
    then show ?thesis using sub
      by (intro contacts_ok_frame [OF ok]) (simp_all add: v entries_def under_check_def busy_def)
  qed
qed (use ok in \<open>simp_all add: originate_step_def\<close>)

lemma distinct_map_od_del:
  assumes "distinct (xs @ map f (map snd d))" and "od_get d u = Some v"
  shows "distinct (xs @ map f (map snd (od_del u d)))" and "f v \<notin> set (xs @ map f (map snd (od_del u d)))"
proof -
  have "(u, v) \<in> set d" using assms(2) by (rule od_get_SomeD)
  moreover have inj: "inj_on (f \<circ> snd) (set d)" "distinct d" using assms(1) by (simp_all add: distinct_map)
  ultimately have "p = (u, v)" if "p \<in> set d" "f (snd p) = f v" for p
    using that by (metis comp_apply inj_onD snd_conv)
  then have "f v \<notin> set (map f (map snd (od_del u d)))" by (fastforce simp: od_del_def)
  moreover have "f v \<in> set (map f (map snd d))" using \<open>(u, v) \<in> set d\<close> by force
  moreover have "set (map f (map snd (od_del u d))) \<subseteq> set (map f (map snd d))" using set_od_del [of u d] by force
  moreover have "distinct (map f (map snd (od_del u d)))"
    using inj by (simp add: od_del_def distinct_map inj_on_def)
  ultimately show "distinct (xs @ map f (map snd (od_del u d)))" and "f v \<notin> set (xs @ map f (map snd (od_del u d)))"
    using assms(1) by auto
qed

lemma contacts_ok_job:
  assumes ok: "contacts_ok cfg w"
  shows "contacts_ok cfg (on_job_complete uuid succeeded detail w)"
proof (rule on_job_complete_cases [of uuid succeeded detail w])
  fix cid k mx att st se
  assume e: "od_get (cw_job_to_contact w) uuid = Some (cid, k, mx, att)" "st = Pending \<Longrightarrow> att < mx"
    and v: "on_job_complete uuid succeeded detail w =
         w\<lparr>cw_contacts := mark_contact_status k st se (cw_contacts w),
           cw_job_to_contact := od_del uuid (cw_job_to_contact w), cw_listener := Some cid\<rparr>"
  let ?v = "on_job_complete uuid succeeded detail w"
  have "(cid, k, mx, att) \<in> set (entries w)" using od_get_SomeD [OF e(1)] by (force simp: entries_def)
  then have ct: "mx = cp_max_attempts (cfg cid) \<and> (\<exists>ct. od_get (cw_contacts w) k = Some ct \<and> ct_campaign ct = cid \<and> ct_attempts ct = att)"
    using ok unfolding contacts_ok_def held_def by blast
  define xs where "xs = (case under_check w of Some (_, k) \<Rightarrow> [k] | None \<Rightarrow> []) @
     map (\<lambda>e. fst (snd e)) (case cw_tick w of AwaitOriginate cid k mx att \<Rightarrow> [(cid, k, mx, att)] | _ \<Rightarrow> [])"
  have b: "busy w = xs @ map (\<lambda>e. fst (snd e)) (map snd (cw_job_to_contact w))"
    by (simp add: busy_def entries_def xs_def)
  have bv: "busy ?v = xs @ map (\<lambda>e. fst (snd e)) (map snd (od_del uuid (cw_job_to_contact w)))" "under_check ?v = under_check w"
    by (simp_all add: v busy_def entries_def xs_def under_check_def)
  have "set (entries ?v) \<subseteq> set (entries w)" using set_od_del [of uuid "cw_job_to_contact w"] by (auto simp: v entries_def)
  then show ?thesis using ct e(2) bv(2) distinct_map_od_del [OF busy_distinct [OF ok, unfolded b] e(1)]
    by (intro contacts_ok_mark [OF ok, of _ k st se]) (auto simp: v bv(1) [unfolded v])
qed (use ok in simp)

lemma contacts_ok_step:
  assumes ok: "contacts_ok cfg w"
  shows "contacts_ok cfg (cw_step cfg e w)"
proof (cases e)
  case (TickCampaign cid now day)
  show ?thesis
  proof (rule tick_campaign_cases [of cfg cid now day w])
    assume "cw_tick w = Idle" "tick_campaign cfg cid now day w = w\<lparr>cw_tick := AwaitClaim cid (in_flight_of w cid) now\<rparr>"
    then show ?thesis using TickCampaign busy_distinct [OF ok]
      by (intro contacts_ok_frame [OF ok]) (simp_all add: entries_def under_check_def busy_def)
  qed (use TickCampaign ok in simp)
next
  case ProgressDone
  show ?thesis
  proof (rule progress_step_cases [of w])
    fix cid fin
    assume "cw_tick w = AwaitProgress cid" "progress_step w = w\<lparr>cw_completed := fin, cw_tick := Idle\<rparr>"
    then show ?thesis using ProgressDone busy_distinct [OF ok]
      by (intro contacts_ok_frame [OF ok]) (simp_all add: entries_def under_check_def busy_def)
  qed (use ProgressDone ok in simp)
next
  case TickReleaseDone
  show ?thesis
  proof (cases "cw_tick w")
    case (AwaitRelease cid)
    then show ?thesis using TickReleaseDone busy_distinct [OF ok]
      by (intro contacts_ok_frame [OF ok]) (simp_all add: tick_release_step_def entries_def under_check_def busy_def)
  qed (use TickReleaseDone ok in \<open>simp_all add: tick_release_step_def\<close>)
next
  case ListenerReleaseDone
  have "entries (listener_release_step w) = entries w" "cw_tick (listener_release_step w) = cw_tick w"
    "cw_contacts (listener_release_step w) = cw_contacts w" "cw_dialled (listener_release_step w) = cw_dialled w"
    by (simp_all add: listener_release_step_def entries_def split: option.split)
  then show ?thesis using ListenerReleaseDone busy_distinct [OF ok]
    by (intro contacts_ok_frame [OF ok]) (simp_all add: under_check_def busy_def)
qed (use ok busy_distinct [OF ok] in \<open>simp_all add: contacts_ok_claim contacts_ok_dnc contacts_ok_originate contacts_ok_job\<close>,
     (rule contacts_ok_frame [OF ok], simp_all add: entries_def under_check_def busy_def)+)

section \<open>Properties\<close>

text \<open>A table of contacts as the upload leaves it: distinct ids, nothing attempted yet.\<close>

definition fresh_contacts :: "(string \<Rightarrow> campaign) \<Rightarrow> (string, contact) odict \<Rightarrow> bool" where
  "fresh_contacts cfg contacts \<longleftrightarrow>
     od_ok contacts \<and>
     list_all (\<lambda>(k, ct). ct_status ct = Pending \<and> ct_attempts ct = 0 \<and> 1 \<le> cp_max_attempts (cfg (ct_campaign ct))) contacts"

definition cw_inv :: "(string \<Rightarrow> campaign) \<Rightarrow> cworker \<Rightarrow> bool" where
  "cw_inv cfg w \<longleftrightarrow> counter_ok cfg w \<and> contacts_ok cfg w"

lemma cw_inv_init:
  assumes "fresh_contacts cfg contacts"
  shows "cw_inv cfg (worker_init contacts dnc)"
proof -
  have "ct_status ct = Pending \<and> ct_attempts ct = 0 \<and> 1 \<le> cp_max_attempts (cfg (ct_campaign ct))"
    if "od_get contacts k = Some ct" for k ct
    using assms od_get_SomeD [OF that] unfolding fresh_contacts_def list_all_iff by auto
  then have "attempts_ok cfg (worker_init contacts dnc)"
    by (fastforce simp: attempts_ok_def worker_init_def dials_def)
  moreover have "counter_ok cfg (worker_init contacts dnc)"
    by (simp add: counter_ok_def worker_init_def cw_state_defs od_get_def)
  ultimately show ?thesis using assms
    by (simp add: cw_inv_def contacts_ok_def held_def worker_init_def busy_def under_check_def entries_def fresh_contacts_def)
qed

interpretation campaign_machine: event_machine "worker_init contacts dnc" "cw_step cfg"
    "\<lambda>w. fresh_contacts cfg contacts \<longrightarrow> cw_inv cfg w"
  for cfg contacts dnc
  by unfold_locales (auto simp: cw_inv_init, auto simp: cw_inv_def counter_ok_step contacts_ok_step)

lemmas campaign_run_inv = campaign_machine.inv_run [rule_format]

lemma dnc_step_dials:
  assumes "cw_dialled (cw_step cfg e w) \<noteq> cw_dialled w"
  obtains cid n now k ct where "cw_tick w = AwaitDnc cid n now k" "od_get (cw_contacts w) k = Some ct"
    "\<not> is_blocked (cw_dnc w) (cp_tenant (cfg cid)) (ct_phone ct)"
    "cw_dialled (cw_step cfg e w) = cw_dialled w @ [(k, ct_phone ct)]"
proof (cases e)
  case DncDone
  then show thesis using assms that
    by (auto simp: dnc_step_def split: tick_state.splits option.splits if_splits)
next
  case (JobComplete uuid succeeded detail)
  then show thesis using assms
    by (cases rule: on_job_complete_cases [of uuid succeeded detail w]) simp_all
next
  case (OriginateDone job)
  then show thesis using assms
    by (auto simp: originate_step_def resolve_with_retry_eq split: tick_state.splits option.splits if_splits)
next
  case (TickCampaign cid now day)
  then show thesis using assms by (cases rule: tick_campaign_cases [of cfg cid now day w]) simp_all
next
  case ClaimDone
  then show thesis using assms by (cases rule: claim_step_cases [of w]) simp_all
next
  case ProgressDone
  then show thesis using assms by (cases rule: progress_step_cases [of w]) simp_all
next
  case TickReleaseDone
  then show thesis using assms by (simp add: tick_release_step_def split: tick_state.splits)
next
  case ListenerReleaseDone
  then show thesis using assms by (simp add: listener_release_step_def split: option.splits)
qed (use assms in simp_all)

text \<open>
  C11. The caps of a campaign hold under every interleaving of ticks, database answers, answers of the
  switch and completion events: the calls on the line and those whose release is still pending never
  exceed the counter, the counter never exceeds the campaign's limit, no contact is held twice, and no
  contact is dialled more often than it was attempted, nor attempted more often than the campaign allows.
\<close>

theorem campaign_caps_hold:
  fixes es :: "cw_event list" and dnc :: dnc_table
  assumes "fresh_contacts cfg contacts"
  defines "w \<equiv> fold (cw_step cfg) es (worker_init contacts dnc)"
  shows "(\<forall>cid. calls_out w cid + owed w cid \<le> in_flight_of w cid \<and>
                in_flight_of w cid \<le> max 0 (cp_max_concurrent_calls (cfg cid))) \<and>
         distinct (busy w) \<and>
         (\<forall>k ct. od_get (cw_contacts w) k = Some ct \<longrightarrow>
                dials w k \<le> ct_attempts ct \<and> ct_attempts ct \<le> cp_max_attempts (cfg (ct_campaign ct)))"
proof -
  have "cw_inv cfg w" unfolding w_def by (rule campaign_run_inv) (rule assms(1))
  then show ?thesis by (simp add: cw_inv_def counter_ok_def contacts_ok_def attempts_ok_def)
qed

text \<open>
  Every call that is placed is allowed: whatever happened before, the step that dials a number dials
  that of a contact which it holds in state calling, whose number is not on the tenant's do-not-call
  list at that moment, and whose campaign has fewer calls out than its limit.
\<close>

theorem dialled_numbers_allowed:
  fixes es :: "cw_event list" and dnc :: dnc_table
  assumes "fresh_contacts cfg contacts"
  defines "w \<equiv> fold (cw_step cfg) es (worker_init contacts dnc)"
  assumes "cw_dialled (cw_step cfg e w) \<noteq> cw_dialled w"
  shows "\<exists>k ct. cw_dialled (cw_step cfg e w) = cw_dialled w @ [(k, ct_phone ct)] \<and>
           od_get (cw_contacts w) k = Some ct \<and> ct_status ct = Calling \<and>
           \<not> is_blocked (cw_dnc w) (cp_tenant (cfg (ct_campaign ct))) (ct_phone ct) \<and>
           calls_out w (ct_campaign ct) < cp_max_concurrent_calls (cfg (ct_campaign ct))"
proof -
  have inv: "counter_ok cfg w" "contacts_ok cfg w"
    using campaign_run_inv [OF assms(1), of es dnc] by (simp_all add: cw_inv_def w_def)
  obtain cid n now k ct where d: "cw_tick w = AwaitDnc cid n now k" "od_get (cw_contacts w) k = Some ct"
    "\<not> is_blocked (cw_dnc w) (cp_tenant (cfg cid)) (ct_phone ct)"
    "cw_dialled (cw_step cfg e w) = cw_dialled w @ [(k, ct_phone ct)]"
    using dnc_step_dials [OF assms(3)] by metis
  then have "ct_campaign ct = cid" "ct_status ct = Calling"
    using inv(2) unfolding contacts_ok_def held_def by (auto simp: under_check_def)
  moreover have "calls_out w cid < cp_max_concurrent_calls (cfg cid)"
  proof -
    have "calls_out w cid + owed w cid \<le> in_flight_of w cid" "0 \<le> owed w cid"
      using inv(1) by (simp_all add: counter_ok_def owed_def)
    then show ?thesis using counter_ok_read [OF inv(1), of cid n] d(1) by (simp add: tick_read_def)
  qed
  ultimately show ?thesis using d by blast
qed

section \<open>A concrete campaign\<close>

definition demo_campaign :: "string \<Rightarrow> campaign" where
  "demo_campaign cid =
     \<lparr>cp_tenant = ''t'', cp_pacing_seconds = 0, cp_max_concurrent_calls = 2, cp_caller_id = ''100'',
      cp_hours_start = Some ''22:00'', cp_hours_end = Some ''06:00'', cp_max_attempts = 2\<rparr>"

definition demo_contact :: "string \<Rightarrow> contact" where
  "demo_contact phone =
     \<lparr>ct_campaign = ''c'', ct_phone = phone, ct_status = Pending, ct_attempts = 0, ct_session = None\<rparr>"

definition demo_contacts :: "(string, contact) odict" where
  "demo_contacts = [(''a'', demo_contact ''+1 415-555-0100''), (''b'', demo_contact ''4155550101'')]"

definition demo_dnc :: dnc_table where
  "demo_dnc = [(''t'', ''(415) 555-0199'')]"

definition demo_dial :: "string \<Rightarrow> cw_event list" where
  "demo_dial job = [TickCampaign ''c'' 10 (23 * 60), ClaimDone, DncDone, OriginateDone (Some job)]"

lemmas demo_defs = demo_campaign_def demo_contact_def demo_contacts_def demo_dnc_def demo_dial_def

theorem campaign_caps_hold_witness:
  "let w = fold (cw_step demo_campaign) (demo_dial ''j1'' @ demo_dial ''j2'') (worker_init demo_contacts demo_dnc) in
     calls_out w ''c'' = 2 \<and> in_flight_of w ''c'' = 2 \<and> distinct (busy w)"
proof -
  have "fresh_contacts demo_campaign demo_contacts" by code_simp
  note inv = campaign_caps_hold [OF this, of "demo_dial ''j1'' @ demo_dial ''j2''" demo_dnc]
  have "calls_out (fold (cw_step demo_campaign) (demo_dial ''j1'' @ demo_dial ''j2'') (worker_init demo_contacts demo_dnc)) ''c'' = 2 \<and>
    in_flight_of (fold (cw_step demo_campaign) (demo_dial ''j1'' @ demo_dial ''j2'') (worker_init demo_contacts demo_dnc)) ''c'' = 2"
    by code_simp
  then show ?thesis using inv unfolding Let_def by blast
qed

theorem dialled_numbers_allowed_witness:
  "let w = fold (cw_step demo_campaign) [TickCampaign ''c'' 10 (23 * 60), ClaimDone] (worker_init demo_contacts demo_dnc) in
     \<exists>k ct. cw_dialled (cw_step demo_campaign DncDone w) = cw_dialled w @ [(k, ct_phone ct)] \<and>
       od_get (cw_contacts w) k = Some ct \<and> ct_status ct = Calling"
proof -
  have fresh: "fresh_contacts demo_campaign demo_contacts" by code_simp
  have "cw_dialled (cw_step demo_campaign DncDone (fold (cw_step demo_campaign) [TickCampaign ''c'' 10 (23 * 60), ClaimDone] (worker_init demo_contacts demo_dnc)))
      \<noteq> cw_dialled (fold (cw_step demo_campaign) [TickCampaign ''c'' 10 (23 * 60), ClaimDone] (worker_init demo_contacts demo_dnc))"
    by code_simp
  from dialled_numbers_allowed [OF fresh this] show ?thesis unfolding Let_def by blast
qed

text \<open>
  A completion that arrives while a tick of the same campaign waits for the database is lost from the
  counter: the tick writes back the number it read before. When all calls of the campaign are over, the
  counter still shows one, so that from then on the campaign dials with one line less than its limit.
\<close>

theorem lost_release_leaks_slot:
  "let es = demo_dial ''j1'' @
            [TickCampaign ''c'' 20 (23 * 60), JobComplete ''j1'' True ''+OK u'', ListenerReleaseDone, ClaimDone, DncDone,
             OriginateDone (Some ''j2''), JobComplete ''j2'' True ''+OK v'', ListenerReleaseDone];
       w = fold (cw_step demo_campaign) es (worker_init demo_contacts demo_dnc)
   in cw_tick w = Idle \<and> calls_out w ''c'' = 0 \<and> owed w ''c'' = 0 \<and> in_flight_of w ''c'' = 1"
  by code_simp

end
