(* ===== verification/Transcripts.thy ===== *)
theory Transcripts
  imports Prelude Py_Values "HOL-Library.Sublist"
begin

text \<open>
  Call records and transcripts (\<^verbatim>\<open>services/conversation/transcript_builder.py\<close>): every write is a task
  that waits for the session's previous one, so that the pipeline never waits for the database. The
  tables are those of \<^verbatim>\<open>database/schema.sql\<close>: a turn refers to the row of its call.

  A step is a call of the builder, the execution of one task's statement at a time of the database's
  clock (it may fail, the failure is logged and swallowed), the callback that drops a session's chain,
  a heartbeat, or one of the three reconciliations. The identifiers, texts and engine names that the
  statements copy are kept; \<^verbatim>\<open>json.dumps\<close> of a value is the value.
\<close>

section \<open>Tables\<close>

record turn_latency =
  tl_stt_ms :: "rat option"
  tl_llm_ms :: "rat option"
  tl_tts_ms :: "rat option"
  tl_voice_to_voice_ms :: "rat option"
  tl_stt_engine :: "string option"
  tl_llm_engine :: "string option"
  tl_tts_engine :: "string option"

definition no_latency :: turn_latency where
  "no_latency = \<lparr>tl_stt_ms = None, tl_llm_ms = None, tl_tts_ms = None, tl_voice_to_voice_ms = None,
     tl_stt_engine = None, tl_llm_engine = None, tl_tts_engine = None\<rparr>"

record call_row =
  cl_tenant_id :: string
  cl_call_id :: "string option"
  cl_direction :: string
  cl_caller_number :: "string option"
  cl_called_number :: "string option"
  cl_agent_id :: "string option"
  cl_agent_config_version :: "int option"
  cl_conv_node :: "string option"
  cl_started_at :: rat
  cl_ended_at :: "rat option"
  cl_duration_ms :: "int option"
  cl_close_reason :: "string option"
  cl_turn_count :: nat
  cl_barge_in_count :: nat
  cl_final_state :: "string option"
  cl_nodes_visited :: "string list option"
  cl_disposition :: "string option"
  cl_extracted_variables :: "(string \<times> pyval) list option"

record transcript_entry =
  te_session_id :: string
  te_turn_number :: nat
  te_caller_text :: string
  te_caller_confidence :: rat
  te_ai_response :: string
  te_interrupted :: bool
  te_stt_latency_ms :: "int option"
  te_llm_latency_ms :: "int option"
  te_tts_latency_ms :: "int option"
  te_latency :: turn_latency
  te_node_id :: "string option"
  te_node_name :: "string option"
  te_created_at :: rat

record call_db =
  db_calls :: "(string, call_row) odict"
  db_entries :: "transcript_entry list"
  db_heartbeats :: "(string, rat) odict"

text \<open>Python's \<^verbatim>\<open>round\<close>: to the nearest, ties to the even neighbour.\<close>

definition py_round :: "rat \<Rightarrow> int" where
  "py_round x =
     (let f = \<lfloor>x\<rfloor>; d = x - of_int f
      in if d < 1 / 2 then f else if 1 / 2 < d then f + 1 else if even f then f else f + 1)"

definition round_or_none :: "rat option \<Rightarrow> int option" where
  "round_or_none = map_option py_round"

section \<open>Statements\<close>

datatype db_write =
    WBegin string string string string string "string option" "int option"
  | WTurn nat string rat string bool turn_latency "string option" "string option"
  | WOutcome "string list" "string option" "(string \<times> pyval) list"
  | WEnd string nat nat "string option"

definition none_if_empty :: "string \<Rightarrow> string option" where
  "none_if_empty s = (if s = [] then None else Some s)"

definition or_default :: "string \<Rightarrow> string \<Rightarrow> string" where
  "or_default s d = (if s = [] then d else s)"

definition update_call :: "string \<Rightarrow> (call_row \<Rightarrow> call_row) \<Rightarrow> call_db \<Rightarrow> call_db" where
  "update_call sid f db =
     (case od_get (db_calls db) sid of
        None \<Rightarrow> db
      | Some r \<Rightarrow> db\<lparr>db_calls := od_set sid (f r) (db_calls db)\<rparr>)"

definition begin_call_row ::
  "string option \<Rightarrow> rat \<Rightarrow> string \<Rightarrow> string \<Rightarrow> string \<Rightarrow> string \<Rightarrow> string \<Rightarrow> string option \<Rightarrow> int option \<Rightarrow> call_row"
where
  "begin_call_row node now tenant call_id direction caller called agent version =
     \<lparr>cl_tenant_id = or_default tenant ''default'', cl_call_id = none_if_empty call_id,
      cl_direction = or_default direction ''inbound'', cl_caller_number = none_if_empty caller,
      cl_called_number = none_if_empty called, cl_agent_id = agent, cl_agent_config_version = version,
      cl_conv_node = node, cl_started_at = now, cl_ended_at = None, cl_duration_ms = None,
      cl_close_reason = None, cl_turn_count = 0, cl_barge_in_count = 0, cl_final_state = None,
      cl_nodes_visited = None, cl_disposition = None, cl_extracted_variables = None\<rparr>"

text \<open>A turn without the row of its call violates the foreign key: its statement fails.\<close>

definition apply_write :: "string option \<Rightarrow> rat \<Rightarrow> string \<Rightarrow> db_write \<Rightarrow> call_db \<Rightarrow> call_db" where
  "apply_write node now sid w db =
     (case w of
        WBegin tenant call_id direction caller called agent version \<Rightarrow>
          (case od_get (db_calls db) sid of
             Some _ \<Rightarrow> db
           | None \<Rightarrow> db\<lparr>db_calls := od_set sid
                        (begin_call_row node now tenant call_id direction caller called agent version) (db_calls db)\<rparr>)
      | WTurn n caller conf ai interrupted lat node_id node_name \<Rightarrow>
          if od_get (db_calls db) sid = None then db
          else db\<lparr>db_entries := db_entries db @
                 [\<lparr>te_session_id = sid, te_turn_number = n, te_caller_text = caller, te_caller_confidence = conf,
                   te_ai_response = ai, te_interrupted = interrupted,
                   te_stt_latency_ms = round_or_none (tl_stt_ms lat), te_llm_latency_ms = round_or_none (tl_llm_ms lat),
                   te_tts_latency_ms = round_or_none (tl_tts_ms lat), te_latency = lat,
                   te_node_id = node_id, te_node_name = node_name, te_created_at = now\<rparr>]\<rparr>
      | WOutcome visited disp variables \<Rightarrow>
          update_call sid (\<lambda>r. r\<lparr>cl_nodes_visited := Some visited, cl_disposition := disp,
                                 cl_extracted_variables := Some variables\<rparr>) db
      | WEnd reason turns barge_ins final_state \<Rightarrow>
          update_call sid (\<lambda>r. r\<lparr>cl_ended_at := Some now, cl_duration_ms := Some (round ((now - cl_started_at r) * 1000)),
                                 cl_close_reason := Some reason, cl_turn_count := turns, cl_barge_in_count := barge_ins,
                                 cl_final_state := (case final_state of Some s \<Rightarrow> Some s | None \<Rightarrow> cl_final_state r)\<rparr>) db)"

section \<open>The builder\<close>

record write_task =
  wt_session :: string
  wt_write :: db_write
  wt_prior :: "nat option"
  wt_done :: bool

record builder =
  tb_pool :: bool
  tb_node_id :: "string option"
  tb_turn_counts :: "(string, nat) odict"
  tb_barge_in_counts :: "(string, nat) odict"
  tb_chains :: "(string, nat) odict"
  tb_tasks :: "write_task list"
  tb_callbacks :: "nat list"

definition builder_init :: "bool \<Rightarrow> string option \<Rightarrow> builder" where
  "builder_init pool node = \<lparr>tb_pool = pool, tb_node_id = node, tb_turn_counts = [], tb_barge_in_counts = [],
     tb_chains = [], tb_tasks = [], tb_callbacks = []\<rparr>"

definition count_of :: "(string, nat) odict \<Rightarrow> string \<Rightarrow> nat" where
  "count_of d sid = (case od_get d sid of Some n \<Rightarrow> n | None \<Rightarrow> 0)"

definition spawn :: "string \<Rightarrow> db_write \<Rightarrow> builder \<Rightarrow> builder" where
  "spawn sid w b =
     b\<lparr>tb_tasks := tb_tasks b @ [\<lparr>wt_session = sid, wt_write = w, wt_prior = od_get (tb_chains b) sid, wt_done = False\<rparr>],
       tb_chains := od_set sid (length (tb_tasks b)) (tb_chains b)\<rparr>"

definition begin_call ::
  "string \<Rightarrow> string \<Rightarrow> string \<Rightarrow> string \<Rightarrow> string \<Rightarrow> string \<Rightarrow> string option \<Rightarrow> int option \<Rightarrow> builder \<Rightarrow> builder"
where
  "begin_call sid tenant call_id direction caller called agent version b =
     (if \<not> tb_pool b then b
      else spawn sid (WBegin tenant call_id direction caller called agent version)
             (b\<lparr>tb_turn_counts := od_set sid 0 (tb_turn_counts b), tb_barge_in_counts := od_set sid 0 (tb_barge_in_counts b)\<rparr>))"

definition record_turn ::
  "string \<Rightarrow> string \<Rightarrow> rat \<Rightarrow> string \<Rightarrow> bool \<Rightarrow> turn_latency option \<Rightarrow> string option \<Rightarrow> string option \<Rightarrow> builder \<Rightarrow> builder"
where
  "record_turn sid caller conf ai interrupted lat node_id node_name b =
     (if \<not> tb_pool b then b
      else
        let n = count_of (tb_turn_counts b) sid + 1;
            b1 = b\<lparr>tb_turn_counts := od_set sid n (tb_turn_counts b)\<rparr>;
            b2 = (if interrupted
                  then b1\<lparr>tb_barge_in_counts := od_set sid (count_of (tb_barge_in_counts b1) sid + 1) (tb_barge_in_counts b1)\<rparr>
                  else b1)
        in spawn sid (WTurn n caller conf ai interrupted (case lat of Some l \<Rightarrow> l | None \<Rightarrow> no_latency) node_id node_name) b2)"

definition record_workflow_outcome ::
  "string \<Rightarrow> string list option \<Rightarrow> string option \<Rightarrow> (string \<times> pyval) list option \<Rightarrow> builder \<Rightarrow> builder"
where
  "record_workflow_outcome sid visited disp variables b =
     (if \<not> tb_pool b then b
      else spawn sid (WOutcome (case visited of Some v \<Rightarrow> v | None \<Rightarrow> []) disp
                        (case variables of Some v \<Rightarrow> v | None \<Rightarrow> [])) b)"

definition end_call :: "string \<Rightarrow> string \<Rightarrow> string option \<Rightarrow> builder \<Rightarrow> builder" where
  "end_call sid reason final_state b =
     (if \<not> tb_pool b then b
      else
        let b1 = spawn sid (WEnd reason (count_of (tb_turn_counts b) sid) (count_of (tb_barge_in_counts b) sid) final_state)
                   (b\<lparr>tb_turn_counts := od_del sid (tb_turn_counts b), tb_barge_in_counts := od_del sid (tb_barge_in_counts b)\<rparr>)
        in b1\<lparr>tb_callbacks := tb_callbacks b1 @ [length (tb_tasks b)]\<rparr>)"

section \<open>Reconciliation\<close>

definition close_rows :: "string \<Rightarrow> rat \<Rightarrow> (string \<Rightarrow> call_row \<Rightarrow> bool) \<Rightarrow> call_db \<Rightarrow> call_db" where
  "close_rows reason now sel db =
     db\<lparr>db_calls := map (\<lambda>(sid, r). (sid, if cl_ended_at r = None \<and> sel sid r
                                          then r\<lparr>cl_ended_at := Some now, cl_close_reason := Some reason\<rparr> else r)) (db_calls db)\<rparr>"

text \<open>An empty node id is no node id.\<close>

definition own_node :: "builder \<Rightarrow> string option" where
  "own_node b = (case tb_node_id b of Some n \<Rightarrow> if n = [] then None else Some n | None \<Rightarrow> None)"

definition reconcile_stale_calls :: "rat \<Rightarrow> builder \<Rightarrow> call_db \<Rightarrow> call_db" where
  "reconcile_stale_calls now b db =
     (case own_node b of
        Some n \<Rightarrow> if tb_pool b then close_rows ''reconciled_stale'' now (\<lambda>sid r. cl_conv_node r = Some n) db else db
      | None \<Rightarrow> db)"

definition heartbeat :: "rat \<Rightarrow> builder \<Rightarrow> call_db \<Rightarrow> call_db" where
  "heartbeat now b db =
     (case own_node b of
        Some n \<Rightarrow> if tb_pool b then db\<lparr>db_heartbeats := od_set n now (db_heartbeats db)\<rparr> else db
      | None \<Rightarrow> db)"

definition node_alive :: "call_db \<Rightarrow> rat \<Rightarrow> rat \<Rightarrow> string \<Rightarrow> bool" where
  "node_alive db now window n = (case od_get (db_heartbeats db) n of Some t \<Rightarrow> now - window \<le> t | None \<Rightarrow> False)"

definition reconcile_dead_nodes :: "rat \<Rightarrow> rat \<Rightarrow> builder \<Rightarrow> call_db \<Rightarrow> call_db" where
  "reconcile_dead_nodes now window b db =
     (if tb_pool b
      then close_rows ''reconciled_dead_node'' now
             (\<lambda>sid r. case cl_conv_node r of Some n \<Rightarrow> \<not> node_alive db now window n | None \<Rightarrow> False) db
      else db)"

definition recently_active :: "call_db \<Rightarrow> rat \<Rightarrow> rat \<Rightarrow> string \<Rightarrow> bool" where
  "recently_active db now window sid \<longleftrightarrow>
     list_ex (\<lambda>e. te_session_id e = sid \<and> now - window \<le> te_created_at e) (db_entries db)"

definition reconcile_inactive_calls :: "rat \<Rightarrow> rat \<Rightarrow> builder \<Rightarrow> call_db \<Rightarrow> call_db" where
  "reconcile_inactive_calls now window b db =
     (if tb_pool b
      then close_rows ''reconciled_inactive'' now
             (\<lambda>sid r. cl_started_at r < now - window \<and> \<not> recently_active db now window sid) db
      else db)"

section \<open>Steps\<close>

record tworld =
  tw_builder :: builder
  tw_db :: call_db

datatype t_event =
    BeginCall string string string string string string "string option" "int option"
  | RecordTurn string string rat string bool "turn_latency option" "string option" "string option"
  | RecordOutcome string "string list option" "string option" "(string \<times> pyval) list option"
  | EndCallRecord string string "string option"
  | RunTask nat rat bool
  | ChainDropped nat
  | Heartbeat rat
  | ReconcileStale rat
  | ReconcileDead rat rat
  | ReconcileInactive rat rat

definition may_run :: "write_task list \<Rightarrow> nat \<Rightarrow> bool" where
  "may_run ts i \<longleftrightarrow>
     i < length ts \<and> \<not> wt_done (ts ! i) \<and>
     (case wt_prior (ts ! i) of None \<Rightarrow> True | Some j \<Rightarrow> j < length ts \<and> wt_done (ts ! j))"

definition run_task :: "nat \<Rightarrow> rat \<Rightarrow> bool \<Rightarrow> tworld \<Rightarrow> tworld" where
  "run_task i now ok w =
     (let b = tw_builder w; t = tb_tasks b ! i
      in w\<lparr>tw_builder := b\<lparr>tb_tasks := (tb_tasks b)[i := t\<lparr>wt_done := True\<rparr>]\<rparr>,
           tw_db := (if ok then apply_write (tb_node_id b) now (wt_session t) (wt_write t) (tw_db w) else tw_db w)\<rparr>)"

definition chain_dropped :: "nat \<Rightarrow> builder \<Rightarrow> builder" where
  "chain_dropped i b =
     (if i \<in> set (tb_callbacks b) \<and> i < length (tb_tasks b) \<and> wt_done (tb_tasks b ! i)
      then b\<lparr>tb_callbacks := remove1 i (tb_callbacks b), tb_chains := od_del (wt_session (tb_tasks b ! i)) (tb_chains b)\<rparr>
      else b)"

definition on_builder :: "(builder \<Rightarrow> builder) \<Rightarrow> tworld \<Rightarrow> tworld" where
  "on_builder f w = w\<lparr>tw_builder := f (tw_builder w)\<rparr>"

definition on_db :: "(builder \<Rightarrow> call_db \<Rightarrow> call_db) \<Rightarrow> tworld \<Rightarrow> tworld" where
  "on_db f w = w\<lparr>tw_db := f (tw_builder w) (tw_db w)\<rparr>"

fun t_step :: "t_event \<Rightarrow> tworld \<Rightarrow> tworld" where
  "t_step (BeginCall sid tenant call_id direction caller called agent version) w =
     on_builder (begin_call sid tenant call_id direction caller called agent version) w"
| "t_step (RecordTurn sid caller conf ai interrupted lat node_id node_name) w =
     on_builder (record_turn sid caller conf ai interrupted lat node_id node_name) w"
| "t_step (RecordOutcome sid visited disp variables) w = on_builder (record_workflow_outcome sid visited disp variables) w"
| "t_step (EndCallRecord sid reason final_state) w = on_builder (end_call sid reason final_state) w"
| "t_step (RunTask i now ok) w = (if may_run (tb_tasks (tw_builder w)) i then run_task i now ok w else w)"
| "t_step (ChainDropped i) w = on_builder (chain_dropped i) w"
| "t_step (Heartbeat now) w = on_db (heartbeat now) w"
| "t_step (ReconcileStale now) w = on_db (reconcile_stale_calls now) w"
| "t_step (ReconcileDead now window) w = on_db (reconcile_dead_nodes now window) w"
| "t_step (ReconcileInactive now window) w = on_db (reconcile_inactive_calls now window) w"

definition tworld_init :: "bool \<Rightarrow> string option \<Rightarrow> tworld" where
  "tworld_init pool node =
     \<lparr>tw_builder = builder_init pool node, tw_db = \<lparr>db_calls = [], db_entries = [], db_heartbeats = []\<rparr>\<rparr>"

section \<open>The chain of a session\<close>

definition of_session :: "string \<Rightarrow> write_task list \<Rightarrow> write_task list" where
  "of_session sid ts = filter (\<lambda>t. wt_session t = sid) ts"

definition spawned :: "string \<Rightarrow> write_task list \<Rightarrow> db_write list" where
  "spawned sid ts = map wt_write (of_session sid ts)"

definition executed :: "string \<Rightarrow> write_task list \<Rightarrow> db_write list" where
  "executed sid ts = map wt_write (filter wt_done (of_session sid ts))"

fun latest_from :: "string \<Rightarrow> nat \<Rightarrow> write_task list \<Rightarrow> nat option" where
  "latest_from sid n [] = None"
| "latest_from sid n (t # ts) =
     (case latest_from sid (Suc n) ts of Some j \<Rightarrow> Some j | None \<Rightarrow> if wt_session t = sid then Some n else None)"

definition latest :: "string \<Rightarrow> write_task list \<Rightarrow> nat option" where
  "latest sid ts = latest_from sid 0 ts"

definition chained :: "write_task list \<Rightarrow> bool" where
  "chained ts \<longleftrightarrow> (\<forall>i < length ts. wt_prior (ts ! i) = latest (wt_session (ts ! i)) (take i ts))"

definition in_order :: "write_task list \<Rightarrow> bool" where
  "in_order ts \<longleftrightarrow> sorted_wrt (\<lambda>a b. wt_session a = wt_session b \<longrightarrow> wt_done b \<longrightarrow> wt_done a) ts"

lemma latest_from_snoc:
  "latest_from sid n (ts @ [t]) = (if wt_session t = sid then Some (n + length ts) else latest_from sid n ts)"
  by (induction ts arbitrary: n) (auto split: option.splits)

lemma latest_snoc: "latest sid (ts @ [t]) = (if wt_session t = sid then Some (length ts) else latest sid ts)"
  by (simp add: latest_def latest_from_snoc)

lemma latest_None: "latest sid ts = None \<Longrightarrow> t \<in> set ts \<Longrightarrow> wt_session t \<noteq> sid"
  unfolding latest_def
  by (induction ts rule: rev_induct) (auto simp: latest_from_snoc split: if_splits)

lemma latest_Some:
  "latest sid ts = Some j \<Longrightarrow>
     j < length ts \<and> wt_session (ts ! j) = sid \<and> (\<forall>k < length ts. j < k \<longrightarrow> wt_session (ts ! k) \<noteq> sid)"
proof (induction ts rule: rev_induct)
  case Nil
  then show ?case by (simp add: latest_def)
next
  case (snoc t ts)
  then show ?case by (auto simp: latest_snoc nth_append less_Suc_eq split: if_splits)
qed

lemma latest_mark: "latest sid (ts[i := t]) = latest sid ts" if "i < length ts" "wt_session t = wt_session (ts ! i)"
proof -
  have "latest_from sid n (ts[i := t]) = latest_from sid n ts" for n
    using that
  proof (induction ts arbitrary: i n)
    case (Cons a ts)
    then show ?case by (cases i) auto
  qed simp
  then show ?thesis by (simp add: latest_def)
qed

text \<open>A task that may run has everything of its session done before it and nothing done behind it.\<close>

lemma may_run_split:
  assumes "chained ts" and "in_order ts" and "may_run ts i"
  shows "ts = take i ts @ ts ! i # drop (Suc i) ts" and "\<not> wt_done (ts ! i)"
    and "\<And>a. a \<in> set (take i ts) \<Longrightarrow> wt_session a = wt_session (ts ! i) \<Longrightarrow> wt_done a"
    and "\<And>a. a \<in> set (drop (Suc i) ts) \<Longrightarrow> wt_session a = wt_session (ts ! i) \<Longrightarrow> \<not> wt_done a"
proof -
  have i: "i < length ts" and nd: "\<not> wt_done (ts ! i)" using assms(3) by (simp_all add: may_run_def)
  show split: "ts = take i ts @ ts ! i # drop (Suc i) ts" using i by (rule id_take_nth_drop)
  show "\<not> wt_done (ts ! i)" by (rule nd)
  have prior: "wt_prior (ts ! i) = latest (wt_session (ts ! i)) (take i ts)" using assms(1) i by (simp add: chained_def)
  have ord: "wt_done (ts ! k)" if "k < j" "j < length ts" "wt_session (ts ! k) = wt_session (ts ! j)" "wt_done (ts ! j)" for k j
    using assms(2) that unfolding in_order_def sorted_wrt_iff_nth_less by blast
  show "wt_done a" if a: "a \<in> set (take i ts)" and eq: "wt_session a = wt_session (ts ! i)" for a
  proof -
    obtain k where k: "k < i" "a = ts ! k" using a i by (auto simp: in_set_conv_nth)
    have "latest (wt_session (ts ! i)) (take i ts) \<noteq> None" using latest_None a eq by blast
    then obtain j where j: "latest (wt_session (ts ! i)) (take i ts) = Some j" by blast
    have js: "j < i" "wt_session (ts ! j) = wt_session (ts ! i)" and after: "\<forall>m < i. j < m \<longrightarrow> wt_session (ts ! m) \<noteq> wt_session (ts ! i)"
      using latest_Some [OF j] i by auto
    have "wt_done (ts ! j)" using assms(3) prior j by (simp add: may_run_def)
    moreover have "k \<le> j" using after k eq by (metis not_le)
    ultimately show ?thesis using ord [of k j] js k eq i by (cases "k = j") auto
  qed
  show "\<not> wt_done a" if a: "a \<in> set (drop (Suc i) ts)" and eq: "wt_session a = wt_session (ts ! i)" for a
  proof
    assume d: "wt_done a"
    obtain m where m: "m < length ts - Suc i" "a = ts ! (Suc i + m)" using a by (auto simp: in_set_conv_nth)
    moreover have "Suc i + m < length ts" using m by linarith
    ultimately show False using ord [of i "Suc i + m"] nd d eq by auto
  qed
qed

lemma run_effect:
  assumes "chained ts" and "in_order ts" and "may_run ts i"
  defines "ts' \<equiv> ts[i := (ts ! i)\<lparr>wt_done := True\<rparr>]"
  shows "chained ts'" and "in_order ts'" and "spawned sid ts' = spawned sid ts" and "latest sid ts' = latest sid ts"
    and "executed sid ts' = (if wt_session (ts ! i) = sid then executed sid ts @ [wt_write (ts ! i)] else executed sid ts)"
proof -
  note sp = may_run_split [OF assms(1-3)]
  have i: "i < length ts" using assms(3) by (simp add: may_run_def)
  let ?as = "take i ts" and ?bs = "drop (Suc i) ts" and ?t = "ts ! i"
  have ts': "ts' = ?as @ ?t\<lparr>wt_done := True\<rparr> # ?bs" using i by (simp add: ts'_def upd_conv_take_nth_drop)
  have o: "in_order (?as @ ?t # ?bs)" using assms(2) sp(1) by simp
  show "in_order ts'" unfolding ts' using o sp(3) by (auto simp: in_order_def sorted_wrt_append)
  have len: "length ts' = length ts" by (simp add: ts'_def)
  have same: "wt_session (ts' ! k) = wt_session (ts ! k)" "wt_prior (ts' ! k) = wt_prior (ts ! k)" if "k < length ts" for k
    using that by (cases "k = i"; simp add: ts'_def)+
  have "latest s (take k ts') = latest s (take k ts)" for s k
    
  proof (cases "i < k")
    case True
    then show ?thesis using i by (simp add: ts'_def take_update_swap latest_mark)
  qed (simp add: ts'_def)
  then show "chained ts'" using assms(1) same len by (simp add: chained_def)
  show "latest sid ts' = latest sid ts" unfolding ts'_def using i by (simp add: latest_mark)
  show "spawned sid ts' = spawned sid ts" 
    unfolding arg_cong [OF sp(1), of "spawned sid"] by (simp add: ts' spawned_def of_session_def)
  have fb: "filter (\<lambda>t. wt_done t \<and> wt_session t = wt_session ?t) ?bs = []" using sp(4) by (auto simp: filter_empty_conv)
  have "executed sid ts' = executed sid (?as @ ?t\<lparr>wt_done := True\<rparr> # ?bs)" by (simp add: ts')
  also have "\<dots> = (if wt_session ?t = sid then executed sid (?as @ ?t # ?bs) @ [wt_write ?t] else executed sid (?as @ ?t # ?bs))"
    using fb sp(2) by (auto simp: executed_def of_session_def conj_commute)
  finally show "executed sid ts' = (if wt_session ?t = sid then executed sid ts @ [wt_write ?t] else executed sid ts)"
    by (simp only: arg_cong [OF sp(1), of "executed sid", symmetric])
qed

lemma executed_prefix: "in_order ts \<Longrightarrow> prefix (executed sid ts) (spawned sid ts)"
proof -
  have p: "sorted_wrt (\<lambda>a b. wt_done b \<longrightarrow> wt_done a) xs \<Longrightarrow> prefix (filter wt_done xs) xs" for xs
    by (induction xs) (auto simp: filter_empty_conv)
  assume "in_order ts"
  then have "sorted_wrt (\<lambda>a b. wt_done b \<longrightarrow> wt_done a) (of_session sid ts)"
    unfolding in_order_def of_session_def
    by (induction ts) auto
  then show ?thesis unfolding executed_def spawned_def by (intro map_mono_prefix p)
qed

section \<open>Orderly use\<close>

text \<open>What the pipeline keeps to: the record of a call is opened once and before its turns, and
  nothing is recorded after it was closed.\<close>

fun call_of :: "t_event \<Rightarrow> string option" where
  "call_of (BeginCall sid tenant call_id direction caller called agent version) = Some sid"
| "call_of (RecordTurn sid caller conf ai interrupted lat node_id node_name) = Some sid"
| "call_of (RecordOutcome sid visited disp variables) = Some sid"
| "call_of (EndCallRecord sid reason final_state) = Some sid"
| "call_of _ = None"

fun opens_record :: "t_event \<Rightarrow> bool" where
  "opens_record (BeginCall sid tenant call_id direction caller called agent version) = True"
| "opens_record _ = False"

fun closes_record :: "t_event \<Rightarrow> bool" where
  "closes_record (EndCallRecord sid reason final_state) = True"
| "closes_record _ = False"

fun orderly :: "string list \<Rightarrow> string list \<Rightarrow> t_event list \<Rightarrow> bool" where
  "orderly seen ended [] = True"
| "orderly seen ended (e # es) =
     (case call_of e of
        None \<Rightarrow> orderly seen ended es
      | Some sid \<Rightarrow>
          sid \<notin> set ended \<and> (opens_record e \<longleftrightarrow> sid \<notin> set seen) \<and>
          orderly (sid # seen) (if closes_record e then sid # ended else ended) es)"

fun turn_pairs :: "db_write list \<Rightarrow> (nat \<times> bool) list" where
  "turn_pairs [] = []"
| "turn_pairs (WTurn n caller conf ai interrupted lat node_id node_name # ws) = (n, interrupted) # turn_pairs ws"
| "turn_pairs (_ # ws) = turn_pairs ws"

lemma turn_pairs_append [simp]: "turn_pairs (xs @ ys) = turn_pairs xs @ turn_pairs ys"
  by (induction xs rule: turn_pairs.induct) auto

fun is_WBegin :: "db_write \<Rightarrow> bool" where
  "is_WBegin (WBegin tenant call_id direction caller called agent version) = True"
| "is_WBegin _ = False"

fun is_WEnd :: "db_write \<Rightarrow> bool" where
  "is_WEnd (WEnd reason n k f) = True"
| "is_WEnd _ = False"

definition numbered :: "db_write list \<Rightarrow> bool" where
  "numbered ws \<longleftrightarrow> map fst (turn_pairs ws) = [1..<Suc (length (turn_pairs ws))]"

definition barges :: "db_write list \<Rightarrow> nat" where
  "barges ws = length (filter snd (turn_pairs ws))"

text \<open>The writes of a call that is open, and of one that is closed.\<close>

definition open_writes :: "db_write list \<Rightarrow> bool" where
  "open_writes ws \<longleftrightarrow> numbered ws \<and> list_all (\<lambda>w. \<not> is_WEnd w) ws \<and> list_all (\<lambda>w. \<not> is_WBegin w) (tl ws)"

definition closed_writes :: "db_write list \<Rightarrow> bool" where
  "closed_writes ws \<longleftrightarrow>
     (\<exists>pre r f. ws = pre @ [WEnd r (length (turn_pairs pre)) (barges pre) f] \<and> open_writes pre)"

definition session_inv :: "string set \<Rightarrow> string set \<Rightarrow> builder \<Rightarrow> string \<Rightarrow> bool" where
  "session_inv seen ended b sid \<longleftrightarrow>
     (let ws = spawned sid (tb_tasks b)
      in (if sid \<in> seen then ws \<noteq> [] \<and> is_WBegin (hd ws) else ws = []) \<and>
         (if sid \<in> ended then closed_writes ws
          else open_writes ws \<and> od_get (tb_chains b) sid = latest sid (tb_tasks b) \<and>
               count_of (tb_turn_counts b) sid = length (turn_pairs ws) \<and>
               count_of (tb_barge_in_counts b) sid = barges ws))"

definition builder_inv :: "string set \<Rightarrow> string set \<Rightarrow> builder \<Rightarrow> bool" where
  "builder_inv seen ended b \<longleftrightarrow>
     tb_pool b \<and> chained (tb_tasks b) \<and> in_order (tb_tasks b) \<and> (\<forall>sid. session_inv seen ended b sid) \<and>
     (\<forall>i \<in> set (tb_callbacks b). i < length (tb_tasks b) \<and> wt_session (tb_tasks b ! i) \<in> ended)"

lemma spawned_snoc [simp]:
  "spawned sid (ts @ [t]) = (if wt_session t = sid then spawned sid ts @ [wt_write t] else spawned sid ts)"
  by (simp add: spawned_def of_session_def)

lemma spawned_empty [simp]: "spawned sid [] = []" "executed sid [] = []"
  by (simp_all add: spawned_def executed_def of_session_def)

lemma executed_spawn [simp]:
  "\<not> wt_done t \<Longrightarrow> executed sid (ts @ [t]) = executed sid ts"
  by (simp add: executed_def of_session_def)

lemma spawn_simps [simp]:
  "tb_pool (spawn sid w b) = tb_pool b" "tb_turn_counts (spawn sid w b) = tb_turn_counts b"
  "tb_barge_in_counts (spawn sid w b) = tb_barge_in_counts b" "tb_callbacks (spawn sid w b) = tb_callbacks b"
  "od_get (tb_chains (spawn sid w b)) s = (if s = sid then Some (length (tb_tasks b)) else od_get (tb_chains b) s)"
  "latest s (tb_tasks (spawn sid w b)) = (if s = sid then Some (length (tb_tasks b)) else latest s (tb_tasks b))"
  "spawned s (tb_tasks (spawn sid w b)) = (if s = sid then spawned sid (tb_tasks b) @ [w] else spawned s (tb_tasks b))"
  "executed s (tb_tasks (spawn sid w b)) = executed s (tb_tasks b)"
  "length (tb_tasks (spawn sid w b)) = Suc (length (tb_tasks b))"
  by (auto simp: spawn_def latest_snoc)

lemma spawn_nth [simp]: "i < length (tb_tasks b) \<Longrightarrow> tb_tasks (spawn sid w b) ! i = tb_tasks b ! i"
  "wt_session (tb_tasks (spawn sid w b) ! length (tb_tasks b)) = sid"
  by (simp_all add: spawn_def nth_append)

lemma spawn_chained:
  "chained (tb_tasks b) \<Longrightarrow> od_get (tb_chains b) sid = latest sid (tb_tasks b) \<Longrightarrow> chained (tb_tasks (spawn sid w b))"
  by (auto simp: chained_def spawn_def nth_append less_Suc_eq)

lemma spawn_in_order: "in_order (tb_tasks b) \<Longrightarrow> in_order (tb_tasks (spawn sid w b))"
  by (simp add: in_order_def spawn_def sorted_wrt_append)

lemma count_of_set [simp]: "count_of (od_set k n d) sid = (if sid = k then n else count_of d sid)"
  "count_of (od_del k d) sid = (if sid = k then 0 else count_of d sid)"
  by (simp_all add: count_of_def)

lemma open_snoc:
  assumes "open_writes ws" and "\<not> is_WEnd w" and "\<not> is_WBegin w"
    and t: "turn_pairs [w] = [] \<or> (\<exists>i. turn_pairs [w] = [(Suc (length (turn_pairs ws)), i)])"
  shows "open_writes (ws @ [w])"
proof -
  have "numbered (ws @ [w])" using assms(1) t unfolding open_writes_def numbered_def turn_pairs_append by auto
  moreover have "list_all (\<lambda>w. \<not> is_WBegin w) (tl (ws @ [w]))"
    using assms(1,3) by (cases ws) (simp_all add: open_writes_def)
  ultimately show ?thesis using assms(1,2) by (simp add: open_writes_def)
qed

lemma open_begin: "is_WBegin w \<Longrightarrow> open_writes [w]"
  by (cases w) (auto simp: open_writes_def numbered_def)

text \<open>A spawn of an open session: the counters may change with it, other sessions keep their state.\<close>

lemma builder_spawn:
  fixes w :: db_write
  assumes inv: "builder_inv seen ended b0" and sid: "sid \<notin> ended"
    and b: "tb_pool b = tb_pool b0" "tb_tasks b = tb_tasks b0" "tb_chains b = tb_chains b0" "tb_callbacks b = tb_callbacks b0"
    and other: "\<And>s. s \<noteq> sid \<Longrightarrow> count_of (tb_turn_counts b) s = count_of (tb_turn_counts b0) s \<and>
                  count_of (tb_barge_in_counts b) s = count_of (tb_barge_in_counts b0) s"
  defines "ws \<equiv> spawned sid (tb_tasks b0) @ [w]"
  assumes first: "is_WBegin (hd ws)"
  shows "open_writes ws \<Longrightarrow> count_of (tb_turn_counts b) sid = length (turn_pairs ws) \<Longrightarrow>
           count_of (tb_barge_in_counts b) sid = barges ws \<Longrightarrow> builder_inv (insert sid seen) ended (spawn sid w b)"
    and "closed_writes ws \<Longrightarrow>
           builder_inv (insert sid seen) (insert sid ended)
             ((spawn sid w b)\<lparr>tb_callbacks := tb_callbacks b @ [length (tb_tasks b)]\<rparr>)"
proof -
  have ses: "session_inv seen ended b0 s" for s using inv by (simp add: builder_inv_def)
  have chain: "od_get (tb_chains b) sid = latest sid (tb_tasks b)"
    using ses [of sid] sid b(2,3) by (simp add: session_inv_def Let_def)
  have ok: "chained (tb_tasks (spawn sid w b))" "in_order (tb_tasks (spawn sid w b))"
    using inv b(2) chain by (auto simp: builder_inv_def intro!: spawn_chained spawn_in_order)
  have cb: "i < length (tb_tasks b0)" "wt_session (tb_tasks b0 ! i) \<in> ended" if "i \<in> set (tb_callbacks b0)" for i
    using inv that by (auto simp: builder_inv_def)
  have others: "session_inv (insert sid seen) E (spawn sid w b) s" if "s \<noteq> sid" "s \<in> E \<longleftrightarrow> s \<in> ended" for s E
    using ses [of s] other [OF that(1)] that b(2,3) by (simp add: session_inv_def Let_def)
  {
    assume "open_writes ws" "count_of (tb_turn_counts b) sid = length (turn_pairs ws)"
      "count_of (tb_barge_in_counts b) sid = barges ws"
    then have "session_inv (insert sid seen) ended (spawn sid w b) sid"
      using sid b(2,3) first by (simp add: session_inv_def Let_def ws_def)
    then have "session_inv (insert sid seen) ended (spawn sid w b) s" for s using others by (cases "s = sid") auto
    moreover have "i < Suc (length (tb_tasks b))" "wt_session (tb_tasks (spawn sid w b) ! i) \<in> ended" if "i \<in> set (tb_callbacks b0)" for i
      using cb [OF that] b(2) by simp_all
    ultimately show "builder_inv (insert sid seen) ended (spawn sid w b)"
      using inv ok b(1,4) by (simp add: builder_inv_def)
  next
    assume c: "closed_writes ws"
    let ?b = "(spawn sid w b)\<lparr>tb_callbacks := tb_callbacks b @ [length (tb_tasks b)]\<rparr>"
    have frame: "session_inv S E ((spawn sid w b)\<lparr>tb_callbacks := x\<rparr>) s = session_inv S E (spawn sid w b) s" for S E x s
      by (simp add: session_inv_def Let_def)
    have "session_inv (insert sid seen) (insert sid ended) (spawn sid w b) sid"
      using c b(2) first by (simp add: session_inv_def Let_def ws_def)
    then have "session_inv (insert sid seen) (insert sid ended) (spawn sid w b) s" for s
      using others by (cases "s = sid") auto
    moreover have "i < Suc (length (tb_tasks b))" "wt_session (tb_tasks (spawn sid w b) ! i) \<in> ended" if "i \<in> set (tb_callbacks b0)" for i
      using cb [OF that] b(2) by simp_all
    ultimately show "builder_inv (insert sid seen) (insert sid ended) ?b"
      using inv ok b(1,4) by (auto simp: builder_inv_def frame)
  }
qed

lemma builder_call:
  assumes inv: "builder_inv seen ended b" and e: "call_of e = Some sid" and sid: "sid \<notin> ended"
    and fresh: "opens_record e \<longleftrightarrow> sid \<notin> seen"
  shows "builder_inv (insert sid seen) (if closes_record e then insert sid ended else ended)
           (tw_builder (t_step e (w\<lparr>tw_builder := b\<rparr>)))"
proof -
  have pool: "tb_pool b" using inv by (simp add: builder_inv_def)
  have ses: "session_inv seen ended b sid" using inv by (simp add: builder_inv_def)
  let ?ws = "spawned sid (tb_tasks b)"
  have ow: "open_writes ?ws"
    and tc: "count_of (tb_turn_counts b) sid = length (turn_pairs ?ws)"
    and bc: "count_of (tb_barge_in_counts b) sid = barges ?ws"
    using ses sid by (simp_all add: session_inv_def Let_def)
  have hd: "is_WBegin (hd (?ws @ [x]))" if "\<not> opens_record e" for x
    using ses fresh that by (simp add: session_inv_def Let_def)
  show ?thesis
  proof (cases e)
    case (BeginCall s tenant call_id direction caller called agent version)
    then have "?ws = []" using ses e fresh by (simp add: session_inv_def Let_def)
    then show ?thesis using BeginCall e pool
      by (auto simp: on_builder_def begin_call_def open_begin barges_def intro!: builder_spawn(1) [OF inv sid])
  next
    case (RecordTurn s caller conf ai interrupted lat node_id node_name)
    then show ?thesis using e pool ow tc bc hd
      by (auto simp: on_builder_def record_turn_def Let_def barges_def intro!: builder_spawn(1) [OF inv sid] open_snoc)
  next
    case (RecordOutcome s visited disp variables)
    then show ?thesis using e pool ow tc bc hd
      by (auto simp: on_builder_def record_workflow_outcome_def barges_def intro!: builder_spawn(1) [OF inv sid] open_snoc)
  next
    case (EndCallRecord s reason final_state)
    then have cl: "closed_writes (?ws @ [WEnd reason (count_of (tb_turn_counts b) sid) (count_of (tb_barge_in_counts b) sid) final_state])"
      using ow tc bc by (auto simp: closed_writes_def)
    show ?thesis using EndCallRecord e pool builder_spawn(2) [OF inv sid _ _ _ _ _ hd cl,
        of "b\<lparr>tb_turn_counts := od_del sid (tb_turn_counts b), tb_barge_in_counts := od_del sid (tb_barge_in_counts b)\<rparr>"]
      by (simp add: on_builder_def end_call_def Let_def)
  qed (use e in simp_all)
qed

lemma builder_run:
  assumes "builder_inv seen ended b" and "may_run (tb_tasks b) i"
  shows "builder_inv seen ended (b\<lparr>tb_tasks := (tb_tasks b)[i := (tb_tasks b ! i)\<lparr>wt_done := True\<rparr>]\<rparr>)"
proof -
  have co: "chained (tb_tasks b)" "in_order (tb_tasks b)" using assms(1) by (simp_all add: builder_inv_def)
  note eff = run_effect [OF co assms(2)]
  have "wt_session ((tb_tasks b)[i := (tb_tasks b ! i)\<lparr>wt_done := True\<rparr>] ! j) = wt_session (tb_tasks b ! j)"
    if "j < length (tb_tasks b)" for j
    using that by (cases "j = i") simp_all
  then show ?thesis using assms(1) eff(1-4) by (simp add: builder_inv_def session_inv_def Let_def)
qed

lemma builder_callback:
  assumes "builder_inv seen ended b"
  shows "builder_inv seen ended (chain_dropped i b)"
proof (cases "i \<in> set (tb_callbacks b) \<and> i < length (tb_tasks b) \<and> wt_done (tb_tasks b ! i)")
  case True
  then have e: "wt_session (tb_tasks b ! i) \<in> ended" using assms by (simp add: builder_inv_def)
  have "j \<in> set (tb_callbacks b)" if "j \<in> set (remove1 i (tb_callbacks b))" for j using that set_remove1_subset by fast
  then show ?thesis using assms e True by (auto simp: chain_dropped_def builder_inv_def session_inv_def Let_def)
qed (use assms in \<open>simp only: chain_dropped_def if_False\<close>)

section \<open>What the tables say of a session\<close>

definition turns_of :: "string \<Rightarrow> call_db \<Rightarrow> (nat \<times> bool) list" where
  "turns_of sid db =
     map (\<lambda>e. (te_turn_number e, te_interrupted e)) (filter (\<lambda>e. te_session_id e = sid) (db_entries db))"

definition opened_first :: "string \<Rightarrow> builder \<Rightarrow> bool" where
  "opened_first sid b \<longleftrightarrow> (case spawned sid (tb_tasks b) of w # _ \<Rightarrow> is_WBegin w | [] \<Rightarrow> True)"

definition closed_row :: "string \<Rightarrow> call_db \<Rightarrow> nat \<Rightarrow> nat \<Rightarrow> bool" where
  "closed_row sid db n k \<longleftrightarrow>
     (case od_get (db_calls db) sid of
        Some r \<Rightarrow> cl_turn_count r = n \<and> cl_barge_in_count r = k \<and> cl_ended_at r \<noteq> None
      | None \<Rightarrow> False)"

definition faithful :: "string \<Rightarrow> builder \<Rightarrow> call_db \<Rightarrow> bool" where
  "faithful sid b db \<longleftrightarrow>
     (let ws = executed sid (tb_tasks b)
      in turns_of sid db = turn_pairs ws \<and> (ws \<noteq> [] \<longrightarrow> od_get (db_calls db) sid \<noteq> None) \<and>
         (\<forall>r n k f. WEnd r n k f \<in> set ws \<longrightarrow> closed_row sid db n k))"

definition db_inv :: "bool \<Rightarrow> builder \<Rightarrow> call_db \<Rightarrow> string \<Rightarrow> bool" where
  "db_inv ok b db sid \<longleftrightarrow>
     subseq (turns_of sid db) (turn_pairs (executed sid (tb_tasks b))) \<and>
     (ok \<longrightarrow> opened_first sid b \<longrightarrow> faithful sid b db)"

lemma turns_of_simps [simp]:
  "turns_of sid (db\<lparr>db_calls := x\<rparr>) = turns_of sid db" "turns_of sid (db\<lparr>db_heartbeats := y\<rparr>) = turns_of sid db"
  by (simp_all add: turns_of_def)

lemma update_call_simps [simp]:
  "turns_of sid (update_call s f db) = turns_of sid db" "db_entries (update_call s f db) = db_entries db"
  "od_get (db_calls (update_call s f db)) sid =
     (if s = sid then map_option f (od_get (db_calls db) sid) else od_get (db_calls db) sid)"
  by (auto simp: update_call_def turns_of_def split: option.split)

lemma apply_write_other:
  assumes "s \<noteq> sid"
  shows "turns_of sid (apply_write node now s w db) = turns_of sid db"
    and "od_get (db_calls (apply_write node now s w db)) sid = od_get (db_calls db) sid"
  using assms by (cases w; auto simp: apply_write_def turns_of_def split: option.split)+

lemma apply_write_turns:
  "turns_of sid (apply_write node now sid w db) =
     turns_of sid db @ (if od_get (db_calls db) sid = None then [] else turn_pairs [w])"
  by (cases w) (auto simp: apply_write_def turns_of_def split: option.split)

lemma apply_write_row:
  "od_get (db_calls db) sid \<noteq> None \<or> is_WBegin w \<Longrightarrow> od_get (db_calls (apply_write node now sid w db)) sid \<noteq> None"
  by (cases w) (auto simp: apply_write_def split: option.split)

lemma apply_write_closed:
  "od_get (db_calls db) sid \<noteq> None \<Longrightarrow> closed_row sid (apply_write node now sid (WEnd r n k f) db) n k"
  by (auto simp: apply_write_def closed_row_def)

lemma od_get_map: "od_get (map (\<lambda>(k, v). (k, f k v)) d) j = map_option (f j) (od_get d j)"
  by (induction d) (auto simp: od_get_def)

lemma close_rows_simps [simp]:
  "turns_of sid (close_rows reason now sel db) = turns_of sid db"
  "db_entries (close_rows reason now sel db) = db_entries db"
  "db_heartbeats (close_rows reason now sel db) = db_heartbeats db"
  "(od_get (db_calls (close_rows reason now sel db)) sid = None) = (od_get (db_calls db) sid = None)"
  by (simp_all add: close_rows_def od_get_map turns_of_def)

lemma closed_row_close: "closed_row sid db n k \<Longrightarrow> closed_row sid (close_rows reason now sel db) n k"
  by (auto simp: closed_row_def close_rows_def od_get_map split: option.splits)

lemma closed_row_other: "s \<noteq> sid \<Longrightarrow> closed_row sid (apply_write node now s w db) n k = closed_row sid db n k"
  by (simp add: closed_row_def apply_write_other)

lemma closed_row_cong:
  "od_get (db_calls db') sid = od_get (db_calls db) sid \<Longrightarrow> closed_row sid db' n k = closed_row sid db n k"
  by (simp add: closed_row_def)

text \<open>Nothing follows the end of a call.\<close>

lemma no_end_before:
  assumes "session_inv seen ended b sid" and "prefix (ws @ [w]) (spawned sid (tb_tasks b))"
  shows "WEnd r n k f \<notin> set ws"
proof -
  have o: "WEnd r n k f \<notin> set pre" if "open_writes pre" for pre
    using that by (auto simp: open_writes_def list_all_iff)
  show ?thesis
  proof (cases "sid \<in> ended")
    case True
    then obtain pre x where "spawned sid (tb_tasks b) = pre @ [x]" "open_writes pre"
      using assms(1) by (auto simp: session_inv_def Let_def closed_writes_def)
    then show ?thesis using assms(2) o [of pre] by (auto simp: prefix_def append_eq_append_conv2 append_eq_Cons_conv Cons_eq_append_conv)
  next
    case False
    then have "open_writes (spawned sid (tb_tasks b))" using assms(1) by (simp add: session_inv_def Let_def)
    then show ?thesis using o set_mono_prefix [OF assms(2)] by auto
  qed
qed

lemma db_run:
  assumes inv: "builder_inv seen ended b" and run: "may_run (tb_tasks b) i" and db: "db_inv ok b db sid"
  defines "t \<equiv> tb_tasks b ! i"
  defines "b' \<equiv> b\<lparr>tb_tasks := (tb_tasks b)[i := t\<lparr>wt_done := True\<rparr>]\<rparr>"
  shows "db_inv (ok \<and> good) b' (if good then apply_write (tb_node_id b) now (wt_session t) (wt_write t) db else db) sid"
proof -
  have co: "chained (tb_tasks b)" "in_order (tb_tasks b)" and ses: "session_inv seen ended b sid"
    using inv by (simp_all add: builder_inv_def)
  note eff = run_effect [OF co run, folded t_def]
  have sp: "opened_first sid b' = opened_first sid b" by (simp add: opened_first_def b'_def eff(3))
  have pre: "prefix (executed sid (tb_tasks b')) (spawned sid (tb_tasks b))"
    using executed_prefix [OF eff(2), of sid] by (simp add: b'_def eff(3))
  let ?db = "apply_write (tb_node_id b) now (wt_session t) (wt_write t) db"
  let ?ws = "executed sid (tb_tasks b)"
  show ?thesis
  proof (cases "wt_session t = sid")
    case False
    then have "executed sid (tb_tasks b') = ?ws" by (simp add: b'_def eff(5))
    then show ?thesis using db False sp
      by (auto simp: db_inv_def faithful_def Let_def apply_write_other closed_row_other)
  next
    case True
    then have ex: "executed sid (tb_tasks b') = ?ws @ [wt_write t]" by (simp add: b'_def eff(5))
    have sub: "subseq (turns_of sid db) (turn_pairs ?ws)" using db by (simp add: db_inv_def)
    have s1: "subseq (turns_of sid db) (turn_pairs (?ws @ [wt_write t]))"
      using list_emb_append_mono [OF sub, of "[]" "turn_pairs [wt_write t]"] by simp
    have s2: "subseq (turns_of sid ?db) (turn_pairs (?ws @ [wt_write t]))"
      using sub s1 True by (simp add: apply_write_turns list_emb_append_mono)
    have "faithful sid b' ?db" if good and ok and "opened_first sid b"
    proof -
      have f: "faithful sid b db" using db that by (simp add: db_inv_def)
      have row: "od_get (db_calls db) sid \<noteq> None \<or> is_WBegin (wt_write t)"
      proof (cases "?ws = []")
        case True
        then show ?thesis using that(3) pre ex
          by (cases "spawned sid (tb_tasks b)") (auto simp: opened_first_def)
      qed (use f in \<open>simp add: faithful_def Let_def\<close>)
      have some: "od_get (db_calls ?db) sid \<noteq> None" using apply_write_row [OF row] True by simp
      have tp: "turn_pairs [w] = []" if "is_WBegin w" for w using that by (cases w) simp_all
      have turns: "turns_of sid ?db = turn_pairs (?ws @ [wt_write t])"
        using f True row tp by (auto simp: faithful_def Let_def apply_write_turns)
      have nb: "WEnd r n k f \<notin> set ?ws" for r n k f
        using no_end_before [OF ses, of ?ws "wt_write t"] pre ex by simp
      have "closed_row sid ?db n k" if "WEnd r n k f = wt_write t" for r n k f
        using apply_write_closed [of db sid] row True that by (metis is_WBegin.simps(4))
      then show ?thesis using some turns nb ex by (auto simp: faithful_def Let_def)
    qed
    then show ?thesis using s1 s2 ex sp by (simp add: db_inv_def)
  qed
qed

section \<open>Runs\<close>

fun statement_ok :: "t_event \<Rightarrow> bool" where
  "statement_ok (RunTask i now ok) = ok"
| "statement_ok _ = True"

definition w_inv :: "string set \<Rightarrow> string set \<Rightarrow> bool \<Rightarrow> tworld \<Rightarrow> bool" where
  "w_inv seen ended ok w \<longleftrightarrow>
     builder_inv seen ended (tw_builder w) \<and> (\<forall>sid. db_inv ok (tw_builder w) (tw_db w) sid)"

lemma builder_session: "builder_inv S E b \<Longrightarrow> session_inv S E b sid"
  by (simp add: builder_inv_def)

lemma opened_first: "builder_inv S E b \<Longrightarrow> opened_first sid b"
  using builder_session [of S E b sid]
  by (cases "spawned sid (tb_tasks b)") (auto simp: opened_first_def session_inv_def Let_def split: if_splits)

lemma call_frame:
  "call_of e \<noteq> None \<Longrightarrow> tw_db (t_step e w) = tw_db w \<and>
     executed sid (tb_tasks (tw_builder (t_step e w))) = executed sid (tb_tasks (tw_builder w))"
  by (cases e)
    (auto simp: on_builder_def begin_call_def record_turn_def record_workflow_outcome_def end_call_def Let_def)

lemma db_inv_frame:
  assumes "builder_inv S E b" and "db_inv ok b db sid"
    and "executed sid (tb_tasks b') = executed sid (tb_tasks b)"
    and "turns_of sid db' = turns_of sid db"
    and "od_get (db_calls db') sid = None \<longleftrightarrow> od_get (db_calls db) sid = None"
    and "\<And>n k. closed_row sid db n k \<Longrightarrow> closed_row sid db' n k"
  shows "db_inv ok b' db' sid"
  using assms(2) opened_first [OF assms(1), of sid] assms(3-6) by (auto simp: db_inv_def faithful_def Let_def)

lemma w_call:
  assumes "w_inv seen ended ok w" and "call_of e = Some sid" and "sid \<notin> ended" and "opens_record e \<longleftrightarrow> sid \<notin> seen"
  shows "w_inv (insert sid seen) (if closes_record e then insert sid ended else ended) ok (t_step e w)"
proof -
  have b: "builder_inv seen ended (tw_builder w)" using assms(1) by (simp add: w_inv_def)
  have "call_of e \<noteq> None" using assms(2) by simp
  note fr = call_frame [OF this, of w]
  have "db_inv ok (tw_builder (t_step e w)) (tw_db (t_step e w)) s" for s
    by (rule db_inv_frame [OF b, of ok "tw_db w"]) (use assms(1) fr in \<open>auto simp: w_inv_def\<close>)
  then show ?thesis using builder_call [OF b assms(2-4), of w] by (simp add: w_inv_def)
qed

lemma w_other:
  assumes inv: "w_inv seen ended ok w" and "call_of e = None"
  shows "w_inv seen ended (ok \<and> statement_ok e) (t_step e w)"
proof -
  have b: "builder_inv seen ended (tw_builder w)" and db: "\<And>s. db_inv ok (tw_builder w) (tw_db w) s"
    using inv by (simp_all add: w_inv_def)
  have all: "\<forall>s. db_inv ok (tw_builder w) (tw_db w) s" using db by blast
  have closing: "\<forall>s. db_inv ok (tw_builder w) (close_rows reason now sel (tw_db w)) s" for reason now sel
    by (rule allI, rule db_inv_frame [OF b db]) (simp_all add: closed_row_close)
  show ?thesis
  proof (cases e)
    case (RunTask i now good)
    show ?thesis
    proof (cases "may_run (tb_tasks (tw_builder w)) i")
      case True
      then show ?thesis using builder_run [OF b True] db_run [OF b True db] RunTask
        by (simp add: w_inv_def run_task_def Let_def)
    next
      case False
      then show ?thesis using inv RunTask by (auto simp: w_inv_def db_inv_def)
    qed
  next
    case (ChainDropped i)
    have "executed s (tb_tasks (chain_dropped i (tw_builder w))) = executed s (tb_tasks (tw_builder w))" for s
      by (simp add: chain_dropped_def)
    then have "db_inv ok (chain_dropped i (tw_builder w)) (tw_db w) s" for s
      by (intro db_inv_frame [OF b db]) simp_all
    then show ?thesis using builder_callback [OF b] ChainDropped by (simp add: w_inv_def on_builder_def)
  next
    case (Heartbeat now)
    have "db_inv ok (tw_builder w) (heartbeat now (tw_builder w) (tw_db w)) s" for s
      by (rule db_inv_frame [OF b db]) (auto simp: heartbeat_def closed_row_def split: option.splits)
    then show ?thesis using b Heartbeat by (simp add: w_inv_def on_db_def)
  next
    case (ReconcileStale now)
    then show ?thesis using b closing all
      by (auto simp: w_inv_def on_db_def reconcile_stale_calls_def split: option.split)
  next
    case (ReconcileDead now window)
    then show ?thesis using b closing all by (auto simp: w_inv_def on_db_def reconcile_dead_nodes_def)
  next
    case (ReconcileInactive now window)
    then show ?thesis using b closing all by (auto simp: w_inv_def on_db_def reconcile_inactive_calls_def)
  qed (use assms(2) in simp_all)
qed

lemma w_run:
  "orderly seen ended es \<Longrightarrow> w_inv (set seen) (set ended) ok w \<Longrightarrow>
     \<exists>S E. w_inv S E (ok \<and> list_all statement_ok es) (fold t_step es w) \<and> set ended \<subseteq> E \<and>
       (\<forall>e sid. e \<in> set es \<longrightarrow> closes_record e \<longrightarrow> call_of e = Some sid \<longrightarrow> sid \<in> E)"
proof (induction seen ended es arbitrary: ok w rule: orderly.induct)
  case (1 seen ended)
  then show ?case by auto
next
  case (2 seen ended e es)
  show ?case
  proof (cases "call_of e")
    case None
    have "orderly seen ended es" using "2.prems"(1) None by simp
    from "2.IH"(1) [OF None this w_other [OF "2.prems"(2) None]] show ?thesis
      by (cases e) (use None in \<open>auto simp: conj_assoc\<close>)
  next
    case (Some sid)
    have st: "statement_ok e" using Some by (cases e) simp_all
    let ?E = "if closes_record e then sid # ended else ended"
    have o: "sid \<notin> set ended" "opens_record e \<longleftrightarrow> sid \<notin> set seen" "orderly (sid # seen) ?E es"
      using "2.prems"(1) Some by simp_all
    have "w_inv (set (sid # seen)) (set ?E) ok (t_step e w)"
      using w_call [OF "2.prems"(2) Some o(1,2)] by (cases "closes_record e") simp_all
    from "2.IH"(2) [OF Some o(3) this] show ?thesis
      using Some st by (auto split: if_splits) blast+
  qed
qed


lemma w_init: "w_inv {} {} True (tworld_init True node)"
  by (auto simp: w_inv_def tworld_init_def builder_init_def builder_inv_def chained_def in_order_def session_inv_def
      db_inv_def faithful_def turns_of_def open_writes_def numbered_def count_of_def od_get_def barges_def latest_def)



text \<open>
  The record of a closed call is complete: once its writes are done and none has failed, the
  transcript holds its turns numbered 1 to n, and the call's row carries exactly that n, the number of
  interrupted turns among them, and a time of its end, with any reconciliation before or after.
\<close>

theorem closed_call_complete:
  assumes "orderly [] [] es" and "list_all statement_ok es" and "EndCallRecord sid reason final_state \<in> set es"
    and "fold t_step es (tworld_init True node) = w" and "list_all wt_done (tb_tasks (tw_builder w))"
  shows "let ts = turns_of sid (tw_db w)
         in map fst ts = [1..<Suc (length ts)] \<and> closed_row sid (tw_db w) (length ts) (length (filter snd ts))"
proof -
  obtain S E where w: "w_inv S E True w"
    and E: "\<And>e s. e \<in> set es \<Longrightarrow> closes_record e \<Longrightarrow> call_of e = Some s \<Longrightarrow> s \<in> E"
    using w_run [OF assms(1), of True "tworld_init True node"] w_init assms(2,4) by auto
  have sid: "sid \<in> E" using E [OF assms(3)] by simp
  have b: "builder_inv S E (tw_builder w)" using w by (simp add: w_inv_def)
  let ?ws = "spawned sid (tb_tasks (tw_builder w))"
  have ex: "executed sid (tb_tasks (tw_builder w)) = ?ws"
    using assms(5) by (auto simp: executed_def spawned_def of_session_def list_all_iff intro!: arg_cong [where f = "map wt_write"] filter_cong)
  obtain pre r f where ws: "?ws = pre @ [WEnd r (length (turn_pairs pre)) (barges pre) f]" "numbered pre"
    using builder_session [OF b, of sid] sid by (auto simp: session_inv_def Let_def closed_writes_def open_writes_def)
  have "faithful sid (tw_builder w) (tw_db w)"
    using w opened_first [OF b, of sid] by (simp add: w_inv_def db_inv_def)
  then have "turns_of sid (tw_db w) = turn_pairs pre" "closed_row sid (tw_db w) (length (turn_pairs pre)) (barges pre)"
    using ws(1) by (auto simp: faithful_def Let_def ex)
  then show ?thesis using ws(2) by (simp add: Let_def numbered_def barges_def)
qed

text \<open>
  A reconciliation closes live calls only, and only those its own test finds abandoned: calls of
  the process's own former life, of a node whose heartbeat is overdue, or calls that are older than the
  window and had no turn within it; it changes nothing but end and reason, and no other step writes
  those marks.
\<close>

theorem reconcile_only_abandoned:
  assumes "od_get (db_calls (tw_db w)) sid = Some r" and "od_get (db_calls (tw_db (t_step e w))) sid = Some r'"
    and "r' \<noteq> r" and "call_of e = None"
  shows "case e of
           RunTask i now ok \<Rightarrow> may_run (tb_tasks (tw_builder w)) i \<and> wt_session (tb_tasks (tw_builder w) ! i) = sid
         | ReconcileStale now \<Rightarrow> cl_ended_at r = None \<and> cl_conv_node r = tb_node_id (tw_builder w) \<and>
             r' = r\<lparr>cl_ended_at := Some now, cl_close_reason := Some ''reconciled_stale''\<rparr>
         | ReconcileDead now window \<Rightarrow> cl_ended_at r = None \<and>
             (case cl_conv_node r of Some n \<Rightarrow> \<not> node_alive (tw_db w) now window n | None \<Rightarrow> False) \<and>
             r' = r\<lparr>cl_ended_at := Some now, cl_close_reason := Some ''reconciled_dead_node''\<rparr>
         | ReconcileInactive now window \<Rightarrow> cl_ended_at r = None \<and> cl_started_at r < now - window \<and>
             \<not> recently_active (tw_db w) now window sid \<and>
             r' = r\<lparr>cl_ended_at := Some now, cl_close_reason := Some ''reconciled_inactive''\<rparr>
         | _ \<Rightarrow> False"
proof -
  have cl: "cl_ended_at r = None \<and> sel sid r \<and> r' = r\<lparr>cl_ended_at := Some now, cl_close_reason := Some reason\<rparr>"
    if "od_get (db_calls (close_rows reason now sel (tw_db w))) sid = Some r'" for reason now sel
    using that assms(1,3) by (auto simp: close_rows_def od_get_map split: if_splits)
  show ?thesis
  proof (cases e)
    case (RunTask i now ok)
    then show ?thesis using assms(1-3)
      by (auto simp: run_task_def Let_def apply_write_other split: if_splits) (metis apply_write_other(2) option.inject)
  next
    case (ReconcileStale now)
    then show ?thesis using assms(1-3) cl [of "''reconciled_stale''" now]
      by (auto simp: on_db_def reconcile_stale_calls_def own_node_def split: option.splits if_splits)
  next
    case (ReconcileDead now window)
    then show ?thesis using assms(1-3) cl [of "''reconciled_dead_node''" now]
      by (auto simp: on_db_def reconcile_dead_nodes_def split: if_splits)
  next
    case (ReconcileInactive now window)
    then show ?thesis using assms(1-3) cl [of "''reconciled_inactive''" now]
      by (auto simp: on_db_def reconcile_inactive_calls_def split: if_splits)
  qed (use assms in \<open>auto simp: on_builder_def on_db_def heartbeat_def split: option.splits if_splits\<close>)
qed

section \<open>Two calls\<close>

definition demo_calls :: "t_event list" where
  "demo_calls =
     [BeginCall ''a'' ''t'' ''1'' [] [] [] None None, RecordTurn ''a'' ''hi'' 1 ''hello'' False None None None,
      BeginCall ''b'' ''t'' ''2'' [] [] [] None None, RecordTurn ''a'' ''bye'' 1 ''bye'' True None None None,
      RunTask 0 1 True, RunTask 2 2 True, RunTask 3 3 True, RunTask 1 4 True, EndCallRecord ''a'' ''done'' None,
      RunTask 3 5 True, RunTask 4 6 True, ChainDropped 4]"


theorem closed_call_complete_witness:
  "closed_row ''a'' (tw_db (fold t_step demo_calls (tworld_init True None))) 2 1"
proof -
  let ?w = "fold t_step demo_calls (tworld_init True None)"
  have o: "orderly [] [] demo_calls" "list_all statement_ok demo_calls" by code_simp+
  have e: "EndCallRecord ''a'' ''done'' None \<in> set demo_calls" by (simp add: demo_calls_def)
  have d: "list_all wt_done (tb_tasks (tw_builder ?w))" by code_simp
  have t: "turns_of ''a'' (tw_db ?w) = [(1, False), (2, True)]" by code_simp
  show ?thesis using closed_call_complete [OF o e refl d] by (simp add: Let_def t numeral_2_eq_2)
qed

theorem reconcile_only_abandoned_witness:
  "let w = fold t_step (take 5 demo_calls) (tworld_init True None);
       r = the (od_get (db_calls (tw_db w)) ''a'')
   in cl_ended_at r = None \<and> cl_started_at r < 100 - 30 \<and> \<not> recently_active (tw_db w) 100 30 ''a''"
proof -
  let ?w = "fold t_step (take 5 demo_calls) (tworld_init True None)"
  let ?r = "the (od_get (db_calls (tw_db ?w)) ''a'')"
  let ?r' = "the (od_get (db_calls (tw_db (t_step (ReconcileInactive 100 30) ?w))) ''a'')"
  have r: "od_get (db_calls (tw_db ?w)) ''a'' = Some ?r"
    "od_get (db_calls (tw_db (t_step (ReconcileInactive 100 30) ?w))) ''a'' = Some ?r'" by code_simp+
  have "cl_ended_at ?r = None" "cl_ended_at ?r' \<noteq> None" by code_simp+
  then have ne: "?r' \<noteq> ?r" by auto
  show ?thesis using reconcile_only_abandoned [OF r ne] by (simp only: Let_def t_event.case call_of.simps simp_thms)
qed

end
