(* ===== verification/Conversation_FSM.thy ===== *)
theory Conversation_FSM
  imports Prelude
begin

text \<open>
  The session-level state machine of the conversation service
  (\<^verbatim>\<open>services/conversation/fsm.py\<close>): the states, the table of valid transitions, the trigger
  methods with their guards, the injected callbacks, and the timeout handler.

  The machine is a record. The eight optional callbacks of \<^verbatim>\<open>ConversationFsmHandlers\<close> are
  eight flags (is the callback set?), and the callbacks that have been called, with their
  arguments, are logged in call order in the field \<open>calls\<close>. A reading of
  \<^verbatim>\<open>time.monotonic()\<close> is an argument of each trigger that can make a transition, one per
  reading; floating-point seconds are \<^typ>\<open>real\<close>. The optional logger has no effect on the state
  and is left out.
\<close>

section \<open>States, table, handlers\<close>

datatype call_fsm_state =
    IDLE | CONNECTING | LISTENING | RECOGNIZING | THINKING | SYNTHESIZING | SPEAKING
  | BARGE_IN | TRANSFERRING | RECOVERING | FINALIZING | CLOSING | CLOSED

definition valid_transitions :: "(call_fsm_state \<times> call_fsm_state) list" where
  "valid_transitions =
    [(IDLE, CONNECTING),
     (CONNECTING, LISTENING),
     (LISTENING, RECOGNIZING),
     (RECOGNIZING, THINKING),
     (THINKING, SYNTHESIZING),
     (SYNTHESIZING, SPEAKING),
     (SPEAKING, LISTENING),
     (SPEAKING, BARGE_IN),
     (BARGE_IN, LISTENING),
     (RECOGNIZING, LISTENING),
     (THINKING, LISTENING),
     (SYNTHESIZING, LISTENING),
     (LISTENING, TRANSFERRING),
     (RECOGNIZING, TRANSFERRING),
     (THINKING, TRANSFERRING),
     (SYNTHESIZING, TRANSFERRING),
     (SPEAKING, TRANSFERRING),
     (TRANSFERRING, CLOSING),
     (TRANSFERRING, FINALIZING),
     (FINALIZING, CLOSING),
     (TRANSFERRING, RECOVERING),
     (RECOVERING, SPEAKING),
     (CONNECTING, CLOSING),
     (LISTENING, CLOSING),
     (RECOGNIZING, CLOSING),
     (THINKING, CLOSING),
     (SYNTHESIZING, CLOSING),
     (SPEAKING, CLOSING),
     (BARGE_IN, CLOSING),
     (RECOVERING, CLOSING),
     (CLOSING, CLOSED)]"

definition valid :: "call_fsm_state \<Rightarrow> call_fsm_state \<Rightarrow> bool" where
  "valid a b \<longleftrightarrow> (a, b) \<in> set valid_transitions"

datatype callback =
    StateChanged call_fsm_state call_fsm_state string real
  | SpeechStarted real
  | SpeechEnded int real
  | SttFinal string real
  | PlaybackFinished bool
  | TransferRequested string string
  | TransferCompleted bool string
  | SessionClose string

record fsm_handlers =
  h_state_changed :: bool
  h_speech_started :: bool
  h_speech_ended :: bool
  h_stt_final :: bool
  h_playback_finished :: bool
  h_transfer_requested :: bool
  h_transfer_completed :: bool
  h_session_close :: bool

record fsm =
  handlers :: fsm_handlers
  state :: call_fsm_state
  state_entered :: real
  transition_count :: nat
  calls :: "callback list"

definition fsm_init :: "fsm_handlers \<Rightarrow> real \<Rightarrow> fsm" where
  "fsm_init h now =
     \<lparr>handlers = h, state = IDLE, state_entered = now, transition_count = 0, calls = []\<rparr>"

definition is_terminal :: "fsm \<Rightarrow> bool" where
  "is_terminal f \<longleftrightarrow> state f = CLOSED"

definition can_accept_audio :: "fsm \<Rightarrow> bool" where
  "can_accept_audio f \<longleftrightarrow> state f \<in> {LISTENING, RECOGNIZING, SPEAKING, BARGE_IN}"

definition is_active :: "fsm \<Rightarrow> bool" where
  "is_active f \<longleftrightarrow> state f \<notin> {IDLE, CLOSING, CLOSED}"

definition state_name :: "call_fsm_state \<Rightarrow> string" where
  "state_name s = (case s of
      IDLE \<Rightarrow> ''idle'' | CONNECTING \<Rightarrow> ''connecting'' | LISTENING \<Rightarrow> ''listening''
    | RECOGNIZING \<Rightarrow> ''recognizing'' | THINKING \<Rightarrow> ''thinking''
    | SYNTHESIZING \<Rightarrow> ''synthesizing'' | SPEAKING \<Rightarrow> ''speaking'' | BARGE_IN \<Rightarrow> ''barge_in''
    | TRANSFERRING \<Rightarrow> ''transferring'' | RECOVERING \<Rightarrow> ''recovering''
    | FINALIZING \<Rightarrow> ''finalizing'' | CLOSING \<Rightarrow> ''closing'' | CLOSED \<Rightarrow> ''closed'')"

section \<open>Calling a handler, making a transition\<close>

text \<open>\<^verbatim>\<open>if self._handlers.on_x: self._handlers.on_x(...)\<close>.\<close>

definition call_if :: "(fsm_handlers \<Rightarrow> bool) \<Rightarrow> callback \<Rightarrow> fsm \<Rightarrow> fsm" where
  "call_if h c f = (if h (handlers f) then f\<lparr>calls := calls f @ [c]\<rparr> else f)"

definition transition :: "call_fsm_state \<Rightarrow> string \<Rightarrow> real \<Rightarrow> fsm \<Rightarrow> fsm" where
  "transition next_state trigger now f =
     (let prev = state f in
      if \<not> valid prev next_state then f
      else
        let duration_ms = (now - state_entered f) * 1000;
            f1 = f\<lparr>state := next_state, state_entered := now,
                   transition_count := Suc (transition_count f)\<rparr>
        in call_if h_state_changed (StateChanged prev next_state trigger duration_ms) f1)"

section \<open>Trigger methods\<close>

definition on_session_start :: "real \<Rightarrow> fsm \<Rightarrow> fsm" where
  "on_session_start now f = transition CONNECTING ''session_start'' now f"

definition on_service_ready :: "real \<Rightarrow> fsm \<Rightarrow> fsm" where
  "on_service_ready now f =
     (if state f \<noteq> CONNECTING then f else transition LISTENING ''service_ready'' now f)"

definition on_speech_started :: "real \<Rightarrow> real \<Rightarrow> fsm \<Rightarrow> fsm" where
  "on_speech_started energy_db now f =
     (if state f \<noteq> LISTENING then f
      else call_if h_speech_started (SpeechStarted energy_db)
             (transition RECOGNIZING ''speech_started'' now f))"

definition on_speech_ended :: "int \<Rightarrow> real \<Rightarrow> fsm \<Rightarrow> fsm" where
  "on_speech_ended duration_ms energy_db f =
     (if state f \<noteq> RECOGNIZING then f
      else call_if h_speech_ended (SpeechEnded duration_ms energy_db) f)"

definition on_stt_final :: "string \<Rightarrow> real \<Rightarrow> real \<Rightarrow> fsm \<Rightarrow> fsm" where
  "on_stt_final txt confidence now f =
     (if state f \<noteq> RECOGNIZING then f
      else call_if h_stt_final (SttFinal txt confidence)
             (transition THINKING ''stt_final'' now f))"

definition on_text_ready :: "real \<Rightarrow> fsm \<Rightarrow> fsm" where
  "on_text_ready now f =
     (if state f \<noteq> THINKING then f else transition SYNTHESIZING ''text_ready'' now f)"

definition on_first_audio_chunk :: "real \<Rightarrow> fsm \<Rightarrow> fsm" where
  "on_first_audio_chunk now f =
     (if state f \<noteq> SYNTHESIZING then f else transition SPEAKING ''first_audio_chunk'' now f)"

definition on_playback_finished :: "bool \<Rightarrow> real \<Rightarrow> fsm \<Rightarrow> fsm" where
  "on_playback_finished interrupted now f =
     (if state f \<noteq> SPEAKING then f
      else if interrupted then transition BARGE_IN ''playback_interrupted'' now f
      else call_if h_playback_finished (PlaybackFinished False)
             (transition LISTENING ''playback_finished'' now f))"

definition on_cancel_complete :: "real \<Rightarrow> fsm \<Rightarrow> fsm" where
  "on_cancel_complete now f =
     (if state f \<noteq> BARGE_IN then f
      else call_if h_playback_finished (PlaybackFinished True)
             (transition LISTENING ''cancel_complete'' now f))"

definition on_cancel :: "real \<Rightarrow> real \<Rightarrow> fsm \<Rightarrow> fsm" where
  "on_cancel now1 now2 f =
     (if state f = SPEAKING then
        call_if h_playback_finished (PlaybackFinished True)
          (transition LISTENING ''cancel_complete'' now2
            (transition BARGE_IN ''barge_in'' now1 f))
      else if state f \<in> {RECOGNIZING, THINKING, SYNTHESIZING} then
        transition LISTENING ''barge_in_cancel'' now1 f
      else f)"

definition on_transfer_requested :: "string \<Rightarrow> string \<Rightarrow> real \<Rightarrow> fsm \<Rightarrow> fsm" where
  "on_transfer_requested queue_id reason now f =
     (if \<not> is_active f then f
      else transition TRANSFERRING ''transfer_requested'' now
             (call_if h_transfer_requested (TransferRequested queue_id reason) f))"

definition on_transfer_completed :: "bool \<Rightarrow> string \<Rightarrow> real \<Rightarrow> fsm \<Rightarrow> fsm" where
  "on_transfer_completed success transfer_id now f =
     (if state f \<noteq> TRANSFERRING then f
      else
        let f1 = call_if h_transfer_completed (TransferCompleted success transfer_id) f
        in if success then transition FINALIZING ''transfer_completed'' now f1
           else transition CLOSING ''transfer_failed'' now f1)"

definition on_session_finalized :: "real \<Rightarrow> fsm \<Rightarrow> fsm" where
  "on_session_finalized now f =
     (if state f \<noteq> FINALIZING then f else transition CLOSING ''session_finalized'' now f)"

definition on_transfer_failed_event :: "string \<Rightarrow> real \<Rightarrow> fsm \<Rightarrow> fsm" where
  "on_transfer_failed_event reason now f =
     (if state f \<noteq> TRANSFERRING then f else transition RECOVERING ''transfer_failed'' now f)"

definition on_recovery_response_ready :: "real \<Rightarrow> fsm \<Rightarrow> fsm" where
  "on_recovery_response_ready now f =
     (if state f \<noteq> RECOVERING then f else transition SPEAKING ''recovery_response_ready'' now f)"

definition on_session_close :: "string \<Rightarrow> real \<Rightarrow> fsm \<Rightarrow> fsm" where
  "on_session_close reason now f =
     (if state f \<in> {CLOSING, CLOSED} then f
      else transition CLOSING reason now (call_if h_session_close (SessionClose reason) f))"

definition on_close_acknowledged :: "real \<Rightarrow> fsm \<Rightarrow> fsm" where
  "on_close_acknowledged now f =
     (if state f \<noteq> CLOSING then f else transition CLOSED ''close_acknowledged'' now f)"

definition recoverable :: "call_fsm_state \<Rightarrow> string option" where
  "recoverable s = (case s of
      RECOGNIZING \<Rightarrow> Some ''stt_timeout''
    | THINKING \<Rightarrow> Some ''llm_timeout''
    | SYNTHESIZING \<Rightarrow> Some ''tts_timeout''
    | _ \<Rightarrow> None)"

definition terminal :: "call_fsm_state \<Rightarrow> string option" where
  "terminal s = (case s of
      CONNECTING \<Rightarrow> Some ''connection_timeout''
    | LISTENING \<Rightarrow> Some ''no_speech_timeout''
    | SPEAKING \<Rightarrow> Some ''playback_timeout''
    | TRANSFERRING \<Rightarrow> Some ''transfer_timeout''
    | _ \<Rightarrow> None)"

definition on_timeout :: "call_fsm_state \<Rightarrow> real \<Rightarrow> fsm \<Rightarrow> fsm" where
  "on_timeout s now f =
     (if state f \<noteq> s then f
      else case recoverable s of
        Some trigger \<Rightarrow> transition LISTENING trigger now f
      | None \<Rightarrow>
         (case terminal s of
            Some reason \<Rightarrow> on_session_close reason now f
          | None \<Rightarrow>
             if s = BARGE_IN then on_cancel_complete now f
             else if s = CLOSING then transition CLOSED ''close_timeout_forced'' now f
             else f))"

section \<open>Runs\<close>

text \<open>One constructor per trigger method, with its arguments and its clock readings.\<close>

datatype fsm_event =
    SessionStart real
  | ServiceReady real
  | SpeechStart real real
  | SpeechEnd int real
  | SttResult string real real
  | TextReady real
  | FirstAudioChunk real
  | PlaybackDone bool real
  | CancelComplete real
  | Cancel real real
  | RequestTransfer string string real
  | CompleteTransfer bool string real
  | SessionFinalized real
  | TransferFailedEvent string real
  | RecoveryResponseReady real
  | CloseSession string real
  | CloseAcknowledged real
  | Timeout call_fsm_state real

fun fsm_step :: "fsm_event \<Rightarrow> fsm \<Rightarrow> fsm" where
  "fsm_step (SessionStart t) f = on_session_start t f"
| "fsm_step (ServiceReady t) f = on_service_ready t f"
| "fsm_step (SpeechStart e t) f = on_speech_started e t f"
| "fsm_step (SpeechEnd d e) f = on_speech_ended d e f"
| "fsm_step (SttResult x c t) f = on_stt_final x c t f"
| "fsm_step (TextReady t) f = on_text_ready t f"
| "fsm_step (FirstAudioChunk t) f = on_first_audio_chunk t f"
| "fsm_step (PlaybackDone i t) f = on_playback_finished i t f"
| "fsm_step (CancelComplete t) f = on_cancel_complete t f"
| "fsm_step (Cancel t u) f = on_cancel t u f"
| "fsm_step (RequestTransfer q r t) f = on_transfer_requested q r t f"
| "fsm_step (CompleteTransfer s i t) f = on_transfer_completed s i t f"
| "fsm_step (SessionFinalized t) f = on_session_finalized t f"
| "fsm_step (TransferFailedEvent r t) f = on_transfer_failed_event r t f"
| "fsm_step (RecoveryResponseReady t) f = on_recovery_response_ready t f"
| "fsm_step (CloseSession r t) f = on_session_close r t f"
| "fsm_step (CloseAcknowledged t) f = on_close_acknowledged t f"
| "fsm_step (Timeout s t) f = on_timeout s t f"

text \<open>The transitions that the log of callbacks reports, in order.\<close>

fun reported :: "callback list \<Rightarrow> (call_fsm_state \<times> call_fsm_state) list" where
  "reported [] = []"
| "reported (StateChanged a b _ _ # cs) = (a, b) # reported cs"
| "reported (_ # cs) = reported cs"

text \<open>A list of moves that starts in one state, ends in another and joins up in between.\<close>

fun walk :: "call_fsm_state \<Rightarrow> (call_fsm_state \<times> call_fsm_state) list \<Rightarrow> call_fsm_state \<Rightarrow> bool" where
  "walk a [] b = (a = b)"
| "walk a ((x, y) # ps) b = (a = x \<and> valid x y \<and> walk y ps b)"


text \<open>The durations that the log reports, added up.\<close>

fun reported_ms :: "callback list \<Rightarrow> real" where
  "reported_ms [] = 0"
| "reported_ms (StateChanged _ _ _ ms # cs) = ms + reported_ms cs"
| "reported_ms (_ # cs) = reported_ms cs"

text \<open>
  What the machine promises, on states alone: one row per trigger, with the states from which the
  trigger does something and where it leads. Everything not listed leaves the state as it is.
\<close>

definition spec_next :: "fsm_event \<Rightarrow> call_fsm_state \<Rightarrow> call_fsm_state" where
  "spec_next e s =
    (case e of
       SessionStart _ \<Rightarrow> if s = IDLE then CONNECTING else s
     | ServiceReady _ \<Rightarrow> if s = CONNECTING then LISTENING else s
     | SpeechStart _ _ \<Rightarrow> if s = LISTENING then RECOGNIZING else s
     | SpeechEnd _ _ \<Rightarrow> s
     | SttResult _ _ _ \<Rightarrow> if s = RECOGNIZING then THINKING else s
     | TextReady _ \<Rightarrow> if s = THINKING then SYNTHESIZING else s
     | FirstAudioChunk _ \<Rightarrow> if s = SYNTHESIZING then SPEAKING else s
     | PlaybackDone i _ \<Rightarrow> if s = SPEAKING then (if i then BARGE_IN else LISTENING) else s
     | CancelComplete _ \<Rightarrow> if s = BARGE_IN then LISTENING else s
     | Cancel _ _ \<Rightarrow> if s \<in> {RECOGNIZING, THINKING, SYNTHESIZING, SPEAKING} then LISTENING else s
     | RequestTransfer _ _ _ \<Rightarrow>
         if s \<in> {LISTENING, RECOGNIZING, THINKING, SYNTHESIZING, SPEAKING} then TRANSFERRING else s
     | CompleteTransfer ok _ _ \<Rightarrow>
         if s = TRANSFERRING then (if ok then FINALIZING else CLOSING) else s
     | SessionFinalized _ \<Rightarrow> if s = FINALIZING then CLOSING else s
     | TransferFailedEvent _ _ \<Rightarrow> if s = TRANSFERRING then RECOVERING else s
     | RecoveryResponseReady _ \<Rightarrow> if s = RECOVERING then SPEAKING else s
     | CloseSession _ _ \<Rightarrow> if s \<in> {IDLE, CLOSED} then s else CLOSING
     | CloseAcknowledged _ \<Rightarrow> if s = CLOSING then CLOSED else s
     | Timeout u _ \<Rightarrow>
         if s \<noteq> u then s
         else if s \<in> {RECOGNIZING, THINKING, SYNTHESIZING, BARGE_IN} then LISTENING
         else if s \<in> {CONNECTING, LISTENING, SPEAKING, TRANSFERRING} then CLOSING
         else if s = CLOSING then CLOSED
         else s)"

text \<open>A machine with every callback set, in a given state, for the concrete examples below.\<close>

definition all_handlers :: fsm_handlers where
  "all_handlers = \<lparr>h_state_changed = True, h_speech_started = True, h_speech_ended = True,
     h_stt_final = True, h_playback_finished = True, h_transfer_requested = True,
     h_transfer_completed = True, h_session_close = True\<rparr>"

definition fsm_at :: "call_fsm_state \<Rightarrow> fsm" where
  "fsm_at s = (fsm_init all_handlers 0)\<lparr>state := s\<rparr>"

section \<open>Lemmas\<close>

lemmas trigger_defs [fsm_simps] =
  on_session_start_def on_service_ready_def on_speech_started_def on_speech_ended_def
  on_stt_final_def on_text_ready_def on_first_audio_chunk_def on_playback_finished_def
  on_cancel_complete_def on_cancel_def on_transfer_requested_def on_transfer_completed_def
  on_session_finalized_def on_transfer_failed_event_def on_recovery_response_ready_def
  on_session_close_def on_close_acknowledged_def on_timeout_def

text \<open>The table read off as equations.\<close>

lemma valid_iff [fsm_simps]:
  "valid a b \<longleftrightarrow> b \<in> (case a of
      IDLE \<Rightarrow> {CONNECTING}
    | CONNECTING \<Rightarrow> {LISTENING, CLOSING}
    | LISTENING \<Rightarrow> {RECOGNIZING, TRANSFERRING, CLOSING}
    | RECOGNIZING \<Rightarrow> {THINKING, LISTENING, TRANSFERRING, CLOSING}
    | THINKING \<Rightarrow> {SYNTHESIZING, LISTENING, TRANSFERRING, CLOSING}
    | SYNTHESIZING \<Rightarrow> {SPEAKING, LISTENING, TRANSFERRING, CLOSING}
    | SPEAKING \<Rightarrow> {LISTENING, BARGE_IN, TRANSFERRING, CLOSING}
    | BARGE_IN \<Rightarrow> {LISTENING, CLOSING}
    | TRANSFERRING \<Rightarrow> {CLOSING, FINALIZING, RECOVERING}
    | RECOVERING \<Rightarrow> {SPEAKING, CLOSING}
    | FINALIZING \<Rightarrow> {CLOSING}
    | CLOSING \<Rightarrow> {CLOSED}
    | CLOSED \<Rightarrow> {})"
  by (cases a; cases b; simp add: valid_def valid_transitions_def)

lemma state_call_if [simp]: "state (call_if h c f) = state f"
  by (simp add: call_if_def)

lemma handlers_call_if [simp]: "handlers (call_if h c f) = handlers f"
  by (simp add: call_if_def)

lemma state_transition [simp]:
  "state (transition n tr now f) = (if valid (state f) n then n else state f)"
  by (simp add: transition_def call_if_def Let_def)

lemma handlers_transition [simp]: "handlers (transition n tr now f) = handlers f"
  by (simp add: transition_def call_if_def Let_def)

lemma reported_append: "reported (xs @ ys) = reported xs @ reported ys"
  by (induction xs rule: reported.induct) auto

lemma reported_ms_append: "reported_ms (xs @ ys) = reported_ms xs + reported_ms ys"
  by (induction xs rule: reported_ms.induct) auto

lemma walk_append: "walk a ps b \<Longrightarrow> walk b qs c \<Longrightarrow> walk a (ps @ qs) c"
  by (induction a ps b rule: walk.induct) auto

text \<open>
  \<open>advances f g\<close>: from \<open>f\<close> to \<open>g\<close> the machine made a walk in the table, counted it, and, when the
  observer is set, reported exactly that walk with durations that add up to the time that passed.
\<close>

definition advances :: "fsm \<Rightarrow> fsm \<Rightarrow> bool" where
  "advances f g \<longleftrightarrow>
     (\<exists>ps cs. walk (state f) ps (state g) \<and>
        transition_count g = transition_count f + length ps \<and>
        handlers g = handlers f \<and> calls g = calls f @ cs \<and>
        (h_state_changed (handlers f) \<longrightarrow>
           reported cs = ps \<and> reported_ms cs = (state_entered g - state_entered f) * 1000))"

lemma advances_refl [simp]: "advances f f"
  unfolding advances_def by (rule exI [of _ "[]"], rule exI [of _ "[]"]) simp

lemma advances_trans:
  assumes "advances f g" and "advances g h"
  shows "advances f h"
proof -
  obtain ps cs where 1: "walk (state f) ps (state g)"
    "transition_count g = transition_count f + length ps" "handlers g = handlers f"
    "calls g = calls f @ cs"
    "h_state_changed (handlers f) \<longrightarrow>
       reported cs = ps \<and> reported_ms cs = (state_entered g - state_entered f) * 1000"
    using assms(1) unfolding advances_def by blast
  obtain qs ds where 2: "walk (state g) qs (state h)"
    "transition_count h = transition_count g + length qs" "handlers h = handlers g"
    "calls h = calls g @ ds"
    "h_state_changed (handlers g) \<longrightarrow>
       reported ds = qs \<and> reported_ms ds = (state_entered h - state_entered g) * 1000"
    using assms(2) unfolding advances_def by blast
  have "walk (state f) (ps @ qs) (state h)" using 1(1) 2(1) by (rule walk_append)
  moreover have "h_state_changed (handlers f) \<longrightarrow> reported (cs @ ds) = ps @ qs \<and>
      reported_ms (cs @ ds) = (state_entered h - state_entered f) * 1000"
    using 1(3,5) 2(5) by (auto simp: reported_append reported_ms_append algebra_simps)
  ultimately show ?thesis
    unfolding advances_def using 1 2
    by (intro exI [of _ "ps @ qs"] exI [of _ "cs @ ds"]) simp
qed

lemma advances_call_if:
  assumes "reported [c] = []" and "reported_ms [c] = 0"
  shows "advances f (call_if h c f)"
proof (cases "h (handlers f)")
  case True
  then show ?thesis unfolding advances_def
    by (intro exI [of _ "[]"] exI [of _ "[c]"]) (simp add: call_if_def assms)
next
  case False
  then show ?thesis by (simp add: call_if_def)
qed

lemma advances_transition: "advances f (transition n tr now f)"
proof (cases "valid (state f) n")
  case True
  show ?thesis
  proof (cases "h_state_changed (handlers f)")
    case h: True
    with True show ?thesis unfolding advances_def
      by (intro exI [of _ "[(state f, n)]"]
          exI [of _ "[StateChanged (state f) n tr ((now - state_entered f) * 1000)]"])
        (simp add: transition_def call_if_def Let_def)
  next
    case False
    with True show ?thesis unfolding advances_def
      by (intro exI [of _ "[(state f, n)]"] exI [of _ "[]"])
        (simp add: transition_def call_if_def Let_def)
  qed
next
  case False
  then show ?thesis by (simp add: transition_def)
qed

lemma advances_call_transition:
  "reported [c] = [] \<Longrightarrow> reported_ms [c] = 0 \<Longrightarrow> advances f (call_if h c (transition n tr now f))"
  using advances_transition advances_call_if advances_trans by blast

lemma advances_transition_call:
  "reported [c] = [] \<Longrightarrow> reported_ms [c] = 0 \<Longrightarrow> advances f (transition n tr now (call_if h c f))"
  using advances_transition advances_call_if advances_trans by blast

lemmas advances_intros =
  advances_refl advances_transition advances_call_if advances_call_transition
  advances_transition_call

lemma on_session_close_advances: "advances f (on_session_close r t f)"
  by (simp add: on_session_close_def advances_intros)

lemma on_cancel_complete_advances: "advances f (on_cancel_complete t f)"
  by (simp add: on_cancel_complete_def advances_intros)

lemma on_cancel_advances: "advances f (on_cancel t u f)"
proof -
  have "advances f (call_if h_playback_finished (PlaybackFinished True)
          (transition LISTENING ''cancel_complete'' u (transition BARGE_IN ''barge_in'' t f)))"
    by (rule advances_trans [OF advances_transition [of f BARGE_IN "''barge_in''" t]])
      (simp add: advances_intros)
  then show ?thesis by (simp add: on_cancel_def advances_intros)
qed

lemma on_timeout_advances: "advances f (on_timeout s t f)"
  by (simp add: on_timeout_def advances_transition on_session_close_advances
      on_cancel_complete_advances split: option.splits)

lemma fsm_step_advances: "advances f (fsm_step e f)"
  by (cases e)
    (simp_all add: on_session_close_advances on_cancel_complete_advances on_cancel_advances
      on_timeout_advances on_session_start_def on_service_ready_def on_speech_started_def
      on_speech_ended_def on_stt_final_def on_text_ready_def on_first_audio_chunk_def
      on_playback_finished_def on_transfer_requested_def on_transfer_completed_def
      on_session_finalized_def on_transfer_failed_event_def on_recovery_response_ready_def
      on_close_acknowledged_def Let_def advances_intros)

interpretation fsm_machine: event_machine "fsm_init h t0" fsm_step "advances (fsm_init h t0)"
  by unfold_locales (simp, rule advances_trans, assumption, rule fsm_step_advances)

section \<open>Properties\<close>

text \<open>
  C38. After any sequence of triggers the transitions reported to the observer form a walk in the
  table of valid transitions, from \<open>IDLE\<close> to the current state, one report per counted transition:
  no trigger moves the machine silently or along a transition that is not in the table.
\<close>

theorem fsm_reports_valid_walk:
  assumes "h_state_changed h"
  shows "let f = fold fsm_step es (fsm_init h t0) in
           walk IDLE (reported (calls f)) (state f) \<and>
           length (reported (calls f)) = transition_count f"
  using fsm_machine.inv_run [of h t0 es] assms
  unfolding advances_def by (auto simp: fsm_init_def Let_def)


theorem fsm_reports_valid_walk_witness:
  "let f = fold fsm_step [SessionStart 1, ServiceReady 2, SpeechStart 0 3, CloseSession ''x'' 4]
             (fsm_init all_handlers 0)
   in walk IDLE (reported (calls f)) (state f) \<and> length (reported (calls f)) = transition_count f"
  by (rule fsm_reports_valid_walk) (simp add: all_handlers_def)

text \<open>
  The durations handed to the observer add up to the time between construction and the entry
  into the current state, whatever triggers fired: no interval is lost or counted twice.
\<close>

theorem fsm_durations_add_up:
  assumes "h_state_changed h"
  shows "let f = fold fsm_step es (fsm_init h t0) in
           reported_ms (calls f) = (state_entered f - t0) * 1000"
  using fsm_machine.inv_run [of h t0 es] assms
  unfolding advances_def by (auto simp: fsm_init_def Let_def)

theorem fsm_durations_add_up_witness:
  "let f = fold fsm_step [SessionStart 1, ServiceReady 3, SpeechStart 0 7]
             (fsm_init all_handlers 0)
   in reported_ms (calls f) = (state_entered f - 0) * 1000"
  by (rule fsm_durations_add_up) (simp add: all_handlers_def)

text \<open>
  The trigger methods implement the state table \<open>spec_next\<close>: on every trigger and from every
  state, guards and the transition table together move the machine exactly where the
  specification says, and nowhere else.
\<close>

theorem fsm_step_refines_spec: "state (fsm_step e f) = spec_next e (state f)"
  by (cases e)
    (simp_all add: spec_next_def fsm_simps is_active_def Let_def recoverable_def terminal_def
      split: call_fsm_state.splits)

text \<open>
  \<open>CLOSED\<close> is final: every trigger then leaves the whole machine unchanged, so no callback
  fires and no duration is reported after the call has closed.
\<close>

theorem closed_is_final:
  assumes "state f = CLOSED"
  shows "fold fsm_step es f = f"
proof -
  have "fsm_step e f = f" for e
    using assms
    by (cases e) (simp_all add: fsm_simps transition_def is_active_def recoverable_def terminal_def)
  then show ?thesis by (induction es) simp_all
qed

theorem closed_is_final_witness:
  "fold fsm_step [SessionStart 1, Timeout CLOSED 2, RequestTransfer ''q'' ''r'' 3]
     (fsm_at CLOSED) =
   fsm_at CLOSED"
  by (rule closed_is_final) (simp add: fsm_at_def)

text \<open>
  A started session can always be torn down: from every state but \<open>IDLE\<close> a close request
  followed by the acknowledgement (or by the forced close of the timer) ends in \<open>CLOSED\<close>.
\<close>

theorem session_can_close:
  assumes "state f \<noteq> IDLE"
  shows "state (on_close_acknowledged t2 (on_session_close r t1 f)) = CLOSED \<and>
         state (on_timeout CLOSING t2 (on_session_close r t1 f)) = CLOSED"
  using assms
  by (simp add: fsm_simps recoverable_def terminal_def split: call_fsm_state.splits)

theorem session_can_close_witness:
  "state (on_close_acknowledged 5 (on_session_close ''bye'' 4 (fsm_at RECOVERING))) = CLOSED \<and>
   state (on_timeout CLOSING 5 (on_session_close ''bye'' 4 (fsm_at RECOVERING))) = CLOSED"
  by (rule session_can_close) (simp add: fsm_at_def)

text \<open>
  The timer of the current state moves the machine on in every state except \<open>IDLE\<close>,
  \<open>RECOVERING\<close>, \<open>FINALIZING\<close> and \<open>CLOSED\<close>: in those four it is ignored altogether, so the wait for
  the apology of a failed transfer and the wait for the finalizer have no timeout of their own
  here. A timer of another state is stale and always ignored.
\<close>

theorem timeout_makes_progress:
  "(state (on_timeout (state f) now f) = state f) =
     (state f \<in> {IDLE, RECOVERING, FINALIZING, CLOSED}) \<and>
   (state f \<in> {IDLE, RECOVERING, FINALIZING, CLOSED} \<or> s \<noteq> state f \<longrightarrow>
     on_timeout s now f = f)"
  by (cases "state f"; cases s; simp add: fsm_simps recoverable_def terminal_def)

theorem timeout_makes_progress_witness:
  "on_timeout RECOVERING 9 (fsm_at RECOVERING) = fsm_at RECOVERING"
  using timeout_makes_progress [of "fsm_at RECOVERING" 9 RECOVERING] by (simp add: fsm_at_def)

text \<open>
  A transfer request is announced to its handler in every active state, but it is carried out
  only from the five states of an ordinary turn. In \<open>CONNECTING\<close>, \<open>BARGE_IN\<close>, \<open>TRANSFERRING\<close>,
  \<open>RECOVERING\<close> and \<open>FINALIZING\<close> the announcement is made and the machine stays where it is.
\<close>

theorem transfer_request_announced:
  assumes "is_active f" and "h_transfer_requested (handlers f)"
  shows "TransferRequested q r \<in> set (calls (on_transfer_requested q r now f)) \<and>
         state (on_transfer_requested q r now f) =
           (if state f \<in> {LISTENING, RECOGNIZING, THINKING, SYNTHESIZING, SPEAKING}
            then TRANSFERRING else state f)"
proof
  show "TransferRequested q r \<in> set (calls (on_transfer_requested q r now f))"
    using assms by (simp add: on_transfer_requested_def transition_def call_if_def Let_def)
  show "state (on_transfer_requested q r now f) =
           (if state f \<in> {LISTENING, RECOGNIZING, THINKING, SYNTHESIZING, SPEAKING}
            then TRANSFERRING else state f)"
    using assms(1)
    by (simp add: on_transfer_requested_def fsm_simps is_active_def split: call_fsm_state.splits)
qed

theorem transfer_request_announced_witness:
  "TransferRequested ''sales'' ''asked'' \<in>
     set (calls (on_transfer_requested ''sales'' ''asked'' 3 (fsm_at BARGE_IN))) \<and>
   state (on_transfer_requested ''sales'' ''asked'' 3 (fsm_at BARGE_IN)) = BARGE_IN"
  using transfer_request_announced [of "fsm_at BARGE_IN" "''sales''" "''asked''" 3]
  by (simp add: fsm_at_def fsm_init_def all_handlers_def is_active_def)

end
