(* ===== verification/Directives.thy ===== *)
theory Directives
  imports Prelude
begin

text \<open>
  Control tags in the text that the language model streams
  (\<^verbatim>\<open>services/conversation/directives.py\<close>): \<open>StreamBuffer\<close>, which holds an unfinished
  \<^verbatim>\<open>[[...]]\<close> back until it is complete, and \<open>DirectiveParser\<close>, which takes complete tags out of
  the text and turns them into directives.

  The two regular expressions are modelled as scanners. For both, what follows a greedy run is a
  character the run cannot contain, so that backtracking never finds another match and the scanner
  reads off the one match the expression has at a position.
\<close>

section \<open>Directives\<close>

datatype transfer_type = WARM | COLD | NONE

definition coerce_transfer_type :: "string \<Rightarrow> transfer_type" where
  "coerce_transfer_type raw =
     (if raw = ''warm'' then WARM else if raw = ''cold'' then COLD
      else if raw = ''none'' then NONE else NONE)"

definition transfer_type_value :: "transfer_type \<Rightarrow> string" where
  "transfer_type_value t = (case t of WARM \<Rightarrow> ''warm'' | COLD \<Rightarrow> ''cold'' | NONE \<Rightarrow> ''none'')"

datatype directive =
    EndCallDirective
  | TransferDirective transfer_type string string
  | UnknownDirective string "(string, string) odict"

record directive_result =
  clean_text :: string
  directives :: "directive list"

record transfer_request =
  tr_session_id :: string
  tr_tenant_id :: string
  tr_call_id :: string
  tr_transfer_type :: transfer_type
  tr_destination :: string
  tr_reason :: string
  tr_trigger :: string
  tr_transfer_id :: string
  tr_caller_id :: string
  tr_waiting_experience :: string

definition markdown_char :: "char \<Rightarrow> bool" where
  "markdown_char c \<longleftrightarrow> c \<in> set ''*_`#''"

definition strip_markdown_chars :: "string \<Rightarrow> string" where
  "strip_markdown_chars s = filter (\<lambda>c. \<not> markdown_char c) s"

section \<open>StreamBuffer\<close>

text \<open>
  The state is the pending tail. \<open>feed pending chunk\<close> returns the text that is now safe to parse
  and the new tail.
\<close>

definition feed :: "string \<Rightarrow> string \<Rightarrow> string \<times> string" where
  "feed pending0 chunk =
     (let pending = pending0 @ chunk in
      case py_rfind ''[['' pending of
        Some last_open \<Rightarrow>
          if \<not> py_in '']]'' (drop last_open pending)
          then (take last_open pending, drop last_open pending)
          else (pending, [])
      | None \<Rightarrow> (pending, []))"

definition flush :: "string \<Rightarrow> string \<times> string" where
  "flush pending = (pending, [])"

text \<open>A whole stream: the safe pieces in order, then what the flush returns.\<close>

fun stream_pieces :: "string \<Rightarrow> string list \<Rightarrow> string list" where
  "stream_pieces pending [] = [fst (flush pending)]"
| "stream_pieces pending (c # cs) =
     (case feed pending c of (safe, pending') \<Rightarrow> safe # stream_pieces pending' cs)"

section \<open>DirectiveParser\<close>

text \<open>\<^verbatim>\<open>[A-Z_]\<close> and \<^verbatim>\<open>\w\<close> (on Latin-1).\<close>

definition tag_name_char :: "char \<Rightarrow> bool" where
  "tag_name_char c \<longleftrightarrow> ascii_upper c \<or> c = CHR ''_''"

definition word_char :: "char \<Rightarrow> bool" where
  "word_char c \<longleftrightarrow>
     (let n = (of_char c :: nat) in
        ascii_upper c \<or> ascii_lower c \<or> ascii_digit c \<or> c = CHR ''_'' \<or>
        n \<in> {170, 178, 179, 181, 185, 186, 188, 189, 190} \<or>
        (192 \<le> n \<and> n \<noteq> 215 \<and> n \<noteq> 247))"

text \<open>
  One match of \<^verbatim>\<open>\[\[(?P<name>[A-Z_]+)(?P<attrs>[^\]]*)\]\]\<close> at the start of the text: the name,
  the attribute text and what follows the tag.
\<close>

definition match_tag :: "string \<Rightarrow> (string \<times> string \<times> string) option" where
  "match_tag s =
     (if starts_with ''[['' s then
        let body = drop 2 s;
            name = takeWhile tag_name_char body;
            after_name = dropWhile tag_name_char body;
            attrs = takeWhile (\<lambda>c. c \<noteq> CHR '']'') after_name;
            after = dropWhile (\<lambda>c. c \<noteq> CHR '']'') after_name
        in if name \<noteq> [] \<and> starts_with '']]'' after then Some (name, attrs, drop 2 after) else None
      else None)"

text \<open>One match of \<^verbatim>\<open>(\w+)="([^"]*)"\<close> at the start of the text.\<close>

definition match_attr :: "string \<Rightarrow> ((string \<times> string) \<times> string) option" where
  "match_attr s =
     (let key = takeWhile word_char s; after = dropWhile word_char s in
      if key \<noteq> [] \<and> starts_with ''=\"'' after then
        let val = takeWhile (\<lambda>c. c \<noteq> CHR 0x22) (drop 2 after);
            rest = dropWhile (\<lambda>c. c \<noteq> CHR 0x22) (drop 2 after)
        in if rest \<noteq> [] then Some ((key, val), drop 1 rest) else None
      else None)"

lemma match_tag_shorter: "match_tag s = Some (n, a, r) \<Longrightarrow> length r < length s"
proof -
  assume m: "match_tag s = Some (n, a, r)"
  have "starts_with ''[['' s" using m by (auto simp: match_tag_def split: if_splits)
  then have "2 \<le> length s" by (auto simp: starts_with_iff)
  moreover have "length r \<le> length (drop 2 s)"
    using m by (auto simp: match_tag_def Let_def split: if_splits)
      (metis diff_le_self le_trans length_drop length_dropWhile2_le)
  ultimately show ?thesis by simp
qed

lemma match_attr_shorter: "match_attr s = Some (kv, r) \<Longrightarrow> length r < length s"
proof -
  assume m: "match_attr s = Some (kv, r)"
  let ?after = "dropWhile word_char s"
  have "starts_with ''=\"'' ?after" and r: "r = drop 1 (dropWhile (\<lambda>c. c \<noteq> CHR 0x22) (drop 2 ?after))"
    using m by (auto simp: match_attr_def Let_def split: if_splits)
  then have "2 \<le> length ?after" by (auto simp: starts_with_iff)
  moreover have "length ?after \<le> length s" by (rule length_dropWhile_le)
  moreover have "length r \<le> length (drop 2 ?after)"
    unfolding r by (rule length_drop_dropWhile_le)
  ultimately show ?thesis by simp
qed

text \<open>\<^verbatim>\<open>_TAG_RE.sub(_record, text)\<close>: what is left of the text and the matches, left to right.\<close>

function scan_tags :: "string \<Rightarrow> string \<times> (string \<times> string) list" where
  "scan_tags [] = ([], [])"
| "scan_tags (c # s) =
     (case match_tag (c # s) of
        Some (name, attrs, rest) \<Rightarrow>
          (case scan_tags rest of (t, ms) \<Rightarrow> (t, (name, attrs) # ms))
      | None \<Rightarrow> (case scan_tags s of (t, ms) \<Rightarrow> (c # t, ms)))"
  by pat_completeness auto
termination
  by (relation "measure length") (auto dest: match_tag_shorter)

text \<open>\<^verbatim>\<open>_ATTR_RE.findall(attrs)\<close>.\<close>

function find_attrs :: "string \<Rightarrow> (string \<times> string) list" where
  "find_attrs [] = []"
| "find_attrs (c # s) =
     (case match_attr (c # s) of
        Some (kv, rest) \<Rightarrow> kv # find_attrs rest
      | None \<Rightarrow> find_attrs s)"
  by pat_completeness auto
termination
  by (relation "measure length") (auto dest: match_attr_shorter)

text \<open>\<^verbatim>\<open>dict(pairs)\<close>: a repeated key keeps its place and takes the last value.\<close>

definition dict_of :: "('k \<times> 'v) list \<Rightarrow> ('k, 'v) odict" where
  "dict_of kvs = fold (\<lambda>(k, v). od_set k v) kvs []"

definition get_or :: "string \<Rightarrow> (string, string) odict \<Rightarrow> string \<Rightarrow> string" where
  "get_or k d dflt = (case od_get d k of Some v \<Rightarrow> v | None \<Rightarrow> dflt)"

definition build :: "string \<Rightarrow> (string, string) odict \<Rightarrow> directive" where
  "build name attrs =
     (if name = ''END_CALL'' then EndCallDirective
      else if name = ''TRANSFER'' then
        TransferDirective (coerce_transfer_type (get_or ''type'' attrs ''none''))
          (get_or ''destination'' attrs []) (get_or ''reason'' attrs [])
      else UnknownDirective name attrs)"

definition parse :: "string \<Rightarrow> directive_result" where
  "parse s =
     (case scan_tags s of (t, ms) \<Rightarrow>
        \<lparr>clean_text = strip_markdown_chars t,
         directives = map (\<lambda>(name, attrs). build name (dict_of (find_attrs attrs))) ms\<rparr>)"

text \<open>What the pipeline sees of a stream: every safe piece parsed, in order.\<close>

definition stream_parse :: "string list \<Rightarrow> directive_result" where
  "stream_parse chunks =
     (let rs = map parse (stream_pieces [] chunks) in
        \<lparr>clean_text = concat (map clean_text rs), directives = concat (map directives rs)\<rparr>)"

text \<open>
  Text in which no tag opens while another one is still open.
\<close>

fun closes_first :: "string \<Rightarrow> bool" where
  "closes_first [] = True"
| "closes_first (c # s) =
     (if starts_with '']]'' (c # s) then True
      else if starts_with ''[['' (c # s) then False
      else closes_first s)"

fun flat :: "string \<Rightarrow> bool" where
  "flat [] = True"
| "flat (c # s) = ((starts_with ''[['' (c # s) \<longrightarrow> closes_first (drop 1 s)) \<and> flat s)"

text \<open>A tag as the prompt asks the model to write it.\<close>

definition print_transfer :: "transfer_type \<Rightarrow> string \<Rightarrow> string \<Rightarrow> string" where
  "print_transfer t dest reason =
     ''[[TRANSFER type=\"'' @ transfer_type_value t @ ''\" destination=\"'' @ dest @
     ''\" reason=\"'' @ reason @ ''\"]]''"


section \<open>Lemmas\<close>

lemma feed_append: "feed p c = (safe, p') \<Longrightarrow> safe @ p' = p @ c"
  unfolding feed_def Let_def by (auto simp del: take_append drop_append split: option.splits if_splits)

lemma concat_stream_pieces: "concat (stream_pieces p cs) = p @ concat cs"
proof (induction cs arbitrary: p)
  case Nil
  then show ?case by (simp add: flush_def)
next
  case (Cons c cs)
  obtain safe p' where f: "feed p c = (safe, p')" by fastforce
  then show ?case using Cons.IH [of p'] feed_append [OF f] by simp
qed

text \<open>Every opening bracket pair of the text is followed by a closing one.\<close>

definition opens_closed :: "string \<Rightarrow> bool" where
  "opens_closed a \<longleftrightarrow> (\<forall>m. starts_with ''[['' (drop m a) \<longrightarrow> py_in '']]'' (drop m a))"

lemma opens_closed_drop: "opens_closed a \<Longrightarrow> opens_closed (drop k a)"
  by (simp add: opens_closed_def)

lemma match_tag_drop: "match_tag s = Some (n, a, r) \<Longrightarrow> \<exists>k. r = drop k s"
  unfolding match_tag_def dropWhile_eq_drop
  by (auto simp: Let_def split: if_splits)

lemma double_close_split:
  assumes "py_in '']]'' body"
  shows "\<exists>rest. dropWhile (\<lambda>c. c \<noteq> CHR '']'') body = CHR '']'' # rest \<and> rest \<noteq> []"
  using assms by (induction body) (auto simp: starts_with_iff)

lemma py_in_close_dropWhile:
  assumes "py_in '']]'' body" and "\<not> P (CHR '']'')"
  shows "py_in '']]'' (dropWhile P body)"
  using assms by (induction body) (auto simp: starts_with_iff)

lemma match_tag_append:
  assumes "starts_with ''[['' u" and "py_in '']]'' u"
  shows "match_tag (u @ b) = map_option (\<lambda>(n, a, r). (n, a, r @ b)) (match_tag u)"
proof -
  obtain body where u: "u = ''[['' @ body" using assms(1) by (auto simp: starts_with_iff)
  have cl: "py_in '']]'' body" using assms(2) by (simp add: u)
  have nn: "\<not> tag_name_char (CHR '']'')" by (simp add: tag_name_char_def ascii_upper_def)
  have mem: "CHR '']'' \<in> set body" using cl by (auto simp: py_in_iff)
  have tw: "takeWhile tag_name_char (body @ b) = takeWhile tag_name_char body"
    using mem nn by simp
  have dw: "dropWhile tag_name_char (body @ b) = dropWhile tag_name_char body @ b"
    using mem nn by simp
  let ?an = "dropWhile tag_name_char body"
  have cl2: "py_in '']]'' ?an" using py_in_close_dropWhile [of body tag_name_char] cl nn by blast
  then have mem2: "CHR '']'' \<in> set ?an" by (auto simp: py_in_iff)
  obtain rest where r: "dropWhile (\<lambda>c. c \<noteq> CHR '']'') ?an = CHR '']'' # rest" "rest \<noteq> []"
    using double_close_split [OF cl2] by blast
  have tw2: "takeWhile (\<lambda>c. c \<noteq> CHR '']'') (?an @ b) = takeWhile (\<lambda>c. c \<noteq> CHR '']'') ?an"
    using mem2 by simp
  have dw2: "dropWhile (\<lambda>c. c \<noteq> CHR '']'') (?an @ b) = CHR '']'' # rest @ b"
    using mem2 r(1) by simp
  have "starts_with '']]'' (CHR '']'' # rest @ b) = starts_with '']]'' (CHR '']'' # rest)"
    using r(2) by (cases rest) simp_all
  moreover have "drop 2 (CHR '']'' # rest @ b) = drop 2 (CHR '']'' # rest) @ b"
    using r(2) by (cases rest) simp_all
  moreover have "drop 2 u = body" "drop 2 (u @ b) = body @ b" using u by simp_all
  moreover have "starts_with ''[['' (u @ b)" using assms(1) by (rule starts_with_append)
  ultimately show ?thesis
    unfolding match_tag_def Let_def using assms(1) by (simp only: tw dw tw2 dw2 r(1)) simp
qed

lemma match_tag_not_open: "\<not> starts_with ''[['' s \<Longrightarrow> match_tag s = None"
  by (simp add: match_tag_def)

definition joins :: "string \<Rightarrow> string \<Rightarrow> bool" where
  "joins a b \<longleftrightarrow> a = [] \<or> last a \<noteq> CHR ''['' \<or> b = [] \<or> hd b \<noteq> CHR ''['' \<or> starts_with ''[['' b"

lemma joins_drop: "joins a b \<Longrightarrow> joins (drop k a) b"
  by (auto simp: joins_def)

lemma match_tag_single: "joins [c] b \<Longrightarrow> match_tag ([c] @ b) = None"
  by (cases b)
    (auto simp: joins_def match_tag_def Let_def starts_with_iff tag_name_char_def ascii_upper_def)

lemma match_tag_append_None:
  assumes "\<not> starts_with ''[['' (c # s)" and "joins (c # s) b"
  shows "match_tag ((c # s) @ b) = None"
proof (cases s)
  case Nil
  then show ?thesis using match_tag_single assms(2) by simp
next
  case (Cons d t)
  then have "\<not> starts_with ''[['' ((c # s) @ b)" using assms(1) by auto
  then show ?thesis by (rule match_tag_not_open)
qed

text \<open>Scanning distributes over a place where no tag is cut in two.\<close>

lemma scan_tags_append:
  assumes "opens_closed a" and "joins a b"
  shows "scan_tags (a @ b) =
    (fst (scan_tags a) @ fst (scan_tags b), snd (scan_tags a) @ snd (scan_tags b))"
  using assms
proof (induction a rule: scan_tags.induct)
  case 1
  then show ?case by simp
next
  case (2 c s)
  have s: "opens_closed s" "joins s b"
    using opens_closed_drop [OF "2.prems"(1), of 1] joins_drop [OF "2.prems"(2), of 1] by simp_all
  show ?case
  proof (cases "match_tag (c # s)")
    case None
    have "match_tag ((c # s) @ b) = None"
    proof (cases "starts_with ''[['' (c # s)")
      case True
      then have "py_in '']]'' (c # s)"
        using "2.prems"(1) unfolding opens_closed_def by (metis drop0)
      then show ?thesis using match_tag_append [OF True] None by simp
    next
      case False
      then show ?thesis using match_tag_append_None "2.prems"(2) by blast
    qed
    then show ?thesis
      using None "2.IH"(1) [OF None s] by (simp split: prod.splits)
  next
    case (Some m)
    obtain n at1 r where m: "m = (n, at1, r)" by (cases m)
    have st: "starts_with ''[['' (c # s)" using Some m by (auto simp: match_tag_def split: if_splits)
    then have "py_in '']]'' (c # s)"
      using "2.prems"(1) unfolding opens_closed_def by (metis drop0)
    then have app: "match_tag ((c # s) @ b) = Some (n, at1, r @ b)"
      using match_tag_append [OF st] Some m by simp
    obtain k where "r = drop k (c # s)" using match_tag_drop Some m by blast
    then have r: "opens_closed r" "joins r b"
      using opens_closed_drop "2.prems"(1) joins_drop "2.prems"(2) by blast+
    show ?thesis
      using Some m app "2.IH"(2) [OF Some m [symmetric] refl r] by (simp split: prod.splits)
  qed
qed

lemma closes_first_close: "closes_first (x @ CHR ''['' # CHR ''['' # y) \<Longrightarrow> py_in '']]'' x"
proof (induction x)
  case Nil
  then show ?case by simp
next
  case (Cons c x)
  then show ?case by (cases x) (auto split: if_splits)
qed

lemma flat_drop: "flat s \<Longrightarrow> flat (drop m s)"
proof (induction s arbitrary: m)
  case Nil
  then show ?case by simp
next
  case (Cons c s)
  then show ?case by (cases m) auto
qed

lemma flat_closes: "flat s \<Longrightarrow> starts_with ''[['' (drop m s) \<Longrightarrow> closes_first (drop (m + 2) s)"
proof (induction s arbitrary: m)
  case Nil
  then show ?case by simp
next
  case (Cons c s)
  then show ?case by (cases m) (auto simp: numeral_2_eq_2)
qed

lemma opens_closed_held:
  assumes "flat (p @ r)" and "starts_with ''[['' (drop k p)"
  shows "opens_closed (take k p)"
  unfolding opens_closed_def
proof (intro allI impI)
  fix m
  assume o: "starts_with ''[['' (drop m (take k p))"
  let ?x = "drop (m + 2) (take k p)"
  obtain z where z: "drop m (take k p) = ''[['' @ z" using o by (auto simp: starts_with_iff)
  then have zx: "z = ?x" by (metis add.commute append_eq_conv_conj drop_drop length_Cons list.size(3) numeral_2_eq_2)
  obtain y where y: "drop k p = ''[['' @ y" using assms(2) by (auto simp: starts_with_iff)
  have len: "m + 2 \<le> length (take k p)"
    using arg_cong [OF z, of length] by (simp only: length_drop length_append) auto
  have whole: "drop (m + 2) (p @ r) = ?x @ CHR ''['' # CHR ''['' # (y @ r)"
  proof -
    have "p @ r = take k p @ drop k p @ r" by simp
    then show ?thesis using len y by (metis append.assoc append_Cons append_Nil drop_append diff_is_0_eq' drop0)
  qed
  have "starts_with ''[['' (drop m (p @ r))"
  proof -
    have "drop m (p @ r) = drop m (take k p) @ drop k p @ r"
      using len by (metis append.assoc append_take_drop_id drop_append diff_is_0_eq' drop0 add_leD1)
    then show ?thesis using o starts_with_append by metis
  qed
  then have "closes_first (?x @ CHR ''['' # CHR ''['' # (y @ r))"
    using flat_closes [OF assms(1)] whole by metis
  then have "py_in '']]'' ?x" by (rule closes_first_close)
  then show "py_in '']]'' (drop m (take k p))"
    using z zx py_in_append [of _ ?x "''[[''" "[]"] by simp
qed

lemma opens_closed_released:
  assumes "py_rfind ''[['' p = Some k" and "py_in '']]'' (drop k p)"
  shows "opens_closed p"
  unfolding opens_closed_def
proof (intro allI impI)
  fix m
  assume "starts_with ''[['' (drop m p)"
  then have "m \<le> k"
    using py_rfind_Some [OF assms(1)] by (meson linorder_not_less not_Cons_self2 list.simps(3))
  then have "drop k p = drop (k - m) (drop m p)" by simp
  then obtain t where "drop m p = t @ drop k p" by (metis append_take_drop_id)
  then show "py_in '']]'' (drop m p)" using py_in_append [OF assms(2), of t "[]"] by simp
qed

text \<open>One call of \<open>feed\<close> cuts the text at a place where the scanner may be restarted.\<close>

lemma feed_cuts_cleanly:
  assumes f: "feed p c = (safe, p')" and flat: "flat (p @ c @ r)"
    and last: "p @ c = [] \<or> last (p @ c) \<noteq> CHR ''[''"
  shows "opens_closed safe" and "joins safe (p' @ r)" and "p' = [] \<or> last p' \<noteq> CHR ''[''"
proof -
  consider (hold) k where "py_rfind ''[['' (p @ c) = Some k" "\<not> py_in '']]'' (drop k (p @ c))"
        "safe = take k (p @ c)" "p' = drop k (p @ c)"
    | (release) k where "py_rfind ''[['' (p @ c) = Some k" "py_in '']]'' (drop k (p @ c))"
        "safe = p @ c" "p' = []"
    | (none) "py_rfind ''[['' (p @ c) = None" "safe = p @ c" "p' = []"
    using f by (auto simp: feed_def Let_def split: option.splits if_splits)
  then have "opens_closed safe \<and> joins safe (p' @ r) \<and> (p' = [] \<or> last p' \<noteq> CHR ''['')"
  proof cases
    case hold
    have st: "starts_with ''[['' (drop k (p @ c))" using py_rfind_Some [OF hold(1)] by simp
    have "opens_closed safe" using opens_closed_held [of "p @ c" r k] flat st hold(3) by simp
    moreover have "joins safe (p' @ r)"
      using starts_with_append [OF st, of r] hold(4) unfolding joins_def by blast
    moreover have "p' = [] \<or> last p' \<noteq> CHR ''[''"
    proof (cases "p' = []")
      case False
      have "p @ c = take k (p @ c) @ p'" unfolding hold(4) by (rule append_take_drop_id [symmetric])
      then have "last (p @ c) = last p'" "p @ c \<noteq> []" using False by (metis last_appendR, auto)
      then show ?thesis using last by auto
    qed simp
    ultimately show ?thesis by blast
  next
    case release
    have "opens_closed (p @ c)" using release(1,2) by (rule opens_closed_released)
    then show ?thesis using release(3,4) last unfolding joins_def by blast
  next
    case none
    have "opens_closed (p @ c)" using py_rfind_None [OF none(1)] unfolding opens_closed_def by blast
    then show ?thesis using none(2,3) last unfolding joins_def by blast
  qed
  then show "opens_closed safe" and "joins safe (p' @ r)" and "p' = [] \<or> last p' \<noteq> CHR ''[''"
    by blast+
qed

lemma scan_stream_pieces:
  assumes "flat (p @ concat cs)" and "p = [] \<or> last p \<noteq> CHR ''[''"
    and "\<forall>c \<in> set cs. c = [] \<or> last c \<noteq> CHR ''[''"
  shows "scan_tags (p @ concat cs) =
    (concat (map (\<lambda>s. fst (scan_tags s)) (stream_pieces p cs)),
     concat (map (\<lambda>s. snd (scan_tags s)) (stream_pieces p cs)))"
  using assms
proof (induction cs arbitrary: p)
  case Nil
  then show ?case by (simp add: flush_def)
next
  case (Cons c cs)
  obtain safe p' where f: "feed p c = (safe, p')" by fastforce
  have last: "p @ c = [] \<or> last (p @ c) \<noteq> CHR ''[''" using Cons.prems by (cases "c = []") auto
  have flat: "flat (p @ c @ concat cs)" using Cons.prems(1) by simp
  note cut = feed_cuts_cleanly [OF f flat last]
  have split: "p @ concat (c # cs) = safe @ (p' @ concat cs)" using feed_append [OF f] by simp
  then have "p' @ concat cs = drop (length safe) (p @ concat (c # cs))"
    by (metis append_eq_conv_conj)
  then have "flat (p' @ concat cs)" using flat_drop Cons.prems(1) by metis
  then have "scan_tags (safe @ (p' @ concat cs)) =
    (concat (map (\<lambda>s. fst (scan_tags s)) (safe # stream_pieces p' cs)),
     concat (map (\<lambda>s. snd (scan_tags s)) (safe # stream_pieces p' cs)))"
    using Cons.IH [of p'] cut(3) Cons.prems(3) scan_tags_append [OF cut(1,2)] by simp
  then show ?case unfolding split using f by simp
qed

lemma parse_fields:
  "clean_text (parse s) = strip_markdown_chars (fst (scan_tags s))"
  "directives (parse s) =
     map (\<lambda>(name, attrs). build name (dict_of (find_attrs attrs))) (snd (scan_tags s))"
  by (simp_all add: parse_def split: prod.splits)

lemma strip_markdown_concat:
  "strip_markdown_chars (concat xs) = concat (map strip_markdown_chars xs)"
  by (induction xs) (simp_all add: strip_markdown_chars_def)

lemma takeWhile_until: "\<forall>c \<in> set x. c \<noteq> d \<Longrightarrow> takeWhile (\<lambda>c. c \<noteq> d) (x @ d # y) = x"
  by (induction x) auto

lemma dropWhile_until: "\<forall>c \<in> set x. c \<noteq> d \<Longrightarrow> dropWhile (\<lambda>c. c \<noteq> d) (x @ d # y) = d # y"
  by (induction x) auto

lemma takeWhile_run: "\<forall>c \<in> set x. P c \<Longrightarrow> \<not> P d \<Longrightarrow> takeWhile P (x @ d # y) = x"
  by (induction x) auto

lemma dropWhile_run: "\<forall>c \<in> set x. P c \<Longrightarrow> \<not> P d \<Longrightarrow> dropWhile P (x @ d # y) = d # y"
  by (induction x) auto

lemma match_attr_print:
  assumes "\<forall>c \<in> set key. word_char c" and "key \<noteq> []" and "\<forall>c \<in> set val. c \<noteq> CHR 0x22"
  shows "match_attr (key @ CHR ''='' # CHR 0x22 # val @ CHR 0x22 # rest) = Some ((key, val), rest)"
proof -
  have "\<not> word_char (CHR ''='')"
    by (simp add: word_char_def ascii_upper_def ascii_lower_def ascii_digit_def)
  then show ?thesis
    unfolding match_attr_def using assms
    by (simp add: takeWhile_run dropWhile_run takeWhile_until dropWhile_until)
qed

lemma find_attrs_print:
  assumes "\<forall>c \<in> set key. word_char c" and "key \<noteq> []" and "\<forall>c \<in> set val. c \<noteq> CHR 0x22"
  shows "find_attrs (CHR '' '' # key @ CHR ''='' # CHR 0x22 # val @ CHR 0x22 # rest) =
           (key, val) # find_attrs rest"
proof -
  have sp: "match_attr (CHR '' '' # s) = None" for s
    by (simp add: match_attr_def word_char_def ascii_upper_def ascii_lower_def ascii_digit_def)
  obtain k ks where k: "key = k # ks" using assms(2) by (cases key) auto
  show ?thesis
    using sp match_attr_print [OF assms, of rest] by (simp add: k)
qed

lemma match_tag_print:
  assumes "\<forall>c \<in> set name. tag_name_char c" and "name \<noteq> []" and "\<forall>c \<in> set attrs. c \<noteq> CHR '']''"
    and "\<not> tag_name_char (hd (attrs @ '']]''))"
  shows "match_tag (''[['' @ name @ attrs @ '']]'' @ rest) = Some (name, attrs, rest)"
proof -
  obtain d y where d: "attrs @ '']]'' @ rest = d # y" "\<not> tag_name_char d"
    using assms(4) by (cases attrs) auto
  have "takeWhile tag_name_char (name @ attrs @ '']]'' @ rest) = name"
    "dropWhile tag_name_char (name @ attrs @ '']]'' @ rest) = attrs @ '']]'' @ rest"
    using takeWhile_run [OF assms(1) d(2)] dropWhile_run [OF assms(1) d(2)] d(1) by simp_all
  then show ?thesis
    unfolding match_tag_def Let_def using assms
    by (simp add: takeWhile_until dropWhile_until)
qed

lemma scan_tags_single:
  assumes "match_tag s = Some (n, a, [])"
  shows "scan_tags s = ([], [(n, a)])"
  using assms by (cases s) (simp_all add: match_tag_def)

lemma word_char_keys:
  "\<forall>c \<in> set ''type''. word_char c" "\<forall>c \<in> set ''destination''. word_char c"
  "\<forall>c \<in> set ''reason''. word_char c"
  by (simp_all add: word_char_def ascii_lower_def)

lemma coerce_value [simp]: "coerce_transfer_type (transfer_type_value t) = t"
  by (cases t) (simp_all add: coerce_transfer_type_def transfer_type_value_def)

lemma find_attrs_transfer:
  assumes "\<forall>c \<in> set dest. c \<noteq> CHR 0x22" and "\<forall>c \<in> set reason. c \<noteq> CHR 0x22"
  shows "find_attrs ('' type=\"'' @ transfer_type_value t @ ''\" destination=\"'' @ dest @
           ''\" reason=\"'' @ reason @ ''\"'') =
         [(''type'', transfer_type_value t), (''destination'', dest), (''reason'', reason)]"
proof -
  have v: "\<forall>c \<in> set (transfer_type_value t). c \<noteq> CHR 0x22"
    by (cases t) (simp_all add: transfer_type_value_def)
  show ?thesis
    using find_attrs_print [OF word_char_keys(1) _ v]
      find_attrs_print [OF word_char_keys(2) _ assms(1)]
      find_attrs_print [OF word_char_keys(3) _ assms(2)] by simp
qed

section \<open>Properties\<close>

text \<open>
  The stream buffer loses nothing and invents nothing: the safe pieces followed by the flush
  are the streamed text, in order, however it was cut into chunks.
\<close>

theorem stream_buffer_lossless: "concat (stream_pieces [] chunks) = concat chunks"
  by (simp add: concat_stream_pieces)

text \<open>
  C37. Streaming does not change the result: if no chunk ends in an opening bracket and no tag opens
  inside another, then parsing the safe pieces as they arrive gives the clean text and the
  directives that parsing the whole text at once gives.
\<close>

theorem stream_parse_agrees:
  assumes "flat (concat chunks)" and "\<forall>c \<in> set chunks. c = [] \<or> last c \<noteq> CHR ''[''"
  shows "stream_parse chunks = parse (concat chunks)"
  using scan_stream_pieces [of "[]" chunks] assms
  by (intro directive_result.equality)
    (simp_all add: stream_parse_def Let_def parse_fields strip_markdown_concat map_concat comp_def)

theorem stream_parse_agrees_witness:
  "stream_parse [''ok '', ''[[END_'', ''CALL]'', ''] bye''] = parse ''ok [[END_CALL]] bye''"
  using stream_parse_agrees [of "[''ok '', ''[[END_'', ''CALL]'', ''] bye'']"]
  by (simp add: starts_with.simps)

text \<open>
  The condition on the chunks is needed: when a chunk ends between the two opening brackets,
  the buffer releases the first one, the tag is not recognised, and its text is spoken.
\<close>

theorem split_bracket_leaks_tag:
  "stream_parse [''Bye. ['', ''[END_CALL]]''] =
     \<lparr>clean_text = ''Bye. [[ENDCALL]]'', directives = []\<rparr> \<and>
   parse ''Bye. [[END_CALL]]'' = \<lparr>clean_text = ''Bye. '', directives = [EndCallDirective]\<rparr>"
  by code_simp


text \<open>
  Writing a transfer tag and parsing it gives the directive back, with its type, destination
  and reason intact and no text left over to be spoken, for every destination and reason without a
  double quote or a closing bracket.
\<close>

theorem transfer_tag_roundtrip:
  assumes "\<forall>c \<in> set dest. c \<noteq> CHR 0x22 \<and> c \<noteq> CHR '']''"
    and "\<forall>c \<in> set reason. c \<noteq> CHR 0x22 \<and> c \<noteq> CHR '']''"
  shows "parse (print_transfer t dest reason) =
           \<lparr>clean_text = [], directives = [TransferDirective t dest reason]\<rparr>"
proof -
  let ?attrs = "'' type=\"'' @ transfer_type_value t @ ''\" destination=\"'' @ dest @
                ''\" reason=\"'' @ reason @ ''\"''"
  have a: "\<forall>c \<in> set ?attrs. c \<noteq> CHR '']''"
    using assms by (cases t) (auto simp: transfer_type_value_def)
  have "match_tag (''[['' @ ''TRANSFER'' @ ?attrs @ '']]'' @ []) = Some (''TRANSFER'', ?attrs, [])"
    by (rule match_tag_print [OF _ _ a]) (simp_all add: tag_name_char_def ascii_upper_def)
  then have "scan_tags (print_transfer t dest reason) = ([], [(''TRANSFER'', ?attrs)])"
    using scan_tags_single unfolding print_transfer_def by simp
  moreover have "find_attrs ?attrs =
      [(''type'', transfer_type_value t), (''destination'', dest), (''reason'', reason)]"
    using assms by (intro find_attrs_transfer) blast+
  ultimately show ?thesis
    by (simp add: parse_def strip_markdown_chars_def dict_of_def build_def get_or_def od_get_def)
qed

theorem transfer_tag_roundtrip_witness:
  "parse (print_transfer COLD ''+4930123'' ''billing dispute'') =
     \<lparr>clean_text = [], directives = [TransferDirective COLD ''+4930123'' ''billing dispute'']\<rparr>"
  by (rule transfer_tag_roundtrip) simp_all

end
