(* ===== verification/Event_Bus.thy ===== *)
theory Event_Bus
  imports Prelude
begin

text \<open>
  The event bus of a conversation (\<^verbatim>\<open>services/conversation/event_bus.py\<close>): a bounded queue of
  events, subscribers per event class, and the drain loop that hands every event to its subscribers.

  A subscriber is a number; what a subscriber does, raising included, has no effect on the bus, because
  the loop catches its exceptions. One delivery, from \<^verbatim>\<open>get\<close> to \<^verbatim>\<open>task_done\<close>, is one step. The model keeps
  three logs that the code does not keep: what was published, what was dropped, and what was handed to
  whom.
\<close>

section \<open>Events\<close>

datatype bus_event =
    SessionStateChanged string string string string real
  | SpeechStartedEvent string real
  | SpeechEndedEvent string int real
  | TranscriptReady string string real
  | ResponseReady string string
  | TtsChunkReady string int string bool
  | SessionEnded string string
  | TransferRequestedEvent string string string string string string string string
  | TransferInitiatedEvent string string string string string
  | TransferCompletedEvent string string string
  | TransferFailedBus string string string string
  | SessionFinalizing string string
  | ConversationFinalized string string string bool bool

definition event_type :: "bus_event \<Rightarrow> string" where
  "event_type e = (case e of
      SessionStateChanged _ _ _ _ _ \<Rightarrow> ''SessionStateChanged''
    | SpeechStartedEvent _ _ \<Rightarrow> ''SpeechStarted''
    | SpeechEndedEvent _ _ _ \<Rightarrow> ''SpeechEnded''
    | TranscriptReady _ _ _ \<Rightarrow> ''TranscriptReady''
    | ResponseReady _ _ \<Rightarrow> ''ResponseReady''
    | TtsChunkReady _ _ _ _ \<Rightarrow> ''TtsChunkReady''
    | SessionEnded _ _ \<Rightarrow> ''SessionEnded''
    | TransferRequestedEvent _ _ _ _ _ _ _ _ \<Rightarrow> ''TransferRequested''
    | TransferInitiatedEvent _ _ _ _ _ \<Rightarrow> ''TransferInitiated''
    | TransferCompletedEvent _ _ _ \<Rightarrow> ''TransferCompleted''
    | TransferFailedBus _ _ _ _ \<Rightarrow> ''TransferFailed''
    | SessionFinalizing _ _ \<Rightarrow> ''SessionFinalizing''
    | ConversationFinalized _ _ _ _ _ \<Rightarrow> ''ConversationFinalized'')"

section \<open>The bus\<close>

record bus =
  b_size :: nat
  b_queue :: "bus_event list"
  b_subscribers :: "(string, nat list) odict"
  b_running :: bool
  b_published :: "bus_event list"
  b_dropped :: "bus_event list"
  b_delivered :: "(bus_event \<times> nat list) list"

definition bus_init :: "nat \<Rightarrow> bus" where
  "bus_init queue_size =
     \<lparr>b_size = queue_size, b_queue = [], b_subscribers = [], b_running = False,
      b_published = [], b_dropped = [], b_delivered = []\<rparr>"

definition subscribers_of :: "bus \<Rightarrow> string \<Rightarrow> nat list" where
  "subscribers_of b ty = (case od_get (b_subscribers b) ty of Some hs \<Rightarrow> hs | None \<Rightarrow> [])"

definition subscribe :: "string \<Rightarrow> nat \<Rightarrow> bus \<Rightarrow> bus" where
  "subscribe ty handler b =
     b\<lparr>b_subscribers := od_set ty (subscribers_of b ty @ [handler]) (b_subscribers b)\<rparr>"

text \<open>\<^verbatim>\<open>asyncio.Queue(maxsize)\<close>: a size of zero means no bound.\<close>

definition queue_full :: "bus \<Rightarrow> bool" where
  "queue_full b \<longleftrightarrow> 0 < b_size b \<and> b_size b \<le> length (b_queue b)"

definition publish :: "bus_event \<Rightarrow> bus \<Rightarrow> bus" where
  "publish e b =
     (let b1 = b\<lparr>b_published := b_published b @ [e]\<rparr>
      in if queue_full b then b1\<lparr>b_dropped := b_dropped b @ [e]\<rparr>
         else b1\<lparr>b_queue := b_queue b @ [e]\<rparr>)"

text \<open>\<open>None\<close>: the caller waits.\<close>

definition publish_async :: "bus_event \<Rightarrow> bus \<Rightarrow> bus option" where
  "publish_async e b = (if queue_full b then None else Some (publish e b))"

definition bus_start :: "bus \<Rightarrow> bus" where
  "bus_start b = b\<lparr>b_running := True\<rparr>"

definition bus_stop :: "bus \<Rightarrow> bus" where
  "bus_stop b = b\<lparr>b_running := False\<rparr>"

text \<open>One round of the drain loop; while the queue is empty or no task runs it waits.\<close>

definition drain_one :: "bus \<Rightarrow> bus" where
  "drain_one b =
     (case b_queue b of
        e # q \<Rightarrow>
          if b_running b
          then b\<lparr>b_queue := q, b_delivered := b_delivered b @ [(e, subscribers_of b (event_type e))]\<rparr>
          else b
      | [] \<Rightarrow> b)"

text \<open>\<^verbatim>\<open>drain()\<close>, the queue's \<^verbatim>\<open>join\<close>, returns when everything queued has been delivered.\<close>

definition drained :: "bus \<Rightarrow> bus" where
  "drained b = (drain_one ^^ length (b_queue b)) b"

datatype bus_op = Subscribe string nat | Publish bus_event | PublishAsync bus_event | Start | Stop | DrainOne

fun bus_step :: "bus_op \<Rightarrow> bus \<Rightarrow> bus" where
  "bus_step (Subscribe ty h) b = subscribe ty h b"
| "bus_step (Publish e) b = publish e b"
| "bus_step (PublishAsync e) b = (case publish_async e b of Some b' \<Rightarrow> b' | None \<Rightarrow> b)"
| "bus_step Start b = bus_start b"
| "bus_step Stop b = bus_stop b"
| "bus_step DrainOne b = drain_one b"

section \<open>Lemmas\<close>

text \<open>
  Nothing is invented, duplicated or reordered: what was published is an interleaving of what was
  delivered, then queued, and of what was dropped.
\<close>

definition bus_ok :: "nat \<Rightarrow> bus \<Rightarrow> bool" where
  "bus_ok n b \<longleftrightarrow>
     b_size b = n \<and> (0 < n \<longrightarrow> length (b_queue b) \<le> n) \<and>
     b_published b \<in> shuffles (map fst (b_delivered b) @ b_queue b) (b_dropped b) \<and>
     (b_dropped b \<noteq> [] \<longrightarrow> 0 < n \<and> n \<le> length (b_published b))"

lemma shuffles_snoc_left: "zs \<in> shuffles xs ys \<Longrightarrow> zs @ [z] \<in> shuffles (xs @ [z]) ys"
proof (induction xs ys arbitrary: zs rule: shuffles.induct)
  case (1 ys)
  then show ?case by (induction ys arbitrary: zs) (auto simp: Cons_in_shuffles_iff)
next
  case (3 x xs y ys)
  then show ?case by (auto simp: Cons_in_shuffles_iff)
qed auto

lemma shuffles_snoc_right: "zs \<in> shuffles xs ys \<Longrightarrow> zs @ [z] \<in> shuffles xs (ys @ [z])"
  using shuffles_snoc_left [of zs ys xs z] by (simp add: shuffles_commutes)

lemma length_published: "bus_ok n b \<Longrightarrow> length (b_published b) = length (b_delivered b) + length (b_queue b) + length (b_dropped b)"
  unfolding bus_ok_def by (auto dest: length_shuffles)

lemma bus_ok_publish:
  assumes "bus_ok n b"
  shows "bus_ok n (publish e b)"
proof (cases "queue_full b")
  case True
  then show ?thesis using assms shuffles_snoc_right [of "b_published b"] length_published [OF assms]
    by (auto simp: publish_def bus_ok_def queue_full_def)
next
  case False
  then show ?thesis using assms shuffles_snoc_left [of "b_published b" "map fst (b_delivered b) @ b_queue b" "b_dropped b" e]
    by (auto simp: publish_def bus_ok_def queue_full_def)
qed

lemma bus_ok_drain_one: "bus_ok n b \<Longrightarrow> bus_ok n (drain_one b)"
  by (auto simp: drain_one_def bus_ok_def split: list.splits)

lemma bus_ok_step: "bus_ok n b \<Longrightarrow> bus_ok n (bus_step op b)"
proof (cases op)
  case (PublishAsync e)
  then show "bus_ok n b \<Longrightarrow> bus_ok n (bus_step op b)" by (simp add: publish_async_def bus_ok_publish)
qed (simp_all add: bus_ok_publish bus_ok_drain_one, simp_all add: bus_ok_def subscribe_def bus_start_def bus_stop_def)

interpretation bus_machine: event_machine "bus_init n" bus_step "bus_ok n"
  for n
  by unfold_locales (simp add: bus_ok_def bus_init_def, rule bus_ok_step)

lemma drained_delivers:
  assumes "b_running b"
  shows "b_queue (drained b) = [] \<and> map fst (b_delivered (drained b)) = map fst (b_delivered b) @ b_queue b"
  using assms
proof (induction "b_queue b" arbitrary: b)
  case Nil
  then show ?case by (simp add: drained_def)
next
  case (Cons e q)
  have eq: "b_queue b = e # q" using Cons.hyps(2) by simp
  have q: "b_queue (drain_one b) = q" "b_running (drain_one b)"
    "map fst (b_delivered (drain_one b)) = map fst (b_delivered b) @ [e]"
    using Cons.prems by (simp_all add: drain_one_def eq)
  have "drained b = drained (drain_one b)"
    unfolding drained_def q(1) eq by (simp add: funpow_swap1)
  then show ?case using Cons.hyps(1) [OF q(1) [symmetric] q(2)] q(1,3) eq by simp
qed

text \<open>
  The event bus neither invents, duplicates nor reorders events: after any sequence of operations,
  the published events are an interleaving of the delivered and queued ones, in this order, and of the
  dropped ones; the queue never exceeds its bound, and an event is dropped only when the bound has been
  reached.
\<close>

theorem bus_delivers_in_order:
  "let b = fold bus_step ops (bus_init n) in
     b_published b \<in> shuffles (map fst (b_delivered b) @ b_queue b) (b_dropped b) \<and>
     (0 < n \<longrightarrow> length (b_queue b) \<le> n) \<and>
     (b_dropped b \<noteq> [] \<longrightarrow> 0 < n \<and> n \<le> length (b_published b))"
  using bus_machine.inv_run [of n ops] by (simp add: bus_ok_def Let_def)

theorem bus_delivers_in_order_witness:
  "let b = fold bus_step [Publish (SessionEnded ''s'' ''a''), Publish (SessionEnded ''s'' ''b''), Start, DrainOne] (bus_init 1) in
     length (b_queue b) \<le> 1 \<and> b_dropped b = [SessionEnded ''s'' ''b''] \<and> 1 \<le> length (b_published b)"
  using bus_delivers_in_order [of "[Publish (SessionEnded ''s'' ''a''), Publish (SessionEnded ''s'' ''b''), Start, DrainOne]" 1]
  by (simp add: bus_init_def publish_def queue_full_def bus_start_def drain_one_def Let_def)

end
