(* ===== verification/Session.thy ===== *)
theory Session
  imports Conversation_FSM Directives Event_Bus "HOL-Library.Word"
begin

text \<open>
  The state of one call (\<^verbatim>\<open>services/conversation/session.py\<close>): the conversation state machine wired
  to the event bus, the buffer of inbound audio, the outcome of the last transfer, and the operations
  the servicer calls.

  The handler behind a session (\<^verbatim>\<open>IConversationHandler\<close>) is an interface with several
  implementations. Here it is the environment: every call made to it is logged in
  \<open>s_handler_calls\<close>, and what it answers, responses of its generators included, are arguments. An
  operation that is an async generator is therefore cut into its beginning, the handling of one
  response, and its end. \<open>clk n\<close> is the reading of the clock at the \<open>n\<close>-th transition of the state
  machine, which is the only place where the machine reads it. Not modelled: the session's own count of
  audio chunks, which nothing reads, the latency histogram of a recovery, and log lines.
\<close>

type_synonym bytes = "8 word list"

section \<open>Responses of the handler\<close>

record node_change =
  nc_node_id :: string
  nc_node_name :: string
  nc_node_type :: string
  nc_via :: string

record handler_response =
  hr_stt_text :: string
  hr_stt_confidence :: real
  hr_tts_payloads :: "bytes list"
  hr_agent_text :: string
  hr_end_call :: bool
  hr_grace_ms :: int
  hr_transfer_request :: "transfer_request option"
  hr_node_changed :: "node_change option"
  hr_session_note :: string
  hr_turn_complete :: bool

definition empty_response :: handler_response where
  "empty_response =
     \<lparr>hr_stt_text = [], hr_stt_confidence = 0, hr_tts_payloads = [], hr_agent_text = [],
      hr_end_call = False, hr_grace_ms = 0, hr_transfer_request = None, hr_node_changed = None,
      hr_session_note = [], hr_turn_complete = False\<rparr>"

record finalization_result =
  fr_summary :: string
  fr_summary_generated :: bool
  fr_transcript_written :: bool

datatype handler_call =
    Greeting
  | OnAudio bytes
  | OnText string
  | OnSpeechEnded bytes int real
  | OnCancel
  | OnSessionEnd string "string option"
  | OnTransferFailed string string
  | OnTransferCancelled
  | StartFinalization
  | FinalizeSession string

section \<open>State\<close>

record session_ctx =
  cx_session_id :: string
  cx_tenant_id :: string
  cx_trace_id :: string
  cx_call_id :: string
  cx_caller_did :: string
  cx_called_did :: string
  cx_direction :: string
  cx_script_id :: string
  cx_use_workflow_draft :: bool
  cx_text_only :: bool

record session =
  s_ctx :: session_ctx
  s_bus :: bus
  s_fsm :: fsm
  s_audio_buffer :: bytes
  s_transfer_outcome :: "string option"
  s_metrics :: "string list"
  s_handler_calls :: "handler_call list"

abbreviation sid_of :: "session \<Rightarrow> string" where
  "sid_of s \<equiv> cx_session_id (s_ctx s)"

text \<open>\<^verbatim>\<open>_make_handlers\<close>: four of the eight callbacks are set, and each publishes.\<close>

definition session_handlers :: fsm_handlers where
  "session_handlers =
     \<lparr>h_state_changed = True, h_speech_started = True, h_speech_ended = True, h_stt_final = True,
      h_playback_finished = False, h_transfer_requested = False, h_transfer_completed = False,
      h_session_close = False\<rparr>"

definition event_of_callback :: "string \<Rightarrow> callback \<Rightarrow> bus_event option" where
  "event_of_callback sid c =
     (case c of
        StateChanged a b trigger ms \<Rightarrow> Some (SessionStateChanged sid (state_name a) (state_name b) trigger ms)
      | SpeechStarted energy_db \<Rightarrow> Some (SpeechStartedEvent sid energy_db)
      | SpeechEnded duration_ms energy_db \<Rightarrow> Some (SpeechEndedEvent sid duration_ms energy_db)
      | SttFinal content confidence \<Rightarrow> Some (TranscriptReady sid content confidence)
      | _ \<Rightarrow> None)"

definition publish_callback :: "string \<Rightarrow> callback \<Rightarrow> bus \<Rightarrow> bus" where
  "publish_callback sid c b = (case event_of_callback sid c of Some e \<Rightarrow> publish e b | None \<Rightarrow> b)"

text \<open>The only subscription a session makes is its own metric counter, number 0.\<close>

definition session_init :: "session_ctx \<Rightarrow> bus \<Rightarrow> real \<Rightarrow> session" where
  "session_init ctx b now =
     \<lparr>s_ctx = ctx, s_bus = subscribe ''TransferFailed'' 0 b, s_fsm = fsm_init session_handlers now,
      s_audio_buffer = [], s_transfer_outcome = None, s_metrics = [], s_handler_calls = []\<rparr>"

text \<open>A trigger of the state machine: the callbacks it makes are published at once.\<close>

definition drive :: "(fsm \<Rightarrow> fsm) \<Rightarrow> session \<Rightarrow> session" where
  "drive trigger s =
     (let f = trigger (s_fsm s)
      in s\<lparr>s_fsm := f, s_bus := fold (publish_callback (sid_of s)) (drop (length (calls (s_fsm s))) (calls f)) (s_bus s)\<rparr>)"

definition at_clock :: "(nat \<Rightarrow> real) \<Rightarrow> (real \<Rightarrow> fsm \<Rightarrow> fsm) \<Rightarrow> session \<Rightarrow> session" where
  "at_clock clk trigger s = drive (\<lambda>f. trigger (clk (transition_count f)) f) s"

definition call_handler :: "handler_call \<Rightarrow> session \<Rightarrow> session" where
  "call_handler c s = s\<lparr>s_handler_calls := s_handler_calls s @ [c]\<rparr>"

definition count_metric :: "string \<Rightarrow> session \<Rightarrow> session" where
  "count_metric m s = s\<lparr>s_metrics := s_metrics s @ [m]\<rparr>"

definition publish_event :: "bus_event \<Rightarrow> session \<Rightarrow> session" where
  "publish_event e s = s\<lparr>s_bus := publish e (s_bus s)\<rparr>"

section \<open>Lifecycle\<close>

definition session_ready :: "(nat \<Rightarrow> real) \<Rightarrow> session \<Rightarrow> session" where
  "session_ready clk s = at_clock clk on_service_ready (at_clock clk on_session_start s)"

text \<open>
  \<^verbatim>\<open>greet\<close>: the responses it yields, given what the handler has to say. An opening without audio is
  spoken as text, in a text session only.
\<close>

definition greet :: "handler_response list \<Rightarrow> bytes list \<Rightarrow> string \<Rightarrow> session \<Rightarrow> handler_response list" where
  "greet opening payloads message s =
     opening @
     (if payloads \<noteq> [] then [empty_response\<lparr>hr_tts_payloads := payloads\<rparr>]
      else if cx_text_only (s_ctx s) \<and> message \<noteq> [] then [empty_response\<lparr>hr_agent_text := message\<rparr>]
      else [])"

text \<open>\<^verbatim>\<open>push_audio\<close> up to the call of the handler; whether the handler is called at all.\<close>

definition push_audio :: "bytes \<Rightarrow> session \<Rightarrow> session \<times> bool" where
  "push_audio payload s =
     (if \<not> can_accept_audio (s_fsm s) then (s, False)
      else (call_handler (OnAudio payload) (s\<lparr>s_audio_buffer := s_audio_buffer s @ payload\<rparr>), True))"

section \<open>Turns\<close>

definition speech_ended_states :: "call_fsm_state set" where
  "speech_ended_states = {LISTENING, RECOGNIZING}"

text \<open>The beginning of \<^verbatim>\<open>speech_ended\<close>; \<open>None\<close> when the message is ignored.\<close>

definition speech_begin :: "(nat \<Rightarrow> real) \<Rightarrow> int \<Rightarrow> real \<Rightarrow> session \<Rightarrow> session option" where
  "speech_begin clk duration_ms energy_db s =
     (if state (s_fsm s) \<notin> speech_ended_states then None
      else
        let audio = s_audio_buffer s;
            s1 = at_clock clk (on_speech_started energy_db) (s\<lparr>s_audio_buffer := []\<rparr>);
            s2 = drive (on_speech_ended duration_ms energy_db) s1
        in Some (call_handler (OnSpeechEnded audio duration_ms energy_db) s2))"

definition note_stt :: "(nat \<Rightarrow> real) \<Rightarrow> handler_response \<Rightarrow> session \<Rightarrow> session" where
  "note_stt clk r s =
     (if hr_stt_text r \<noteq> [] then at_clock clk (on_stt_final (hr_stt_text r) (hr_stt_confidence r)) s else s)"

definition speech_response ::
  "(nat \<Rightarrow> real) \<Rightarrow> handler_response \<Rightarrow> bool \<Rightarrow> session \<Rightarrow> session \<times> bool"
where
  "speech_response clk r first_tts s =
     (let s1 = note_stt clk r s
      in if hr_tts_payloads r \<noteq> [] \<and> first_tts
         then (at_clock clk on_first_audio_chunk (at_clock clk on_text_ready s1), False)
         else (s1, first_tts))"

definition mid_turn_states :: "call_fsm_state set" where
  "mid_turn_states = {RECOGNIZING, THINKING, SYNTHESIZING, SPEAKING}"

definition cancel_fsm :: "(nat \<Rightarrow> real) \<Rightarrow> session \<Rightarrow> session" where
  "cancel_fsm clk s = drive (\<lambda>f. on_cancel (clk (transition_count f)) (clk (Suc (transition_count f))) f) s"

text \<open>The tail of \<^verbatim>\<open>speech_ended\<close> and of \<^verbatim>\<open>text_input\<close>.\<close>

definition turn_finish :: "(nat \<Rightarrow> real) \<Rightarrow> session \<Rightarrow> session" where
  "turn_finish clk s = (if state (s_fsm s) \<in> mid_turn_states then cancel_fsm clk s else s)"

definition text_begin :: "(nat \<Rightarrow> real) \<Rightarrow> string \<Rightarrow> session \<Rightarrow> session option" where
  "text_begin clk content s =
     (if state (s_fsm s) \<notin> speech_ended_states then None
      else Some (call_handler (OnText content) (drive (on_speech_ended 0 0) (at_clock clk (on_speech_started 0) s))))"

definition playback_finished :: "(nat \<Rightarrow> real) \<Rightarrow> bool \<Rightarrow> session \<Rightarrow> session" where
  "playback_finished clk interrupted s = at_clock clk (on_playback_finished interrupted) s"

definition cancel :: "(nat \<Rightarrow> real) \<Rightarrow> session \<Rightarrow> session" where
  "cancel clk s = cancel_fsm clk (call_handler OnCancel (s\<lparr>s_audio_buffer := []\<rparr>))"

section \<open>Transfers\<close>

definition transfer_initiated ::
  "(nat \<Rightarrow> real) \<Rightarrow> string \<Rightarrow> string \<Rightarrow> string \<Rightarrow> string \<Rightarrow> session \<Rightarrow> session"
where
  "transfer_initiated clk ty destination reason transfer_id s =
     (let s1 = at_clock clk (on_transfer_requested destination reason) s;
          s2 = count_metric ''transfer_attempts_total'' s1;
          s3 = publish_event (TransferInitiatedEvent (sid_of s) ty destination reason transfer_id) s2
      in call_handler StartFinalization s3)"

text \<open>\<^verbatim>\<open>on_transfer_completed\<close> before and after it waits for the handler's clean-up.\<close>

definition transfer_completed_begin :: "(nat \<Rightarrow> real) \<Rightarrow> string \<Rightarrow> string \<Rightarrow> session \<Rightarrow> session" where
  "transfer_completed_begin clk destination transfer_id s =
     (let s1 = count_metric ''transfer_success_total'' (s\<lparr>s_transfer_outcome := Some ''TRANSFER_SUCCESS''\<rparr>);
          s2 = at_clock clk (on_transfer_completed True destination) s1;
          s3 = publish_event (TransferCompletedEvent (sid_of s) destination transfer_id) s2;
          s4 = publish_event (SessionFinalizing (sid_of s) ''transfer_completed'') s3
      in call_handler (FinalizeSession ''transfer_completed'') s4)"

definition transfer_completed_finish :: "(nat \<Rightarrow> real) \<Rightarrow> finalization_result \<Rightarrow> session \<Rightarrow> session" where
  "transfer_completed_finish clk res s =
     publish_event
       (ConversationFinalized (sid_of s) ''TRANSFER_SUCCESS'' (fr_summary res)
          (fr_summary_generated res) (fr_transcript_written res))
       (at_clock clk on_session_finalized s)"

definition transfer_failed_begin :: "(nat \<Rightarrow> real) \<Rightarrow> string \<Rightarrow> string \<Rightarrow> session \<Rightarrow> session" where
  "transfer_failed_begin clk destination reason s =
     (let s1 = s\<lparr>s_transfer_outcome :=
                  Some (if reason = ''transfer_timeout'' then ''TRANSFER_TIMEOUT'' else ''TRANSFER_FAILED'')\<rparr>;
          s2 = at_clock clk (on_transfer_failed_event reason) s1
      in call_handler (OnTransferFailed destination reason) s2)"

text \<open>The two flags of the loop over the apology are opposite to each other at all times: one is kept.\<close>

definition transfer_failed_response ::
  "(nat \<Rightarrow> real) \<Rightarrow> handler_response \<Rightarrow> bool \<Rightarrow> session \<Rightarrow> session \<times> bool"
where
  "transfer_failed_response clk r any_audio s =
     (if hr_tts_payloads r \<noteq> []
      then (if any_audio then s else at_clock clk on_recovery_response_ready s, True)
      else (s, any_audio))"

definition transfer_failed_finish ::
  "(nat \<Rightarrow> real) \<Rightarrow> string \<Rightarrow> string \<Rightarrow> string \<Rightarrow> bool \<Rightarrow> session \<Rightarrow> session"
where
  "transfer_failed_finish clk destination reason transfer_id any_audio s =
     (let s1 = (if any_audio then count_metric ''transfer_recovery_success_total'' s
                else at_clock clk (on_playback_finished False) (at_clock clk on_recovery_response_ready s))
      in publish_event (TransferFailedBus (sid_of s) destination reason transfer_id) s1)"

definition session_transfer_cancelled :: "string \<Rightarrow> session \<Rightarrow> session" where
  "session_transfer_cancelled transfer_id s =
     call_handler OnTransferCancelled
       (count_metric ''transfer_cancelled_total'' (s\<lparr>s_transfer_outcome := Some ''TRANSFER_CANCELLED''\<rparr>))"

section \<open>Close\<close>

definition generic_close_reasons :: "string set" where
  "generic_close_reasons = {''stream_ended'', ''close_timeout'', ''session_destroyed'', ''transport_error''}"

definition effective_reason :: "string option \<Rightarrow> string \<Rightarrow> string" where
  "effective_reason outcome reason =
     (case outcome of
        None \<Rightarrow> reason
      | Some o' \<Rightarrow>
          if o' = ''TRANSFER_SUCCESS'' then ''TRANSFER_SUCCESS''
          else if o' \<in> {''TRANSFER_FAILED'', ''TRANSFER_TIMEOUT''} \<and> reason \<in> generic_close_reasons then o'
          else reason)"

definition session_close :: "(nat \<Rightarrow> real) \<Rightarrow> string \<Rightarrow> session \<Rightarrow> session" where
  "session_close clk reason s =
     (let eff = effective_reason (s_transfer_outcome s) reason;
          s1 = s\<lparr>s_audio_buffer := []\<rparr>;
          s2 = (if is_terminal (s_fsm s1) then s1
                else at_clock clk on_close_acknowledged (at_clock clk (on_session_close reason) s1));
          s3 = call_handler (OnSessionEnd eff (s_transfer_outcome s)) s2
      in publish_event (SessionEnded (sid_of s) eff) s3)"

end
