(* ===== verification/Extractor.thy ===== *)
theory Extractor
  imports Workflow_Graph "HOL-Library.Multiset"
begin

text \<open>
  The background passes of a call (\<^verbatim>\<open>services/conversation/workflow/extractor.py\<close>) and the chat
  messages they read: variable extraction when a step is left, summaries of long histories, and the
  queues that hold both back until the live turn is over.

  A chat message carries its object identity \<open>m_oid\<close> (\<^verbatim>\<open>id(m)\<close>), because the summary is spliced
  in by identity. An \<^verbatim>\<open>asyncio\<close> task is a number that is never reused. The language model is a
  parameter that answers a list of messages with a text or an exception; so are \<^verbatim>\<open>json.loads\<close>
  and \<^verbatim>\<open>float()\<close>, whose floating-point results the model does not print.
\<close>

section \<open>Chat messages\<close>

record chat_message =
  m_oid :: nat
  m_role :: string
  m_content :: string
  m_tool_calls :: "(string \<times> pyval) list list option"
  m_tool_call_id :: "string option"

definition chat :: "nat \<Rightarrow> string \<Rightarrow> string \<Rightarrow> chat_message" where
  "chat i r c = \<lparr>m_oid = i, m_role = r, m_content = c, m_tool_calls = None, m_tool_call_id = None\<rparr>"

section \<open>Transition noise\<close>

text \<open>\<^verbatim>\<open>_goto_tool_call_ids\<close>: \<^verbatim>\<open>str(tc.get("name") or "")\<close>, \<^verbatim>\<open>tc["id"] if tc.get("id")\<close>.\<close>

definition call_name :: "(string \<times> pyval) list \<Rightarrow> string" where
  "call_name tc = py_str (py_or (py_get tc ''name'') (PStr []))"

definition goto_tool_call_ids :: "chat_message \<Rightarrow> string set option" where
  "goto_tool_call_ids msg =
     (case m_tool_calls msg of
        None \<Rightarrow> None
      | Some calls \<Rightarrow>
          if m_role msg \<noteq> ''assistant'' \<or> calls = [] then None
          else if \<not> list_all (\<lambda>tc. starts_with ''goto_'' (call_name tc)) calls then None
          else Some (set (map (\<lambda>tc. py_str (py_get tc ''id''))
                           (filter (\<lambda>tc. truthy (py_get tc ''id'')) calls))))"

definition drop_ids :: "chat_message list \<Rightarrow> string set" where
  "drop_ids history =
     fold (\<lambda>msg acc. case goto_tool_call_ids msg of Some ids \<Rightarrow> acc \<union> ids | None \<Rightarrow> acc) history {}"

definition is_noise :: "string set \<Rightarrow> chat_message \<Rightarrow> bool" where
  "is_noise ids msg \<longleftrightarrow>
     goto_tool_call_ids msg \<noteq> None \<or>
     (m_role msg = ''tool'' \<and>
      (case m_tool_call_id msg of Some i \<Rightarrow> i \<noteq> [] \<and> i \<in> ids | None \<Rightarrow> False))"

definition strip_transition_noise :: "chat_message list \<Rightarrow> chat_message list" where
  "strip_transition_noise history = filter (\<lambda>msg. \<not> is_noise (drop_ids history) msg) history"

definition message_line :: "chat_message \<Rightarrow> string" where
  "message_line m = m_role m @ '': '' @ py_strip (m_content m)"

definition nl :: string where
  "nl = [CHR 0x0A]"

definition transcript :: "chat_message list \<Rightarrow> string" where
  "transcript history =
     py_join nl (map message_line
       (filter (\<lambda>m. m_role m \<in> {''user'', ''assistant''} \<and> py_strip (m_content m) \<noteq> [])
          (strip_transition_noise history)))"

section \<open>Reading the model's answer\<close>

text \<open>\<^verbatim>\<open>str.find\<close>.\<close>

fun py_find :: "string \<Rightarrow> string \<Rightarrow> nat option" where
  "py_find sub [] = (if sub = [] then Some 0 else None)"
| "py_find sub (c # s) =
     (if starts_with sub (c # s) then Some 0 else map_option Suc (py_find sub s))"

definition fence :: string where
  "fence = [CHR 0x60, CHR 0x60, CHR 0x60]"

text \<open>
  \<^verbatim>\<open>_JSON_FENCE_RE.search(text).group(1)\<close>: between the first fence and the next one, without the
  word \<^verbatim>\<open>json\<close> and without the surrounding whitespace.
\<close>

definition json_fence :: "string \<Rightarrow> string option" where
  "json_fence txt =
     (case py_find fence txt of
        None \<Rightarrow> None
      | Some i \<Rightarrow>
          let r = drop (i + 3) txt;
              body = py_lstrip (if starts_with ''json'' r then drop 4 r else r)
          in (case py_find fence body of
                None \<Rightarrow> None
              | Some k \<Rightarrow> Some (py_rstrip (take k body))))"

text \<open>The exceptions that the body of \<^verbatim>\<open>_extract\<close> and \<^verbatim>\<open>_summarize\<close> tells apart.\<close>

datatype pass_exn = Cancelled | TimedOut | Failed

definition parse_json_object :: "(string \<Rightarrow> pyval option) \<Rightarrow> string \<Rightarrow> pass_exn + (string \<times> pyval) list" where
  "parse_json_object loads txt =
     (let candidate = (case json_fence txt of Some b \<Rightarrow> b | None \<Rightarrow> txt) in
      case (py_find ''{'' candidate, py_rfind ''}'' candidate) of
        (Some start, Some end_) \<Rightarrow>
          if end_ \<le> start then Inl Failed
          else (case loads (drop start (take (end_ + 1) candidate)) of
                  Some (PDict d) \<Rightarrow> Inr d
                | _ \<Rightarrow> Inl Failed)
      | _ \<Rightarrow> Inl Failed)"

definition MAX_EXTRACTED_STR_LEN :: nat where
  "MAX_EXTRACTED_STR_LEN = 256"

text \<open>\<^verbatim>\<open>_CONTROL_CHARS_RE\<close>.\<close>

definition control_char :: "char \<Rightarrow> bool" where
  "control_char c \<longleftrightarrow> (let n = (of_char c :: nat) in n \<le> 31 \<or> n = 127)"

definition BOOL_TRUE :: "string list" where
  "BOOL_TRUE = [''true'', ''yes'', ''1'']"

definition BOOL_FALSE :: "string list" where
  "BOOL_FALSE = [''false'', ''no'', ''0'']"

text \<open>
  \<^verbatim>\<open>_coerce\<close>: \<open>Inr None\<close> is \<^verbatim>\<open>None\<close>; an \<^verbatim>\<open>OverflowError\<close> of \<^verbatim>\<open>float()\<close> escapes.
\<close>

definition coerce_value :: "(pyval \<Rightarrow> py_exn + pyval) \<Rightarrow> pyval \<Rightarrow> string \<Rightarrow> py_exn + pyval option" where
  "coerce_value to_float value declared_type =
     (if value = PNone \<or> value = PStr [] then Inr None
      else if declared_type = ''number'' then
        (case to_float value of
           Inr f \<Rightarrow> Inr (Some f)
         | Inl TypeError \<Rightarrow> Inr None
         | Inl ValueError \<Rightarrow> Inr None
         | Inl e \<Rightarrow> Inl e)
      else if declared_type = ''boolean'' then
        (case value of
           PBool b \<Rightarrow> Inr (Some (PBool b))
         | _ \<Rightarrow>
             let token = py_lower (py_strip (py_str value)) in
             Inr (if token \<in> set BOOL_TRUE then Some (PBool True)
                  else if token \<in> set BOOL_FALSE then Some (PBool False) else None))
      else
        let txt = py_str value in
        if list_ex control_char txt then Inr None
        else Inr (Some (PStr (if length txt > MAX_EXTRACTED_STR_LEN
                              then take MAX_EXTRACTED_STR_LEN txt else txt))))"

text \<open>The two dictionary comprehensions of \<^verbatim>\<open>_extract\<close>.\<close>

fun extracted_values ::
  "(pyval \<Rightarrow> py_exn + pyval) \<Rightarrow> (string \<times> pyval) list \<Rightarrow> extraction_variable list
     \<Rightarrow> (string, pyval option) odict \<Rightarrow> py_exn + (string, pyval option) odict"
where
  "extracted_values to_float parsed [] acc = Inr acc"
| "extracted_values to_float parsed (v # vs) acc =
     (if py_get parsed (ev_name v) = PNone then extracted_values to_float parsed vs acc
      else
        case coerce_value to_float (py_get parsed (ev_name v)) (ev_type v) of
          Inl e \<Rightarrow> Inl e
        | Inr c \<Rightarrow> extracted_values to_float parsed vs (od_set (ev_name v) c acc))"

definition present_values :: "(string, pyval option) odict \<Rightarrow> (string \<times> pyval) list" where
  "present_values d = concat (map (\<lambda>(k, c). case c of Some v \<Rightarrow> [(k, v)] | None \<Rightarrow> []) d)"

definition EXTRACT_SYSTEM :: string where
  "EXTRACT_SYSTEM = ''Reply with a single JSON object only. No prose, no markdown.''"

definition SUMMARY_SYSTEM :: string where
  "SUMMARY_SYSTEM = ''Reply with a short plain-text summary only. No preamble.''"

text \<open>The prompt of the source has an em dash before "never guess", written as two hyphens here.\<close>

definition extract_prompt :: "extraction \<Rightarrow> chat_message list \<Rightarrow> string" where
  "extract_prompt spec history =
     (if py_strip (ex_prompt spec) \<noteq> []
      then ''You are extracting structured data from a phone call transcript.'' @ nl
           @ py_strip (ex_prompt spec) @ nl @ nl
      else ''You are extracting structured data from a phone call transcript.'' @ nl @ nl)
     @ ''Transcript so far:'' @ nl @ transcript history @ nl @ nl
     @ ''Extract these values:'' @ nl
     @ py_join nl (map (\<lambda>v. ''- '' @ ev_name v @ '' ('' @ ev_type v @ ''): '' @ ev_prompt v)
                     (ex_variables spec)) @ nl @ nl
     @ ''Reply with a single JSON object whose keys are exactly the names above. ''
     @ ''Use null for anything the caller did not actually say -- never guess.''"

text \<open>
  \<^verbatim>\<open>_extract\<close>: the values it hands to \<^verbatim>\<open>on_variables\<close> (\<open>Inr []\<close>: it is not called), or the
  cancellation, the only exception that leaves it. The two messages it sends are fresh objects.
\<close>

definition run_extract ::
  "(chat_message list \<Rightarrow> pass_exn + string) \<Rightarrow> (string \<Rightarrow> pyval option) \<Rightarrow> (pyval \<Rightarrow> py_exn + pyval)
     \<Rightarrow> nat \<Rightarrow> node \<Rightarrow> chat_message list \<Rightarrow> pass_exn + (string \<times> pyval) list"
where
  "run_extract collect loads to_float fresh n history =
     (case n_extraction n of
        None \<Rightarrow> Inr []
      | Some spec \<Rightarrow>
          (case collect [chat fresh ''system'' EXTRACT_SYSTEM,
                         chat (fresh + 1) ''user'' (extract_prompt spec history)] of
             Inl Cancelled \<Rightarrow> Inl Cancelled
           | Inl _ \<Rightarrow> Inr []
           | Inr raw \<Rightarrow>
               (case parse_json_object loads raw of
                  Inl _ \<Rightarrow> Inr []
                | Inr parsed \<Rightarrow>
                    (case extracted_values to_float parsed (ex_variables spec) [] of
                       Inl _ \<Rightarrow> Inr []
                     | Inr values \<Rightarrow> Inr (present_values values)))))"

section \<open>The extraction queue\<close>

type_synonym job = "node \<times> chat_message list"

record extractor =
  x_deferred :: "job list"
  x_pending :: "nat list"
  x_inflight :: "(nat, job) odict"
  x_final_done :: bool
  x_next_task :: nat

definition extractor_init :: extractor where
  "extractor_init =
     \<lparr>x_deferred = [], x_pending = [], x_inflight = [], x_final_done = False, x_next_task = 0\<rparr>"

definition wants_extraction :: "node \<Rightarrow> bool" where
  "wants_extraction n \<longleftrightarrow>
     (case n_extraction n of Some spec \<Rightarrow> ex_enabled spec \<and> ex_variables spec \<noteq> [] | None \<Rightarrow> False)"

definition queue_extract :: "node \<Rightarrow> chat_message list \<Rightarrow> extractor \<Rightarrow> extractor" where
  "queue_extract n history x =
     (if \<not> wants_extraction n then x else x\<lparr>x_deferred := x_deferred x @ [(n, history)]\<rparr>)"

text \<open>One round of the loop of \<^verbatim>\<open>start_deferred\<close>: a new task takes the job.\<close>

definition spawn_job :: "job \<Rightarrow> extractor \<Rightarrow> extractor" where
  "spawn_job j x =
     x\<lparr>x_pending := x_pending x @ [x_next_task x],
       x_inflight := od_set (x_next_task x) j (x_inflight x),
       x_next_task := x_next_task x + 1\<rparr>"

definition start_deferred :: "extractor \<Rightarrow> extractor" where
  "start_deferred x = fold spawn_job (x_deferred x) (x\<lparr>x_deferred := []\<rparr>)"

definition on_task_done :: "nat \<Rightarrow> extractor \<Rightarrow> extractor" where
  "on_task_done t x =
     x\<lparr>x_pending := filter (\<lambda>u. u \<noteq> t) (x_pending x), x_inflight := od_del t (x_inflight x)\<rparr>"

text \<open>\<^verbatim>\<open>interrupt_for_live_turn\<close>: the set of pending tasks is visited in the order \<open>order\<close>.\<close>

definition requeue_task :: "nat \<Rightarrow> extractor \<Rightarrow> extractor" where
  "requeue_task t x =
     (case od_get (x_inflight x) t of
        Some j \<Rightarrow> x\<lparr>x_inflight := od_del t (x_inflight x), x_deferred := x_deferred x @ [j]\<rparr>
      | None \<Rightarrow> x)"

definition interrupt_for_live_turn :: "(nat list \<Rightarrow> nat list) \<Rightarrow> extractor \<Rightarrow> extractor" where
  "interrupt_for_live_turn order x = (fold requeue_task (order (x_pending x)) x)\<lparr>x_pending := []\<rparr>"

definition cancel_pending :: "extractor \<Rightarrow> extractor" where
  "cancel_pending x = x\<lparr>x_deferred := [], x_pending := [], x_inflight := []\<rparr>"

text \<open>\<^verbatim>\<open>flush\<close>: \<^verbatim>\<open>gather\<close> returns when every pending task has finished and run its callback.\<close>

definition flush_extracts :: "extractor \<Rightarrow> extractor" where
  "flush_extracts x = fold on_task_done (x_pending x) x"

text \<open>\<^verbatim>\<open>extract_final\<close>: whether the final pass runs.\<close>

definition extract_final :: "node \<Rightarrow> extractor \<Rightarrow> bool \<times> extractor" where
  "extract_final n x =
     (if x_final_done x \<or> \<not> wants_extraction n then (False, x)
      else (True, x\<lparr>x_final_done := True\<rparr>))"

datatype ext_event =
    Extract node "chat_message list"
  | StartDeferred
  | TaskDone nat
  | Interrupt
  | CancelPending
  | Flush

fun ext_step :: "(nat list \<Rightarrow> nat list) \<Rightarrow> ext_event \<Rightarrow> extractor \<Rightarrow> extractor" where
  "ext_step order (Extract n h) x = queue_extract n h x"
| "ext_step order StartDeferred x = start_deferred x"
| "ext_step order (TaskDone t) x = on_task_done t x"
| "ext_step order Interrupt x = interrupt_for_live_turn order x"
| "ext_step order CancelPending x = cancel_pending x"
| "ext_step order Flush x = flush_extracts x"

text \<open>The jobs an event hands in, and the jobs of the tasks it reports as finished.\<close>

fun handed_in :: "ext_event \<Rightarrow> job multiset" where
  "handed_in (Extract n h) = (if wants_extraction n then {#(n, h)#} else {#})"
| "handed_in _ = {#}"

definition outstanding :: "extractor \<Rightarrow> job multiset" where
  "outstanding x = mset (x_deferred x) + mset (map snd (x_inflight x))"

fun finished_by :: "ext_event \<Rightarrow> extractor \<Rightarrow> job multiset" where
  "finished_by (TaskDone t) x = (case od_get (x_inflight x) t of Some j \<Rightarrow> {#j#} | None \<Rightarrow> {#})"
| "finished_by CancelPending x = outstanding x"
| "finished_by Flush x = mset (map snd (x_inflight x))"
| "finished_by _ x = {#}"


definition ext_ok :: "extractor \<Rightarrow> bool" where
  "ext_ok x \<longleftrightarrow>
     od_ok (x_inflight x) \<and> distinct (x_pending x) \<and>
     set (od_keys (x_inflight x)) = set (x_pending x) \<and> (\<forall>t \<in> set (x_pending x). t < x_next_task x)"

lemma mset_od_del:
  "od_ok d \<Longrightarrow> od_get d k = Some v \<Longrightarrow> mset (map snd d) = add_mset v (mset (map snd (od_del k d)))"
proof (induction d)
  case (Cons p d)
  show ?case
  proof (cases "fst p = k")
    case True
    then have "k \<notin> fst ` set d" using Cons.prems(1) by auto
    then have "filter (\<lambda>q. fst q \<noteq> k) d = d" by (auto simp: filter_id_conv)
    then show ?thesis using True Cons.prems by (cases p) (auto simp: od_get_def od_del_def)
  next
    case False
    then show ?thesis using Cons by (cases p) (auto simp: od_get_def od_del_def)
  qed
qed (simp add: od_get_def)

lemma od_del_absent: "od_get d k = None \<Longrightarrow> od_del k d = d"
  by (auto simp: od_get_None_iff od_del_def filter_id_conv)

lemma ext_ok_init: "ext_ok extractor_init"
  by (simp add: ext_ok_def extractor_init_def)

lemma spawn_job_ok:
  assumes "ext_ok x"
  shows "ext_ok (spawn_job j x) \<and> outstanding (spawn_job j x) = add_mset j (outstanding x) \<and>
         x_deferred (spawn_job j x) = x_deferred x"
proof -
  have new: "od_get (x_inflight x) (x_next_task x) = None"
    using assms by (auto simp: ext_ok_def od_get_None_iff)
  then show ?thesis
    using assms by (auto simp: ext_ok_def spawn_job_def outstanding_def od_set_new od_get_None_iff)
qed

lemma fold_spawn_ok:
  "ext_ok x \<Longrightarrow> ext_ok (fold spawn_job js x) \<and>
     outstanding (fold spawn_job js x) = mset js + outstanding x \<and>
     x_deferred (fold spawn_job js x) = x_deferred x"
  by (induction js arbitrary: x) (auto simp: spawn_job_ok)

lemma start_deferred_ok:
  assumes "ext_ok x"
  shows "ext_ok (start_deferred x) \<and> outstanding (start_deferred x) = outstanding x \<and>
         x_deferred (start_deferred x) = []"
proof -
  have "ext_ok (x\<lparr>x_deferred := []\<rparr>)" using assms by (simp add: ext_ok_def)
  from fold_spawn_ok [OF this, of "x_deferred x"] show ?thesis
    by (auto simp: start_deferred_def outstanding_def)
qed

lemma on_task_done_ok:
  assumes "ext_ok x"
  shows "ext_ok (on_task_done t x) \<and>
         outstanding x = finished_by (TaskDone t) x + outstanding (on_task_done t x)"
proof -
  have "ext_ok (on_task_done t x)"
    using assms by (auto simp: ext_ok_def on_task_done_def od_keys_del)
  moreover have "outstanding x = finished_by (TaskDone t) x + outstanding (on_task_done t x)"
  proof (cases "od_get (x_inflight x) t")
    case None
    then show ?thesis by (simp add: outstanding_def on_task_done_def od_del_absent)
  next
    case (Some j)
    then show ?thesis
      using assms mset_od_del [OF _ Some] by (simp add: outstanding_def on_task_done_def ext_ok_def)
  qed
  ultimately show ?thesis ..
qed

text \<open>Requeueing keeps the jobs; a task that is requeued is no longer in flight.\<close>

lemma requeue_fold:
  assumes "od_ok (x_inflight x)"
  shows "od_ok (x_inflight (fold requeue_task ts x)) \<and>
         outstanding (fold requeue_task ts x) = outstanding x \<and>
         set (od_keys (x_inflight (fold requeue_task ts x))) = set (od_keys (x_inflight x)) - set ts"
  using assms
proof (induction ts arbitrary: x)
  case (Cons t ts)
  show ?case
  proof (cases "od_get (x_inflight x) t")
    case None
    then have "requeue_task t x = x" by (simp add: requeue_task_def)
    then show ?thesis using Cons.IH [OF Cons.prems] None by (auto simp: od_get_None_iff)
  next
    case (Some j)
    let ?y = "x\<lparr>x_inflight := od_del t (x_inflight x), x_deferred := x_deferred x @ [j]\<rparr>"
    have y: "requeue_task t x = ?y" using Some by (simp add: requeue_task_def)
    have "outstanding ?y = outstanding x"
      using mset_od_del [OF Cons.prems Some] by (simp add: outstanding_def)
    then show ?thesis using Cons.IH [of ?y] Cons.prems y by (auto simp: od_keys_del)
  qed
qed simp

lemma interrupt_ok:
  assumes ok: "ext_ok x" and order: "\<And>ts. set (order ts) = set ts"
  shows "ext_ok (interrupt_for_live_turn order x) \<and>
         outstanding (interrupt_for_live_turn order x) = outstanding x \<and>
         x_inflight (interrupt_for_live_turn order x) = [] \<and>
         x_pending (interrupt_for_live_turn order x) = []"
proof -
  have "od_ok (x_inflight x)" using ok by (simp add: ext_ok_def)
  note f = requeue_fold [OF this, of "order (x_pending x)"]
  then have "x_inflight (fold requeue_task (order (x_pending x)) x) = []"
    using ok order by (simp add: ext_ok_def)
  then show ?thesis using f by (simp add: interrupt_for_live_turn_def ext_ok_def outstanding_def)
qed

lemma fold_done_ok:
  assumes "ext_ok x"
  shows "ext_ok (fold on_task_done ts x) \<and>
         set (x_pending (fold on_task_done ts x)) = set (x_pending x) - set ts \<and>
         x_deferred (fold on_task_done ts x) = x_deferred x"
  using assms
proof (induction ts arbitrary: x)
  case (Cons t ts)
  have "ext_ok (on_task_done t x)" using on_task_done_ok [OF Cons.prems] by blast
  from Cons.IH [OF this] show ?case by (auto simp: on_task_done_def)
qed simp

lemma flush_ok:
  assumes "ext_ok x"
  shows "ext_ok (flush_extracts x) \<and> x_inflight (flush_extracts x) = [] \<and>
         x_deferred (flush_extracts x) = x_deferred x"
  using fold_done_ok [OF assms, of "x_pending x"] by (auto simp: flush_extracts_def ext_ok_def)

lemma ext_step_ok:
  assumes "ext_ok x" and "\<And>ts. set (order ts) = set ts"
  shows "ext_ok (ext_step order e x) \<and>
         outstanding x + handed_in e = finished_by e x + outstanding (ext_step order e x)"
proof (cases e)
  case (Extract n h)
  then show ?thesis using assms(1) by (auto simp: queue_extract_def ext_ok_def outstanding_def)
next
  case StartDeferred
  then show ?thesis using start_deferred_ok [OF assms(1)] by simp
next
  case (TaskDone t)
  then show ?thesis using on_task_done_ok [OF assms(1), of t] by simp
next
  case Interrupt
  then show ?thesis using interrupt_ok [OF assms] by simp
next
  case CancelPending
  then show ?thesis by (simp add: cancel_pending_def ext_ok_def outstanding_def)
next
  case Flush
  then show ?thesis using flush_ok [OF assms(1)] by (simp add: outstanding_def)
qed

text \<open>The queue as a machine driven by events; any order of visiting a set lists its elements.\<close>

interpretation ext_machine: event_machine extractor_init "ext_step (\<lambda>ts. ts)" ext_ok
  by unfold_locales (auto intro: ext_ok_init ext_step_ok [THEN conjunct1])



definition sample_asking_node :: node where
  "sample_asking_node =
     (sample_node ''s'' ''start'' ''hello'' [])
       \<lparr>n_extraction := Some \<lparr>ex_enabled = True, ex_prompt = [],
          ex_variables = [\<lparr>ev_name = ''name'', ev_type = ''string'', ev_prompt = []\<rparr>]\<rparr>\<rparr>"


section \<open>Summaries\<close>

definition SUMMARY_KEEP_LAST :: int where
  "SUMMARY_KEEP_LAST = 4"

definition summary_threshold_for :: "int \<Rightarrow> int" where
  "summary_threshold_for max_history =
     min (max (SUMMARY_KEEP_LAST + 2) (max_history * 2 - 4)) (max_history * 2)"

text \<open>The queue of at most one summary. A history is a reference to a list that lives on.\<close>

record summarizer =
  s_threshold :: int
  s_keep_last :: int
  s_deferred :: "nat option"
  s_task :: "(nat \<times> bool) option"
  s_inflight_history :: "nat option"
  s_next_task :: nat

definition has_background_work :: "summarizer \<Rightarrow> bool" where
  "has_background_work z \<longleftrightarrow> (case s_task z of Some (_, fin) \<Rightarrow> \<not> fin | None \<Rightarrow> False)"

definition maybe_summarize :: "nat \<Rightarrow> chat_message list \<Rightarrow> summarizer \<Rightarrow> summarizer" where
  "maybe_summarize r history z =
     (if int (length history) \<le> s_threshold z then z else z\<lparr>s_deferred := Some r\<rparr>)"

definition sum_start_deferred :: "summarizer \<Rightarrow> summarizer" where
  "sum_start_deferred z =
     (case s_deferred z of
        None \<Rightarrow> z
      | Some r \<Rightarrow> z\<lparr>s_deferred := None, s_inflight_history := Some r,
                    s_task := Some (s_next_task z, False), s_next_task := s_next_task z + 1\<rparr>)"

definition sum_on_task_done :: "nat \<Rightarrow> summarizer \<Rightarrow> summarizer" where
  "sum_on_task_done t z =
     (case s_task z of
        Some (u, _) \<Rightarrow> if u = t then z\<lparr>s_task := None, s_inflight_history := None\<rparr> else z
      | None \<Rightarrow> z)"

definition sum_interrupt :: "summarizer \<Rightarrow> summarizer" where
  "sum_interrupt z =
     (if has_background_work z
      then z\<lparr>s_task := None, s_inflight_history := None,
             s_deferred := (case s_deferred z of None \<Rightarrow> s_inflight_history z | d \<Rightarrow> d)\<rparr>
      else z)"

definition sum_cancel :: "summarizer \<Rightarrow> summarizer" where
  "sum_cancel z = z\<lparr>s_deferred := None, s_inflight_history := None, s_task := None\<rparr>"

text \<open>Python's \<^verbatim>\<open>xs[i]\<close>: a negative index counts from the end; \<open>None\<close> is \<^verbatim>\<open>IndexError\<close>.\<close>

definition py_index :: "'a list \<Rightarrow> int \<Rightarrow> 'a option" where
  "py_index xs i =
     (if 0 \<le> i \<and> i < int (length xs) then Some (xs ! nat i)
      else if i < 0 \<and> - int (length xs) \<le> i then Some (xs ! nat (int (length xs) + i))
      else None)"

text \<open>The loop that moves the cut behind tool results.\<close>

function skip_tools :: "chat_message list \<Rightarrow> int \<Rightarrow> int option" where
  "skip_tools history cutoff =
     (if cutoff < int (length history) then
        (case py_index history cutoff of
           None \<Rightarrow> None
         | Some m \<Rightarrow> if m_role m = ''tool'' then skip_tools history (cutoff + 1) else Some cutoff)
      else Some cutoff)"
  by pat_completeness auto
termination
  by (relation "measure (\<lambda>(h, c). nat (int (length h) - c))") auto

declare skip_tools.simps [simp del]

text \<open>What is to be replaced by a summary, if anything, and the prompt for it.\<close>

definition summary_plan :: "int \<Rightarrow> chat_message list \<Rightarrow> chat_message list option" where
  "summary_plan keep_last history =
     (case skip_tools history (int (length history) - keep_last) of
        None \<Rightarrow> None
      | Some cutoff \<Rightarrow>
          if cutoff \<le> 1 \<or> cutoff \<ge> int (length history) then None
          else let to_replace = drop 1 (take (nat cutoff) history)
               in if strip_transition_noise to_replace = [] then None else Some to_replace)"

definition summary_prompt :: "chat_message list \<Rightarrow> string" where
  "summary_prompt to_replace =
     ''Summarize this part of an ongoing phone call in a short paragraph. ''
     @ ''Keep every concrete fact the caller gave -- names, numbers, dates, ''
     @ ''what they asked for, what was agreed. Do not add anything they ''
     @ ''did not say.'' @ nl @ nl
     @ py_join nl (map message_line
         (filter (\<lambda>m. py_strip (m_content m) \<noteq> []) (strip_transition_noise to_replace)))"

text \<open>
  The splice by identity, on the history as it is when the answer arrives: \<open>None\<close> leaves it alone.
\<close>

definition summary_splice ::
  "nat \<Rightarrow> chat_message list \<Rightarrow> string \<Rightarrow> chat_message list \<Rightarrow> chat_message list option"
where
  "summary_splice fresh to_replace summary history =
     (case history of
        [] \<Rightarrow> None
      | m0 # rest \<Rightarrow>
          if m_role m0 \<noteq> ''system'' then None
          else if \<not> list_ex (\<lambda>m. m_oid m \<in> set (map m_oid to_replace)) rest then None
          else
            let kept = dropWhile (\<lambda>m. m_role m = ''tool'')
                         (filter (\<lambda>m. m_oid m \<notin> set (map m_oid to_replace)) rest)
            in Some (m0 # chat fresh ''user'' (''[Earlier in this call]'' @ nl @ summary) # kept))"

text \<open>
  \<^verbatim>\<open>_summarize\<close>: the history when the call to the model starts, the answer, and the history when
  the answer arrives; the result is the history afterwards, or the cancellation.
\<close>

definition run_summarize ::
  "(chat_message list \<Rightarrow> pass_exn + string) \<Rightarrow> int \<Rightarrow> nat \<Rightarrow> chat_message list \<Rightarrow> chat_message list
     \<Rightarrow> pass_exn + chat_message list"
where
  "run_summarize collect keep_last fresh before after =
     (case summary_plan keep_last before of
        None \<Rightarrow> Inr before
      | Some to_replace \<Rightarrow>
          (case collect [chat fresh ''system'' SUMMARY_SYSTEM,
                         chat (fresh + 1) ''user'' (summary_prompt to_replace)] of
             Inl Cancelled \<Rightarrow> Inl Cancelled
           | Inl _ \<Rightarrow> Inr after
           | Inr answer \<Rightarrow>
               if py_strip answer = [] then Inr after
               else (case summary_splice (fresh + 2) to_replace (py_strip answer) after of
                       None \<Rightarrow> Inr after
                     | Some h \<Rightarrow> Inr h)))"

lemma summary_splice_shape:
  assumes "summary_splice fresh to_replace summary (m0 # rest) = Some h"
  shows "\<exists>s. m_role s = ''user'' \<and>
    h = m0 # s # dropWhile (\<lambda>m. m_role m = ''tool'')
                   (filter (\<lambda>m. m_oid m \<notin> set (map m_oid to_replace)) rest)"
  using assms
  by (auto simp: summary_splice_def Let_def chat_def simp del: set_map split: if_splits)

lemma skip_tools_spec:
  assumes "skip_tools history c = Some d" and "0 \<le> c" and "c \<le> int (length history)"
  shows "c \<le> d \<and> d \<le> int (length history) \<and>
    (\<forall>i. nat c \<le> i \<and> i < nat d \<longrightarrow> m_role (history ! i) = ''tool'') \<and>
    (d < int (length history) \<longrightarrow> m_role (history ! nat d) \<noteq> ''tool'')"
  using assms
proof (induction history c rule: skip_tools.induct)
  case (1 history c)
  show ?case
  proof (cases "c < int (length history)")
    case False
    then show ?thesis using 1(2-) by (subst (asm) (1) skip_tools.simps) auto
  next
    case True
    have idx: "py_index history c = Some (history ! nat c)" using True 1(3) by (simp add: py_index_def)
    show ?thesis
    proof (cases "m_role (history ! nat c) = ''tool''")
      case t: True
      have "skip_tools history (c + 1) = Some d"
        using 1(2) True idx t by (subst (asm) (1) skip_tools.simps) simp
      from 1(1) [OF True idx t this] 1(3) True
      have ih: "c + 1 \<le> d" "d \<le> int (length history)"
        "\<forall>i. nat (c + 1) \<le> i \<and> i < nat d \<longrightarrow> m_role (history ! i) = ''tool''"
        "d < int (length history) \<longrightarrow> m_role (history ! nat d) \<noteq> ''tool''" by auto
      have "m_role (history ! i) = ''tool''" if "nat c \<le> i" "i < nat d" for i
        using that ih(3) t 1(3) by (cases "i = nat c") auto
      then show ?thesis using ih by auto
    next
      case False
      then have "d = c" using 1(2) True idx by (subst (asm) (1) skip_tools.simps) simp
      then show ?thesis using False True by auto
    qed
  qed
qed

lemma filter_oid_suffix:
  assumes "distinct (map m_oid (a @ b))"
  shows "filter (\<lambda>m. m_oid m \<notin> set (map m_oid a)) (a @ b) = b"
proof -
  have "filter (\<lambda>m. m_oid m \<notin> set (map m_oid a)) a = []" by (auto simp: filter_empty_conv)
  moreover have "filter (\<lambda>m. m_oid m \<notin> set (map m_oid a)) b = b"
    using assms by (auto simp: filter_id_conv)
  ultimately show ?thesis by simp
qed

lemma summary_plan_spec:
  assumes "summary_plan keep_last history = Some to_replace" and "0 \<le> keep_last"
    and "keep_last \<le> int (length history)"
  obtains c where "1 < c" "c < length history" "int (length history) - keep_last \<le> int c"
    "\<forall>i. length history - nat keep_last \<le> i \<and> i < c \<longrightarrow> m_role (history ! i) = ''tool''"
    "m_role (history ! c) \<noteq> ''tool''" "to_replace = drop 1 (take c history)" "to_replace \<noteq> []"
proof -
  let ?c0 = "int (length history) - keep_last"
  obtain d where d: "skip_tools history ?c0 = Some d" "1 < d" "d < int (length history)"
    "to_replace = drop 1 (take (nat d) history)"
    using assms(1) by (auto simp: summary_plan_def Let_def split: option.splits if_splits)
  note sp = skip_tools_spec [OF d(1)]
  have c0: "0 \<le> ?c0" "?c0 \<le> int (length history)" "nat ?c0 = length history - nat keep_last"
    using assms(2,3) by auto
  show ?thesis
  proof (rule that [of "nat d"])
    show "1 < nat d" "nat d < length history" using d by auto
    show "to_replace \<noteq> []" using d by auto
  qed (use sp c0 d in auto)
qed

text \<open>
  A summary never disturbs the live end of the conversation: when the history only grew while
  the model was working, the result is either the history unchanged, or the system message, the
  summary, and every message from a cut on, the messages that arrived meanwhile included. The cut
  lies at most the configured number of messages from the end, moved over tool results only, so
  that no tool result is left without the call it answers.
\<close>

theorem summary_keeps_recent:
  assumes "run_summarize collect keep_last fresh before (before @ new) = Inr h"
    and "0 \<le> keep_last" and "keep_last \<le> int (length before)"
    and "distinct (map m_oid (before @ new))"
  shows "h = before \<or> h = before @ new \<or>
    (\<exists>c s. 1 < c \<and> c < length before \<and> length before - nat keep_last \<le> c \<and>
       (\<forall>i. length before - nat keep_last \<le> i \<and> i < c \<longrightarrow> m_role (before ! i) = ''tool'') \<and>
       m_role (before ! c) \<noteq> ''tool'' \<and> m_role s = ''user'' \<and>
       h = hd before # s # drop c before @ new)"
proof (cases "h = before \<or> h = before @ new")
  case False
  then obtain to_replace answer where p: "summary_plan keep_last before = Some to_replace"
    and sp: "summary_splice (fresh + 2) to_replace (py_strip answer) (before @ new) = Some h"
    using assms(1) by (auto simp: run_summarize_def split: option.splits sum.splits pass_exn.splits if_splits)
  obtain c where c: "1 < c" "c < length before" "int (length before) - keep_last \<le> int c"
    "\<forall>i. length before - nat keep_last \<le> i \<and> i < c \<longrightarrow> m_role (before ! i) = ''tool''"
    "m_role (before ! c) \<noteq> ''tool''" "to_replace = drop 1 (take c before)"
    by (rule summary_plan_spec [OF p assms(2,3)])
  obtain m0 rest where b: "before = m0 # rest" using c(2) by (cases before) auto
  have rest: "rest @ new = to_replace @ (drop c before @ new)"
    using c(1,6) b by (cases c) auto
  have "distinct (map m_oid (to_replace @ (drop c before @ new)))"
    using assms(4) b rest by (metis append_Cons distinct.simps(2) list.simps(9))
  from filter_oid_suffix [OF this]
  have kept: "filter (\<lambda>m. m_oid m \<notin> set (map m_oid to_replace)) (rest @ new) = drop c before @ new"
    unfolding rest .
  have "drop c before = before ! c # drop (Suc c) before" using c(2) by (simp add: Cons_nth_drop_Suc)
  then have dw: "dropWhile (\<lambda>m. m_role m = ''tool'') (drop c before @ new) = drop c before @ new"
    using c(5) by simp
  obtain s where s: "m_role s = ''user''" "h = m0 # s # (drop c before @ new)"
    using summary_splice_shape [OF sp [unfolded b append_Cons]] kept dw by auto
  have "length before - nat keep_last \<le> c" using c(3) assms(2) by linarith
  then show ?thesis using c(1,2,4,5) s b by auto
qed auto

text \<open>A finished summary of a five-message history, of which two messages are to be kept.\<close>

definition sample_history :: "chat_message list" where
  "sample_history =
     [chat 0 ''system'' ''Be kind.'', chat 1 ''user'' ''Hello'', chat 2 ''assistant'' ''Hi'',
      chat 3 ''user'' ''A table for two'', chat 4 ''assistant'' ''When?'']"

theorem summary_keeps_recent_witness:
  "\<exists>c s. 1 < c \<and> c < length sample_history \<and> length sample_history - nat 2 \<le> c \<and>
     (\<forall>i. length sample_history - nat 2 \<le> i \<and> i < c \<longrightarrow> m_role (sample_history ! i) = ''tool'') \<and>
     m_role (sample_history ! c) \<noteq> ''tool'' \<and> m_role s = ''user'' \<and>
     run_summarize (\<lambda>_. Inr ''A greeting.'') 2 10 sample_history (sample_history @ [chat 5 ''user'' ''At eight''])
       = Inr (hd sample_history # s # drop c sample_history @ [chat 5 ''user'' ''At eight''])"
proof -
  let ?new = "[chat 5 ''user'' ''At eight'']"
  let ?s = "chat 12 ''user'' (''[Earlier in this call]'' @ nl @ ''A greeting.'')"
  let ?h = "hd sample_history # ?s # drop 3 sample_history @ ?new"
  have r: "run_summarize (\<lambda>_. Inr ''A greeting.'') 2 10 sample_history (sample_history @ ?new) = Inr ?h"
    by (simp add: run_summarize_def summary_plan_def skip_tools.simps py_index_def sample_history_def
        chat_def strip_transition_noise_def is_noise_def drop_ids_def goto_tool_call_ids_def
        summary_splice_def py_strip_def py_lstrip_def py_rstrip_def py_space_def nl_def)
  have "?h \<noteq> sample_history" "?h \<noteq> sample_history @ ?new" by (simp_all add: sample_history_def chat_def)
  then show ?thesis
    using summary_keeps_recent [OF r] unfolding r
    by (simp add: sample_history_def chat_def)
qed

section \<open>Safety of extracted values\<close>

definition value_ok :: "(pyval \<Rightarrow> py_exn + pyval) \<Rightarrow> string \<Rightarrow> pyval \<Rightarrow> bool" where
  "value_ok to_float ty v \<longleftrightarrow>
     (if ty = ''number'' then v \<in> {f. \<exists>a. to_float a = Inr f}
      else if ty = ''boolean'' then v = PBool True \<or> v = PBool False
      else (case v of
              PStr t \<Rightarrow> length t \<le> MAX_EXTRACTED_STR_LEN \<and> list_all (\<lambda>c. \<not> control_char c) t
            | _ \<Rightarrow> False))"

lemma coerce_value_ok: "coerce_value to_float a ty = Inr (Some v) \<Longrightarrow> value_ok to_float ty v"
  by (auto simp: coerce_value_def value_ok_def Let_def list_all_iff list_ex_iff
      split: if_splits sum.splits py_exn.splits pyval.splits dest: in_set_takeD)

lemma extracted_values_ok:
  assumes "extracted_values to_float parsed vs acc = Inr d"
    and "\<forall>(k, c) \<in> set acc. \<forall>v. c = Some v \<longrightarrow> (\<exists>ev \<in> V. ev_name ev = k \<and> value_ok to_float (ev_type ev) v)"
    and "set vs \<subseteq> V"
  shows "\<forall>(k, c) \<in> set d. \<forall>v. c = Some v \<longrightarrow> (\<exists>ev \<in> V. ev_name ev = k \<and> value_ok to_float (ev_type ev) v)"
  using assms
proof (induction to_float parsed vs acc rule: extracted_values.induct)
  case (2 to_float parsed ev vs acc)
  show ?case
  proof (cases "py_get parsed (ev_name ev) = PNone")
    case True
    then show ?thesis using 2 by simp
  next
    case False
    then obtain c where c: "coerce_value to_float (py_get parsed (ev_name ev)) (ev_type ev) = Inr c"
      using "2.prems"(1) by (auto split: sum.splits)
    have "set (od_set (ev_name ev) c acc) \<subseteq> insert (ev_name ev, c) (set acc)"
      by (induction "ev_name ev" c acc rule: od_set.induct) auto
    then have "\<forall>(k, c) \<in> set (od_set (ev_name ev) c acc). \<forall>v. c = Some v \<longrightarrow>
        (\<exists>ev \<in> V. ev_name ev = k \<and> value_ok to_float (ev_type ev) v)"
      using "2.prems"(2,3) c by (fastforce dest: coerce_value_ok)
    from "2.IH"(2) [OF False c _ this] show ?thesis using "2.prems"(1,3) False c by simp
  qed
qed simp

text \<open>
  C39. Nothing unsafe comes out of a model's answer, whatever it is: every value handed on belongs to
  a variable the step declares and has its type, and a text value is at most 256 characters long and
  free of control characters, so that it can be put into a transfer destination or a prompt.
\<close>

theorem extracted_values_safe:
  assumes "run_extract collect loads to_float fresh n history = Inr values"
    and "(k, v) \<in> set values"
  shows "\<exists>spec ev. n_extraction n = Some spec \<and> ev \<in> set (ex_variables spec) \<and> ev_name ev = k \<and>
           value_ok to_float (ev_type ev) v"
proof -
  obtain spec parsed d where r: "n_extraction n = Some spec"
    "extracted_values to_float parsed (ex_variables spec) [] = Inr d" "values = present_values d"
    using assms by (auto simp: run_extract_def split: option.splits sum.splits pass_exn.splits)
  have "(k, Some v) \<in> set d"
    using assms(2) r(3) by (auto simp: present_values_def split: option.splits)
  then show ?thesis
    using extracted_values_ok [OF r(2), of "set (ex_variables spec)"] r(1) by fastforce
qed

theorem extracted_values_safe_witness:
  "run_extract (\<lambda>_. Inr ''{}'') (\<lambda>_. Some (PDict [(''name'', PStr ''Ada'')])) (\<lambda>_. Inl TypeError) 0
     sample_asking_node [] = Inr [(''name'', PStr ''Ada'')] \<and>
   (\<exists>spec ev. n_extraction sample_asking_node = Some spec \<and> ev \<in> set (ex_variables spec) \<and>
      ev_name ev = ''name'' \<and> value_ok (\<lambda>_. Inl TypeError) (ev_type ev) (PStr ''Ada''))"
proof -
  have r: "run_extract (\<lambda>_. Inr ''{}'') (\<lambda>_. Some (PDict [(''name'', PStr ''Ada'')])) (\<lambda>_. Inl TypeError) 0
     sample_asking_node [] = Inr [(''name'', PStr ''Ada'')]"
    by (simp add: run_extract_def sample_asking_node_def parse_json_object_def json_fence_def fence_def
        py_get_Cons coerce_value_def control_char_def MAX_EXTRACTED_STR_LEN_def present_values_def)
  show ?thesis using extracted_values_safe [OF r] r by simp
qed

end
