(* ===== verification/Finalizer.thy ===== *)
theory Finalizer
  imports Session Extractor
begin

text \<open>
  The clean-up after a successful transfer (\<^verbatim>\<open>services/conversation/session_finalizer.py\<close>): the summary
  that is started early, its disposal, the pipeline of steps with its cache of results.

  A call of \<^verbatim>\<open>finalize\<close> suspends only while it waits for a summary; the other steps run without a
  suspension. The calls that wait are kept in \<open>fz_active\<close>. The model's answer is the list of its
  tokens (the dash of the prompt is the code 0x97); whether a wait ends in time is part of the event. \<open>fz_turns\<close> logs what is handed to the
  transcript, \<open>fz_cancelled\<close> the sessions whose running generation was told to stop. The steps that do
  nothing in the source, latencies and log lines are left out.
\<close>

section \<open>State\<close>

datatype finalization_status = RUNNING | COMPLETED | TIMED_OUT | FAILED

datatype summary_task = Pending | Ready string | TaskCancelled

record finalize_call =
  fc_session :: string
  fc_task :: "nat option"

record finalizer =
  fz_has_transcripts :: bool
  fz_results :: "(string, finalization_result \<times> finalization_status) odict"
  fz_statuses :: "(string, finalization_status) odict"
  fz_pending :: "(string, nat) odict"
  fz_tasks :: "summary_task list"
  fz_active :: "finalize_call list"
  fz_turns :: "(string \<times> string) list"
  fz_metrics :: "string list"
  fz_cancelled :: "string list"

definition finalizer_init :: "bool \<Rightarrow> finalizer" where
  "finalizer_init transcripts =
     \<lparr>fz_has_transcripts = transcripts, fz_results = [], fz_statuses = [], fz_pending = [], fz_tasks = [],
      fz_active = [], fz_turns = [], fz_metrics = [], fz_cancelled = []\<rparr>"

section \<open>The summary\<close>

definition SUMMARY_PROMPT :: string where
  "SUMMARY_PROMPT =
     ''Summarize this conversation in 1-2 sentences for an internal call log. '' @
     ''Focus on what the caller wanted and how it was resolved (or why it '' @
     ''wasn't). Do not address the caller '' @ [CHR 0x97] @ '' this is an internal note, not a '' @
     ''reply to them.''"

definition SUMMARY_FALLBACK :: string where
  "SUMMARY_FALLBACK = ''Conversation summary unavailable (generation timed out).''"

definition summary_messages :: "nat \<Rightarrow> chat_message list \<Rightarrow> chat_message list" where
  "summary_messages fresh history = history @ [chat fresh ''user'' SUMMARY_PROMPT]"

definition summary_text :: "string list \<Rightarrow> string" where
  "summary_text tokens = py_strip (concat tokens)"

text \<open>\<^verbatim>\<open>start_summary_early\<close>: one task per session, which never raises.\<close>

definition start_summary_early :: "string \<Rightarrow> bool \<Rightarrow> bool \<Rightarrow> finalizer \<Rightarrow> finalizer" where
  "start_summary_early sid has_history has_llm z =
     (if od_get (fz_pending z) sid \<noteq> None \<or> \<not> has_history \<or> \<not> has_llm then z
      else z\<lparr>fz_tasks := fz_tasks z @ [Pending], fz_pending := od_set sid (length (fz_tasks z)) (fz_pending z)\<rparr>)"

text \<open>\<^verbatim>\<open>_generate_safe\<close>: \<open>None\<close> is an exception, answered with the empty text.\<close>

definition task_ends :: "nat \<Rightarrow> string list option \<Rightarrow> finalizer \<Rightarrow> finalizer" where
  "task_ends i answer z =
     (if i < length (fz_tasks z) \<and> fz_tasks z ! i = Pending
      then z\<lparr>fz_tasks := (fz_tasks z)[i := Ready (case answer of Some toks \<Rightarrow> summary_text toks | None \<Rightarrow> [])]\<rparr>
      else z)"

definition discard_pending_summary :: "string \<Rightarrow> finalizer \<Rightarrow> finalizer" where
  "discard_pending_summary sid z =
     (case od_get (fz_pending z) sid of
        None \<Rightarrow> z
      | Some i \<Rightarrow>
          z\<lparr>fz_pending := od_del sid (fz_pending z),
            fz_tasks := (if fz_tasks z ! i = Pending then (fz_tasks z)[i := TaskCancelled] else fz_tasks z)\<rparr>)"

section \<open>The pipeline\<close>

text \<open>The steps behind the summary: its text, whether it was generated, whether the wait timed out.\<close>

definition finish_steps :: "string \<Rightarrow> string \<Rightarrow> bool \<Rightarrow> bool \<Rightarrow> finalizer \<Rightarrow> finalizer" where
  "finish_steps sid summary generated timed_out z =
     (let written = (fz_has_transcripts z \<and> summary \<noteq> []);
          status = (if timed_out then TIMED_OUT else COMPLETED);
          res = \<lparr>fr_summary = summary, fr_summary_generated = generated, fr_transcript_written = written\<rparr>
      in z\<lparr>fz_turns := fz_turns z @ (if written then [(sid, summary)] else []),
           fz_metrics := fz_metrics z @ (if timed_out then [''conversation_finalize_timeout_total''] else []) @
                           [''conversation_finalize_success_total''],
           fz_statuses := od_set sid status (fz_statuses z),
           fz_results := od_set sid (res, status) (fz_results z)\<rparr>)"

text \<open>\<^verbatim>\<open>finalize\<close> up to the wait for the summary. A summary that is ready, or not wanted, needs no wait.\<close>

definition finalize_begin :: "string \<Rightarrow> bool \<Rightarrow> bool \<Rightarrow> bool \<Rightarrow> finalizer \<Rightarrow> finalizer" where
  "finalize_begin sid has_history has_llm has_cancel z =
     (if od_get (fz_results z) sid \<noteq> None then z
      else
        let z1 = z\<lparr>fz_statuses := od_set sid RUNNING (fz_statuses z), fz_pending := od_del sid (fz_pending z),
                   fz_cancelled := fz_cancelled z @ (if has_cancel then [sid] else [])\<rparr>;
            wait = (\<lambda>t. z1\<lparr>fz_active := fz_active z1 @ [\<lparr>fc_session = sid, fc_task = t\<rparr>]\<rparr>)
        in case od_get (fz_pending z) sid of
             Some i \<Rightarrow> (case fz_tasks z ! i of
                          Ready s \<Rightarrow> finish_steps sid s (s \<noteq> []) False z1
                        | _ \<Rightarrow> wait (Some i))
           | None \<Rightarrow> if has_history \<and> has_llm then wait None else finish_steps sid [] False False z1)"

datatype summary_outcome = Answered "string list" | GenerationFailed | WaitTimedOut

definition drop_at :: "nat \<Rightarrow> 'a list \<Rightarrow> 'a list" where
  "drop_at k xs = take k xs @ drop (Suc k) xs"

text \<open>The end of the wait. A cancelled task would raise through \<^verbatim>\<open>finalize\<close>.\<close>

definition finalize_resume :: "nat \<Rightarrow> summary_outcome \<Rightarrow> finalizer \<Rightarrow> finalizer" where
  "finalize_resume k outcome z =
     (if length (fz_active z) \<le> k then z
      else
        let c = fz_active z ! k; z1 = z\<lparr>fz_active := drop_at k (fz_active z)\<rparr>; sid = fc_session c
        in case fc_task c of
             None \<Rightarrow>
               (case outcome of
                  Answered toks \<Rightarrow> finish_steps sid (summary_text toks) (summary_text toks \<noteq> []) False z1
                | GenerationFailed \<Rightarrow> finish_steps sid [] False False z1
                | WaitTimedOut \<Rightarrow> finish_steps sid SUMMARY_FALLBACK False True z1)
           | Some i \<Rightarrow>
               (case fz_tasks z ! i of
                  Ready s \<Rightarrow> finish_steps sid s (s \<noteq> []) False z1
                | Pending \<Rightarrow> (if outcome = WaitTimedOut then finish_steps sid SUMMARY_FALLBACK False True z1 else z)
                | TaskCancelled \<Rightarrow> z1))"

text \<open>The call itself is cancelled with its stream; the shielded task goes on.\<close>

definition finalize_cancelled :: "nat \<Rightarrow> finalizer \<Rightarrow> finalizer" where
  "finalize_cancelled k z = z\<lparr>fz_active := drop_at k (fz_active z)\<rparr>"

definition forget :: "string \<Rightarrow> finalizer \<Rightarrow> finalizer" where
  "forget sid z = z\<lparr>fz_results := od_del sid (fz_results z), fz_statuses := od_del sid (fz_statuses z)\<rparr>"

definition status_of :: "string \<Rightarrow> finalizer \<Rightarrow> finalization_status option" where
  "status_of sid z = od_get (fz_statuses z) sid"

datatype fz_event =
    StartEarly string bool bool
  | TaskEnds nat "string list option"
  | Discard string
  | Finalize string bool bool bool
  | FinalizeResumes nat summary_outcome
  | FinalizeCancelled nat
  | Forget string

fun fz_step :: "fz_event \<Rightarrow> finalizer \<Rightarrow> finalizer" where
  "fz_step (StartEarly sid has_history has_llm) z = start_summary_early sid has_history has_llm z"
| "fz_step (TaskEnds i answer) z = task_ends i answer z"
| "fz_step (Discard sid) z = discard_pending_summary sid z"
| "fz_step (Finalize sid has_history has_llm has_cancel) z = finalize_begin sid has_history has_llm has_cancel z"
| "fz_step (FinalizeResumes k outcome) z = finalize_resume k outcome z"
| "fz_step (FinalizeCancelled k) z = finalize_cancelled k z"
| "fz_step (Forget sid) z = forget sid z"

section \<open>Results\<close>

definition result_ok :: "bool \<Rightarrow> finalization_result \<times> finalization_status \<Rightarrow> bool" where
  "result_ok transcripts p =
     (case p of (res, status) \<Rightarrow>
        (fr_transcript_written res \<longleftrightarrow> transcripts \<and> fr_summary res \<noteq> []) \<and>
        (case status of
           COMPLETED \<Rightarrow> fr_summary_generated res \<longleftrightarrow> fr_summary res \<noteq> []
         | TIMED_OUT \<Rightarrow> \<not> fr_summary_generated res \<and> fr_summary res = SUMMARY_FALLBACK
         | _ \<Rightarrow> False))"

text \<open>Tasks that somebody still waits for: those of the dictionary and those of suspended calls.\<close>

fun waits :: "finalize_call list \<Rightarrow> nat list" where
  "waits [] = []"
| "waits (c # cs) = (case fc_task c of Some i \<Rightarrow> i # waits cs | None \<Rightarrow> waits cs)"

definition awaited :: "finalizer \<Rightarrow> nat list" where
  "awaited z = map snd (fz_pending z) @ waits (fz_active z)"

definition fz_inv :: "bool \<Rightarrow> finalizer \<Rightarrow> bool" where
  "fz_inv transcripts z \<longleftrightarrow>
     fz_has_transcripts z = transcripts \<and> od_ok (fz_pending z) \<and> distinct (awaited z) \<and>
     (\<forall>i \<in> set (awaited z). i < length (fz_tasks z) \<and> fz_tasks z ! i \<noteq> TaskCancelled) \<and>
     (\<forall>sid p. od_get (fz_results z) sid = Some p \<longrightarrow> result_ok transcripts p)"

lemma finish_steps_simps [simp]:
  "fz_has_transcripts (finish_steps sid x g t z) = fz_has_transcripts z" "fz_pending (finish_steps sid x g t z) = fz_pending z"
  "fz_tasks (finish_steps sid x g t z) = fz_tasks z" "fz_active (finish_steps sid x g t z) = fz_active z"
  "awaited (finish_steps sid x g t z) = awaited z"
  by (simp_all add: finish_steps_def awaited_def Let_def)

lemma finish_steps_inv:
  assumes "fz_inv tr z" and "if t then x = SUMMARY_FALLBACK \<and> \<not> g else g = (x \<noteq> [])"
  shows "fz_inv tr (finish_steps sid x g t z)"
  using assms unfolding fz_inv_def
  by (auto simp: finish_steps_def awaited_def Let_def result_ok_def split: if_splits)

lemma waits_append [simp]: "waits (xs @ ys) = waits xs @ waits ys"
  by (induction xs) (auto split: option.split)

lemma waits_drop:
  assumes "k < length cs"
  shows "set (waits (drop_at k cs)) \<subseteq> set (waits cs)"
    and "distinct (xs @ waits cs) \<Longrightarrow> distinct (xs @ waits (drop_at k cs))"
proof -
  have "cs = take k cs @ [cs ! k] @ drop (Suc k) cs" using id_take_nth_drop [OF assms] by simp
  then have d: "waits cs = waits (take k cs) @ waits [cs ! k] @ waits (drop (Suc k) cs)" by (metis waits_append)
  show "set (waits (drop_at k cs)) \<subseteq> set (waits cs)" unfolding d by (auto simp: drop_at_def)
  show "distinct (xs @ waits (drop_at k cs))" if "distinct (xs @ waits cs)"
    using that unfolding d by (auto simp: drop_at_def)
qed

lemma inv_shrink:
  assumes "fz_inv tr z" and "distinct (awaited z')" and "set (awaited z') \<subseteq> set (awaited z)" and "od_ok (fz_pending z')"
    and "fz_tasks z' = fz_tasks z" and "fz_results z' = fz_results z" and "fz_has_transcripts z' = fz_has_transcripts z"
  shows "fz_inv tr z'"
  using assms unfolding fz_inv_def by (metis subsetD)

lemma drop_call_inv:
  assumes "fz_inv tr z" and "k < length (fz_active z)"
  shows "fz_inv tr (z\<lparr>fz_active := drop_at k (fz_active z)\<rparr>)"
proof -
  have "distinct (awaited (z\<lparr>fz_active := drop_at k (fz_active z)\<rparr>))"
    using waits_drop(2) [OF assms(2), of "map snd (fz_pending z)"] assms(1) by (simp add: fz_inv_def awaited_def)
  moreover have "set (awaited (z\<lparr>fz_active := drop_at k (fz_active z)\<rparr>)) \<subseteq> set (awaited z)"
    using waits_drop(1) [OF assms(2)] by (auto simp: awaited_def)
  ultimately show ?thesis using assms(1) by (auto simp: fz_inv_def)
qed

lemma pending_del:
  assumes "od_ok d" and "od_get d sid = Some i" and "distinct (map snd d @ xs)"
  shows "distinct (map snd (od_del sid d) @ i # xs)" and "set (map snd (od_del sid d)) \<subseteq> set (map snd d)" and "i \<in> set (map snd d)"
proof -
  have "(sid, i) \<in> set d" using assms(2) by (rule od_get_SomeD)
  then have only: "k = sid" if "(k, i) \<in> set d" for k
    using assms(3) that inj_onD [of snd "set d" "(k, i)" "(sid, i)"] by (simp add: distinct_map)
  have "i \<notin> set xs" using assms(3) \<open>(sid, i) \<in> set d\<close> by force
  then show "distinct (map snd (od_del sid d) @ i # xs)"
    using assms(3) only by (auto simp: od_del_def distinct_map distinct_filter intro: inj_on_subset)
  show "set (map snd (od_del sid d)) \<subseteq> set (map snd d)" by (auto simp: od_del_def)
  show "i \<in> set (map snd d)" using \<open>(sid, i) \<in> set d\<close> by force
qed

lemma inv_init: "fz_inv tr (finalizer_init tr)"
  by (simp add: fz_inv_def finalizer_init_def awaited_def od_get_def)

lemma inv_step: "fz_inv tr z \<Longrightarrow> fz_inv tr (fz_step e z)"
proof (cases e)
  case (StartEarly sid h m)
  assume inv: "fz_inv tr z"
  show ?thesis
  proof (cases "od_get (fz_pending z) sid = None \<and> h \<and> m")
    case True
    let ?z = "start_summary_early sid h m z"
    have p: "fz_pending ?z = fz_pending z @ [(sid, length (fz_tasks z))]" "fz_tasks ?z = fz_tasks z @ [Pending]"
      "fz_active ?z = fz_active z" "fz_results ?z = fz_results z" "fz_has_transcripts ?z = fz_has_transcripts z"
      using True by (simp_all add: start_summary_early_def od_set_new)
    have old: "i < length (fz_tasks z)" "fz_tasks z ! i \<noteq> TaskCancelled" if "i \<in> set (awaited z)" for i
      using inv that by (auto simp: fz_inv_def)
    have aw: "set (awaited ?z) = insert (length (fz_tasks z)) (set (awaited z))" by (auto simp: awaited_def p)
    have "length (fz_tasks z) \<notin> set (awaited z)" using old by blast
    then have "distinct (awaited ?z)" using inv by (auto simp: fz_inv_def awaited_def p)
    moreover have "od_ok (fz_pending ?z)" using inv by (simp add: start_summary_early_def fz_inv_def)
    moreover have "\<forall>i \<in> set (awaited ?z). i < length (fz_tasks ?z) \<and> fz_tasks ?z ! i \<noteq> TaskCancelled"
      using old unfolding aw by (auto simp: p nth_append less_Suc_eq)
    ultimately show ?thesis using inv StartEarly by (simp add: fz_inv_def p)
  qed (use inv StartEarly in \<open>auto simp: start_summary_early_def\<close>)
next
  case (TaskEnds i answer)
  assume "fz_inv tr z"
  moreover have "(fz_tasks z)[i := Ready x] ! j \<noteq> TaskCancelled" if "fz_tasks z ! j \<noteq> TaskCancelled" for x j
    using that by (cases "i < length (fz_tasks z)"; cases "j = i") (simp_all add: list_update_beyond)
  ultimately show ?thesis using TaskEnds
    by (auto simp: task_ends_def fz_inv_def awaited_def)
next
  case (Discard sid)
  assume inv: "fz_inv tr z"
  show ?thesis
  proof (cases "od_get (fz_pending z) sid")
    case (Some i)
    have p: "distinct (map snd (fz_pending z) @ waits (fz_active z))"
      "od_ok (fz_pending z)" using inv by (simp_all add: fz_inv_def awaited_def)
    note d = pending_del [OF p(2) Some p(1)]
    have a: "awaited (discard_pending_summary sid z) =
        map snd (od_del sid (fz_pending z)) @ waits (fz_active z)"
      using Some by (simp add: discard_pending_summary_def awaited_def)
    have mem: "j \<noteq> i \<and> j \<in> set (awaited z)" if "j \<in> set (awaited (discard_pending_summary sid z))" for j
      using that d(1,2) unfolding a by (auto simp: awaited_def)
    have "distinct (awaited (discard_pending_summary sid z))" using d(1) unfolding a by simp
    moreover have "j < length (fz_tasks (discard_pending_summary sid z)) \<and> fz_tasks (discard_pending_summary sid z) ! j \<noteq> TaskCancelled"
      if "j \<in> set (awaited (discard_pending_summary sid z))" for j
      using mem [OF that] inv Some by (auto simp: discard_pending_summary_def fz_inv_def)
    moreover have "od_ok (fz_pending (discard_pending_summary sid z))" using p(2) Some by (simp add: discard_pending_summary_def)
    ultimately show ?thesis using inv Discard Some
      by (simp add: fz_inv_def) (simp add: discard_pending_summary_def)
  qed (use inv Discard in \<open>simp add: discard_pending_summary_def\<close>)
next
  case (Finalize sid h m c)
  assume inv: "fz_inv tr z"
  let ?z1 = "z\<lparr>fz_statuses := od_set sid RUNNING (fz_statuses z), fz_pending := od_del sid (fz_pending z),
                   fz_cancelled := fz_cancelled z @ (if c then [sid] else [])\<rparr>"
  have p: "distinct (map snd (fz_pending z) @ waits (fz_active z))"
      "od_ok (fz_pending z)" using inv by (simp_all add: fz_inv_def awaited_def)
  have sub: "set (map snd (od_del sid (fz_pending z))) \<subseteq> set (map snd (fz_pending z))" by (auto simp: od_del_def)
  have "distinct (awaited ?z1)" using p sub by (auto simp: awaited_def od_del_def distinct_map_filter)
  moreover have "set (awaited ?z1) \<subseteq> set (awaited z)" using sub by (auto simp: awaited_def)
  ultimately have z1: "fz_inv tr ?z1" by (rule inv_shrink [OF inv]) (use p(2) in simp_all)
  have w: "fz_inv tr (?z1\<lparr>fz_active := fz_active z @ [\<lparr>fc_session = sid, fc_task = Some i\<rparr>]\<rparr>)"
    if "od_get (fz_pending z) sid = Some i" for i
  proof -
    note d = pending_del [OF p(2) that p(1)]
    show ?thesis by (rule inv_shrink [OF inv]) (use d p(2) in \<open>auto simp: awaited_def\<close>)
  qed
  have w0: "fz_inv tr (?z1\<lparr>fz_active := fz_active z @ [\<lparr>fc_session = sid, fc_task = None\<rparr>]\<rparr>)"
    using z1 by (simp add: fz_inv_def awaited_def)
  show ?thesis using inv Finalize w w0 finish_steps_inv [OF z1]
    by (auto simp: finalize_begin_def Let_def split: option.split summary_task.split)
next
  case (FinalizeResumes k outcome)
  assume inv: "fz_inv tr z"
  show ?thesis
  proof (cases "k < length (fz_active z)")
    case True
    show ?thesis using inv FinalizeResumes True finish_steps_inv [OF drop_call_inv [OF inv True]] drop_call_inv [OF inv True]
      by (auto simp: finalize_resume_def Let_def split: option.split summary_task.split summary_outcome.split)
  qed (use inv FinalizeResumes in \<open>simp add: finalize_resume_def\<close>)
next
  case (FinalizeCancelled k)
  assume inv: "fz_inv tr z"
  then show ?thesis using FinalizeCancelled drop_call_inv [OF inv, of k]
    by (cases "k < length (fz_active z)") (simp_all add: finalize_cancelled_def drop_at_def)
next
  case (Forget sid)
  assume "fz_inv tr z"
  then show ?thesis using Forget by (auto simp: forget_def fz_inv_def awaited_def)
qed

text \<open>
  Every result of the finalizer is consistent, under all interleavings of early summaries, discards,
  time-outs and cancellations: a summary counts as generated only when there is one, the fixed text
  stands for a time-out only, and the transcript was written exactly when there was something to write;
  and no suspended call ever waits for a task that a discard has cancelled.
\<close>

theorem finalizer_consistent:
  "let z = fold fz_step es (finalizer_init tr)
   in (case od_get (fz_results z) sid of Some p \<Rightarrow> result_ok tr p | None \<Rightarrow> True) \<and>
      list_all (\<lambda>i. i < length (fz_tasks z) \<and> fz_tasks z ! i \<noteq> TaskCancelled) (awaited z)"
proof -
  have "fz_inv tr z \<Longrightarrow> fz_inv tr (fold fz_step es z)" for z by (induction es arbitrary: z) (auto intro: inv_step)
  then have "fz_inv tr (fold fz_step es (finalizer_init tr))" using inv_init by blast
  then show ?thesis by (simp add: fz_inv_def Let_def list_all_iff split: option.split)
qed

section \<open>Idempotence\<close>

text \<open>Runs in which the session's calls of \<^verbatim>\<open>finalize\<close> do not overlap and its result is not forgotten.\<close>

fun serial :: "string \<Rightarrow> finalizer \<Rightarrow> fz_event list \<Rightarrow> bool" where
  "serial sid z [] = True"
| "serial sid z (e # es) =
     ((case e of
         Finalize s h m c \<Rightarrow> s = sid \<longrightarrow> list_all (\<lambda>k. fc_session k \<noteq> sid) (fz_active z)
       | Forget s \<Rightarrow> s \<noteq> sid
       | _ \<Rightarrow> True) \<and>
      serial sid (fz_step e z) es)"

definition summaries :: "string \<Rightarrow> finalizer \<Rightarrow> string list" where
  "summaries sid z = map snd (filter (\<lambda>t. fst t = sid) (fz_turns z))"

definition calls_of :: "string \<Rightarrow> finalizer \<Rightarrow> nat" where
  "calls_of sid z = length (filter (\<lambda>k. fc_session k = sid) (fz_active z))"

definition once :: "string \<Rightarrow> finalizer \<Rightarrow> bool" where
  "once sid z \<longleftrightarrow>
     (case od_get (fz_results z) sid of
        None \<Rightarrow> summaries sid z = [] \<and> calls_of sid z \<le> 1
      | Some (res, status) \<Rightarrow>
          calls_of sid z = 0 \<and>
          summaries sid z = (if fr_transcript_written res then [fr_summary res] else []))"

lemma once_finish:
  assumes "summaries sid z = []" and "calls_of sid z = 0"
  shows "once sid (finish_steps sid x g t z)"
  using assms by (auto simp: once_def finish_steps_def summaries_def calls_of_def Let_def)

lemma once_frame:
  assumes "od_get (fz_results z') sid = od_get (fz_results z) sid" and "summaries sid z' = summaries sid z"
    and "calls_of sid z' \<le> calls_of sid z"
  shows "once sid z \<Longrightarrow> once sid z'"
  using assms by (auto simp: once_def split: option.splits)

lemma finish_other:
  assumes "s \<noteq> sid"
  shows "od_get (fz_results (finish_steps s x g t z)) sid = od_get (fz_results z) sid"
    and "summaries sid (finish_steps s x g t z) = summaries sid z" and "calls_of sid (finish_steps s x g t z) = calls_of sid z"
  using assms by (auto simp: finish_steps_def summaries_def calls_of_def Let_def)

lemma calls_drop:
  assumes "k < length (fz_active z)"
  shows "calls_of sid z = calls_of sid (z\<lparr>fz_active := drop_at k (fz_active z)\<rparr>) + (if fc_session (fz_active z ! k) = sid then 1 else 0)"
proof -
  have c: "fz_active z = take k (fz_active z) @ fz_active z ! k # drop (Suc k) (fz_active z)" using assms by (rule id_take_nth_drop)
  have "filter (\<lambda>c. fc_session c = sid) (fz_active z) =
      filter (\<lambda>c. fc_session c = sid) (take k (fz_active z)) @ filter (\<lambda>c. fc_session c = sid) (fz_active z ! k # drop (Suc k) (fz_active z))"
    using arg_cong [OF c, of "filter (\<lambda>c. fc_session c = sid)"] by (simp only: filter_append)
  then show ?thesis by (simp add: calls_of_def drop_at_def)
qed

lemma once_drop: "once sid z \<Longrightarrow> once sid (z\<lparr>fz_active := drop_at k (fz_active z)\<rparr>)"
proof (cases "k < length (fz_active z)")
  case True
  assume "once sid z"
  then show ?thesis by (rule once_frame [rotated 3]) (use calls_drop [OF True, of sid] in \<open>simp_all add: summaries_def\<close>)
qed (simp add: drop_at_def)

text \<open>The end of a suspended call: its session has no result yet, and no other call.\<close>

lemma once_resume:
  assumes "once sid z" and "k < length (fz_active z)"
  shows "once sid (finish_steps (fc_session (fz_active z ! k)) x g t (z\<lparr>fz_active := drop_at k (fz_active z)\<rparr>))"
proof (cases "fc_session (fz_active z ! k) = sid")
  case True
  let ?z = "z\<lparr>fz_active := drop_at k (fz_active z)\<rparr>"
  have "calls_of sid z \<noteq> 0" using calls_drop [OF assms(2), of sid] True by simp
  then have "summaries sid z = []" "calls_of sid z \<le> 1" using assms(1) by (auto simp: once_def split: option.splits)
  moreover have "calls_of sid z = calls_of sid ?z + 1" using calls_drop [OF assms(2), of sid] True by simp
  ultimately have "summaries sid ?z = []" "calls_of sid ?z = 0" by (simp_all add: summaries_def)
  then show ?thesis using once_finish True by simp
next
  case False
  show ?thesis by (rule once_frame [OF _ _ _ once_drop [OF assms(1), of k]]) (simp_all add: finish_other [OF False])
qed

lemma once_begin:
  assumes "once sid z" and "s = sid \<longrightarrow> list_all (\<lambda>k. fc_session k \<noteq> sid) (fz_active z)"
  shows "once sid (finalize_begin s h m c z)"
proof (cases "od_get (fz_results z) s = None")
  case False
  then show ?thesis using assms(1) by (simp add: finalize_begin_def)
next
  case True
  let ?z1 = "z\<lparr>fz_statuses := od_set s RUNNING (fz_statuses z), fz_pending := od_del s (fz_pending z),
               fz_cancelled := fz_cancelled z @ (if c then [s] else [])\<rparr>"
  have z1: "once sid ?z1" by (rule once_frame [OF _ _ _ assms(1)]) (simp_all add: summaries_def calls_of_def)
  have same: "summaries sid ?z1 = []" "calls_of sid ?z1 = 0" if "s = sid"
    using assms that True
    by (auto simp: once_def summaries_def calls_of_def list_all_iff filter_empty_conv split: option.splits)
  have w: "once sid (?z1\<lparr>fz_active := fz_active z @ [\<lparr>fc_session = s, fc_task = t\<rparr>]\<rparr>)" for t
  proof (cases "s = sid")
    case T: True
    then show ?thesis using same [OF T] True by (simp add: once_def summaries_def calls_of_def)
  next
    case F: False
    show ?thesis by (rule once_frame [OF _ _ _ z1]) (use F in \<open>simp_all add: summaries_def calls_of_def\<close>)
  qed
  have f: "once sid (finish_steps s x g t ?z1)" for x g t
  proof (cases "s = sid")
    case T: True
    then show ?thesis using once_finish [OF same [OF T]] by simp
  next
    case F: False
    show ?thesis by (rule once_frame [OF _ _ _ z1]) (simp_all add: finish_other [OF F])
  qed
  show ?thesis using True w f
    by (auto simp: finalize_begin_def Let_def split: option.split summary_task.split)
qed

lemma once_step:
  assumes "once sid z" and "serial sid z [e]"
  shows "once sid (fz_step e z)"
proof (cases e)
  case (Finalize s h m c)
  then show ?thesis using assms once_begin [OF assms(1)] by simp
next
  case (FinalizeResumes k outcome)
  show ?thesis
  proof (cases "k < length (fz_active z)")
    case True
    show ?thesis using FinalizeResumes True assms(1) once_resume [OF assms(1) True] once_drop [OF assms(1), of k]
      by (auto simp: finalize_resume_def Let_def split: option.split summary_task.split summary_outcome.split)
  qed (use assms(1) FinalizeResumes in \<open>simp add: finalize_resume_def\<close>)
next
  case (FinalizeCancelled k)
  then show ?thesis using once_drop [OF assms(1)] by (simp add: finalize_cancelled_def)
next
  case (Forget s)
  then have "s \<noteq> sid" using assms(2) by simp
  then show ?thesis using Forget once_frame [OF _ _ _ assms(1), of "forget s z"]
    by (simp add: forget_def summaries_def calls_of_def)
qed (rule once_frame [OF _ _ _ assms(1)]; simp add: start_summary_early_def task_ends_def discard_pending_summary_def
      summaries_def calls_of_def split: option.split)+

text \<open>
  Finalizing a session twice writes its summary once, as long as the calls do not overlap: the
  transcript gets the summary of the cached result and nothing else, whatever happens to other sessions
  in between.
\<close>

theorem summary_written_once:
  assumes "serial sid (finalizer_init tr) es" and "od_get (fz_results (fold fz_step es (finalizer_init tr))) sid = Some (res, status)"
  shows "summaries sid (fold fz_step es (finalizer_init tr)) = (if fr_transcript_written res then [fr_summary res] else [])"
proof -
  have "serial sid z es \<Longrightarrow> once sid z \<Longrightarrow> once sid (fold fz_step es z)" for z
  proof (induction es arbitrary: z)
    case (Cons e es)
    have "once sid (fz_step e z)" by (rule once_step [OF Cons.prems(2)]) (use Cons.prems(1) in simp)
    then show ?case using Cons by simp
  qed simp
  moreover have "once sid (finalizer_init tr)"
    by (simp add: once_def finalizer_init_def od_get_def summaries_def calls_of_def)
  ultimately have "once sid (fold fz_step es (finalizer_init tr))" using assms(1) by blast
  then show ?thesis using assms(2) by (simp add: once_def)
qed

theorem summary_written_once_witness:
  "summaries ''s'' (fold fz_step [StartEarly ''s'' True True, Finalize ''s'' True True True, TaskEnds 0 (Some ['' ok '']),
      FinalizeResumes 0 GenerationFailed, Finalize ''s'' True True True] (finalizer_init True)) = [''ok'']"
proof -
  let ?es = "[StartEarly ''s'' True True, Finalize ''s'' True True True, TaskEnds 0 (Some ['' ok '']),
      FinalizeResumes 0 GenerationFailed, Finalize ''s'' True True True]"
  have s: "serial ''s'' (finalizer_init True) ?es" by code_simp
  have r: "od_get (fz_results (fold fz_step ?es (finalizer_init True))) ''s'' =
      Some (\<lparr>fr_summary = ''ok'', fr_summary_generated = True, fr_transcript_written = True\<rparr>, COMPLETED)" by code_simp
  show ?thesis using summary_written_once [OF s r] by simp
qed

text \<open>Two calls that overlap both run the pipeline: the result is cached only at the end.\<close>

lemma overlapping_finalize_writes_twice:
  "summaries ''s'' (fold fz_step [Finalize ''s'' True True True, Finalize ''s'' True True True,
      FinalizeResumes 0 (Answered [''one'']), FinalizeResumes 0 (Answered [''two''])] (finalizer_init True)) = [''one'', ''two'']"
  by code_simp

end
