(* ===== verification/Workflow_Runner.thy ===== *)
theory Workflow_Runner
  imports Extractor Config_Models Tool_Types
begin

text \<open>
  The walk through a workflow graph during a call (\<^verbatim>\<open>services/conversation/workflow/runner.py\<close>): the
  runner with its transition tools, the way back from a rejected transfer, the cache of parsed
  graphs and the choice of the graph a call runs.

  The message lists of a turn are objects that the runner updates in place and that may be the same
  object: they are references into a heap of lists. The cache is the module's global dictionary.
\<close>

type_synonym heap = "nat \<Rightarrow> chat_message list"

section \<open>The runner\<close>

record runner =
  w_graph :: graph
  w_node :: node
  w_global :: string
  w_suffix :: string
  w_vars :: "(string, pyval) odict"
  w_extractor :: "extractor option"
  w_summarizer :: "summarizer option"
  w_visited :: "string list"
  w_pending_speech :: "string option"
  w_pending_end :: bool
  w_pending_transfer :: "node option"
  w_ended_off_graph :: bool
  w_last_transition :: string
  w_pre_transfer_node :: "node option"

text \<open>\<^verbatim>\<open>graph.start\<close> raises \<^verbatim>\<open>KeyError\<close> on a graph without its start.\<close>

definition runner_init ::
  "graph \<Rightarrow> string \<Rightarrow> (string, pyval) odict \<Rightarrow> extractor option \<Rightarrow> summarizer option \<Rightarrow> py_exn + runner"
where
  "runner_init g base_suffix vars ext smz =
     (case od_get (g_nodes g) (g_start_id g) of
        None \<Rightarrow> Inl KeyError
      | Some s \<Rightarrow> Inr
          \<lparr>w_graph = g, w_node = s, w_global = global_prompt g, w_suffix = base_suffix, w_vars = vars,
           w_extractor = ext, w_summarizer = smz, w_visited = [n_name s], w_pending_speech = None,
           w_pending_end = False, w_pending_transfer = None, w_ended_off_graph = False,
           w_last_transition = [], w_pre_transfer_node = None\<rparr>)"

definition update_variables :: "(string \<times> pyval) list \<Rightarrow> runner \<Rightarrow> runner" where
  "update_variables values r =
     r\<lparr>w_vars := fold (\<lambda>(k, v) d. if v = PNone then d else od_set k v d) values (w_vars r)\<rparr>"

definition extracted_variables :: "runner \<Rightarrow> (string \<times> pyval) list" where
  "extracted_variables r = filter (\<lambda>(k, v). k \<in> declared_variables (w_graph r)) (w_vars r)"

definition runner_render :: "runner \<Rightarrow> string \<Rightarrow> string" where
  "runner_render r txt = render txt (od_get (w_vars r))"

definition system_prompt :: "runner \<Rightarrow> string" where
  "system_prompt r =
     py_join (nl @ nl)
       (map py_strip (filter (\<lambda>p. py_strip p \<noteq> [])
          [runner_render r (w_global r), runner_render r (n_prompt (w_node r)), w_suffix r]))"

text \<open>\<open>None\<close>: the tools of the agent are not narrowed.\<close>

definition allowed_tool_names :: "runner \<Rightarrow> string list option" where
  "allowed_tool_names r = (if is_single_stage (w_graph r) then None else Some (n_tools (w_node r)))"

definition knowledge_enabled :: "runner \<Rightarrow> bool" where
  "knowledge_enabled r \<longleftrightarrow>
     (if n_knowledge_base_ids (w_node r) \<noteq> [] then True
      else if is_single_stage (w_graph r) then True
      else \<not> list_ex (\<lambda>n. n_knowledge_base_ids n \<noteq> []) (g_node_list (w_graph r)))"

definition runner_greeting :: "runner \<Rightarrow> py_exn + string option" where
  "runner_greeting r =
     (case od_get (g_nodes (w_graph r)) (g_start_id (w_graph r)) of
        None \<Rightarrow> Inl KeyError
      | Some s \<Rightarrow>
          let txt = runner_render r (case n_greeting s of Some t \<Rightarrow> t | None \<Rightarrow> [])
          in Inr (if txt = [] then None else Some txt))"

definition disposition :: "runner \<Rightarrow> string option" where
  "disposition r =
     (if w_ended_off_graph r \<and> \<not> n_is_terminal (w_node r) then Some ENDED_EARLY
      else n_disposition (w_node r))"

section \<open>Transitions\<close>

definition transition_tool_name :: "edge \<Rightarrow> string" where
  "transition_tool_name e = ''goto_'' @ tool_name e"

definition NO_PARAMETERS :: "(string \<times> pyval) list" where
  "NO_PARAMETERS = [(''type'', PStr ''object''), (''properties'', PDict [])]"

definition TRANSITION_RESULT :: tool_result where
  "TRANSITION_RESULT = tool_ok [(''status'', PStr ''done'')]"

text \<open>\<^verbatim>\<open>local_tools\<close>: the handler of an entry is the transition along its edge.\<close>

definition transition_tool :: "edge \<Rightarrow> tool_definition" where
  "transition_tool e =
     \<lparr>td_name = transition_tool_name e, td_description = e_condition e,
      td_parameters_schema = NO_PARAMETERS, td_category = ''workflow_transition'',
      td_llm_visible = True, td_companion_tool_name = None\<rparr>"

definition local_tools :: "runner \<Rightarrow> (string, tool_definition \<times> edge) odict" where
  "local_tools r =
     fold (\<lambda>e d. od_set (transition_tool_name e) (transition_tool e, e) d)
       (n_out_edges (w_node r)) []"

definition abandon_transfer :: "runner \<Rightarrow> runner" where
  "abandon_transfer r =
     (case w_pre_transfer_node r of
        None \<Rightarrow> r\<lparr>w_pending_transfer := None\<rparr>
      | Some source \<Rightarrow>
          if n_type (w_node r) \<noteq> ''transfer'' then r\<lparr>w_pending_transfer := None\<rparr>
          else r\<lparr>w_node := source, w_pre_transfer_node := None, w_pending_transfer := None,
                 w_visited := (if w_visited r \<noteq> [] \<and> last (w_visited r) \<noteq> n_name source
                               then butlast (w_visited r) else w_visited r)\<rparr>)"

definition deref :: "heap \<Rightarrow> nat option \<Rightarrow> chat_message list" where
  "deref h ref = (case ref of Some a \<Rightarrow> h a | None \<Rightarrow> [])"

text \<open>The swap of the system message on one list.\<close>

fun swap_system :: "chat_message \<Rightarrow> chat_message list \<Rightarrow> chat_message list" where
  "swap_system p [] = []"
| "swap_system p (m # ms) = (if m_role m = ''system'' then p # ms else p # m # ms)"

text \<open>The loop over \<^verbatim>\<open>(turn, store)\<close>, with its \<^verbatim>\<open>break\<close> when both are one object.\<close>

definition swap_prompts :: "string \<Rightarrow> nat \<Rightarrow> nat option \<Rightarrow> nat option \<Rightarrow> heap \<Rightarrow> heap" where
  "swap_prompts prompt fresh turn store h =
     (let h1 = (case turn of
                  Some a \<Rightarrow> h(a := swap_system (chat fresh ''system'' prompt) (h a))
                | None \<Rightarrow> h)
      in if deref h turn \<noteq> [] \<and> store = turn then h1
         else (case store of
                 Some b \<Rightarrow> h1(b := swap_system (chat (fresh + 1) ''system'' prompt) (h1 b))
               | None \<Rightarrow> h1))"

text \<open>The runner after the move, before the prompts are swapped.\<close>

definition enter_node :: "edge \<Rightarrow> node \<Rightarrow> runner \<Rightarrow> runner" where
  "enter_node e target r =
     (let source = w_node r;
          r1 = r\<lparr>w_node := target, w_last_transition := tool_name e,
                 w_visited := w_visited r @ [n_name target]\<rparr>
      in if n_type target = ''end'' then r1\<lparr>w_pending_end := True, w_pre_transfer_node := None\<rparr>
         else if n_type target = ''transfer''
         then r1\<lparr>w_pending_transfer := Some target, w_pre_transfer_node := Some source\<rparr>
         else r1\<lparr>w_pre_transfer_node := None\<rparr>)"

text \<open>The runner as it leaves its step: the extraction is queued and the speech of the edge kept.\<close>

definition leave_node :: "edge \<Rightarrow> chat_message list \<Rightarrow> runner \<Rightarrow> runner" where
  "leave_node e history r =
     (let ext = (case (w_extractor r, n_extraction (w_node r)) of
                   (Some x, Some spec) \<Rightarrow>
                     if ex_enabled spec then Some (queue_extract (w_node r) history x) else Some x
                 | (x, _) \<Rightarrow> x);
          speech = runner_render r (case e_speech e of Some t \<Rightarrow> t | None \<Rightarrow> [])
      in r\<lparr>w_extractor := ext, w_pending_speech := (if speech = [] then None else Some speech)\<rparr>)"

definition summarize_store :: "nat option \<Rightarrow> heap \<Rightarrow> runner \<Rightarrow> runner" where
  "summarize_store store h r =
     (case (store, w_summarizer r) of
        (Some b, Some z) \<Rightarrow>
          if h b \<noteq> [] then r\<lparr>w_summarizer := Some (maybe_summarize b (h b) z)\<rparr> else r
      | _ \<Rightarrow> r)"

definition runner_transition ::
  "nat \<Rightarrow> edge \<Rightarrow> nat option \<Rightarrow> nat option \<Rightarrow> heap \<Rightarrow> runner \<Rightarrow> py_exn + (tool_result \<times> heap \<times> runner)"
where
  "runner_transition fresh e turn store h r =
     (let r1 = leave_node e (deref h store) r in
      case od_get (g_nodes (w_graph r)) (e_target e) of
        None \<Rightarrow> Inl KeyError
      | Some target \<Rightarrow>
          let r2 = enter_node e target r1;
              h2 = swap_prompts (system_prompt r2) fresh turn store h
          in Inr (TRANSITION_RESULT, h2, summarize_store store h2 r2))"

text \<open>
  A call of a transition tool: \<^verbatim>\<open>store if store is not None else turn\<close> is the history.
\<close>

definition call_transition_tool ::
  "nat \<Rightarrow> string \<Rightarrow> nat option \<Rightarrow> nat option \<Rightarrow> heap \<Rightarrow> runner
     \<Rightarrow> (py_exn + (tool_result \<times> heap \<times> runner)) option"
where
  "call_transition_tool fresh nm turn store h r =
     (case od_get (local_tools r) nm of
        None \<Rightarrow> None
      | Some (_, e) \<Rightarrow>
          Some (runner_transition fresh e turn (if store \<noteq> None then store else turn) h r))"

section \<open>The cache of parsed graphs\<close>

type_synonym graph_cache = "(string \<times> string, int \<times> graph) odict"

definition GRAPH_CACHE_MAX :: nat where
  "GRAPH_CACHE_MAX = 256"

definition cache_key :: "runtime_config \<Rightarrow> string \<times> string" where
  "cache_key rc =
     ((if tn_id (rc_tenant rc) \<noteq> [] then tn_id (rc_tenant rc) else tn_slug (rc_tenant rc)),
      (if ag_id (rc_agent rc) \<noteq> [] then ag_id (rc_agent rc) else ag_slug (rc_agent rc)))"

definition cache_get :: "runtime_config \<Rightarrow> graph_cache \<Rightarrow> graph option" where
  "cache_get rc cache =
     (case od_get cache (cache_key rc) of
        None \<Rightarrow> None
      | Some (version, g) \<Rightarrow> if version \<noteq> rc_version rc then None else Some g)"

definition cache_put :: "runtime_config \<Rightarrow> graph \<Rightarrow> graph_cache \<Rightarrow> graph_cache" where
  "cache_put rc g cache =
     od_set (cache_key rc) (rc_version rc, g)
       (if od_get cache (cache_key rc) = None \<and> length cache \<ge> GRAPH_CACHE_MAX
        then od_popitem_first cache else cache)"

section \<open>Choosing the graph of a call\<close>

text \<open>Iteration over a JSON value: a string gives its characters, an object its keys.\<close>

fun py_iter :: "pyval \<Rightarrow> py_exn + pyval list" where
  "py_iter (PList xs) = Inr xs"
| "py_iter (PStr s) = Inr (map (\<lambda>c. PStr [c]) s)"
| "py_iter (PDict d) = Inr (map (\<lambda>(k, _). PStr k) d)"
| "py_iter _ = Inl TypeError"

definition add_name :: "pyval \<Rightarrow> string list \<Rightarrow> string list" where
  "add_name item names =
     (case item of
        PStr s \<Rightarrow> if s \<noteq> [] \<and> s \<notin> set names then names @ [s] else names
      | _ \<Rightarrow> names)"

fun names_of_nodes :: "string \<Rightarrow> pyval list \<Rightarrow> string list \<Rightarrow> py_exn + string list" where
  "names_of_nodes fld [] names = Inr names"
| "names_of_nodes fld (PDict n # ns) names =
     (case py_iter (py_or (py_get (data_object n) fld) (PList [])) of
        Inl e \<Rightarrow> Inl e
      | Inr items \<Rightarrow> names_of_nodes fld ns (fold add_name items names))"
| "names_of_nodes fld (_ # ns) names = names_of_nodes fld ns names"

definition str_names_from_raw :: "pyval \<Rightarrow> string \<Rightarrow> py_exn + string list" where
  "str_names_from_raw raw fld =
     (case raw of
        PDict d \<Rightarrow>
          (case py_iter (py_or (py_get d ''nodes'') (PList [])) of
             Inl e \<Rightarrow> Inl e
           | Inr nodes \<Rightarrow> names_of_nodes fld nodes [])
      | _ \<Rightarrow> Inr [])"

definition fallback_graph :: "runtime_config \<Rightarrow> pyval \<Rightarrow> parse_exn + graph" where
  "fallback_graph rc raw =
     (case (if rc_tools rc \<noteq> [] then Inr (map ts_name (rc_tools rc))
            else str_names_from_raw raw ''tools'') of
        Inl e \<Rightarrow> Inl (Raised e)
      | Inr tools \<Rightarrow>
          (case str_names_from_raw raw ''knowledge_base_ids'' of
             Inl e \<Rightarrow> Inl (Raised e)
           | Inr kb_ids \<Rightarrow>
               parse_graph (starter_graph (ci_greeting (rc_conversation rc))
                 (ci_system_prompt (rc_conversation rc)) tools kb_ids)))"

text \<open>\<^verbatim>\<open>raw if isinstance(raw, dict) else None\<close>.\<close>

definition dict_only :: "pyval \<Rightarrow> pyval" where
  "dict_only raw = (case raw of PDict d \<Rightarrow> raw | _ \<Rightarrow> PNone)"

text \<open>The document a draft call starts from.\<close>

definition draft_source :: "conversation_info \<Rightarrow> pyval" where
  "draft_source c = (if truthy (ci_workflow_draft c) then ci_workflow_draft c else ci_workflow c)"

text \<open>\<^verbatim>\<open>resolve_graph\<close> for the published graph; the cache is state.\<close>

definition resolve_published ::
  "runtime_config \<Rightarrow> graph_cache \<Rightarrow> (parse_exn + (graph \<times> bool)) \<times> graph_cache"
where
  "resolve_published rc cache =
     (let raw = ci_workflow (rc_conversation rc) in
      if \<not> truthy raw then
        ((case fallback_graph rc PNone of Inl e \<Rightarrow> Inl e | Inr g \<Rightarrow> Inr (g, False)), cache)
      else
        (case cache_get rc cache of
           Some g \<Rightarrow> (Inr (g, False), cache)
         | None \<Rightarrow>
             (case (case parse_graph raw of
                      Inr g \<Rightarrow> Inr g
                    | Inl _ \<Rightarrow> fallback_graph rc (dict_only raw)) of
                Inl e \<Rightarrow> (Inl e, cache)
              | Inr g \<Rightarrow> (Inr (g, False), cache_put rc g cache))))"

text \<open>
  \<^verbatim>\<open>resolve_graph\<close>: an invalid draft sends the call to the published graph, a draft whose parsing
  raises anything else to the default graph; drafts are not cached.
\<close>

definition resolve_graph ::
  "runtime_config \<Rightarrow> bool \<Rightarrow> graph_cache \<Rightarrow> (parse_exn + (graph \<times> bool)) \<times> graph_cache"
where
  "resolve_graph rc draft cache =
     (if \<not> draft then resolve_published rc cache
      else
        let raw = draft_source (rc_conversation rc)
        in if \<not> truthy raw then
             ((case fallback_graph rc PNone of Inl e \<Rightarrow> Inl e | Inr g \<Rightarrow> Inr (g, False)), cache)
           else
             (case parse_graph raw of
                Inr g \<Rightarrow> (Inr (g, False), cache)
              | Inl (WorkflowInvalid _) \<Rightarrow>
                  (case resolve_published rc cache of
                     (Inl e, c) \<Rightarrow> (Inl e, c)
                   | (Inr (g, _), c) \<Rightarrow> (Inr (g, True), c))
              | Inl (Raised _) \<Rightarrow>
                  ((case fallback_graph rc (dict_only raw) of
                      Inl e \<Rightarrow> Inl e | Inr g \<Rightarrow> Inr (g, False)), cache)))"

definition graph_for :: "runtime_config \<Rightarrow> bool \<Rightarrow> graph_cache \<Rightarrow> (parse_exn + graph) \<times> graph_cache" where
  "graph_for rc draft cache =
     (case resolve_graph rc draft cache of
        (Inl e, c) \<Rightarrow> (Inl e, c) | (Inr (g, _), c) \<Rightarrow> (Inr g, c))"

section \<open>Runs of a call\<close>

text \<open>
  What the rest of the conversation service does to a runner: calls of the transition tools offered
  at that moment, a rejected transfer, extracted values, and the flags the pipeline reads and resets.
\<close>

inductive runner_reach :: "graph \<Rightarrow> runner \<Rightarrow> bool" for g where
  start: "runner_init g sfx vars x z = Inr r \<Longrightarrow> runner_reach g r"
| tool: "runner_reach g r \<Longrightarrow> call_transition_tool fresh nm turn store h r = Some (Inr (res, h', r')) \<Longrightarrow>
           runner_reach g r'"
| abandon: "runner_reach g r \<Longrightarrow> runner_reach g (abandon_transfer r)"
| update: "runner_reach g r \<Longrightarrow> runner_reach g (update_variables vals r)"
| flags: "runner_reach g r \<Longrightarrow>
    runner_reach g (r\<lparr>w_pending_speech := sp, w_pending_transfer := None, w_ended_off_graph := off\<rparr>)"

inductive_cases runner_reachE: "runner_reach g r"

text \<open>A walk from the start, newest step first.\<close>

fun walk :: "graph \<Rightarrow> node list \<Rightarrow> bool" where
  "walk g [] = False"
| "walk g [n] = (od_get (g_nodes g) (g_start_id g) = Some n)"
| "walk g (n # m # ns) =
     (succ g (n_id m) (n_id n) \<and> od_get (g_nodes g) (n_id n) = Some n \<and> walk g (m # ns))"

definition runner_inv :: "graph \<Rightarrow> node list \<Rightarrow> runner \<Rightarrow> bool" where
  "runner_inv g path r \<longleftrightarrow>
     w_graph r = g \<and> walk g path \<and> hd path = w_node r \<and> w_visited r = rev (map n_name path) \<and>
     (case w_pre_transfer_node r of
        Some s \<Rightarrow> n_type (w_node r) = ''transfer'' \<and> (\<exists>p. path = w_node r # s # p)
      | None \<Rightarrow> n_type (w_node r) \<noteq> ''transfer'')"

lemma wf_node_id: "wf_graph g \<Longrightarrow> od_get (g_nodes g) i = Some n \<Longrightarrow> n_id n = i \<and> wf_exits g n"
  using od_get_SomeD [of "g_nodes g" i n]
  by (force simp: wf_graph_def wf_nodes_def list_all_iff g_node_list_def)

lemma walk_node: "wf_graph g \<Longrightarrow> walk g (n # p) \<Longrightarrow> od_get (g_nodes g) (n_id n) = Some n"
  by (cases p) (auto dest: wf_node_id)

lemma wf_start_type:
  assumes "wf_graph g" and "od_get (g_nodes g) (g_start_id g) = Some s"
  shows "n_type s = ''start''"
proof -
  have "filter (\<lambda>n. n_type n = ''start'') (g_node_list g) = [s]"
    using assms by (simp add: wf_graph_def wf_start_def)
  then have "s \<in> set (filter (\<lambda>n. n_type n = ''start'') (g_node_list g))" by simp
  then show ?thesis by simp
qed

text \<open>Names tell the steps of a graph apart.\<close>

lemma wf_names_inj:
  assumes "wf_graph g" "od_get (g_nodes g) (n_id a) = Some a" "od_get (g_nodes g) (n_id b) = Some b"
    "n_name a = n_name b"
  shows "a = b"
proof -
  have "inj_on (\<lambda>n. py_lower (n_name n)) (set (g_node_list g))"
    using assms(1) by (simp add: wf_graph_def wf_nodes_def distinct_map)
  moreover have "a \<in> set (g_node_list g)" "b \<in> set (g_node_list g)"
    using assms(2,3)[THEN od_get_SomeD] by (force simp: g_node_list_def)+
  ultimately show ?thesis using assms(4) by (auto simp: inj_on_def)
qed

lemma local_tools_edge:
  assumes "od_get (local_tools r) nm = Some (d, e)"
  shows "e \<in> set (n_out_edges (w_node r)) \<and> nm = transition_tool_name e \<and> td_name d = nm"
proof -
  let ?f = "\<lambda>e d. od_set (transition_tool_name e) (transition_tool e, e) d"
  have "od_get acc nm = Some (d, e) \<or> e \<in> set es \<and> nm = transition_tool_name e \<and> d = transition_tool e"
    if "od_get (fold ?f es acc) nm = Some (d, e)" for es acc
    using that
  proof (induction es arbitrary: acc)
    case (Cons a es)
    from Cons.IH [of "?f a acc"] Cons.prems show ?case by (auto split: if_splits)
  qed simp
  from this [of "n_out_edges (w_node r)" "[]"] assms show ?thesis
    by (auto simp: local_tools_def od_get_def transition_tool_def)
qed

lemma leave_node_fields [simp]:
  "w_graph (leave_node e h r) = w_graph r" "w_node (leave_node e h r) = w_node r"
  "w_visited (leave_node e h r) = w_visited r" "w_vars (leave_node e h r) = w_vars r"
  by (simp_all add: leave_node_def Let_def)

lemma enter_node_fields [simp]:
  "w_graph (enter_node e t r) = w_graph r" "w_node (enter_node e t r) = t"
  "w_visited (enter_node e t r) = w_visited r @ [n_name t]"
  "w_pre_transfer_node (enter_node e t r) = (if n_type t = ''transfer'' then Some (w_node r) else None)"
  by (auto simp: enter_node_def Let_def)

lemma summarize_store_fields [simp]:
  "w_graph (summarize_store b h r) = w_graph r" "w_node (summarize_store b h r) = w_node r"
  "w_visited (summarize_store b h r) = w_visited r"
  "w_pre_transfer_node (summarize_store b h r) = w_pre_transfer_node r"
  "system_prompt (summarize_store b h r) = system_prompt r"
  by (auto simp: summarize_store_def system_prompt_def runner_render_def split: option.splits)

lemma transition_inv:
  assumes wf: "wf_graph g" and inv: "runner_inv g path r" and e: "e \<in> set (n_out_edges (w_node r))"
  shows "\<exists>h' r' t. runner_transition fresh e turn store h r = Inr (TRANSITION_RESULT, h', r') \<and>
           od_get (g_nodes g) (e_target e) = Some t \<and> runner_inv g (t # path) r' \<and>
           h' = swap_prompts (system_prompt r') fresh turn store h"
proof -
  obtain p where path: "path = w_node r # p" using inv by (cases path) (auto simp: runner_inv_def)
  have n: "od_get (g_nodes g) (n_id (w_node r)) = Some (w_node r)"
    using inv path walk_node [OF wf] by (auto simp: runner_inv_def)
  obtain t where t: "od_get (g_nodes g) (e_target e) = Some t"
    using wf_targets [OF wf] n e by (fastforce simp: targets_ok_def)
  have id: "n_id t = e_target e" using wf_node_id [OF wf t] by simp
  have "succ g (n_id (w_node r)) (n_id t)" using n e id by (auto simp: succ_def)
  then have "walk g (t # path)" using inv t id path by (simp add: runner_inv_def)
  then show ?thesis
    using inv t path by (auto simp: runner_transition_def runner_inv_def Let_def)
qed

lemma abandon_inv:
  assumes wf: "wf_graph g" and inv: "runner_inv g path r"
  shows "\<exists>path'. runner_inv g path' (abandon_transfer r) \<and>
           (if n_type (w_node r) = ''transfer'' then path' = tl path else path' = path)"
proof (cases "w_pre_transfer_node r")
  case None
  then show ?thesis using inv by (auto simp: runner_inv_def abandon_transfer_def)
next
  case (Some s)
  then obtain p where t: "n_type (w_node r) = ''transfer''" and path: "path = w_node r # s # p"
    and w: "walk g path" and vis: "w_visited r = rev (map n_name path)" and gr: "w_graph r = g"
    using inv by (auto simp: runner_inv_def)
  have s: "succ g (n_id s) (n_id (w_node r))" "od_get (g_nodes g) (n_id s) = Some s"
    using w path walk_node [OF wf, of s p] by auto
  have "n_out_edges s \<noteq> []" using s by (auto simp: succ_def)
  then have nt: "n_type s \<noteq> ''transfer''"
    using wf_node_id [OF wf s(2)] by (auto simp: wf_exits_def n_is_terminal_def TERMINAL_NODE_TYPES_def)
  have "od_get (g_nodes g) (n_id (w_node r)) = Some (w_node r)"
    using w path walk_node [OF wf, of "w_node r"] by auto
  then have "n_name (w_node r) \<noteq> n_name s" using wf_names_inj [OF wf _ s(2)] nt t by auto
  then have "runner_inv g (s # p) (abandon_transfer r)"
    using Some t path vis w gr nt by (auto simp: runner_inv_def abandon_transfer_def butlast_append)
  then show ?thesis using t path by auto
qed

lemma runner_reach_inv:
  assumes wf: "wf_graph g" and "runner_reach g r"
  shows "\<exists>path. runner_inv g path r"
  using assms(2)
proof (induction rule: runner_reach.induct)
  case (start sfx vars x z r)
  then obtain s where s: "od_get (g_nodes g) (g_start_id g) = Some s"
    and r: "w_node r = s" "w_graph r = g" "w_visited r = [n_name s]" "w_pre_transfer_node r = None"
    by (auto simp: runner_init_def split: option.splits)
  have "runner_inv g [s] r" using s r wf_start_type [OF wf s] by (simp add: runner_inv_def)
  then show ?case by blast
next
  case (tool r fresh nm turn store h res h' r')
  then obtain path where inv: "runner_inv g path r" by blast
  obtain d e where e: "od_get (local_tools r) nm = Some (d, e)"
    "runner_transition fresh e turn (if store \<noteq> None then store else turn) h r = Inr (res, h', r')"
    using tool.hyps(2) by (auto simp: call_transition_tool_def split: option.splits)
  from transition_inv [OF wf inv, of e fresh turn "if store \<noteq> None then store else turn" h]
    local_tools_edge [OF e(1)] e(2)
  show ?case by auto
next
  case (abandon r)
  then show ?case using abandon_inv [OF wf] by blast
next
  case (update r vals)
  then obtain path where "runner_inv g path r" by blast
  then have "runner_inv g path (update_variables vals r)"
    by (simp add: runner_inv_def update_variables_def cong: option.case_cong)
  then show ?case by blast
next
  case (flags r off sp)
  then obtain path where "runner_inv g path r" by blast
  then have "runner_inv g path (r\<lparr>w_pending_speech := sp, w_pending_transfer := None, w_ended_off_graph := off\<rparr>)"
    by (simp add: runner_inv_def cong: option.case_cong)
  then show ?case by blast
qed

text \<open>
  C20. Throughout a call the steps visited form a walk along the connections of the graph, from the
  start to the current step, under their names in \<^verbatim>\<open>visited\<close>; no transition tool offered can fail.
  A call that stands on a transfer step can always be brought back: \<open>abandon_transfer\<close> returns to the
  step before it, which has a way out, and removes the transfer step from the visited names.
\<close>

theorem runner_walks_graph:
  assumes "wf_graph g" and "runner_reach g r"
  shows "\<exists>path. walk g path \<and> hd path = w_node r \<and> w_visited r = rev (map n_name path) \<and>
     (\<forall>nm turn store fresh h. od_get (local_tools r) nm \<noteq> None \<longrightarrow>
        (\<exists>h' r'. call_transition_tool fresh nm turn store h r = Some (Inr (TRANSITION_RESULT, h', r')) \<and>
           succ g (n_id (w_node r)) (n_id (w_node r')))) \<and>
     (n_type (w_node r) = ''transfer'' \<longrightarrow>
        w_node (abandon_transfer r) = hd (tl path) \<and> n_out_edges (w_node (abandon_transfer r)) \<noteq> [] \<and>
        w_visited (abandon_transfer r) = butlast (w_visited r))"
proof -
  obtain path where inv: "runner_inv g path r" using runner_reach_inv [OF assms] by blast
  have tools: "\<exists>h' r'. call_transition_tool fresh nm turn store h r = Some (Inr (TRANSITION_RESULT, h', r')) \<and>
      succ g (n_id (w_node r)) (n_id (w_node r'))"
    if nm: "od_get (local_tools r) nm \<noteq> None" for nm turn store fresh h
  proof -
    obtain d e where e: "od_get (local_tools r) nm = Some (d, e)" using nm by auto
    let ?st = "if store \<noteq> None then store else turn"
    obtain h' r' t where tr: "runner_transition fresh e turn ?st h r = Inr (TRANSITION_RESULT, h', r')"
      "runner_inv g (t # path) r'"
      using transition_inv [OF assms(1) inv, of e fresh turn ?st h] local_tools_edge [OF e] by blast
    have "w_node r' = t" using tr(2) by (simp add: runner_inv_def)
    moreover have "succ g (n_id (hd path)) (n_id t)"
      using tr(2) inv by (cases path) (auto simp: runner_inv_def)
    ultimately show ?thesis using e tr(1) inv by (auto simp: call_transition_tool_def runner_inv_def)
  qed
  have revert: "w_node (abandon_transfer r) = hd (tl path) \<and> n_out_edges (w_node (abandon_transfer r)) \<noteq> [] \<and>
      w_visited (abandon_transfer r) = butlast (w_visited r)" if tr: "n_type (w_node r) = ''transfer''"
  proof -
    have inv': "runner_inv g (tl path) (abandon_transfer r)" using abandon_inv [OF assms(1) inv] tr by auto
    obtain s p where path: "path = w_node r # s # p"
      using inv tr by (auto simp: runner_inv_def split: option.splits)
    then have "succ g (n_id s) (n_id (w_node r))" "od_get (g_nodes g) (n_id s) = Some s"
      using inv inv' walk_node [OF assms(1), of s p] by (auto simp: runner_inv_def)
    then have "n_out_edges s \<noteq> []" by (auto simp: succ_def)
    then show ?thesis using inv inv' path by (auto simp: runner_inv_def butlast_append)
  qed
  show ?thesis using inv tools revert by (intro exI [of _ path]) (auto simp: runner_inv_def)
qed

text \<open>The start of the sample graph, and the transfer step one move later.\<close>

definition sample_runner :: runner where
  "sample_runner = projr (runner_init sample_graph [] [] None None)"

lemma sample_runner_reach: "runner_reach sample_graph sample_runner"
  by (rule runner_reach.start [of _ "[]" "[]" None None])
    (simp add: sample_runner_def runner_init_def sample_graph_def od_get_def)

theorem runner_walks_graph_witness:
  "\<exists>path. walk sample_graph path \<and> hd path = w_node sample_runner \<and>
     w_visited sample_runner = rev (map n_name path)"
  using runner_walks_graph [OF sample_graph_wf sample_runner_reach] by blast

section \<open>The prompt swap\<close>

text \<open>A list of messages without its leading system message.\<close>

definition without_system :: "chat_message list \<Rightarrow> chat_message list" where
  "without_system ms = (if ms \<noteq> [] \<and> m_role (hd ms) = ''system'' then tl ms else ms)"

lemma chat_fields [simp]: "m_role (chat i ro c) = ro" "m_content (chat i ro c) = c" "m_oid (chat i ro c) = i"
  by (simp_all add: chat_def)

lemma swap_system_result:
  "ms \<noteq> [] \<Longrightarrow> swap_system (chat i ''system'' p) ms = chat i ''system'' p # without_system ms"
  by (cases ms) (auto simp: without_system_def)

lemma without_system_swap [simp]:
  "without_system (swap_system (chat i ''system'' p) ms) = without_system ms"
  by (cases ms) (auto simp: without_system_def chat_def)

lemma swap_prompts_cases:
  "h a = [] \<and> (swap_prompts p fresh turn store h) a = [] \<or>
   h a \<noteq> [] \<and> (Some a \<noteq> turn \<and> Some a \<noteq> store) \<and> (swap_prompts p fresh turn store h) a = h a \<or>
   h a \<noteq> [] \<and> (Some a = turn \<or> Some a = store) \<and>
     (\<exists>i. (swap_prompts p fresh turn store h) a = swap_system (chat i ''system'' p) (h a))"
  by (auto simp: swap_prompts_def Let_def deref_def split: option.splits)

text \<open>
  A transition puts the new step's prompt in place within the turn, on the list the turn sends
  and on the stored history, whether they are two lists or one: a list that has messages starts
  with exactly one new system message that holds the new prompt, the messages after it are the old
  ones, and every other list of the heap is as before.
\<close>

theorem transition_swaps_prompt:
  assumes "runner_transition fresh e turn store h r = Inr (res, h', r')"
  shows "(h a \<noteq> [] \<and> (turn = Some a \<or> store = Some a) \<longrightarrow>
            m_role (hd (h' a)) = ''system'' \<and> m_content (hd (h' a)) = system_prompt r' \<and>
            tl (h' a) = without_system (h a)) \<and>
         (h a = [] \<or> turn \<noteq> Some a \<and> store \<noteq> Some a \<longrightarrow> h' a = h a)"
proof -
  have h': "h' = swap_prompts (system_prompt r') fresh turn store h"
    using assms by (auto simp: runner_transition_def Let_def split: option.splits)
  show ?thesis
    using swap_prompts_cases [of h a "system_prompt r'" fresh turn store]
    unfolding h' by (auto simp: swap_system_result)
qed

theorem transition_swaps_prompt_witness:
  "\<exists>h' r'. runner_transition 9 (sample_edge ''e1'' ''s'' ''t'' ''human'') (Some 0) (Some 0)
       (\<lambda>_. sample_history) sample_runner = Inr (TRANSITION_RESULT, h', r') \<and>
     m_content (hd (h' 0)) = system_prompt r' \<and> tl (h' 0) = without_system sample_history"
proof -
  let ?e = "sample_edge ''e1'' ''s'' ''t'' ''human''"
  have "\<exists>t. od_get (g_nodes (w_graph sample_runner)) (e_target ?e) = Some t"
    by (simp add: sample_runner_def runner_init_def sample_graph_def od_get_def sample_edge_def)
  then obtain h' r' where r: "runner_transition 9 ?e (Some 0) (Some 0) (\<lambda>_. sample_history) sample_runner
      = Inr (TRANSITION_RESULT, h', r')"
    by (auto simp: runner_transition_def Let_def)
  from transition_swaps_prompt [OF r, of 0] r show ?thesis by (auto simp: sample_history_def)
qed

section \<open>The graph of a call\<close>

definition cache_ok :: "graph_cache \<Rightarrow> bool" where
  "cache_ok cache \<longleftrightarrow>
     od_ok cache \<and> length cache \<le> GRAPH_CACHE_MAX \<and> (\<forall>(k, v, g) \<in> set cache. wf_graph g)"

lemma cache_get_wf: "cache_ok cache \<Longrightarrow> cache_get rc cache = Some g \<Longrightarrow> wf_graph g"
  by (fastforce simp: cache_ok_def cache_get_def split: option.splits if_splits dest: od_get_SomeD)

lemma cache_put_ok:
  assumes "cache_ok cache" and "wf_graph g"
  shows "cache_ok (cache_put rc g cache)"
proof -
  let ?k = "cache_key rc" and ?v = "(rc_version rc, g)"
  let ?c = "if od_get cache ?k = None \<and> length cache \<ge> GRAPH_CACHE_MAX then tl cache else cache"
  have ok: "od_ok ?c" using assms(1) by (cases cache) (auto simp: cache_ok_def)
  have len: "length (od_set ?k ?v ?c) \<le> GRAPH_CACHE_MAX"
    using assms(1) by (auto simp: length_od_set cache_ok_def GRAPH_CACHE_MAX_def)
  have "set ?c \<subseteq> set cache" by (cases cache) auto
  then have "\<forall>(k, v, g) \<in> set (od_set ?k ?v ?c). wf_graph g"
    using set_od_set_subset [of ?k ?v ?c] assms unfolding cache_ok_def by fast
  then show ?thesis
    using od_ok_set [OF ok] len unfolding cache_ok_def cache_put_def od_popitem_first_def by auto
qed

lemma cache_get_put:
  assumes "od_ok cache" and "cache_key rc' = cache_key rc"
  shows "cache_get rc' (cache_put rc g cache) = (if rc_version rc' = rc_version rc then Some g else None)"
  using assms by (auto simp: cache_get_def cache_put_def)

lemma py_iter_exn: "py_iter v = Inl e \<Longrightarrow> e = TypeError"
  by (cases v) auto

lemma names_of_nodes_exn: "names_of_nodes fld ns names = Inl e \<Longrightarrow> e = TypeError"
  by (induction fld ns names rule: names_of_nodes.induct) (auto split: sum.splits dest: py_iter_exn)

lemma str_names_exn: "str_names_from_raw raw fld = Inl e \<Longrightarrow> e = TypeError"
  by (auto simp: str_names_from_raw_def split: pyval.splits sum.splits dest: py_iter_exn names_of_nodes_exn)

lemma parse_wf:
  assumes "parse_graph raw = Inr g"
  shows "wf_graph g"
  using assms by (rule parse_graph_wf)

lemma fallback_cases:
  "case fallback_graph rc raw of
     Inl e \<Rightarrow> e = Raised TypeError \<and>
       (str_names_from_raw raw ''tools'' = Inl TypeError \<or>
        str_names_from_raw raw ''knowledge_base_ids'' = Inl TypeError)
   | Inr g \<Rightarrow> wf_graph g"
proof -
  have "\<exists>g. parse_graph (starter_graph a b ts ks) = Inr g" for a b ts ks
    using parse_graph_starter by blast
  then show ?thesis
    by (auto simp: fallback_graph_def split: sum.splits dest: str_names_exn parse_wf) (metis Inr_Inl_False)+
qed

text \<open>What the last resort relies on: the list fields of a stored document really are lists.\<close>

definition list_or_absent :: "pyval \<Rightarrow> bool" where
  "list_or_absent v \<longleftrightarrow> (case v of PList _ \<Rightarrow> True | PNone \<Rightarrow> True | _ \<Rightarrow> False)"

definition lists_ok :: "pyval \<Rightarrow> bool" where
  "lists_ok raw \<longleftrightarrow>
     (case raw of
        PDict d \<Rightarrow>
          list_or_absent (py_get d ''nodes'') \<and>
          (case py_get d ''nodes'' of
             PList ns \<Rightarrow>
               list_all (\<lambda>n. case n of
                   PDict nd \<Rightarrow> list_or_absent (py_get (data_object nd) ''tools'') \<and>
                     list_or_absent (py_get (data_object nd) ''knowledge_base_ids'')
                 | _ \<Rightarrow> True) ns
           | _ \<Rightarrow> True)
      | _ \<Rightarrow> True)"

lemma py_iter_list: "list_or_absent v \<Longrightarrow> \<exists>xs. py_iter (py_or v (PList [])) = Inr xs"
  by (cases v) (auto simp: list_or_absent_def py_or_def)

lemma names_of_nodes_returns:
  assumes "\<forall>nd. PDict nd \<in> set ns \<longrightarrow> list_or_absent (py_get (data_object nd) fld)"
  shows "\<exists>xs. names_of_nodes fld ns names = Inr xs"
  using assms
proof (induction fld ns names rule: names_of_nodes.induct)
  case (2 fld n ns names)
  obtain items where i: "py_iter (py_or (py_get (data_object n) fld) (PList [])) = Inr items"
    using py_iter_list 2(2) by fastforce
  then show ?case using 2(1) [OF i] 2(2) by auto
qed auto

lemma str_names_return:
  assumes "lists_ok raw" and "fld = ''tools'' \<or> fld = ''knowledge_base_ids''"
  shows "str_names_from_raw raw fld \<noteq> Inl e"
proof (cases raw)
  case (PDict d)
  have l: "list_or_absent (py_get d ''nodes'')" using assms(1) PDict by (simp add: lists_ok_def)
  then consider ns where "py_get d ''nodes'' = PList ns" | "py_get d ''nodes'' = PNone"
    by (auto simp: list_or_absent_def split: pyval.splits)
  then show ?thesis
  proof cases
    case 1
    have "\<forall>nd. PDict nd \<in> set ns \<longrightarrow> list_or_absent (py_get (data_object nd) fld)"
      using assms PDict 1 by (auto simp: lists_ok_def list_all_iff)
    from names_of_nodes_returns [OF this, of "[]"] show ?thesis
      using PDict 1 by (auto simp: str_names_from_raw_def py_or_def)
  next
    case 2
    then show ?thesis using PDict by (simp add: str_names_from_raw_def py_or_def)
  qed
qed (auto simp: str_names_from_raw_def)

lemma fallback_returns:
  assumes "lists_ok raw"
  shows "\<exists>g. fallback_graph rc raw = Inr g \<and> wf_graph g"
  using fallback_cases [where rc = rc and raw = raw] str_names_return [OF assms] by (auto split: sum.splits)

lemma lists_ok_None [simp]: "lists_ok PNone"
  by (simp add: lists_ok_def)

lemma lists_ok_dict_only: "lists_ok raw \<Longrightarrow> lists_ok (dict_only raw)"
  by (cases raw) (auto simp: dict_only_def)

lemma resolve_published_wf:
  assumes "cache_ok cache" and "lists_ok (ci_workflow (rc_conversation rc))"
  shows "\<exists>g cache'. resolve_published rc cache = (Inr (g, False), cache') \<and> wf_graph g \<and> cache_ok cache'"
proof -
  let ?raw = "ci_workflow (rc_conversation rc)"
  have fb: "\<exists>g. fallback_graph rc (dict_only ?raw) = Inr g \<and> wf_graph g"
    "\<exists>g. fallback_graph rc PNone = Inr g \<and> wf_graph g"
    using assms(2) by (auto intro!: fallback_returns simp: lists_ok_dict_only)
  consider "\<not> truthy ?raw" | g where "truthy ?raw" "cache_get rc cache = Some g"
    | "truthy ?raw" "cache_get rc cache = None" by (cases "cache_get rc cache") auto
  then show ?thesis
  proof cases
    case 1
    then show ?thesis using fb(2) assms(1) by (auto simp: resolve_published_def)
  next
    case 2
    then show ?thesis using assms(1) cache_get_wf by (auto simp: resolve_published_def)
  next
    case 3
    obtain g where "(case parse_graph ?raw of Inr g \<Rightarrow> Inr g
        | Inl _ \<Rightarrow> fallback_graph rc (dict_only ?raw)) = Inr g" "wf_graph g"
      using fb(1) parse_graph_wf by (cases "parse_graph ?raw") auto
    then show ?thesis using 3 assms(1) cache_put_ok by (auto simp: resolve_published_def)
  qed
qed

text \<open>
  Every call gets a graph it can walk: whatever the published document and the draft hold, as
  long as the list fields of the stored documents are lists, the resolution returns a well-formed
  graph, published, draft, cached or default, and leaves a cache that holds at most 256 graphs, all of
  them well formed.
\<close>

theorem resolve_graph_total:
  assumes "cache_ok cache" and "lists_ok (ci_workflow (rc_conversation rc))"
    and "lists_ok (ci_workflow_draft (rc_conversation rc))"
  shows "\<exists>g fell_back cache'. resolve_graph rc draft cache = (Inr (g, fell_back), cache') \<and>
           wf_graph g \<and> cache_ok cache'"
proof -
  let ?raw = "draft_source (rc_conversation rc)"
  have pub: "\<exists>g cache'. resolve_published rc cache = (Inr (g, False), cache') \<and> wf_graph g \<and> cache_ok cache'"
    using assms resolve_published_wf by blast
  have fb: "\<exists>g. fallback_graph rc (dict_only ?raw) = Inr g \<and> wf_graph g"
    "\<exists>g. fallback_graph rc PNone = Inr g \<and> wf_graph g"
    using assms(2,3) by (auto intro!: fallback_returns lists_ok_dict_only simp: draft_source_def)
  consider "\<not> draft" | "draft" "\<not> truthy ?raw" | g where "draft" "truthy ?raw" "parse_graph ?raw = Inr g"
    | es where "draft" "truthy ?raw" "parse_graph ?raw = Inl (WorkflowInvalid es)"
    | x where "draft" "truthy ?raw" "parse_graph ?raw = Inl (Raised x)"
    by (metis parse_exn.exhaust sum.exhaust)
  then show ?thesis
  proof cases
    case 1
    then show ?thesis using pub by (auto simp: resolve_graph_def)
  next
    case 2
    then show ?thesis using fb(2) assms(1) by (auto simp: resolve_graph_def Let_def)
  next
    case 3
    then show ?thesis using parse_graph_wf [OF 3(3)] assms(1) by (auto simp: resolve_graph_def Let_def)
  next
    case 4
    then show ?thesis using pub by (auto simp: resolve_graph_def Let_def)
  next
    case 5
    then show ?thesis using fb(1) assms(1) by (auto simp: resolve_graph_def Let_def)
  qed
qed

theorem resolve_graph_total_witness:
  "\<exists>g fell_back cache'. resolve_graph (sample_config (PDict [(''nodes'', PList [])]) PNone) True []
       = (Inr (g, fell_back), cache') \<and> wf_graph g \<and> cache_ok cache'"
  by (rule resolve_graph_total)
    (simp_all add: sample_config_def lists_ok_def list_or_absent_def py_get_Cons cache_ok_def)

text \<open>
  The function that picks the graph is documented to never raise, but the scan of an unparseable
  document assumes that its list fields can be iterated: a published document whose nodes are a
  number makes it raise \<^verbatim>\<open>TypeError\<close>, for every configuration that has it and whose cache entry is
  missing.
\<close>

theorem graph_for_can_raise:
  assumes "ci_workflow (rc_conversation rc) = PDict [(''nodes'', PInt 5)]"
    and "cache_get rc cache = None"
  shows "graph_for rc False cache = (Inl (Raised TypeError), cache)"
proof -
  have "fallback_graph rc (PDict [(''nodes'', PInt 5)]) = Inl (Raised TypeError)"
    by (simp add: fallback_graph_def str_names_from_raw_def py_get_Cons py_or_def)
  moreover have "parse_graph (PDict [(''nodes'', PInt 5)])
      = Inl (WorkflowInvalid [err ''workflow'' None (Some ''nodes'') NoNodes])"
    by (simp add: parse_graph_def validate_and_build_def py_get_Cons)
  ultimately show ?thesis
    using assms by (simp add: graph_for_def resolve_graph_def resolve_published_def dict_only_def)
qed

theorem graph_for_can_raise_witness:
  "graph_for (sample_config (PDict [(''nodes'', PInt 5)]) PNone) False [] = (Inl (Raised TypeError), [])"
  by (rule graph_for_can_raise) (simp_all add: sample_config_def cache_get_def od_get_def)

end
