(* ===== verification/Transfer_Engine.thy ===== *)
theory Transfer_Engine
  imports Directives Workflow_Runner
begin

text \<open>
  The decision to hand a call to a human: the stateless decision engine
  (\<^verbatim>\<open>services/conversation/transfer_engine.py\<close>), the counter of consecutive guardrail violations
  (\<^verbatim>\<open>guardrails.py\<close>), and the part of \<^verbatim>\<open>pipeline.py\<close> that owns the per-session latch, the pending
  escalation and the order in which the triggers of a turn are tried. Metrics and logging are left
  out; the correlation id of a request, a fresh UUID, is an argument.
\<close>

section \<open>The decision engine\<close>

datatype transfer_reason = CUSTOMER_REQUEST | ESCALATION_THRESHOLD | WORKFLOW_POLICY | SYSTEM_REQUEST

fun wire_trigger :: "transfer_reason \<Rightarrow> string" where
  "wire_trigger CUSTOMER_REQUEST = ''llm_directive''"
| "wire_trigger ESCALATION_THRESHOLD = ''escalation_threshold''"
| "wire_trigger WORKFLOW_POLICY = ''workflow_policy''"
| "wire_trigger SYSTEM_REQUEST = ''system_request''"

text \<open>The type of a trigger with the payload it selects.\<close>

datatype transfer_trigger =
    LLM_DIRECTIVE "(transfer_type \<times> string \<times> string) option"
  | ESCALATION "int option"
  | WORKFLOW "string option"
  | EXTERNAL "string option"

record decision_context =
  dc_session_id :: string
  dc_tenant_id :: string
  dc_call_id :: string
  dc_transfer_type :: string
  dc_transfer_destination :: "string option"
  dc_escalation_threshold :: "int option"
  dc_already_requested :: bool
  dc_caller_id_policy :: string
  dc_platform_did :: "string option"
  dc_custom_caller_id :: "string option"
  dc_caller_number :: string
  dc_waiting_experience :: string

text \<open>\<open>Inl\<close>: rejected, with the reason.\<close>

type_synonym decision = "string + transfer_request"

definition or_empty :: "string option \<Rightarrow> string" where
  "or_empty s = (case s of Some t \<Rightarrow> t | None \<Rightarrow> [])"

definition resolve_caller_id :: "decision_context \<Rightarrow> string" where
  "resolve_caller_id ctx =
     (if dc_caller_id_policy ctx = ''platform'' \<and> or_empty (dc_platform_did ctx) \<noteq> []
      then or_empty (dc_platform_did ctx)
      else if dc_caller_id_policy ctx = ''custom'' \<and> or_empty (dc_custom_caller_id ctx) \<noteq> []
      then or_empty (dc_custom_caller_id ctx)
      else dc_caller_number ctx)"

text \<open>The reason, type, destination and free text a trigger asks for, or why it asks for nothing.\<close>

fun read_trigger ::
  "decision_context \<Rightarrow> transfer_trigger \<Rightarrow> string + (transfer_reason \<times> transfer_type \<times> string \<times> string)"
where
  "read_trigger ctx (LLM_DIRECTIVE None) = Inl ''missing_directive_payload''"
| "read_trigger ctx (LLM_DIRECTIVE (Some (ty, dest, reason))) = Inr (CUSTOMER_REQUEST, ty, dest, reason)"
| "read_trigger ctx (ESCALATION None) = Inl ''missing_violation_count''"
| "read_trigger ctx (ESCALATION (Some n)) =
     (case dc_escalation_threshold ctx of
        None \<Rightarrow> Inl ''threshold_not_reached''
      | Some limit \<Rightarrow>
          if n \<le> limit then Inl ''threshold_not_reached''
          else Inr (ESCALATION_THRESHOLD, coerce_transfer_type (dc_transfer_type ctx),
                    or_empty (dc_transfer_destination ctx),
                    ''escalation_threshold_exceeded (violations='' @ py_str_int n @ '')''))"
| "read_trigger ctx (WORKFLOW r) =
     Inr (WORKFLOW_POLICY, coerce_transfer_type (dc_transfer_type ctx),
          or_empty (dc_transfer_destination ctx),
          if or_empty r \<noteq> [] then or_empty r else ''workflow_policy'')"
| "read_trigger ctx (EXTERNAL r) =
     Inr (SYSTEM_REQUEST, coerce_transfer_type (dc_transfer_type ctx),
          or_empty (dc_transfer_destination ctx),
          if or_empty r \<noteq> [] then or_empty r else ''system_request'')"

definition evaluate :: "string \<Rightarrow> decision_context \<Rightarrow> transfer_trigger \<Rightarrow> decision" where
  "evaluate uuid ctx trigger =
     (if dc_already_requested ctx then Inl ''already_transferring''
      else case read_trigger ctx trigger of
        Inl why \<Rightarrow> Inl why
      | Inr (reason, ty, dest, free_reason) \<Rightarrow>
          if ty = NONE then Inl ''transfer_disabled''
          else if dest = [] then Inl ''no_destination_configured''
          else Inr \<lparr>tr_session_id = dc_session_id ctx, tr_tenant_id = dc_tenant_id ctx,
                    tr_call_id = dc_call_id ctx, tr_transfer_type = ty, tr_destination = dest,
                    tr_reason = free_reason, tr_trigger = wire_trigger reason, tr_transfer_id = uuid,
                    tr_caller_id = resolve_caller_id ctx,
                    tr_waiting_experience = dc_waiting_experience ctx\<rparr>)"

section \<open>The guardrail counter\<close>

type_synonym guardrail_counter = "(string, int) odict"

definition current_count :: "string \<Rightarrow> guardrail_counter \<Rightarrow> int" where
  "current_count sid c = (case od_get c sid of Some n \<Rightarrow> n | None \<Rightarrow> 0)"

definition increment :: "string \<Rightarrow> guardrail_counter \<Rightarrow> int \<times> guardrail_counter" where
  "increment sid c = (let n = current_count sid c + 1 in (n, od_set sid n c))"

definition reset :: "string \<Rightarrow> guardrail_counter \<Rightarrow> guardrail_counter" where
  "reset sid c = od_del sid c"

section \<open>Routable destinations\<close>

text \<open>\<^verbatim>\<open>_SIP_URI_RE\<close> and \<^verbatim>\<open>_PHONE_RE\<close> on a text without surrounding whitespace.\<close>

definition sip_user_host :: "string \<Rightarrow> bool" where
  "sip_user_host s =
     (let user_ok = (\<lambda>c. c \<noteq> CHR 0x40 \<and> \<not> py_space c);
          rest = dropWhile user_ok s
      in takeWhile user_ok s \<noteq> [] \<and> rest \<noteq> [] \<and> hd rest = CHR 0x40 \<and> tl rest \<noteq> [] \<and>
         list_all (\<lambda>c. \<not> py_space c) (tl rest))"

definition sip_uri :: "string \<Rightarrow> bool" where
  "sip_uri d \<longleftrightarrow>
     (starts_with ''sip:'' (py_lower d) \<and> sip_user_host (drop 4 d)) \<or>
     (starts_with ''sips:'' (py_lower d) \<and> sip_user_host (drop 5 d))"

definition phone_number :: "string \<Rightarrow> bool" where
  "phone_number d \<longleftrightarrow>
     (let ds = (if d \<noteq> [] \<and> hd d = CHR ''+'' then tl d else d)
      in list_all ascii_digit ds \<and> 2 \<le> length ds \<and> length ds \<le> 15)"

datatype destination_problem = DestinationEmpty | MalformedSip string | NotRoutable string

definition transfer_destination_problem :: "string option \<Rightarrow> destination_problem option" where
  "transfer_destination_problem destination =
     (case destination of
        None \<Rightarrow> Some DestinationEmpty
      | Some s \<Rightarrow>
          let d = py_strip s in
          if d = [] then Some DestinationEmpty
          else if starts_with ''sip:'' (py_lower d) \<or> starts_with ''sips:'' (py_lower d)
          then (if sip_uri d then None else Some (MalformedSip d))
          else if phone_number d then None else Some (NotRoutable d))"

section \<open>The transfer state of a session\<close>

record transfer_state =
  ts_requested :: bool
  ts_pending :: "transfer_request option"
  ts_fabrication :: bool
  ts_guardrail :: guardrail_counter
  ts_booking :: guardrail_counter

text \<open>\<^verbatim>\<open>_decision_context\<close>: the configured context with the session's latch.\<close>

definition session_context :: "decision_context \<Rightarrow> string option \<Rightarrow> transfer_state \<Rightarrow> decision_context" where
  "session_context cfg override s =
     cfg\<lparr>dc_already_requested := ts_requested s,
         dc_transfer_destination :=
           (if or_empty override \<noteq> [] then override else dc_transfer_destination cfg)\<rparr>"

definition evaluate_escalation ::
  "string \<Rightarrow> decision_context \<Rightarrow> int \<Rightarrow> transfer_state \<Rightarrow> transfer_request option \<times> transfer_state"
where
  "evaluate_escalation uuid cfg n s =
     (case evaluate uuid (session_context cfg None s) (ESCALATION (Some n)) of
        Inl _ \<Rightarrow> (None, s)
      | Inr req \<Rightarrow> (Some req, s\<lparr>ts_requested := True, ts_pending := Some req\<rparr>))"

definition record_guardrail_violation ::
  "string \<Rightarrow> decision_context \<Rightarrow> transfer_state \<Rightarrow> transfer_request option \<times> transfer_state"
where
  "record_guardrail_violation uuid cfg s =
     (let (n, c) = increment (dc_session_id cfg) (ts_guardrail s)
      in evaluate_escalation uuid cfg n (s\<lparr>ts_guardrail := c\<rparr>))"

definition record_booking_fabrication ::
  "string \<Rightarrow> decision_context \<Rightarrow> transfer_state \<Rightarrow> transfer_request option \<times> transfer_state"
where
  "record_booking_fabrication uuid cfg s =
     (let (n, c) = increment (dc_session_id cfg) (ts_booking s);
          (req, s') = evaluate_escalation uuid cfg n (s\<lparr>ts_booking := c\<rparr>)
      in (req, if req \<noteq> None then s'\<lparr>ts_fabrication := True\<rparr> else s'))"

text \<open>
  \<^verbatim>\<open>_workflow_transfer\<close>: \<open>vals\<close> and \<open>finished\<close> are the values and the tasks of the extractions that
  complete while the pipeline waits for them.
\<close>

definition workflow_transfer ::
  "string \<Rightarrow> decision_context \<Rightarrow> (string \<times> pyval) list \<Rightarrow> nat list \<Rightarrow> runner \<times> transfer_state
     \<Rightarrow> transfer_request option \<times> runner \<times> transfer_state"
where
  "workflow_transfer uuid cfg vals finished rs =
     (let (r, s) = rs in
      case w_pending_transfer r of
        None \<Rightarrow> (None, r, s)
      | Some n \<Rightarrow>
          let r1 = r\<lparr>w_pending_transfer := None,
                     w_summarizer := map_option sum_cancel (w_summarizer r),
                     w_extractor := map_option (\<lambda>x. fold on_task_done finished (start_deferred x))
                                      (w_extractor r)\<rparr>;
              r2 = update_variables vals r1;
              txt = runner_render r2 (or_empty (n_transfer_destination n));
              destination = (if txt = [] then None else Some txt)
          in if transfer_destination_problem destination \<noteq> None then (None, abandon_transfer r2, s)
             else (case evaluate uuid (session_context cfg destination s)
                          (WORKFLOW (Some (''workflow_node:'' @ n_name n))) of
                     Inl _ \<Rightarrow> (None, abandon_transfer r2, s)
                   | Inr req \<Rightarrow> (Some req, r2, s\<lparr>ts_requested := True\<rparr>)))"

fun first_transfer :: "directive list \<Rightarrow> (transfer_type \<times> string \<times> string) option" where
  "first_transfer [] = None"
| "first_transfer (TransferDirective ty dest reason # ds) = Some (ty, dest, reason)"
| "first_transfer (_ # ds) = first_transfer ds"

text \<open>
  The end of a turn: the directive of the model, then the workflow's transfer step, then a pending
  escalation; a turn the caller interrupted hands nothing over.
\<close>

definition turn_transfer ::
  "string \<Rightarrow> string \<Rightarrow> decision_context \<Rightarrow> directive list \<Rightarrow> bool \<Rightarrow> (string \<times> pyval) list \<Rightarrow> nat list
     \<Rightarrow> runner \<times> transfer_state \<Rightarrow> transfer_request option \<times> runner \<times> transfer_state"
where
  "turn_transfer uuid uuid' cfg ds cancelled vals finished rs =
     (let (r, s) = rs in
      if cancelled then (None, r, s)
      else
        let by_directive =
              (case first_transfer ds of
                 None \<Rightarrow> None
               | Some t \<Rightarrow>
                   (case evaluate uuid (session_context cfg None s) (LLM_DIRECTIVE (Some t)) of
                      Inl _ \<Rightarrow> None | Inr req \<Rightarrow> Some req))
        in case by_directive of
             Some req \<Rightarrow> (Some req, r, s\<lparr>ts_requested := True, ts_fabrication := False\<rparr>)
           | None \<Rightarrow>
               (case workflow_transfer uuid' cfg vals finished (r, s) of
                  (Some req, r', s') \<Rightarrow> (Some req, r', s'\<lparr>ts_fabrication := False\<rparr>)
                | (None, r', s') \<Rightarrow>
                    (case ts_pending s' of
                       Some req \<Rightarrow> (Some req, r', s'\<lparr>ts_pending := None, ts_fabrication := False\<rparr>)
                     | None \<Rightarrow> (None, r', s'))))"

definition transfer_failed :: "runner \<times> transfer_state \<Rightarrow> runner \<times> transfer_state" where
  "transfer_failed rs = (abandon_transfer (fst rs), (snd rs)\<lparr>ts_requested := False\<rparr>)"

definition transfer_cancelled :: "runner \<times> transfer_state \<Rightarrow> runner \<times> transfer_state" where
  "transfer_cancelled rs = (abandon_transfer (fst rs), (snd rs)\<lparr>ts_requested := False\<rparr>)"

section \<open>One transfer at a time\<close>

text \<open>
  The life of a session as the rest of the service drives it. The third component records whether a
  request has been handed to the gateway and has neither failed nor been cancelled; only such a
  request can fail or be cancelled.
\<close>

inductive transfer_run ::
  "decision_context \<Rightarrow> runner \<times> transfer_state \<Rightarrow> bool \<Rightarrow> bool"
  for cfg where
  fresh: "transfer_run cfg (r, \<lparr>ts_requested = False, ts_pending = None, ts_fabrication = False,
                                ts_guardrail = [], ts_booking = []\<rparr>) False"
| workflow: "transfer_run cfg (r, s) b \<Longrightarrow> transfer_run cfg (r', s) b"
| violation: "transfer_run cfg (r, s) b \<Longrightarrow>
    transfer_run cfg (r, snd (record_guardrail_violation uuid cfg s)) b"
| clean: "transfer_run cfg (r, s) b \<Longrightarrow>
    transfer_run cfg (r, s\<lparr>ts_guardrail := reset (dc_session_id cfg) (ts_guardrail s)\<rparr>) b"
| fabrication: "transfer_run cfg (r, s) b \<Longrightarrow>
    transfer_run cfg (r, snd (record_booking_fabrication uuid cfg s)) b"
| turn_end: "transfer_run cfg (r, s) b \<Longrightarrow>
    turn_transfer uuid uuid' cfg ds cancelled vals finished (r, s) = (req, rs') \<Longrightarrow>
    transfer_run cfg rs' (b \<or> req \<noteq> None)"
| failed: "transfer_run cfg rs True \<Longrightarrow> transfer_run cfg (transfer_failed rs) False"
| cancelled: "transfer_run cfg rs True \<Longrightarrow> transfer_run cfg (transfer_cancelled rs) False"

definition request_ok :: "decision_context \<Rightarrow> transfer_request \<Rightarrow> bool" where
  "request_ok cfg req \<longleftrightarrow>
     tr_transfer_type req \<noteq> NONE \<and> tr_destination req \<noteq> [] \<and>
     tr_session_id req = dc_session_id cfg \<and> tr_tenant_id req = dc_tenant_id cfg \<and>
     tr_call_id req = dc_call_id cfg \<and> tr_caller_id req = resolve_caller_id cfg"

definition transfer_inv :: "decision_context \<Rightarrow> transfer_state \<Rightarrow> bool \<Rightarrow> bool" where
  "transfer_inv cfg s b \<longleftrightarrow>
     (b \<longrightarrow> ts_requested s \<and> ts_pending s = None) \<and>
     (case ts_pending s of Some req \<Rightarrow> ts_requested s \<and> request_ok cfg req | None \<Rightarrow> True)"

lemma resolve_caller_id_session [simp]:
  "resolve_caller_id (session_context cfg d s) = resolve_caller_id cfg"
  by (simp add: resolve_caller_id_def session_context_def)

lemma evaluate_accepted:
  assumes "evaluate uuid (session_context cfg d s) t = Inr req"
  shows "\<not> ts_requested s \<and> request_ok cfg req"
  using assms
  by (auto simp: evaluate_def request_ok_def session_context_def [where cfg = cfg]
      resolve_caller_id_def split: if_splits sum.splits prod.splits)

lemma evaluate_workflow_destination:
  assumes "evaluate uuid (session_context cfg (Some d) s) (WORKFLOW r) = Inr req" and "d \<noteq> []"
  shows "tr_destination req = d"
  using assms by (auto simp: evaluate_def session_context_def or_empty_def split: if_splits)

lemma escalation_inv:
  assumes "transfer_inv cfg s b"
  shows "transfer_inv cfg (snd (evaluate_escalation uuid cfg n s)) b"
  using assms evaluate_accepted [of uuid cfg None s]
  by (auto simp: evaluate_escalation_def transfer_inv_def split: sum.splits option.splits)

lemma transfer_inv_counters [simp]:
  "transfer_inv cfg (s\<lparr>ts_guardrail := c\<rparr>) b = transfer_inv cfg s b"
  "transfer_inv cfg (s\<lparr>ts_booking := c\<rparr>) b = transfer_inv cfg s b"
  "transfer_inv cfg (s\<lparr>ts_fabrication := f\<rparr>) b = transfer_inv cfg s b"
  by (simp_all add: transfer_inv_def cong: option.case_cong)

lemma violation_inv:
  assumes "transfer_inv cfg s b"
  shows "transfer_inv cfg (snd (record_guardrail_violation uuid cfg s)) b"
    and "transfer_inv cfg (snd (record_booking_fabrication uuid cfg s)) b"
  using escalation_inv assms
  by (auto simp: record_guardrail_violation_def record_booking_fabrication_def Let_def
      split: prod.splits) (metis snd_conv transfer_inv_counters(2,3))+

lemma workflow_transfer_state:
  assumes "workflow_transfer uuid cfg vals fin (r, s) = (req, r', s')"
  shows "case req of Some q \<Rightarrow> \<not> ts_requested s \<and> request_ok cfg q \<and> s' = s\<lparr>ts_requested := True\<rparr> | None \<Rightarrow> s' = s"
  using assms
  by (auto simp: workflow_transfer_def Let_def split: option.splits if_splits sum.splits
      dest: evaluate_accepted)

lemma turn_transfer_state:
  assumes "turn_transfer uuid uuid' cfg ds c vals fin (r, s) = (req, r', s')" and "transfer_inv cfg s b"
  shows "transfer_inv cfg s' (b \<or> req \<noteq> None) \<and>
    (case req of Some q \<Rightarrow> \<not> b \<and> request_ok cfg q | None \<Rightarrow> True)"
proof (cases "c")
  case True
  then show ?thesis using assms by (auto simp: turn_transfer_def)
next
  case False
  obtain q1 r1 s1 where w: "workflow_transfer uuid' cfg vals fin (r, s) = (q1, r1, s1)"
    by (metis prod.exhaust)
  note ws = workflow_transfer_state [OF w]
  show ?thesis
    using assms False ws w
    by (auto simp: turn_transfer_def transfer_inv_def split: option.splits sum.splits
        dest: evaluate_accepted)
qed

lemma transfer_run_inv: "transfer_run cfg rs b \<Longrightarrow> transfer_inv cfg (snd rs) b"
proof (induction rule: transfer_run.induct)
  case (turn_end r s b uuid uuid' ds cancelled vals finished req rs')
  then show ?case using turn_transfer_state [of uuid uuid' cfg ds cancelled vals finished r s req "fst rs'" "snd rs'"]
    by simp
next
  case (clean r s b)
  then show ?case by simp
next
  case (violation r s b uuid)
  then show ?case using violation_inv(1) by simp
next
  case (fabrication r s b uuid)
  then show ?case using violation_inv(2) by simp
qed (auto simp: transfer_inv_def transfer_failed_def transfer_cancelled_def)

text \<open>
  However guardrail hits, fabricated bookings, the model's directives, the workflow and failed
  or cancelled transfers interleave, a session hands a request to the gateway only when none is in
  flight; the request names the session, has a destination and a real transfer type, and carries the
  caller id the policy prescribes.
\<close>

theorem one_transfer_in_flight:
  assumes "transfer_run cfg (r, s) in_flight"
    and "turn_transfer uuid uuid' cfg ds cancelled vals finished (r, s) = (Some req, rs')"
  shows "\<not> in_flight \<and> request_ok cfg req"
proof -
  have "transfer_inv cfg s in_flight" using transfer_run_inv [OF assms(1)] by simp
  from turn_transfer_state [OF _ this, of uuid uuid' ds cancelled vals finished r "Some req" "fst rs'" "snd rs'"]
    assms(2)
  show ?thesis by simp
qed

definition sample_context :: decision_context where
  "sample_context =
     \<lparr>dc_session_id = ''s1'', dc_tenant_id = ''t1'', dc_call_id = ''c1'', dc_transfer_type = ''warm'',
      dc_transfer_destination = Some ''+100'', dc_escalation_threshold = Some 2,
      dc_already_requested = False, dc_caller_id_policy = ''original'', dc_platform_did = None,
      dc_custom_caller_id = None, dc_caller_number = ''+199'', dc_waiting_experience = []\<rparr>"

definition quiet_state :: transfer_state where
  "quiet_state = \<lparr>ts_requested = False, ts_pending = None, ts_fabrication = False,
                  ts_guardrail = [], ts_booking = []\<rparr>"

theorem one_transfer_in_flight_witness:
  "\<exists>req rs'. turn_transfer ''u'' ''v'' sample_context [TransferDirective COLD ''+555'' ''asked''] False [] []
       (sample_runner, quiet_state) = (Some req, rs') \<and> request_ok sample_context req"
proof -
  have run: "transfer_run sample_context (sample_runner, quiet_state) False"
    unfolding quiet_state_def by (rule transfer_run.fresh)
  obtain req rs' where t: "turn_transfer ''u'' ''v'' sample_context
      [TransferDirective COLD ''+555'' ''asked''] False [] [] (sample_runner, quiet_state) = (Some req, rs')"
    by (simp add: turn_transfer_def evaluate_def session_context_def quiet_state_def)
  from one_transfer_in_flight [OF run t] t show ?thesis by blast
qed

section \<open>The workflow's transfer step\<close>

lemma runner_inv_fields:
  "runner_inv g path r \<Longrightarrow>
     runner_inv g path (update_variables vals (r\<lparr>w_pending_transfer := p, w_summarizer := z, w_extractor := x\<rparr>))"
  by (simp add: runner_inv_def update_variables_def cong: option.case_cong)

lemma abandon_not_transfer:
  assumes "wf_graph g" and "runner_inv g path r"
  shows "n_type (w_node (abandon_transfer r)) \<noteq> ''transfer'' \<and> (\<exists>p. runner_inv g p (abandon_transfer r))"
proof -
  obtain p where p: "runner_inv g p (abandon_transfer r)" using abandon_inv [OF assms] by blast
  have "w_pre_transfer_node (abandon_transfer r) = None"
    using assms(2) by (auto simp: abandon_transfer_def runner_inv_def split: option.splits)
  then show ?thesis using p by (auto simp: runner_inv_def)
qed

text \<open>
  A call never gets stuck on a transfer step: when the step's transfer is refused, for an
  unroutable destination or by the engine, the runner stands on a step that is not a transfer step
  again; when it is accepted, the destination is a phone number or a SIP address.
\<close>

theorem workflow_transfer_outcome:
  assumes "wf_graph g" and "runner_reach g r" and "w_pending_transfer r \<noteq> None"
    and "workflow_transfer uuid cfg vals finished (r, s) = (req, r', s')"
  shows "case req of
           Some q \<Rightarrow> transfer_destination_problem (Some (tr_destination q)) = None \<and> w_node r' = w_node r
         | None \<Rightarrow> n_type (w_node r') \<noteq> ''transfer'' \<and> (\<exists>path. walk g path \<and> hd path = w_node r')"
proof -
  obtain path where inv: "runner_inv g path r" using runner_reach_inv [OF assms(1,2)] by blast
  obtain n where n: "w_pending_transfer r = Some n" using assms(3) by blast
  define r2 where "r2 = update_variables vals
    (r\<lparr>w_pending_transfer := None, w_summarizer := map_option sum_cancel (w_summarizer r),
       w_extractor := map_option (\<lambda>x. fold on_task_done finished (start_deferred x)) (w_extractor r)\<rparr>)"
  have inv2: "runner_inv g path r2" unfolding r2_def by (rule runner_inv_fields [OF inv])
  have node2: "w_node r2 = w_node r" by (simp add: r2_def update_variables_def)
  define d where "d = (let txt = runner_render r2 (or_empty (n_transfer_destination n))
    in if txt = [] then None else Some txt)"
  have wt: "workflow_transfer uuid cfg vals finished (r, s) =
      (if transfer_destination_problem d \<noteq> None then (None, abandon_transfer r2, s)
       else (case evaluate uuid (session_context cfg d s) (WORKFLOW (Some (''workflow_node:'' @ n_name n))) of
               Inl _ \<Rightarrow> (None, abandon_transfer r2, s)
             | Inr q \<Rightarrow> (Some q, r2, s\<lparr>ts_requested := True\<rparr>)))"
    using n by (simp add: workflow_transfer_def r2_def d_def Let_def cong: if_cong sum.case_cong)
  show ?thesis
  proof (cases req)
    case None
    then have "r' = abandon_transfer r2" using assms(4) wt by (auto split: if_splits sum.splits)
    then show ?thesis using None abandon_not_transfer [OF assms(1) inv2] by (auto simp: runner_inv_def)
  next
    case (Some q)
    then have p: "transfer_destination_problem d = None" "r' = r2"
      "evaluate uuid (session_context cfg d s) (WORKFLOW (Some (''workflow_node:'' @ n_name n))) = Inr q"
      using assms(4) wt by (auto split: if_splits sum.splits)
    obtain dst where dst: "d = Some dst" "dst \<noteq> []"
      using p(1) by (auto simp: d_def transfer_destination_problem_def Let_def split: if_splits)
    have "tr_destination q = dst" using evaluate_workflow_destination p(3) dst by blast
    then show ?thesis using Some p dst node2 by simp
  qed
qed

text \<open>The sample call after the transition to its transfer step.\<close>

definition sample_on_transfer :: runner where
  "sample_on_transfer =
     snd (snd (projr (the (call_transition_tool 9 ''goto_human'' None None (\<lambda>_. []) sample_runner))))"

lemma sample_transition:
  "call_transition_tool 9 ''goto_human'' None None (\<lambda>_. []) sample_runner =
     Some (Inr (TRANSITION_RESULT, (\<lambda>_. []), sample_on_transfer)) \<and>
   w_pending_transfer sample_on_transfer = Some (sample_node ''t'' ''transfer'' ''hand over'' [])"
proof -
  have e: "od_get (local_tools sample_runner) ''goto_human'' =
      Some (transition_tool (sample_edge ''e1'' ''s'' ''t'' ''human''), sample_edge ''e1'' ''s'' ''t'' ''human'')"
    by (simp add: local_tools_def sample_runner_def runner_init_def sample_graph_def sample_node_def od_get_def
        transition_tool_name_def tool_name_def sample_edge_def py_lower_def py_lower_char_def slug_char_def
        ascii_lower_def ascii_digit_def strip_underscores_def)
  show ?thesis
    unfolding sample_on_transfer_def call_transition_tool_def e
    by (simp add: runner_transition_def Let_def sample_runner_def runner_init_def sample_graph_def od_get_def
        sample_edge_def leave_node_def enter_node_def sample_node_def swap_prompts_def deref_def
        summarize_store_def)
qed

theorem workflow_transfer_outcome_witness:
  "\<exists>req r' s'. workflow_transfer ''u'' sample_context [] [] (sample_on_transfer, quiet_state) = (req, r', s') \<and>
     (case req of
        Some q \<Rightarrow> transfer_destination_problem (Some (tr_destination q)) = None \<and> w_node r' = w_node sample_on_transfer
      | None \<Rightarrow> n_type (w_node r') \<noteq> ''transfer'' \<and> (\<exists>path. walk sample_graph path \<and> hd path = w_node r'))"
proof -
  have r: "runner_reach sample_graph sample_on_transfer"
    using runner_reach.tool [OF sample_runner_reach] sample_transition by blast
  obtain req r' s' where w: "workflow_transfer ''u'' sample_context [] [] (sample_on_transfer, quiet_state) = (req, r', s')"
    by (metis prod.exhaust)
  from workflow_transfer_outcome [OF sample_graph_wf r _ w] sample_transition w show ?thesis by blast
qed

section \<open>Escalation counts consecutive violations\<close>

text \<open>One turn of the caller: flagged or not.\<close>

definition guardrail_turn :: "string \<Rightarrow> decision_context \<Rightarrow> bool \<Rightarrow> transfer_state \<Rightarrow> transfer_state" where
  "guardrail_turn uuid cfg flagged s =
     (if flagged then snd (record_guardrail_violation uuid cfg s)
      else s\<lparr>ts_guardrail := reset (dc_session_id cfg) (ts_guardrail s)\<rparr>)"

definition streak :: "bool list \<Rightarrow> nat" where
  "streak ts = length (takeWhile id (rev ts))"

lemma evaluate_escalation_guardrail [simp]:
  "ts_guardrail (snd (evaluate_escalation uuid cfg n s)) = ts_guardrail s"
  by (auto simp: evaluate_escalation_def split: sum.splits)

lemma guardrail_turn_count:
  "current_count (dc_session_id cfg) (ts_guardrail (guardrail_turn uuid cfg flagged s)) =
     (if flagged then current_count (dc_session_id cfg) (ts_guardrail s) + 1 else 0)"
  by (auto simp: guardrail_turn_def record_guardrail_violation_def increment_def Let_def
      current_count_def reset_def)

lemma streak_count:
  "current_count (dc_session_id cfg) (ts_guardrail (fold (guardrail_turn uuid cfg) ts quiet_state)) = int (streak ts)"
proof (induction ts rule: rev_induct)
  case Nil
  then show ?case by (simp add: streak_def quiet_state_def current_count_def od_get_def)
next
  case (snoc t ts)
  then show ?case by (simp add: guardrail_turn_count streak_def)
qed

text \<open>
  Escalation looks at consecutive violations only: after any sequence of flagged and unflagged
  turns, a flagged turn of a session without an accepted transfer escalates exactly when the agent has
  a threshold, transfers are enabled with a destination, and the unbroken run of flagged turns that
  ends with this one is longer than the threshold.
\<close>

theorem escalation_iff_streak:
  assumes "s = fold (guardrail_turn uuid cfg) ts quiet_state" and "\<not> ts_requested s"
  shows "fst (record_guardrail_violation uuid cfg s) \<noteq> None \<longleftrightarrow>
    (\<exists>limit. dc_escalation_threshold cfg = Some limit \<and> limit < int (streak (ts @ [True]))) \<and>
    coerce_transfer_type (dc_transfer_type cfg) \<noteq> NONE \<and> or_empty (dc_transfer_destination cfg) \<noteq> []"
proof -
  let ?n = "current_count (dc_session_id cfg) (ts_guardrail s) + 1"
  have n: "?n = int (streak (ts @ [True]))"
    unfolding assms(1) streak_count by (simp add: streak_def)
  have "fst (record_guardrail_violation uuid cfg s) =
      fst (evaluate_escalation uuid cfg ?n (s\<lparr>ts_guardrail := od_set (dc_session_id cfg) ?n (ts_guardrail s)\<rparr>))"
    by (simp add: record_guardrail_violation_def increment_def Let_def)
  then show ?thesis
    using assms(2) unfolding n [symmetric]
    by (auto simp: evaluate_escalation_def evaluate_def session_context_def or_empty_def
        split: option.splits if_splits)
qed

theorem escalation_iff_streak_witness:
  "fst (record_guardrail_violation ''u'' sample_context
      (fold (guardrail_turn ''u'' sample_context) [True, False, True, True] quiet_state)) \<noteq> None"
proof -
  let ?s = "fold (guardrail_turn ''u'' sample_context) [True, False, True, True] quiet_state"
  have "\<not> ts_requested ?s"
    by (simp add: guardrail_turn_def record_guardrail_violation_def increment_def current_count_def
        evaluate_escalation_def evaluate_def session_context_def sample_context_def quiet_state_def reset_def
        od_get_def od_del_def)
  from escalation_iff_streak [OF refl this] show ?thesis
    by (simp add: sample_context_def streak_def coerce_transfer_type_def or_empty_def)
qed

end
