(* ===== verification/Latency_Store.thy ===== *)
theory Latency_Store
  imports Prelude
begin

text \<open>
  The rolling window of tool durations (\<^verbatim>\<open>services/conversation/tool_latency.py\<close>) and the choice of
  the filler phrase that covers the wait (\<^verbatim>\<open>services/conversation/fillers.py\<close>). Durations and clock
  readings are exact rationals; a duration that is not finite is \<open>None\<close>, since the store only asks
  whether it is finite and positive.
\<close>

section \<open>The store\<close>

type_synonym samples = "(rat \<times> rat) list"
type_synonym tenant_map = "(string \<times> string, samples) odict"

record latency_store =
  ls_tenants :: "(string, tenant_map) odict"
  ls_record_count :: nat

definition WINDOW :: nat where "WINDOW = 50"
definition MIN_SAMPLES :: nat where "MIN_SAMPLES = 3"
definition MAX_AGE_S :: rat where "MAX_AGE_S = 900"
definition MAX_KEYS_PER_TENANT :: nat where "MAX_KEYS_PER_TENANT = 200"
definition SWEEP_EVERY :: nat where "SWEEP_EVERY = 64"
definition SWEEP_SCAN :: nat where "SWEEP_SCAN = 32"
definition MAX_TENANTS :: nat where "MAX_TENANTS = 2000"

lemmas latency_limits =
  WINDOW_def MIN_SAMPLES_def MAX_AGE_S_def MAX_KEYS_PER_TENANT_def SWEEP_EVERY_def SWEEP_SCAN_def
  MAX_TENANTS_def

definition store_init :: latency_store where
  "store_init = \<lparr>ls_tenants = [], ls_record_count = 0\<rparr>"

text \<open>\<^verbatim>\<open>deque(maxlen=n).append\<close>: the oldest sample falls out.\<close>

definition deque_append :: "nat \<Rightarrow> 'a \<Rightarrow> 'a list \<Rightarrow> 'a list" where
  "deque_append n x xs = (let ys = xs @ [x] in drop (length ys - n) ys)"

definition blank :: "string \<Rightarrow> bool" where
  "blank s \<longleftrightarrow> s = [] \<or> py_strip s = []"

text \<open>Whether every window of a tenant has expired.\<close>

definition tenant_is_reclaimable :: "tenant_map \<Rightarrow> rat \<Rightarrow> bool" where
  "tenant_is_reclaimable tm cutoff \<longleftrightarrow>
     (if tm = [] then True
      else \<not> list_ex (\<lambda>(k, xs). xs \<noteq> [] \<and> fst (last xs) \<ge> cutoff) tm)"

definition sweep_tenant :: "rat \<Rightarrow> string \<Rightarrow> (string, tenant_map) odict \<Rightarrow> (string, tenant_map) odict" where
  "sweep_tenant cutoff t d =
     (case od_get d t of
        None \<Rightarrow> d
      | Some tm \<Rightarrow> if tenant_is_reclaimable tm cutoff then od_del t d else od_move_to_end t d)"

definition store_sweep :: "rat \<Rightarrow> (string, tenant_map) odict \<Rightarrow> (string, tenant_map) odict" where
  "store_sweep now d = fold (sweep_tenant (now - MAX_AGE_S)) (take SWEEP_SCAN (od_keys d)) d"

text \<open>The window of one key after a new sample, and the map of its tenant.\<close>

definition record_sample :: "string \<times> string \<Rightarrow> rat \<Rightarrow> rat \<Rightarrow> tenant_map \<Rightarrow> tenant_map" where
  "record_sample key now ms tm =
     (let xs = (case od_get tm key of Some xs \<Rightarrow> xs | None \<Rightarrow> []);
          tm1 = od_move_to_end key (od_set key (deque_append WINDOW (now, ms) xs) tm)
      in if length tm1 > MAX_KEYS_PER_TENANT then od_popitem_first tm1 else tm1)"

text \<open>\<^verbatim>\<open>record\<close>; \<open>now\<close> is the clock.\<close>

definition store_record ::
  "rat \<Rightarrow> string \<Rightarrow> string \<Rightarrow> string \<Rightarrow> rat option \<Rightarrow> latency_store \<Rightarrow> latency_store"
where
  "store_record now tenant agent tool elapsed_ms st =
     (if blank tenant \<or> blank agent then st
      else case elapsed_ms of
        None \<Rightarrow> st
      | Some ms \<Rightarrow>
          if ms \<le> 0 then st
          else
            let d1 = (case od_get (ls_tenants st) tenant of
                        Some _ \<Rightarrow> ls_tenants st
                      | None \<Rightarrow>
                          let d0 = od_set tenant [] (ls_tenants st)
                          in if length d0 > MAX_TENANTS then od_popitem_first d0 else d0);
                tm = (case od_get d1 tenant of Some tm \<Rightarrow> tm | None \<Rightarrow> []);
                d2 = od_set tenant (record_sample (agent, tool) now ms tm) (od_move_to_end tenant d1);
                n = ls_record_count st + 1
            in \<lparr>ls_tenants = (if n mod SWEEP_EVERY = 0 then store_sweep now d2 else d2),
                ls_record_count = n\<rparr>)"

text \<open>\<^verbatim>\<open>average_ms\<close>: expired samples are dropped on the way.\<close>

definition average_ms ::
  "rat \<Rightarrow> string \<Rightarrow> string \<Rightarrow> string \<Rightarrow> latency_store \<Rightarrow> rat option \<times> latency_store"
where
  "average_ms now tenant agent tool st =
     (if blank tenant \<or> blank agent then (None, st)
      else case od_get (ls_tenants st) tenant of
        None \<Rightarrow> (None, st)
      | Some tm \<Rightarrow>
          let d1 = od_move_to_end tenant (ls_tenants st) in
          case od_get tm (agent, tool) of
            None \<Rightarrow> (None, st\<lparr>ls_tenants := d1\<rparr>)
          | Some xs \<Rightarrow>
              let tm1 = od_move_to_end (agent, tool) tm;
                  ys = dropWhile (\<lambda>(t, _). t < now - MAX_AGE_S) xs
              in if ys = [] then
                   let tm2 = od_del (agent, tool) tm1
                   in (None, st\<lparr>ls_tenants := (if tm2 = [] then od_del tenant d1
                                               else od_set tenant tm2 d1)\<rparr>)
                 else
                   (if length ys < MIN_SAMPLES then None
                    else Some (sum_list (map snd ys) / of_nat (length ys)),
                    st\<lparr>ls_tenants := od_set tenant (od_set (agent, tool) ys tm1) d1\<rparr>))"

section \<open>Bounds\<close>

definition samples_ok :: "samples \<Rightarrow> bool" where
  "samples_ok xs \<longleftrightarrow> length xs \<le> WINDOW \<and> (\<forall>(t, ms) \<in> set xs. 0 < ms)"

definition tenant_ok :: "tenant_map \<Rightarrow> bool" where
  "tenant_ok tm \<longleftrightarrow> od_ok tm \<and> length tm \<le> MAX_KEYS_PER_TENANT \<and> (\<forall>(k, xs) \<in> set tm. samples_ok xs)"

definition tenants_ok :: "(string, tenant_map) odict \<Rightarrow> bool" where
  "tenants_ok d \<longleftrightarrow> od_ok d \<and> length d \<le> MAX_TENANTS \<and> (\<forall>(t, tm) \<in> set d. tenant_ok tm)"

definition store_ok :: "latency_store \<Rightarrow> bool" where
  "store_ok st \<longleftrightarrow> tenants_ok (ls_tenants st)"

lemma deque_append_ok: "samples_ok xs \<Longrightarrow> 0 < ms \<Longrightarrow> samples_ok (deque_append WINDOW (now, ms) xs)"
  by (auto simp: samples_ok_def deque_append_def Let_def dest: in_set_dropD)

lemma record_sample_ok:
  assumes "tenant_ok tm" and "0 < ms"
  shows "tenant_ok (record_sample key now ms tm)"
proof -
  define xs where "xs = (case od_get tm key of Some xs \<Rightarrow> xs | None \<Rightarrow> [])"
  define tm1 where "tm1 = od_move_to_end key (od_set key (deque_append WINDOW (now, ms) xs) tm)"
  have "samples_ok xs"
    using assms(1) by (cases "od_get tm key") (auto simp: xs_def tenant_ok_def samples_ok_def dest!: od_get_SomeD)
  then have new: "samples_ok (deque_append WINDOW (now, ms) xs)" using assms(2) by (rule deque_append_ok)
  have all: "\<forall>(k, ys) \<in> set tm1. samples_ok ys"
    using set_od_set_subset [of key "deque_append WINDOW (now, ms) xs" tm] new assms(1)
    by (auto simp: tm1_def tenant_ok_def)
  have len: "length tm1 \<le> Suc MAX_KEYS_PER_TENANT" and ok: "od_ok tm1"
    using assms(1) by (auto simp: tm1_def tenant_ok_def length_od_set)
  have "record_sample key now ms tm = (if length tm1 > MAX_KEYS_PER_TENANT then od_popitem_first tm1 else tm1)"
    by (simp add: record_sample_def xs_def tm1_def Let_def)
  moreover have "set (od_popitem_first tm1) \<subseteq> set tm1" by (cases tm1) (auto simp: od_popitem_first_def)
  ultimately show ?thesis
    using all len ok od_popitem_ok [OF ok] by (auto simp: tenant_ok_def od_popitem_first_def)
qed

lemma tenants_ok_get: "tenants_ok d \<Longrightarrow> od_get d t = Some tm \<Longrightarrow> tenant_ok tm"
  by (auto simp: tenants_ok_def dest!: od_get_SomeD)

lemma tenants_ok_set:
  assumes "tenants_ok d" and "tenant_ok tm" and "od_get d t \<noteq> None \<or> length d < MAX_TENANTS"
  shows "tenants_ok (od_set t tm d)"
proof -
  have "length (od_set t tm d) \<le> MAX_TENANTS"
    using assms by (auto simp: length_od_set tenants_ok_def)
  then show ?thesis using assms(1,2) set_od_set_subset [of t tm d] by (auto simp: tenants_ok_def)
qed

lemma tenants_ok_del: "tenants_ok d \<Longrightarrow> tenants_ok (od_del t d)"
  using set_od_del [of t d] length_od_del [of t d] by (auto simp: tenants_ok_def)

lemma tenants_ok_move [simp]: "tenants_ok d \<Longrightarrow> tenants_ok (od_move_to_end t d)"
  by (auto simp: tenants_ok_def)

lemma sweep_tenant_ok: "tenants_ok d \<Longrightarrow> tenants_ok (sweep_tenant cutoff t d)"
  by (auto simp: sweep_tenant_def tenants_ok_del split: option.splits)

lemma store_sweep_ok: "tenants_ok d \<Longrightarrow> tenants_ok (store_sweep now d)"
proof -
  have "tenants_ok d \<Longrightarrow> tenants_ok (fold (sweep_tenant cutoff) ts d)" for cutoff ts
    by (induction ts arbitrary: d) (auto simp: sweep_tenant_ok)
  then show "tenants_ok d \<Longrightarrow> tenants_ok (store_sweep now d)" by (simp add: store_sweep_def)
qed

lemma tenant_ok_Nil [simp]: "tenant_ok []"
  by (simp add: tenant_ok_def)

text \<open>A new tenant may push the oldest one out.\<close>

lemma tenants_ok_new:
  assumes "tenants_ok d" and "od_get d t = None"
  shows "tenants_ok (let d0 = od_set t [] d in if length d0 > MAX_TENANTS then od_popitem_first d0 else d0)"
proof -
  have "t \<notin> set (od_keys d)" using assms(2) by (simp add: od_get_None_iff)
  then show ?thesis
    unfolding od_set_new [OF assms(2)] Let_def
    using assms(1) by (cases d) (auto simp: tenants_ok_def od_popitem_first_def)
qed

lemma store_record_ok:
  assumes "store_ok st"
  shows "store_ok (store_record now tenant agent tool ms st)"
proof (cases "blank tenant \<or> blank agent \<or> ms = None \<or> the ms \<le> 0")
  case True
  then show ?thesis using assms by (auto simp: store_record_def split: option.splits)
next
  case False
  then obtain m where m: "ms = Some m" "0 < m" by auto
  define d1 where "d1 = (case od_get (ls_tenants st) tenant of
      Some _ \<Rightarrow> ls_tenants st
    | None \<Rightarrow> let d0 = od_set tenant [] (ls_tenants st)
              in if length d0 > MAX_TENANTS then od_popitem_first d0 else d0)"
  define tm where "tm = (case od_get d1 tenant of Some tm \<Rightarrow> tm | None \<Rightarrow> [])"
  define d2 where "d2 = od_set tenant (record_sample (agent, tool) now m tm) (od_move_to_end tenant d1)"
  have d1: "tenants_ok d1"
    using assms tenants_ok_new by (auto simp: d1_def store_ok_def split: option.splits)
  have "tenant_ok tm" using d1 tenants_ok_get by (auto simp: tm_def split: option.splits)
  then have tm: "tenant_ok (record_sample (agent, tool) now m tm)" using m(2) by (rule record_sample_ok)
  have "od_get d1 tenant \<noteq> None"
  proof (cases "od_get (ls_tenants st) tenant")
    case None
    let ?new = "ls_tenants st @ [(tenant, [])]"
    have "d1 = (if length ?new > MAX_TENANTS then tl ?new else ?new)"
      using None by (simp add: d1_def od_set_new od_popitem_first_def)
    moreover have "tenant \<in> set (od_keys (tl ?new))" if "length ?new > MAX_TENANTS"
      using that by (cases "ls_tenants st") (auto simp: MAX_TENANTS_def)
    ultimately show ?thesis by (auto simp: od_get_None_iff simp del: not_None_eq)
  next
    case (Some a)
    then show ?thesis by (simp add: d1_def)
  qed
  then have "tenants_ok d2" using d1 tm unfolding d2_def by (intro tenants_ok_set) auto
  moreover have "store_record now tenant agent tool ms st =
      \<lparr>ls_tenants = (if (ls_record_count st + 1) mod SWEEP_EVERY = 0 then store_sweep now d2 else d2),
       ls_record_count = ls_record_count st + 1\<rparr>"
    using False m by (simp add: store_record_def d1_def tm_def d2_def Let_def)
  ultimately show ?thesis using store_sweep_ok by (simp add: store_ok_def)
qed

lemma dropWhile_samples_ok: "samples_ok xs \<Longrightarrow> samples_ok (dropWhile P xs)"
  using length_dropWhile_le [of P xs] by (auto simp: samples_ok_def dest: set_dropWhileD)

lemma tenant_ok_get: "tenant_ok tm \<Longrightarrow> od_get tm k = Some xs \<Longrightarrow> samples_ok xs"
  by (auto simp: tenant_ok_def dest!: od_get_SomeD)

lemma tenant_ok_set:
  assumes "tenant_ok tm" and "samples_ok xs" and "od_get tm k \<noteq> None"
  shows "tenant_ok (od_set k xs tm)"
  using assms set_od_set_subset [of k xs tm] by (auto simp: tenant_ok_def length_od_set)

lemma tenant_ok_del: "tenant_ok tm \<Longrightarrow> tenant_ok (od_del k tm)"
  using set_od_del [of k tm] length_od_del [of k tm] by (auto simp: tenant_ok_def)

lemma tenant_ok_move [simp]: "tenant_ok tm \<Longrightarrow> tenant_ok (od_move_to_end k tm)"
  by (auto simp: tenant_ok_def)

lemma average_ms_ok:
  assumes "store_ok st"
  shows "store_ok (snd (average_ms now tenant agent tool st))"
proof -
  have ok: "tenants_ok (ls_tenants st)" using assms by (simp add: store_ok_def)
  show ?thesis
  proof (cases "blank tenant \<or> blank agent \<or> od_get (ls_tenants st) tenant = None")
    case True
    then show ?thesis using assms by (auto simp: average_ms_def)
  next
    case False
    then obtain tm where tm: "od_get (ls_tenants st) tenant = Some tm" by blast
    have t: "tenant_ok tm" using ok tm by (rule tenants_ok_get)
    show ?thesis
    proof (cases "od_get tm (agent, tool)")
      case None
      then show ?thesis using False tm ok by (simp add: average_ms_def store_ok_def)
    next
      case (Some xs)
      have xs: "samples_ok (dropWhile (\<lambda>(t, _). t < now - MAX_AGE_S) xs)"
        using tenant_ok_get [OF t Some] by (rule dropWhile_samples_ok)
      then have "tenant_ok (od_set (agent, tool) (dropWhile (\<lambda>(t, _). t < now - MAX_AGE_S) xs)
          (od_move_to_end (agent, tool) tm))"
        using t Some by (intro tenant_ok_set) simp_all
      then show ?thesis
        using False tm Some ok t
        by (auto simp: average_ms_def store_ok_def Let_def tenants_ok_set tenants_ok_del tenant_ok_del)
    qed
  qed
qed

text \<open>The store as a machine: the two calls other components make, each with its clock reading.\<close>

datatype latency_event =
    Record rat string string string "rat option"
  | Average rat string string string

fun latency_step :: "latency_event \<Rightarrow> latency_store \<Rightarrow> latency_store" where
  "latency_step (Record now t a tool ms) st = store_record now t a tool ms st"
| "latency_step (Average now t a tool) st = snd (average_ms now t a tool st)"

interpretation latency_machine: event_machine store_init latency_step store_ok
proof
  show "store_ok store_init" by (simp add: store_ok_def store_init_def tenants_ok_def)
next
  fix s e
  assume "store_ok s"
  then show "store_ok (latency_step e s)"
    by (cases e) (simp_all add: store_record_ok average_ms_ok)
qed

text \<open>
  The store stays bounded for the life of the process, whatever is recorded or asked: at most
  2000 tenants, for each at most 200 pairs of agent and tool, for each at most 50 samples, all of them
  positive durations.
\<close>

theorem latency_store_bounded:
  "length (ls_tenants (fold latency_step es store_init)) \<le> MAX_TENANTS \<and>
   list_all (\<lambda>(t, tm). length tm \<le> MAX_KEYS_PER_TENANT \<and>
       list_all (\<lambda>(k, xs). length xs \<le> WINDOW \<and> list_all (\<lambda>(at_s, ms). 0 < ms) xs) tm)
     (ls_tenants (fold latency_step es store_init))"
  using latency_machine.inv_run [of es]
  by (fastforce simp: store_ok_def tenants_ok_def tenant_ok_def samples_ok_def list_all_iff)

lemma average_ms_Some:
  assumes "average_ms now tenant agent tool st = (Some a, st')"
  shows "\<exists>tm xs. od_get (ls_tenants st) tenant = Some tm \<and> od_get tm (agent, tool) = Some xs \<and>
    (let ys = dropWhile (\<lambda>(t, _). t < now - MAX_AGE_S) xs
     in MIN_SAMPLES \<le> length ys \<and> a = sum_list (map snd ys) / of_nat (length ys))"
  using assms by (auto simp: average_ms_def Let_def split: if_splits option.splits)

text \<open>
  An average is reported only from at least three samples that are not older than fifteen
  minutes, it is their mean, and it is positive; a recorded sample counts towards it.
\<close>

lemma average_needs_samples:
  assumes "average_ms now tenant agent tool (fold latency_step es store_init) = (Some a, st')"
  shows "0 < a \<and> (\<exists>tm xs. od_get (ls_tenants (fold latency_step es store_init)) tenant = Some tm \<and>
     od_get tm (agent, tool) = Some xs \<and>
     (let ys = dropWhile (\<lambda>(t, _). t < now - MAX_AGE_S) xs
      in MIN_SAMPLES \<le> length ys \<and> a = sum_list (map snd ys) / of_nat (length ys)))"
proof -
  let ?st = "fold latency_step es store_init"
  obtain tm xs where x: "od_get (ls_tenants ?st) tenant = Some tm" "od_get tm (agent, tool) = Some xs"
    and y: "MIN_SAMPLES \<le> length (dropWhile (\<lambda>(t, _). t < now - MAX_AGE_S) xs)"
      "a = sum_list (map snd (dropWhile (\<lambda>(t, _). t < now - MAX_AGE_S) xs)) /
           of_nat (length (dropWhile (\<lambda>(t, _). t < now - MAX_AGE_S) xs))"
    using average_ms_Some [OF assms] by (auto simp: Let_def)
  let ?ys = "dropWhile (\<lambda>(t, _). t < now - MAX_AGE_S) xs"
  have "tenant_ok tm"
    using latency_machine.inv_run [of es] x(1) by (auto simp: store_ok_def intro: tenants_ok_get)
  then have "samples_ok ?ys" using x(2) by (intro dropWhile_samples_ok tenant_ok_get)
  then have pos: "\<forall>z \<in> set (map snd ?ys). 0 < z" by (auto simp: samples_ok_def)
  have ne: "?ys \<noteq> []" using y(1) unfolding MIN_SAMPLES_def by (metis list.size(3) not_numeral_le_zero)
  have "0 < sum_list zs" if "zs \<noteq> []" "\<forall>z \<in> set zs. 0 < z" for zs :: "rat list"
    using that by (induction zs rule: induct_list012) auto
  from this [OF _ pos] ne have "0 < sum_list (map snd ?ys)" by simp
  then have "0 < a" using y(2) ne by simp
  then show ?thesis using x y by (auto simp: Let_def)
qed

section \<open>Filler phrases\<close>

definition TOOL_FILLERS :: "(string \<times> rat) list" where
  "TOOL_FILLERS =
     [(''One moment.'', 1), (''Just a second.'', 1), (''Let me check on that.'', 3/2),
      (''Give me a moment.'', 3/2), (''Sure, let me look into that.'', 2),
      (''One moment while I take care of that.'', 12/5)]"

definition DEFAULT_TARGET_S :: rat where
  "DEFAULT_TARGET_S = 8/5"

text \<open>The phrases the random choice is made from; the choice itself is the argument \<open>pick\<close>.\<close>

definition filler_tier :: "string option \<Rightarrow> rat option \<Rightarrow> (string \<times> rat) list" where
  "filler_tier last_phrase average =
     (let target = (case average of Some ms \<Rightarrow> if 0 < ms then ms / 1000 else DEFAULT_TARGET_S
                                  | None \<Rightarrow> DEFAULT_TARGET_S);
          candidates0 = filter (\<lambda>p. Some (fst p) \<noteq> last_phrase) TOOL_FILLERS;
          candidates = (if candidates0 = [] then TOOL_FILLERS else candidates0);
          eligible = filter (\<lambda>p. snd p \<le> target) candidates
      in if eligible \<noteq> []
         then filter (\<lambda>p. snd p = Max (set (map snd eligible))) eligible
         else filter (\<lambda>p. snd p = Min (set (map snd candidates))) candidates)"

definition select_tool_filler :: "(nat \<Rightarrow> nat) \<Rightarrow> string option \<Rightarrow> rat option \<Rightarrow> string" where
  "select_tool_filler pick last_phrase average =
     (let tier = filler_tier last_phrase average in fst (tier ! pick (length tier)))"

lemma filler_candidates_ne:
  "filter (\<lambda>p. Some (fst p) \<noteq> last_phrase) TOOL_FILLERS \<noteq> []"
  by (cases last_phrase) (auto simp: TOOL_FILLERS_def)

lemma filter_Max_ne: "xs \<noteq> [] \<Longrightarrow> filter (\<lambda>p. snd p = Max (set (map snd xs))) xs \<noteq> []"
proof -
  assume "xs \<noteq> []"
  then have "Max (set (map snd xs)) \<in> set (map snd xs)" by (intro Max_in) auto
  then obtain x where "x \<in> set xs" "Max (set (map snd xs)) = snd x" by auto
  then show ?thesis by (auto simp: filter_empty_conv)
qed

lemma filter_Min_ne: "xs \<noteq> [] \<Longrightarrow> filter (\<lambda>p. snd p = Min (set (map snd xs))) xs \<noteq> []"
proof -
  assume "xs \<noteq> []"
  then have "Min (set (map snd xs)) \<in> set (map snd xs)" by (intro Min_in) auto
  then obtain x where "x \<in> set xs" "Min (set (map snd xs)) = snd x" by auto
  then show ?thesis by (auto simp: filter_empty_conv)
qed

text \<open>
  A tool call always gets a filler, the one just spoken is never repeated, and a phrase that does
  not fit into the expected wait is chosen only when no other phrase fits either.
\<close>

theorem filler_fits:
  assumes "\<And>n. 0 < n \<Longrightarrow> pick n < n"
  shows "\<exists>d. (select_tool_filler pick last_phrase average, d) \<in> set TOOL_FILLERS \<and>
    Some (select_tool_filler pick last_phrase average) \<noteq> last_phrase \<and>
    (\<forall>ms. average = Some ms \<and> 0 < ms \<and> ms / 1000 < d \<longrightarrow>
       (\<forall>(p, e) \<in> set TOOL_FILLERS. Some p \<noteq> last_phrase \<longrightarrow> ms / 1000 < e))"
proof -
  let ?c = "filter (\<lambda>p. Some (fst p) \<noteq> last_phrase) TOOL_FILLERS"
  let ?tier = "filler_tier last_phrase average"
  define target where "target = (case average of Some ms \<Rightarrow> if 0 < ms then ms / 1000 else DEFAULT_TARGET_S
                                  | None \<Rightarrow> DEFAULT_TARGET_S)"
  let ?e = "filter (\<lambda>p. snd p \<le> target) ?c"
  have tier: "?tier = (if ?e \<noteq> [] then filter (\<lambda>p. snd p = Max (set (map snd ?e))) ?e
      else filter (\<lambda>p. snd p = Min (set (map snd ?c))) ?c)"
    using filler_candidates_ne [of last_phrase] by (simp add: filler_tier_def Let_def target_def)
  have ne: "?tier \<noteq> []" unfolding tier using filter_Max_ne filter_Min_ne filler_candidates_ne by metis
  define x where "x = ?tier ! pick (length ?tier)"
  have x: "x \<in> set ?tier" unfolding x_def using assms ne by (intro nth_mem) simp
  then have xc: "x \<in> set ?c" unfolding tier by (auto split: if_splits)
  have fit: "\<forall>p \<in> set ?c. target < snd p" if "target < snd x"
  proof -
    have "?e = []"
    proof (rule ccontr)
      assume "?e \<noteq> []"
      then have "x \<in> set ?e" using x unfolding tier by (simp split: if_splits)
      then show False using that by simp
    qed
    then show ?thesis by (auto simp: filter_empty_conv not_le)
  qed
  have "select_tool_filler pick last_phrase average = fst x"
    by (simp add: select_tool_filler_def x_def Let_def)
  then show ?thesis
    using xc fit by (intro exI [of _ "snd x"]) (auto simp: target_def)
qed

theorem filler_fits_witness:
  "\<exists>d. (select_tool_filler (\<lambda>n. 0) (Some ''One moment.'') (Some 1000), d) \<in> set TOOL_FILLERS \<and>
     Some (select_tool_filler (\<lambda>n. 0) (Some ''One moment.'') (Some 1000)) \<noteq> Some ''One moment.''"
  using filler_fits [of "\<lambda>n. 0" "Some ''One moment.''" "Some 1000"] by blast

end
