(* ===== verification/Tool_Chain.thy ===== *)
theory Tool_Chain
  imports Tool_Types Latency_Store
begin

text \<open>
  The middleware chain around every tool call (\<^verbatim>\<open>services/conversation/tools/middleware.py\<close>). What the
  middlewares touch is one record, the world: the clock, the number of times an executor was entered,
  the breaker of the chain, the latency store and the metrics written. A call takes a request and a
  world; it returns, or raises a timeout or another exception, and time has passed. The executor is a
  parameter.
\<close>

record breaker =
  br_failures :: "(string, nat) odict"
  br_opened_at :: "(string, rat) odict"

record world =
  wd_clock :: rat
  wd_calls :: nat
  wd_breaker :: breaker
  wd_store :: latency_store
  wd_metrics :: "(string \<times> rat) list"

datatype call_outcome = Returned tool_result | RaisedTimeout | RaisedOther

type_synonym call = "tool_request \<Rightarrow> world \<Rightarrow> call_outcome \<times> world"
type_synonym middleware = "call \<Rightarrow> call"

text \<open>An executor: how long the n-th call takes and how it ends.\<close>

type_synonym executor = "tool_request \<Rightarrow> nat \<Rightarrow> rat \<times> call_outcome"

definition call_executor :: "executor \<Rightarrow> call" where
  "call_executor ex req w =
     (let (d, r) = ex req (wd_calls w)
      in (r, w\<lparr>wd_clock := wd_clock w + max 0 d, wd_calls := wd_calls w + 1\<rparr>))"

section \<open>The middlewares\<close>

definition logging_middleware :: middleware where
  "logging_middleware nxt req w = nxt req w"

definition metrics_middleware :: middleware where
  "metrics_middleware nxt req w =
     (case nxt req w of
        (Returned r, w') \<Rightarrow>
          (Returned r,
           w'\<lparr>wd_metrics := wd_metrics w' @
             [(''tool_call_total.'' @ rq_tool_name req @ ''.'' @ tool_status_value (tr_status r), 1),
              (''tool_call_latency_ms.'' @ rq_tool_name req, (wd_clock w' - wd_clock w) * 1000)]\<rparr>)
      | p \<Rightarrow> p)"

definition latency_middleware :: middleware where
  "latency_middleware nxt req w =
     (case nxt req w of
        (Returned r, w') \<Rightarrow>
          (Returned r,
           if tr_status r = UNAVAILABLE then w'
           else w'\<lparr>wd_store := store_record (wd_clock w') (tc_tenant_id (rq_context req))
                     (tc_agent_id (rq_context req)) (rq_tool_name req)
                     (Some ((wd_clock w' - wd_clock w) * 1000)) (wd_store w')\<rparr>)
      | p \<Rightarrow> p)"

definition breaker_init :: breaker where
  "breaker_init = \<lparr>br_failures = [], br_opened_at = []\<rparr>"

definition failure_count :: "string \<Rightarrow> breaker \<Rightarrow> nat" where
  "failure_count key b = (case od_get (br_failures b) key of Some n \<Rightarrow> n | None \<Rightarrow> 0)"

text \<open>What the breaker notes of a result.\<close>

definition note_result :: "nat \<Rightarrow> rat \<Rightarrow> string \<Rightarrow> tool_result \<Rightarrow> breaker \<Rightarrow> breaker" where
  "note_result fails_before_open now key r b =
     (if tr_status r = FAILED \<or> tr_status r = TIMEOUT then
        let n = failure_count key b + 1;
            b1 = b\<lparr>br_failures := od_set key n (br_failures b)\<rparr>
        in if n \<ge> fails_before_open then b1\<lparr>br_opened_at := od_set key now (br_opened_at b1)\<rparr> else b1
      else b\<lparr>br_failures := od_set key 0 (br_failures b)\<rparr>)"

definition breaker_middleware :: "nat \<Rightarrow> rat \<Rightarrow> middleware" where
  "breaker_middleware fails_before_open cooldown_s nxt req w =
     (let key = rq_tool_name req;
          opened = od_get (br_opened_at (wd_breaker w)) key
      in if opened \<noteq> None \<and> wd_clock w - the opened < cooldown_s
         then (Returned (tool_fail UNAVAILABLE (Some ''circuit_breaker_open'')), w)
         else
           let w1 = (if opened = None then w
                     else w\<lparr>wd_breaker := (wd_breaker w)
                               \<lparr>br_opened_at := od_del key (br_opened_at (wd_breaker w))\<rparr>\<rparr>)
           in case nxt req w1 of
                (Returned r, w') \<Rightarrow>
                  (Returned r,
                   w'\<lparr>wd_breaker := note_result fails_before_open (wd_clock w') key r (wd_breaker w')\<rparr>)
              | p \<Rightarrow> p)"

text \<open>The loop of the retries; the number of retries left bounds it.\<close>

fun retry_loop :: "nat \<Rightarrow> call \<Rightarrow> tool_request \<Rightarrow> call_outcome \<times> world \<Rightarrow> call_outcome \<times> world" where
  "retry_loop 0 nxt req p = p"
| "retry_loop (Suc n) nxt req (out, w) =
     (case out of
        Returned r \<Rightarrow> if tr_status r = FAILED then retry_loop n nxt req (nxt req w) else (out, w)
      | _ \<Rightarrow> (out, w))"

definition retry_middleware :: "nat \<Rightarrow> middleware" where
  "retry_middleware max_retries nxt req w = retry_loop max_retries nxt req (nxt req w)"

text \<open>\<^verbatim>\<open>asyncio.wait_for\<close>: a call that takes too long is cancelled when the time is up.\<close>

definition timeout_middleware :: "int \<Rightarrow> middleware" where
  "timeout_middleware timeout_ms nxt req w =
     (let timeout_s = of_int timeout_ms / 1000;
          (out, w') = nxt req w
      in if wd_clock w' - wd_clock w > timeout_s
         then (Returned (tool_fail TIMEOUT None), w'\<lparr>wd_clock := wd_clock w + max 0 timeout_s\<rparr>)
         else case out of RaisedTimeout \<Rightarrow> (Returned (tool_fail TIMEOUT None), w') | _ \<Rightarrow> (out, w'))"

definition chain_execute :: "middleware list \<Rightarrow> call \<Rightarrow> call" where
  "chain_execute mws base = foldr (\<lambda>mw nxt. mw nxt) mws base"

definition default_middlewares :: "bool \<Rightarrow> int \<Rightarrow> middleware list" where
  "default_middlewares with_store timeout_ms =
     [logging_middleware, metrics_middleware] @ (if with_store then [latency_middleware] else []) @
     [breaker_middleware 5 30, retry_middleware 0, timeout_middleware timeout_ms]"

text \<open>
  \<^verbatim>\<open>build_default_chain(...).execute(request)\<close>, as the orchestrator calls it: the chain, and with it
  the breaker, is new.
\<close>

definition execute_default :: "executor \<Rightarrow> bool \<Rightarrow> int \<Rightarrow> call" where
  "execute_default ex with_store timeout_ms req w =
     chain_execute (default_middlewares with_store timeout_ms) (call_executor ex) req
       (w\<lparr>wd_breaker := breaker_init\<rparr>)"

section \<open>The breaker\<close>

lemma breaker_open_fast:
  assumes "od_get (br_opened_at (wd_breaker w)) (rq_tool_name req) = Some t" and "wd_clock w - t < cooldown"
  shows "breaker_middleware k cooldown nxt req w =
    (Returned (tool_fail UNAVAILABLE (Some ''circuit_breaker_open'')), w)"
  using assms by (simp add: breaker_middleware_def Let_def)

text \<open>A call that fails in some time of its own and touches neither breaker nor anything else.\<close>

definition failing_call :: "rat \<Rightarrow> tool_status \<Rightarrow> call" where
  "failing_call d st req w = (Returned (tool_fail st None), w\<lparr>wd_clock := wd_clock w + d, wd_calls := wd_calls w + 1\<rparr>)"

fun repeat_call :: "nat \<Rightarrow> call \<Rightarrow> tool_request \<Rightarrow> world \<Rightarrow> world" where
  "repeat_call 0 c req w = w"
| "repeat_call (Suc n) c req w = snd (c req (repeat_call n c req w))"

lemma failures_count_up:
  assumes "st = FAILED \<or> st = TIMEOUT" and "wd_breaker w = breaker_init" and "n < k"
  shows "failure_count (rq_tool_name req)
      (wd_breaker (repeat_call n (breaker_middleware k cd (failing_call d st)) req w)) = n \<and>
    od_get (br_opened_at (wd_breaker (repeat_call n (breaker_middleware k cd (failing_call d st)) req w)))
      (rq_tool_name req) = None \<and>
    wd_calls (repeat_call n (breaker_middleware k cd (failing_call d st)) req w) = wd_calls w + n"
  using assms(3)
proof (induction n)
  case 0
  then show ?case using assms(2) by (simp add: breaker_init_def failure_count_def od_get_def)
next
  case (Suc n)
  then show ?case
    using assms(1)
    by (auto simp: breaker_middleware_def failing_call_def note_result_def Let_def tool_fail_def
        failure_count_def)
qed

text \<open>
  A breaker that is kept opens after five consecutive failures or timeouts and then answers every
  call within its cooldown at once, without entering the executor.
\<close>

theorem breaker_opens:
  assumes "st = FAILED \<or> st = TIMEOUT" and "wd_breaker w = breaker_init" and "0 < k"
    and "w' = repeat_call k (breaker_middleware k cd (failing_call d st)) req w"
    and "wd_clock v - wd_clock w' < cd" and "wd_breaker v = wd_breaker w'"
  shows "wd_calls w' = wd_calls w + k \<and>
    breaker_middleware k cd nxt req v = (Returned (tool_fail UNAVAILABLE (Some ''circuit_breaker_open'')), v)"
proof -
  obtain n where k: "k = Suc n" using assms(3) by (cases k) auto
  note c = failures_count_up [OF assms(1,2), of n k req cd d, unfolded k, simplified]
  have "od_get (br_opened_at (wd_breaker w')) (rq_tool_name req) = Some (wd_clock w') \<and>
      wd_calls w' = wd_calls w + k"
    using c assms(1) unfolding assms(4) k
    by (auto simp: breaker_middleware_def failing_call_def note_result_def Let_def tool_fail_def
        failure_count_def)
  then show ?thesis using breaker_open_fast assms(5,6) by metis
qed

definition sample_request :: tool_request where
  "sample_request = make_request ''call1'' ''book_appointment'' []
     \<lparr>tc_tenant_id = ''t1'', tc_agent_id = ''a1'', tc_call_id = ''c1'', tc_session_id = ''s1'', tc_turn_id = ''u1'',
      tc_tool_iteration = 1, tc_deadline = 6, tc_request_id = ''r1'', tc_caller_number = [],
      tc_phone_number_confirmed = False\<rparr> []"

definition sample_world :: world where
  "sample_world =
     \<lparr>wd_clock = 0, wd_calls = 0, wd_breaker = breaker_init, wd_store = store_init, wd_metrics = []\<rparr>"

theorem breaker_opens_witness:
  "wd_calls (repeat_call 5 (breaker_middleware 5 30 (failing_call 1 FAILED)) sample_request sample_world)
     = wd_calls sample_world + 5 \<and>
   breaker_middleware 5 30 (failing_call 1 FAILED) sample_request
     (repeat_call 5 (breaker_middleware 5 30 (failing_call 1 FAILED)) sample_request sample_world) =
   (Returned (tool_fail UNAVAILABLE (Some ''circuit_breaker_open'')),
    repeat_call 5 (breaker_middleware 5 30 (failing_call 1 FAILED)) sample_request sample_world)"
  by (rule breaker_opens [where st = FAILED and d = 1]) (simp_all add: sample_world_def)

section \<open>The chain of a tool call\<close>

lemma default_chain_calls:
  assumes "execute_default ex with_store timeout_ms req w = (out, w')"
  shows "wd_calls w' = wd_calls w + 1"
proof -
  let ?w0 = "w\<lparr>wd_breaker := breaker_init\<rparr>"
  obtain o1 w1 where t: "timeout_middleware timeout_ms (call_executor ex) req ?w0 = (o1, w1)" by fastforce
  have w1: "wd_calls w1 = wd_calls w + 1"
    using t by (auto simp: timeout_middleware_def call_executor_def Let_def split: if_splits call_outcome.splits prod.splits)
  have "wd_calls (snd (breaker_middleware 5 30 (retry_middleware 0 (timeout_middleware timeout_ms (call_executor ex))) req ?w0))
      = wd_calls w1"
    using t by (cases o1) (auto simp: breaker_middleware_def retry_middleware_def breaker_init_def od_get_def Let_def)
  then show ?thesis
    using assms w1
    by (cases with_store)
      (auto simp: execute_default_def chain_execute_def default_middlewares_def logging_middleware_def
        metrics_middleware_def latency_middleware_def split: prod.splits call_outcome.splits)
qed

text \<open>
  The chain the orchestrator builds enters the executor exactly once and never takes longer than
  its timeout, whatever the executor does and however often the tool has failed before. So a call is
  always bounded in time; but since the chain is built anew for every call, its circuit breaker never
  answers.
\<close>

theorem default_chain_runs_once:
  assumes "0 \<le> timeout_ms" and "execute_default ex with_store timeout_ms req w = (out, w')"
  shows "wd_calls w' = wd_calls w + 1 \<and> wd_clock w \<le> wd_clock w' \<and>
    wd_clock w' \<le> wd_clock w + of_int timeout_ms / 1000 \<and> out \<noteq> RaisedTimeout \<and>
    (out = snd (ex req (wd_calls w)) \<or> out = Returned (tool_fail TIMEOUT None))"
proof -
  let ?w0 = "w\<lparr>wd_breaker := breaker_init\<rparr>"
  obtain d r where ex: "ex req (wd_calls w) = (d, r)" by fastforce
  obtain o1 w1 where t: "timeout_middleware timeout_ms (call_executor ex) req ?w0 = (o1, w1)" by fastforce
  have T: "(0::rat) \<le> of_int timeout_ms / 1000" using assms(1) by simp
  have w1: "wd_calls w1 = wd_calls w + 1" "wd_clock w \<le> wd_clock w1"
    "wd_clock w1 \<le> wd_clock w + of_int timeout_ms / 1000"
    "o1 = r \<or> o1 = Returned (tool_fail TIMEOUT None)" "o1 \<noteq> RaisedTimeout" "wd_breaker w1 = breaker_init"
    using t T ex
    by (auto simp: timeout_middleware_def call_executor_def Let_def max_def split: if_splits call_outcome.splits)
  obtain w2 where b: "breaker_middleware 5 30 (retry_middleware 0 (timeout_middleware timeout_ms (call_executor ex))) req ?w0
      = (o1, w2)" "wd_calls w2 = wd_calls w1" "wd_clock w2 = wd_clock w1"
    using t by (cases o1) (auto simp: breaker_middleware_def retry_middleware_def breaker_init_def od_get_def Let_def)
  obtain w3 where c: "out = o1" "w' = w3" "wd_calls w3 = wd_calls w1" "wd_clock w3 = wd_clock w1"
    using assms(2) b
    by (cases with_store; cases o1)
      (auto simp: execute_default_def chain_execute_def default_middlewares_def logging_middleware_def
        metrics_middleware_def latency_middleware_def)
  show ?thesis using w1 c ex by auto
qed

theorem default_chain_runs_once_witness:
  "\<exists>out w'. execute_default (\<lambda>_ _. (100, RaisedOther)) True 6000 sample_request sample_world = (out, w') \<and>
     wd_calls w' = wd_calls sample_world + 1 \<and> wd_clock w' \<le> wd_clock sample_world + of_int 6000 / 1000"
proof -
  obtain out w' where e: "execute_default (\<lambda>_ _. (100, RaisedOther)) True 6000 sample_request sample_world = (out, w')"
    by fastforce
  from default_chain_runs_once [OF _ e] e show ?thesis by auto
qed

end
