(* ===== verification/Orchestrator.thy ===== *)
theory Orchestrator
  imports Workflow_Runner Tool_Policy Tool_Chain
begin

text \<open>
  One turn of the conversation with tools (\<^verbatim>\<open>services/conversation/tools/orchestrator.py\<close>, with the
  adapter of \<^verbatim>\<open>llm_adapter.py\<close>): the model is asked, its tool call is executed, the result goes into
  the history, and the model is asked again, until it answers without a call. Local tools are the
  transitions of the workflow runner; all other tools run through the middleware chain.

  Parameters of a turn are the language model, the providers and executors, the database of tool
  policies, \<^verbatim>\<open>json\<close>, the check of requested dates, and which tool calls the caller interrupts. The
  model's stream is its tokens and, since the loop leaves the stream at the first tool call, at most
  one call. The \<^verbatim>\<open>while True\<close> loop is run for a number of rounds; its end is a status of the state.
\<close>

section \<open>Data\<close>

record tool_call =
  tcl_id :: string
  tcl_name :: string
  tcl_arguments :: "(string \<times> pyval) list"
  tcl_provider_metadata :: pyval

datatype turn_event =
    TokenEvent string
  | ToolCallStartedEvent string
  | LocalToolCompletedEvent string
  | DeterministicSpokenEvent string "string option"

datatype turn_status = Running | Finished | Crashed

type_synonym schema = "(string \<times> pyval) list"

definition DEFAULT_TOOL_TIMEOUT_MS :: int where
  "DEFAULT_TOOL_TIMEOUT_MS = 6000"



record orchestrator =
  oc_generate_with_tools :: "chat_message list \<Rightarrow> schema list \<Rightarrow> string option \<Rightarrow> string list \<times> tool_call option"
  oc_generate :: "chat_message list \<Rightarrow> string list"
  oc_tool_aware :: bool
  oc_loads :: "string \<Rightarrow> pyval option"
  oc_dumps :: "(string \<times> pyval) list \<Rightarrow> string"
  oc_registry :: tool_registry
  oc_cache_ttl :: rat
  oc_fetch :: "(string \<Rightarrow> policy_row list) option"
  oc_provider_ok :: "resolved_policy \<Rightarrow> bool"
  oc_executor :: "string \<Rightarrow> resolved_policy \<Rightarrow> resolved_policy option \<Rightarrow> executor option"
  oc_date_check :: "tool_call \<Rightarrow> chat_message list \<Rightarrow> tool_result option \<times> (string \<times> pyval) list"
  oc_cancelled :: "nat \<Rightarrow> bool"
  oc_max_tool_iterations :: nat
  oc_max_local_tool_calls :: nat
  oc_with_store :: bool
  oc_agent_id :: string
  oc_context :: tool_context

record turn =
  tu_heap :: heap
  tu_runner :: runner
  tu_world :: world
  tu_cache :: policy_cache
  tu_iteration :: nat
  tu_local_calls :: nat
  tu_seen :: "string list"
  tu_local :: "(string, tool_definition \<times> edge) odict"
  tu_policies :: "(string, resolved_policy) odict"
  tu_schemas :: "schema list"
  tu_events :: "turn_event list"
  tu_fresh :: nat
  tu_tool_calls :: nat
  tu_status :: turn_status

section \<open>The adapter\<close>

definition adapter_generate ::
  "orchestrator \<Rightarrow> chat_message list \<Rightarrow> schema list \<Rightarrow> string option \<Rightarrow> string list \<times> tool_call option"
where
  "adapter_generate oc history schemas tool_choice =
     (if schemas \<noteq> [] \<and> oc_tool_aware oc then oc_generate_with_tools oc history schemas tool_choice
      else (oc_generate oc history, None))"

section \<open>Resolving what the model is offered\<close>

definition local_by_name :: "runner \<Rightarrow> (string, tool_definition \<times> edge) odict" where
  "local_by_name r = fold (\<lambda>(k, d, e) acc. od_set (td_name d) (d, e) acc) (local_tools r) []"

text \<open>\<^verbatim>\<open>resolve()\<close>: the empty list of schemas is \<^verbatim>\<open>None\<close> in the source.\<close>

definition resolve_tools :: "orchestrator \<Rightarrow> turn \<Rightarrow> turn" where
  "resolve_tools oc t =
     (let raw = local_by_name (tu_runner t);
          local = (if tu_local_calls t \<ge> oc_max_local_tool_calls oc then [] else raw);
          (res, cache) =
            (if tu_iteration t \<ge> oc_max_tool_iterations oc then (Inr [], tu_cache t)
             else enabled_tools (oc_loads oc) (oc_registry oc) (oc_cache_ttl oc) (oc_fetch oc)
                    (wd_clock (tu_world t)) (wd_clock (tu_world t)) (oc_agent_id oc)
                    (allowed_tool_names (tu_runner t)) (tu_cache t));
          t1 = t\<lparr>tu_seen := remdups (tu_seen t @ od_keys raw), tu_cache := cache\<rparr>
      in case res of
           Inl e \<Rightarrow> t1\<lparr>tu_status := Crashed\<rparr>
         | Inr ps \<Rightarrow>
             t1\<lparr>tu_local := local,
                tu_policies := fold (\<lambda>p acc. od_set (rp_name p) p acc) ps [],
                tu_schemas := map (\<lambda>p. to_generic_schema (rp_definition p))
                                (filter (\<lambda>p. td_llm_visible (rp_definition p)) ps)
                              @ map (\<lambda>(k, d, e). to_generic_schema d) local\<rparr>)"

section \<open>Executing a call\<close>

definition cancelled_result :: tool_result where
  "cancelled_result = tool_fail FAILED (Some ''cancelled'')"

text \<open>
  \<^verbatim>\<open>_execute_local_tool\<close>: the transition of the runner; an exception of the handler becomes a
  failed result; a cancelled call has no effect.
\<close>

definition execute_local ::
  "orchestrator \<Rightarrow> nat \<Rightarrow> nat option \<Rightarrow> edge \<Rightarrow> turn \<Rightarrow> tool_result \<times> turn"
where
  "execute_local oc turn_ref store_ref e t =
     (if oc_cancelled oc (tu_tool_calls t) then (cancelled_result, t)
      else case runner_transition (tu_fresh t) e (Some turn_ref)
                  (if store_ref \<noteq> None then store_ref else Some turn_ref) (tu_heap t) (tu_runner t) of
        Inl _ \<Rightarrow> (tool_fail FAILED (Some ''local_tool_failed''), t)
      | Inr (r, h, ru) \<Rightarrow> (r, t\<lparr>tu_heap := h, tu_runner := ru, tu_fresh := tu_fresh t + 2\<rparr>))"

text \<open>
  \<^verbatim>\<open>_execute_tool_call\<close>: \<open>None\<close> when the executor raised. A cancelled call is no longer waited for,
  but its executor has been entered.
\<close>

definition execute_remote :: "orchestrator \<Rightarrow> tool_call \<Rightarrow> turn \<Rightarrow> tool_result option \<times> world" where
  "execute_remote oc ev t =
     (case od_get (tu_policies t) (tcl_name ev) of
        None \<Rightarrow> (Some (tool_fail FAILED (Some ''unknown_tool'')), tu_world t)
      | Some p \<Rightarrow>
          if \<not> oc_provider_ok oc p then (Some (tool_fail FAILED (Some ''provider_unavailable'')), tu_world t)
          else
            let companion =
                  (case td_companion_tool_name (rp_definition p) of
                     None \<Rightarrow> None
                   | Some c \<Rightarrow>
                       (case od_get (tu_policies t) c of
                          None \<Rightarrow> None
                        | Some q \<Rightarrow> if oc_provider_ok oc q then Some q else None))
            in case oc_executor oc (tcl_name ev) p companion of
                 None \<Rightarrow> (Some (tool_fail FAILED (Some ''no_executor_registered'')), tu_world t)
               | Some ex \<Rightarrow>
                   let timeout_ms = (case rp_timeout_ms p of
                                       Some n \<Rightarrow> if n \<noteq> 0 then n else DEFAULT_TOOL_TIMEOUT_MS
                                     | None \<Rightarrow> DEFAULT_TOOL_TIMEOUT_MS);
                       req = make_request (tcl_id ev) (tcl_name ev) (tcl_arguments ev)
                               ((oc_context oc)\<lparr>tc_tool_iteration := tu_iteration t,
                                  tc_deadline := wd_clock (tu_world t) + of_int timeout_ms / 1000\<rparr>) [];
                       (out, w) = execute_default ex (oc_with_store oc) timeout_ms req (tu_world t)
                   in if oc_cancelled oc (tu_tool_calls t) then (Some cancelled_result, w)
                      else (case out of Returned r \<Rightarrow> (Some r, w) | _ \<Rightarrow> (None, w)))"

definition result_payload :: "tool_result \<Rightarrow> (string \<times> pyval) list" where
  "result_payload r =
     (let base = fold (\<lambda>(k, v) d. od_set k v d) (tr_payload r)
                   [(''status'', PStr (tool_status_value (tr_status r)))]
      in case tr_error r of
           Some e \<Rightarrow> if e \<noteq> [] then od_set ''error'' (PStr e) base else base
         | None \<Rightarrow> base)"

text \<open>\<^verbatim>\<open>_fold_tool_result_into_history\<close>, on the list the turn sends.\<close>

definition fold_result :: "orchestrator \<Rightarrow> nat \<Rightarrow> tool_call \<Rightarrow> tool_result \<Rightarrow> turn \<Rightarrow> turn" where
  "fold_result oc turn_ref ev r t =
     t\<lparr>tu_heap := (tu_heap t)(turn_ref := tu_heap t turn_ref @
          [\<lparr>m_oid = tu_fresh t, m_role = ''assistant'', m_content = [],
            m_tool_calls = Some [[(''id'', PStr (tcl_id ev)), (''name'', PStr (tcl_name ev)),
                                  (''arguments'', PDict (tcl_arguments ev))]
                                 @ (if truthy (tcl_provider_metadata ev)
                                    then [(''provider_metadata'', tcl_provider_metadata ev)] else [])],
            m_tool_call_id = None\<rparr>,
           \<lparr>m_oid = tu_fresh t + 1, m_role = ''tool'', m_content = oc_dumps oc (result_payload r),
            m_tool_calls = None, m_tool_call_id = Some (tcl_id ev)\<rparr>]),
        tu_fresh := tu_fresh t + 2\<rparr>"

section \<open>One round\<close>

definition is_cancelled :: "tool_result \<Rightarrow> bool" where
  "is_cancelled r \<longleftrightarrow> tr_status r = FAILED \<and> tr_error r = Some ''cancelled''"

text \<open>The branches on the kind of tool: the result, or \<open>None\<close> for an exception, and the state.\<close>

definition dispatch_call ::
  "orchestrator \<Rightarrow> nat \<Rightarrow> nat option \<Rightarrow> tool_call \<Rightarrow> turn \<Rightarrow> tool_result option \<times> tool_call \<times> turn"
where
  "dispatch_call oc turn_ref store_ref ev t =
     (case od_get (tu_local t) (tcl_name ev) of
        Some (d, e) \<Rightarrow>
          let (r, t1) = execute_local oc turn_ref store_ref e (t\<lparr>tu_local_calls := tu_local_calls t + 1\<rparr>)
          in if is_cancelled r then (Some r, ev, t1)
             else (Some r, ev, resolve_tools oc
                    (t1\<lparr>tu_events := tu_events t1 @ [LocalToolCompletedEvent (tcl_name ev)]\<rparr>))
      | None \<Rightarrow>
          if tu_local_calls t \<ge> oc_max_local_tool_calls oc \<and> tcl_name ev \<in> set (tu_seen t)
          then (Some (tool_fail FAILED (Some ''local_tool_call_cap_exceeded'')), ev, t)
          else
            let (check, args) = oc_date_check oc ev (tu_heap t turn_ref);
                ev1 = ev\<lparr>tcl_arguments := args\<rparr>
            in case check of
                 Some r \<Rightarrow> (Some r, ev1, t)
               | None \<Rightarrow>
                   let t1 = t\<lparr>tu_iteration := tu_iteration t + 1,
                              tu_events := tu_events t @ [ToolCallStartedEvent (tcl_name ev)]\<rparr>;
                       (r, w) = execute_remote oc ev1 t1
                   in (r, ev1, t1\<lparr>tu_world := w\<rparr>))"

definition finish_call ::
  "orchestrator \<Rightarrow> nat \<Rightarrow> tool_call \<Rightarrow> tool_result option \<Rightarrow> turn \<Rightarrow> turn"
where
  "finish_call oc turn_ref ev res t =
     (case res of
        None \<Rightarrow> t\<lparr>tu_status := Crashed\<rparr>
      | Some r \<Rightarrow>
          let t1 = fold_result oc turn_ref ev r (t\<lparr>tu_tool_calls := tu_tool_calls t + 1\<rparr>)
          in case tr_deterministic_response r of
               Some s \<Rightarrow>
                 t1\<lparr>tu_events := tu_events t1 @ [DeterministicSpokenEvent s (tr_confirmed_datetime r)],
                    tu_status := Finished\<rparr>
             | None \<Rightarrow>
                 if is_cancelled r then t1\<lparr>tu_status := Finished\<rparr>
                 else if tu_iteration t1 \<ge> oc_max_tool_iterations oc then resolve_tools oc t1
                 else t1)"

definition turn_round ::
  "orchestrator \<Rightarrow> nat \<Rightarrow> nat option \<Rightarrow> string option \<Rightarrow> turn \<Rightarrow> turn"
where
  "turn_round oc turn_ref store_ref tool_choice t =
     (let (toks, call) = adapter_generate oc (tu_heap t turn_ref) (tu_schemas t) tool_choice;
          t1 = t\<lparr>tu_events := tu_events t @ map TokenEvent toks\<rparr>
      in case call of
           None \<Rightarrow> t1\<lparr>tu_status := Finished\<rparr>
         | Some ev \<Rightarrow>
             let (res, ev1, t2) = dispatch_call oc turn_ref store_ref ev t1
             in if tu_status t2 = Crashed then t2 else finish_call oc turn_ref ev1 res t2)"

text \<open>The loop, for at most \<open>n\<close> more rounds; a forced tool applies to the first only.\<close>

fun run_rounds ::
  "orchestrator \<Rightarrow> nat \<Rightarrow> nat option \<Rightarrow> nat \<Rightarrow> string option \<Rightarrow> turn \<Rightarrow> turn"
where
  "run_rounds oc turn_ref store_ref 0 choice t = t"
| "run_rounds oc turn_ref store_ref (Suc n) choice t =
     (if tu_status t \<noteq> Running then t
      else run_rounds oc turn_ref store_ref n None (turn_round oc turn_ref store_ref choice t))"

definition turn_start :: "orchestrator \<Rightarrow> heap \<Rightarrow> nat \<Rightarrow> runner \<Rightarrow> world \<Rightarrow> policy_cache \<Rightarrow> turn" where
  "turn_start oc h fresh r w cache =
     resolve_tools oc
       \<lparr>tu_heap = h, tu_runner = r, tu_world = w, tu_cache = cache, tu_iteration = 0, tu_local_calls = 0,
        tu_seen = [], tu_local = [], tu_policies = [], tu_schemas = [], tu_events = [], tu_fresh = fresh,
        tu_tool_calls = 0, tu_status = Running\<rparr>"

definition run_turn ::
  "orchestrator \<Rightarrow> nat \<Rightarrow> nat option \<Rightarrow> string option \<Rightarrow> nat \<Rightarrow> heap \<Rightarrow> nat \<Rightarrow> runner \<Rightarrow> world
     \<Rightarrow> policy_cache \<Rightarrow> turn"
where
  "run_turn oc turn_ref store_ref force_tool n h fresh r w cache =
     run_rounds oc turn_ref store_ref n force_tool (turn_start oc h fresh r w cache)"

section \<open>Bounds on the work of a turn\<close>

text \<open>
  What holds between rounds, relative to the calls and steps made before the turn: remote work is
  paid for by the iteration counter and the tools are gone when it is used up; the same for local
  tools.
\<close>

definition turn_bound :: "orchestrator \<Rightarrow> nat \<Rightarrow> nat \<Rightarrow> turn \<Rightarrow> bool" where
  "turn_bound oc calls0 steps0 t \<longleftrightarrow>
     wd_calls (tu_world t) \<le> calls0 + min (tu_iteration t) (oc_max_tool_iterations oc) \<and>
     length (w_visited (tu_runner t)) \<le> steps0 + tu_local_calls t \<and>
     tu_local_calls t \<le> oc_max_local_tool_calls oc \<and>
     (tu_status t = Running \<longrightarrow>
        (tu_iteration t \<ge> oc_max_tool_iterations oc \<longrightarrow> tu_policies t = []) \<and>
        (tu_local_calls t \<ge> oc_max_local_tool_calls oc \<longrightarrow> tu_local t = []))"

lemma resolve_tools_fields [simp]:
  "tu_world (resolve_tools oc t) = tu_world t" "tu_runner (resolve_tools oc t) = tu_runner t"
  "tu_iteration (resolve_tools oc t) = tu_iteration t" "tu_local_calls (resolve_tools oc t) = tu_local_calls t"
  "tu_heap (resolve_tools oc t) = tu_heap t" "tu_tool_calls (resolve_tools oc t) = tu_tool_calls t"
  by (auto simp: resolve_tools_def Let_def split: prod.splits sum.splits)

lemma resolve_tools_status:
  "tu_status (resolve_tools oc t) = Crashed \<or> tu_status (resolve_tools oc t) = tu_status t"
  by (auto simp: resolve_tools_def Let_def split: prod.splits sum.splits)

lemma resolve_tools_empty:
  assumes "tu_status (resolve_tools oc t) \<noteq> Crashed"
  shows "(tu_iteration t \<ge> oc_max_tool_iterations oc \<longrightarrow> tu_policies (resolve_tools oc t) = []) \<and>
         (tu_local_calls t \<ge> oc_max_local_tool_calls oc \<longrightarrow> tu_local (resolve_tools oc t) = [])"
  using assms by (auto simp: resolve_tools_def Let_def split: prod.splits sum.splits)

lemma fold_result_fields [simp]:
  "tu_world (fold_result oc a ev r t) = tu_world t" "tu_runner (fold_result oc a ev r t) = tu_runner t"
  "tu_iteration (fold_result oc a ev r t) = tu_iteration t"
  "tu_local_calls (fold_result oc a ev r t) = tu_local_calls t"
  "tu_status (fold_result oc a ev r t) = tu_status t" "tu_local (fold_result oc a ev r t) = tu_local t"
  "tu_policies (fold_result oc a ev r t) = tu_policies t" "tu_schemas (fold_result oc a ev r t) = tu_schemas t"
  "tu_cache (fold_result oc a ev r t) = tu_cache t" "tu_seen (fold_result oc a ev r t) = tu_seen t"
  by (simp_all add: fold_result_def)

lemma execute_local_visited:
  assumes "execute_local oc a st e t = (r, t')"
  shows "length (w_visited (tu_runner t')) \<le> length (w_visited (tu_runner t)) + 1 \<and>
    tu_world t' = tu_world t \<and> tu_iteration t' = tu_iteration t \<and> tu_local_calls t' = tu_local_calls t \<and>
    tu_status t' = tu_status t \<and> tu_cache t' = tu_cache t \<and> tu_seen t' = tu_seen t \<and>
    tu_policies t' = tu_policies t \<and> tu_local t' = tu_local t \<and> tu_schemas t' = tu_schemas t"
  using assms
  by (auto simp: execute_local_def runner_transition_def Let_def split: if_splits sum.splits option.splits)

text \<open>The world after a remote call: unchanged, or the one the chain leaves.\<close>

lemma execute_remote_world:
  "snd (execute_remote oc ev t) = tu_world t \<or>
   tu_policies t \<noteq> [] \<and> (\<exists>ex ms req. snd (execute_remote oc ev t) =
      snd (execute_default ex (oc_with_store oc) ms req (tu_world t)))"
proof (cases "od_get (tu_policies t) (tcl_name ev)")
  case None
  then show ?thesis by (simp add: execute_remote_def)
next
  case (Some p)
  then have ne: "tu_policies t \<noteq> []" by (auto simp: od_get_def)
  define companion where "companion = (case td_companion_tool_name (rp_definition p) of
      None \<Rightarrow> None
    | Some c \<Rightarrow> (case od_get (tu_policies t) c of
                  None \<Rightarrow> None | Some q \<Rightarrow> if oc_provider_ok oc q then Some q else None))"
  show ?thesis
  proof (cases "oc_executor oc (tcl_name ev) p companion")
    case None
    then show ?thesis using Some by (simp add: execute_remote_def companion_def Let_def)
  next
    case ex: (Some ex)
    then show ?thesis using Some ne
      by (auto simp: execute_remote_def companion_def Let_def case_prod_beta split: call_outcome.splits)
  qed
qed

lemma execute_remote_calls:
  assumes "execute_remote oc ev t = (r, w)"
  shows "wd_calls w \<le> wd_calls (tu_world t) + 1 \<and> (tu_policies t = [] \<longrightarrow> w = tu_world t)"
  using execute_remote_world [of oc ev t] assms default_chain_calls
  by (metis add.commute le_add2 order_refl prod.collapse snd_conv)

text \<open>The three ways a call is handled.\<close>

lemma dispatch_cases:
  assumes "dispatch_call oc a st ev t = (res, ev', t')"
  obtains
    (local) d e r t1 where "od_get (tu_local t) (tcl_name ev) = Some (d, e)"
      "execute_local oc a st e (t\<lparr>tu_local_calls := tu_local_calls t + 1\<rparr>) = (r, t1)" "res = Some r"
      "t' = (if is_cancelled r then t1 else resolve_tools oc
               (t1\<lparr>tu_events := tu_events t1 @ [LocalToolCompletedEvent (tcl_name ev)]\<rparr>))"
  | (refused) r where "od_get (tu_local t) (tcl_name ev) = None" "res = Some r" "t' = t"
      "(tu_local_calls t \<ge> oc_max_local_tool_calls oc \<and> tcl_name ev \<in> set (tu_seen t)) \<or>
       fst (oc_date_check oc ev (tu_heap t a)) = Some r"
  | (remote) ev1 w where "od_get (tu_local t) (tcl_name ev) = None"
      "fst (oc_date_check oc ev (tu_heap t a)) = None"
      "execute_remote oc ev1 (t\<lparr>tu_iteration := tu_iteration t + 1,
          tu_events := tu_events t @ [ToolCallStartedEvent (tcl_name ev)]\<rparr>) = (res, w)"
      "t' = t\<lparr>tu_iteration := tu_iteration t + 1,
          tu_events := tu_events t @ [ToolCallStartedEvent (tcl_name ev)], tu_world := w\<rparr>"
proof (cases "od_get (tu_local t) (tcl_name ev)")
  case (Some de)
  obtain d e where de: "de = (d, e)" by fastforce
  obtain r t1 where x: "execute_local oc a st e (t\<lparr>tu_local_calls := tu_local_calls t + 1\<rparr>) = (r, t1)" by fastforce
  show ?thesis
    by (rule local [of d e r t1])
      (use assms Some de x in \<open>auto simp: dispatch_call_def Let_def split: if_splits\<close>)
next
  case None
  show ?thesis
  proof (cases "tu_local_calls t \<ge> oc_max_local_tool_calls oc \<and> tcl_name ev \<in> set (tu_seen t)")
    case True
    show ?thesis by (rule refused) (use assms None True in \<open>auto simp: dispatch_call_def\<close>)
  next
    case False
    obtain check args where c: "oc_date_check oc ev (tu_heap t a) = (check, args)" by fastforce
    show ?thesis
    proof (cases check)
      case (Some r)
      show ?thesis
        by (rule refused [of r]) (use assms None False c Some in \<open>auto simp: dispatch_call_def Let_def\<close>)
    next
      case check: None
      let ?t1 = "t\<lparr>tu_iteration := tu_iteration t + 1,
          tu_events := tu_events t @ [ToolCallStartedEvent (tcl_name ev)]\<rparr>"
      obtain r w where x: "execute_remote oc (ev\<lparr>tcl_arguments := args\<rparr>) ?t1 = (r, w)" by fastforce
      have "res = r" "t' = ?t1\<lparr>tu_world := w\<rparr>"
        using assms None False c check x by (auto simp: dispatch_call_def Let_def)
      then show ?thesis using remote [of "ev\<lparr>tcl_arguments := args\<rparr>" w] None c check x by simp
    qed
  qed
qed

definition turn_limits :: "orchestrator \<Rightarrow> nat \<Rightarrow> nat \<Rightarrow> turn \<Rightarrow> bool" where
  "turn_limits oc calls0 steps0 t \<longleftrightarrow>
     wd_calls (tu_world t) \<le> calls0 + min (tu_iteration t) (oc_max_tool_iterations oc) \<and>
     length (w_visited (tu_runner t)) \<le> steps0 + tu_local_calls t \<and>
     tu_local_calls t \<le> oc_max_local_tool_calls oc"

lemma turn_bound_limits: "turn_bound oc c s t \<Longrightarrow> turn_limits oc c s t"
  by (simp add: turn_bound_def turn_limits_def)

lemma resolve_tools_bound:
  "turn_limits oc c s t \<Longrightarrow> turn_bound oc c s (resolve_tools oc t)"
  using resolve_tools_empty [of oc t] by (auto simp: turn_bound_def turn_limits_def)

text \<open>After the dispatch the local tools of a running turn are still right; the others need a resolve
  when the counter is used up.\<close>

lemma dispatch_bound:
  assumes "turn_bound oc c s t" and "tu_status t = Running" and "dispatch_call oc a st ev t = (res, ev', t')"
  shows "turn_limits oc c s t' \<and>
    (\<exists>r. res = Some r \<and> is_cancelled r \<or> turn_bound oc c s t' \<or>
       tu_iteration t' \<ge> oc_max_tool_iterations oc \<and>
       (tu_local_calls t' \<ge> oc_max_local_tool_calls oc \<longrightarrow> tu_local t' = []))"
  using assms(3)
proof (cases rule: dispatch_cases)
  case (local d e r t1)
  have ne: "tu_local t \<noteq> []" using local(1) by (auto simp: od_get_def)
  then have lt: "tu_local_calls t < oc_max_local_tool_calls oc"
    using assms(1,2) by (auto simp: turn_bound_def not_le)
  note v = execute_local_visited [OF local(2)]
  have l1: "turn_limits oc c s t1" using assms(1) v lt by (auto simp: turn_bound_def turn_limits_def)
  let ?t2 = "t1\<lparr>tu_events := tu_events t1 @ [LocalToolCompletedEvent (tcl_name ev)]\<rparr>"
  have "turn_limits oc c s ?t2" using l1 by (simp add: turn_limits_def)
  then have "turn_bound oc c s (resolve_tools oc ?t2)" by (rule resolve_tools_bound)
  then show ?thesis using l1 local(3,4) turn_bound_limits by (cases "is_cancelled r") auto
next
  case (refused r)
  then show ?thesis using assms(1) turn_bound_limits by auto
next
  case (remote ev1 w)
  let ?t1 = "t\<lparr>tu_iteration := tu_iteration t + 1,
      tu_events := tu_events t @ [ToolCallStartedEvent (tcl_name ev)]\<rparr>"
  have w: "wd_calls w \<le> wd_calls (tu_world t) + 1" "tu_policies t = [] \<longrightarrow> w = tu_world t"
    using execute_remote_calls [OF remote(3)] by auto
  have "wd_calls w \<le> c + min (tu_iteration t + 1) (oc_max_tool_iterations oc)"
  proof (cases "tu_iteration t < oc_max_tool_iterations oc")
    case True
    then show ?thesis using assms(1) w(1) by (auto simp: turn_bound_def)
  next
    case False
    then have "w = tu_world t" using assms(1,2) w(2) by (auto simp: turn_bound_def)
    then show ?thesis using assms(1) False by (auto simp: turn_bound_def)
  qed
  then show ?thesis using assms(1,2) remote(4) by (auto simp: turn_bound_def turn_limits_def not_le)
qed

lemma finish_bound:
  assumes "turn_limits oc c s t" and "tu_status t \<noteq> Crashed"
    and "\<exists>r. res = Some r \<and> is_cancelled r \<or> turn_bound oc c s t \<or>
       tu_iteration t \<ge> oc_max_tool_iterations oc \<and>
       (tu_local_calls t \<ge> oc_max_local_tool_calls oc \<longrightarrow> tu_local t = [])"
  shows "turn_bound oc c s (finish_call oc a ev res t)"
proof (cases res)
  case None
  then show ?thesis using assms(1) by (simp add: finish_call_def turn_bound_def turn_limits_def)
next
  case (Some r)
  let ?t1 = "fold_result oc a ev r (t\<lparr>tu_tool_calls := tu_tool_calls t + 1\<rparr>)"
  have l: "turn_limits oc c s ?t1" using assms(1) by (simp add: turn_limits_def)
  show ?thesis
  proof (cases "tr_deterministic_response r \<noteq> None \<or> is_cancelled r")
    case True
    then show ?thesis using l Some
      by (auto simp: finish_call_def turn_bound_def turn_limits_def Let_def split: option.splits)
  next
    case False
    show ?thesis
    proof (cases "tu_iteration t \<ge> oc_max_tool_iterations oc")
      case True
      then show ?thesis using False Some resolve_tools_bound [OF l] by (simp add: finish_call_def Let_def)
    next
      case it: False
      then have "turn_bound oc c s t" using assms(3) False Some by auto
      then show ?thesis using False Some it by (simp add: finish_call_def Let_def turn_bound_def)
    qed
  qed
qed

lemma turn_round_bound:
  assumes "turn_bound oc c s t" and "tu_status t = Running"
  shows "turn_bound oc c s (turn_round oc a st ch t)"
proof -
  obtain toks call where g: "adapter_generate oc (tu_heap t a) (tu_schemas t) ch = (toks, call)" by fastforce
  let ?t1 = "t\<lparr>tu_events := tu_events t @ map TokenEvent toks\<rparr>"
  have b1: "turn_bound oc c s ?t1" "tu_status ?t1 = Running" using assms by (simp_all add: turn_bound_def)
  show ?thesis
  proof (cases call)
    case None
    then show ?thesis using g assms by (simp add: turn_round_def turn_bound_def)
  next
    case (Some ev)
    obtain res ev1 t2 where d: "dispatch_call oc a st ev ?t1 = (res, ev1, t2)" by (metis prod.exhaust)
    note db = dispatch_bound [OF b1 d]
    show ?thesis
    proof (cases "tu_status t2 = Crashed")
      case True
      then show ?thesis using g Some d db by (simp add: turn_round_def turn_bound_def turn_limits_def)
    next
      case False
      then show ?thesis using g Some d finish_bound [of oc c s t2 res a ev1] db by (simp add: turn_round_def)
    qed
  qed
qed

lemma run_rounds_bound:
  "turn_bound oc c s t \<Longrightarrow> turn_bound oc c s (run_rounds oc a st n ch t)"
  by (induction n arbitrary: ch t) (auto simp: turn_round_bound)

text \<open>
  C21. Whatever the model asks for and for however many rounds, one turn enters at most the configured
  number of executors (two by default) and moves the workflow at most the configured number of steps
  (eight by default).
\<close>

theorem turn_work_bounded:
  "wd_calls (tu_world (run_turn oc turn_ref store_ref force n h fresh r w cache))
     \<le> wd_calls w + oc_max_tool_iterations oc \<and>
   length (w_visited (tu_runner (run_turn oc turn_ref store_ref force n h fresh r w cache)))
     \<le> length (w_visited r) + oc_max_local_tool_calls oc"
proof -
  let ?t0 = "\<lparr>tu_heap = h, tu_runner = r, tu_world = w, tu_cache = cache, tu_iteration = 0, tu_local_calls = 0,
        tu_seen = [], tu_local = [], tu_policies = [], tu_schemas = [], tu_events = [], tu_fresh = fresh,
        tu_tool_calls = 0, tu_status = Running\<rparr>"
  have "turn_limits oc (wd_calls w) (length (w_visited r)) ?t0" by (simp add: turn_limits_def)
  then have "turn_bound oc (wd_calls w) (length (w_visited r)) (turn_start oc h fresh r w cache)"
    unfolding turn_start_def by (rule resolve_tools_bound)
  then have "turn_bound oc (wd_calls w) (length (w_visited r))
      (run_turn oc turn_ref store_ref force n h fresh r w cache)"
    unfolding run_turn_def by (rule run_rounds_bound)
  then show ?thesis by (auto simp: turn_bound_def)
qed

section \<open>A turn ends\<close>








lemma schema_name [simp]: "py_get (to_generic_schema d) ''name'' = PStr (td_name d)"
  by (simp add: to_generic_schema_def py_get_Cons)

lemma image_fst_od_set [simp]: "fst ` set (od_set k v d) = insert k (fst ` set d)"
  using set_od_keys_set [of k v d] by simp














end
