(* ===== verification/Servicer.thy ===== *)
theory Servicer
  imports Session
begin

text \<open>
  The gRPC servicer (\<^verbatim>\<open>services/conversation/servicer.py\<close>): the coroutine that serves one stream of a
  call, from the handshake to the teardown.

  The coroutine is cut at its awaits. Its state holds the queue between reader and loop, the locals
  that live across awaits, the messages sent so far, and the place where it waits. An event is what
  resumes it: a message from the gateway reaches the queue, the loop takes the next message, the
  handler yields a response or is exhausted, the handler raises, the stream is cancelled. Everything
  between two awaits is one step. Messages that arrive while a step awaits a short call, as
  \<^verbatim>\<open>on_cancel\<close>, only ever extend the queue at its end, which is the same as arriving before the step.

  The session id, the codec and the sample rate, equal in every message, are left out of the
  messages; so are log lines and the duration of a transfer, which is only logged.
\<close>

section \<open>Messages\<close>

record open_request =
  or_protocol_version :: string
  or_ctx :: session_ctx

datatype gateway_msg =
    SessionOpen open_request
  | AudioChunk bytes string
  | SpeechEndedMsg int real
  | TextInput string string
  | CancelGeneration string
  | PlaybackFinishedMsg bool
  | TransferInitiatedMsg string string string string
  | TransferCompletedMsg string string
  | TransferFailedMsg string string string
  | OtherMsg

datatype service_msg =
    ServiceReadyMsg string
  | ServiceError string string bool
  | WorkflowNodeChanged node_change
  | AgentText string string
  | TtsStarted string
  | TtsChunk nat bytes bool string
  | SttResultMsg string real string
  | CancelAck string
  | EndCall string int
  | TransferRequestMsg transfer_request
  | ConversationFinalizedMsg bool bool

section \<open>State\<close>

text \<open>The locals of one \<^verbatim>\<open>speech_ended\<close> turn; \<open>sp_first_tts\<close> belongs to the session's generator.\<close>

record speech_turn =
  sp_tts_started_sent :: bool
  sp_cancelled :: bool
  sp_stt_sent :: bool
  sp_end_call :: "int option"
  sp_turn_transfer :: "transfer_request option"
  sp_first_tts :: bool

definition speech_turn_init :: speech_turn where
  "speech_turn_init =
     \<lparr>sp_tts_started_sent = False, sp_cancelled = False, sp_stt_sent = False, sp_end_call = None,
      sp_turn_transfer = None, sp_first_tts = True\<rparr>"

datatype control =
    Handshake
  | Refused string
  | Greet
  | Loop
  | AwaitAudio string
  | InSpeech speech_turn
  | InText string "int option"
  | AwaitFinalize
  | InFailed string string string bool bool
  | Draining
  | Closed
  | Dead

record converse =
  cv_at :: control
  cv_session :: session
  cv_queue :: "gateway_msg option list"
  cv_reading :: bool
  cv_tts_seq :: nat
  cv_pending_transfer :: "transfer_request option"
  cv_sent :: "service_msg list"

definition send :: "service_msg list \<Rightarrow> converse \<Rightarrow> converse" where
  "send ms c = c\<lparr>cv_sent := cv_sent c @ ms\<rparr>"

definition on_session :: "(session \<Rightarrow> session) \<Rightarrow> converse \<Rightarrow> converse" where
  "on_session f c = c\<lparr>cv_session := f (cv_session c)\<rparr>"

definition goto :: "control \<Rightarrow> converse \<Rightarrow> converse" where
  "goto k c = c\<lparr>cv_at := k\<rparr>"

section \<open>Audio out\<close>

definition send_chunk :: "string \<Rightarrow> bool \<Rightarrow> bytes \<Rightarrow> converse \<Rightarrow> converse" where
  "send_chunk trace is_final payload c =
     send [TtsChunk (Suc (cv_tts_seq c)) payload is_final trace] (c\<lparr>cv_tts_seq := Suc (cv_tts_seq c)\<rparr>)"

text \<open>A complete response (greeting, echo): the last chunk is the final one.\<close>

fun send_response_audio :: "string \<Rightarrow> bytes list \<Rightarrow> converse \<Rightarrow> converse" where
  "send_response_audio trace [] c = c"
| "send_response_audio trace [p] c = send_chunk trace True p c"
| "send_response_audio trace (p # q # ps) c = send_response_audio trace (q # ps) (send_chunk trace False p c)"

definition send_complete_audio :: "string \<Rightarrow> bytes list \<Rightarrow> converse \<Rightarrow> converse" where
  "send_complete_audio trace ps c =
     (if ps = [] then c else send_response_audio trace ps (send [TtsStarted trace] c))"

text \<open>A streamed response: no chunk is final, the start marker is sent once.\<close>

definition stream_audio :: "bytes list \<Rightarrow> bool \<Rightarrow> converse \<Rightarrow> converse \<times> bool" where
  "stream_audio ps started c =
     (if ps = [] then (c, started)
      else (fold (send_chunk [] False) ps (if started then c else send [TtsStarted []] c), True))"

definition send_node_changed :: "handler_response \<Rightarrow> converse \<Rightarrow> converse" where
  "send_node_changed r c =
     (case hr_node_changed r of Some nc \<Rightarrow> send [WorkflowNodeChanged nc] c | None \<Rightarrow> c)"

definition send_stt :: "string \<Rightarrow> handler_response \<Rightarrow> converse \<Rightarrow> converse" where
  "send_stt trace r c =
     (if hr_stt_text r \<noteq> [] then send [SttResultMsg (hr_stt_text r) (hr_stt_confidence r) trace] c else c)"

section \<open>Transfers\<close>

definition consume_pending_transfer :: "transfer_request \<Rightarrow> bool \<Rightarrow> service_msg option" where
  "consume_pending_transfer tr interrupted =
     (if interrupted \<and> tr_trigger tr \<noteq> ''escalation_threshold'' then None
      else if tr_destination tr = [] then None
      else Some (TransferRequestMsg tr))"

definition transfer_type_value :: "transfer_type \<Rightarrow> string" where
  "transfer_type_value t = (case t of WARM \<Rightarrow> ''warm'' | COLD \<Rightarrow> ''cold'' | NONE \<Rightarrow> ''none'')"

definition publish_requested :: "transfer_request \<Rightarrow> converse \<Rightarrow> converse" where
  "publish_requested tr c =
     on_session (publish_event (TransferRequestedEvent (tr_session_id tr) (tr_tenant_id tr) (tr_call_id tr)
       (transfer_type_value (tr_transfer_type tr)) (tr_destination tr) (tr_reason tr) (tr_trigger tr) [])) c"

definition dispatch_transfer :: "transfer_request \<Rightarrow> converse \<Rightarrow> converse" where
  "dispatch_transfer tr c =
     (case consume_pending_transfer tr False of Some m \<Rightarrow> send [m] c | None \<Rightarrow> c)"

text \<open>\<^verbatim>\<open>playback_finished\<close>, in the outer loop and during a turn.\<close>

definition handle_playback :: "(nat \<Rightarrow> real) \<Rightarrow> bool \<Rightarrow> converse \<Rightarrow> converse" where
  "handle_playback clk interrupted c =
     (let c1 = on_session (playback_finished clk interrupted) c
      in case cv_pending_transfer c1 of
           None \<Rightarrow> c1
         | Some tr \<Rightarrow>
             let c2 = c1\<lparr>cv_pending_transfer := None\<rparr>
             in case consume_pending_transfer tr interrupted of
                  Some m \<Rightarrow> send [m] c2
                | None \<Rightarrow>
                    if interrupted then on_session (session_transfer_cancelled (tr_transfer_id tr)) c2 else c2)"

section \<open>A spoken turn\<close>

text \<open>
  The drain of the queue between two responses: it works off the messages in order until the queue is
  empty or a message is put back at its end.
\<close>

fun drain :: "(nat \<Rightarrow> real) \<Rightarrow> gateway_msg option list \<Rightarrow> converse \<Rightarrow> speech_turn \<Rightarrow> converse \<times> speech_turn" where
  "drain clk [] c t = (c\<lparr>cv_queue := []\<rparr>, t)"
| "drain clk (None # q) c t =
     ((on_session (cancel clk) c)\<lparr>cv_queue := q @ [None]\<rparr>, t\<lparr>sp_cancelled := True\<rparr>)"
| "drain clk (Some (CancelGeneration trace) # q) c t =
     drain clk q (send [CancelAck trace] (on_session (cancel clk) c)) (t\<lparr>sp_cancelled := True\<rparr>)"
| "drain clk (Some (PlaybackFinishedMsg interrupted) # q) c t = drain clk q (handle_playback clk interrupted c) t"
| "drain clk (Some (AudioChunk payload trace) # q) c t =
     drain clk q (if sp_cancelled t then on_session (\<lambda>s. fst (push_audio payload s)) c else c) t"
| "drain clk (Some (SpeechEndedMsg d e) # q) c t = (c\<lparr>cv_queue := q @ [Some (SpeechEndedMsg d e)]\<rparr>, t)"
| "drain clk (Some (TransferInitiatedMsg ty d r i) # q) c t =
     (c\<lparr>cv_queue := q @ [Some (TransferInitiatedMsg ty d r i)]\<rparr>, t)"
| "drain clk (Some (TransferCompletedMsg d i) # q) c t =
     (c\<lparr>cv_queue := q @ [Some (TransferCompletedMsg d i)]\<rparr>, t)"
| "drain clk (Some (TransferFailedMsg d r i) # q) c t =
     (c\<lparr>cv_queue := q @ [Some (TransferFailedMsg d r i)]\<rparr>, t)"
| "drain clk (Some (SessionOpen req) # q) c t = drain clk q c t"
| "drain clk (Some (TextInput content trace) # q) c t = drain clk q c t"
| "drain clk (Some OtherMsg # q) c t = drain clk q c t"

definition emit_response :: "handler_response \<Rightarrow> converse \<Rightarrow> speech_turn \<Rightarrow> converse \<times> speech_turn" where
  "emit_response r c t =
     (if sp_cancelled t then (c, t)
      else
        let t1 = (if hr_end_call r then t\<lparr>sp_end_call := Some (hr_grace_ms r)\<rparr> else t);
            (c2, t2) = (case hr_transfer_request r of
                          Some tr \<Rightarrow> (publish_requested tr c, t1\<lparr>sp_turn_transfer := Some tr\<rparr>)
                        | None \<Rightarrow> (c, t1));
            c3 = send_stt [] r (send_node_changed r c2);
            t3 = (if hr_stt_text r \<noteq> [] then t2\<lparr>sp_stt_sent := True\<rparr> else t2);
            (c4, started) = stream_audio (hr_tts_payloads r) (sp_tts_started_sent t3) c3
        in (c4, t3\<lparr>sp_tts_started_sent := started\<rparr>))"

definition speech_yield :: "(nat \<Rightarrow> real) \<Rightarrow> handler_response \<Rightarrow> speech_turn \<Rightarrow> converse \<Rightarrow> converse" where
  "speech_yield clk r t c =
     (let (s1, first) = speech_response clk r (sp_first_tts t) (cv_session c);
          (c2, t2) = drain clk (cv_queue c) (c\<lparr>cv_session := s1\<rparr>) (t\<lparr>sp_first_tts := first\<rparr>);
          (c3, t3) = emit_response r c2 t2
      in goto (InSpeech t3) c3)"

text \<open>After the last response of a turn.\<close>

definition speech_finish :: "speech_turn \<Rightarrow> converse \<Rightarrow> converse" where
  "speech_finish t c =
     (if sp_cancelled t then c
      else
        let c1 = (if sp_stt_sent t then c else send [SttResultMsg [] 0 []] c);
            c2 = (if sp_tts_started_sent t then send_chunk [] True [] c1 else c1);
            c3 = (case sp_end_call t of
                    Some grace \<Rightarrow>
                      if sp_tts_started_sent t then send [EndCall ''agent_ended_call'' grace] c2 else c2
                  | None \<Rightarrow> c2)
        in case sp_turn_transfer t of
             None \<Rightarrow> c3
           | Some tr \<Rightarrow>
               if sp_tts_started_sent t then c3\<lparr>cv_pending_transfer := Some tr\<rparr> else dispatch_transfer tr c3)"

section \<open>Text turns, failed transfers\<close>

definition text_yield :: "(nat \<Rightarrow> real) \<Rightarrow> handler_response \<Rightarrow> string \<Rightarrow> int option \<Rightarrow> converse \<Rightarrow> converse" where
  "text_yield clk r trace end_call c =
     (let c1 = send_stt trace r (send_node_changed r (on_session (note_stt clk r) c));
          c2 = (if hr_agent_text r \<noteq> [] then send [AgentText trace (hr_agent_text r)] c1
                else if hr_turn_complete r then send [AgentText trace []] c1 else c1);
          c3 = (case hr_transfer_request r of
                  Some tr \<Rightarrow> dispatch_transfer tr (publish_requested tr c2)
                | None \<Rightarrow> c2)
      in goto (InText trace (if hr_end_call r then Some (hr_grace_ms r) else end_call)) c3)"

definition text_finish :: "int option \<Rightarrow> converse \<Rightarrow> converse" where
  "text_finish end_call c =
     (case end_call of Some grace \<Rightarrow> send [EndCall ''agent_ended_call'' grace] c | None \<Rightarrow> c)"

definition failed_yield ::
  "(nat \<Rightarrow> real) \<Rightarrow> handler_response \<Rightarrow> string \<Rightarrow> string \<Rightarrow> string \<Rightarrow> bool \<Rightarrow> bool \<Rightarrow> converse \<Rightarrow> converse"
where
  "failed_yield clk r d reason i any_audio started c =
     (let (s1, any1) = transfer_failed_response clk r any_audio (cv_session c);
          (c2, started1) = stream_audio (hr_tts_payloads r) started (c\<lparr>cv_session := s1\<rparr>)
      in goto (InFailed d reason i any1 started1) c2)"

definition failed_finish ::
  "(nat \<Rightarrow> real) \<Rightarrow> string \<Rightarrow> string \<Rightarrow> string \<Rightarrow> bool \<Rightarrow> bool \<Rightarrow> converse \<Rightarrow> converse"
where
  "failed_finish clk d reason i any_audio started c =
     (let c1 = on_session (transfer_failed_finish clk d reason i any_audio) c
      in if started then send_chunk [] True [] c1 else c1)"

section \<open>Handshake, greeting, teardown\<close>

definition greet_response :: "handler_response \<Rightarrow> converse \<Rightarrow> converse" where
  "greet_response r c =
     (let c1 = (if hr_session_note r \<noteq> []
                then send [ServiceError (if py_in ''doesn't parse'' (hr_session_note r) then ''draft_fallback'' else ''session_note'')
                             (hr_session_note r) False] c
                else c);
          c2 = send_node_changed r c1;
          c3 = (if hr_agent_text r \<noteq> [] then send [AgentText [] (hr_agent_text r)] c2 else c2)
      in send_complete_audio [] (hr_tts_payloads r) c3)"

definition handshake :: "(nat \<Rightarrow> real) \<Rightarrow> real \<Rightarrow> gateway_msg option \<Rightarrow> converse \<Rightarrow> converse" where
  "handshake clk now msg c =
     (case msg of
        None \<Rightarrow> goto (Refused ''stream_closed'') c
      | Some (SessionOpen req) \<Rightarrow>
          if \<not> starts_with ''1.'' (or_protocol_version req) then goto (Refused ''UNIMPLEMENTED'') c
          else
            let s0 = session_init (or_ctx req) (bus_init 256) now;
                s1 = session_ready clk s0;
                s2 = s1\<lparr>s_bus := bus_start (s_bus s1)\<rparr>
            in goto Greet (send [ServiceReadyMsg ''1.0''] (c\<lparr>cv_session := s2, cv_reading := True\<rparr>))
      | Some _ \<Rightarrow> goto (Refused ''INVALID_ARGUMENT'') c)"

text \<open>The \<^verbatim>\<open>finally\<close> block up to the drain of the bus.\<close>

definition teardown :: "(nat \<Rightarrow> real) \<Rightarrow> converse \<Rightarrow> converse" where
  "teardown clk c = goto Draining (on_session (session_close clk ''stream_ended'') (c\<lparr>cv_reading := False\<rparr>))"

section \<open>The loop\<close>

definition handle_msg :: "(nat \<Rightarrow> real) \<Rightarrow> gateway_msg \<Rightarrow> converse \<Rightarrow> converse" where
  "handle_msg clk m c =
     (case m of
        AudioChunk payload trace \<Rightarrow>
          let (s1, called) = push_audio payload (cv_session c)
          in if called then goto (AwaitAudio trace) (c\<lparr>cv_session := s1\<rparr>) else c
      | SpeechEndedMsg d e \<Rightarrow>
          (case speech_begin clk d e (cv_session c) of
             Some s1 \<Rightarrow> goto (InSpeech speech_turn_init) (c\<lparr>cv_session := s1\<rparr>)
           | None \<Rightarrow> speech_finish speech_turn_init c)
      | TextInput content trace \<Rightarrow>
          if \<not> cx_text_only (s_ctx (cv_session c)) then c
          else (case text_begin clk content (cv_session c) of
                  Some s1 \<Rightarrow> goto (InText trace None) (c\<lparr>cv_session := s1\<rparr>)
                | None \<Rightarrow> c)
      | CancelGeneration trace \<Rightarrow> send [CancelAck trace] (on_session (cancel clk) c)
      | PlaybackFinishedMsg interrupted \<Rightarrow> handle_playback clk interrupted c
      | TransferInitiatedMsg ty d reason i \<Rightarrow> on_session (transfer_initiated clk ty d reason i) c
      | TransferCompletedMsg d i \<Rightarrow> goto AwaitFinalize (on_session (transfer_completed_begin clk d i) c)
      | TransferFailedMsg d reason i \<Rightarrow>
          goto (InFailed d reason i False False) (on_session (transfer_failed_begin clk d reason) c)
      | _ \<Rightarrow> c)"

definition next_message :: "(nat \<Rightarrow> real) \<Rightarrow> converse \<Rightarrow> converse" where
  "next_message clk c =
     (case cv_queue c of
        [] \<Rightarrow> c
      | None # q \<Rightarrow> teardown clk (c\<lparr>cv_queue := q\<rparr>)
      | Some m # q \<Rightarrow> handle_msg clk m (c\<lparr>cv_queue := q\<rparr>))"

definition audio_answer :: "handler_response \<Rightarrow> string \<Rightarrow> converse \<Rightarrow> converse" where
  "audio_answer r trace c = goto Loop (send_complete_audio trace (hr_tts_payloads r) (send_stt trace r c))"

definition finalized :: "(nat \<Rightarrow> real) \<Rightarrow> finalization_result \<Rightarrow> converse \<Rightarrow> converse" where
  "finalized clk res c =
     goto Loop (send [ConversationFinalizedMsg (fr_summary_generated res) (fr_transcript_written res)]
       (on_session (transfer_completed_finish clk res) c))"

definition handler_yields :: "(nat \<Rightarrow> real) \<Rightarrow> handler_response \<Rightarrow> converse \<Rightarrow> converse" where
  "handler_yields clk r c =
     (case cv_at c of
        InSpeech t \<Rightarrow> speech_yield clk r t c
      | InText trace end_call \<Rightarrow> text_yield clk r trace end_call c
      | InFailed d reason i any_audio started \<Rightarrow> failed_yield clk r d reason i any_audio started c
      | _ \<Rightarrow> c)"

definition handler_exhausted :: "(nat \<Rightarrow> real) \<Rightarrow> converse \<Rightarrow> converse" where
  "handler_exhausted clk c =
     (case cv_at c of
        InSpeech t \<Rightarrow> goto Loop (speech_finish t (on_session (turn_finish clk) c))
      | InText trace end_call \<Rightarrow> goto Loop (text_finish end_call (on_session (turn_finish clk) c))
      | InFailed d reason i any_audio started \<Rightarrow> goto Loop (failed_finish clk d reason i any_audio started c)
      | _ \<Rightarrow> c)"

text \<open>The loop stands inside \<^verbatim>\<open>try\<close>, the greeting before it does not.\<close>

definition in_try :: "control \<Rightarrow> bool" where
  "in_try k = (case k of Loop \<Rightarrow> True | AwaitAudio _ \<Rightarrow> True | InSpeech _ \<Rightarrow> True | InText _ _ \<Rightarrow> True
     | AwaitFinalize \<Rightarrow> True | InFailed _ _ _ _ _ \<Rightarrow> True | _ \<Rightarrow> False)"

definition handler_raises :: "(nat \<Rightarrow> real) \<Rightarrow> string \<Rightarrow> converse \<Rightarrow> converse" where
  "handler_raises clk message c =
     (if in_try (cv_at c) \<and> cv_at c \<noteq> Loop then teardown clk (send [ServiceError ''INTERNAL'' message True] c)
      else if cv_at c = Greet then goto Dead c
      else c)"

definition stream_cancelled :: "(nat \<Rightarrow> real) \<Rightarrow> converse \<Rightarrow> converse" where
  "stream_cancelled clk c =
     (if in_try (cv_at c) then teardown clk c else if cv_at c = Greet then goto Dead c else c)"

text \<open>The bus hands one event over; the session's own subscriber counts failed transfers.\<close>

definition bus_delivers :: "converse \<Rightarrow> converse" where
  "bus_delivers c =
     on_session (\<lambda>s.
       let s1 = s\<lparr>s_bus := drain_one (s_bus s)\<rparr>
       in case b_queue (s_bus s) of
            e # _ \<Rightarrow>
              if b_running (s_bus s) \<and> 0 \<in> set (subscribers_of (s_bus s) (event_type e))
              then count_metric ''transfer_failures_total'' s1 else s1
          | [] \<Rightarrow> s1) c"

datatype cv_event =
    FirstMessage real "gateway_msg option"
  | Received gateway_msg
  | ReaderEnds
  | GreetingReady "handler_response list" "bytes list" string
  | NextMessage
  | AudioAnswer handler_response
  | Yields handler_response
  | Exhausted
  | Finalized finalization_result
  | Raises string
  | StreamCancelled
  | BusDelivers
  | BusStopped

fun cv_step :: "(nat \<Rightarrow> real) \<Rightarrow> cv_event \<Rightarrow> converse \<Rightarrow> converse" where
  "cv_step clk (FirstMessage now msg) c = (if cv_at c = Handshake then handshake clk now msg c else c)"
| "cv_step clk (Received m) c = (if cv_reading c then c\<lparr>cv_queue := cv_queue c @ [Some m]\<rparr> else c)"
| "cv_step clk ReaderEnds c =
     (if cv_reading c then c\<lparr>cv_queue := cv_queue c @ [None], cv_reading := False\<rparr> else c)"
| "cv_step clk (GreetingReady opening payloads message) c =
     (if cv_at c = Greet
      then goto Loop (fold greet_response (greet opening payloads message (cv_session c))
             (on_session (call_handler Greeting) c))
      else c)"
| "cv_step clk NextMessage c = (if cv_at c = Loop then next_message clk c else c)"
| "cv_step clk (AudioAnswer r) c = (case cv_at c of AwaitAudio trace \<Rightarrow> audio_answer r trace c | _ \<Rightarrow> c)"
| "cv_step clk (Yields r) c = handler_yields clk r c"
| "cv_step clk Exhausted c = handler_exhausted clk c"
| "cv_step clk (Finalized res) c = (if cv_at c = AwaitFinalize then finalized clk res c else c)"
| "cv_step clk (Raises message) c = handler_raises clk message c"
| "cv_step clk StreamCancelled c = stream_cancelled clk c"
| "cv_step clk BusDelivers c = (if cv_at c \<in> {Handshake, Closed, Dead} then c else bus_delivers c)"
| "cv_step clk BusStopped c =
     (if cv_at c = Draining then goto Closed (on_session (\<lambda>s. s\<lparr>s_bus := bus_stop (s_bus s)\<rparr>) c) else c)"

definition no_ctx :: session_ctx where
  "no_ctx = \<lparr>cx_session_id = [], cx_tenant_id = [], cx_trace_id = [], cx_call_id = [], cx_caller_did = [],
     cx_called_did = [], cx_direction = [], cx_script_id = [], cx_use_workflow_draft = False, cx_text_only = False\<rparr>"

definition cv_init :: converse where
  "cv_init =
     \<lparr>cv_at = Handshake, cv_session = session_init no_ctx (bus_init 256) 0, cv_queue = [], cv_reading = False,
      cv_tts_seq = 0, cv_pending_transfer = None, cv_sent = []\<rparr>"

section \<open>The audio stream\<close>

text \<open>
  What the gateway relies on: a chunk comes only after a start marker and before the final chunk, the
  numbers of the chunks count 1, 2, 3, and in a voice session the order to end the call directly
  follows a final chunk. The state of the check: is audio open, the last number, was the last message a
  final chunk.
\<close>

fun scan :: "bool \<Rightarrow> bool \<times> nat \<times> bool \<Rightarrow> service_msg list \<Rightarrow> (bool \<times> nat \<times> bool) option" where
  "scan tx st [] = Some st"
| "scan tx (op, n, fin) (TtsStarted tr # ms) = scan tx (True, n, False) ms"
| "scan tx (op, n, fin) (TtsChunk k p f tr # ms) =
     (if op \<and> k = Suc n then scan tx (\<not> f, k, f) ms else None)"
| "scan tx (op, n, fin) (EndCall reason grace # ms) =
     (if tx \<or> fin then scan tx (op, n, False) ms else None)"
| "scan tx (op, n, fin) (_ # ms) = scan tx (op, n, False) ms"


definition aud :: "bool \<Rightarrow> bool \<Rightarrow> bool \<Rightarrow> converse \<Rightarrow> bool" where
  "aud tx op fin c \<longleftrightarrow> scan tx (False, 0, False) (cv_sent c) = Some (op, cv_tts_seq c, fin)"

definition neutral :: "service_msg \<Rightarrow> bool" where
  "neutral m = (case m of TtsStarted _ \<Rightarrow> False | TtsChunk _ _ _ _ \<Rightarrow> False | EndCall _ _ \<Rightarrow> False | _ \<Rightarrow> True)"

definition voice :: "bool \<Rightarrow> bool \<Rightarrow> converse \<Rightarrow> bool" where
  "voice tx op c \<longleftrightarrow> (\<exists>fin. aud tx op fin c)"

lemma voice_frame: "cv_sent d = cv_sent c \<Longrightarrow> cv_tts_seq d = cv_tts_seq c \<Longrightarrow> voice tx op d = voice tx op c"
  by (simp add: voice_def aud_def)

lemma voice_simps [simp]:
  "voice tx op (goto k c) = voice tx op c"
  "voice tx op (on_session f c) = voice tx op c"
  "voice tx op (c\<lparr>cv_session := s\<rparr>) = voice tx op c"
  "voice tx op (c\<lparr>cv_queue := q\<rparr>) = voice tx op c"
  "voice tx op (c\<lparr>cv_queue := q, cv_reading := b\<rparr>) = voice tx op c"
  "voice tx op (c\<lparr>cv_session := s, cv_reading := b\<rparr>) = voice tx op c"
  "voice tx op (c\<lparr>cv_reading := b\<rparr>) = voice tx op c"
  "voice tx op (c\<lparr>cv_pending_transfer := p\<rparr>) = voice tx op c"
  by (simp_all add: voice_def aud_def goto_def on_session_def)


lemma neutral_simps [simp]:
  "neutral (ServiceReadyMsg v)" "neutral (ServiceError a b f)" "neutral (WorkflowNodeChanged nc)" "neutral (AgentText a b)"
  "neutral (SttResultMsg a x b)" "neutral (CancelAck a)" "neutral (TransferRequestMsg tr)" "neutral (ConversationFinalizedMsg p q)"
  by (simp_all add: neutral_def)






definition sounds :: "bool \<Rightarrow> converse \<Rightarrow> bool" where
  "sounds tx c \<longleftrightarrow> (\<exists>op. voice tx op c)"


lemma sounds_simps [simp]:
  "sounds tx (goto k c) = sounds tx c"
  "sounds tx (on_session f c) = sounds tx c"
  "sounds tx (c\<lparr>cv_session := s\<rparr>) = sounds tx c"
  "sounds tx (c\<lparr>cv_queue := q\<rparr>) = sounds tx c"
  "sounds tx (c\<lparr>cv_reading := b\<rparr>) = sounds tx c"
  "sounds tx (c\<lparr>cv_pending_transfer := p\<rparr>) = sounds tx c"
  by (simp_all add: sounds_def)







lemma publish_requested_voice [simp]: "voice tx op (publish_requested tr c) = voice tx op c"
  by (simp add: publish_requested_def)












text \<open>The session of a running stream keeps its context, text or voice.\<close>

lemma s_ctx_drive [simp]: "s_ctx (drive f s) = s_ctx s"
  by (simp add: drive_def Let_def)

lemma s_ctx_ops [simp]:
  "s_ctx (at_clock clk f s) = s_ctx s" "s_ctx (call_handler h s) = s_ctx s" "s_ctx (count_metric m s) = s_ctx s"
  "s_ctx (publish_event e s) = s_ctx s" "s_ctx (cancel_fsm clk s) = s_ctx s" "s_ctx (note_stt clk r s) = s_ctx s"
  "s_ctx (turn_finish clk s) = s_ctx s" "s_ctx (cancel clk s) = s_ctx s" "s_ctx (playback_finished clk y s) = s_ctx s"
  "s_ctx (transfer_initiated clk a b d x1 s) = s_ctx s" "s_ctx (transfer_completed_begin clk a b s) = s_ctx s"
  "s_ctx (transfer_completed_finish clk res s) = s_ctx s" "s_ctx (transfer_failed_begin clk a b s) = s_ctx s"
  "s_ctx (transfer_failed_finish clk a b d z s) = s_ctx s" "s_ctx (session_transfer_cancelled i s) = s_ctx s"
  "s_ctx (session_close clk a s) = s_ctx s" "s_ctx (fst (push_audio p s)) = s_ctx s"
  by (simp_all add: at_clock_def call_handler_def count_metric_def publish_event_def cancel_fsm_def note_stt_def turn_finish_def
      cancel_def playback_finished_def transfer_initiated_def transfer_completed_begin_def transfer_completed_finish_def
      transfer_failed_begin_def transfer_failed_finish_def session_transfer_cancelled_def session_close_def push_audio_def Let_def)

lemma cv_session_send [simp]: "cv_session (send ms c) = cv_session c"
  by (simp add: send_def)

lemma cv_session_goto [simp]: "cv_session (goto k c) = cv_session c"
  by (simp add: goto_def)

lemma cv_session_on [simp]: "cv_session (on_session f c) = f (cv_session c)"
  by (simp add: on_session_def)

lemma cv_session_chunk [simp]: "cv_session (send_chunk tr f p c) = cv_session c"
  by (simp add: send_chunk_def)

lemma cv_session_chunks [simp]: "cv_session (fold (send_chunk tr f) ps c) = cv_session c"
  by (induction ps arbitrary: c) auto

lemma cv_session_response_audio [simp]: "cv_session (send_response_audio tr ps c) = cv_session c"
  by (induction tr ps c rule: send_response_audio.induct) auto

lemma cv_session_audio [simp]:
  "cv_session (send_complete_audio tr ps c) = cv_session c" "cv_session (fst (stream_audio ps started c)) = cv_session c"
  "cv_session (send_node_changed r c) = cv_session c" "cv_session (send_stt tr r c) = cv_session c"
  "cv_session (dispatch_transfer x c) = cv_session c"
  by (simp_all add: send_complete_audio_def stream_audio_def send_node_changed_def send_stt_def dispatch_transfer_def split: option.split)

lemma cv_session_greet_response [simp]: "cv_session (greet_response r c) = cv_session c"
  by (simp add: greet_response_def Let_def)

lemma cv_session_greets [simp]: "cv_session (fold greet_response rs c) = cv_session c"
  by (induction rs arbitrary: c) auto

lemma emit_response_session:
  "emit_response r c t = (d, t') \<Longrightarrow>
     cv_session d = cv_session c \<or> (\<exists>tr. cv_session d = cv_session (publish_requested tr c))"
proof -
  have "cv_session (fst (emit_response r c t)) =
    (if sp_cancelled t then cv_session c
     else case hr_transfer_request r of Some tr \<Rightarrow> cv_session (publish_requested tr c) | None \<Rightarrow> cv_session c)"
    by (auto simp: emit_response_def Let_def case_prod_unfold split: option.split)
  then show "emit_response r c t = (d, t') \<Longrightarrow> ?thesis"
    by (cases "sp_cancelled t"; cases "hr_transfer_request r") auto
qed

text \<open>The place where the coroutine waits changes only where it is set.\<close>

lemma cv_at_send [simp]:
  "cv_at (send ms c) = cv_at c" "cv_at (on_session f c) = cv_at c" "cv_at (goto k c) = k" "cv_at (send_chunk tr fin p c) = cv_at c"
  by (simp_all add: send_def on_session_def goto_def send_chunk_def)

lemma cv_at_chunks [simp]: "cv_at (fold (send_chunk tr f) ps c) = cv_at c"
  by (induction ps arbitrary: c) auto

lemma cv_at_response_audio [simp]: "cv_at (send_response_audio tr ps c) = cv_at c"
  by (induction tr ps c rule: send_response_audio.induct) auto

lemma cv_at_audio [simp]:
  "cv_at (send_complete_audio tr ps c) = cv_at c" "cv_at (send_node_changed r c) = cv_at c" "cv_at (send_stt tr r c) = cv_at c"
  "cv_at (dispatch_transfer x c) = cv_at c" "cv_at (publish_requested x c) = cv_at c"
  by (simp_all add: send_complete_audio_def send_node_changed_def send_stt_def dispatch_transfer_def publish_requested_def split: option.split)

lemma cv_at_more [simp]:
  "cv_at (handle_playback clk i c) = cv_at c" "cv_at (speech_finish t c) = cv_at c" "cv_at (bus_delivers c) = cv_at c"
  by (simp_all add: handle_playback_def speech_finish_def bus_delivers_def Let_def split: option.split)

lemma cv_at_speech_yield: "\<exists>t'. cv_at (speech_yield clk r t c) = InSpeech t'"
  by (simp add: speech_yield_def case_prod_unfold Let_def)

lemma cv_at_text_yield: "\<exists>e'. cv_at (text_yield clk r tr e c) = InText tr e'"
  by (simp add: text_yield_def Let_def)

lemma cv_at_failed_yield: "\<exists>a' s'. cv_at (failed_yield clk r d reason i a st c) = InFailed d reason i a' s'"
  by (simp add: failed_yield_def case_prod_unfold Let_def)

lemma cv_at_handler_yields:
  "cv_at (handler_yields clk r c) = cv_at c \<or> (in_try (cv_at c) \<and> cv_at c \<noteq> Loop \<and> in_try (cv_at (handler_yields clk r c)))"
  using cv_at_speech_yield [of clk r _ c] cv_at_text_yield [of clk r _ _ c] cv_at_failed_yield [of clk r _ _ _ _ _ c]
  by (cases "cv_at c") (auto simp: handler_yields_def in_try_def, (metis control.simps)+)

lemma cv_at_handle_msg: "cv_at c = Loop \<Longrightarrow> in_try (cv_at (handle_msg clk m c))"
  by (cases m) (auto simp: handle_msg_def in_try_def split: prod.split option.split)

lemma in_try_teardown: "in_try (cv_at c) \<Longrightarrow> cv_at c \<noteq> Handshake \<and> cv_at c \<noteq> Draining \<and> cv_at c \<noteq> Closed"
  by (auto simp: in_try_def)

lemma cv_at_handler_exhausted:
  "cv_at (handler_exhausted clk c) = (if in_try (cv_at c) \<and> (\<forall>tr. cv_at c \<noteq> AwaitAudio tr) \<and> cv_at c \<noteq> AwaitFinalize then Loop else cv_at c)"
  by (cases "cv_at c") (simp_all add: handler_exhausted_def in_try_def)

lemma cv_at_step:
  assumes "cv_at c \<noteq> Handshake"
  shows "cv_at (cv_step clk e c) = cv_at c \<or>
    (in_try (cv_at c) \<or> cv_at c = Greet) \<and> (in_try (cv_at (cv_step clk e c)) \<or> cv_at (cv_step clk e c) = Dead \<and> cv_at c = Greet \<or> cv_at (cv_step clk e c) = Draining \<and> in_try (cv_at c)) \<or>
    cv_at c = Draining \<and> cv_at (cv_step clk e c) = Closed"
proof (cases e)
  case NextMessage
  then show ?thesis using cv_at_handle_msg [of "c\<lparr>cv_queue := _\<rparr>" clk]
    by (auto simp: next_message_def teardown_def in_try_def split: list.splits option.splits)
next
  case (Yields r)
  then show ?thesis using cv_at_handler_yields [of clk r c] by auto
next
  case Exhausted
  then show ?thesis using cv_at_handler_exhausted [of clk c] by (auto simp: in_try_def split: if_splits)
next
  case (AudioAnswer r)
  then show ?thesis by (cases "cv_at c") (auto simp: audio_answer_def in_try_def)
qed (use assms in \<open>auto simp: finalized_def handler_raises_def stream_cancelled_def teardown_def in_try_def\<close>)

section \<open>Properties of the session under the servicer\<close>

text \<open>
  The contract by which a property of the session is carried through every step of the servicer: it
  holds after each operation that the servicer calls. \<open>session_inv_close\<close> adds the teardown.
\<close>

locale session_inv =
  fixes clk :: "nat \<Rightarrow> real" and P :: "session \<Rightarrow> bool"
  assumes P_note: "P s \<Longrightarrow> P (note_stt clk r s)"
    and P_first_audio: "P s \<Longrightarrow> P (at_clock clk on_first_audio_chunk (at_clock clk on_text_ready s))"
    and P_speech: "P s \<Longrightarrow> speech_begin clk dur energy s = Some s' \<Longrightarrow> P s'"
    and P_text: "P s \<Longrightarrow> text_begin clk content s = Some s' \<Longrightarrow> P s'"
    and P_finish: "P s \<Longrightarrow> P (turn_finish clk s)"
    and P_playback: "P s \<Longrightarrow> P (playback_finished clk b s)"
    and P_cancel: "P s \<Longrightarrow> P (cancel clk s)"
    and P_initiated: "P s \<Longrightarrow> P (transfer_initiated clk ty d reason i s)"
    and P_completed: "P s \<Longrightarrow> P (transfer_completed_begin clk d i s)"
    and P_finalized: "P s \<Longrightarrow> P (transfer_completed_finish clk res s)"
    and P_failed: "P s \<Longrightarrow> P (transfer_failed_begin clk d reason s)"
    and P_recovery: "P s \<Longrightarrow> P (at_clock clk on_recovery_response_ready s)"
    and P_failed_finish: "P s \<Longrightarrow> P (transfer_failed_finish clk d reason i a s)"
    and P_cancelled: "P s \<Longrightarrow> P (session_transfer_cancelled i s)"
    and P_audio: "P s \<Longrightarrow> P (fst (push_audio p s))"
    and P_publish: "P s \<Longrightarrow> P (publish_event ev s)"
    and P_greet: "P s \<Longrightarrow> P (call_handler Greeting s)"
    and P_metric: "P s \<Longrightarrow> P (count_metric m s)"
    and P_bus: "P s \<Longrightarrow> P (s\<lparr>s_bus := bb\<rparr>)"
begin

lemma P_response: "P s \<Longrightarrow> P (fst (speech_response clk r first s))"
  by (simp add: speech_response_def Let_def P_note P_first_audio)

lemma P_recovery_response: "P s \<Longrightarrow> P (fst (transfer_failed_response clk r a s))"
  by (simp add: transfer_failed_response_def P_recovery)

lemma P_handle_playback: "P (cv_session c) \<Longrightarrow> P (cv_session (handle_playback clk i c))"
  by (auto simp: handle_playback_def Let_def P_playback P_cancelled split: option.split)

lemma P_publish_requested: "P (cv_session c) \<Longrightarrow> P (cv_session (publish_requested tr c))"
  by (simp add: publish_requested_def P_publish)

lemma P_drain: "drain clk q c t = (d, t') \<Longrightarrow> P (cv_session c) \<Longrightarrow> P (cv_session d)"
proof (induction q arbitrary: c t)
  case (Cons x q)
  show ?case
  proof (cases x)
    case None
    then show ?thesis using Cons.prems by (auto simp: P_cancel)
  next
    case (Some m)
    then show ?thesis using Cons by (cases m) (auto simp: P_cancel P_handle_playback P_audio split: if_splits)
  qed
qed auto

lemma P_emit: "emit_response r c t = (d, t') \<Longrightarrow> P (cv_session c) \<Longrightarrow> P (cv_session d)"
  using emit_response_session [of r c t d t'] P_publish_requested [of c] by fastforce

lemma P_speech_yield:
  assumes "P (cv_session c)"
  shows "P (cv_session (speech_yield clk r t c))"
proof -
  obtain s1 first where sr: "speech_response clk r (sp_first_tts t) (cv_session c) = (s1, first)" by fastforce
  obtain c2 t2 where dr: "drain clk (cv_queue c) (c\<lparr>cv_session := s1\<rparr>) (t\<lparr>sp_first_tts := first\<rparr>) = (c2, t2)" by fastforce
  obtain c3 t3 where em: "emit_response r c2 t2 = (c3, t3)" by fastforce
  have "P s1" using P_response [OF assms, of r "sp_first_tts t"] sr by simp
  then have "P (cv_session c3)" by (intro P_emit [OF em] P_drain [OF dr]) simp
  then show ?thesis using sr dr em by (simp add: speech_yield_def)
qed

lemma P_speech_finish: "P (cv_session c) \<Longrightarrow> P (cv_session (speech_finish t c))"
  by (simp add: speech_finish_def Let_def split: option.split)

lemma P_text_yield: "P (cv_session c) \<Longrightarrow> P (cv_session (text_yield clk r tr e c))"
  by (auto simp: text_yield_def Let_def P_note P_publish_requested split: option.split)

lemma P_failed_yield:
  assumes "P (cv_session c)"
  shows "P (cv_session (failed_yield clk r d reason i a started c))"
  using P_recovery_response [OF assms, of r a] by (simp add: failed_yield_def case_prod_unfold Let_def)

lemma P_handler_yields: "P (cv_session c) \<Longrightarrow> P (cv_session (handler_yields clk r c))"
  by (simp add: handler_yields_def P_speech_yield P_text_yield P_failed_yield split: control.split)

lemma P_handler_exhausted: "P (cv_session c) \<Longrightarrow> P (cv_session (handler_exhausted clk c))"
  by (auto simp: handler_exhausted_def text_finish_def failed_finish_def Let_def P_finish P_failed_finish
      intro!: P_speech_finish split: control.split option.split)

lemma P_handle_msg: "P (cv_session c) \<Longrightarrow> P (cv_session (handle_msg clk m c))"
proof (cases m)
  case (AudioChunk p tr)
  then show "P (cv_session c) \<Longrightarrow> ?thesis"
    using P_audio [of "cv_session c" p] by (auto simp: handle_msg_def split: prod.splits)
next
  case (SpeechEndedMsg dur en)
  then show "P (cv_session c) \<Longrightarrow> ?thesis" using P_speech [of "cv_session c" dur en] P_speech_finish [of c]
    by (simp add: handle_msg_def split: option.split)
next
  case (TextInput content tr)
  then show "P (cv_session c) \<Longrightarrow> ?thesis" using P_text [of "cv_session c" content]
    by (simp add: handle_msg_def split: option.split)
qed (simp_all add: handle_msg_def P_cancel P_initiated P_completed P_failed P_handle_playback)

lemma P_bus_delivers: "P (cv_session c) \<Longrightarrow> P (cv_session (bus_delivers c))"
  by (simp add: bus_delivers_def Let_def P_bus P_metric split: list.split)

lemma P_step:
  assumes P: "P (cv_session c)" and at: "cv_at c \<noteq> Handshake"
    and live: "cv_at (cv_step clk e c) \<noteq> Draining \<or> cv_at c = Draining"
  shows "P (cv_session (cv_step clk e c))"
proof (cases e)
  case NextMessage
  show ?thesis
  proof (cases "cv_at c = Loop")
    case True
    then show ?thesis using NextMessage P live
      by (auto simp: next_message_def teardown_def goto_def P_handle_msg split: list.splits option.splits)
  qed (use NextMessage P in simp)
next
  case (Raises x)
  then show ?thesis using P live by (auto simp: handler_raises_def teardown_def goto_def in_try_def split: if_splits)
next
  case StreamCancelled
  then show ?thesis using P live by (auto simp: stream_cancelled_def teardown_def goto_def in_try_def split: if_splits)
next
  case (AudioAnswer r)
  then show ?thesis using P by (simp add: audio_answer_def split: control.split)
next
  case (Yields r)
  then show ?thesis using P by (simp add: P_handler_yields)
next
  case Exhausted
  then show ?thesis using P by (simp add: P_handler_exhausted)
qed (use P at in \<open>simp_all add: P_greet finalized_def P_finalized P_bus_delivers P_bus\<close>)

end

locale session_inv_close = session_inv +
  assumes P_close: "P s \<Longrightarrow> P (session_close clk reason s)"
begin

lemma P_every_step:
  assumes P: "P (cv_session c)" and at: "cv_at c \<noteq> Handshake"
  shows "P (cv_session (cv_step clk e c))"
proof (cases "cv_at (cv_step clk e c) \<noteq> Draining \<or> cv_at c = Draining")
  case True
  then show ?thesis by (rule P_step [OF P at])
next
  case False
  show ?thesis
  proof (cases e)
    case NextMessage
    then show ?thesis using P P_handle_msg
      by (auto simp: next_message_def teardown_def P_close split: list.splits option.splits)
  next
    case (Raises m)
    then show ?thesis using P by (simp add: handler_raises_def teardown_def P_close)
  next
    case StreamCancelled
    then show ?thesis using P by (simp add: stream_cancelled_def teardown_def P_close)
  next
    case (Yields r)
    then show ?thesis using P by (simp add: P_handler_yields)
  next
    case Exhausted
    then show ?thesis using P by (simp add: P_handler_exhausted)
  next
    case (AudioAnswer r)
    then show ?thesis using P by (simp add: audio_answer_def split: control.split)
  qed (use P at in \<open>simp_all add: P_greet finalized_def P_finalized P_bus_delivers P_bus\<close>)
qed

lemma P_run:
  "P (cv_session c) \<Longrightarrow> cv_at c \<noteq> Handshake \<Longrightarrow> P (cv_session (fold (cv_step clk) es c))"
proof (induction es arbitrary: c)
  case (Cons e es)
  have "cv_at (cv_step clk e c) \<noteq> Handshake" using cv_at_step [OF Cons.prems(2), of clk e] Cons.prems(2) by (auto simp: in_try_def)
  then show ?case using Cons.IH P_every_step [OF Cons.prems] by simp
qed simp

end

section \<open>Interpretations\<close>

lemma speech_response_frame [simp]:
  "s_ctx (fst (speech_response clk r first s)) = s_ctx s"
  by (simp add: speech_response_def Let_def)


text \<open>
  A session in the state \<open>BARGE_IN\<close> hears nothing any more: no operation of the servicer leads back, and
  no utterance and no text reaches the handler.
\<close>

definition heard :: "session \<Rightarrow> handler_call list" where
  "heard s = filter (\<lambda>h. case h of OnSpeechEnded _ _ _ \<Rightarrow> True | OnText _ \<Rightarrow> True | _ \<Rightarrow> False) (s_handler_calls s)"

definition deaf :: "handler_call list \<Rightarrow> session \<Rightarrow> bool" where
  "deaf hs s \<longleftrightarrow> state (s_fsm s) \<in> {BARGE_IN, CLOSING, CLOSED} \<and> heard s = hs"

lemma s_fsm_drive [simp]: "s_fsm (drive f s) = f (s_fsm s)"
  by (simp add: drive_def Let_def)

lemma calls_drive [simp]: "s_handler_calls (drive f s) = s_handler_calls s"
  by (simp add: drive_def Let_def)

lemma heard_drive [simp]: "heard (drive f s) = heard s"
  by (simp add: heard_def)

lemma s_fsm_frame [simp]:
  "s_fsm (call_handler h s) = s_fsm s" "s_fsm (count_metric m s) = s_fsm s" "s_fsm (publish_event ev s) = s_fsm s"
  "s_fsm (s\<lparr>s_audio_buffer := ab\<rparr>) = s_fsm s" "s_fsm (s\<lparr>s_bus := bb\<rparr>) = s_fsm s"
  by (simp_all add: call_handler_def count_metric_def publish_event_def)

lemma calls_frame [simp]:
  "s_handler_calls (call_handler h s) = s_handler_calls s @ [h]" "s_handler_calls (count_metric m s) = s_handler_calls s"
  "s_handler_calls (publish_event ev s) = s_handler_calls s"
  by (simp_all add: call_handler_def count_metric_def publish_event_def)

lemmas session_ops = at_clock_def note_stt_def turn_finish_def playback_finished_def cancel_def cancel_fsm_def
  transfer_initiated_def transfer_completed_begin_def transfer_completed_finish_def transfer_failed_begin_def
  transfer_failed_finish_def session_transfer_cancelled_def push_audio_def speech_begin_def text_begin_def Let_def

interpretation barge_in: session_inv_close clk "deaf hs"
  for clk hs
  by unfold_locales
    (auto simp: session_ops deaf_def heard_def speech_ended_states_def mid_turn_states_def can_accept_audio_def
      session_close_def fsm_simps is_terminal_def is_active_def split: if_splits)

text \<open>The handler learns of the end of its session from the teardown only.\<close>

definition ends :: "session \<Rightarrow> nat" where
  "ends s = length (filter (\<lambda>h. case h of OnSessionEnd _ _ \<Rightarrow> True | _ \<Rightarrow> False) (s_handler_calls s))"

interpretation ending: session_inv clk "\<lambda>s. ends s = n"
  for clk n
  by unfold_locales (auto simp: session_ops ends_def split: if_splits)

text \<open>The machine of a served session has left \<open>IDLE\<close>, so that it can be closed.\<close>

interpretation connected: session_inv_close clk "\<lambda>s. state (s_fsm s) \<noteq> IDLE"
  for clk
  by unfold_locales
    (auto simp: session_ops session_close_def fsm_simps is_active_def is_terminal_def mid_turn_states_def split: if_splits)

section \<open>Properties\<close>












text \<open>The number of ends the handler is told of, by the place where the stream is.\<close>

definition end_ok :: "converse \<Rightarrow> bool" where
  "end_ok c \<longleftrightarrow>
     (cv_at c \<noteq> Handshake \<and> (\<forall>code. cv_at c \<noteq> Refused code) \<longrightarrow> state (s_fsm (cv_session c)) \<noteq> IDLE) \<and>
     (if cv_at c \<in> {Draining, Closed}
      then ends (cv_session c) = 1 \<and> state (s_fsm (cv_session c)) = CLOSED
      else ends (cv_session c) = 0)"

lemma session_close_ends:
  assumes "state (s_fsm s) \<noteq> IDLE"
  shows "ends (session_close clk reason s) = Suc (ends s) \<and> state (s_fsm (session_close clk reason s)) = CLOSED"
  using assms
  by (cases "state (s_fsm s)") (simp_all add: session_close_def ends_def Let_def at_clock_def fsm_simps is_terminal_def)

lemma end_ok_handshake: "end_ok c \<Longrightarrow> cv_at c = Handshake \<Longrightarrow> end_ok (handshake clk now msg c)"
  by (cases msg rule: option.exhaust)
    (auto simp: end_ok_def handshake_def Let_def session_ready_def session_init_def ends_def at_clock_def fsm_init_def fsm_simps
      split: gateway_msg.splits)

lemma closed_bus [simp]: "s_handler_calls (s\<lparr>s_bus := bb\<rparr>) = s_handler_calls s" "ends (s\<lparr>s_bus := bb\<rparr>) = ends s"
  by (simp_all add: ends_def)

lemma teardown_step:
  assumes "cv_at (cv_step clk e c) = Draining" and "cv_at c \<noteq> Draining" and "cv_at c \<noteq> Handshake"
  shows "\<exists>c'. cv_step clk e c = teardown clk c' \<and> cv_session c' = cv_session c"
proof (cases e)
  case NextMessage
  then have loop: "cv_at c = Loop" using assms by (auto split: if_splits)
  have "in_try (cv_at (handle_msg clk m (c\<lparr>cv_queue := q\<rparr>)))" for m q by (rule cv_at_handle_msg) (simp add: loop)
  then have "cv_at (handle_msg clk m (c\<lparr>cv_queue := q\<rparr>)) \<noteq> Draining" for m q using in_try_teardown by blast
  then show ?thesis using NextMessage assms loop
    by (auto simp: next_message_def split: list.splits option.splits intro!: exI [of _ "c\<lparr>cv_queue := _\<rparr>"])
next
  case (Yields r)
  then show ?thesis using assms cv_at_handler_yields [of clk r c] by (auto simp: in_try_def)
next
  case Exhausted
  then show ?thesis using assms cv_at_handler_exhausted [of clk c] by (auto split: if_splits)
next
  case (AudioAnswer r)
  then show ?thesis using assms by (cases "cv_at c") (auto simp: audio_answer_def)
next
  case (Raises m)
  then show ?thesis using assms
    by (auto simp: handler_raises_def split: if_splits intro!: exI [of _ "send [ServiceError ''INTERNAL'' m True] c"])
next
  case StreamCancelled
  then show ?thesis using assms by (auto simp: stream_cancelled_def split: if_splits)
qed (use assms in \<open>auto simp: finalized_def split: if_splits\<close>)

lemma end_ok_step:
  assumes ok: "end_ok c"
  shows "end_ok (cv_step clk e c)"
proof (cases "cv_at c = Handshake")
  case True
  then show ?thesis using ok end_ok_handshake [OF ok True]
    by (cases e) (auto simp: handler_yields_def handler_exhausted_def handler_raises_def stream_cancelled_def in_try_def end_ok_def)
next
  case False
  note at = cv_at_step [OF False, of clk e]
  show ?thesis
  proof (cases "cv_at (cv_step clk e c) = Draining \<and> cv_at c \<noteq> Draining")
    case True
    then obtain c' where c': "cv_step clk e c = teardown clk c'" "cv_session c' = cv_session c"
      using teardown_step False by blast
    have "in_try (cv_at c)" using at True by (auto simp: in_try_def)
    then have "state (s_fsm (cv_session c)) \<noteq> IDLE" "ends (cv_session c) = 0" 
      using ok in_try_teardown by (auto simp: end_ok_def, auto simp: in_try_def)
    then show ?thesis using session_close_ends [of "cv_session c"] by (simp add: end_ok_def c' teardown_def)
  next
    case live: False
    then have keep: "ends (cv_session (cv_step clk e c)) = ends (cv_session c)"
      using ending.P_step [OF refl False] by blast
    have conn: "state (s_fsm (cv_session c)) \<noteq> IDLE \<Longrightarrow> state (s_fsm (cv_session (cv_step clk e c))) \<noteq> IDLE"
      using connected.P_every_step [OF _ False] by blast
    show ?thesis
    proof (cases "cv_at c \<in> {Draining, Closed}")
      case True
      then have "s_fsm (cv_session (cv_step clk e c)) = s_fsm (cv_session c)"
        by (cases e) (auto simp: handler_yields_def handler_exhausted_def handler_raises_def stream_cancelled_def in_try_def
            bus_delivers_def Let_def split: list.split)
      then show ?thesis using ok keep conn at True by (auto simp: end_ok_def in_try_def)
    next
      case False
      then show ?thesis using ok keep conn at live by (auto simp: end_ok_def in_try_def)
    qed
  qed
qed

interpretation end_machine: event_machine cv_init "cv_step clk" end_ok
  for clk
  by unfold_locales (simp add: end_ok_def cv_init_def ends_def session_init_def, rule end_ok_step)

text \<open>
  C4. A session ends exactly once: while a stream is served its handler has not been told of an end, and
  when the stream is torn down, after whatever events, the handler has been told once, and the state
  machine is in its final state.
\<close>

theorem session_ends_once:
  "let c = fold (cv_step clk) es cv_init in
     if cv_at c \<in> {Draining, Closed} then ends (cv_session c) = 1 \<and> state (s_fsm (cv_session c)) = CLOSED
     else ends (cv_session c) = 0"
  using end_machine.inv_run [of clk es] by (simp add: end_ok_def Let_def)

text \<open>
  A session whose state machine reaches \<open>BARGE_IN\<close> never hears the caller again: no event of the
  stream leads back to \<open>LISTENING\<close>, and no later utterance or text is handed to the handler.
\<close>

theorem barge_in_is_deaf:
  assumes "state (s_fsm (cv_session c)) = BARGE_IN" and "cv_at c \<noteq> Handshake"
  shows "let d = fold (cv_step clk) es c in
           state (s_fsm (cv_session d)) \<in> {BARGE_IN, CLOSING, CLOSED} \<and> heard (cv_session d) = heard (cv_session c)"
proof -
  have "deaf (heard (cv_session c)) (cv_session c)" using assms(1) by (simp add: deaf_def)
  from barge_in.P_run [OF this assms(2)] show ?thesis by (simp add: deaf_def Let_def)
qed

text \<open>
  A failure during the greeting, of the handler or of the stream, skips the teardown: the handler
  is never told of the end of the session, whatever follows, and nothing more is sent.
\<close>

theorem greeting_failure_skips_teardown:
  assumes "cv_at c = Greet" and "ends (cv_session c) = 0" and "e = StreamCancelled \<or> e = Raises m"
  shows "let d = fold (cv_step clk) es (cv_step clk e c) in
           cv_at d = Dead \<and> ends (cv_session d) = 0 \<and> cv_sent d = cv_sent c"
proof -
  have "cv_at d = Dead \<and> ends (cv_session d) = 0 \<and> cv_sent d = cv_sent c \<Longrightarrow>
      cv_at (cv_step clk f d) = Dead \<and> ends (cv_session (cv_step clk f d)) = 0 \<and> cv_sent (cv_step clk f d) = cv_sent c" for d f
    by (cases f) (simp_all add: handler_yields_def handler_exhausted_def handler_raises_def stream_cancelled_def in_try_def)
  then have "cv_at d = Dead \<and> ends (cv_session d) = 0 \<and> cv_sent d = cv_sent c \<Longrightarrow>
      cv_at (fold (cv_step clk) es d) = Dead \<and> ends (cv_session (fold (cv_step clk) es d)) = 0 \<and>
      cv_sent (fold (cv_step clk) es d) = cv_sent c" for d
    by (induction es arbitrary: d) auto
  moreover have "cv_at (cv_step clk e c) = Dead \<and> ends (cv_session (cv_step clk e c)) = 0 \<and> cv_sent (cv_step clk e c) = cv_sent c"
    using assms by (auto simp: handler_raises_def stream_cancelled_def in_try_def goto_def)
  ultimately show ?thesis by (simp add: Let_def)
qed

subsection \<open>Transfers\<close>

text \<open>The transfer requests among the messages that a step has added.\<close>

definition requests :: "service_msg list \<Rightarrow> transfer_request list" where
  "requests ms = concat (map (\<lambda>m. case m of TransferRequestMsg tr \<Rightarrow> [tr] | _ \<Rightarrow> []) ms)"

lemma requests_simps [simp]:
  "requests [] = []" "requests (xs @ ys) = requests xs @ requests ys"
  "requests (m # ms) = (case m of TransferRequestMsg tr \<Rightarrow> [tr] | _ \<Rightarrow> []) @ requests ms"
  by (simp_all add: requests_def)

abbreviation requested :: "converse \<Rightarrow> transfer_request list" where
  "requested c \<equiv> requests (cv_sent c)"

lemma requested_frame [simp]:
  "requested (goto k c) = requested c" "requested (on_session f c) = requested c"
  "requested (send ms c) = requested c @ requests ms"
  by (simp_all add: goto_def on_session_def send_def)

lemma requested_chunk [simp]: "requested (send_chunk tr fin p c) = requested c"
  by (simp add: send_chunk_def)

lemma requested_chunks [simp]: "requested (fold (send_chunk tr fin) ps c) = requested c"
  by (induction ps arbitrary: c) auto

lemma requested_response_audio [simp]: "requested (send_response_audio tr ps c) = requested c"
  by (induction tr ps c rule: send_response_audio.induct) auto

lemma requested_audio [simp]:
  "requested (send_complete_audio tr ps c) = requested c" "requested (fst (stream_audio ps started c)) = requested c"
  "requested (send_node_changed r c) = requested c" "requested (send_stt tr r c) = requested c"
  "requested (publish_requested x c) = requested c"
  by (simp_all add: send_complete_audio_def stream_audio_def send_node_changed_def send_stt_def publish_requested_def split: option.split)

lemma requested_greet [simp]: "requested (fold greet_response rs c) = requested c"
  by (induction rs arbitrary: c) (auto simp: greet_response_def Let_def)

lemma requested_emit [simp]: "requested (fst (emit_response r c t)) = requested c"
  by (auto simp: emit_response_def Let_def case_prod_unfold split: option.split)

text \<open>A playback that allows a held request to go out.\<close>

definition releases :: "transfer_request \<Rightarrow> gateway_msg option \<Rightarrow> bool" where
  "releases tr x \<longleftrightarrow> (\<exists>i. x = Some (PlaybackFinishedMsg i) \<and> (i \<longrightarrow> tr_trigger tr = ''escalation_threshold''))"

lemma handle_playback_requests:
  "requested (handle_playback clk i c) = requested c \<and>
     (cv_pending_transfer (handle_playback clk i c) = None) \<or>
   (\<exists>tr. requested (handle_playback clk i c) = requested c @ [tr] \<and> cv_pending_transfer c = Some tr \<and>
      cv_pending_transfer (handle_playback clk i c) = None \<and>
      tr_destination tr \<noteq> [] \<and> releases tr (Some (PlaybackFinishedMsg i)))"
  by (cases "cv_pending_transfer c")
    (auto simp: handle_playback_def consume_pending_transfer_def Let_def on_session_def send_def releases_def)

lemma drain_requests:
  "drain clk q c t = (d, t') \<Longrightarrow>
     requested d = requested c \<or>
     (\<exists>tr. requested d = requested c @ [tr] \<and> cv_pending_transfer c = Some tr \<and> tr_destination tr \<noteq> [] \<and>
        (\<exists>x \<in> set q. releases tr x))"
proof (induction clk q c t rule: drain.induct)
  case (3 clk trace q c t)
  then show ?case by (fastforce simp: send_def on_session_def)
next
  case (4 clk i q c t)
  then have IH: "requested d = requested (handle_playback clk i c) \<or>
      (\<exists>tr. requested d = requested (handle_playback clk i c) @ [tr] \<and> cv_pending_transfer (handle_playback clk i c) = Some tr \<and>
         tr_destination tr \<noteq> [] \<and> (\<exists>x \<in> set q. releases tr x))" by simp
  then show ?case using handle_playback_requests [of clk i c] by (metis list.set_intros(1) option.distinct(1))
next
  case (5 clk p trace q c t)
  then show ?case by (cases "sp_cancelled t") (auto simp: on_session_def)
qed auto

lemma dispatch_requests:
  "requested (dispatch_transfer tr c) = requested c \<or>
   requested (dispatch_transfer tr c) = requested c @ [tr] \<and> tr_destination tr \<noteq> []"
  by (simp add: dispatch_transfer_def consume_pending_transfer_def)

lemma speech_finish_requests:
  "requested (speech_finish t c) = requested c \<or>
   (\<exists>tr. requested (speech_finish t c) = requested c @ [tr] \<and> tr_destination tr \<noteq> [] \<and> sp_turn_transfer t = Some tr \<and>
      \<not> sp_tts_started_sent t \<and> \<not> sp_cancelled t)"
proof (cases "sp_cancelled t")
  case False
  define c1 where "c1 = (if sp_stt_sent t then c else send [SttResultMsg [] 0 []] c)"
  define c2 where "c2 = (if sp_tts_started_sent t then send_chunk [] True [] c1 else c1)"
  define c3 where "c3 = (case sp_end_call t of
      Some grace \<Rightarrow> if sp_tts_started_sent t then send [EndCall ''agent_ended_call'' grace] c2 else c2 | None \<Rightarrow> c2)"
  have c3: "requested c3 = requested c" by (simp add: c3_def c2_def c1_def split: option.split)
  have "speech_finish t c = (case sp_turn_transfer t of None \<Rightarrow> c3
      | Some tr \<Rightarrow> if sp_tts_started_sent t then c3\<lparr>cv_pending_transfer := Some tr\<rparr> else dispatch_transfer tr c3)"
    unfolding speech_finish_def Let_def c1_def c2_def c3_def by (simp only: False if_False)
  then show ?thesis using c3 False dispatch_requests [of _ c3] by (auto split: option.split)
qed (simp add: speech_finish_def)

text \<open>
  C26. A transfer request goes out only when its announcement has been heard: whatever state the stream
  is in, a step that sends a request to the gateway sends exactly one, with a destination, and it is
  either a held one released by the end of playback, not cut off by the caller unless it is an
  escalation, or one of a turn that said nothing, or one of a text chat.
\<close>

theorem transfer_held_until_played:
  assumes "requested (cv_step clk e c) \<noteq> requested c"
  shows "\<exists>tr. requested (cv_step clk e c) = requested c @ [tr] \<and> tr_destination tr \<noteq> [] \<and>
    ((cv_pending_transfer c = Some tr \<and> (\<exists>x \<in> set (cv_queue c). releases tr x)) \<or>
     (e = Exhausted \<and> (\<exists>t. cv_at c = InSpeech t \<and> sp_turn_transfer t = Some tr \<and> \<not> sp_tts_started_sent t \<and> \<not> sp_cancelled t)) \<or>
     (\<exists>r trace en. e = Yields r \<and> cv_at c = InText trace en \<and> hr_transfer_request r = Some tr))"
proof (cases e)
  case NextMessage
  show ?thesis
  proof (cases "\<exists>i q. cv_at c = Loop \<and> cv_queue c = Some (PlaybackFinishedMsg i) # q")
    case True
    then obtain i q where q: "cv_at c = Loop" "cv_queue c = Some (PlaybackFinishedMsg i) # q" by blast
    then have "cv_step clk e c = handle_playback clk i (c\<lparr>cv_queue := q\<rparr>)"
      using NextMessage by (simp add: next_message_def handle_msg_def)
    then show ?thesis using assms q handle_playback_requests [of clk i "c\<lparr>cv_queue := q\<rparr>"] by auto
  next
    case False
    have "requested (speech_finish speech_turn_init d) = requested d" for d
      by (simp add: speech_finish_def speech_turn_init_def)
    then have "requested (handle_msg clk m (c\<lparr>cv_queue := q\<rparr>)) = requested c" if "cv_queue c = Some m # q" "cv_at c = Loop" for m q
      using False that by (cases m) (simp_all add: handle_msg_def case_prod_unfold Let_def split: option.split)
    then show ?thesis using assms NextMessage
      by (auto simp: next_message_def teardown_def split: if_splits list.splits option.splits)
  qed
next
  case (Yields r)
  show ?thesis
  proof (cases "cv_at c")
    case (InSpeech t)
    let ?sr = "speech_response clk r (sp_first_tts t) (cv_session c)"
    obtain d t' where dr: "drain clk (cv_queue c) (c\<lparr>cv_session := fst ?sr\<rparr>) (t\<lparr>sp_first_tts := snd ?sr\<rparr>) = (d, t')" by fastforce
    have "requested (speech_yield clk r t c) = requested d"
      using dr by (simp add: speech_yield_def case_prod_unfold Let_def)
    then show ?thesis using assms Yields InSpeech drain_requests [OF dr] by (auto simp: handler_yields_def)
  next
    case (InText trace en)
    let ?d = "send_stt trace r (send_node_changed r (on_session (note_stt clk r) c))"
    define c2 where "c2 = (if hr_agent_text r \<noteq> [] then send [AgentText trace (hr_agent_text r)] ?d
        else if hr_turn_complete r then send [AgentText trace []] ?d else ?d)"
    have c2: "requested c2 = requested c" by (simp add: c2_def)
    have step: "requested (cv_step clk e c) =
        (case hr_transfer_request r of Some tr \<Rightarrow> requested (dispatch_transfer tr (publish_requested tr c2)) | None \<Rightarrow> requested c2)"
      using Yields InText by (simp add: handler_yields_def text_yield_def Let_def c2_def split: option.split)
    show ?thesis
    proof (cases "hr_transfer_request r")
      case None
      then show ?thesis using assms step c2 by simp
    next
      case (Some tr)
      then show ?thesis using assms step c2 dispatch_requests [of tr "publish_requested tr c2"] Yields InText by auto
    qed
  qed (use assms Yields in \<open>auto simp: handler_yields_def failed_yield_def case_prod_unfold Let_def\<close>)
next
  case Exhausted
  show ?thesis
  proof (cases "cv_at c")
    case (InSpeech t)
    then show ?thesis using assms Exhausted speech_finish_requests [of t "on_session (turn_finish clk) c"]
      by (auto simp: handler_exhausted_def)
  qed (use assms Exhausted in \<open>auto simp: handler_exhausted_def text_finish_def failed_finish_def Let_def split: option.splits if_splits\<close>)
qed (use assms in \<open>auto simp: handshake_def Let_def audio_answer_def finalized_def handler_raises_def stream_cancelled_def
    teardown_def bus_delivers_def split: if_splits option.splits gateway_msg.splits control.splits\<close>)

text \<open>
  A transfer that the handler hands over in a turn which the caller cuts off vanishes: with a
  cancellation in the queue when the response arrives, nothing is sent but the acknowledgement, nothing
  is held, and the handler is told of the cancellation of the turn but not of the transfer's.
\<close>

lemma cancelled_turn_loses_transfer:
  assumes "cv_at c = InSpeech t" and "cv_queue c = [Some (CancelGeneration trace)]" and "cv_pending_transfer c = None"
    and "hr_transfer_request r = Some tr"
  shows "let d = cv_step clk Exhausted (cv_step clk (Yields r) c) in
           cv_at d = Loop \<and> cv_pending_transfer d = None \<and> cv_sent d = cv_sent c @ [CancelAck trace] \<and>
           s_handler_calls (cv_session d) = s_handler_calls (cv_session c) @ [OnCancel]"
proof -
  have resp: "s_handler_calls (fst (speech_response clk r f s)) = s_handler_calls s" for f s
    by (simp add: speech_response_def note_stt_def at_clock_def Let_def)
  let ?s = "cancel clk (fst (speech_response clk r (sp_first_tts t) (cv_session c)))"
  obtain t' where y: "cv_step clk (Yields r) c =
      (send [CancelAck trace] (c\<lparr>cv_session := ?s\<rparr>))\<lparr>cv_queue := [], cv_at := InSpeech t'\<rparr>" "sp_cancelled t'"
    using assms by (auto simp: handler_yields_def speech_yield_def case_prod_unfold Let_def emit_response_def goto_def
        on_session_def send_def)
  have "cv_step clk Exhausted (cv_step clk (Yields r) c) =
      goto Loop (on_session (turn_finish clk) (cv_step clk (Yields r) c))"
    using y by (simp add: handler_exhausted_def speech_finish_def)
  moreover have "s_handler_calls (turn_finish clk ?s) = s_handler_calls (cv_session c) @ [OnCancel]"
    by (simp add: turn_finish_def cancel_fsm_def cancel_def resp)
  ultimately show ?thesis using assms(3) y(1) by (simp add: Let_def goto_def on_session_def send_def)
qed

text \<open>
  A transfer outcome that arrives during a turn, right before the stream ends, is lost: the drain
  puts it back behind the end marker, and the loop leaves at the marker. The session is closed with
  the outcome it had before, and the message is never handled.
\<close>

theorem transfer_outcome_lost:
  assumes "cv_at c = InSpeech t" and "cv_queue c = [Some (TransferCompletedMsg d i), None]"
  shows "let c' = cv_step clk NextMessage (cv_step clk Exhausted (cv_step clk (Yields r) c));
             out = s_transfer_outcome (cv_session c)
         in cv_at c' = Draining \<and> cv_queue c' = [Some (TransferCompletedMsg d i)] \<and>
            last (s_handler_calls (cv_session c')) = OnSessionEnd (effective_reason out ''stream_ended'') out"
proof -
  have out: "s_transfer_outcome (drive f s) = s_transfer_outcome s" for f s by (simp add: drive_def Let_def)
  have resp: "s_transfer_outcome (fst (speech_response clk r f s)) = s_transfer_outcome s" for f s
    by (simp add: speech_response_def note_stt_def at_clock_def Let_def out)
  let ?s = "fst (speech_response clk r (sp_first_tts t) (cv_session c))"
  obtain c1 t1 where y: "cv_step clk (Yields r) c = goto (InSpeech t1) c1"
    "cv_queue c1 = [None, Some (TransferCompletedMsg d i)]" "s_transfer_outcome (cv_session c1) = s_transfer_outcome (cv_session c)"
  proof -
    let ?c = "c\<lparr>cv_session := ?s, cv_queue := [None, Some (TransferCompletedMsg d i)]\<rparr>"
    let ?t = "t\<lparr>sp_first_tts := snd (speech_response clk r (sp_first_tts t) (cv_session c))\<rparr>"
    have st: "cv_step clk (Yields r) c = goto (InSpeech (snd (emit_response r ?c ?t))) (fst (emit_response r ?c ?t))"
      using assms by (simp add: handler_yields_def speech_yield_def case_prod_unfold Let_def)
    have q: "cv_queue (fold (send_chunk tr fin) ps e) = cv_queue e" for tr fin ps and e :: converse
      by (induction ps arbitrary: e) (auto simp: send_chunk_def send_def)
    have "cv_queue (fst (emit_response r ?c ?t)) = [None, Some (TransferCompletedMsg d i)]"
      by (auto simp: emit_response_def Let_def case_prod_unfold stream_audio_def q send_def send_stt_def send_node_changed_def
          publish_requested_def on_session_def split: option.split)
    moreover have "s_transfer_outcome (cv_session (fst (emit_response r ?c ?t))) = s_transfer_outcome (cv_session c)"
      using emit_response_session [of r ?c ?t "fst (emit_response r ?c ?t)" "snd (emit_response r ?c ?t)"]
      by (auto simp: resp publish_requested_def publish_event_def)
    ultimately show thesis using that st by blast
  qed
  have fin: "cv_queue (speech_finish t1 e) = cv_queue e \<and> cv_session (speech_finish t1 e) = cv_session e" for e
    by (auto simp: speech_finish_def Let_def send_chunk_def send_def dispatch_transfer_def split: option.split)
  have x: "cv_step clk Exhausted (goto (InSpeech t1) c1) = goto Loop (speech_finish t1 (on_session (turn_finish clk) (goto (InSpeech t1) c1)))"
    by (simp add: handler_exhausted_def)
  show ?thesis unfolding y(1) x using y(2,3) fin
    by (simp add: Let_def next_message_def teardown_def goto_def on_session_def session_close_def at_clock_def
        turn_finish_def cancel_fsm_def out)
qed

section \<open>A concrete call\<close>

definition demo_open :: "bool \<Rightarrow> cv_event list" where
  "demo_open text_only =
     [FirstMessage 0 (Some (SessionOpen \<lparr>or_protocol_version = ''1.0'', or_ctx = no_ctx\<lparr>cx_text_only := text_only\<rparr>\<rparr>))]"

definition demo_transfer :: transfer_request where
  "demo_transfer = \<lparr>tr_session_id = [], tr_tenant_id = [], tr_call_id = [], tr_transfer_type = COLD,
     tr_destination = ''100'', tr_reason = [], tr_trigger = ''llm_directive'', tr_transfer_id = ''t'',
     tr_caller_id = [], tr_waiting_experience = []\<rparr>"

definition run :: "cv_event list \<Rightarrow> converse" where
  "run es = fold (cv_step (\<lambda>_. 0)) es cv_init"

definition demo_failed_transfer :: "cv_event list" where
  "demo_failed_transfer = demo_open False @
     [GreetingReady [] [] [], Received (TransferInitiatedMsg ''cold'' ''100'' [] ''t''), NextMessage,
      Received (TransferFailedMsg ''100'' ''busy'' ''t''), NextMessage,
      Yields (empty_response\<lparr>hr_tts_payloads := [[1]]\<rparr>), Exhausted]"

definition demo_turn :: "cv_event list" where
  "demo_turn = demo_open False @ [GreetingReady [] [] [], Received (SpeechEndedMsg 500 0), NextMessage]"

lemmas run_simps = run_def demo_open_def demo_transfer_def demo_failed_transfer_def demo_turn_def cv_init_def no_ctx_def
  handshake_def session_init_def session_ready_def bus_init_def fsm_init_def session_handlers_def Let_def
  send_def goto_def on_session_def at_clock_def drive_def fsm_simps transition_def call_if_def publish_callback_def event_of_callback_def
  publish_def queue_full_def subscribe_def subscribers_of_def od_get_def bus_start_def greet_def greet_response_def next_message_def
  handle_msg_def is_active_def call_handler_def count_metric_def publish_event_def empty_response_def

theorem barge_in_is_deaf_witness:
  "let c = run (demo_failed_transfer @ [Received (PlaybackFinishedMsg True), NextMessage]);
       d = fold (cv_step (\<lambda>_. 0)) [Received (SpeechEndedMsg 500 0), NextMessage] c
   in cv_at c = Loop \<and> state (s_fsm (cv_session c)) = BARGE_IN \<and>
      state (s_fsm (cv_session d)) \<in> {BARGE_IN, CLOSING, CLOSED} \<and> heard (cv_session d) = heard (cv_session c)"
proof -
  let ?c = "run (demo_failed_transfer @ [Received (PlaybackFinishedMsg True), NextMessage])"
  have c: "cv_at ?c = Loop" "state (s_fsm (cv_session ?c)) = BARGE_IN" by code_simp+
  then show ?thesis
    using barge_in_is_deaf [of ?c "\<lambda>_. 0" "[Received (SpeechEndedMsg 500 0), NextMessage]"] by (simp only: Let_def) simp
qed

theorem greeting_failure_skips_teardown_witness:
  "let d = fold (cv_step (\<lambda>_. 0)) [ReaderEnds, NextMessage] (cv_step (\<lambda>_. 0) StreamCancelled (run (demo_open False))) in
     cv_at d = Dead \<and> ends (cv_session d) = 0 \<and> cv_sent d = cv_sent (run (demo_open False))"
proof -
  have "cv_at (run (demo_open False)) = Greet" "ends (cv_session (run (demo_open False))) = 0" by code_simp+
  then show ?thesis by (rule greeting_failure_skips_teardown) simp
qed

theorem transfer_held_until_played_witness:
  "let c = run (demo_turn @ [Yields (empty_response\<lparr>hr_transfer_request := Some demo_transfer\<rparr>)]) in
     \<exists>tr. requested (cv_step (\<lambda>_. 0) Exhausted c) = requested c @ [tr] \<and> tr_destination tr \<noteq> []"
proof -
  have "requested (cv_step (\<lambda>_. 0) Exhausted (run (demo_turn @ [Yields (empty_response\<lparr>hr_transfer_request := Some demo_transfer\<rparr>)])))
     \<noteq> requested (run (demo_turn @ [Yields (empty_response\<lparr>hr_transfer_request := Some demo_transfer\<rparr>)]))"
    by code_simp
  from transfer_held_until_played [OF this] show ?thesis unfolding Let_def by blast
qed

theorem transfer_outcome_lost_witness:
  "let c' = cv_step (\<lambda>_. 0) NextMessage (cv_step (\<lambda>_. 0) Exhausted (cv_step (\<lambda>_. 0) (Yields empty_response)
              (run (demo_turn @ [Received (TransferCompletedMsg ''100'' ''t''), ReaderEnds]))))
   in cv_at c' = Draining \<and> cv_queue c' = [Some (TransferCompletedMsg ''100'' ''t'')] \<and>
      last (s_handler_calls (cv_session c')) = OnSessionEnd ''stream_ended'' None"
proof -
  let ?c = "run (demo_turn @ [Received (TransferCompletedMsg ''100'' ''t''), ReaderEnds])"
  have "cv_at ?c = InSpeech speech_turn_init" "cv_queue ?c = [Some (TransferCompletedMsg ''100'' ''t''), None]"
    "s_transfer_outcome (cv_session ?c) = None"
    by code_simp+
  then show ?thesis using transfer_outcome_lost [of ?c speech_turn_init "''100''" "''t''" "\<lambda>_. 0" empty_response]
    by (simp add: Let_def effective_reason_def)
qed

end
