(* ===== verification/Speech_Text.thy ===== *)
theory Speech_Text
  imports Directives Latency_Store Session
begin

text \<open>
  From the tokens of the language model to speech (\<^verbatim>\<open>services/conversation/pipeline.py\<close>): the split into
  sentences, \<^verbatim>\<open>_llm_to_tts\<close> with directives, bridging lines and fillers, and the checks of the text on
  both sides, spoken digits, the readback of a phone number, claimed bookings.

  The synthesis is a parameter: the chunks a text yields before the provider ends or fails. An item of
  the token stream carries what the code reads while it handles the item: whether the turn has been
  cancelled, the clock, the calibrated latency, the random choice of a filler, and after how many
  chunks a barge-in cuts a filler off. \<open>tt_spoken\<close> records the texts handed to the synthesis.
\<close>

section \<open>Sentences\<close>

text \<open>\<^verbatim>\<open>_SENTENCE_RE\<close>: the lookbehinds see the text before a position, here reversed.\<close>

definition abbreviations :: "string list" where
  "abbreviations = [''Mr.'', ''Ms.'', ''Dr.'', ''Sr.'', ''Jr.'', ''St.'', ''Mt.'', ''vs.'']"

definition period_ends :: "string \<Rightarrow> bool" where
  "period_ends pre \<longleftrightarrow>
     starts_with ''.'' pre \<and> \<not> list_ex (\<lambda>a. starts_with (rev a) pre) abbreviations \<and>
     \<not> (case pre of _ # c # _ \<Rightarrow> ascii_upper c | _ \<Rightarrow> False)"

definition mark_ends :: "string \<Rightarrow> bool" where
  "mark_ends pre = (case pre of c # _ \<Rightarrow> c \<in> {CHR ''!'', CHR ''?''} | [] \<Rightarrow> False)"

definition any_ends :: "string \<Rightarrow> bool" where
  "any_ends pre = (case pre of c # _ \<Rightarrow> c \<in> {CHR ''.'', CHR ''!'', CHR ''?''} | [] \<Rightarrow> False)"

text \<open>\<^verbatim>\<open>_SENTENCE_RE.split(s, maxsplit=1)\<close>: the two parts around the first match, if there is one.\<close>

fun split_first :: "string \<Rightarrow> string \<Rightarrow> (string \<times> string) option" where
  "split_first pre [] = (if any_ends pre then Some (rev pre, []) else None)"
| "split_first pre (c # s) =
     (if py_space c \<and> (mark_ends pre \<or> period_ends pre) then Some (rev pre, dropWhile py_space (c # s))
      else if any_ends pre \<and> c = CHR 0x0A \<and> s = [] then Some (rev pre, c # s)
      else split_first (c # pre) s)"

lemma split_first_decomp:
  "split_first pre s = Some (a, b) \<Longrightarrow> \<exists>ws. rev pre @ s = a @ ws @ b \<and> (\<forall>c \<in> set ws. py_space c) \<and> a \<noteq> []"
proof (induction pre s rule: split_first.induct)
  case (1 pre)
  then show ?case by (auto simp: any_ends_def split: if_splits list.splits)
next
  case (2 pre c s)
  have ne: "mark_ends pre \<or> period_ends pre \<or> any_ends pre \<Longrightarrow> pre \<noteq> []"
    by (auto simp: mark_ends_def period_ends_def any_ends_def)
  show ?case
  proof (cases "py_space c \<and> (mark_ends pre \<or> period_ends pre)")
    case True
    have "c # s = takeWhile py_space (c # s) @ dropWhile py_space (c # s)" by simp
    moreover have "\<forall>d \<in> set (takeWhile py_space (c # s)). py_space d" by (metis set_takeWhileD)
    moreover have "a = rev pre" "b = dropWhile py_space (c # s)" using "2.prems" True by auto
    ultimately show ?thesis using ne True by (metis rev_is_Nil_conv)
  next
    case False
    then show ?thesis using 2 ne by (cases "any_ends pre \<and> c = CHR 0x0A \<and> s = []") (auto split: if_splits)
  qed
qed

lemma split_first_shorter: "split_first [] s = Some (a, b) \<Longrightarrow> length b < length s"
  using split_first_decomp [of "[]" s a b] by fastforce

text \<open>The loop over complete sentences: what is spoken, and what stays in the buffer.\<close>

function sentences :: "string \<Rightarrow> string list \<times> string" where
  "sentences s =
     (case split_first [] s of
        None \<Rightarrow> ([], s)
      | Some (a, b) \<Rightarrow>
          (case sentences b of
             (spoken, rest) \<Rightarrow> ((if py_strip a \<noteq> [] then [py_strip a] else []) @ spoken, rest)))"
  by auto
termination by (relation "measure length") (auto dest: split_first_shorter)

declare sentences.simps [simp del]

section \<open>The token stream\<close>

datatype stream_item =
    Token string
  | Bridge "string option"
  | ToolStarted string rat "rat option" "nat \<Rightarrow> nat" "nat option"

record tts_state =
  tt_pending :: string
  tt_text :: string
  tt_directives :: "directive list"
  tt_end_call :: bool
  tt_last_phrase :: "string option"
  tt_last_spoken :: "rat option"
  tt_out :: "(string \<times> bytes \<times> bool) list"
  tt_spoken :: "string list"

definition tts_init :: "string option \<Rightarrow> rat option \<Rightarrow> tts_state" where
  "tts_init last_phrase last_spoken =
     \<lparr>tt_pending = [], tt_text = [], tt_directives = [], tt_end_call = False, tt_last_phrase = last_phrase,
      tt_last_spoken = last_spoken, tt_out = [], tt_spoken = []\<rparr>"

text \<open>\<^verbatim>\<open>_synthesize_sentence_stream\<close>.\<close>

definition synthesize :: "(string \<Rightarrow> bytes list) \<Rightarrow> bool \<Rightarrow> string \<Rightarrow> bytes list" where
  "synthesize synth text_only content = (if text_only then [] else synth (strip_markdown_chars content))"

definition emit :: "(string \<times> bytes \<times> bool) list \<Rightarrow> tts_state \<Rightarrow> tts_state" where
  "emit ys st = st\<lparr>tt_out := tt_out st @ ys\<rparr>"

definition say :: "(string \<Rightarrow> bytes list) \<Rightarrow> bool \<Rightarrow> string \<Rightarrow> tts_state \<Rightarrow> tts_state" where
  "say synth text_only content st =
     emit (map (\<lambda>ch. ([], ch, tt_end_call st)) (synthesize synth text_only content))
       (st\<lparr>tt_spoken := tt_spoken st @ [content]\<rparr>)"

text \<open>A line whose text goes into the transcript with its first chunk.\<close>

definition labelled :: "string \<Rightarrow> bytes list \<Rightarrow> bool \<Rightarrow> (string \<times> bytes \<times> bool) list" where
  "labelled content chunks flag =
     (case chunks of [] \<Rightarrow> [] | ch # rest \<Rightarrow> (content, ch, flag) # map (\<lambda>x. ([], x, flag)) rest)"

definition TOOL_CALL_FILLER_MIN_GAP_S :: rat where
  "TOOL_CALL_FILLER_MIN_GAP_S = 4"

definition has_end_call :: "directive list \<Rightarrow> bool" where
  "has_end_call ds = list_ex (\<lambda>d. d = EndCallDirective) ds"

definition on_token :: "(string \<Rightarrow> bytes list) \<Rightarrow> bool \<Rightarrow> string \<Rightarrow> tts_state \<Rightarrow> tts_state" where
  "on_token synth text_only token st =
     (let (safe, pending) = feed (tt_pending st) token;
          res = parse safe;
          ds = tt_directives st @ directives res;
          st1 = emit [(token, [], has_end_call ds)]
                  (st\<lparr>tt_pending := pending, tt_directives := ds, tt_end_call := has_end_call ds\<rparr>);
          (spoken, rest) = sentences (tt_text st @ clean_text res)
      in (fold (say synth text_only) spoken st1)\<lparr>tt_text := rest\<rparr>)"

definition on_bridge :: "(string \<Rightarrow> bytes list) \<Rightarrow> bool \<Rightarrow> string option \<Rightarrow> tts_state \<Rightarrow> tts_state" where
  "on_bridge synth text_only speech st =
     (case speech of
        None \<Rightarrow> st
      | Some content \<Rightarrow>
          if content = [] then st
          else if text_only then emit [(content, [], tt_end_call st)] st
          else emit (labelled content (synthesize synth False content) (tt_end_call st))
                 (st\<lparr>tt_spoken := tt_spoken st @ [content]\<rparr>))"

definition on_tool_started ::
  "(string \<Rightarrow> bytes list) \<Rightarrow> bool \<Rightarrow> rat \<Rightarrow> rat option \<Rightarrow> (nat \<Rightarrow> nat) \<Rightarrow> nat option \<Rightarrow> tts_state \<Rightarrow> tts_state"
where
  "on_tool_started synth text_only now average pick stop st =
     (if (case tt_last_spoken st of None \<Rightarrow> True | Some t \<Rightarrow> now - t \<ge> TOOL_CALL_FILLER_MIN_GAP_S)
      then
        let st1 = st\<lparr>tt_last_spoken := Some now\<rparr>
        in if text_only then st1
           else
             let phrase = select_tool_filler pick (tt_last_phrase st) average;
                 chunks = synthesize synth False phrase;
                 heard = (case stop of Some n \<Rightarrow> take n chunks | None \<Rightarrow> chunks)
             in emit (map (\<lambda>ch. ([], ch, tt_end_call st)) heard)
                  (st1\<lparr>tt_last_phrase := Some phrase, tt_spoken := tt_spoken st @ [phrase]\<rparr>)
      else st)"

definition on_item :: "(string \<Rightarrow> bytes list) \<Rightarrow> bool \<Rightarrow> stream_item \<Rightarrow> tts_state \<Rightarrow> tts_state" where
  "on_item synth text_only it st =
     (case it of
        Token token \<Rightarrow> on_token synth text_only token st
      | Bridge speech \<Rightarrow> on_bridge synth text_only speech st
      | ToolStarted tool now average pick stop \<Rightarrow> on_tool_started synth text_only now average pick stop st)"

definition FALLBACK_LLM_ERROR :: string where
  "FALLBACK_LLM_ERROR = ''Sorry, I'm having a little trouble right now. Could you say that again?''"

text \<open>
  The loop stops at the first item that arrives after a cancellation. \<open>failed\<close>: the stream raised
  after its items; \<open>cancelled\<close>: the turn is cancelled at its end.
\<close>

definition llm_to_tts ::
  "(string \<Rightarrow> bytes list) \<Rightarrow> bool \<Rightarrow> (stream_item \<times> bool) list \<Rightarrow> bool \<Rightarrow> bool \<Rightarrow> tts_state \<Rightarrow> tts_state"
where
  "llm_to_tts synth text_only items failed cancelled st =
     (let live = map fst (takeWhile (\<lambda>(it, stop). \<not> stop) items);
          st1 = fold (on_item synth text_only) live st;
          st2 = (if failed \<and> list_all (\<lambda>(it, stop). \<not> stop) items \<and> \<not> cancelled
                 then (if text_only then emit [(FALLBACK_LLM_ERROR, [], False)] st1
                       else emit (labelled FALLBACK_LLM_ERROR (synthesize synth False FALLBACK_LLM_ERROR) False)
                              (st1\<lparr>tt_spoken := tt_spoken st1 @ [FALLBACK_LLM_ERROR]\<rparr>))
                 else st1);
          rest = tt_text st2 @ fst (flush (tt_pending st2));
          st3 = st2\<lparr>tt_text := rest, tt_pending := [], tt_end_call := has_end_call (tt_directives st2)\<rparr>
      in if py_strip rest \<noteq> [] \<and> \<not> cancelled then say synth text_only (py_strip rest) st3 else st3)"

text \<open>The joined tokens of a turn, the flag of its last yield, and whether there was audio.\<close>

definition full_response :: "tts_state \<Rightarrow> string" where
  "full_response st = concat (map fst (tt_out st))"

definition marker_seen :: "tts_state \<Rightarrow> bool" where
  "marker_seen st = (if tt_out st = [] then False else snd (snd (last (tt_out st))))"

definition turn_audio :: "tts_state \<Rightarrow> bytes list" where
  "turn_audio st = filter (\<lambda>a. a \<noteq> []) (map (fst \<circ> snd) (tt_out st))"

section \<open>Words and digits\<close>

text \<open>\<^verbatim>\<open>\w\<close> on Latin-1: letters, digits and number signs, the underscore.\<close>

definition ascii_alpha :: "char \<Rightarrow> bool" where
  "ascii_alpha c \<longleftrightarrow> ascii_upper c \<or> ascii_lower c"

definition word_char :: "char \<Rightarrow> bool" where
  "word_char c \<longleftrightarrow>
     (let n = (of_char c :: nat) in
        ascii_alpha c \<or> ascii_digit c \<or> c = CHR ''_'' \<or> n \<in> {170, 178, 179, 181, 185, 186, 188, 189, 190} \<or>
        (192 \<le> n \<and> n \<le> 255 \<and> n \<noteq> 215 \<and> n \<noteq> 247))"

text \<open>\<^verbatim>\<open>\b(w1|w2|...)\b\<close> with \<^verbatim>\<open>IGNORECASE\<close>: the words are lower case, the text before is a character.\<close>

fun search_words :: "string list \<Rightarrow> bool \<Rightarrow> string \<Rightarrow> bool" where
  "search_words ws after_word [] = False"
| "search_words ws after_word (c # s) =
     ((\<not> after_word \<and> list_ex (\<lambda>w. starts_with w (py_lower (c # s)) \<and>
          (case drop (length w) (c # s) of d # _ \<Rightarrow> \<not> word_char d | [] \<Rightarrow> True)) ws) \<or>
      search_words ws (word_char c) s)"

definition claims_booking_without_tool_call :: "string \<Rightarrow> bool" where
  "claims_booking_without_tool_call content \<longleftrightarrow>
     search_words [''booked'', ''rebooked'', ''confirmed'', ''scheduled'', ''rescheduled'', ''all set''] False content \<and>
     search_words [''appointment'', ''demo'', ''booking'', ''meeting'', ''slot''] False content"

text \<open>\<^verbatim>\<open>re.findall(r"[A-Za-z]+|\d+", text)\<close>: maximal runs of one kind, everything else skipped.\<close>

fun word_runs :: "string \<Rightarrow> string \<Rightarrow> string list" where
  "word_runs acc [] = (if acc = [] then [] else [rev acc])"
| "word_runs acc (c # s) =
     (if ascii_alpha c then
        (if acc \<noteq> [] \<and> \<not> ascii_alpha (hd acc) then rev acc # word_runs [c] s else word_runs (c # acc) s)
      else if ascii_digit c then
        (if acc \<noteq> [] \<and> \<not> ascii_digit (hd acc) then rev acc # word_runs [c] s else word_runs (c # acc) s)
      else (if acc = [] then word_runs [] s else rev acc # word_runs [] s))"

definition DIGIT_WORDS :: "(string \<times> string) list" where
  "DIGIT_WORDS = [(''zero'', ''0''), (''one'', ''1''), (''two'', ''2''), (''three'', ''3''), (''four'', ''4''),
     (''five'', ''5''), (''six'', ''6''), (''seven'', ''7''), (''eight'', ''8''), (''nine'', ''9'')]"

definition extract_spoken_digits :: "string \<Rightarrow> string" where
  "extract_spoken_digits content =
     concat (map (\<lambda>w. if list_all ascii_digit w then w
                      else case map_of DIGIT_WORDS (py_lower w) of Some d \<Rightarrow> d | None \<Rightarrow> [])
       (word_runs [] content))"

definition message_reads_back_phone_number :: "string \<Rightarrow> string \<Rightarrow> bool" where
  "message_reads_back_phone_number content caller_number \<longleftrightarrow>
     (let target = filter ascii_digit caller_number
      in 7 \<le> length target \<and> py_in (drop (length target - 7) target) (extract_spoken_digits content))"

text \<open>\<^verbatim>\<open>_AFFIRMATIVE_RE\<close>: an affirmative at the start, ending at a word boundary.\<close>

definition affirmatives :: "string list" where
  "affirmatives = [''yes'', ''yeah'', ''yep'', ''yup'', ''sure'', ''correct'', ''right'', ''ok'', ''okay''] @
     concat (map (\<lambda>r. [''thats '' @ r, ''that's '' @ r]) [''right'', ''correct''])"

definition squeeze_that :: "string \<Rightarrow> string list" where
  "squeeze_that s =
     (let stop = (\<lambda>p. if starts_with p s \<and> (case drop (length p) s of c # _ \<Rightarrow> py_space c | [] \<Rightarrow> False)
                     then [p @ '' '' @ dropWhile py_space (drop (length p) s)] else [])
      in s # stop ''thats'' @ stop ''that's'')"

definition is_affirmative :: "string \<Rightarrow> bool" where
  "is_affirmative content \<longleftrightarrow>
     list_ex (\<lambda>s. list_ex (\<lambda>w. starts_with w s \<and> (case drop (length w) s of d # _ \<Rightarrow> \<not> word_char d | [] \<Rightarrow> True)) affirmatives)
       (squeeze_that (py_lower (py_lstrip content)))"

text \<open>The readback by the assistant, followed by an affirmative of the caller.\<close>

definition caller_just_confirmed_phone_number :: "(string \<times> string) list \<Rightarrow> string \<Rightarrow> bool" where
  "caller_just_confirmed_phone_number history caller_number \<longleftrightarrow>
     (case rev history of
        (_, caller) # (role, assistant) # _ \<Rightarrow>
          role = ''assistant'' \<and> is_affirmative caller \<and> message_reads_back_phone_number assistant caller_number
      | _ \<Rightarrow> False)"

text \<open>\<^verbatim>\<open>datetime.fromisoformat\<close> is a parameter: day and hour of a valid text.\<close>

definition hour12 :: "nat \<Rightarrow> nat" where
  "hour12 h = (if h mod 12 = 0 then 12 else h mod 12)"

fun digit_runs :: "string \<Rightarrow> string \<Rightarrow> string list" where
  "digit_runs acc [] = (if acc = [] then [] else [rev acc])"
| "digit_runs acc (c # s) =
     (if ascii_digit c then digit_runs (c # acc) s
      else (if acc = [] then digit_runs [] s else rev acc # digit_runs [] s))"

definition claim_matches_confirmed_slot :: "(string \<Rightarrow> (nat \<times> nat) option) \<Rightarrow> string \<Rightarrow> string \<Rightarrow> bool" where
  "claim_matches_confirmed_slot fromiso assistant_text confirmed =
     (case fromiso confirmed of
        None \<Rightarrow> False
      | Some (day, hour) \<Rightarrow>
          (let runs = digit_runs [] assistant_text
           in nat_digits day \<in> set runs \<and> (nat_digits (hour12 hour) \<in> set runs \<or> nat_digits hour \<in> set runs)))"

section \<open>Lemmas\<close>

text \<open>A text without its white space: what is heard.\<close>

definition squash :: "string \<Rightarrow> string" where
  "squash s = filter (\<lambda>c. \<not> py_space c) s"

lemma squash_simps [simp]: "squash [] = []" "squash (a @ b) = squash a @ squash b"
  by (simp_all add: squash_def)

lemma squash_space: "\<forall>c \<in> set ws. py_space c \<Longrightarrow> squash ws = []"
  by (simp add: squash_def)

lemma squash_dropWhile [simp]: "squash (dropWhile py_space s) = squash s"
  by (induction s) (auto simp: squash_def)

lemma squash_rev: "squash (rev s) = rev (squash s)"
  by (simp add: squash_def rev_filter)

lemma squash_strip [simp]: "squash (py_strip s) = squash s"
  by (simp add: py_strip_def py_rstrip_def py_lstrip_def squash_rev)

lemma squash_strip_Nil: "py_strip s = [] \<Longrightarrow> squash s = []"
  using squash_strip [of s] by simp

lemma sentences_squash: "sentences s = (spoken, rest) \<Longrightarrow> squash (concat spoken) @ squash rest = squash s"
proof (induction s arbitrary: spoken rest rule: sentences.induct)
  case (1 s)
  show ?case
  proof (cases "split_first [] s")
    case None
    then show ?thesis using "1.prems" by (simp add: sentences.simps [of s])
  next
    case (Some p)
    then obtain a b where ab: "split_first [] s = Some (a, b)" by (cases p) auto
    obtain spoken' rest' where r: "sentences b = (spoken', rest')" by fastforce
    obtain ws where "s = a @ ws @ b" "squash ws = []"
      using split_first_decomp [OF ab] squash_space by auto
    then have "squash s = squash (py_strip a) @ squash b" by simp
    moreover have "squash (concat spoken') @ squash rest' = squash b" using "1.IH" [OF ab _ r] by simp
    ultimately show ?thesis using "1.prems" ab r squash_strip_Nil [of a]
      by (auto simp: sentences.simps [of s] split: if_splits)
  qed
qed

lemma tts_say [simp]:
  "tt_spoken (say synth to x st) = tt_spoken st @ [x]" "tt_text (say synth to x st) = tt_text st"
  "tt_pending (say synth to x st) = tt_pending st" "tt_directives (say synth to x st) = tt_directives st"
  "tt_end_call (say synth to x st) = tt_end_call st"
  by (simp_all add: say_def emit_def)

lemma tts_says [simp]:
  "tt_spoken (fold (say synth to) xs st) = tt_spoken st @ xs" "tt_text (fold (say synth to) xs st) = tt_text st"
  "tt_pending (fold (say synth to) xs st) = tt_pending st" "tt_directives (fold (say synth to) xs st) = tt_directives st"
  "tt_end_call (fold (say synth to) xs st) = tt_end_call st"
  by (induction xs arbitrary: st) auto

lemma tts_emit [simp]:
  "tt_spoken (emit ys st) = tt_spoken st" "tt_text (emit ys st) = tt_text st" "tt_pending (emit ys st) = tt_pending st"
  "tt_directives (emit ys st) = tt_directives st" "tt_end_call (emit ys st) = tt_end_call st" "tt_out (emit ys st) = tt_out st @ ys"
  by (simp_all add: emit_def)

lemma on_item_Token [simp]: "on_item synth to (Token tok) = on_token synth to tok"
  by (simp add: on_item_def fun_eq_iff)

lemma on_token_spoken:
  "squash (concat (tt_spoken (on_token synth to tok st))) @ squash (tt_text (on_token synth to tok st)) =
     squash (concat (tt_spoken st)) @ squash (tt_text st) @ squash (clean_text (parse (fst (feed (tt_pending st) tok)))) \<and>
   tt_pending (on_token synth to tok st) = snd (feed (tt_pending st) tok)"
proof -
  obtain spoken rest where s: "sentences (tt_text st @ clean_text (parse (fst (feed (tt_pending st) tok)))) = (spoken, rest)" by fastforce
  show ?thesis using sentences_squash [OF s] s by (simp add: on_token_def case_prod_unfold Let_def)
qed

text \<open>The safe pieces of a stream, all but the last, and the unfinished rest.\<close>

lemma stream_pieces_ne: "stream_pieces p toks \<noteq> []"
  by (cases toks) (auto split: prod.split)

lemma tokens_spoken:
  "squash (concat (tt_spoken (fold (on_item synth to) (map Token toks) st))) @
   squash (tt_text (fold (on_item synth to) (map Token toks) st)) @
   squash (tt_pending (fold (on_item synth to) (map Token toks) st)) =
     squash (concat (tt_spoken st)) @ squash (tt_text st) @
     squash (concat (map (\<lambda>x. clean_text (parse x)) (butlast (stream_pieces (tt_pending st) toks)))) @
     squash (last (stream_pieces (tt_pending st) toks))"
proof (induction toks arbitrary: st)
  case Nil
  then show ?case by (simp add: flush_def)
next
  case (Cons tok toks)
  have p: "stream_pieces (tt_pending st) (tok # toks) = fst (feed (tt_pending st) tok) # stream_pieces (snd (feed (tt_pending st) tok)) toks"
    by (simp split: prod.split)
  let ?st = "on_token synth to tok st"
  have one: "squash (concat (tt_spoken ?st)) @ squash (tt_text ?st) =
      squash (concat (tt_spoken st)) @ squash (tt_text st) @ squash (clean_text (parse (fst (feed (tt_pending st) tok))))"
    and pend: "tt_pending ?st = snd (feed (tt_pending st) tok)"
    using on_token_spoken [of synth to tok st] by blast+
  have "squash (concat (tt_spoken (fold (on_item synth to) (map Token toks) ?st))) @
      squash (tt_text (fold (on_item synth to) (map Token toks) ?st)) @ squash (tt_pending (fold (on_item synth to) (map Token toks) ?st)) =
    (squash (concat (tt_spoken ?st)) @ squash (tt_text ?st)) @
    squash (concat (map (\<lambda>x. clean_text (parse x)) (butlast (stream_pieces (tt_pending ?st) toks)))) @
    squash (last (stream_pieces (tt_pending ?st) toks))"
    using Cons.IH [of ?st] by simp
  then show ?case unfolding one pend p using stream_pieces_ne [of "snd (feed (tt_pending st) tok)" toks]
    by simp
qed

text \<open>
  Nothing the model says is dropped, repeated or reordered on its way to speech: for a turn that
  runs to its end, the texts handed to the synthesis are, white space apart, the clean texts of the
  complete pieces of the token stream followed by its unfinished rest, for every cut of the reply into
  tokens.
\<close>

theorem spoken_text_complete:
  "squash (concat (tt_spoken (llm_to_tts synth to (map (\<lambda>tok. (Token tok, False)) toks) False False (tts_init ph ls)))) =
     squash (concat (map (\<lambda>x. clean_text (parse x)) (butlast (stream_pieces [] toks))) @ last (stream_pieces [] toks))"
proof -
  let ?st = "fold (on_item synth to) (map Token toks) (tts_init ph ls)"
  have live: "map fst (takeWhile (\<lambda>(it, stop). \<not> stop) (map (\<lambda>tok. (Token tok, False)) toks)) = map Token toks"
    by (simp add: takeWhile_eq_all_conv [THEN iffD2] comp_def)
  have "squash (concat (tt_spoken ?st)) @ squash (tt_text ?st @ tt_pending ?st) =
      squash (concat (map (\<lambda>x. clean_text (parse x)) (butlast (stream_pieces [] toks))) @ last (stream_pieces [] toks))"
    using tokens_spoken [of synth to toks "tts_init ph ls"] by (simp add: tts_init_def)
  then show ?thesis unfolding llm_to_tts_def live Let_def
    using squash_strip_Nil [of "tt_text ?st @ tt_pending ?st"] by (auto simp: flush_def)
qed

lemma marker_emit:
  "ys \<noteq> [] \<Longrightarrow> (\<And>y. y \<in> set ys \<Longrightarrow> snd (snd y) = f) \<Longrightarrow> marker_seen (emit ys st) = f"
  by (simp add: marker_seen_def)

definition latched :: "tts_state \<Rightarrow> bool" where
  "latched st \<longleftrightarrow> tt_end_call st = has_end_call (tt_directives st) \<and> marker_seen st = tt_end_call st"

lemma latched_emit:
  assumes "latched st" and "\<And>y. y \<in> set ys \<Longrightarrow> snd (snd y) = tt_end_call st"
  shows "latched (emit ys st)"
proof (cases "ys = []")
  case False
  have "marker_seen (emit ys st) = tt_end_call st" using False assms(2) by (rule marker_emit)
  then show ?thesis using assms(1) by (simp add: latched_def)
qed (use assms in \<open>simp add: emit_def\<close>)

lemma latched_frame: "latched (st\<lparr>tt_spoken := x\<rparr>) = latched st" "latched (st\<lparr>tt_text := y\<rparr>) = latched st"
    "latched (st\<lparr>tt_pending := y\<rparr>) = latched st" "latched (st\<lparr>tt_last_spoken := z\<rparr>) = latched st"
    "latched (st\<lparr>tt_last_phrase := w\<rparr>) = latched st"
  by (simp_all add: latched_def marker_seen_def)

lemma latched_say: "latched st \<Longrightarrow> latched (say synth to x st)"
  unfolding say_def by (rule latched_emit) (auto simp: latched_frame)

lemma latched_says: "latched st \<Longrightarrow> latched (fold (say synth to) xs st)"
  by (induction xs arbitrary: st) (auto intro: latched_say)

lemma labelled_flag: "y \<in> set (labelled x chs f) \<Longrightarrow> snd (snd y) = f"
  by (auto simp: labelled_def split: list.splits)

lemma latched_item: "latched st \<Longrightarrow> latched (on_item synth to it st)"
proof (cases it)
  case (Token tok)
  have "latched (emit [(tok, [], has_end_call ds)] (st\<lparr>tt_pending := p, tt_directives := ds, tt_end_call := has_end_call ds\<rparr>))" for ds p
    by (simp add: latched_def marker_seen_def)
  then show ?thesis if "latched st"
    using that unfolding Token on_item_Token
    by (simp add: on_token_def case_prod_unfold Let_def latched_frame latched_says)
next
  case (Bridge speech)
  then show "latched st \<Longrightarrow> ?thesis"
    by (auto simp: on_item_def on_bridge_def latched_frame intro!: latched_emit dest!: labelled_flag split: option.split)
next
  case (ToolStarted tool now average pick stop)
  then show "latched st \<Longrightarrow> ?thesis"
    by (auto simp: on_item_def on_tool_started_def Let_def latched_frame intro!: latched_emit split: option.split)
qed

text \<open>
  The end of the call is latched: when the stream of a turn does not fail, the flag of its last
  yield says whether an end-call directive was seen anywhere in it, whatever tools, bridging lines,
  fillers and cancellations it contained.
\<close>

theorem end_call_latched:
  "marker_seen (llm_to_tts synth to items False cancelled (tts_init ph ls)) =
     has_end_call (tt_directives (llm_to_tts synth to items False cancelled (tts_init ph ls)))"
proof -
  have items: "latched st \<Longrightarrow> latched (fold (on_item synth to) its st)" for its st
    by (induction its arbitrary: st) (auto intro: latched_item)
  have st: "latched (fold (on_item synth to) its (tts_init ph ls))" for its
    by (rule items) (simp add: latched_def tts_init_def marker_seen_def has_end_call_def)
  have final: "latched st \<Longrightarrow> latched (st\<lparr>tt_text := a, tt_pending := b, tt_end_call := has_end_call (tt_directives st)\<rparr>)" for st a b
    by (auto simp: latched_def marker_seen_def)
  have "latched (llm_to_tts synth to items False cancelled (tts_init ph ls))"
    unfolding llm_to_tts_def Let_def using final [OF st] by (auto intro: latched_say)
  then show ?thesis by (simp add: latched_def)
qed

text \<open>A failing stream clears the latch: the caller hears an apology and the call is not ended.\<close>

lemma failure_clears_end_call:
  "let st = llm_to_tts (\<lambda>_. [[1]]) False [(Token ''Bye. [[END_CALL]]'', False)] True False (tts_init None None) in
     tt_directives st = [EndCallDirective] \<and> \<not> marker_seen st"
  by code_simp

end
