(* ===== verification/Pipeline.thy ===== *)
theory Pipeline
  imports Transfer_Engine Speech_Text Servicer
begin

text \<open>
  The turn of the pipeline handler (\<^verbatim>\<open>services/conversation/pipeline.py\<close>): what happens before and
  after the language model speaks, the history it keeps, the decision to end the call or to transfer
  it, the recovery after a failed transfer, and the end of a session.

  The part of a turn in which model, tools and synthesis run is modelled in \<open>Orchestrator\<close> and in
  \<open>Speech_Text\<close>. Here its outcome is an argument: what \<^verbatim>\<open>_llm_to_tts\<close> has yielded, the directives and
  tool calls it has collected, and the history and the runner it has left behind. The cancellation of
  the turn is an event that is only ever set; its three readings at the end of a turn are arguments.
  \<open>pp_records\<close> logs what is handed to the transcript. The dash U+2014 of the fixed lines lies outside the
  modelled characters and is written as the code 0x97.
\<close>

section \<open>State\<close>

record turn_record =
  rec_user :: string
  rec_assistant :: string
  rec_interrupted :: bool
  rec_node :: "(string \<times> string) option"

record pipe =
  pp_runner :: runner
  pp_transfer :: transfer_state
  pp_history :: "chat_message list"
  pp_next_oid :: nat
  pp_recovery :: "(string \<times> string \<times> bool) list"
  pp_confirmed_slot :: "string option"
  pp_last_reported :: "string option"
  pp_records :: "turn_record list"
  pp_outcome :: "(string list \<times> string option \<times> (string \<times> pyval) list) option"

record pipe_config =
  pc_decision :: decision_context
  pc_text_only :: bool
  pc_max_history :: nat
  pc_has_booking_tool :: bool
  pc_max_call_duration :: "rat option"
  pc_goodbye_grace_ms :: int
  pc_draft_fell_back :: bool

section \<open>History\<close>

text \<open>\<^verbatim>\<open>_refresh_node_prompt\<close>.\<close>

definition refresh_node_prompt :: "pipe \<Rightarrow> pipe" where
  "refresh_node_prompt p =
     (let prompt = chat (pp_next_oid p) ''system'' (system_prompt (pp_runner p))
      in p\<lparr>pp_history := (case pp_history p of
                            m # ms \<Rightarrow> if m_role m = ''system'' then prompt # ms else prompt # m # ms
                          | [] \<Rightarrow> [prompt]),
           pp_next_oid := Suc (pp_next_oid p)\<rparr>)"

definition append_message :: "string \<Rightarrow> string \<Rightarrow> pipe \<Rightarrow> pipe" where
  "append_message role content p =
     p\<lparr>pp_history := pp_history p @ [chat (pp_next_oid p) role content], pp_next_oid := Suc (pp_next_oid p)\<rparr>"

text \<open>\<^verbatim>\<open>xs[-n:]\<close>: for \<open>n = 0\<close> this is the whole list.\<close>

definition last_n :: "nat \<Rightarrow> 'a list \<Rightarrow> 'a list" where
  "last_n n xs = (if n = 0 then xs else drop (length xs - n) xs)"

definition trim_history :: "nat \<Rightarrow> chat_message list \<Rightarrow> chat_message list" where
  "trim_history max_history h =
     (let base = (case h of m # _ \<Rightarrow> if m_role m = ''system'' then 1 else 0 | [] \<Rightarrow> 0)
      in if length h > max_history * 2 + base then take base h @ last_n (max_history * 2) h else h)"

section \<open>Speaking\<close>

definition speak :: "(string \<Rightarrow> bytes list) \<Rightarrow> pipe_config \<Rightarrow> string \<Rightarrow> handler_response list" where
  "speak synth cf content =
     (if pc_text_only cf
      then (if py_strip content \<noteq> [] then [empty_response\<lparr>hr_agent_text := content\<rparr>] else [])
      else map (\<lambda>ch. empty_response\<lparr>hr_tts_payloads := [ch]\<rparr>) (synthesize synth False content))"

definition end_response :: "pipe_config \<Rightarrow> handler_response" where
  "end_response cf = empty_response\<lparr>hr_end_call := True, hr_grace_ms := pc_goodbye_grace_ms cf\<rparr>"

definition FALLBACK_GOODBYE :: string where
  "FALLBACK_GOODBYE = ''Goodbye.''"

definition MAX_DURATION_GOODBYE :: string where
  "MAX_DURATION_GOODBYE = ''We're at the time limit for this call now. Thanks for calling '' @ [CHR 0x97] @ '' goodbye.''"

definition TRANSFER_FAILED_FALLBACK :: string where
  "TRANSFER_FAILED_FALLBACK = ''I'm sorry, I couldn't connect you to an agent right now.''"

definition FABRICATION_ANNOUNCEMENT :: string where
  "FABRICATION_ANNOUNCEMENT =
     ''Let me just double-check that booking with a team member to make sure '' @
     ''it's set up correctly '' @ [CHR 0x97] @ '' one moment.''"

section \<open>Greeting\<close>

definition take_node_changed :: "pipe \<Rightarrow> node_change option \<times> pipe" where
  "take_node_changed p =
     (let n = w_node (pp_runner p)
      in if pp_last_reported p = Some (n_id n) then (None, p)
         else (Some \<lparr>nc_node_id = n_id n, nc_node_name = n_name n, nc_node_type = n_type n,
                      nc_via = w_last_transition (pp_runner p)\<rparr>,
               p\<lparr>pp_last_reported := Some (n_id n)\<rparr>))"

definition node_response :: "node_change option \<Rightarrow> handler_response list" where
  "node_response nc = (case nc of Some x \<Rightarrow> [empty_response\<lparr>hr_node_changed := Some x\<rparr>] | None \<Rightarrow> [])"

definition opening_events :: "pipe_config \<Rightarrow> pipe \<Rightarrow> handler_response list \<times> pipe" where
  "opening_events cf p =
     (let (nc, p1) = take_node_changed p
      in ((if pc_draft_fell_back cf
           then [empty_response\<lparr>hr_session_note :=
                   ''Your draft doesn't parse '' @ [CHR 0x97] @ '' running the published (live) flow instead.''\<rparr>]
           else []) @ node_response nc, p1))"

text \<open>A greeting is recorded only when it was heard, or in a chat.\<close>

definition greeting :: "(string \<Rightarrow> bytes list) \<Rightarrow> pipe_config \<Rightarrow> pipe \<Rightarrow> py_exn + bytes list \<times> pipe" where
  "greeting synth cf p =
     (case runner_greeting (pp_runner p) of
        Inl e \<Rightarrow> Inl e
      | Inr None \<Rightarrow> Inr ([], p)
      | Inr (Some content) \<Rightarrow>
          let chunks = synthesize synth (pc_text_only cf) content
          in Inr (chunks, if chunks \<noteq> [] \<or> pc_text_only cf then append_message ''assistant'' content p else p))"

section \<open>The beginning of a turn\<close>

text \<open>An utterance of less than a second is ignored; \<open>min_bytes\<close> is one second of 16-bit mono.\<close>

definition min_bytes :: "nat \<Rightarrow> nat" where
  "min_bytes sample_rate = sample_rate * 2"

definition long_enough :: "nat \<Rightarrow> bytes \<Rightarrow> bool" where
  "long_enough sample_rate audio \<longleftrightarrow> min_bytes sample_rate \<le> length audio"

definition time_is_up :: "pipe_config \<Rightarrow> rat \<Rightarrow> bool" where
  "time_is_up cf elapsed = (case pc_max_call_duration cf of Some m \<Rightarrow> m \<le> elapsed | None \<Rightarrow> False)"

text \<open>\<open>flagged\<close>: the guardrail detector found a violation in the caller's words.\<close>

definition guard_turn :: "string \<Rightarrow> pipe_config \<Rightarrow> bool \<Rightarrow> pipe \<Rightarrow> pipe" where
  "guard_turn uuid cf flagged p = p\<lparr>pp_transfer := guardrail_turn uuid (pc_decision cf) flagged (pp_transfer p)\<rparr>"

definition log_turn :: "turn_record \<Rightarrow> pipe \<Rightarrow> pipe" where
  "log_turn r p = p\<lparr>pp_records := pp_records p @ [r]\<rparr>"

text \<open>A turn after the time limit: no model, a fixed line, the end of the call.\<close>

definition overtime_turn :: "(string \<Rightarrow> bytes list) \<Rightarrow> pipe_config \<Rightarrow> string \<Rightarrow> pipe \<Rightarrow> handler_response list \<times> pipe" where
  "overtime_turn synth cf user_text p =
     (let spoken = speak synth cf MAX_DURATION_GOODBYE;
          fallback = (if spoken = [] then speak synth cf FALLBACK_GOODBYE else [])
      in (spoken @ fallback @ [end_response cf],
          log_turn \<lparr>rec_user = user_text, rec_assistant = MAX_DURATION_GOODBYE, rec_interrupted = False, rec_node = None\<rparr> p))"

definition begin_turn :: "string \<Rightarrow> pipe \<Rightarrow> pipe" where
  "begin_turn user_text p = append_message ''user'' user_text (refresh_node_prompt p)"

text \<open>
  What the model reads: the history, or a copy of it whose last message carries the retrieved chunks.
\<close>

definition format_context :: "string list \<Rightarrow> string list \<Rightarrow> bool \<Rightarrow> string" where
  "format_context chunks sources include_citations =
     ''Relevant information that may help answer the caller's question:'' @ nl @
     py_join (nl @ nl) chunks @
     (if include_citations \<and> sources \<noteq> [] then nl @ nl @ ''Sources: '' @ py_join '', '' sources else [])"

definition messages_for_llm ::
  "pipe \<Rightarrow> (string list \<times> string list \<times> bool) option \<Rightarrow> string \<Rightarrow> chat_message list"
where
  "messages_for_llm p context user_text =
     (case context of
        Some (c # cs, sources, cite) \<Rightarrow>
          if knowledge_enabled (pp_runner p)
          then butlast (pp_history p) @
               [chat (pp_next_oid p) ''user''
                  (format_context (c # cs) sources cite @ nl @ nl @ ''Caller's question: '' @ user_text)]
          else pp_history p
      | _ \<Rightarrow> pp_history p)"

section \<open>The end of a turn\<close>

record llm_phase =
  lp_out :: "(string \<times> bytes \<times> bool) list"
  lp_directives :: "directive list"
  lp_tools :: "string list"
  lp_cancelled :: bool
  lp_cancelled_transfer :: bool
  lp_cancelled_end :: bool
  lp_vals :: "(string \<times> pyval) list"
  lp_finished :: "nat list"

definition assistant_text :: "llm_phase \<Rightarrow> string" where
  "assistant_text l = py_strip (clean_text (parse (concat (map fst (lp_out l)))))"

definition phase_audio :: "llm_phase \<Rightarrow> handler_response list" where
  "phase_audio l =
     map (\<lambda>a. empty_response\<lparr>hr_tts_payloads := [a]\<rparr>) (filter (\<lambda>a. a \<noteq> []) (map (fst \<circ> snd) (lp_out l)))"

definition phase_end_call :: "llm_phase \<Rightarrow> bool" where
  "phase_end_call l = (if lp_out l = [] then False else snd (snd (last (lp_out l))))"

definition CALENDAR_MUTATION_TOOLS :: "string list" where
  "CALENDAR_MUTATION_TOOLS = [''book_appointment'', ''reschedule_appointment'']"

definition fabricated_booking_claim ::
  "(string \<Rightarrow> (nat \<times> nat) option) \<Rightarrow> pipe_config \<Rightarrow> llm_phase \<Rightarrow> pipe \<Rightarrow> bool"
where
  "fabricated_booking_claim fromiso cf l p \<longleftrightarrow>
     pc_has_booking_tool cf \<and>
     \<not> (case pp_confirmed_slot p of
          Some slot \<Rightarrow> claim_matches_confirmed_slot fromiso (assistant_text l) slot | None \<Rightarrow> False) \<and>
     \<not> list_ex (\<lambda>t. t \<in> set CALENDAR_MUTATION_TOOLS) (lp_tools l) \<and>
     claims_booking_without_tool_call (assistant_text l)"

definition CORRECTION :: string where
  "CORRECTION =
     ''Correction: nothing was actually booked, rescheduled, or confirmed just '' @
     ''now '' @ [CHR 0x97] @ '' you did not call book_appointment or reschedule_appointment. If the '' @
     ''caller still wants that, call the correct tool for real before saying '' @
     ''anything is booked, moved, or confirmed.''"

definition keep_reply ::
  "(string \<Rightarrow> (nat \<times> nat) option) \<Rightarrow> string \<Rightarrow> pipe_config \<Rightarrow> llm_phase \<Rightarrow> pipe \<Rightarrow> pipe"
where
  "keep_reply fromiso uuid cf l p =
     (if lp_out l \<noteq> [] \<and> \<not> lp_cancelled l then
        let p1 = append_message ''assistant'' (assistant_text l) p;
            p2 = (if fabricated_booking_claim fromiso cf l p
                  then (let q = append_message ''system'' CORRECTION p1
                        in q\<lparr>pp_transfer := snd (record_booking_fabrication uuid (pc_decision cf) (pp_transfer q))\<rparr>)
                  else p1)
        in p2\<lparr>pp_history := trim_history (pc_max_history cf) (pp_history p2)\<rparr>
      else if pp_history p \<noteq> [] \<and> m_role (last (pp_history p)) = ''user''
      then p\<lparr>pp_history := butlast (pp_history p)\<rparr>
      else p)"

definition chat_reply :: "pipe_config \<Rightarrow> llm_phase \<Rightarrow> handler_response list" where
  "chat_reply cf l =
     (if pc_text_only cf \<and> \<not> lp_cancelled_transfer l
      then [if assistant_text l \<noteq> []
            then empty_response\<lparr>hr_agent_text := assistant_text l, hr_turn_complete := True\<rparr>
            else empty_response\<lparr>hr_turn_complete := True\<rparr>]
      else [])"

text \<open>\<^verbatim>\<open>_start_workflow_background_llm\<close>.\<close>

definition start_background :: "pipe \<Rightarrow> pipe" where
  "start_background p =
     p\<lparr>pp_runner := (pp_runner p)\<lparr>w_extractor := map_option start_deferred (w_extractor (pp_runner p)),
        w_summarizer := map_option sum_start_deferred (w_summarizer (pp_runner p))\<rparr>\<rparr>"

definition end_turn ::
  "(string \<Rightarrow> bytes list) \<Rightarrow> (string \<Rightarrow> (nat \<times> nat) option) \<Rightarrow> string \<Rightarrow> string \<Rightarrow> string \<Rightarrow> pipe_config \<Rightarrow> string \<Rightarrow>
   llm_phase \<Rightarrow> pipe \<Rightarrow> handler_response list \<times> pipe"
where
  "end_turn synth fromiso u1 u2 u3 cf user_text l p0 =
     (let p1 = keep_reply fromiso u1 cf l (start_background p0);
          n = w_node (pp_runner p1);
          p2 = log_turn \<lparr>rec_user = user_text, rec_assistant = assistant_text l, rec_interrupted = lp_cancelled l,
                         rec_node = Some (n_id n, n_name n)\<rparr> p1;
          any_audio = (phase_audio l \<noteq> [] \<or> chat_reply cf l \<noteq> [] \<and> assistant_text l \<noteq> []);
          (nc, p3) = take_node_changed p2;
          end_call = (w_pending_end (pp_runner p3) \<or> phase_end_call l);
          r4 = (if \<not> w_pending_end (pp_runner p3) \<and> phase_end_call l
                then (pp_runner p3)\<lparr>w_ended_off_graph := True\<rparr> else pp_runner p3);
          announce = ts_fabrication (pp_transfer p3);
          (req, r5, s5) = turn_transfer u2 u3 (pc_decision cf) (lp_directives l) (lp_cancelled_transfer l)
                            (lp_vals l) (lp_finished l) (r4, pp_transfer p3);
          p5 = p3\<lparr>pp_runner := r5, pp_transfer := s5\<rparr>;
          ending =
            (if end_call \<and> \<not> lp_cancelled_end l \<and> req = None
             then (if any_audio then [] else speak synth cf FALLBACK_GOODBYE) @ [end_response cf] else []);
          handover =
            (case req of
               Some tr \<Rightarrow> (if announce then speak synth cf FABRICATION_ANNOUNCEMENT else []) @
                          [empty_response\<lparr>hr_transfer_request := Some tr\<rparr>]
             | None \<Rightarrow> [])
      in (chat_reply cf l @ node_response nc @ ending @ handover, p5))"


section \<open>Cancellation, failed transfers, the end\<close>

definition interrupt_background :: "(nat list \<Rightarrow> nat list) \<Rightarrow> pipe \<Rightarrow> pipe" where
  "interrupt_background order p =
     p\<lparr>pp_runner := (pp_runner p)\<lparr>w_extractor := map_option (interrupt_for_live_turn order) (w_extractor (pp_runner p)),
        w_summarizer := map_option sum_interrupt (w_summarizer (pp_runner p))\<rparr>\<rparr>"

definition pipe_cancel :: "(nat list \<Rightarrow> nat list) \<Rightarrow> pipe \<Rightarrow> pipe" where
  "pipe_cancel order p =
     interrupt_background order (p\<lparr>pp_runner := (pp_runner p)\<lparr>w_pending_speech := None\<rparr>\<rparr>)"

definition on_rs :: "(runner \<times> transfer_state \<Rightarrow> runner \<times> transfer_state) \<Rightarrow> pipe \<Rightarrow> pipe" where
  "on_rs f p = (let (r, s) = f (pp_runner p, pp_transfer p) in p\<lparr>pp_runner := r, pp_transfer := s\<rparr>)"

text \<open>\<^verbatim>\<open>on_transfer_failed\<close> up to the model, and after it.\<close>

definition recovery_begin :: "pipe \<Rightarrow> pipe" where
  "recovery_begin p = refresh_node_prompt (on_rs transfer_failed p)"

definition recovery_end ::
  "(string \<Rightarrow> bytes list) \<Rightarrow> pipe_config \<Rightarrow> string \<Rightarrow> llm_phase \<Rightarrow> pipe \<Rightarrow> handler_response list \<times> pipe"
where
  "recovery_end synth cf reason l p =
     (let silent = (assistant_text l = [] \<and> phase_audio l = [] \<and> \<not> lp_cancelled l);
          content = (if silent then TRANSFER_FAILED_FALLBACK else assistant_text l);
          extra = (if silent then speak synth cf TRANSFER_FAILED_FALLBACK else []);
          p1 = (if content \<noteq> [] \<and> \<not> lp_cancelled_end l
                then (let q = append_message ''assistant'' content p
                      in q\<lparr>pp_history := trim_history (pc_max_history cf) (pp_history q)\<rparr>)
                else p)
      in (phase_audio l @ extra,
          p1\<lparr>pp_recovery := pp_recovery p1 @ [(''[transfer_failed: '' @ reason @ '']'', content, lp_cancelled_end l)]\<rparr>))"

text \<open>
  \<^verbatim>\<open>_finish_workflow\<close>: \<open>vals\<close> are the variables its passes have still captured, \<open>flushed\<close> tells whether the
  queued passes ended within the time limit, so that the final pass was reached.
\<close>

definition finish_workflow :: "(string \<times> pyval) list \<Rightarrow> bool \<Rightarrow> pipe \<Rightarrow> pipe" where
  "finish_workflow vals flushed p =
     (let r = pp_runner p;
          final = (\<lambda>x. let x0 = start_deferred x
                       in cancel_pending (if flushed then snd (extract_final (w_node r) (flush_extracts x0)) else x0));
          r1 = update_variables vals
                 (r\<lparr>w_summarizer := map_option sum_cancel (w_summarizer r), w_extractor := map_option final (w_extractor r)\<rparr>)
      in p\<lparr>pp_runner := r1, pp_outcome := Some (w_visited r1, disposition r1, extracted_variables r1)\<rparr>)"

text \<open>\<^verbatim>\<open>on_session_end\<close>: deferred recovery turns are logged now, in order, then everything is dropped.\<close>

definition pipe_session_end :: "(string \<times> pyval) list \<Rightarrow> bool \<Rightarrow> pipe \<Rightarrow> pipe" where
  "pipe_session_end vals flushed p0 =
     (let p = finish_workflow vals flushed p0;
          recs = map (\<lambda>(caller, ai, intr). \<lparr>rec_user = caller, rec_assistant = ai, rec_interrupted = intr, rec_node = None\<rparr>)
                   (pp_recovery p)
      in p\<lparr>pp_records := pp_records p @ recs, pp_recovery := [], pp_history := [], pp_confirmed_slot := None,
           pp_transfer := \<lparr>ts_requested = False, ts_pending = None, ts_fabrication = False, ts_guardrail = [], ts_booking = []\<rparr>\<rparr>)"

section \<open>Lemmas\<close>

text \<open>A response that decides nothing about the call.\<close>

definition quiet :: "handler_response \<Rightarrow> bool" where
  "quiet r \<longleftrightarrow> \<not> hr_end_call r \<and> hr_transfer_request r = None"

lemma quiet_speak: "r \<in> set (speak synth cf content) \<Longrightarrow> quiet r"
  by (auto simp: speak_def quiet_def empty_response_def split: if_splits)


lemma quiet_chat_reply: "r \<in> set (chat_reply cf l) \<Longrightarrow> quiet r"
  by (auto simp: chat_reply_def quiet_def empty_response_def split: if_splits)

lemma quiet_node_response: "r \<in> set (node_response nc) \<Longrightarrow> quiet r"
  by (auto simp: node_response_def quiet_def empty_response_def split: option.splits)

text \<open>The tail of a turn: quiet responses, then at most one decision.\<close>

lemma end_turn_shape:
  fixes cf :: pipe_config
  assumes rs_def: "rs = fst (end_turn synth fromiso u1 u2 u3 cf user_text l p)"
  obtains (none) "\<forall>r \<in> set rs. quiet r"
  | (ends) pre where "rs = pre @ [end_response cf]" "\<forall>r \<in> set pre. quiet r" "\<not> lp_cancelled_end l"
      "phase_audio l = [] \<Longrightarrow> \<not> pc_text_only cf \<Longrightarrow> set (speak synth cf FALLBACK_GOODBYE) \<subseteq> set pre"
  | (transfers) pre tr where "rs = pre @ [empty_response\<lparr>hr_transfer_request := Some tr\<rparr>]" "\<forall>r \<in> set pre. quiet r"
      "\<not> lp_cancelled_transfer l"
proof -
  define p1 where "p1 = keep_reply fromiso u1 cf l (start_background p)"
  define p2 where "p2 = log_turn \<lparr>rec_user = user_text, rec_assistant = assistant_text l, rec_interrupted = lp_cancelled l,
      rec_node = Some (n_id (w_node (pp_runner p1)), n_name (w_node (pp_runner p1)))\<rparr> p1"
  define any where "any \<longleftrightarrow> phase_audio l \<noteq> [] \<or> chat_reply cf l \<noteq> [] \<and> assistant_text l \<noteq> []"
  define nc where "nc = fst (take_node_changed p2)"
  define p3 where "p3 = snd (take_node_changed p2)"
  define ec where "ec \<longleftrightarrow> w_pending_end (pp_runner p3) \<or> phase_end_call l"
  define r4 where "r4 = (if \<not> w_pending_end (pp_runner p3) \<and> phase_end_call l
                then (pp_runner p3)\<lparr>w_ended_off_graph := True\<rparr> else pp_runner p3)"
  define req where "req = fst (turn_transfer u2 u3 (pc_decision cf) (lp_directives l) (lp_cancelled_transfer l)
                            (lp_vals l) (lp_finished l) (r4, pp_transfer p3))"
  define ending where "ending = (if ec \<and> \<not> lp_cancelled_end l \<and> req = None
             then (if any then [] else speak synth cf FALLBACK_GOODBYE) @ [end_response cf] else [])"
  define handover where "handover = (case req of
               Some tr \<Rightarrow> (if ts_fabrication (pp_transfer p3) then speak synth cf FABRICATION_ANNOUNCEMENT else []) @
                          [empty_response\<lparr>hr_transfer_request := Some tr\<rparr>]
             | None \<Rightarrow> [])"
  have rs: "rs = chat_reply cf l @ node_response nc @ ending @ handover"
    by (simp add: rs_def end_turn_def Let_def case_prod_unfold p1_def p2_def any_def nc_def p3_def ec_def r4_def req_def
        ending_def handover_def)
  have q: "\<forall>r \<in> set (chat_reply cf l @ node_response nc). quiet r"
    using quiet_chat_reply quiet_node_response by auto
  have sq: "\<forall>r \<in> set (speak synth cf content). quiet r" for content using quiet_speak by blast
  have chat: "\<not> pc_text_only cf \<Longrightarrow> chat_reply cf l = []" by (simp add: chat_reply_def)
  show thesis
  proof (cases req)
    case (Some tr)
    then have "rs = (chat_reply cf l @ node_response nc @
        (if ts_fabrication (pp_transfer p3) then speak synth cf FABRICATION_ANNOUNCEMENT else [])) @
        [empty_response\<lparr>hr_transfer_request := Some tr\<rparr>]" "\<not> lp_cancelled_transfer l"
      by (simp_all add: rs ending_def handover_def) (auto simp: req_def turn_transfer_def split: if_splits)
    moreover have "\<forall>r \<in> set (chat_reply cf l @ node_response nc @
        (if ts_fabrication (pp_transfer p3) then speak synth cf FABRICATION_ANNOUNCEMENT else [])). quiet r" using q sq by auto
    ultimately show thesis using transfers by blast
  next
    case None
    show thesis
    proof (cases "ec \<and> \<not> lp_cancelled_end l")
      case True
      let ?pre = "chat_reply cf l @ node_response nc @ (if any then [] else speak synth cf FALLBACK_GOODBYE)"
      have "rs = ?pre @ [end_response cf]" using None True by (simp add: rs ending_def handover_def)
      moreover have "\<forall>r \<in> set ?pre. quiet r" using q sq by auto
      moreover have "phase_audio l = [] \<Longrightarrow> \<not> pc_text_only cf \<Longrightarrow> set (speak synth cf FALLBACK_GOODBYE) \<subseteq> set ?pre"
        using chat by (simp add: any_def)
      ultimately show thesis using True ends by blast
    next
      case False
      then have "rs = chat_reply cf l @ node_response nc" using None by (simp add: rs ending_def handover_def)
      then show thesis using q none by simp
    qed
  qed
qed

section \<open>Properties of a turn\<close>











text \<open>
  A turn decides at most once, with its last response, and an interrupted turn decides nothing: a
  turn never both ends the call and hands it over, and nothing is spoken after the decision.
\<close>

theorem turn_decides_once:
  "let rs = fst (end_turn synth fromiso u1 u2 u3 cf user_text l p)
   in list_all quiet (butlast rs) \<and>
      (if rs = [] then True else \<not> (hr_end_call (last rs) \<and> hr_transfer_request (last rs) \<noteq> None)) \<and>
      (if lp_cancelled_end l \<and> lp_cancelled_transfer l then list_all quiet rs else True)"
  (is "let rs = ?rs in _")
proof -
  have q: "\<not> quiet (end_response cf)" "hr_transfer_request (end_response cf) = None" "\<not> hr_end_call (empty_response\<lparr>hr_transfer_request := Some tr\<rparr>)" for tr
    by (simp_all add: quiet_def end_response_def empty_response_def)
  show ?thesis
  proof (rule end_turn_shape [OF refl, of synth fromiso u1 u2 u3 cf user_text l p])
    assume "\<forall>r \<in> set ?rs. quiet r"
    then show ?thesis by (cases ?rs rule: rev_cases) (auto simp: Let_def list_all_iff quiet_def)
  qed (simp_all add: Let_def list_all_iff q)
qed

lemma end_turn_history:
  "pp_history (snd (end_turn synth fromiso u1 u2 u3 cf user_text l p)) =
     pp_history (keep_reply fromiso u1 cf l (start_background p))"
  by (simp add: end_turn_def Let_def case_prod_unfold take_node_changed_def log_turn_def)

lemma trim_window:
  assumes "0 < m"
  shows "trim_history m (x # xs) =
     (if m_role x = ''system'' then x # drop (max 1 (Suc (length xs) - 2 * m)) (x # xs)
      else drop (Suc (length xs) - 2 * m) (x # xs))"
proof (cases "length xs = 2 * m")
  case True
  then show ?thesis using assms by (simp add: trim_history_def last_n_def)
qed (use assms in \<open>auto simp: trim_history_def last_n_def max_def mult.commute\<close>)

text \<open>
  After a turn whose reply was kept, the history is the system message followed by the newest
  \<open>2 * max_history\<close> messages of the old history with the reply and, for a claimed booking, its
  correction appended: it never grows beyond \<open>2 * max_history + 1\<close> and never loses its prompt.
\<close>

theorem history_window:
  assumes "lp_out l \<noteq> []" and "\<not> lp_cancelled l" and "0 < pc_max_history cf"
    and "pp_history p = sys # older" and "m_role sys = ''system''"
  shows "let n = pp_next_oid p;
             full = sys # older @ chat n ''assistant'' (assistant_text l) #
               (if fabricated_booking_claim fromiso cf l p then [chat (Suc n) ''system'' CORRECTION] else []);
             h = pp_history (snd (end_turn synth fromiso u1 u2 u3 cf user_text l p))
         in h = sys # drop (max 1 (length full - 2 * pc_max_history cf)) full \<and> length h \<le> 2 * pc_max_history cf + 1"
proof -
  let ?full = "sys # older @ chat (pp_next_oid p) ''assistant'' (assistant_text l) #
     (if fabricated_booking_claim fromiso cf l p then [chat (Suc (pp_next_oid p)) ''system'' CORRECTION] else [])"
  have "pp_history (keep_reply fromiso u1 cf l (start_background p)) = trim_history (pc_max_history cf) ?full"
    using assms(1,2,4)
    by (simp add: keep_reply_def start_background_def append_message_def fabricated_booking_claim_def Let_def)
  also have "\<dots> = sys # drop (max 1 (length ?full - 2 * pc_max_history cf)) ?full"
    using trim_window [OF assms(3), of sys] assms(5) by simp
  finally have h: "pp_history (keep_reply fromiso u1 cf l (start_background p)) =
     sys # drop (max 1 (length ?full - 2 * pc_max_history cf)) ?full" .
  have "length (drop (max 1 (length ?full - 2 * pc_max_history cf)) ?full) \<le> 2 * pc_max_history cf"
    by simp
  then show ?thesis by (simp add: Let_def end_turn_history h)
qed


section \<open>A concrete turn\<close>

definition sample_pipe :: pipe where
  "sample_pipe =
     \<lparr>pp_runner = sample_on_transfer\<lparr>w_pending_transfer := None, w_pending_end := True\<rparr>, pp_transfer = quiet_state,
      pp_history = [chat 0 ''system'' ''p'', chat 1 ''user'' ''a'', chat 2 ''assistant'' ''b'', chat 3 ''user'' ''c''],
      pp_next_oid = 4, pp_recovery = [], pp_confirmed_slot = None, pp_last_reported = None, pp_records = [],
      pp_outcome = None\<rparr>"

definition sample_config :: pipe_config where
  "sample_config = \<lparr>pc_decision = sample_context, pc_text_only = False, pc_max_history = 1, pc_has_booking_tool = False,
     pc_max_call_duration = None, pc_goodbye_grace_ms = 500, pc_draft_fell_back = False\<rparr>"

definition sample_phase :: llm_phase where
  "sample_phase = \<lparr>lp_out = [(''Bye.'', [1], False)], lp_directives = [], lp_tools = [], lp_cancelled = False,
     lp_cancelled_transfer = False, lp_cancelled_end = False, lp_vals = [], lp_finished = []\<rparr>"

theorem history_window_witness:
  "let h = pp_history (snd (end_turn (\<lambda>_. [[1]]) (\<lambda>_. None) [] [] [] sample_config ''c'' sample_phase sample_pipe))
   in h = [chat 0 ''system'' ''p'', chat 3 ''user'' ''c'', chat 4 ''assistant'' (assistant_text sample_phase)] \<and> length h \<le> 3"
proof -
  have h: "lp_out sample_phase \<noteq> []" "\<not> lp_cancelled sample_phase" "0 < pc_max_history sample_config"
    "pp_history sample_pipe = chat 0 ''system'' ''p'' # [chat 1 ''user'' ''a'', chat 2 ''assistant'' ''b'', chat 3 ''user'' ''c'']"
    "m_role (chat 0 ''system'' ''p'') = ''system''"
    by (simp_all add: sample_phase_def sample_config_def sample_pipe_def chat_def)
  have "\<not> fabricated_booking_claim (\<lambda>_. None) sample_config sample_phase sample_pipe" "pp_next_oid sample_pipe = 4"
    "pc_max_history sample_config = 1"
    by (simp_all add: fabricated_booking_claim_def sample_config_def sample_pipe_def)
  then show ?thesis
    using history_window [OF h, of "\<lambda>_. None" "\<lambda>_. [[1]]" "[]" "[]" "[]" "''c''"] by (simp add: Let_def)
qed


text \<open>Trimming counts messages, not exchanges: the window may open with the result of a tool whose call is gone.\<close>

lemma trim_orphans_tool_result:
  "trim_history 1 [chat 0 ''system'' ''p'', chat 1 ''user'' ''a'',
       (chat 2 ''assistant'' [])\<lparr>m_tool_calls := Some [[(''id'', PStr ''t1'')]]\<rparr>,
       (chat 3 ''tool'' ''ok'')\<lparr>m_tool_call_id := Some ''t1''\<rparr>, chat 4 ''assistant'' ''b''] =
     [chat 0 ''system'' ''p'', (chat 3 ''tool'' ''ok'')\<lparr>m_tool_call_id := Some ''t1''\<rparr>, chat 4 ''assistant'' ''b'']"
  by (simp add: trim_history_def last_n_def chat_def)

end
