(* ===== verification/Spec2Isabelle.thy ===== *)
theory Spec2Isabelle
  imports Runtime_Config Provider_Store Knowledge_Retrieval Webcall Phone_Routing Accounts Rate_Limit Vobiz_Bridge Campaign_Worker Transcripts Finalizer
    Conversation_FSM Directives Workflow_Dataflow Transfer_Engine Orchestrator Servicer Speech_Text Pipeline
begin

text \<open>
  Verification of the Python services of yuviz, a platform for AI voice calls: a gateway carries the
  audio of a phone call, the conversation service runs the dialogue of speech recognition, language
  model, tools and speech synthesis, and further services hold the configuration, the accounts and the
  outbound campaigns. This development models the program's own decisions, in the order in which a call
  meets them, and proves what they promise. Paths are relative to \<^verbatim>\<open>src/\<close>.

  \<^bold>\<open>The parts.\<close>

  \<^item> Shared: \<open>Prelude\<close> (strings, insertion-ordered dictionaries behind the interface \<open>dict_spec\<close>, machines
    driven by events behind \<open>event_machine\<close>), \<open>Py_Values\<close> (the values of \<^verbatim>\<open>json.loads\<close> and the built-in
    operations on them).
  \<^item> The call: \<open>Conversation_FSM\<close> (\<^verbatim>\<open>services/conversation/fsm.py\<close>, the state machine with its table),
    \<open>Event_Bus\<close> (\<^verbatim>\<open>event_bus.py\<close>), \<open>Session\<close> (\<^verbatim>\<open>session.py\<close>), \<open>Servicer\<close> (\<^verbatim>\<open>servicer.py\<close>, one gRPC stream
    from the handshake to the teardown).
  \<^item> The turn: \<open>Pipeline\<close> and \<open>Speech_Text\<close> (\<^verbatim>\<open>pipeline.py\<close>), \<open>Directives\<close> (\<^verbatim>\<open>directives.py\<close>, tags in the
    model's text), \<open>Orchestrator\<close> (\<^verbatim>\<open>tools/orchestrator.py\<close>, \<^verbatim>\<open>tools/llm_adapter.py\<close>), \<open>Tool_Chain\<close>
    (\<^verbatim>\<open>tools/middleware.py\<close>), \<open>Tool_Types\<close>, \<open>Tool_Policy\<close> (\<^verbatim>\<open>tools/types.py\<close>, \<^verbatim>\<open>tools/policy_resolver.py\<close>,
    \<^verbatim>\<open>tools/registry.py\<close>), \<open>Latency_Store\<close> (\<^verbatim>\<open>tool_latency.py\<close>, \<^verbatim>\<open>fillers.py\<close>), \<open>Transfer_Engine\<close>
    (\<^verbatim>\<open>transfer_engine.py\<close>, \<^verbatim>\<open>guardrails.py\<close> and the transfer part of the pipeline).
  \<^item> The workflow of an agent: \<open>Templates\<close>, \<open>Workflow_Graph\<close>, \<open>Workflow_Dataflow\<close>
    (\<^verbatim>\<open>libs/config_sdk/workflow.py\<close>), \<open>Workflow_Runner\<close> (\<^verbatim>\<open>services/conversation/workflow/runner.py\<close>),
    \<open>Extractor\<close> (\<^verbatim>\<open>workflow/extractor.py\<close>), \<open>Config_Models\<close> (\<^verbatim>\<open>libs/config_sdk/models.py\<close>).
  \<^item> After the turn: \<open>Transcripts\<close> (\<^verbatim>\<open>transcript_builder.py\<close>), \<open>Finalizer\<close> (\<^verbatim>\<open>session_finalizer.py\<close>).
  \<^item> The edges: \<open>Vad\<close> (\<^verbatim>\<open>libs/vad_sdk\<close>) and \<open>Vobiz_Bridge\<close> (\<^verbatim>\<open>services/vobiz/bridge.py\<close>, the telephony
    bridge in Python); \<open>Webcall\<close> (\<^verbatim>\<open>services/webcall/__main__.py\<close>, test calls from a browser tab).
  \<^item> The back office: \<open>Campaign_Worker\<close> (\<^verbatim>\<open>services/campaigns\<close>), \<open>Accounts\<close> (users and invitations of
    \<^verbatim>\<open>services/config\<close>), \<open>Rate_Limit\<close> (the throttles of \<^verbatim>\<open>services/config/app.py\<close>), \<open>Agent_Store\<close>
    (\<^verbatim>\<open>services/config/agents.py\<close> and \<^verbatim>\<open>workflows.py\<close>: agents, drafts, publishing, with the triggers of
    \<^verbatim>\<open>database/schema.sql\<close>), \<open>Phone_Routing\<close> (\<^verbatim>\<open>services/config/phone_numbers.py\<close> and
    \<^verbatim>\<open>services/vobiz/redis_route.py\<close>: which agent answers a number).
  \<^item> The knowledge of an agent: \<open>Chunking\<close> (\<^verbatim>\<open>services/knowledge/chunking.py\<close>), \<open>Knowledge_Index\<close>
    (\<^verbatim>\<open>ingestion_worker.py\<close>, \<^verbatim>\<open>documents.py\<close>, \<^verbatim>\<open>knowledge_bases.py\<close>: uploads, jobs, deletions),
    \<open>Knowledge_Retrieval\<close> (\<^verbatim>\<open>retrieval.py\<close>, \<^verbatim>\<open>vector_repository.py\<close>, \<^verbatim>\<open>agent_kb.py\<close> and the cached client of
    \<^verbatim>\<open>libs/knowledge_sdk\<close>), over \<open>Service_Client\<close> (the login and the requests of the HTTP repositories of
    \<^verbatim>\<open>libs/config_sdk\<close> and \<^verbatim>\<open>libs/knowledge_sdk\<close>).
  \<^item> The providers of an agent: \<open>Secrets\<close> (\<^verbatim>\<open>libs/config_sdk/secrets.py\<close>, \<^verbatim>\<open>secret_resolver.py\<close>),
    \<open>Provider_Store\<close> (\<^verbatim>\<open>services/config/provider_configs.py\<close> with its routes: rows, deletions, assignments),
    \<open>Provider_Clients\<close> and \<open>Provider_Cache\<close> (\<^verbatim>\<open>ai_provider_manager.py\<close> and the three managers built like it:
    how a client is made of a row, and the cache with its locks and evictions), \<open>Runtime_Config\<close>
    (\<^verbatim>\<open>libs/config_sdk/providers/cache_aside.py\<close>, \<^verbatim>\<open>agent_resolver.py\<close>, \<^verbatim>\<open>agent_config.py\<close>: the configuration
    with which a call starts, and the fallback).

  \<^bold>\<open>How the models correspond to the code.\<close> A class is a record with its fields, an enumeration or tagged
  message a datatype, a method a function from arguments and state to the result and the new state; an
  exception is a constructor of an error type or \<open>None\<close>. Names are the source's, with a prefix per record.
  A coroutine is cut where it may be suspended: each piece is one function, a step function applies one
  event, and a list of events is one interleaving, so a statement about all lists of events is one about
  all schedules. What other code supplies is an argument: the language model's stream, the tools'
  executors, the synthesis, the neural network of the detector, the hashes, \<^verbatim>\<open>datetime.fromisoformat\<close>,
  \<^verbatim>\<open>json.dumps\<close>, the readings of the clocks and whether a statement on the database succeeds. Tables of the
  database are insertion-ordered dictionaries with their constraints written out; a transaction is one
  function. Floats are rationals (reals for the energy of a frame): rounding is not modelled.

  \<^bold>\<open>What is proved.\<close> Invariants over every sequence of events: the reported states are a walk in the
  table (\<open>Conversation_FSM\<close>), a stream sends well-formed audio and ends its session once (\<open>Servicer\<close>),
  writes of a call are executed in order (\<open>Transcripts\<close>), no extraction is lost (\<open>Extractor\<close>), caps and
  attempts of campaigns hold (\<open>Campaign_Worker\<close>), invitations neither escalate nor make two accounts
  (\<open>Accounts\<close>), caller audio arrives once and in order (\<open>Vobiz_Bridge\<close>), live workflow graphs parse and
  their history has no gaps (\<open>Agent_Store\<close>), cached routes agree with the tables (\<open>Phone_Routing\<close>, which
  also shows which changes never reach them), slots are the live test calls (\<open>Webcall\<close>),
  a document, its job and its chunks change together (\<open>Knowledge_Index\<close>), a search returns only chunks of
  bases switched on for the agent, within its policy, and the cached flag agrees with the tables
  (\<open>Knowledge_Retrieval\<close>), no credential is at rest in clear and requests stay within their tenant
  (\<open>Provider_Store\<close>), no configuration gets a second client before an eviction and nobody waits for ever
  behind a lock (\<open>Provider_Cache\<close>). Every call gets one configuration, whole or the fallback
  (\<open>Runtime_Config\<close>), and a typed key comes back from its encrypted reference (\<open>Secrets\<close>). Equivalences: the fixed point of the
  editor's dataflow analysis is the set of variables that no path can miss, parsing a stream in pieces is
  parsing the whole text. Refinements: the neural detector implements an abstract hysteresis; what a turn
  of the pipeline decides is what the servicer delivers (\<open>Pipeline\<close>, over the model of \<open>Servicer\<close>). Bounds
  and termination: work of a turn, rate limits, pacing of the playback. Each group ends with examples on
  which the hypotheses hold. This theory holds what spans several components.

  \<^bold>\<open>Interfaces.\<close> \<open>dict_spec\<close> is interpreted on the insertion-ordered dictionaries that most states use;
  \<open>event_machine\<close> (what the start has and every event keeps holds after every run) on the step functions
  of the components; \<open>session_inv\<close> and \<open>session_inv_close\<close> in \<open>Servicer\<close> (what every operation of the session
  keeps survives every step of the stream) on the properties of the session; \<open>hysteresis\<close> in \<open>Vad\<close> on both
  detectors.

  \<^bold>\<open>Bounds and fuel.\<close> Scanners of text, the graph search and the detector's loop recurse on a measure that
  shrinks. The dataflow iteration is \<open>while_option\<close>, so that not ending would be \<open>None\<close>;
  \<open>variables_available_exact\<close> includes that it ends. The loop that cuts a long paragraph (\<open>cut_long\<close>) is a
  \<open>partial_function (option)\<close>: \<open>chunks_cover_text\<close> shows that it returns when the overlap is smaller than
  the chunk, \<open>large_overlap_never_returns\<close> that it does not otherwise. Only the rounds of a turn carry fuel (\<open>run_rounds\<close>): any
  number above the sum of the two limits of the orchestrator is enough for the turn to end, which is
  \<open>turn_ends\<close>.

  \<^bold>\<open>Not modelled.\<close> Providers of speech recognition, language models and synthesis, and of telephony and
  calendars: adapters of external services. Readers of uploaded files, the embedding service and the distance of the
  vector index, which are arguments here.
  The C++ gateway and the admin UI, which are not Python. Plain reads and writes of configuration rows
  (telephony, carriers, tools, mail), routers that only pass a request on, process start-up,
  metrics and logs. Generated protocol code, tests and scripts. Within
  modelled parts, each theory's opening text says what is left out.
\<close>

section \<open>Servicer and pipeline together\<close>

text \<open>What a call from the session does to the transfer state of the handler behind it.\<close>

fun transfer_effect :: "handler_call \<Rightarrow> runner \<times> transfer_state \<Rightarrow> runner \<times> transfer_state" where
  "transfer_effect OnTransferCancelled rs = transfer_cancelled rs"
| "transfer_effect (OnTransferFailed destination reason) rs = transfer_failed rs"
| "transfer_effect _ rs = rs"

text \<open>
  C40. A caller who cuts off the turn in which the transfer was accepted can never be transferred again:
  the pipeline has set its latch when it handed the request over, the servicer drops the request
  without telling it, and from then on every trigger is refused as a duplicate.
\<close>

theorem lost_transfer_blocks_later:
  assumes "cv_at c = InSpeech t" and "cv_queue c = [Some (CancelGeneration trace)]" and "cv_pending_transfer c = None"
    and "hr_transfer_request r = Some req" and "ts_requested (snd rs)"
  shows "let d = cv_step clk Exhausted (cv_step clk (Yields r) c);
             told = drop (length (s_handler_calls (cv_session c))) (s_handler_calls (cv_session d));
             rs' = fold transfer_effect told rs
         in cv_at d = Loop \<and> requested d = requested c \<and> cv_pending_transfer d = None \<and>
            evaluate uuid (session_context cfg override (snd rs')) trigger = Inl ''already_transferring''"
proof -
  note lost = cancelled_turn_loses_transfer [OF assms(1-4), of clk, unfolded Let_def]
  have "requested d = requested c" if "cv_sent d = cv_sent c @ [CancelAck trace]" for d
    using that by simp
  then show ?thesis using lost assms(5) by (simp add: Let_def session_context_def evaluate_def)
qed

theorem lost_transfer_blocks_later_witness:
  "let c = run (demo_turn @ [Received (CancelGeneration [])]);
       d = cv_step (\<lambda>_. 0) Exhausted (cv_step (\<lambda>_. 0) (Yields (empty_response\<lparr>hr_transfer_request := Some demo_transfer\<rparr>)) c);
       told = drop (length (s_handler_calls (cv_session c))) (s_handler_calls (cv_session d));
       rs' = fold transfer_effect told (sample_on_transfer, quiet_state\<lparr>ts_requested := True\<rparr>)
   in cv_at d = Loop \<and> requested d = requested c \<and> cv_pending_transfer d = None \<and>
      evaluate ''u'' (session_context sample_context None (snd rs')) (LLM_DIRECTIVE (Some (COLD, ''100'', []))) = Inl ''already_transferring''"
proof -
  let ?c = "run (demo_turn @ [Received (CancelGeneration [])])"
  have c: "cv_at ?c = InSpeech speech_turn_init" "cv_queue ?c = [Some (CancelGeneration [])]" "cv_pending_transfer ?c = None"
    by code_simp+
  have r: "hr_transfer_request (empty_response\<lparr>hr_transfer_request := Some demo_transfer\<rparr>) = Some demo_transfer" by simp
  have l: "ts_requested (snd (sample_on_transfer, quiet_state\<lparr>ts_requested := True\<rparr>))" by simp
  show ?thesis
    using lost_transfer_blocks_later [OF c r l, of "\<lambda>_. 0" "''u''" sample_context None "LLM_DIRECTIVE (Some (COLD, ''100'', []))"]
    by (simp only: Let_def)
qed

end
